(* ===== verification/Prelude.thy ===== *)
theory Prelude
  imports Main "HOL-Library.Word" "HOL-Library.Char_ord"
begin

text \<open>
  Shared vocabulary of the development: the machine types of \<open>include/basetype.h\<close> (the
  target is a 32-bit little-endian MIPS, \<open>rules.mk\<close> builds with
  \<open>mipsel-openwrt-linux-gcc\<close>), byte buffers as lists of bytes, the two's complement
  arithmetic of the C type \<open>int\<close>, C strings as bytes, and the generic lemmas on lists that
  several components use. The collection \<open>c_arith\<close> holds the rules that read machine
  arithmetic as arithmetic of \<open>nat\<close> and \<open>int\<close>.
\<close>

unbundle bit_operations_syntax

type_synonym u8 = "8 word"
type_synonym u16 = "16 word"
type_synonym u32 = "32 word"
type_synonym bytes = "8 word list"

named_theorems c_arith \<open>machine arithmetic read as arithmetic of nat and int\<close>

subsection \<open>The C type int\<close>

text \<open>A value of type \<open>int\<close> is an integer between \<open>-2^31\<close> and \<open>2^31 - 1\<close>; the target's
  instructions wrap around at 32 bits.\<close>

definition int_ok :: "int \<Rightarrow> bool" where
  "int_ok x \<longleftrightarrow> - 2147483648 \<le> x \<and> x \<le> 2147483647"

definition s32 :: "int \<Rightarrow> int" where
  "s32 x = (x + 2147483648) mod 4294967296 - 2147483648"

lemma s32_id [simp]: "int_ok x \<Longrightarrow> s32 x = x"
  by (simp add: s32_def int_ok_def)

lemma int_ok_s32 [simp]: "int_ok (s32 x)"
  using pos_mod_bound [of 4294967296 "x + 2147483648"] pos_mod_sign [of 4294967296 "x + 2147483648"]
  unfolding s32_def int_ok_def by linarith

lemma s32_add_left [simp]: "s32 (s32 x + y) = s32 (x + y)"
proof -
  have "((x + 2147483648) mod 4294967296 + y) mod 4294967296 = (x + y + 2147483648) mod 4294967296"
    by (simp only: mod_add_left_eq) (simp add: algebra_simps)
  then show ?thesis by (simp add: s32_def)
qed

lemma s32_small: "- 2147483648 \<le> x \<Longrightarrow> x \<le> 2147483647 \<Longrightarrow> s32 x = x"
  by (simp add: int_ok_def)

text \<open>C division and remainder truncate towards zero.\<close>

definition cdiv :: "int \<Rightarrow> int \<Rightarrow> int" where
  "cdiv a b = (if (a < 0) = (b < 0) then \<bar>a\<bar> div \<bar>b\<bar> else - (\<bar>a\<bar> div \<bar>b\<bar>))"

definition cmod :: "int \<Rightarrow> int \<Rightarrow> int" where
  "cmod a b = a - cdiv a b * b"

lemma cdiv_nonneg [simp]: "0 \<le> a \<Longrightarrow> 0 < b \<Longrightarrow> cdiv a b = a div b"
  by (simp add: cdiv_def)

lemma cmod_nonneg [simp]: "0 \<le> a \<Longrightarrow> 0 < b \<Longrightarrow> cmod a b = a mod b"
  by (simp add: cmod_def minus_div_mult_eq_mod)

subsection \<open>Bytes and little-endian words\<close>

definition lo8 :: "u16 \<Rightarrow> u8" where
  "lo8 w = ucast w"

definition hi8 :: "u16 \<Rightarrow> u8" where
  "hi8 w = ucast (drop_bit 8 w)"

definition u16_of :: "u8 \<Rightarrow> u8 \<Rightarrow> u16" where
  "u16_of l h = push_bit 8 (ucast h) OR ucast l"

definition u32_of :: "u8 \<Rightarrow> u8 \<Rightarrow> u8 \<Rightarrow> u8 \<Rightarrow> u32" where
  "u32_of a b c d = push_bit 24 (ucast d) OR push_bit 16 (ucast c) OR push_bit 8 (ucast b) OR ucast a"

definition le16 :: "u16 \<Rightarrow> bytes" where
  "le16 w = [lo8 w, hi8 w]"

definition le32 :: "u32 \<Rightarrow> bytes" where
  "le32 w = [ucast w, ucast (drop_bit 8 w), ucast (drop_bit 16 w), ucast (drop_bit 24 w)]"

lemma u16_of_lo_hi [simp]: "u16_of (lo8 w) (hi8 w) = w"
  unfolding u16_of_def lo8_def hi8_def by (rule bit_word_eqI) (auto simp: bit_simps)

lemma lo8_u16_of [simp]: "lo8 (u16_of l h) = l"
  unfolding u16_of_def lo8_def by (rule bit_word_eqI) (auto simp: bit_simps)

lemma hi8_u16_of [simp]: "hi8 (u16_of l h) = h"
  unfolding u16_of_def hi8_def
  by (rule bit_word_eqI) (auto simp: bit_simps dest: bit_imp_le_length)

lemma u16_eq_lo_hi: "lo8 v = lo8 w \<Longrightarrow> hi8 v = hi8 w \<Longrightarrow> v = w"
  by (metis u16_of_lo_hi)

lemma u32_of_le32 [simp]:
  "u32_of (ucast w) (ucast (drop_bit 8 w)) (ucast (drop_bit 16 w)) (ucast (drop_bit 24 w)) = w"
proof (rule bit_word_eqI)
  fix n assume n: "n < LENGTH(32)"
  then consider "n < 8" | "8 \<le> n" "n < 16" | "16 \<le> n" "n < 24" | "24 \<le> n" "n < 32"
    by fastforce
  then show "bit (u32_of (ucast w) (ucast (drop_bit 8 w)) (ucast (drop_bit 16 w))
      (ucast (drop_bit 24 w))) n = bit w n"
    by cases (auto simp: u32_of_def bit_simps)
qed

lemma length_le16 [simp]: "length (le16 w) = 2"
  by (simp add: le16_def)

lemma length_le32 [simp]: "length (le32 w) = 4"
  by (simp add: le32_def)

lemma unat_u8_lt [simp]: "unat (b :: u8) < 256"
  using unsigned_less [of b] by simp

lemma unat_u16_lt [simp]: "unat (w :: u16) < 65536"
  using unsigned_less [of w] by simp

lemma unat_u32_lt [simp]: "unat (w :: u32) < 4294967296"
  using unsigned_less [of w, where ?'a = nat] by simp

lemma unat_ucast_u8_u16 [simp]: "unat (ucast (b :: u8) :: u16) = unat b"
proof -
  have "unat b < 65536" using unat_u8_lt [of b] by linarith
  then show ?thesis by (simp add: unsigned_ucast_eq take_bit_eq_mod)
qed

lemma unat_ucast_u8_u32 [simp]: "unat (ucast (b :: u8) :: u32) = unat b"
proof -
  have "unat b < 4294967296" using unat_u8_lt [of b] by linarith
  then show ?thesis by (simp add: unsigned_ucast_eq take_bit_eq_mod)
qed

lemma unat_u16_of [c_arith]: "unat (u16_of l h) = 256 * unat h + unat l"
proof -
  have disj: "push_bit 8 (ucast h) AND ucast l = (0 :: u16)"
    by (rule bit_word_eqI) (auto simp: bit_simps dest: bit_imp_le_length)
  have "u16_of l h = push_bit 8 (ucast h) + (ucast l :: u16)"
    unfolding u16_of_def using disj by (rule disjunctive_add_eq_or [symmetric])
  moreover have "unat h < 65536" "unat l < 65536" "unat h * 256 < 65536"
      "unat h * 256 + unat l < 65536"
    using unat_u8_lt [of h] unat_u8_lt [of l] by linarith+
  ultimately show ?thesis
    by (simp add: push_bit_eq_mult unat_word_ariths)
qed

subsection \<open>Nibbles and single bits of a byte\<close>

lemma u8_high_nibble: "drop_bit 4 (b AND 0xf0) = (drop_bit 4 b :: u8)"
proof (rule bit_word_eqI)
  fix n assume "n < LENGTH(8)"
  have e: "(0xf0 :: u8) = push_bit 4 (mask 4)" by (simp add: mask_eq_exp_minus_1)
  show "bit (drop_bit 4 (b AND 0xf0)) n = bit (drop_bit 4 b) n"
    unfolding e by (auto simp: bit_simps dest: bit_imp_le_length)
qed

lemma u8_low_nibble: "b AND 0x0f = (take_bit 4 b :: u8)"
  unfolding take_bit_eq_mask mask_eq_exp_minus_1 by simp

lemma unat_low_nibble [c_arith]: "unat (b AND 0x0f :: u8) = unat b mod 16"
  unfolding u8_low_nibble by (simp only: unsigned_take_bit_eq) (simp add: take_bit_eq_mod)

lemma unat_high_nibble [c_arith]: "unat (drop_bit 4 (b AND 0xf0) :: u8) = unat b div 16"
  by (simp only: u8_high_nibble unsigned_drop_bit_eq) (simp add: drop_bit_eq_div take_bit_eq_mod)

lemma u32_and_ff: "(ucast (b :: u8) :: u32) AND 0xff = ucast b"
proof (rule word_unat_eq_iff [THEN iffD2])
  have e: "(0xff :: u32) = mask 8" by (simp add: mask_eq_exp_minus_1)
  have "unat ((ucast b :: u32) AND 0xff) = unat b mod 256"
    unfolding e by (simp only: flip: take_bit_eq_mask) (simp only: unsigned_take_bit_eq, simp add: take_bit_eq_mod)
  then show "unat ((ucast b :: u32) AND 0xff) = unat (ucast b :: u32)"
    by (simp only: unat_ucast_u8_u32 mod_less unat_u8_lt)
qed

lemma bit_shifted_mask: "bit (2 ^ k * (2 ^ j - 1) :: int) n \<longleftrightarrow> k \<le> n \<and> n < k + j"
proof -
  have "2 ^ k * (2 ^ j - 1) = push_bit k (mask j :: int)"
    by (simp add: push_bit_eq_mult mask_eq_exp_minus_1 mult.commute)
  then show ?thesis by (auto simp: bit_push_bit_iff bit_mask_iff)
qed

lemma bit_consts:
 "bit (0x80 :: int) n \<longleftrightarrow> n = 7" "bit (0xf0 :: int) n \<longleftrightarrow> 4 \<le> n \<and> n < 8" "bit (0x70 :: int) n \<longleftrightarrow> 4 \<le> n \<and> n < 7"
 "bit (0x0f :: int) n \<longleftrightarrow> n < 4" 
  using bit_shifted_mask [of 7 1 n] bit_shifted_mask [of 4 4 n] bit_shifted_mask [of 4 3 n] bit_shifted_mask [of 0 4 n] by auto

lemma u8_sign_bit: "b AND 0x80 = (0 :: u8) \<longleftrightarrow> \<not> bit b 7"
proof
  assume "b AND 0x80 = 0"
  then have "bit (b AND 0x80) 7 = bit (0 :: u8) 7" by simp
  then show "\<not> bit b 7" by (simp add: bit_simps bit_consts)
next
  assume "\<not> bit b 7"
  then show "b AND 0x80 = 0"
    by (intro bit_word_eqI) (auto simp: bit_simps bit_consts)
qed

lemma u8_or_sign:
  "(b OR 0x80) AND 0x80 \<noteq> (0 :: u8)"
  "\<not> bit b 7 \<Longrightarrow> drop_bit 4 ((b OR 0x80) AND 0x70) = (drop_bit 4 (b AND 0xf0) :: u8)"
  "(b OR 0x80) AND 0x0f = (b AND 0x0f :: u8)"
  subgoal unfolding u8_sign_bit by (simp add: bit_simps bit_consts)
  subgoal by (rule bit_word_eqI, simp only: bit_drop_bit_eq comp_def bit_and_iff bit_or_iff bit_numeral_word_iff bit_consts)
      (auto simp: numeral_eq_Suc less_Suc_eq)
  subgoal by (rule bit_word_eqI, simp only: bit_simps bit_numeral_word_iff bit_consts) auto
  done

lemma u8_bit7: "bit (b :: u8) 7 \<longleftrightarrow> 128 \<le> unat b"
proof -
  have "bit b 7 \<longleftrightarrow> odd (unat b div 128)" 
    using bit_unsigned_iff [of b 7, where ?'a=nat] by (simp add: bit_iff_odd)
  moreover have "unat b div 128 = (if unat b < 128 then 0 else 1)"
    using unat_u8_lt [of b] by (auto simp del: unat_u8_lt intro!: div_nat_eqI)
  ultimately show ?thesis by auto
qed

subsection \<open>C strings\<close>

text \<open>A C string held in a buffer is the list of its characters before the terminating
  NUL. Text buffers are lists of \<open>char\<close>, which are bytes; the two functions below move
  between characters and bytes.\<close>

definition bytes_of :: "string \<Rightarrow> bytes" where
  "bytes_of s = map of_char s"

definition string_of :: "bytes \<Rightarrow> string" where
  "string_of bs = map (\<lambda>b. char_of (unat b)) bs"

lemma length_bytes_of [simp]: "length (bytes_of s) = length s"
  by (simp add: bytes_of_def)

lemma length_string_of [simp]: "length (string_of s) = length s"
  by (simp add: string_of_def)

lemma string_of_bytes_of [simp]: "string_of (bytes_of s) = s"
proof -
  have "char_of (unat (of_char c :: u8)) = c" for c :: char
  proof -
    have "(of_char c :: u8) = of_nat (of_char c)" by (simp only: of_nat_of_char)
    moreover have "(of_char c :: nat) < 256" by (rule nat_of_char_less_256)
    ultimately have "unat (of_char c :: u8) = of_char c"
      by (simp add: unat_of_nat take_bit_eq_mod)
    then show ?thesis by simp
  qed
  then show ?thesis by (simp add: bytes_of_def string_of_def comp_def)
qed

definition cstr :: "string \<Rightarrow> string" where
  "cstr s = takeWhile (\<lambda>c. c \<noteq> CHR 0x00) s"

definition no_nul :: "string \<Rightarrow> bool" where
  "no_nul s \<longleftrightarrow> CHR 0x00 \<notin> set s"

lemma cstr_no_nul [simp]: "no_nul s \<Longrightarrow> cstr s = s"
  by (auto simp: cstr_def no_nul_def)

lemma cstr_append_nul [simp]: "no_nul s \<Longrightarrow> cstr (s @ CHR 0x00 # t) = s"
  unfolding cstr_def no_nul_def by (induction s) auto

text \<open>Decimal output, as \<open>printf\<close> formats \<open>%d\<close> and \<open>%02d\<close>.\<close>

fun dec_nat :: "nat \<Rightarrow> string" where
  "dec_nat n = (if n < 10 then [char_of (48 + n)] else dec_nat (n div 10) @ [char_of (48 + n mod 10)])"

declare dec_nat.simps [simp del]

definition dec_int :: "int \<Rightarrow> string" where
  "dec_int i = (if i < 0 then ''-'' @ dec_nat (nat (- i)) else dec_nat (nat i))"

definition dec2 :: "nat \<Rightarrow> string" where
  "dec2 n = (if n < 10 then ''0'' else '''') @ dec_nat n"

text \<open>Reading decimal digits back.\<close>

definition is_digit :: "char \<Rightarrow> bool" where
  "is_digit c \<longleftrightarrow> 48 \<le> (of_char c :: nat) \<and> (of_char c :: nat) \<le> 57"

definition digit_val :: "char \<Rightarrow> nat" where
  "digit_val c = of_char c - 48"

definition read_dec :: "string \<Rightarrow> nat" where
  "read_dec s = foldl (\<lambda>n c. 10 * n + digit_val c) 0 s"

lemma digit_char [simp]: "n < 10 \<Longrightarrow> is_digit (char_of (48 + n))" "n < 10 \<Longrightarrow> digit_val (char_of (48 + n)) = n"
  by (simp_all add: is_digit_def digit_val_def)

lemma dec_nat_digits: "list_all is_digit (dec_nat n)" and dec_nat_nonempty: "dec_nat n \<noteq> []"
  by (induction n rule: dec_nat.induct) (subst dec_nat.simps, simp)+

lemma read_dec_dec_nat: "read_dec (dec_nat n) = n"
proof (induction n rule: dec_nat.induct)
  case (1 n)
  then show ?case by (subst dec_nat.simps) (auto simp: read_dec_def)
qed

subsection \<open>Buffers\<close>

text \<open>\<open>put_at xs i ys\<close> writes the block \<open>ys\<close> over a buffer from index \<open>i\<close> on
  (\<open>memcpy(&buf[i], ...)\<close>); a block that does not fit in the buffer is a write out of
  bounds, which the model answers with \<open>None\<close>.\<close>

definition put_at :: "'a list \<Rightarrow> nat \<Rightarrow> 'a list \<Rightarrow> 'a list option" where
  "put_at xs i ys =
     (if i + length ys \<le> length xs then Some (take i xs @ ys @ drop (i + length ys) xs) else None)"

definition get_at :: "'a list \<Rightarrow> nat \<Rightarrow> nat \<Rightarrow> 'a list option" where
  "get_at xs i n = (if i + n \<le> length xs then Some (take n (drop i xs)) else None)"

lemma put_at_length: "put_at xs i ys = Some zs \<Longrightarrow> length zs = length xs"
  by (auto simp: put_at_def split: if_splits)

lemma get_put_at: "put_at xs i ys = Some zs \<Longrightarrow> get_at zs i (length ys) = Some ys"
  by (auto simp: put_at_def get_at_def min_def split: if_splits)

lemma list_update_take_drop:
  "i < length xs \<Longrightarrow> take (Suc i) (xs[i := v]) = take i xs @ [v]"
  by (simp add: take_Suc_conv_app_nth)

lemma list_eq_by_index:
  "length xs = length ys \<Longrightarrow> (\<And>i. i < length xs \<Longrightarrow> xs ! i = ys ! i) \<Longrightarrow> xs = ys"
  by (simp add: list_eq_iff_nth_eq)

end
