(* ===== verification/Crc.thy ===== *)
theory Crc
  imports Prelude
begin

text \<open>
  The checksums: the table-driven CRC-16 of \<open>lib/crc.c\<close> (\<open>CalculateCRC\<close>,
  \<open>CalculateCRCStep\<close>) and its copy \<open>cal_crc\<close> of \<open>lib/datachg.c\<close>, which guard the files
  of \<open>sys/storage\<close>, and \<open>GetCRC16\<close> of \<open>lib/datachg.c\<close>, which guards the frames of
  the links. The bit-by-bit division by the polynomial \<open>0x1021\<close> is the reference the
  tables are checked against. The locale \<open>step_checksum\<close> is the interface the storage
  components use: a checksum computed byte by byte, whose step loses no information.
\<close>

subsection \<open>The tables\<close>

definition CRC16_POLY :: u16 where
  "CRC16_POLY = 0x1021"

definition CrcTable :: "u16 list" where
  "CrcTable =
  [0x0000, 0x1021, 0x2042, 0x3063, 0x4084, 0x50a5, 0x60c6, 0x70e7, 0x8108, 0x9129, 0xa14a, 0xb16b,
   0xc18c, 0xd1ad, 0xe1ce, 0xf1ef, 0x1231, 0x0210, 0x3273, 0x2252, 0x52b5, 0x4294, 0x72f7, 0x62d6,
   0x9339, 0x8318, 0xb37b, 0xa35a, 0xd3bd, 0xc39c, 0xf3ff, 0xe3de, 0x2462, 0x3443, 0x0420, 0x1401,
   0x64e6, 0x74c7, 0x44a4, 0x5485, 0xa56a, 0xb54b, 0x8528, 0x9509, 0xe5ee, 0xf5cf, 0xc5ac, 0xd58d,
   0x3653, 0x2672, 0x1611, 0x0630, 0x76d7, 0x66f6, 0x5695, 0x46b4, 0xb75b, 0xa77a, 0x9719, 0x8738,
   0xf7df, 0xe7fe, 0xd79d, 0xc7bc, 0x48c4, 0x58e5, 0x6886, 0x78a7, 0x0840, 0x1861, 0x2802, 0x3823,
   0xc9cc, 0xd9ed, 0xe98e, 0xf9af, 0x8948, 0x9969, 0xa90a, 0xb92b, 0x5af5, 0x4ad4, 0x7ab7, 0x6a96,
   0x1a71, 0x0a50, 0x3a33, 0x2a12, 0xdbfd, 0xcbdc, 0xfbbf, 0xeb9e, 0x9b79, 0x8b58, 0xbb3b, 0xab1a,
   0x6ca6, 0x7c87, 0x4ce4, 0x5cc5, 0x2c22, 0x3c03, 0x0c60, 0x1c41, 0xedae, 0xfd8f, 0xcdec, 0xddcd,
   0xad2a, 0xbd0b, 0x8d68, 0x9d49, 0x7e97, 0x6eb6, 0x5ed5, 0x4ef4, 0x3e13, 0x2e32, 0x1e51, 0x0e70,
   0xff9f, 0xefbe, 0xdfdd, 0xcffc, 0xbf1b, 0xaf3a, 0x9f59, 0x8f78, 0x9188, 0x81a9, 0xb1ca, 0xa1eb,
   0xd10c, 0xc12d, 0xf14e, 0xe16f, 0x1080, 0x00a1, 0x30c2, 0x20e3, 0x5004, 0x4025, 0x7046, 0x6067,
   0x83b9, 0x9398, 0xa3fb, 0xb3da, 0xc33d, 0xd31c, 0xe37f, 0xf35e, 0x02b1, 0x1290, 0x22f3, 0x32d2,
   0x4235, 0x5214, 0x6277, 0x7256, 0xb5ea, 0xa5cb, 0x95a8, 0x8589, 0xf56e, 0xe54f, 0xd52c, 0xc50d,
   0x34e2, 0x24c3, 0x14a0, 0x0481, 0x7466, 0x6447, 0x5424, 0x4405, 0xa7db, 0xb7fa, 0x8799, 0x97b8,
   0xe75f, 0xf77e, 0xc71d, 0xd73c, 0x26d3, 0x36f2, 0x0691, 0x16b0, 0x6657, 0x7676, 0x4615, 0x5634,
   0xd94c, 0xc96d, 0xf90e, 0xe92f, 0x99c8, 0x89e9, 0xb98a, 0xa9ab, 0x5844, 0x4865, 0x7806, 0x6827,
   0x18c0, 0x08e1, 0x3882, 0x28a3, 0xcb7d, 0xdb5c, 0xeb3f, 0xfb1e, 0x8bf9, 0x9bd8, 0xabbb, 0xbb9a,
   0x4a75, 0x5a54, 0x6a37, 0x7a16, 0x0af1, 0x1ad0, 0x2ab3, 0x3a92, 0xfd2e, 0xed0f, 0xdd6c, 0xcd4d,
   0xbdaa, 0xad8b, 0x9de8, 0x8dc9, 0x7c26, 0x6c07, 0x5c64, 0x4c45, 0x3ca2, 0x2c83, 0x1ce0, 0x0cc1,
   0xef1f, 0xff3e, 0xcf5d, 0xdf7c, 0xaf9b, 0xbfba, 0x8fd9, 0x9ff8, 0x6e17, 0x7e36, 0x4e55, 0x5e74,
   0x2e93, 0x3eb2, 0x0ed1, 0x1ef0]"

definition g_crc_tab :: "u16 list" where
  "g_crc_tab =
  [0x0000, 0x1021, 0x2042, 0x3063, 0x4084, 0x50a5, 0x60c6, 0x70e7, 0x8108, 0x9129, 0xa14a, 0xb16b,
   0xc18c, 0xd1ad, 0xe1ce, 0xf1ef, 0x1231, 0x0210, 0x3273, 0x2252, 0x52b5, 0x4294, 0x72f7, 0x62d6,
   0x9339, 0x8318, 0xb37b, 0xa35a, 0xd3bd, 0xc39c, 0xf3ff, 0xe3de, 0x2462, 0x3443, 0x0420, 0x1401,
   0x64e6, 0x74c7, 0x44a4, 0x5485, 0xa56a, 0xb54b, 0x8528, 0x9509, 0xe5ee, 0xf5cf, 0xc5ac, 0xd58d,
   0x3653, 0x2672, 0x1611, 0x0630, 0x76d7, 0x66f6, 0x5695, 0x46b4, 0xb75b, 0xa77a, 0x9719, 0x8738,
   0xf7df, 0xe7fe, 0xd79d, 0xc7bc, 0x48c4, 0x58e5, 0x6886, 0x78a7, 0x0840, 0x1861, 0x2802, 0x3823,
   0xc9cc, 0xd9ed, 0xe98e, 0xf9af, 0x8948, 0x9969, 0xa90a, 0xb92b, 0x5af5, 0x4ad4, 0x7ab7, 0x6a96,
   0x1a71, 0x0a50, 0x3a33, 0x2a12, 0xdbfd, 0xcbdc, 0xfbbf, 0xeb9e, 0x9b79, 0x8b58, 0xbb3b, 0xab1a,
   0x6ca6, 0x7c87, 0x4ce4, 0x5cc5, 0x2c22, 0x3c03, 0x0c60, 0x1c41, 0xedae, 0xfd8f, 0xcdec, 0xddcd,
   0xad2a, 0xbd0b, 0x8d68, 0x9d49, 0x7e97, 0x6eb6, 0x5ed5, 0x4ef4, 0x3e13, 0x2e32, 0x1e51, 0x0e70,
   0xff9f, 0xefbe, 0xdfdd, 0xcffc, 0xbf1b, 0xaf3a, 0x9f59, 0x8f78, 0x9188, 0x81a9, 0xb1ca, 0xa1eb,
   0xd10c, 0xc12d, 0xf14e, 0xe16f, 0x1080, 0x00a1, 0x30c2, 0x20e3, 0x5004, 0x4025, 0x7046, 0x6067,
   0x83b9, 0x9398, 0xa3fb, 0xb3da, 0xc33d, 0xd31c, 0xe37f, 0xf35e, 0x02b1, 0x1290, 0x22f3, 0x32d2,
   0x4235, 0x5214, 0x6277, 0x7256, 0xb5ea, 0xa5cb, 0x95a8, 0x8589, 0xf56e, 0xe54f, 0xd52c, 0xc50d,
   0x34e2, 0x24c3, 0x14a0, 0x0481, 0x7466, 0x6447, 0x5424, 0x4405, 0xa7db, 0xb7fa, 0x8799, 0x97b8,
   0xe75f, 0xf77e, 0xc71d, 0xd73c, 0x26d3, 0x36f2, 0x0691, 0x16b0, 0x6657, 0x7676, 0x4615, 0x5634,
   0xd94c, 0xc96d, 0xf90e, 0xe92f, 0x99c8, 0x89e9, 0xb98a, 0xa9ab, 0x5844, 0x4865, 0x7806, 0x6827,
   0x18c0, 0x08e1, 0x3882, 0x28a3, 0xcb7d, 0xdb5c, 0xeb3f, 0xfb1e, 0x8bf9, 0x9bd8, 0xabbb, 0xbb9a,
   0x4a75, 0x5a54, 0x6a37, 0x7a16, 0x0af1, 0x1ad0, 0x2ab3, 0x3a92, 0xfd2e, 0xed0f, 0xdd6c, 0xcd4d,
   0xbdaa, 0xad8b, 0x9de8, 0x8dc9, 0x7c26, 0x6c07, 0x5c64, 0x4c45, 0x3ca2, 0x2c83, 0x1ce0, 0x0cc1,
   0xef1f, 0xff3e, 0xcf5d, 0xdf7c, 0xaf9b, 0xbfba, 0x8fd9, 0x9ff8, 0x6e17, 0x7e36, 0x4e55, 0x5e74,
   0x2e93, 0x3eb2, 0x0ed1, 0x1ef0]"

definition auchCRCHi :: "u8 list" where
  "auchCRCHi =
  [0xad, 0x50, 0x81, 0x40, 0x01, 0xc0, 0x80, 0x41, 0x01, 0xc0, 0x80, 0x41, 0x00, 0xc1, 0x81, 0x40,
   0x01, 0xc0, 0x80, 0x41, 0x00, 0xc1, 0x81, 0x40, 0x00, 0xc1, 0x81, 0x40, 0x01, 0xc0, 0x80, 0x41,
   0x01, 0xc0, 0x80, 0x41, 0x00, 0xc1, 0x81, 0x40, 0x00, 0xc1, 0x81, 0x40, 0x01, 0xc0, 0x80, 0x41,
   0x00, 0xc1, 0x81, 0x40, 0x01, 0xc0, 0x80, 0x41, 0x01, 0xc0, 0x80, 0x41, 0x00, 0xc1, 0x81, 0x40,
   0x01, 0xc0, 0x80, 0x41, 0x00, 0xc1, 0x81, 0x40, 0x00, 0xc1, 0x81, 0x40, 0x01, 0xc0, 0x80, 0x41,
   0x00, 0xc1, 0x81, 0x40, 0x01, 0xc0, 0x80, 0x41, 0x01, 0xc0, 0x80, 0x41, 0x00, 0xc1, 0x81, 0x40,
   0x00, 0xc1, 0x81, 0x40, 0x01, 0xc0, 0x80, 0x41, 0x01, 0xc0, 0x80, 0x41, 0x00, 0xc1, 0x81, 0x40,
   0x01, 0xc0, 0x80, 0x41, 0x00, 0xc1, 0x81, 0x40, 0x00, 0xc1, 0x81, 0x40, 0x01, 0xc0, 0x80, 0x41,
   0x01, 0xc0, 0x80, 0x41, 0x00, 0xc1, 0x81, 0x40, 0x00, 0xc1, 0x81, 0x40, 0x01, 0xc0, 0x80, 0x41,
   0x00, 0xc1, 0x81, 0x40, 0x01, 0xc0, 0x80, 0x41, 0x01, 0xc0, 0x80, 0x41, 0x00, 0xc1, 0x81, 0x40,
   0x00, 0xc1, 0x81, 0x40, 0x01, 0xc0, 0x80, 0x41, 0x01, 0xc0, 0x80, 0x41, 0x00, 0xc1, 0x81, 0x40,
   0x01, 0xc0, 0x80, 0x41, 0x00, 0xc1, 0x81, 0x40, 0x00, 0xc1, 0x81, 0x40, 0x01, 0xc0, 0x80, 0x41,
   0x00, 0xc1, 0x81, 0x40, 0x01, 0xc0, 0x80, 0x41, 0x01, 0xc0, 0x80, 0x41, 0x00, 0xc1, 0x81, 0x40,
   0x01, 0xc0, 0x80, 0x41, 0x00, 0xc1, 0x81, 0x40, 0x00, 0xc1, 0x81, 0x40, 0x01, 0xc0, 0x80, 0x41,
   0x01, 0xc0, 0x80, 0x41, 0x00, 0xc1, 0x81, 0x40, 0x00, 0xc1, 0x81, 0x40, 0x01, 0xc0, 0x80, 0x41,
   0x00, 0xc1, 0x81, 0x40, 0x01, 0xc0, 0x80, 0x41, 0x01, 0xc0, 0x80, 0x41, 0x00, 0xc1, 0x23, 0x50]"

definition auchCRCLo :: "u8 list" where
  "auchCRCLo =
  [0xad, 0x50, 0xc1, 0x01, 0xc3, 0x03, 0x02, 0xc2, 0xc6, 0x06, 0x07, 0xc7, 0x05, 0xc5, 0xc4, 0x04,
   0xcc, 0x0c, 0x0d, 0xcd, 0x0f, 0xcf, 0xce, 0x0e, 0x0a, 0xca, 0xcb, 0x0b, 0xc9, 0x09, 0x08, 0xc8,
   0xd8, 0x18, 0x19, 0xd9, 0x1b, 0xdb, 0xda, 0x1a, 0x1e, 0xde, 0xdf, 0x1f, 0xdd, 0x1d, 0x1c, 0xdc,
   0x14, 0xd4, 0xd5, 0x15, 0xd7, 0x17, 0x16, 0xd6, 0xd2, 0x12, 0x13, 0xd3, 0x11, 0xd1, 0xd0, 0x10,
   0xf0, 0x30, 0x31, 0xf1, 0x33, 0xf3, 0xf2, 0x32, 0x36, 0xf6, 0xf7, 0x37, 0xf5, 0x35, 0x34, 0xf4,
   0x3c, 0xfc, 0xfd, 0x3d, 0xff, 0x3f, 0x3e, 0xfe, 0xfa, 0x3a, 0x3b, 0xfb, 0x39, 0xf9, 0xf8, 0x38,
   0x28, 0xe8, 0xe9, 0x29, 0xeb, 0x2b, 0x2a, 0xea, 0xee, 0x2e, 0x2f, 0xef, 0x2d, 0xed, 0xec, 0x2c,
   0xe4, 0x24, 0x25, 0xe5, 0x27, 0xe7, 0xe6, 0x26, 0x22, 0xe2, 0xe3, 0x23, 0xe1, 0x21, 0x20, 0xe0,
   0xa0, 0x60, 0x61, 0xa1, 0x63, 0xa3, 0xa2, 0x62, 0x66, 0xa6, 0xa7, 0x67, 0xa5, 0x65, 0x64, 0xa4,
   0x6c, 0xac, 0xad, 0x6d, 0xaf, 0x6f, 0x6e, 0xae, 0xaa, 0x6a, 0x6b, 0xab, 0x69, 0xa9, 0xa8, 0x68,
   0x78, 0xb8, 0xb9, 0x79, 0xbb, 0x7b, 0x7a, 0xba, 0xbe, 0x7e, 0x7f, 0xbf, 0x7d, 0xbd, 0xbc, 0x7c,
   0xb4, 0x74, 0x75, 0xb5, 0x77, 0xb7, 0xb6, 0x76, 0x72, 0xb2, 0xb3, 0x73, 0xb1, 0x71, 0x70, 0xb0,
   0x50, 0x90, 0x91, 0x51, 0x93, 0x53, 0x52, 0x92, 0x96, 0x56, 0x57, 0x97, 0x55, 0x95, 0x94, 0x54,
   0x9c, 0x5c, 0x5d, 0x9d, 0x5f, 0x9f, 0x9e, 0x5e, 0x5a, 0x9a, 0x9b, 0x5b, 0x99, 0x59, 0x58, 0x98,
   0x88, 0x48, 0x49, 0x89, 0x4b, 0x8b, 0x8a, 0x4a, 0x4e, 0x8e, 0x8f, 0x4f, 0x8d, 0x4d, 0x4c, 0x8c,
   0x44, 0x84, 0x85, 0x45, 0x87, 0x47, 0x46, 0x86, 0x82, 0x42, 0x43, 0x83, 0x41, 0x81, 0x23, 0x50]"

subsection \<open>The functions\<close>

text \<open>The buffer and its length are one list of bytes: the \<open>count\<close> bytes the function
  reads. An empty buffer (\<open>count <= 0\<close>) gives the start value unchanged.\<close>

definition crc_step :: "u16 \<Rightarrow> u8 \<Rightarrow> u16" where
  "crc_step temp b = push_bit 8 temp XOR (CrcTable ! unat (drop_bit 8 temp XOR ucast b))"

fun crc_loop :: "u16 \<Rightarrow> bytes \<Rightarrow> u16" where
  "crc_loop temp [] = temp"
| "crc_loop temp (b # bs) = crc_loop (crc_step temp b) bs"

definition CalculateCRC :: "bytes \<Rightarrow> u16" where
  "CalculateCRC buf = (if length buf = 0 then 0 else crc_loop 0 buf)"

definition CalculateCRCStep :: "bytes \<Rightarrow> u16 \<Rightarrow> u16" where
  "CalculateCRCStep buf pcrc = (if length buf = 0 then pcrc else crc_loop pcrc buf)"

fun cal_crc_loop :: "u16 \<Rightarrow> bytes \<Rightarrow> u16" where
  "cal_crc_loop temp [] = temp"
| "cal_crc_loop temp (b # bs) =
     cal_crc_loop (push_bit 8 temp XOR (g_crc_tab ! unat (drop_bit 8 temp XOR ucast b))) bs"

definition cal_crc :: "bytes \<Rightarrow> u16" where
  "cal_crc buf = (if length buf = 0 then 0 else cal_crc_loop 0 buf)"

text \<open>\<open>GetCRC16\<close> keeps the two halves of its register in two bytes.\<close>

fun GetCRC16_loop :: "u8 \<Rightarrow> u8 \<Rightarrow> bytes \<Rightarrow> u8 \<times> u8" where
  "GetCRC16_loop hi lo [] = (hi, lo)"
| "GetCRC16_loop hi lo (b # bs) =
     (let uIndex = unat (hi XOR b)
      in GetCRC16_loop (lo XOR auchCRCHi ! uIndex) (auchCRCLo ! uIndex) bs)"

definition GetCRC16 :: "bytes \<Rightarrow> u16" where
  "GetCRC16 msg = (case GetCRC16_loop 0xFF 0xFF msg of (hi, lo) \<Rightarrow> push_bit 8 (ucast hi) OR ucast lo)"

subsection \<open>The reference: division by the polynomial, one bit at a time\<close>

definition poly_bit :: "u16 \<Rightarrow> u16" where
  "poly_bit c = (if bit c 15 then push_bit 1 c XOR CRC16_POLY else push_bit 1 c)"

definition poly_byte :: "u16 \<Rightarrow> u8 \<Rightarrow> u16" where
  "poly_byte c b = (poly_bit ^^ 8) (c XOR push_bit 8 (ucast b))"

definition poly_crc :: "bytes \<Rightarrow> u16" where
  "poly_crc buf = foldl poly_byte 0 buf"

lemma length_tables [simp]:
  "length CrcTable = 256" "length g_crc_tab = 256" "length auchCRCHi = 256" "length auchCRCLo = 256"
  by (simp_all add: CrcTable_def g_crc_tab_def auchCRCHi_def auchCRCLo_def)

lemma tables_agree: "g_crc_tab = CrcTable"
  by (simp add: CrcTable_def g_crc_tab_def)


subsection \<open>The tables are the polynomial\<close>

text \<open>One bit of the division is linear for XOR, so the table is the XOR span of eight
  entries, each of them eight steps of the division.\<close>

fun xor_span :: "u16 list \<Rightarrow> u16 list" where
  "xor_span [] = [0]"
| "xor_span (g # gs) = xor_span gs @ map (\<lambda>t. g XOR t) (xor_span gs)"

definition poly_hi :: "u16 \<Rightarrow> u16" where
  "poly_hi w = (poly_bit ^^ 8) (push_bit 8 w)"

lemma funpow_8: "(f ^^ 8) x = f (f (f (f (f (f (f (f x)))))))"
  by (simp add: numeral_eq_Suc)

lemma CrcTable_span:
  "CrcTable = xor_span [0x9188, 0x48C4, 0x2462, 0x1231, 0x8108, 0x4084, 0x2042, 0x1021]"
  by (simp add: CrcTable_def)

lemma poly_bit_xor: "poly_bit (x XOR y) = poly_bit x XOR poly_bit y"
  unfolding poly_bit_def by (rule bit_word_eqI) (auto simp: bit_simps)

lemma poly_pow_xor: "(poly_bit ^^ n) (x XOR y) = (poly_bit ^^ n) x XOR (poly_bit ^^ n) y"
  by (induction n) (simp_all add: poly_bit_xor)

lemma poly_hi_xor: "poly_hi (x XOR y) = poly_hi x XOR poly_hi y"
  by (simp add: poly_hi_def poly_pow_xor push_bit_xor)

lemma poly_hi_basis:
  "map poly_hi [128, 64, 32, 16, 8, 4, 2, 1] =
    [0x9188, 0x48C4, 0x2462, 0x1231, 0x8108, 0x4084, 0x2042, 0x1021]"
  unfolding poly_hi_def funpow_8 by (simp add: poly_bit_def CRC16_POLY_def)

lemma poly_hi_0: "poly_hi 0 = 0"
  unfolding poly_hi_def funpow_8 by (simp add: poly_bit_def CRC16_POLY_def)

lemma power_add_xor:
  assumes "i < 2 ^ n" "n < 16"
  shows "(word_of_nat (2 ^ n + i) :: u16) = 2 ^ n XOR word_of_nat i"
proof -
  have "\<not> bit i n" if "i < 2 ^ n" for i :: nat
    using that by (simp add: bit_iff_odd)
  with assms have "2 ^ n AND (word_of_nat i :: u16) = 0"
    by (intro bit_word_eqI) (auto simp: bit_simps)
  then show ?thesis by (simp add: disjunctive_add_eq_xor)
qed

lemma xor_span_map: "n \<le> 16 \<Longrightarrow>
  xor_span (map poly_hi (map (\<lambda>k. 2 ^ k) (rev [0..<n]))) =
  map (\<lambda>i. poly_hi (word_of_nat i)) [0..<2 ^ n]"
proof (induction n)
  case 0 then show ?case by (simp add: poly_hi_0)
next
  case (Suc n)
  have "[0..<2 ^ Suc n] = [0..<2 ^ n] @ map (\<lambda>i. 2 ^ n + i) [0..<(2::nat) ^ n]"
    by (simp add: map_add_upt mult_2 upt_add_eq_append [symmetric] add.commute)
  moreover have "poly_hi (word_of_nat (2 ^ n + i)) = poly_hi (2 ^ n) XOR poly_hi (word_of_nat i)"
    if "i < 2 ^ n" for i
    using that Suc.prems by (simp only: power_add_xor poly_hi_xor Suc_le_eq)
  ultimately show ?case using Suc by (simp del: of_nat_add)
qed

lemma CrcTable_poly: "CrcTable = map (\<lambda>i. poly_hi (word_of_nat i)) [0..<256]"
proof -
  have "map (\<lambda>k. 2 ^ k) (rev [0..<8]) = [128, 64, 32, 16, 8, 4, 2, 1 :: u16]"
    by (simp add: upt_rec)
  then show ?thesis
    using xor_span_map [of 8] by (simp only: CrcTable_span poly_hi_basis [symmetric]) simp
qed

lemma CrcTable_nth: "unat w < 256 \<Longrightarrow> CrcTable ! unat w = poly_hi w"
  by (simp add: CrcTable_poly)

lemma poly_low: "k \<le> 8 \<Longrightarrow> (poly_bit ^^ k) (ucast (b :: u8)) = push_bit k (ucast b)"
proof (induction k)
  case (Suc k)
  have "\<not> bit (push_bit k (ucast b :: u16)) 15"
    using Suc.prems by (auto simp: bit_simps dest: bit_imp_le_length)
  with Suc show ?case
    by (simp add: poly_bit_def push_bit_push_bit)
qed simp

lemma crc_step_poly: "crc_step c b = poly_byte c b"
proof -
  have idx: "drop_bit 8 c XOR ucast b = (ucast (hi8 c XOR b) :: u16)"
    unfolding hi8_def by (rule bit_word_eqI) (auto simp: bit_simps dest: bit_imp_le_length)
  have split: "c XOR push_bit 8 (ucast b) = push_bit 8 (ucast (hi8 c XOR b)) XOR ucast (lo8 c)"
    unfolding hi8_def lo8_def
    by (rule bit_word_eqI) (auto simp: bit_simps dest: bit_imp_le_length)
  have low: "push_bit 8 (ucast (lo8 c)) = push_bit 8 c"
    unfolding lo8_def by (rule bit_word_eqI) (auto simp: bit_simps)
  have "CrcTable ! unat (hi8 c XOR b) = poly_hi (ucast (hi8 c XOR b))"
    using CrcTable_nth [of "ucast (hi8 c XOR b)"] by simp
  then have "crc_step c b = push_bit 8 c XOR poly_hi (ucast (hi8 c XOR b))"
    by (simp add: crc_step_def idx)
  also have "\<dots> = poly_byte c b"
    unfolding poly_byte_def split poly_pow_xor poly_low [OF order_refl] low poly_hi_def
    by (simp add: xor.commute)
  finally show ?thesis .
qed

lemma crc_loop_foldl: "crc_loop c bs = foldl crc_step c bs"
  by (induction bs arbitrary: c) simp_all

lemma cal_crc_loop_eq: "cal_crc_loop c bs = crc_loop c bs"
  by (induction bs arbitrary: c) (simp_all add: tables_agree crc_step_def)

lemma cal_crc_eq: "cal_crc bs = CalculateCRC bs"
  by (simp add: cal_crc_def CalculateCRC_def cal_crc_loop_eq)

lemma CalculateCRC_loop: "CalculateCRC bs = crc_loop 0 bs"
  by (simp add: CalculateCRC_def)

lemma CalculateCRCStep_loop: "CalculateCRCStep bs c = crc_loop c bs"
  by (simp add: CalculateCRCStep_def)

lemma crc_loop_append: "crc_loop c (xs @ ys) = crc_loop (crc_loop c xs) ys"
  by (simp add: crc_loop_foldl)

subsection \<open>What a checksum of this kind detects\<close>

locale step_checksum =
  fixes step :: "'s \<Rightarrow> 'b \<Rightarrow> 's"
  assumes step_state: "step s b = step t b \<Longrightarrow> s = t"
    and step_byte: "step s b = step s c \<Longrightarrow> b = c"
begin

lemma run_state: "foldl step s bs = foldl step t bs \<Longrightarrow> s = t"
  by (induction bs arbitrary: s t) (auto dest: step_state)

lemma run_byte: "foldl step s (xs @ b # ys) = foldl step s (xs @ c # ys) \<Longrightarrow> b = c"
  by (auto dest: run_state step_byte)

lemma change_detected:
  assumes "i < length bs" and "v \<noteq> bs ! i"
  shows "foldl step s (bs[i := v]) \<noteq> foldl step s bs"
proof
  assume "foldl step s (bs[i := v]) = foldl step s bs"
  moreover have "bs[i := v] = take i bs @ v # drop (Suc i) bs"
    using assms(1) by (rule upd_conv_take_nth_drop)
  moreover have "bs = take i bs @ bs ! i # drop (Suc i) bs"
    using assms(1) by (rule id_take_nth_drop)
  ultimately show False using assms(2) run_byte by metis
qed

end

lemma xor_cancel_left: "a XOR b = a XOR c \<Longrightarrow> b = (c :: 'a::len word)"
  by (metis xor.assoc xor.left_neutral xor_self_eq)

lemma xor_cancel_right: "b XOR a = c XOR a \<Longrightarrow> b = (c :: 'a::len word)"
  by (metis xor_cancel_left xor.commute)

lemma poly_bit_inj: "poly_bit x = poly_bit y \<Longrightarrow> x = y"
proof -
  assume eq: "poly_bit x = poly_bit y"
  have b0: "bit (poly_bit z) 0 = bit z 15" for z
    by (simp add: poly_bit_def CRC16_POLY_def bit_0 even_xor_iff)
  have top: "bit x 15 = bit y 15"
    using b0 [of x] b0 [of y] eq by simp
  have "push_bit 1 x = push_bit 1 y"
  proof (cases "bit x 15")
    case True
    with eq top have "push_bit 1 x XOR CRC16_POLY = push_bit 1 y XOR CRC16_POLY"
      by (simp add: poly_bit_def)
    then show ?thesis by (rule xor_cancel_right)
  next
    case False
    with eq top show ?thesis by (simp add: poly_bit_def)
  qed
  then have "bit (push_bit 1 x) (Suc n) = bit (push_bit 1 y) (Suc n)" for n
    by (simp only:)
  then have shift: "n < 15 \<Longrightarrow> bit x n = bit y n" for n
    unfolding bit_push_bit_iff by simp blast
  show "x = y"
  proof (rule bit_word_eqI)
    fix n assume "n < LENGTH(16)"
    with top shift [of n] show "bit x n = bit y n"
      by (cases "n = 15") auto
  qed
qed

lemma poly_pow_inj: "(poly_bit ^^ n) x = (poly_bit ^^ n) y \<Longrightarrow> x = y"
  by (induction n) (auto dest: poly_bit_inj)

interpretation crc16: step_checksum crc_step
proof unfold_locales
  fix s t :: u16 and b :: u8
  assume "crc_step s b = crc_step t b"
  then have "s XOR push_bit 8 (ucast b) = t XOR push_bit 8 (ucast b)"
    unfolding crc_step_poly poly_byte_def by (rule poly_pow_inj)
  then show "s = t"
    by (rule xor_cancel_right)
next
  fix s :: u16 and b c :: u8
  assume "crc_step s b = crc_step s c"
  then have "s XOR push_bit 8 (ucast b) = s XOR push_bit 8 (ucast c)"
    unfolding crc_step_poly poly_byte_def by (rule poly_pow_inj)
  then have eq: "push_bit 8 (ucast b :: u16) = push_bit 8 (ucast c)"
    by (rule xor_cancel_left)
  show "b = c"
  proof (rule bit_word_eqI)
    fix n assume "n < LENGTH(8)"
    moreover have "bit (push_bit 8 (ucast b :: u16)) (n + 8) = bit (push_bit 8 (ucast c :: u16)) (n + 8)"
      by (simp only: eq)
    ultimately show "bit b n = bit c n"
      by (simp add: bit_simps)
  qed
qed

lemma CalculateCRC_change:
  "i < length bs \<Longrightarrow> v \<noteq> bs ! i \<Longrightarrow> CalculateCRC (bs[i := v]) \<noteq> CalculateCRC bs"
  by (simp add: CalculateCRC_loop crc_loop_foldl crc16.change_detected)

subsection \<open>The frame checksum\<close>

lemma GetCRC16_u16_of: "GetCRC16 msg = (case GetCRC16_loop 0xFF 0xFF msg of (hi, lo) \<Rightarrow> u16_of lo hi)"
  by (simp add: GetCRC16_def u16_of_def)

lemma GetCRC16_loop_append:
  "GetCRC16_loop hi lo (xs @ ys) = (case GetCRC16_loop hi lo xs of (h, l) \<Rightarrow> GetCRC16_loop h l ys)"
  by (induction xs arbitrary: hi lo) (simp_all add: Let_def)

lemma crc16_duplicate:
  "auchCRCHi ! 1 = auchCRCHi ! 255" "auchCRCLo ! 1 = auchCRCLo ! 255"
  by (simp_all add: auchCRCHi_def auchCRCLo_def)

lemma GetCRC16_step_collision:
  "GetCRC16_loop hi lo ((hi XOR 1) # m) = GetCRC16_loop hi lo ((hi XOR 255) # m)"
proof -
  have x: "hi XOR (hi XOR w) = w" for w :: u8
    by (simp add: xor.assoc [symmetric])
  show ?thesis
    using crc16_duplicate by (simp add: Let_def x)
qed

subsection \<open>Properties\<close>

lemma crc_loop_poly: "crc_loop c bs = foldl poly_byte c bs"
  by (induction bs arbitrary: c) (simp_all add: crc_step_poly)

text \<open>C12: the table-driven CRC of \<open>lib/crc.c\<close>, and its copy in \<open>lib/datachg.c\<close>, compute the
  remainder of the bit-by-bit division by the polynomial 0x1021, for every buffer.\<close>

theorem CalculateCRC_polynomial:
  "CalculateCRC bs = poly_crc bs \<and> cal_crc bs = poly_crc bs"
  by (simp add: cal_crc_eq poly_crc_def CalculateCRC_loop crc_loop_poly)

text \<open>C27: running \<open>CalculateCRCStep\<close> over a buffer piece by piece, from 0, gives the checksum
  \<open>CalculateCRC\<close> of the whole buffer, however it is cut, and changing one byte of a buffer,
  at any position, changes its checksum.\<close>

theorem CalculateCRC_pieces_and_detection:
  "fold CalculateCRCStep pieces 0 = CalculateCRC (concat pieces) \<and>
   (\<forall>i < length bs. \<forall>v. v \<noteq> bs ! i \<longrightarrow> CalculateCRC (bs[i := v]) \<noteq> CalculateCRC bs)"
proof -
  have "fold CalculateCRCStep pieces c = crc_loop c (concat pieces)" for c
    by (induction pieces arbitrary: c) (simp_all add: CalculateCRCStep_loop crc_loop_append)
  then show ?thesis
    using CalculateCRC_change by (auto simp: CalculateCRC_loop)
qed

theorem CalculateCRC_pieces_and_detection_witness:
  "(0::nat) < length [1 :: u8, 2] \<and> (7 :: u8) \<noteq> [1, 2] ! 0 \<and>
   fold CalculateCRCStep [[1], [2]] 0 = CalculateCRC [1, 2] \<and>
   CalculateCRC ([1, 2][0 := 7]) \<noteq> CalculateCRC [1, 2]"
  using CalculateCRC_pieces_and_detection [of "[[1], [2]]" "[1, 2]"] by force

text \<open>The tables of \<open>GetCRC16\<close> hold the same pair of bytes at the indices 1 and 255, so
  after any frame prefix there are two different bytes the checksum does not tell apart,
  whatever follows: a corrupted byte goes unnoticed on every link.\<close>

theorem GetCRC16_collision:
  "\<exists>b c. b \<noteq> c \<and> (\<forall>rest. GetCRC16 (prefix @ b # rest) = GetCRC16 (prefix @ c # rest))"
proof -
  obtain hi lo where loop: "GetCRC16_loop 0xFF 0xFF prefix = (hi, lo)"
    by (cases "GetCRC16_loop 0xFF 0xFF prefix")
  have "GetCRC16 (prefix @ (hi XOR 1) # rest) = GetCRC16 (prefix @ (hi XOR 255) # rest)" for rest
    unfolding GetCRC16_def GetCRC16_loop_append loop prod.case GetCRC16_step_collision ..
  moreover have "hi XOR 1 \<noteq> hi XOR 255"
    using xor_cancel_left [of hi 1 255] by auto
  ultimately show ?thesis by blast
qed

end
