(* ===== verification/Bcd.thy ===== *)
theory Bcd
  imports Prelude
begin

text \<open>
  The BCD codecs of \<open>lib/bcd.c\<close>, their older copies in \<open>lib/datachg.c\<close> and the meter data
  types 02 (power) and 03 (energy) of \<open>lib/datatype_gb.c\<close>. A BCD number is a little-endian
  list of bytes with two decimal digits each. A pair of arguments (buffer, length) is the
  list of the bytes the length covers, so a length that is not positive is the empty list;
  a function that fills a caller's buffer returns the bytes it writes. \<open>unsigned int\<close> is a
  32-bit word, \<open>int\<close> an integer kept in range by \<open>s32\<close>.
\<close>

subsection \<open>Digits\<close>

text \<open>The two digits of a byte, as the decoding loops add them up.\<close>

definition bcd_digits :: "u8 \<Rightarrow> u8" where
  "bcd_digits b = drop_bit 4 (b AND 0xf0) * 10 + (b AND 0x0f)"

text \<open>The byte the encoding loops make of the two lowest digits of an unsigned number, and
  of an int.\<close>

definition bcd_byte :: "u32 \<Rightarrow> u8" where
  "bcd_byte ul = ucast (ul mod 10) + ucast (push_bit 4 ((ul div 10) mod 10))"

definition bcd_byte_int :: "int \<Rightarrow> u8" where
  "bcd_byte_int l = word_of_int (cmod l 10) + word_of_int (cmod (cdiv l 10) 10 * 16)"

subsection \<open>Unsigned numbers\<close>

fun BcdToUnsigned :: "bytes \<Rightarrow> u32" where
  "BcdToUnsigned [] = 0"
| "BcdToUnsigned (b # bcd) = BcdToUnsigned bcd * 100 + (ucast (bcd_digits b) AND 0xff)"

fun UnsignedToBcd :: "u32 \<Rightarrow> nat \<Rightarrow> bytes \<times> int" where
  "UnsignedToBcd ul 0 = ([], if ul \<noteq> 0 then 1 else 0)"
| "UnsignedToBcd ul (Suc n) =
     (if ul = 0 then (case UnsignedToBcd ul n of (bs, r) \<Rightarrow> (0 # bs, r))
      else (case UnsignedToBcd (ul div 10 div 10) n of (bs, r) \<Rightarrow> (bcd_byte ul # bs, r)))"

text \<open>The copies in \<open>lib/datachg.c\<close>. \<open>ltobcd\<close> clears the buffer and stops when the number is
  used up or the buffer is full.\<close>

fun bcdtol :: "bytes \<Rightarrow> u32" where
  "bcdtol [] = 0"
| "bcdtol (b # bcd) = bcdtol bcd * 100 + (ucast (drop_bit 4 (b AND 0xf0) * 10 + (b AND 0x0f)) AND 0xff)"

fun ltobcd :: "u32 \<Rightarrow> nat \<Rightarrow> bytes \<times> int" where
  "ltobcd ul 0 = (if ul \<noteq> 0 then ([], 1) else ([], 0))"
| "ltobcd ul (Suc n) =
     (if ul \<noteq> 0 then (case ltobcd (ul div 10 div 10) n of (bs, r) \<Rightarrow> (bcd_byte ul # bs, r))
      else (replicate (Suc n) 0, 0))"

subsection \<open>Signed numbers\<close>

text \<open>\<open>BcdToInt\<close> takes the sign from the top bit of the last byte; for an empty buffer it
  returns 1.\<close>

fun BcdToInt_low :: "bytes \<Rightarrow> int \<Rightarrow> int" where
  "BcdToInt_low [] rtn = rtn"
| "BcdToInt_low (b # bcd) rtn = s32 (s32 (BcdToInt_low bcd rtn * 100) + uint (bcd_digits b))"

definition BcdToInt :: "bytes \<Rightarrow> int" where
  "BcdToInt bcd =
     (if bcd = [] then 1
      else
        let b = last bcd;
            flag = b AND 0x80 \<noteq> 0;
            uc = (if flag then drop_bit 4 (b AND 0x70) * 10 else drop_bit 4 (b AND 0xf0) * 10);
            rtn = BcdToInt_low (butlast bcd) (uint (uc + (b AND 0x0f)))
        in if flag then s32 (- rtn) else rtn)"

fun IntToBcd_loop :: "int \<Rightarrow> nat \<Rightarrow> bytes \<times> int" where
  "IntToBcd_loop l 0 = ([], l)"
| "IntToBcd_loop l (Suc n) =
     (if l = 0 then (case IntToBcd_loop l n of (bs, r) \<Rightarrow> (0 # bs, r))
      else (case IntToBcd_loop (cdiv (cdiv l 10) 10) n of (bs, r) \<Rightarrow> (bcd_byte_int l # bs, r)))"

definition IntToBcd :: "int \<Rightarrow> nat \<Rightarrow> bytes \<times> int" where
  "IntToBcd l maxlen =
     (if maxlen = 0 then ([], 0)
      else
        let flag = l < 0;
            (bcd, rest) = IntToBcd_loop (if flag then s32 (- l) else l) maxlen;
            bcd' = (if flag then bcd[maxlen - 1 := bcd ! (maxlen - 1) OR 0x80] else bcd)
        in (bcd', if rest \<noteq> 0 then 1 else 0))"

text \<open>\<open>itobcd\<close> keeps a single digit and the sign \<open>0x10\<close> in the last byte.\<close>

definition itobcd :: "int \<Rightarrow> nat \<Rightarrow> bytes \<times> int" where
  "itobcd l maxlen =
     (if maxlen = 0 then ([], 0)
      else
        let flag = l < 0;
            (bcd, rest) = IntToBcd_loop (if flag then s32 (- l) else l) maxlen;
            b = bcd ! (maxlen - 1);
            rtn = (if b AND 0xf0 \<noteq> 0 \<or> rest \<noteq> 0 then 1 else 0);
            b1 = b AND 0x0f;
            b2 = (if flag then b1 OR 0x10 else b1)
        in (bcd[maxlen - 1 := b2], rtn))"

subsection \<open>Byte arrays\<close>

definition hex_to_bcd_byte :: "u8 \<Rightarrow> u8" where
  "hex_to_bcd_byte b =
     (let uc1 = b mod 10; uc2 = b div 10; uc3 = (if 9 < uc2 then 9 else uc2)
      in uc1 OR (push_bit 4 uc3 AND 0xf0))"

definition bcd_to_hex_byte :: "u8 \<Rightarrow> u8" where
  "bcd_to_hex_byte b = (b AND 0x0f) + drop_bit 4 (b AND 0xf0) * 10"

definition HexToBcd :: "bytes \<Rightarrow> bytes" where
  "HexToBcd = map hex_to_bcd_byte"

definition BcdToHex :: "bytes \<Rightarrow> bytes" where
  "BcdToHex = map bcd_to_hex_byte"

definition hextobcd :: "bytes \<Rightarrow> bytes" where
  "hextobcd = map (\<lambda>b.
     (let uc1 = b mod 10; uc2 = b div 10; uc3 = (if 9 < uc2 then 9 else uc2)
      in uc1 OR (push_bit 4 uc3 AND 0xf0)))"

definition bcdtohex :: "bytes \<Rightarrow> bytes" where
  "bcdtohex = map (\<lambda>b. (b AND 0x0f) + (b AND 0xf0) div 16 * 10)"

fun HexIsEmpty :: "bytes \<Rightarrow> u8 \<Rightarrow> bool" where
  "HexIsEmpty [] flag = True"
| "HexIsEmpty (b # bs) flag = (if b \<noteq> flag then False else HexIsEmpty bs flag)"

fun HexComp :: "bytes \<Rightarrow> bytes \<Rightarrow> bool" where
  "HexComp (a # as) (b # bs) = (if a \<noteq> b then True else HexComp as bs)"
| "HexComp _ _ = False"

fun bcd_isempty :: "bytes \<Rightarrow> u8 \<Rightarrow> bool" where
  "bcd_isempty [] flag = True"
| "bcd_isempty (b # bs) flag = (if flag \<noteq> b then False else bcd_isempty bs flag)"

text \<open>\<open>atox\<close> reads a hexadecimal number: it skips everything before the first digit and
  stops at the first other character after it.\<close>

definition hex_digit :: "char \<Rightarrow> int option" where
  "hex_digit c =
     (let n = of_char c :: int in
      if 48 \<le> n \<and> n \<le> 57 then Some (n - 48)
      else if 65 \<le> n \<and> n \<le> 70 then Some (n - 65 + 10)
      else if 97 \<le> n \<and> n \<le> 102 then Some (n - 97 + 10)
      else None)"

fun atox_loop :: "string \<Rightarrow> bool \<Rightarrow> int \<Rightarrow> int" where
  "atox_loop [] bstart rtn = rtn"
| "atox_loop (c # str) bstart rtn =
     (case hex_digit c of
        Some d \<Rightarrow> atox_loop str True (s32 (s32 (rtn * 16) + d))
      | None \<Rightarrow> if bstart then rtn else atox_loop str bstart rtn)"

definition atox :: "string \<Rightarrow> int" where
  "atox str = atox_loop str False 0"

text \<open>\<open>flex4tobcd\<close> encodes a four-byte value by its type tag; \<open>n\<close> is the length of the output
  buffer. The two memcpy types read \<open>n\<close> bytes of the source; the short types read two.\<close>

definition VARFLEX_ULONG :: u8 where "VARFLEX_ULONG = 0"

definition VARFLEX_INT :: u8 where "VARFLEX_INT = 1"

definition VARFLEX_UCHAR :: u8 where "VARFLEX_UCHAR = 2"

definition VARFLEX_BCD :: u8 where "VARFLEX_BCD = 3"

definition VARFLEX_USHORT :: u8 where "VARFLEX_USHORT = 4"

definition VARFLEX_SSHORT :: u8 where "VARFLEX_SSHORT = 5"

definition flex4tobcd :: "bytes \<Rightarrow> u8 \<Rightarrow> nat \<Rightarrow> bytes option" where
  "flex4tobcd src type n =
     (if type = VARFLEX_ULONG then
        (case get_at src 0 4 of Some [a, b, c, d] \<Rightarrow> Some (fst (ltobcd (u32_of a b c d) n)) | _ \<Rightarrow> None)
      else if type = VARFLEX_INT then
        (case get_at src 0 4 of Some [a, b, c, d] \<Rightarrow> Some (fst (itobcd (sint (u32_of a b c d)) n)) | _ \<Rightarrow> None)
      else if type = VARFLEX_UCHAR then map_option hextobcd (get_at src 0 n)
      else if type = VARFLEX_BCD then get_at src 0 n
      else if type = VARFLEX_USHORT then
        (case get_at src 0 2 of Some [a, b] \<Rightarrow> Some (fst (ltobcd (ucast (u16_of a b)) n)) | _ \<Rightarrow> None)
      else if type = VARFLEX_SSHORT then
        (case get_at src 0 2 of Some [a, b] \<Rightarrow> Some (fst (itobcd (sint (u16_of a b)) n)) | _ \<Rightarrow> None)
      else Some (replicate n 0))"

subsection \<open>Meter data types\<close>

text \<open>Type 02: two bytes, three digits, a sign and an exponent.\<close>

fun mul10 :: "nat \<Rightarrow> int \<Rightarrow> int" where
  "mul10 0 rtn = rtn"
| "mul10 (Suc n) rtn = mul10 n (s32 (rtn * 10))"

definition Sfloat02ToPower :: "u8 \<Rightarrow> u8 \<Rightarrow> int" where
  "Sfloat02ToPower psrc0 psrc1 =
     (let rtn = uint (psrc1 AND 0x0f) * 100 + uint (drop_bit 4 (psrc0 AND 0xf0) * 10 + (psrc0 AND 0x0f));
          uc = NOT (drop_bit 5 (psrc1 AND 0xe0)) AND 0x07;
          base = uint uc - 1;
          rtn = (if base < 0 then cdiv rtn 10 else mul10 (nat base) rtn)
      in if psrc1 AND 0x10 \<noteq> 0 then s32 (- rtn) else rtn)"

fun PowerToSfloat02_scale :: "nat \<Rightarrow> int \<Rightarrow> int \<Rightarrow> int \<times> int" where
  "PowerToSfloat02_scale 0 i src = (i, src)"
| "PowerToSfloat02_scale (Suc n) i src =
     (if src < 1000 then (i, src) else PowerToSfloat02_scale n (i + 1) (cdiv src 10))"

definition power_low :: "int \<Rightarrow> u8" where
  "power_low src = push_bit 4 (word_of_int (cdiv src 10)) + word_of_int (cmod src 10)"

definition PowerToSfloat02 :: "int \<Rightarrow> u8 \<times> u8" where
  "PowerToSfloat02 src0 =
     (let flag = src0 < 0;
          src = (if flag then s32 (- src0) else src0)
      in if src < 99900 \<and> cmod src 100 = 0 then
           let src = cdiv src 100;
               uc = (if flag then 0x80 OR 0x10 else 0x80) + word_of_int (cdiv src 100)
           in (power_low (cmod src 100), uc)
         else
           let (i, src) = PowerToSfloat02_scale 6 1 src;
               src = (if 1000 \<le> src then 999 else src);
               uc = push_bit 5 (NOT (word_of_int i) AND 0x07) AND 0xe0;
               uc = (if flag then uc OR 0x10 else uc) + word_of_int (cdiv src 100)
           in (power_low (cmod src 100), uc))"

text \<open>Type 03: four bytes, seven digits, a sign and a unit (kWh or MWh).\<close>

definition MAX_GENE_MWH :: int where
  "MAX_GENE_MWH = 2000000"

definition Sbcd03ToEnergy :: "u8 \<Rightarrow> u8 \<Rightarrow> u8 \<Rightarrow> u8 \<Rightarrow> int" where
  "Sbcd03ToEnergy p0 p1 p2 p3 =
     (let tmp = uint (p3 AND 0x0f) * 1000000;
          tmp = s32 (tmp + uint (BcdToUnsigned [p0, p1, p2]));
          tmp = (if p3 AND 0x40 \<noteq> 0
                 then s32 ((if MAX_GENE_MWH < tmp then MAX_GENE_MWH else tmp) * 1000) else tmp)
      in if p3 AND 0x10 \<noteq> 0 then s32 (- tmp) else tmp)"

definition EnergyToSbcd03 :: "int \<Rightarrow> bytes" where
  "EnergyToSbcd03 src0 =
     (let (flag, src) = (if src0 < 0 then (0x10, s32 (- src0)) else (0, src0));
          (flag, src) =
            (if 9999999 < src then
               (flag OR 0x40, let s = cdiv src 1000 in if 9999999 < s then 9999999 else s)
             else (flag, src));
          pdst = fst (UnsignedToBcd (word_of_int src) 4)
      in pdst[3 := (pdst ! 3 AND 0x0f) OR flag])"

subsection \<open>Lemmas\<close>

text \<open>The abstraction of a BCD buffer is the number its digits spell.\<close>

lemma unat_bcd_digits [c_arith]: "unat (bcd_digits b) = 10 * (unat b div 16) + unat b mod 16"
proof -
  have a: "unat b div 16 < 16" "unat b mod 16 < 16"
    using unat_u8_lt [of b] by (simp_all add: less_mult_imp_div_less)
  have "10 * (unat b div 16) + unat b mod 16 < 256" "unat b div 16 * 10 < 256"
    using a by linarith+
  then show ?thesis
    unfolding bcd_digits_def unat_word_ariths c_arith by simp
qed

lemma unat_bcd_byte [c_arith]: "unat (bcd_byte ul) = 16 * (unat ul div 10 mod 10) + unat ul mod 10"
proof -
  have a: "unat ul div 10 mod 10 < 10" "unat ul mod 10 < 10" by simp_all
  have b: "unat (ul mod 10) = unat ul mod 10" "unat (ul div 10 mod 10) = unat ul div 10 mod 10"
    by (simp_all add: unat_mod_distrib unat_div_distrib)
  have "16 * (unat ul div 10 mod 10) + unat ul mod 10 < 256" "unat ul mod 10 < 256"
    "unat ul div 10 mod 10 * 16 < 256" "unat ul div 10 mod 10 * 16 < 4294967296" using a by linarith+
  moreover have "unat ul div 10 < 4294967296"
    using unat_u32_lt [of ul] div_le_dividend [of "unat ul" 10] by linarith
  ultimately
  show ?thesis
    unfolding bcd_byte_def push_bit_eq_mult unat_word_ariths unsigned_ucast_eq take_bit_eq_mod b by simp
qed

lemma unat_digits_byte: "unat (bcd_digits (bcd_byte ul)) = unat ul mod 100"
proof -
  have a: "unat ul div 10 mod 10 < 10" "unat ul mod 10 < 10" by simp_all
  have "unat ul mod 100 = unat ul mod 10 + 10 * (unat ul div 10 mod 10)"
    using mod_mult2_eq [of "unat ul" 10 10] by simp
  then show ?thesis unfolding c_arith using a by (simp add: mod_add_eq)
qed

definition bcd_nat :: "bytes \<Rightarrow> nat" where
  "bcd_nat bcd = foldr (\<lambda>b n. n * 100 + unat (bcd_digits b)) bcd 0"

lemma bcd_nat_simps [simp]:
  "bcd_nat [] = 0"
  "bcd_nat (b # bcd) = bcd_nat bcd * 100 + unat (bcd_digits b)"
  by (simp_all add: bcd_nat_def)

lemma bcd_nat_append: "bcd_nat (xs @ ys) = bcd_nat xs + 100 ^ length xs * bcd_nat ys"
  by (induction xs) (simp_all add: algebra_simps)

lemma BcdToUnsigned_nat: "BcdToUnsigned bcd = of_nat (bcd_nat bcd)"
proof (induction bcd)
  case (Cons b bcd)
  have "(ucast (bcd_digits b) :: u32) = of_nat (unat (bcd_digits b))"
    by (simp add: unsigned_ucast_eq word_eq_iff_unsigned take_bit_eq_mod)
  then show ?case using Cons by (simp add: u32_and_ff)
qed simp

lemma length_UnsignedToBcd [simp]: "length (fst (UnsignedToBcd ul n)) = n"
  by (induction ul n rule: UnsignedToBcd.induct) (auto split: prod.splits)

lemma bcd_nat_UnsignedToBcd [simp]: "bcd_nat (fst (UnsignedToBcd ul n)) = unat ul mod 100 ^ n"
proof (induction ul n rule: UnsignedToBcd.induct)
  case (2 ul n)
  have z: "unat (bcd_digits 0) = 0" by (simp add: bcd_digits_def)
  have "unat (ul div 10 div 10) = unat ul div 100" by (simp add: unat_div_distrib div_mult2_eq)
  then show ?case
    using 2 mod_mult2_eq [of "unat ul" 100 "100 ^ n"]
    by (auto simp: z unat_digits_byte split: prod.splits)
qed simp

lemma snd_UnsignedToBcd: "snd (UnsignedToBcd ul n) = (if unat ul < 100 ^ n then 0 else 1)"
proof (induction ul n rule: UnsignedToBcd.induct)
  case (1 ul)
  then show ?case by (simp add: unat_eq_zero)
next
  case (2 ul n)
  have "unat (ul div 10 div 10) = unat ul div 100" by (simp add: unat_div_distrib div_mult2_eq)
  moreover have "unat ul div 100 < 100 ^ n \<longleftrightarrow> unat ul < 100 * 100 ^ n"
    by (simp add: div_less_iff_less_mult mult.commute)
  ultimately show ?case using 2 by (auto split: prod.splits)
qed

lemma UnsignedToBcd_zero: "UnsignedToBcd 0 n = (replicate n 0, 0)"
  by (induction n) simp_all

lemma ltobcd_eq: "ltobcd ul n = UnsignedToBcd ul n"
  by (induction ul n rule: ltobcd.induct) (simp_all add: UnsignedToBcd_zero)

lemma bcdtol_eq: "bcdtol bcd = BcdToUnsigned bcd"
  by (induction bcd) (simp_all add: bcd_digits_def)

lemma bcd_byte_int_eq:
  assumes "0 \<le> l" "l \<le> 2147483647"
  shows "bcd_byte_int l = bcd_byte (word_of_int l)"
proof -
  define u :: u32 where "u = word_of_int l"
  have u: "int (unat u) = l" using assms unfolding u_def by (simp add: take_bit_eq_mod unsigned_of_int)
  have "0 \<le> l div 10" "0 \<le> l mod 10" "0 \<le> l div 10 mod 10" using assms by simp_all
  then have b: "bcd_byte_int l = word_of_int (l mod 10 + l div 10 mod 10 * 16)"
    using assms by (simp add: bcd_byte_int_def)
  have "l mod 10 + l div 10 mod 10 * 16 = int (16 * (unat u div 10 mod 10) + unat u mod 10)"
    by (simp only: of_nat_add of_nat_mult zdiv_int zmod_int u of_nat_numeral)
  then have "bcd_byte_int l = of_nat (unat (bcd_byte u))" using b unat_bcd_byte [of u] by simp
  then show ?thesis unfolding u_def by simp
qed

lemma IntToBcd_loop_eq:
  "0 \<le> l \<Longrightarrow> l \<le> 2147483647 \<Longrightarrow>
   IntToBcd_loop l n = (fst (UnsignedToBcd (word_of_int l) n), l div 100 ^ n)"
proof (induction l n rule: IntToBcd_loop.induct)
  case (2 l n)
  have z: "word_of_int l = (0 :: u32) \<longleftrightarrow> l = 0"
    using 2(3,4) by (simp add: of_int_eq_0_iff word_of_int_eq_0_iff) (auto simp: dvd_def)
  have r: "0 \<le> l div 100" "l div 100 \<le> 2147483647" using 2(3,4) by simp_all
  have d: "cdiv (cdiv l 10) 10 = l div 100" using 2(3) by (simp add: zdiv_zmult2_eq [of 10 l 10, simplified])
  have w: "(word_of_int l :: u32) div 10 div 10 = word_of_int (l div 100)"
  proof -
    define u :: u32 where "u = word_of_int l"
    have u: "int (unat u) = l" using 2(3,4) unfolding u_def by (simp add: take_bit_eq_mod unsigned_of_int)
    have "unat (u div 10 div 10) = unat u div 100" by (simp add: unat_div_distrib div_mult2_eq)
    then have "(of_nat (unat (u div 10 div 10)) :: u32) = of_nat (unat u div 100)" by (simp only:)
    then have "u div 10 div 10 = of_int (int (unat u div 100))" by simp
    then show ?thesis using u by (simp add: zdiv_int u_def)
  qed
  show ?case
  proof (cases "l = 0")
    case True then show ?thesis using 2(1) by (auto split: prod.splits)
  next
    case False
    then show ?thesis using 2(2) [OF False] r d w z bcd_byte_int_eq [OF 2(3,4)]
      by (simp add: zdiv_zmult2_eq split: prod.splits)
  qed
qed simp

lemma s32_digit_step:
  "0 \<le> v \<Longrightarrow> 0 \<le> d \<Longrightarrow> v * 100 + d \<le> 2147483647 \<Longrightarrow>
   v \<le> 2147483647 \<and> s32 (s32 (v * 100) + d) = v * 100 + d"
  by (simp add: s32_small)

lemma BcdToInt_low_eq:
  "0 \<le> rtn \<Longrightarrow> int (bcd_nat bcd) + 100 ^ length bcd * rtn \<le> 2147483647 \<Longrightarrow>
   BcdToInt_low bcd rtn = int (bcd_nat bcd) + 100 ^ length bcd * rtn"
proof (induction bcd)
  case (Cons b bcd)
  define v where "v = int (bcd_nat bcd) + 100 ^ length bcd * rtn"
  have nn: "0 \<le> v" using Cons.prems(1) by (simp add: v_def)
  have m: "v * 100 + uint (bcd_digits b) \<le> 2147483647"
    using Cons.prems(2) by (simp add: v_def algebra_simps)
  note s = s32_digit_step [OF nn _ m]
  have ih: "BcdToInt_low bcd rtn = v" using Cons s by (simp add: v_def)
  show ?case unfolding BcdToInt_low.simps ih using s by (simp add: v_def algebra_simps)
qed simp

lemma unat_low_sum:
  assumes "unat h \<le> 15" "unat l \<le> 15"
  shows "unat (h * 10 + l :: u8) = unat h * 10 + unat l"
proof -
  have "unat h * 10 < 256" "unat h * 10 + unat l < 256" using assms by linarith+
  then show ?thesis unfolding unat_word_ariths by simp
qed

text \<open>Decoding the last byte, with the sign in bit 7.\<close>

lemma last_byte_decode:
  assumes "unat (bcd_digits b) < 80" "unat b div 16 < 10" "unat b mod 16 < 10"
  shows "\<not> bit b 7"
proof -
  have "unat b = 16 * (unat b div 16) + unat b mod 16" by simp
  then show ?thesis using assms unat_bcd_digits [of b] unfolding u8_bit7 by linarith
qed

lemma unat_bcd_byte_digits: "unat (bcd_byte ul) div 16 < 10" "unat (bcd_byte ul) mod 16 < 10"
proof -
  have "unat ul mod 10 < 10" by simp
  then show "unat (bcd_byte ul) div 16 < 10" "unat (bcd_byte ul) mod 16 < 10"
    unfolding unat_bcd_byte by simp_all
qed

lemma UnsignedToBcd_bytes:
  "b \<in> set (fst (UnsignedToBcd ul n)) \<Longrightarrow> unat b div 16 < 10 \<and> unat b mod 16 < 10"
  by (induction ul n rule: UnsignedToBcd.induct)
    (auto split: prod.splits if_splits simp: unat_bcd_byte_digits)

lemma BcdToInt_snoc:
  assumes b: "\<not> bit b 7" and v: "bcd_nat (bs @ [b]) \<le> 2147483647"
  shows "BcdToInt (bs @ [b]) = int (bcd_nat (bs @ [b]))"
    and "BcdToInt (bs @ [b OR 0x80]) = - int (bcd_nat (bs @ [b]))"
proof -
  have r: "BcdToInt_low bs (uint (bcd_digits b)) = int (bcd_nat (bs @ [b]))"
    using BcdToInt_low_eq [of "uint (bcd_digits b)" bs] of_nat_mono [OF v, where ?'a = int]
    by (simp add: bcd_nat_append)
  show "BcdToInt (bs @ [b]) = int (bcd_nat (bs @ [b]))"
    using b r by (simp add: BcdToInt_def u8_sign_bit bcd_digits_def)
  have "int_ok (- int (bcd_nat (bs @ [b])))" using v by (simp add: int_ok_def)
  then show "BcdToInt (bs @ [b OR 0x80]) = - int (bcd_nat (bs @ [b]))"
    using r u8_or_sign [of b] b unfolding BcdToInt_def by (simp add: bcd_digits_def)
qed

lemma bcd_byte_0: "bcd_byte 0 = 0"
  by (simp add: bcd_byte_def)

lemma fst_UnsignedToBcd_Suc:
  "fst (UnsignedToBcd ul (Suc n)) = bcd_byte ul # fst (UnsignedToBcd (ul div 10 div 10) n)"
  by (auto simp: bcd_byte_0 split: prod.splits)

lemma energy_flag_byte:
  assumes "f \<in> {0, 0x10, 0x40, 0x10 OR 0x40 :: u8}"
  shows "((x AND 0x0f) OR f) AND 0x0f = x AND 0x0f"
    "(((x AND 0x0f) OR f) AND 0x40 = 0) = (f AND 0x40 = 0)"
    "(((x AND 0x0f) OR f) AND 0x10 = 0) = (f AND 0x10 = 0)"
  using assms by (auto simp only: bit.conj_disj_distrib2 and.assoc insert_iff empty_iff) simp_all

lemma energy_bytes:
  assumes "unat u \<le> 9999999"
  shows "\<exists>a b c d. fst (UnsignedToBcd u 4) = [a, b, c, d] \<and>
     uint (d AND 0x0f) = int (unat u div 1000000) \<and> uint (BcdToUnsigned [a, b, c]) = int (unat u mod 1000000)"
proof -
  define u3 where "u3 = u div 10 div 10 div 10 div 10 div 10 div 10"
  have e4: "fst (UnsignedToBcd u 4) = fst (UnsignedToBcd u 3) @ [bcd_byte u3]"
    unfolding numeral_eq_Suc pred_numeral_simps BitM.simps
    by (simp only: fst_UnsignedToBcd_Suc UnsignedToBcd.simps(1) fst_conv append.simps u3_def)
  obtain a b c where abc: "fst (UnsignedToBcd u 3) = [a, b, c]"
    using length_UnsignedToBcd [of u 3] by (auto simp: length_Suc_conv numeral_eq_Suc)
  have "unat u3 = unat u div 1000000"
    unfolding u3_def by (simp only: unat_div_distrib) (simp add: div_mult2_eq)
  then have "unat (bcd_byte u3 AND 0x0f) = unat u div 1000000"
    unfolding unat_low_nibble unat_bcd_byte using assms by simp
  moreover have "bcd_nat [a, b, c] = unat u mod 1000000"
    using bcd_nat_UnsignedToBcd [of u 3] abc by simp
  ultimately have "uint (bcd_byte u3 AND 0x0f) = int (unat u div 1000000)"
    "uint (BcdToUnsigned [a, b, c]) = int (unat u mod 1000000)"
    unfolding BcdToUnsigned_nat by (simp_all add: unsigned_of_nat take_bit_eq_mod uint_nat)
  then show ?thesis unfolding e4 abc by auto
qed

definition energy_value :: "int \<Rightarrow> int" where
  "energy_value src =
     (if \<bar>src\<bar> \<le> 9999999 then src
      else sgn src * (min (\<bar>src\<bar> div 1000) MAX_GENE_MWH * 1000))"

lemma power_low_digits:
  assumes "0 \<le> r" "r \<le> 99"
  shows "unat (bcd_digits (power_low r)) = nat r"
proof -
  define u :: u32 where "u = word_of_int r"
  have u: "int (unat u) = r" using assms unfolding u_def by (simp add: take_bit_eq_mod unsigned_of_int)
  have "r div 10 = r div 10 mod 10" using assms by simp
  then have "power_low r = bcd_byte_int r"
    using assms by (simp add: power_low_def bcd_byte_int_def push_bit_eq_mult add.commute)
  then have "power_low r = bcd_byte u" using bcd_byte_int_eq [of r] assms by (simp add: u_def)
  then show ?thesis using unat_digits_byte [of u] assms u by auto
qed

lemma power_high_bits:
  assumes "c \<in> {0xc0, 0xa0, 0x80, 0x60, 0x40, 0x20, 0, 0xd0, 0xb0, 0x90, 0x70, 0x50, 0x30, 0x10 :: u8}"
    and q: "0 \<le> q" "q \<le> 9"
  shows "uint ((c + word_of_int q) AND 0x0f) = q" "(c + word_of_int q) AND 0xe0 = c AND 0xe0"
    "(c + word_of_int q) AND 0x10 = c AND 0x10"
proof -
  have "q = 0 \<or> q = 1 \<or> q = 2 \<or> q = 3 \<or> q = 4 \<or> q = 5 \<or> q = 6 \<or> q = 7 \<or> q = 8 \<or> q = 9"
    using q by presburger
  then have "uint ((c + word_of_int q) AND 0x0f) = q \<and> (c + word_of_int q) AND 0xe0 = c AND 0xe0 \<and>
      (c + word_of_int q) AND 0x10 = c AND 0x10"
    using assms(1) by (elim disjE insertE emptyE; simp)
  then show "uint ((c + word_of_int q) AND 0x0f) = q" "(c + word_of_int q) AND 0xe0 = c AND 0xe0"
    "(c + word_of_int q) AND 0x10 = c AND 0x10" by simp_all
qed

text \<open>The exponent field, as \<open>PowerToSfloat02\<close> writes it for the loop counter \<open>i\<close>.\<close>

definition power_exp :: "bool \<Rightarrow> int \<Rightarrow> u8" where
  "power_exp flag i =
     (let uc = push_bit 5 (NOT (word_of_int i) AND 0x07) AND 0xe0 in if flag then uc OR 0x10 else uc)"

lemma power_exp_values:
  assumes "1 \<le> i" "i \<le> 7"
  shows "power_exp flag i \<in> {0xc0, 0xa0, 0x80, 0x60, 0x40, 0x20, 0, 0xd0, 0xb0, 0x90, 0x70, 0x50, 0x30, 0x10} \<and>
    uint (NOT (drop_bit 5 (power_exp flag i AND 0xe0)) AND 0x07 :: u8) = i \<and>
    (power_exp flag i AND 0x10 = 0 \<longleftrightarrow> \<not> flag)"
proof -
  have "i = 1 \<or> i = 2 \<or> i = 3 \<or> i = 4 \<or> i = 5 \<or> i = 6 \<or> i = 7" using assms by auto
  then show ?thesis by (cases flag; elim disjE; simp add: power_exp_def)
qed

lemma mul10_eq: "0 \<le> r \<Longrightarrow> r * 10 ^ n \<le> 2147483647 \<Longrightarrow> mul10 n r = r * 10 ^ n"
proof (induction n r rule: mul10.induct)
  case (2 n rtn)
  have "rtn * 10 * 1 \<le> rtn * 10 * 10 ^ n" using 2(2) by (intro mult_left_mono) auto
  then have "s32 (rtn * 10) = rtn * 10" using 2(2,3) by (simp add: s32_small)
  then show ?case using 2 by (simp add: mult.assoc)
qed simp

lemma Sfloat02_decode:
  assumes "0 \<le> m" "m \<le> 999" "1 \<le> i" "i \<le> 7"
  shows "Sfloat02ToPower (power_low (m mod 100)) (power_exp flag i + word_of_int (m div 100)) =
    (if flag then - (m * 10 ^ nat (i - 1)) else m * 10 ^ nat (i - 1))"
proof -
  note e = power_exp_values [OF assms(3,4), of flag]
  have q: "0 \<le> m div 100" "m div 100 \<le> 9" using assms by auto
  note h = power_high_bits [OF conjunct1 [OF e] q]
  have r: "0 \<le> m mod 100" "m mod 100 \<le> 99" using pos_mod_bound [of 100 m] by auto
  have l: "uint (drop_bit 4 (power_low (m mod 100) AND 0xf0) * 10 + (power_low (m mod 100) AND 0x0f)) = m mod 100"
    using power_low_digits [OF r] r unfolding bcd_digits_def by (metis int_nat_eq uint_nat)
  have s: "m div 100 * 100 + m mod 100 = m" by simp
  have "nat (i - 1) \<le> 6" using assms by simp
  then have "(10 :: int) ^ nat (i - 1) \<le> 10 ^ 6" by (intro power_increasing) auto
  then have b: "m * 10 ^ nat (i - 1) \<le> 999 * 10 ^ 6" using assms by (intro mult_mono) auto
  then have m: "mul10 (nat (i - 1)) m = m * 10 ^ nat (i - 1)" using assms by (intro mul10_eq) auto
  have "0 \<le> m * 10 ^ nat (i - 1)" using assms by simp
  then have ok: "s32 (- (m * 10 ^ nat (i - 1))) = - (m * 10 ^ nat (i - 1))"
    using b by (intro s32_id) (simp add: int_ok_def)
  show ?thesis
    unfolding Sfloat02ToPower_def Let_def h l s using e assms m ok by auto
qed

lemma PowerToSfloat02_scale_eq:
  "0 \<le> a \<Longrightarrow> a < 1000 * 10 ^ n \<Longrightarrow>
   \<exists>k \<le> n. PowerToSfloat02_scale n i a = (i + int k, a div 10 ^ k) \<and> a div 10 ^ k < 1000 \<and>
     (k = 0 \<or> 100 \<le> a div 10 ^ k)"
proof (induction n arbitrary: i a)
  case (Suc n)
  show ?case
  proof (cases "a < 1000")
    case True
    then show ?thesis by (intro exI [of _ 0]) simp
  next
    case False
    have "0 \<le> a div 10" "a div 10 < 1000 * 10 ^ n" using Suc.prems by auto
    from Suc.IH [OF this, of "i + 1"] obtain k where k: "k \<le> n"
      "PowerToSfloat02_scale n (i + 1) (a div 10) = (i + 1 + int k, a div 10 div 10 ^ k)"
      "a div 10 div 10 ^ k < 1000" "k = 0 \<or> 100 \<le> a div 10 div 10 ^ k" by blast
    have d: "a div 10 div 10 ^ k = a div 10 ^ Suc k" by (simp add: zdiv_zmult2_eq)
    have "100 \<le> a div 10 div 10 ^ k" using k(4) False by auto
    then show ?thesis using False k Suc.prems(1) unfolding d by (intro exI [of _ "Suc k"]) auto
  qed
qed auto

lemma power_loss:
  fixes a :: int
  assumes "0 \<le> a" "k = 0 \<or> 100 \<le> a div 10 ^ k"
  shows "a div 10 ^ k * 10 ^ k \<le> a" "100 * (a - a div 10 ^ k * 10 ^ k) \<le> a"
proof -
  have m: "a div 10 ^ k * 10 ^ k = a - a mod 10 ^ k" by (simp add: minus_mod_eq_div_mult)
  have "0 \<le> a mod 10 ^ k" by simp
  then show le: "a div 10 ^ k * 10 ^ k \<le> a" unfolding m by linarith
  show "100 * (a - a div 10 ^ k * 10 ^ k) \<le> a"
  proof (cases "k = 0")
    case False
    have "a mod 10 ^ k < 10 ^ k" by simp
    moreover have "100 * 10 ^ k \<le> a div 10 ^ k * 10 ^ k" using False assms by (intro mult_right_mono) auto
    moreover have "r < t \<Longrightarrow> 100 * t \<le> a - r \<Longrightarrow> a - r \<le> a \<Longrightarrow> 100 * (a - (a - r)) \<le> a" for r t :: int
      by simp
    ultimately show ?thesis using le unfolding m by blast
  qed (use assms in simp)
qed

subsection \<open>Properties\<close>

text \<open>Encoding an unsigned number in \<open>n\<close> BCD bytes and decoding it again gives the number
  modulo \<open>100^n\<close>, for every \<open>n\<close>; the overflow flag is set exactly when the number does not
  fit; and the older copies \<open>ltobcd\<close> and \<open>bcdtol\<close>, whose loops are written differently,
  compute the same bytes, flag and value.\<close>

theorem UnsignedToBcd_roundtrip:
  "unat (BcdToUnsigned (fst (UnsignedToBcd ul n))) = unat ul mod 100 ^ n \<and>
   length (fst (UnsignedToBcd ul n)) = n \<and>
   snd (UnsignedToBcd ul n) = (if unat ul < 100 ^ n then 0 else 1) \<and>
   ltobcd ul n = UnsignedToBcd ul n \<and> bcdtol (fst (ltobcd ul n)) = BcdToUnsigned (fst (UnsignedToBcd ul n))"
proof -
  have "unat ul mod 100 ^ n \<le> unat ul" by simp
  then have "unat ul mod 100 ^ n < 4294967296"
    using unat_u32_lt [of ul] by linarith
  then show ?thesis
    by (simp add: BcdToUnsigned_nat unat_of_nat take_bit_eq_mod snd_UnsignedToBcd ltobcd_eq bcdtol_eq)
qed

text \<open>An int that leaves the sign bit of the last byte free, positive or negative, is
  recovered by \<open>BcdToInt\<close> from the \<open>n\<close> bytes \<open>IntToBcd\<close> makes of it, and no overflow is
  reported.\<close>

theorem IntToBcd_roundtrip:
  assumes "0 < n" and fits: "\<bar>l\<bar> < 80 * 100 ^ (n - 1)" and "\<bar>l\<bar> \<le> 2147483647"
  shows "BcdToInt (fst (IntToBcd l n)) = l \<and> snd (IntToBcd l n) = 0 \<and> length (fst (IntToBcd l n)) = n"
proof -
  obtain m where n: "n = Suc m" using assms(1) by (cases n) auto
  define u :: u32 where "u = word_of_int \<bar>l\<bar>"
  have u: "int (unat u) = \<bar>l\<bar>" using assms(3) unfolding u_def by (simp add: take_bit_eq_mod unsigned_of_int)
  define bs where "bs = fst (UnsignedToBcd u n)"
  have lb: "length bs = n" by (simp add: bs_def)
  have "int (unat u) < int (80 * 100 ^ m)" using fits unfolding u n by simp
  then have u80: "unat u < 80 * 100 ^ m" by linarith
  then have small: "unat u < 100 ^ n" unfolding n by simp
  have val: "bcd_nat bs = unat u" using small by (simp add: bs_def)
  have snoc: "bs = butlast bs @ [last bs]" using lb n by (cases bs rule: rev_cases) auto
  have "bcd_nat bs = bcd_nat (butlast bs) + 100 ^ m * unat (bcd_digits (last bs))"
    using lb n by (subst snoc) (simp add: bcd_nat_append)
  then have "100 ^ m * unat (bcd_digits (last bs)) < 100 ^ m * 80" using u80 val by linarith
  then have "unat (bcd_digits (last bs)) < 80" by simp
  moreover have "last bs \<in> set bs" using lb n by (cases bs) auto
  ultimately have b7: "\<not> bit (last bs) 7"
    using last_byte_decode UnsignedToBcd_bytes unfolding bs_def by blast
  have bound: "bcd_nat (butlast bs @ [last bs]) \<le> 2147483647"
    unfolding snoc [symmetric] using val u assms(3) by linarith
  have loop: "IntToBcd_loop \<bar>l\<bar> n = (bs, 0)"
  proof -
    have "\<bar>l\<bar> < 100 ^ n" using small u by (metis of_nat_less_iff of_nat_numeral of_nat_power)
    then show ?thesis using IntToBcd_loop_eq [of "\<bar>l\<bar>" n] assms(3) by (simp add: bs_def u_def)
  qed
  have upd: "bs[n - 1 := x] = butlast bs @ [x]" for x
    using lb n by (subst (1) snoc) (simp add: list_update_append)
  have nth: "bs ! (n - 1) = last bs" using lb n by (metis last_conv_nth list.size(3) nat.simps(3))
  show ?thesis
  proof (cases "l < 0")
    case False
    then have "IntToBcd l n = (bs, 0)" using loop assms(1) by (simp add: IntToBcd_def)
    then show ?thesis using BcdToInt_snoc(1) [OF b7 bound] False lb val u snoc by simp
  next
    case True
    then have "s32 (- l) = \<bar>l\<bar>" using assms(3) by (simp add: int_ok_def)
    then have "IntToBcd l n = (butlast bs @ [last bs OR 0x80], 0)"
      using True loop assms(1) upd nth by (simp add: IntToBcd_def)
    then show ?thesis using BcdToInt_snoc(2) [OF b7 bound] True lb val u snoc n by simp
  qed
qed

theorem IntToBcd_roundtrip_witness:
  "BcdToInt (fst (IntToBcd (- 123456) 4)) = - 123456 \<and> snd (IntToBcd (- 123456) 4) = 0 \<and>
   length (fst (IntToBcd (- 123456) 4)) = 4"
  by (rule IntToBcd_roundtrip) simp_all

text \<open>The energy format: every int but the smallest one is encoded in four bytes which decode
  to the same value up to 9999999 kWh, and above it to the value cut to whole MWh and limited
  to 2000000 MWh, with its sign.\<close>

theorem Energy_roundtrip:
  assumes "int_ok src" "src \<noteq> - 2147483648"
  shows "\<exists>a b c d. EnergyToSbcd03 src = [a, b, c, d] \<and> Sbcd03ToEnergy a b c d = energy_value src"
proof -
  define v where "v = (if 9999999 < \<bar>src\<bar> then \<bar>src\<bar> div 1000 else \<bar>src\<bar>)"
  define f :: u8 where "f = (if src < 0 then 0x10 else 0) OR (if 9999999 < \<bar>src\<bar> then 0x40 else 0)"
  have a: "\<bar>src\<bar> \<le> 2147483647" using assms by (auto simp: int_ok_def)
  have v: "0 \<le> v" "v \<le> 9999999" using a by (auto simp: v_def)
  define u :: u32 where "u = word_of_int v"
  have u: "int (unat u) = v" using v unfolding u_def by (simp add: take_bit_eq_mod unsigned_of_int)
  have enc: "EnergyToSbcd03 src = (let pdst = fst (UnsignedToBcd u 4) in pdst[3 := (pdst ! 3 AND 0x0f) OR f])"
  proof -
    have "s32 (- src) = - src" if "src < 0" using a that by (simp add: int_ok_def)
    then show ?thesis using a
      by (auto simp: EnergyToSbcd03_def u_def v_def f_def Let_def)
  qed
  have "unat u \<le> 9999999" using u v by linarith
  then obtain a b c d where abcd: "fst (UnsignedToBcd u 4) = [a, b, c, d]"
    "uint (d AND 0x0f) = int (unat u div 1000000)" "uint (BcdToUnsigned [a, b, c]) = int (unat u mod 1000000)"
    using energy_bytes by blast
  have f: "f \<in> {0, 0x10, 0x40, 0x10 OR 0x40}" by (auto simp: f_def)
  have f1: "f AND 0x40 = 0 \<longleftrightarrow> \<not> 9999999 < \<bar>src\<bar>" "f AND 0x10 = 0 \<longleftrightarrow> \<not> src < 0" by (auto simp: f_def)
  have sum: "s32 (uint (d AND 0x0f) * 1000000 + uint (BcdToUnsigned [a, b, c])) = v"
  proof -
    have "int (unat u div 1000000) * 1000000 + int (unat u mod 1000000) = v"
      using u by (simp add: zdiv_int zmod_int)
    moreover have "int_ok v" using v by (simp add: int_ok_def)
    ultimately show ?thesis unfolding abcd by simp
  qed
  have "Sbcd03ToEnergy a b c ((d AND 0x0f) OR f) = energy_value src"
    unfolding Sbcd03ToEnergy_def Let_def energy_flag_byte [OF f] sum f1
    using a by (auto simp: energy_value_def v_def int_ok_def MAX_GENE_MWH_def min_def sgn_if)
  then show ?thesis unfolding enc abcd by simp
qed

theorem Energy_roundtrip_witness:
  "\<exists>a b c d. EnergyToSbcd03 (- 12345678) = [a, b, c, d] \<and> Sbcd03ToEnergy a b c d = - 12345000"
  using Energy_roundtrip [of "- 12345678"]
  by (simp add: int_ok_def energy_value_def MAX_GENE_MWH_def)

text \<open>The power format: encoding a power of magnitude below \<open>10^9\<close> and decoding it again keeps
  the sign, never increases the magnitude, loses at most one percent, and is exact below 1000.\<close>

theorem Power_roundtrip:
  assumes "\<bar>src\<bar> < 1000000000"
  shows "\<exists>lo hi. PowerToSfloat02 src = (lo, hi) \<and>
    (let r = Sfloat02ToPower lo hi in
       \<bar>r\<bar> \<le> \<bar>src\<bar> \<and> 100 * (\<bar>src\<bar> - \<bar>r\<bar>) \<le> \<bar>src\<bar> \<and> (\<bar>src\<bar> < 1000 \<longrightarrow> r = src) \<and> 0 \<le> r * src)"
proof -
  define a where "a = \<bar>src\<bar>"
  define flag where "flag = (src < 0)"
  have a: "0 \<le> a" "a < 1000000000" and sa: "src = (if flag then - a else a)"
    using assms by (auto simp: a_def flag_def)
  have abs: "(if src < 0 then s32 (- src) else src) = a" using assms by (auto simp: a_def s32_small)
  have "\<exists>k m. m = a div 10 ^ k \<and> m \<le> 999 \<and> k \<le> 6 \<and> (a < 1000 \<longrightarrow> m * 10 ^ k = a) \<and>
      (m * 10 ^ k = a \<or> k = 0 \<or> 100 \<le> a div 10 ^ k) \<and>
      PowerToSfloat02 src = (power_low (m mod 100), power_exp flag (int k + 1) + word_of_int (m div 100))"
  proof (cases "a < 99900 \<and> a mod 100 = 0")
    case True
    then show ?thesis using a abs
      by (intro exI [of _ 2] exI [of _ "a div 100"])
        (auto simp: PowerToSfloat02_def Let_def power_exp_def flag_def [symmetric])
  next
    case False
    obtain k where k: "k \<le> 6" "PowerToSfloat02_scale 6 1 a = (1 + int k, a div 10 ^ k)"
      "a div 10 ^ k < 1000" "k = 0 \<or> 100 \<le> a div 10 ^ k"
      using PowerToSfloat02_scale_eq [of a 6 1] a by auto
    have k0: "k = 0" if "a < 1000"
    proof (rule ccontr)
      assume "k \<noteq> 0"
      then have "(10 :: int) ^ 1 \<le> 10 ^ k" by (intro power_increasing) auto
      moreover have "100 * 10 ^ k \<le> a div 10 ^ k * 10 ^ k"
        using k(4) \<open>k \<noteq> 0\<close> by (intro mult_right_mono) auto
      then have "100 * 10 ^ k \<le> a" using power_loss(1) [OF a(1) k(4)] by (rule order_trans)
      ultimately show False using that by simp
    qed
    have "0 \<le> a div 10 ^ k" using a by (simp add: pos_imp_zdiv_nonneg_iff)
    then show ?thesis using a abs False k k0
      by (intro exI [of _ k] exI [of _ "a div 10 ^ k"])
        (auto simp: PowerToSfloat02_def Let_def power_exp_def flag_def [symmetric] add.commute)
  qed
  then obtain k m where km: "m = a div 10 ^ k" "m \<le> 999" "k \<le> 6" "a < 1000 \<longrightarrow> m * 10 ^ k = a"
    "m * 10 ^ k = a \<or> k = 0 \<or> 100 \<le> a div 10 ^ k"
    "PowerToSfloat02 src = (power_low (m mod 100), power_exp flag (int k + 1) + word_of_int (m div 100))"
    by blast
  have "0 \<le> m" using a km(1) by (simp add: pos_imp_zdiv_nonneg_iff)
  then have dec: "Sfloat02ToPower (power_low (m mod 100)) (power_exp flag (int k + 1) + word_of_int (m div 100)) =
      (if flag then - (m * 10 ^ k) else m * 10 ^ k)"
    using Sfloat02_decode [of m "int k + 1" flag] km by simp
  have "m * 10 ^ k \<le> a" "100 * (a - m * 10 ^ k) \<le> a" "0 \<le> m * 10 ^ k"
    using power_loss [OF a(1), of k] km(1,5) a(1) \<open>0 \<le> m\<close> by (auto simp: disj_commute)
  then show ?thesis using km(4,6) dec sa a by (auto simp: Let_def)
qed

theorem Power_roundtrip_witness:
  "\<exists>lo hi. PowerToSfloat02 (- 123456) = (lo, hi) \<and>
    (let r = Sfloat02ToPower lo hi in
       \<bar>r\<bar> \<le> 123456 \<and> 100 * (123456 - \<bar>r\<bar>) \<le> 123456 \<and> 0 \<le> r * - 123456)"
  using Power_roundtrip [of "- 123456"] by (auto simp: Let_def)

end
