(* ===== verification/Clock.thy ===== *)
theory Clock
  imports Prelude
begin

text \<open>
  Time: the calendar of \<open>sys/syscall/time.c\<close> and the database time of \<open>lib/dbtime.c\<close>.
  \<open>utime_t\<close> is an int that counts the seconds from 2000-01-01 00:00:00, \<open>sysclock_t\<close> holds
  the fields of a date (its padding byte \<open>unuse\<close> is never read and left out). The cached
  current time of the module is the record \<open>clock_state\<close>. The operating system's
  \<open>localtime\<close> is an argument: the broken-down times it returns. The lemmas show that the two
  conversions are inverse on valid dates and that the order of dates is the order of seconds.
\<close>

subsection \<open>Data\<close>

record sysclock_t =
  c_year :: u8
  c_month :: u8
  c_day :: u8
  c_hour :: u8
  c_minute :: u8
  c_second :: u8
  c_week :: u8

definition DaysBeforeMonth :: "int list" where
  "DaysBeforeMonth = [0, 31, 59, 90, 120, 151, 181, 212, 243, 273, 304, 334]"

subsection \<open>Seconds from a date\<close>

definition SysClockToUTime :: "sysclock_t \<Rightarrow> int" where
  "SysClockToUTime ptime =
     (let year = uint (c_year ptime);
          day = (if year \<noteq> 0 then (year - 1) div 4 + 1 else 0);
          day = year * 365 + day;
          day = (if c_month ptime > 2 \<and> c_year ptime AND 0x03 = 0 then day + 1 else day);
          day = (if c_month ptime \<noteq> 0 \<and> c_month ptime < 13
                 then day + DaysBeforeMonth ! (unat (c_month ptime) - 1) else day);
          day = (if c_day ptime \<noteq> 0 then day + (uint (c_day ptime) - 1) else day);
          cal = day * 1440;
          cal = cal + uint (c_hour ptime) * 60;
          cal = cal + uint (c_minute ptime);
          cal = s32 (cal * 60)
      in s32 (cal + uint (c_second ptime)))"

subsection \<open>A date from seconds\<close>

text \<open>The first of four years has 366 days; \<open>max\<close> is 366 in the first round of the loop and 365
  from then on.\<close>

function UTimeToSysClock_years :: "int \<Rightarrow> bool \<Rightarrow> u8 \<Rightarrow> int \<times> u8" where
  "UTimeToSysClock_years utime first uc =
     (let max = (if first then 366 else 365) in
      if max \<le> utime then UTimeToSysClock_years (utime - max) False (uc + 1) else (utime, uc))"
  by pat_completeness auto
termination
  by (relation "measure (\<lambda>(utime, _). nat utime)") (auto split: if_splits)

text \<open>The length of the month \<open>uc\<close>, as the month loop and \<open>UTimeAdd\<close> find it.\<close>

definition month_max :: "u8 \<Rightarrow> u8 \<Rightarrow> int" where
  "month_max year uc =
     (if uc = 2 then (if year AND 0x03 = 0 then 29 else 28)
      else if uc < 8 then (if uc AND 0x01 \<noteq> 0 then 31 else 30)
      else (if uc AND 0x01 \<noteq> 0 then 30 else 31))"

lemma month_max_ge: "28 \<le> month_max year uc"
  by (simp add: month_max_def)

function UTimeToSysClock_months :: "u8 \<Rightarrow> int \<Rightarrow> u8 \<Rightarrow> int \<times> u8" where
  "UTimeToSysClock_months year utime uc =
     (if month_max year uc \<le> utime
      then UTimeToSysClock_months year (utime - month_max year uc) (uc + 1) else (utime, uc))"
  by pat_completeness auto
termination
proof (relation "measure (\<lambda>(_, utime, _). nat utime)")
  fix year uc :: u8 and utime :: int
  assume "month_max year uc \<le> utime"
  then show "((year, utime - month_max year uc, uc + 1), year, utime, uc) \<in> measure (\<lambda>(_, utime, _). nat utime)"
    using month_max_ge [of year uc] by simp
qed simp

declare UTimeToSysClock_years.simps [simp del] UTimeToSysClock_months.simps [simp del]

definition UTimeToSysClock :: "int \<Rightarrow> sysclock_t" where
  "UTimeToSysClock utime =
     (let second = word_of_int (cmod utime 60);
          utime = cdiv utime 60;
          minute = word_of_int (cmod utime 60);
          utime = cdiv utime 60;
          hour = word_of_int (cmod utime 24);
          utime = cdiv utime 24;
          week = word_of_int (cmod (utime + 6) 7);
          max = cdiv utime 1461;
          year = word_of_int (max * 4);
          (utime, uc) = UTimeToSysClock_years (utime - max * 1461) True 0;
          year = year + uc;
          (utime, uc) = UTimeToSysClock_months year utime 1
      in \<lparr>c_year = year, c_month = uc, c_day = word_of_int (utime + 1), c_hour = hour,
          c_minute = minute, c_second = second, c_week = week\<rparr>)"

subsection \<open>Differences and additions\<close>

definition SysClockDifference :: "sysclock_t \<Rightarrow> sysclock_t \<Rightarrow> int" where
  "SysClockDifference ptime1 ptime2 = s32 (SysClockToUTime ptime1 - SysClockToUTime ptime2)"

definition UTIMEDEV_MINUTE :: int where "UTIMEDEV_MINUTE = 0"

definition UTIMEDEV_HOUR :: int where "UTIMEDEV_HOUR = 1"

definition UTIMEDEV_DAY :: int where "UTIMEDEV_DAY = 2"

definition UTIMEDEV_MONTH :: int where "UTIMEDEV_MONTH = 3"

text \<open>One round of the month loop: the seconds of the current month, and the next month.\<close>

fun UTimeAdd_months :: "nat \<Rightarrow> u8 \<Rightarrow> u8 \<Rightarrow> int \<Rightarrow> int" where
  "UTimeAdd_months 0 year month addup = addup"
| "UTimeAdd_months (Suc n) year month addup =
     (let addup = s32 (addup + month_max year month * 86400);
          month = month + 1
      in if month > 12 then UTimeAdd_months n (year + 1) 1 addup
         else UTimeAdd_months n year month addup)"

definition UTimeAdd :: "int \<Rightarrow> int \<Rightarrow> int \<Rightarrow> int" where
  "UTimeAdd time m dev =
     (if m < UTIMEDEV_MONTH then
        let addup = (if m = UTIMEDEV_MINUTE then 60 else if m = UTIMEDEV_HOUR then 3600 else 86400)
        in s32 (time + s32 (addup * dev))
      else
        let clk = UTimeToSysClock time
        in s32 (time + UTimeAdd_months (nat dev) (c_year clk) (c_month clk) 0))"

subsection \<open>The cached clock\<close>

text \<open>The broken-down time of the C library, and the cached time of the module.\<close>

record tm =
  tm_sec :: int
  tm_min :: int
  tm_hour :: int
  tm_mday :: int
  tm_mon :: int
  tm_year :: int
  tm_wday :: int

record clock_state =
  UTimeCurrent :: int
  ClockCurrent :: sysclock_t
  ClockSysStart :: sysclock_t

definition clock_of_tm :: "tm \<Rightarrow> sysclock_t" where
  "clock_of_tm t = \<lparr>c_year = word_of_int (tm_year t - 100), c_month = word_of_int (tm_mon t + 1),
     c_day = word_of_int (tm_mday t), c_hour = word_of_int (tm_hour t), c_minute = word_of_int (tm_min t),
     c_second = word_of_int (tm_sec t), c_week = word_of_int (tm_wday t)\<rparr>"

text \<open>\<open>SysClockRead\<close> asks the C library once, and again when the year is not 2017; the two
  answers are arguments.\<close>

definition SysClockRead :: "tm \<Rightarrow> tm \<Rightarrow> clock_state \<Rightarrow> sysclock_t \<times> clock_state" where
  "SysClockRead tm1 tm2 st =
     (let timec = (if tm_year tm1 \<noteq> 117 then tm2 else tm1);
          c = clock_of_tm timec
      in (c, st\<lparr>ClockCurrent := c, UTimeCurrent := SysClockToUTime c\<rparr>))"

text \<open>\<open>SysClockSet\<close> hands the broken-down time to \<open>settimeofday\<close> and caches the normalised
  clock.\<close>

definition SysClockSet :: "sysclock_t \<Rightarrow> clock_state \<Rightarrow> tm \<times> clock_state" where
  "SysClockSet pclock st =
     (let t = \<lparr>tm_sec = uint (c_second pclock), tm_min = uint (c_minute pclock), tm_hour = uint (c_hour pclock),
           tm_mday = uint (c_day pclock), tm_mon = uint (c_month pclock) - 1, tm_year = uint (c_year pclock) + 100,
           tm_wday = 0\<rparr>;
          u = SysClockToUTime pclock
      in (t, st\<lparr>UTimeCurrent := u, ClockCurrent := UTimeToSysClock u\<rparr>))"

text \<open>The reader of the cached clock is not locked: each half of the 8 bytes (year to hour,
  minute to week) is read twice, and the loop ends when the first halves and the minutes
  agree. The argument lists the contents of the memory at the successive reads, four in each
  round; \<open>None\<close> says that the list ended before the loop did.\<close>

definition high_half :: "sysclock_t \<Rightarrow> u8 \<times> u8 \<times> u8 \<times> u8" where
  "high_half c = (c_year c, c_month c, c_day c, c_hour c)"

fun SysClockReadCurrent :: "sysclock_t list \<Rightarrow> sysclock_t option" where
  "SysClockReadCurrent (s0 # s1 # s2 # s3 # rest) =
     (if high_half s0 \<noteq> high_half s2 \<or> c_minute s1 \<noteq> c_minute s3 then SysClockReadCurrent rest
      else Some \<lparr>c_year = c_year s2, c_month = c_month s2, c_day = c_day s2, c_hour = c_hour s2,
                 c_minute = c_minute s3, c_second = c_second s3, c_week = c_week s3\<rparr>)"
| "SysClockReadCurrent _ = None"

text \<open>A writer stores the first half and then the second.\<close>

definition half_written :: "sysclock_t \<Rightarrow> sysclock_t \<Rightarrow> sysclock_t" where
  "half_written old new = old\<lparr>c_year := c_year new, c_month := c_month new, c_day := c_day new, c_hour := c_hour new\<rparr>"

definition UTimeReadCurrent :: "clock_state \<Rightarrow> int" where
  "UTimeReadCurrent st = UTimeCurrent st"

definition GetClockSysStart :: "clock_state \<Rightarrow> sysclock_t" where
  "GetClockSysStart st = ClockSysStart st"

definition SysTimeInit :: "tm \<Rightarrow> tm \<Rightarrow> clock_state \<Rightarrow> tm \<times> clock_state" where
  "SysTimeInit tm1 tm2 st =
     (let (c, st) = SysClockRead tm1 tm2 st; st = st\<lparr>ClockSysStart := c\<rparr>
      in SysClockSet c st)"

subsection \<open>Formatting and measuring\<close>

definition format_date :: "sysclock_t \<Rightarrow> string" where
  "format_date c = ''20'' @ dec2 (unat (c_year c)) @ ''-'' @ dec_nat (unat (c_month c)) @ ''-'' @ dec_nat (unat (c_day c)) @
     '' '' @ dec_nat (unat (c_hour c)) @ '':'' @ dec_nat (unat (c_minute c)) @ '':'' @ dec_nat (unat (c_second c))"

definition UTimeFormat :: "int \<Rightarrow> string" where
  "UTimeFormat time = format_date (UTimeToSysClock time)"

definition SysClockFormat :: "sysclock_t \<Rightarrow> string" where
  "SysClockFormat pclock = format_date pclock"

text \<open>Milliseconds between two \<open>timeval\<close>s (seconds, microseconds).\<close>

definition StopTimeMeasure :: "int \<times> int \<Rightarrow> int \<times> int \<Rightarrow> int" where
  "StopTimeMeasure start tval =
     (let (ssec, susec) = start; (sec, usec) = tval;
          (sec, usec) = (if usec < susec then (sec - 1, usec + 1000000) else (sec, usec))
      in if sec < ssec then 0 else s32 (s32 ((sec - ssec) * 1000) + cdiv (usec - susec) 1000))"

subsection \<open>The external clock\<close>

text \<open>\<open>ReadExternSysClock\<close> wants two reads that agree up to the minute. The answers of
  \<open>ExtClockRead\<close> (\<open>None\<close> when it fails) are a list; a call on the empty list fails.\<close>

fun ext_next :: "sysclock_t option list \<Rightarrow> sysclock_t option \<times> sysclock_t option list" where
  "ext_next [] = (None, [])"
| "ext_next (a # as) = (a, as)"

fun ext_pair :: "nat \<Rightarrow> sysclock_t option list \<Rightarrow> (sysclock_t \<times> sysclock_t) option \<times> sysclock_t option list" where
  "ext_pair 0 ans = (None, ans)"
| "ext_pair (Suc retry) ans =
     (case ext_next ans of
        (None, ans) \<Rightarrow> ext_pair retry ans
      | (Some e1, ans) \<Rightarrow>
          (case ext_next ans of
             (None, ans) \<Rightarrow> ext_pair retry ans
           | (Some e2, ans) \<Rightarrow> (Some (e1, e2), ans)))"

fun ReadExternSysClock_loop :: "nat \<Rightarrow> sysclock_t option list \<Rightarrow> sysclock_t option" where
  "ReadExternSysClock_loop 0 ans = None"
| "ReadExternSysClock_loop (Suc failcnt) ans =
     (case ext_pair 3 ans of
        (None, ans) \<Rightarrow> None
      | (Some (e1, e2), ans) \<Rightarrow>
          if c_year e1 \<noteq> c_year e2 \<or> c_month e1 \<noteq> c_month e2 \<or> c_day e1 \<noteq> c_day e2 \<or>
             c_hour e1 \<noteq> c_hour e2 \<or> c_minute e1 \<noteq> c_minute e2
          then ReadExternSysClock_loop failcnt ans
          else Some e2)"

definition ReadExternSysClock :: "sysclock_t option list \<Rightarrow> sysclock_t option" where
  "ReadExternSysClock ans = ReadExternSysClock_loop 300 ans"

text \<open>The age check of the music archive compares the age with a limit and answers the same in
  both cases; \<open>None\<close> for the file stands for a missing archive.\<close>

definition getFileDays :: "sysclock_t option \<Rightarrow> sysclock_t \<Rightarrow> u8 \<Rightarrow> int" where
  "getFileDays file currentclock musicmonth =
     (case file of
        None \<Rightarrow> - 1
      | Some filepclock \<Rightarrow>
          let second = SysClockDifference currentclock filepclock;
              MaxDays = s32 (uint musicmonth * 2592000)
          in if MaxDays < second then 0 else 0)"

subsection \<open>Database time\<close>

record dbtime_t =
  d_tick :: u8
  d_day :: u8
  d_month :: u8
  d_year :: u8

definition MonthMaxDays :: "u8 list" where
  "MonthMaxDays = [0, 31, 28, 31, 30, 31, 30, 31, 31, 30, 31, 30, 31, 0, 0, 0]"

text \<open>The table has 16 entries; a month beyond them reads past its end (\<open>None\<close>).\<close>

definition db_maxdays :: "u8 \<Rightarrow> u8 \<Rightarrow> u8 option" where
  "db_maxdays year month =
     (if unat month < length MonthMaxDays
      then Some (MonthMaxDays ! unat month + (if month = 2 \<and> year AND 0x03 = 0 then 1 else 0)) else None)"

definition DbTimeAddOneDay :: "dbtime_t \<Rightarrow> dbtime_t option" where
  "DbTimeAddOneDay t =
     (case db_maxdays (d_year t) (d_month t) of
        None \<Rightarrow> None
      | Some maxdays \<Rightarrow>
          let t = t\<lparr>d_day := d_day t + 1\<rparr> in
          if d_day t > maxdays then
            let t = t\<lparr>d_day := 1, d_month := d_month t + 1\<rparr> in
            Some (if d_month t > 12 then t\<lparr>d_month := 1, d_year := d_year t + 1\<rparr> else t)
          else Some t)"

definition DbTimeSubOneDay :: "dbtime_t \<Rightarrow> dbtime_t option" where
  "DbTimeSubOneDay t =
     (let t = t\<lparr>d_day := d_day t - 1\<rparr> in
      if d_day t = 0 then
        let t = t\<lparr>d_month := d_month t - 1\<rparr>;
            t = (if d_month t = 0 then t\<lparr>d_month := 12, d_year := d_year t - 1\<rparr> else t)
        in map_option (\<lambda>maxdays. t\<lparr>d_day := maxdays\<rparr>) (db_maxdays (d_year t) (d_month t))
      else Some t)"

definition DbTimeAddOneMonth :: "dbtime_t \<Rightarrow> dbtime_t" where
  "DbTimeAddOneMonth t =
     (let t = t\<lparr>d_month := d_month t + 1\<rparr> in
      if d_month t > 12 then t\<lparr>d_month := 1, d_year := d_year t + 1\<rparr> else t)"

definition DbTimeSubOneMonth :: "dbtime_t \<Rightarrow> dbtime_t" where
  "DbTimeSubOneMonth t =
     (let t = t\<lparr>d_month := d_month t - 1\<rparr> in
      if d_month t = 0 then t\<lparr>d_month := 12, d_year := d_year t - 1\<rparr> else t)"

definition DbTimeAddOneTick :: "dbtime_t \<Rightarrow> dbtime_t option" where
  "DbTimeAddOneTick t =
     (let t = t\<lparr>d_tick := d_tick t + 1\<rparr> in
      if d_tick t > 95 then DbTimeAddOneDay (t\<lparr>d_tick := 0\<rparr>) else Some t)"

definition DBTIME_SYSCLOCK :: "dbtime_t \<Rightarrow> sysclock_t \<Rightarrow> sysclock_t" where
  "DBTIME_SYSCLOCK t clk = clk\<lparr>c_year := d_year t, c_month := d_month t, c_day := d_day t,
     c_hour := drop_bit 2 (d_tick t), c_minute := (d_tick t AND 0x03) * 15, c_second := 0\<rparr>"

definition SYSCLOCK_DBTIME :: "sysclock_t \<Rightarrow> dbtime_t" where
  "SYSCLOCK_DBTIME clk = \<lparr>d_tick = push_bit 2 (c_hour clk) + c_minute clk div 15, d_day = c_day clk,
     d_month = c_month clk, d_year = c_year clk\<rparr>"

subsection \<open>Specification\<close>

definition days_of :: "u8 \<Rightarrow> u8 \<Rightarrow> int" where
  "days_of year m = DaysBeforeMonth ! (unat m - 1) + (if m > 2 \<and> year AND 0x03 = 0 then 1 else 0)"

definition year_days :: "u8 \<Rightarrow> int" where
  "year_days year = (if year AND 0x03 = 0 then 366 else 365)"

definition valid_clock :: "sysclock_t \<Rightarrow> bool" where
  "valid_clock c \<longleftrightarrow> 0 < c_month c \<and> c_month c \<le> 12 \<and> 0 < c_day c \<and>
     uint (c_day c) \<le> month_max (c_year c) (c_month c) \<and> c_hour c < 24 \<and> c_minute c < 60 \<and> c_second c < 60"

definition year_start :: "u8 \<Rightarrow> int" where
  "year_start y = 365 * uint y + (uint y + 3) div 4"

definition clock_days :: "sysclock_t \<Rightarrow> int" where
  "clock_days c = year_start (c_year c) + days_of (c_year c) (c_month c) + (uint (c_day c) - 1)"

definition clock_secs :: "sysclock_t \<Rightarrow> int" where
  "clock_secs c = ((clock_days c * 24 + uint (c_hour c)) * 60 + uint (c_minute c)) * 60 + uint (c_second c)"

text \<open>Valid clocks are ordered like their seconds.\<close>

definition clock_tuple :: "sysclock_t \<Rightarrow> int list" where
  "clock_tuple c = [uint (c_year c), uint (c_month c), uint (c_day c), uint (c_hour c), uint (c_minute c), uint (c_second c)]"

fun lex_less :: "int list \<Rightarrow> int list \<Rightarrow> bool" where
  "lex_less (a # as) (b # bs) \<longleftrightarrow> a < b \<or> a = b \<and> lex_less as bs"
| "lex_less _ _ \<longleftrightarrow> False"

definition valid_db :: "dbtime_t \<Rightarrow> bool" where
  "valid_db t \<longleftrightarrow> d_tick t \<le> 95 \<and> 0 < d_month t \<and> d_month t \<le> 12 \<and> 0 < d_day t \<and>
     uint (d_day t) \<le> month_max (d_year t) (d_month t)"

definition db_days :: "dbtime_t \<Rightarrow> int" where
  "db_days t = year_start (d_year t) + days_of (d_year t) (d_month t) + (uint (d_day t) - 1)"

definition db_secs :: "dbtime_t \<Rightarrow> int" where
  "db_secs t = db_days t * 86400 + uint (d_tick t) * 900"

definition month_next :: "sysclock_t \<Rightarrow> sysclock_t" where
  "month_next c = (if c_month c = 12 then c\<lparr>c_month := 1, c_year := c_year c + 1\<rparr> else c\<lparr>c_month := c_month c + 1\<rparr>)"

definition example_clock :: "u8 \<Rightarrow> u8 \<Rightarrow> u8 \<Rightarrow> sysclock_t" where
  "example_clock h mi s = \<lparr>c_year = 17, c_month = 6, c_day = 1, c_hour = h, c_minute = mi, c_second = s, c_week = 4\<rparr>"

subsection \<open>Lemmas\<close>

lemma month_cases:
  assumes "(0 :: u8) < m" "m \<le> 12"
  obtains "m = 1" | "m = 2" | "m = 3" | "m = 4" | "m = 5" | "m = 6" | "m = 7" | "m = 8" | "m = 9"
    | "m = 10" | "m = 11" | "m = 12"
proof -
  have "unat m \<in> {1..12}" using assms by (simp add: word_less_nat_alt word_le_nat_alt)
  moreover have "{1..12 :: nat} = {1, 2, 3, 4, 5, 6, 7, 8, 9, 10, 11, 12}" by code_simp
  ultimately have "(of_nat (unat m) :: u8) \<in> of_nat ` {1, 2, 3, 4, 5, 6, 7, 8, 9, 10, 11, 12}"
    by (metis imageI)
  then have "m \<in> {1, 2, 3, 4, 5, 6, 7, 8, 9, 10, 11, 12}" by simp
  then show ?thesis using that by blast
qed

lemma days_of_next:
  assumes "0 < m" "m \<le> 12"
  shows "if m < 12 then days_of year (m + 1) = days_of year m + month_max year m \<and> m + 1 \<le> 12 \<and> 0 < m + 1
    else days_of year m + month_max year m = year_days year"
  using assms by (cases rule: month_cases) (simp_all add: days_of_def month_max_def year_days_def DaysBeforeMonth_def)

lemma months_loop:
  "0 < uc \<Longrightarrow> uc \<le> 12 \<Longrightarrow> 0 \<le> r \<Longrightarrow> days_of year uc + r < year_days year \<Longrightarrow>
   UTimeToSysClock_months year r uc = (r', m) \<Longrightarrow>
   0 < m \<and> m \<le> 12 \<and> 0 \<le> r' \<and> r' < month_max year m \<and> days_of year m + r' = days_of year uc + r"
proof (induction year r uc rule: UTimeToSysClock_months.induct)
  case (1 year r uc)
  note n = days_of_next [OF 1(2,3), of year]
  show ?case
  proof (cases "month_max year uc \<le> r")
    case False
    then show ?thesis using 1 by (simp add: UTimeToSysClock_months.simps)
  next
    case True
    then have lt: "uc < 12" using n 1(5) by (auto split: if_splits)
    then have d: "days_of year (uc + 1) = days_of year uc + month_max year uc" "uc + 1 \<le> 12" "0 < uc + 1"
      using n by simp_all
    have "UTimeToSysClock_months year (r - month_max year uc) (uc + 1) = (r', m)"
      using 1(6) True by (simp add: UTimeToSysClock_months.simps [of year r])
    then show ?thesis using 1(1) [OF True d(3,2)] 1(5) d True by simp
  qed
qed

lemma years_loop:
  assumes "0 \<le> r" "r < 1461"
  shows "UTimeToSysClock_years r True 0 =
     (if r < 366 then (r, 0) else if r < 731 then (r - 366, 1) else if r < 1096 then (r - 731, 2) else (r - 1096, 3))"
proof -
  have "UTimeToSysClock_years x False u = (if 365 \<le> x then UTimeToSysClock_years (x - 365) False (u + 1) else (x, u))"
    for x u by (subst UTimeToSysClock_years.simps) simp
  note s = this
  have "UTimeToSysClock_years r True 0 = (if 366 \<le> r then UTimeToSysClock_years (r - 366) False 1 else (r, 0))"
    by (subst UTimeToSysClock_years.simps) simp
  then show ?thesis
    using assms by (simp add: s [of "r - 366"] s [of "r - 731"] s [of "r - 1096"] s [of "r - 1461"])
qed

lemma leap_iff: "(y :: u8) AND 0x03 = 0 \<longleftrightarrow> uint y mod 4 = 0"
proof -
  have "y AND 0x03 = take_bit 2 y" unfolding take_bit_eq_mask mask_eq_exp_minus_1 by simp
  then have "uint (y AND 0x03) = uint y mod 4" by (simp only: unsigned_take_bit_eq) (simp add: take_bit_eq_mod)
  then show ?thesis by (metis unsigned_0 unsigned_eq_0_iff)
qed

lemma year_start_next: "c < 255 \<Longrightarrow> year_start (c + 1) = year_start c + year_days c"
proof -
  assume "c < 255"
  then have u: "uint (c + 1) = uint c + 1" by (simp add: uint_plus_if' word_less_def)
  then show ?thesis unfolding year_start_def year_days_def leap_iff u by presburger
qed

lemma SysClockToUTime_eq:
  assumes "valid_clock c"
  shows "SysClockToUTime c = s32 (clock_secs c)"
proof -
  have v: "0 < c_month c" "c_month c \<le> 12" "0 < c_day c" using assms by (simp_all add: valid_clock_def)
  have "(12 :: u8) < 13" by simp
  then have m: "c_month c < 13" using v(2) by (rule le_less_trans [rotated])
  have n: "c_month c \<noteq> 0" "c_day c \<noteq> 0" using v by auto
  have y: "(if uint (c_year c) \<noteq> 0 then (uint (c_year c) - 1) div 4 + 1 else 0) = (uint (c_year c) + 3) div 4"
  proof -
    have "(if x \<noteq> 0 then (x - 1) div 4 + 1 else 0) = (x + 3) div 4" for x :: int
      using div_add_self2 [of 4 "x - 1"] by (simp add: add.commute)
    from this [of "uint (c_year c)"] show ?thesis .
  qed
  have l: "(if P then (x :: int) + 1 else x) = x + (if P then 1 else 0)" for P x by simp
  have a: "s32 (x * 60) = s32 (60 * x)" for x by (simp add: mult.commute)
  define leap :: int where "leap = (if 2 < c_month c \<and> c_year c AND 0x03 = 0 then 1 else 0)"
  have d: "uint (c_year c) * 365 + (uint (c_year c) + 3) div 4 + leap + DaysBeforeMonth ! (unat (c_month c) - 1)
      + (uint (c_day c) - 1) = clock_days c"
    unfolding clock_days_def year_start_def days_of_def leap_def by (simp only: mult.commute [of 365] add.assoc)
  have "SysClockToUTime c = s32 ((clock_days c * 1440 + uint (c_hour c) * 60 + uint (c_minute c)) * 60 + uint (c_second c))"
    unfolding SysClockToUTime_def Let_def s32_add_left y l leap_def [symmetric]
    by (simp only: m n not_False_eq_True simp_thms if_True d)
  then show ?thesis unfolding clock_secs_def by (simp add: algebra_simps)
qed

lemma clock_days_bounds:
  assumes "valid_clock c"
  shows "year_start (c_year c) \<le> clock_days c" "clock_days c < year_start (c_year c) + year_days (c_year c)"
proof -
  have m: "0 < c_month c" "c_month c \<le> 12" "0 < uint (c_day c)" "uint (c_day c) \<le> month_max (c_year c) (c_month c)"
    using assms by (auto simp: valid_clock_def word_less_def)
  have "0 \<le> days_of (c_year c) (c_month c) \<and> days_of (c_year c) (c_month c) + month_max (c_year c) (c_month c) \<le> year_days (c_year c)"
    using m(1,2) by (cases rule: month_cases) (simp_all add: days_of_def month_max_def year_days_def DaysBeforeMonth_def)
  then show "year_start (c_year c) \<le> clock_days c" "clock_days c < year_start (c_year c) + year_days (c_year c)"
    using m unfolding clock_days_def by linarith+
qed

lemma years_loop_days:
  assumes n: "0 \<le> n" "n \<le> 24855" and q: "q = n div 1461" and y: "UTimeToSysClock_years (n mod 1461) True 0 = (r1, uc)"
  shows "uint uc \<in> {0, 1, 2, 3}" "q = 17 \<longrightarrow> uint uc = 0"
    "n mod 1461 = r1 + (if uint uc = 0 then 0 else 365 * uint uc + 1)" "0 \<le> r1" "r1 < (if uint uc = 0 then 366 else 365)"
proof -
  define r where "r = n mod 1461"
  have r: "0 \<le> r" "r < 1461" by (simp_all add: r_def)
  have q17: "r < 366" if "q = 17"
  proof -
    have "n = 1461 * q + r" unfolding q r_def by simp
    then show ?thesis using n that by simp
  qed
  have y': "UTimeToSysClock_years r True 0 = (r1, uc)" using y by (simp add: r_def)
  then show "uint uc \<in> {0, 1, 2, 3}" "q = 17 \<longrightarrow> uint uc = 0"
    "n mod 1461 = r1 + (if uint uc = 0 then 0 else 365 * uint uc + 1)" "0 \<le> r1" "r1 < (if uint uc = 0 then 366 else 365)"
    using years_loop [OF r] q17 r unfolding r_def [symmetric] by (auto split: if_splits)
qed

lemma year_of_days:
  assumes n: "0 \<le> n" "n \<le> 24855" and q: "q = n div 1461"
    and y: "UTimeToSysClock_years (n - q * 1461) True 0 = (r1, uc)" and year: "year = word_of_int (q * 4) + uc"
  shows "0 \<le> r1 \<and> r1 < year_days year \<and> n = year_start year + r1 \<and> uint year \<le> 68"
proof -
  have "n - q * 1461 = n mod 1461" by (simp add: q minus_div_mult_eq_mod)
  note f = years_loop_days [OF n q y [unfolded this]]
  have q17: "0 \<le> q" "q \<le> 17" using n by (auto simp: q)
  then have q4: "uint (word_of_int (q * 4) :: u8) = q * 4"
    by (simp only: unsigned_of_int) (simp add: take_bit_eq_mod)
  have uy: "uint year = q * 4 + uint uc" using q4 q17 f(1) by (auto simp: year uint_plus_if')
  have leap: "(uint year mod 4 = 0) = (uint uc = 0)" using f(1) unfolding uy by auto
  have "year_start year = 1461 * q + (if uint uc = 0 then 0 else 365 * uint uc + 1)"
    using f(1) unfolding year_start_def uy by auto
  moreover have "n = 1461 * q + n mod 1461" unfolding q by simp
  ultimately have "n = year_start year + r1" using f(3) by simp
  moreover have "uint year \<le> 68" using f(1,2) q17 unfolding uy by auto
  ultimately show ?thesis using f(4,5) unfolding year_days_def leap_iff leap by auto
qed

lemma uint_small: "0 < k \<Longrightarrow> k \<le> 60 \<Longrightarrow> uint (word_of_int (x mod k) :: u8) = x mod k"
proof -
  assume "0 < k" "k \<le> 60"
  then have "0 \<le> x mod k" "x mod k < 256" using pos_mod_sign [of k x] pos_mod_bound [of k x] by linarith+
  then show ?thesis by (simp only: unsigned_of_int) (simp add: take_bit_eq_mod)
qed

lemma UTimeToSysClock_fields:
  assumes "0 \<le> t" "t \<le> 2147483647" and n: "n = t div 60 div 60 div 24"
  shows "\<exists>year m r. UTimeToSysClock t = \<lparr>c_year = year, c_month = m, c_day = word_of_int (r + 1),
     c_hour = word_of_int (t div 60 div 60 mod 24), c_minute = word_of_int (t div 60 mod 60),
     c_second = word_of_int (t mod 60), c_week = word_of_int ((n + 6) mod 7)\<rparr> \<and>
     n = year_start year + days_of year m + r \<and> 0 < m \<and> m \<le> 12 \<and> 0 \<le> r \<and> r < month_max year m \<and> uint year \<le> 68"
proof -
  have n0: "0 \<le> n" "n \<le> 24855" using assms by simp_all
  define q where "q = n div 1461"
  obtain r1 uc where y: "UTimeToSysClock_years (n - q * 1461) True 0 = (r1, uc)" by force
  define year :: u8 where "year = word_of_int (q * 4) + uc"
  note y' = year_of_days [OF n0 q_def y year_def]
  obtain r2 m where mm: "UTimeToSysClock_months year r1 1 = (r2, m)" by force
  have d1: "days_of year 1 = 0" by (simp add: days_of_def DaysBeforeMonth_def)
  have m: "0 < m \<and> m \<le> 12 \<and> 0 \<le> r2 \<and> r2 < month_max year m \<and> days_of year m + r2 = r1"
    using months_loop [OF _ _ _ _ mm] y' d1 by simp
  have e: "cdiv t 60 = t div 60" "cdiv (t div 60) 60 = t div 60 div 60" "cdiv (t div 60 div 60) 24 = n"
      "cdiv n 1461 = q" "cmod t 60 = t mod 60" "cmod (t div 60) 60 = t div 60 mod 60"
      "cmod (t div 60 div 60) 24 = t div 60 div 60 mod 24" "cmod (n + 6) 7 = (n + 6) mod 7"
    using assms(1) n0 by (simp_all add: n q_def)
  have "UTimeToSysClock t = \<lparr>c_year = year, c_month = m, c_day = word_of_int (r2 + 1),
     c_hour = word_of_int (t div 60 div 60 mod 24), c_minute = word_of_int (t div 60 mod 60),
     c_second = word_of_int (t mod 60), c_week = word_of_int ((n + 6) mod 7)\<rparr>"
    unfolding UTimeToSysClock_def Let_def e y prod.case year_def [symmetric] mm ..
  moreover have "n = year_start year + days_of year m + r2" using m y' by simp
  ultimately show ?thesis using m y' by blast
qed

lemma UTimeToSysClock_correct:
  assumes "0 \<le> t" "t \<le> 2147483647"
  shows "valid_clock (UTimeToSysClock t)" "clock_secs (UTimeToSysClock t) = t"
    "uint (c_week (UTimeToSysClock t)) = (t div 86400 + 6) mod 7" "uint (c_year (UTimeToSysClock t)) \<le> 68"
proof -
  define n where "n = t div 60 div 60 div 24"
  obtain year m r where eq: "UTimeToSysClock t = \<lparr>c_year = year, c_month = m, c_day = word_of_int (r + 1),
     c_hour = word_of_int (t div 60 div 60 mod 24), c_minute = word_of_int (t div 60 mod 60),
     c_second = word_of_int (t mod 60), c_week = word_of_int ((n + 6) mod 7)\<rparr>"
    and f: "n = year_start year + days_of year m + r" "0 < m" "m \<le> 12" "0 \<le> r" "r < month_max year m" "uint year \<le> 68"
    using UTimeToSysClock_fields [OF assms n_def] by blast
  have "month_max year m \<le> 31" by (simp add: month_max_def)
  then have day: "uint (word_of_int (r + 1) :: u8) = r + 1"
    using f by (simp only: unsigned_of_int) (simp add: take_bit_eq_mod)
  have tn: "((n * 24 + t div 60 div 60 mod 24) * 60 + t div 60 mod 60) * 60 + t mod 60 = t"
    unfolding n_def by (simp only: div_mult_mod_eq)
  have cd: "clock_days (UTimeToSysClock t) = n" using f(1) day by (simp add: eq clock_days_def)
  have us: "uint (word_of_int (x mod 24) :: u8) = x mod 24" "uint (word_of_int (x mod 60) :: u8) = x mod 60" for x
    by (simp_all add: uint_small)
  show "clock_secs (UTimeToSysClock t) = t"
    unfolding clock_secs_def cd unfolding eq sysclock_t.select_convs us by (rule tn)
  show "valid_clock (UTimeToSysClock t)"
    using f day unfolding valid_clock_def word_less_def by (simp add: eq uint_small)
  have "n = t div 86400" by (simp add: n_def flip: zdiv_zmult2_eq)
  then show "uint (c_week (UTimeToSysClock t)) = (t div 86400 + 6) mod 7" by (simp add: eq uint_small)
  show "uint (c_year (UTimeToSysClock t)) \<le> 68" using f by (simp add: eq)
qed

lemma lex_total: "length as = length bs \<Longrightarrow> lex_less as bs \<or> as = bs \<or> lex_less bs as"
  by (induction as bs rule: lex_less.induct) auto

lemma year_start_mono: "uint y < uint (y' :: u8) \<Longrightarrow> year_start y + year_days y \<le> year_start y'"
proof -
  assume "uint y < uint y'"
  then have "(uint y + 4) div 4 \<le> (uint y' + 3) div 4" "365 * (uint y + 1) \<le> 365 * uint y'"
    by (intro zdiv_mono1, simp_all)
  moreover have "(uint y + 4) div 4 = (uint y + 3) div 4 + (if uint y mod 4 = 0 then 1 else 0)"
    by presburger
  ultimately show ?thesis unfolding year_start_def year_days_def leap_iff by (simp split: if_splits)
qed

lemma month_start_mono_nat:
  "0 < a \<Longrightarrow> a < b \<Longrightarrow> b \<le> 12 \<Longrightarrow> days_of y (of_nat a) + month_max y (of_nat a) \<le> days_of y (of_nat b)"
proof (induction b)
  case (Suc b)
  have "(of_nat b :: u8) < 12" "(0 :: u8) < of_nat b"
    using Suc.prems by (simp_all add: word_less_nat_alt unat_of_nat take_bit_eq_mod)
  then have n: "days_of y (of_nat (Suc b)) = days_of y (of_nat b) + month_max y (of_nat b)"
    using days_of_next [of "of_nat b" y] by (simp add: add.commute)
  show ?case
  proof (cases "a = b")
    case False
    then show ?thesis using Suc n month_max_ge [of y "of_nat b"] by simp
  qed (use n in simp)
qed simp

lemma month_start_mono:
  assumes "0 < m" "m' \<le> 12" "uint m < uint m'"
  shows "days_of y m + month_max y m \<le> days_of y m'"
proof -
  have "0 < unat m" "unat m < unat m'" "unat m' \<le> 12"
    using assms by (simp_all add: word_less_nat_alt word_le_nat_alt flip: word_less_def)
  from month_start_mono_nat [OF this, of y] show ?thesis by simp
qed

lemma clock_days_mono:
  assumes v: "valid_clock c" "valid_clock c'"
    and "lex_less [uint (c_year c), uint (c_month c), uint (c_day c)] [uint (c_year c'), uint (c_month c'), uint (c_day c')]"
  shows "clock_days c < clock_days c'"
proof -
  consider "uint (c_year c) < uint (c_year c')" | "c_year c = c_year c'" "uint (c_month c) < uint (c_month c')"
    | "c_year c = c_year c'" "c_month c = c_month c'" "uint (c_day c) < uint (c_day c')"
    using assms(3) by (auto simp: word_uint_eq_iff)
  then show ?thesis
  proof cases
    case 1 then show ?thesis using clock_days_bounds [OF v(1)] clock_days_bounds [OF v(2)] year_start_mono by fastforce
  next
    case 2
    then show ?thesis using v month_start_mono [of "c_month c" "c_month c'" "c_year c"]
      by (auto simp: clock_days_def valid_clock_def word_less_def)
  next
    case 3 then show ?thesis by (simp add: clock_days_def)
  qed
qed

lemma secs_lex:
  fixes d h m s :: int
  assumes "d < d' \<or> d = d' \<and> (h < h' \<or> h = h' \<and> (m < m' \<or> m = m' \<and> s < s'))"
    "h \<le> 23" "m \<le> 59" "s \<le> 59" "0 \<le> h'" "0 \<le> m'" "0 \<le> s'"
  shows "((d * 24 + h) * 60 + m) * 60 + s < ((d' * 24 + h') * 60 + m') * 60 + s'"
  using assms(1)
proof (elim disjE conjE)
  assume "d < d'"
  then have "d * 24 + 24 \<le> d' * 24" by simp
  then show ?thesis using assms(2-7) by (simp add: algebra_simps)
qed (use assms(2-7) in \<open>simp_all add: algebra_simps\<close>)

lemma clock_secs_mono:
  assumes v: "valid_clock c" "valid_clock c'" and l: "lex_less (clock_tuple c) (clock_tuple c')"
  shows "clock_secs c < clock_secs c'"
  unfolding clock_secs_def
proof (rule secs_lex)
  show "clock_days c < clock_days c' \<or> clock_days c = clock_days c' \<and>
     (uint (c_hour c) < uint (c_hour c') \<or> uint (c_hour c) = uint (c_hour c') \<and>
      (uint (c_minute c) < uint (c_minute c') \<or> uint (c_minute c) = uint (c_minute c') \<and>
       uint (c_second c) < uint (c_second c')))"
  proof (cases "c_year c = c_year c' \<and> c_month c = c_month c' \<and> c_day c = c_day c'")
    case True
    then show ?thesis using l by (simp add: clock_tuple_def clock_days_def)
  next
    case False
    then show ?thesis using l clock_days_mono [OF v] by (auto simp: clock_tuple_def word_uint_eq_iff)
  qed
qed (use v in \<open>auto simp: valid_clock_def word_less_def\<close>)

lemma month_max_ge28: "28 \<le> month_max y m" "month_max y m \<le> 31"
  by (simp_all add: month_max_def)

lemma db_maxdays_eq:
  assumes "0 < m" "m \<le> 12"
  shows "\<exists>w. db_maxdays y m = Some w \<and> uint w = month_max y m"
  using assms
  by (cases rule: month_cases) (simp_all add: db_maxdays_def MonthMaxDays_def month_max_def)

lemma month_succ:
  assumes "0 < m" "m \<le> (12 :: u8)"
  shows "m + 1 > 12 \<longleftrightarrow> m = 12" "m + 1 - 1 = m" "m \<noteq> 0"
  using assms by (cases rule: month_cases; simp)+

lemma AddOneDay_cases:
  assumes v: "valid_db t" and y: "d_year t < 255"
  obtains
    (day) "uint (d_day t) < month_max (d_year t) (d_month t)" "DbTimeAddOneDay t = Some (t\<lparr>d_day := d_day t + 1\<rparr>)"
      "uint (d_day t + 1) = uint (d_day t) + 1"
  | (month) "uint (d_day t) = month_max (d_year t) (d_month t)" "d_month t \<noteq> 12"
      "DbTimeAddOneDay t = Some (t\<lparr>d_day := 1, d_month := d_month t + 1\<rparr>)"
  | (year) "uint (d_day t) = month_max (d_year t) (d_month t)" "d_month t = 12"
      "DbTimeAddOneDay t = Some (t\<lparr>d_day := 1, d_month := 1, d_year := d_year t + 1\<rparr>)"
proof -
  have m: "0 < d_month t" "d_month t \<le> 12" using v by (simp_all add: valid_db_def)
  obtain w where w: "db_maxdays (d_year t) (d_month t) = Some w" "uint w = month_max (d_year t) (d_month t)"
    using db_maxdays_eq [OF m] by blast
  have le: "uint (d_day t) \<le> month_max (d_year t) (d_month t)" using v by (simp add: valid_db_def)
  then have "uint (d_day t) \<le> 31" using month_max_ge28(2) [of "d_year t" "d_month t"] by (rule order_trans)
  then have d1: "uint (d_day t + 1) = uint (d_day t) + 1" by (simp add: uint_plus_if')
  have gt: "d_day t + 1 > w \<longleftrightarrow> uint (d_day t) = month_max (d_year t) (d_month t)"
    unfolding word_less_def d1 w(2) using le by auto
  note ms = month_succ [OF m]
  show ?thesis
  proof (cases "uint (d_day t) = month_max (d_year t) (d_month t)")
    case False
    then show ?thesis using day le w d1 gt by (simp add: DbTimeAddOneDay_def)
  next
    case True
    then show ?thesis using month year w gt ms by (cases "d_month t = 12") (simp_all add: DbTimeAddOneDay_def)
  qed
qed

lemma DbTimeAddOneDay_correct:
  assumes v: "valid_db t" and y: "d_year t < 255"
  shows "\<exists>t'. DbTimeAddOneDay t = Some t' \<and> valid_db t' \<and> DbTimeSubOneDay t' = Some t \<and> db_days t' = db_days t + 1 \<and>
    d_tick t' = d_tick t"
proof -
  have m: "0 < d_month t" "d_month t \<le> 12" and d: "0 < d_day t" using v by (simp_all add: valid_db_def)
  obtain w where w: "db_maxdays (d_year t) (d_month t) = Some w" "uint w = month_max (d_year t) (d_month t)"
    using db_maxdays_eq [OF m] by blast
  note ms = month_succ [OF m]
  have next': "if d_month t < 12 then days_of (d_year t) (d_month t + 1) = days_of (d_year t) (d_month t) + month_max (d_year t) (d_month t) \<and>
      d_month t + 1 \<le> 12 \<and> 0 < d_month t + 1
    else days_of (d_year t) (d_month t) + month_max (d_year t) (d_month t) = year_days (d_year t)"
    by (rule days_of_next [OF m])
  show ?thesis using v y
  proof (cases rule: AddOneDay_cases)
    case day
    have "d_day t \<noteq> 0" using d by auto
    then show ?thesis using day v by (auto simp: valid_db_def db_days_def DbTimeSubOneDay_def word_less_def)
  next
    case month
    then have "d_month t < 12" using m by (simp add: order.strict_iff_order)
    moreover have "w = d_day t" using month(1) w(2) by (simp add: word_uint_eq_iff)
    ultimately show ?thesis using month(1,3) v w ms next' month_max_ge28(1) [of "d_year t" "d_month t + 1"]
      by (auto simp: valid_db_def db_days_def DbTimeSubOneDay_def)
  next
    case year
    have "w = d_day t" using year(1) w(2) by (simp add: word_uint_eq_iff)
    moreover have "days_of z 1 = 0" for z by (simp add: days_of_def DaysBeforeMonth_def)
    ultimately show ?thesis using year v w next' year_start_next [OF y] month_max_ge28(1) [of "d_year t + 1" 1]
      by (auto simp: valid_db_def db_days_def DbTimeSubOneDay_def)
  qed
qed

lemma DBTIME_SYSCLOCK_secs:
  assumes "valid_db t"
  shows "valid_clock (DBTIME_SYSCLOCK t clk)" "clock_secs (DBTIME_SYSCLOCK t clk) = db_secs t"
proof -
  have t: "unat (d_tick t) \<le> 95" using assms by (simp add: valid_db_def word_le_nat_alt)
  have h: "unat (drop_bit 2 (d_tick t)) = unat (d_tick t) div 4"
    by (simp only: unsigned_drop_bit_eq) (simp add: drop_bit_eq_div take_bit_eq_mod)
  have "d_tick t AND 0x03 = take_bit 2 (d_tick t)" unfolding take_bit_eq_mask mask_eq_exp_minus_1 by simp
  then have q: "unat (d_tick t AND 0x03) = unat (d_tick t) mod 4"
    by (simp only: unsigned_take_bit_eq) (simp add: take_bit_eq_mod)
  have "unat (d_tick t) mod 4 < 4" by simp
  then have mi: "unat ((d_tick t AND 0x03) * 15) = unat (d_tick t) mod 4 * 15"
    unfolding unat_word_ariths q by simp
  have hh: "uint (drop_bit 2 (d_tick t)) = int (unat (d_tick t) div 4)"
    and mm: "uint ((d_tick t AND 0x03) * 15) = int (unat (d_tick t) mod 4 * 15)"
    by (simp_all only: uint_nat [of "drop_bit 2 (d_tick t)"] uint_nat [of "(d_tick t AND 0x03) * 15"] h mi)
  show "valid_clock (DBTIME_SYSCLOCK t clk)"
  proof -
    have "unat (24 :: u8) = 24" "unat (60 :: u8) = 60" by simp_all
    then have "drop_bit 2 (d_tick t) < 24" "(d_tick t AND 0x03) * 15 < 60"
      unfolding word_less_nat_alt h mi using t \<open>unat (d_tick t) mod 4 < 4\<close> by linarith+
    then show ?thesis using assms by (simp add: valid_clock_def DBTIME_SYSCLOCK_def valid_db_def)
  qed
  have tt: "uint (d_tick t) = 4 * int (unat (d_tick t) div 4) + int (unat (d_tick t) mod 4)"
  proof -
    have "int (unat (d_tick t)) = int (4 * (unat (d_tick t) div 4) + unat (d_tick t) mod 4)" by (simp only: mult_div_mod_eq)
    then show ?thesis by (simp only: uint_nat [of "d_tick t"] of_nat_add of_nat_mult of_nat_numeral)
  qed
  show "clock_secs (DBTIME_SYSCLOCK t clk) = db_secs t"
  proof -
    have f: "c_year (DBTIME_SYSCLOCK t clk) = d_year t" "c_month (DBTIME_SYSCLOCK t clk) = d_month t"
      "c_day (DBTIME_SYSCLOCK t clk) = d_day t" "uint (c_second (DBTIME_SYSCLOCK t clk)) = 0"
      "c_hour (DBTIME_SYSCLOCK t clk) = drop_bit 2 (d_tick t)"
      "c_minute (DBTIME_SYSCLOCK t clk) = (d_tick t AND 0x03) * 15"
      by (simp_all add: DBTIME_SYSCLOCK_def)
    show ?thesis
      unfolding clock_secs_def clock_days_def db_secs_def db_days_def f hh mm tt by (simp add: algebra_simps)
  qed
qed

lemma clock_secs_bounds:
  assumes "valid_clock c" "c_year c \<le> 67"
  shows "0 \<le> clock_secs c" "clock_secs c \<le> 2147483647"
proof -
  have y: "0 \<le> uint (c_year c)" "uint (c_year c) \<le> 67" using assms(2) by (simp_all add: word_le_def)
  have "year_days (c_year c) \<le> 366" by (simp add: year_days_def)
  moreover have "0 \<le> year_start (c_year c)" "year_start (c_year c) \<le> 365 * 67 + 17"
  proof -
    have "0 \<le> (uint (c_year c) + 3) div 4" "(uint (c_year c) + 3) div 4 \<le> 70 div 4"
      using y by (intro div_int_pos_iff [THEN iffD2] zdiv_mono1, simp_all)+
    then show "0 \<le> year_start (c_year c)" "year_start (c_year c) \<le> 365 * 67 + 17"
      using y unfolding year_start_def by simp_all
  qed
  ultimately have d: "0 \<le> clock_days c" "clock_days c \<le> 24838"
    using clock_days_bounds [OF assms(1)] by linarith+
  have t: "uint (c_hour c) \<le> 23" "uint (c_minute c) \<le> 59" "uint (c_second c) \<le> 59"
    using assms(1) by (auto simp: valid_clock_def word_less_def)
  show "0 \<le> clock_secs c" using d unfolding clock_secs_def by simp
  show "clock_secs c \<le> 2147483647" using d t unfolding clock_secs_def by (simp add: algebra_simps)
qed

lemma SysClockToUTime_id:
  "valid_clock c \<Longrightarrow> c_year c \<le> 67 \<Longrightarrow> SysClockToUTime c = clock_secs c"
  by (simp add: SysClockToUTime_eq int_ok_def clock_secs_bounds)
     (meson clock_secs_bounds(1) int_ok_def order_trans s32_id clock_secs_bounds(2) neg_numeral_le_zero)

lemma length_clock_tuple [simp]: "length (clock_tuple c) = 6"
  by (simp add: clock_tuple_def)

lemma clock_eqI:
  assumes "valid_clock c" "valid_clock c'" "clock_secs c = clock_secs c'" "c_week c = c_week c'"
  shows "c = c'"
proof -
  have "clock_tuple c = clock_tuple c'"
    using lex_total [of "clock_tuple c" "clock_tuple c'"] clock_secs_mono [of c c'] clock_secs_mono [of c' c] assms
    by (auto simp: clock_tuple_def)
  then show ?thesis using assms(4) by (simp add: clock_tuple_def word_uint_eq_iff)
qed

lemma clock_fields_eq:
  assumes "valid_clock c" "valid_clock c'" "clock_secs c = clock_secs c'"
  shows "clock_tuple c = clock_tuple c'"
  using lex_total [of "clock_tuple c" "clock_tuple c'"] clock_secs_mono [of c c'] clock_secs_mono [of c' c] assms
  by auto

lemma month_next_secs:
  assumes v: "valid_clock c" and d: "uint (c_day c) \<le> 28" and y: "c_year c < 255"
  shows "valid_clock (month_next c) \<and>
    clock_secs (month_next c) = clock_secs c + month_max (c_year c) (c_month c) * 86400"
proof -
  have m: "0 < c_month c" "c_month c \<le> 12" using v by (simp_all add: valid_clock_def)
  have d28: "uint (c_day c) \<le> month_max y m" for y m using d month_max_ge28(1) [of y m] by (rule order_trans)
  note n = days_of_next [OF m, of "c_year c"]
  show ?thesis
  proof (cases "c_month c = 12")
    case True
    have "days_of z 1 = 0" for z by (simp add: days_of_def DaysBeforeMonth_def)
    then show ?thesis
      using True v n d28 year_start_next [OF y]
      by (simp add: month_next_def valid_clock_def clock_secs_def clock_days_def)
  next
    case False
    then have "c_month c < 12" using m by (simp add: order.strict_iff_order)
    then show ?thesis using False v n d28
      by (simp add: month_next_def valid_clock_def clock_secs_def clock_days_def)
  qed
qed

lemma example_clock_secs:
  "clock_secs (example_clock h mi s) = 549590400 + uint h * 3600 + uint mi * 60 + uint s"
  by (simp add: clock_secs_def clock_days_def year_start_def days_of_def example_clock_def DaysBeforeMonth_def)

lemma example_clock_utime:
  "h < 24 \<Longrightarrow> mi < 60 \<Longrightarrow> s < 60 \<Longrightarrow>
   SysClockToUTime (example_clock h mi s) = 549590400 + uint h * 3600 + uint mi * 60 + uint s"
  by (subst SysClockToUTime_id) (simp_all add: valid_clock_def month_max_def example_clock_def
      flip: example_clock_secs [unfolded example_clock_def])

subsection \<open>Properties\<close>

text \<open>Every non-negative \<open>utime_t\<close> is turned into a valid date, with the right day of the week, that converts back
  to the same number of seconds.\<close>

theorem UTimeToSysClock_roundtrip:
  assumes "0 \<le> t" "t \<le> 2147483647"
  shows "valid_clock (UTimeToSysClock t) \<and> SysClockToUTime (UTimeToSysClock t) = t \<and>
    uint (c_week (UTimeToSysClock t)) = (t div 86400 + 6) mod 7"
  using UTimeToSysClock_correct [OF assms] assms by (simp add: SysClockToUTime_eq int_ok_def)

theorem UTimeToSysClock_roundtrip_witness:
  "valid_clock (UTimeToSysClock 549590400) \<and> SysClockToUTime (UTimeToSysClock 549590400) = 549590400 \<and>
   uint (c_week (UTimeToSysClock 549590400)) = 4"
  using UTimeToSysClock_roundtrip [of 549590400] by simp

text \<open>C19: On valid dates up to 2067 the sign of \<open>SysClockDifference\<close> is the chronological order of the dates, and a date whose
  day of the week is right is recovered from its seconds.\<close>

theorem SysClock_order:
  assumes "valid_clock c" "valid_clock c'" "c_year c \<le> 67" "c_year c' \<le> 67"
  shows "(SysClockDifference c c' < 0 \<longleftrightarrow> lex_less (clock_tuple c) (clock_tuple c')) \<and>
    (uint (c_week c) = (SysClockToUTime c div 86400 + 6) mod 7 \<longrightarrow> UTimeToSysClock (SysClockToUTime c) = c)"
proof
  note b = clock_secs_bounds [OF assms(1,3)] clock_secs_bounds [OF assms(2,4)]
  have "SysClockDifference c c' = clock_secs c - clock_secs c'"
    using assms b by (simp add: SysClockDifference_def SysClockToUTime_id int_ok_def)
  then have d: "SysClockDifference c c' < 0 \<longleftrightarrow> clock_secs c < clock_secs c'" by simp
  show "SysClockDifference c c' < 0 \<longleftrightarrow> lex_less (clock_tuple c) (clock_tuple c')"
  proof
    assume "SysClockDifference c c' < 0"
    then have lt: "clock_secs c < clock_secs c'" using d by simp
    then have "clock_tuple c \<noteq> clock_tuple c'"
      by (auto simp: clock_tuple_def word_uint_eq_iff [symmetric] clock_secs_def clock_days_def)
    moreover have "\<not> lex_less (clock_tuple c') (clock_tuple c)"
      using clock_secs_mono [OF assms(2,1)] lt by auto
    ultimately show "lex_less (clock_tuple c) (clock_tuple c')"
      using lex_total [of "clock_tuple c" "clock_tuple c'"] by auto
  qed (use d clock_secs_mono [OF assms(1,2)] in simp)
  note u = UTimeToSysClock_correct [OF b(1,2)]
  show "uint (c_week c) = (SysClockToUTime c div 86400 + 6) mod 7 \<longrightarrow> UTimeToSysClock (SysClockToUTime c) = c"
    using clock_eqI [OF u(1) assms(1) u(2)] u(3) assms by (simp add: SysClockToUTime_id word_uint_eq_iff)
qed

theorem SysClock_order_witness:
  "SysClockDifference (example_clock 9 59 59) (example_clock 10 0 0) < 0 \<and>
   UTimeToSysClock (SysClockToUTime (example_clock 9 59 59)) = example_clock 9 59 59"
proof -
  have v: "valid_clock (example_clock 9 59 59)" "valid_clock (example_clock 10 0 0)"
    by (simp_all add: valid_clock_def month_max_def example_clock_def)
  have y: "c_year (example_clock 9 59 59) \<le> 67" "c_year (example_clock 10 0 0) \<le> 67"
    by (simp_all add: example_clock_def)
  have "lex_less (clock_tuple (example_clock 9 59 59)) (clock_tuple (example_clock 10 0 0))"
    "uint (c_week (example_clock 9 59 59)) = (SysClockToUTime (example_clock 9 59 59) div 86400 + 6) mod 7"
    by (simp_all add: clock_tuple_def example_clock_utime) (simp_all add: example_clock_def)
  then show ?thesis using SysClock_order [OF v y] by blast
qed

text \<open>Adding one month to a time whose day exists in every month moves to the same day and time of the next
  month, across the end of a year too.\<close>

theorem UTimeAdd_month:
  assumes "0 \<le> t" "t + 31 * 86400 \<le> 2147483647" and d: "uint (c_day (UTimeToSysClock t)) \<le> 28"
  shows "clock_tuple (UTimeToSysClock (UTimeAdd t UTIMEDEV_MONTH 1)) = clock_tuple (month_next (UTimeToSysClock t))"
proof -
  define c where "c = UTimeToSysClock t"
  have t: "t \<le> 2147483647" using assms by simp
  have c: "valid_clock c" "clock_secs c = t" and y: "c_year c < 255"
    using UTimeToSysClock_correct [OF assms(1) t] by (simp_all add: c_def word_less_def)
  have mx: "0 \<le> month_max (c_year c) (c_month c)" "month_max (c_year c) (c_month c) \<le> 31"
    by (simp_all add: month_max_def)
  define t' where "t' = t + month_max (c_year c) (c_month c) * 86400"
  have t': "0 \<le> t'" "t' \<le> 2147483647" using mx assms by (simp_all add: t'_def)
  have "UTimeAdd t UTIMEDEV_MONTH 1 = t'"
    using mx t' assms by (simp add: UTimeAdd_def Let_def c_def [symmetric] t'_def int_ok_def UTIMEDEV_MONTH_def numeral_eq_Suc)
  moreover have "clock_secs (month_next c) = t'" "valid_clock (month_next c)"
    using month_next_secs [OF c(1) _ y] d c(2) by (simp_all add: t'_def c_def)
  ultimately show ?thesis
    using clock_fields_eq [OF UTimeToSysClock_correct(1) [OF t'], of "month_next c"] UTimeToSysClock_correct(2) [OF t']
    unfolding c_def [symmetric] by simp
qed

theorem UTimeAdd_month_witness:
  "clock_tuple (UTimeToSysClock (UTimeAdd 0 UTIMEDEV_MONTH 1)) = clock_tuple (month_next (UTimeToSysClock 0))"
proof (rule UTimeAdd_month)
  have "clock_secs (UTimeToSysClock 0) = 0" by (rule UTimeToSysClock_correct) simp_all
  show "uint (c_day (UTimeToSysClock 0)) \<le> 28"
    by (simp add: UTimeToSysClock_def UTimeToSysClock_years.simps UTimeToSysClock_months.simps month_max_def)
qed simp_all

text \<open>The reader of the cached clock takes a stable clock as it is, but its double read does not exclude a writer
  between its two stores: at the change of the hour it can return a time that is 3599 seconds ahead.\<close>

theorem SysClockReadCurrent_torn:
  "SysClockReadCurrent [c, c, c, c] = Some c \<and>
   (let old = example_clock 9 59 59; new = example_clock 10 0 0; torn = half_written old new
    in SysClockReadCurrent [torn, torn, torn, torn] = Some torn \<and>
       SysClockDifference new old = 1 \<and> SysClockDifference torn new = 3599)"
proof -
  have "half_written (example_clock 9 59 59) (example_clock 10 0 0) = example_clock 10 59 59"
    by (simp add: half_written_def example_clock_def)
  then show ?thesis by (simp add: SysClockDifference_def example_clock_utime s32_small)
qed

text \<open>On valid database times the next day exists, is valid, is one day later and is undone by going back one day; one
  tick more is 900 seconds more on the clock.\<close>

theorem DbTimeAddOneDay_inverse:
  assumes "valid_db t" "d_year t < 255"
  shows "(\<exists>t'. DbTimeAddOneDay t = Some t' \<and> valid_db t' \<and> DbTimeSubOneDay t' = Some t \<and> db_days t' = db_days t + 1) \<and>
    (\<exists>t'. DbTimeAddOneTick t = Some t' \<and> valid_db t' \<and>
       clock_secs (DBTIME_SYSCLOCK t' clk) = clock_secs (DBTIME_SYSCLOCK t clk) + 900)"
proof
  show "\<exists>t'. DbTimeAddOneDay t = Some t' \<and> valid_db t' \<and> DbTimeSubOneDay t' = Some t \<and> db_days t' = db_days t + 1"
    using DbTimeAddOneDay_correct [OF assms] by blast
  show "\<exists>t'. DbTimeAddOneTick t = Some t' \<and> valid_db t' \<and>
       clock_secs (DBTIME_SYSCLOCK t' clk) = clock_secs (DBTIME_SYSCLOCK t clk) + 900"
  proof (cases "d_tick t = 95")
    case True
    let ?t = "t\<lparr>d_tick := 0\<rparr>"
    have "valid_db ?t" "d_year ?t < 255" using assms by (simp_all add: valid_db_def)
    then obtain t' where t': "DbTimeAddOneDay ?t = Some t'" "valid_db t'" "db_days t' = db_days ?t + 1" "d_tick t' = 0"
      using DbTimeAddOneDay_correct [of ?t] by auto
    then have "db_secs t' = db_secs t + 900" using True by (simp add: db_secs_def db_days_def)
    then show ?thesis using True t' DBTIME_SYSCLOCK_secs assms by (auto simp: DbTimeAddOneTick_def)
  next
    case False
    have "uint (d_tick t) \<le> 95" "uint (d_tick t) \<noteq> 95"
      using assms False by (auto simp: valid_db_def word_le_def word_uint_eq_iff)
    then have lt: "uint (d_tick t) < 95" by simp
    then have u: "uint (d_tick t + 1) = uint (d_tick t) + 1" by (simp add: uint_plus_if')
    let ?t = "t\<lparr>d_tick := d_tick t + 1\<rparr>"
    have le: "d_tick t + 1 \<le> 95" using lt u by (simp add: word_le_def)
    then have "valid_db ?t" using assms by (simp add: valid_db_def)
    moreover have "db_secs ?t = db_secs t + 900" using u by (simp add: db_secs_def db_days_def)
    ultimately show ?thesis using le DBTIME_SYSCLOCK_secs assms by (auto simp: DbTimeAddOneTick_def Let_def not_less)
  qed
qed

theorem DbTimeAddOneDay_inverse_witness:
  "\<exists>t'. DbTimeAddOneDay \<lparr>d_tick = 95, d_day = 29, d_month = 2, d_year = 16\<rparr> = Some t' \<and>
     DbTimeSubOneDay t' = Some \<lparr>d_tick = 95, d_day = 29, d_month = 2, d_year = 16\<rparr>"
  using DbTimeAddOneDay_inverse [of "\<lparr>d_tick = 95, d_day = 29, d_month = 2, d_year = 16\<rparr>"]
  by (auto simp: valid_db_def month_max_def)

end
