(* ===== verification/Timer.thy ===== *)
theory Timer
  imports Clock
begin

text \<open>
  The timers of \<open>sys/syscall/timer.c\<close>: cyclic timers (\<open>CTimer\<close>, counted in seconds) and clock
  timers (\<open>RTimer\<close>, at calendar times), each a static buffer of 63 entries threaded by a
  circular doubly linked list, and the task that runs them. The fields \<open>next\<close> and \<open>prev\<close> of
  all entries are two functions on links (\<open>Head\<close> is the list head, \<open>Node i\<close> the entry \<open>i\<close>);
  the other fields are records. A callback is called through its address with its argument;
  what it returns is the argument \<open>run\<close> of the definitions, and the calls are logged. A
  callback cannot change the lists while they are walked, because the list's mutex is held.
  The locale \<open>list_walk\<close> is the interface between a list and the body of a walk over it.
\<close>

subsection \<open>Linked lists\<close>

datatype link = Head | Node nat

record dlist =
  nxt :: "link \<Rightarrow> link"
  prv :: "link \<Rightarrow> link"

definition dl_init :: "dlist \<Rightarrow> dlist" where
  "dl_init d = d\<lparr>nxt := (nxt d)(Head := Head), prv := (prv d)(Head := Head)\<rparr>"

text \<open>The four assignments that append an entry, and the two that unlink one, in their order.\<close>

definition dl_append :: "nat \<Rightarrow> dlist \<Rightarrow> dlist" where
  "dl_append i d =
     (let d = d\<lparr>nxt := (nxt d)(Node i := Head)\<rparr>;
          d = d\<lparr>prv := (prv d)(Node i := prv d Head)\<rparr>;
          d = d\<lparr>nxt := (nxt d)(prv d Head := Node i)\<rparr>
      in d\<lparr>prv := (prv d)(Head := Node i)\<rparr>)"

definition dl_unlink :: "nat \<Rightarrow> dlist \<Rightarrow> dlist" where
  "dl_unlink i d =
     (let d = d\<lparr>nxt := (nxt d)(prv d (Node i) := nxt d (Node i))\<rparr>
      in d\<lparr>prv := (prv d)(nxt d (Node i) := prv d (Node i))\<rparr>)"

text \<open>A walk saves the next link before it runs the body, so that the body may unlink the
  entry. The fuel bounds the number of entries visited; a body whose own loop does not end
  gives \<open>None\<close>.\<close>

fun walk :: "nat \<Rightarrow> ('s \<Rightarrow> dlist) \<Rightarrow> (nat \<Rightarrow> 's \<Rightarrow> 's option) \<Rightarrow> link \<Rightarrow> 's \<Rightarrow> 's option" where
  "walk n links body Head st = Some st"
| "walk 0 links body (Node i) st = None"
| "walk (Suc n) links body (Node i) st =
     (let p1 = nxt (links st) (Node i) in
      case body i st of None \<Rightarrow> None | Some st' \<Rightarrow> walk n links body p1 st')"

subsection \<open>Cyclic timers\<close>

definition MAX_CTIMER :: nat where "MAX_CTIMER = 63"

definition MAX_RTIMER :: nat where "MAX_RTIMER = 63"

definition TMAN_EMPTY :: u8 where "TMAN_EMPTY = 0"

definition TMAN_VALID :: u8 where "TMAN_VALID = 1"

record ctman_t =
  ct_id :: int
  ct_proc :: u32
  ct_arg :: u32
  ct_dev :: u32
  ct_cnt :: u32
  ct_flag :: u8

record ctimers =
  CTimerBuffer :: "ctman_t list"
  CTimerLinks :: dlist
  CTimerIdAddup :: int
  CTimerCalls :: "(u32 \<times> u32) list"

text \<open>The first free entry, as the loops over the buffers find it.\<close>

fun find_empty :: "('a \<Rightarrow> u8) \<Rightarrow> 'a list \<Rightarrow> nat \<Rightarrow> nat option" where
  "find_empty flag [] i = None"
| "find_empty flag (e # es) i = (if flag e = TMAN_EMPTY then Some i else find_empty flag es (Suc i))"

definition SysAddCTimer :: "int \<Rightarrow> u32 \<Rightarrow> u32 \<Rightarrow> ctimers \<Rightarrow> int \<times> ctimers" where
  "SysAddCTimer dev proc arg st =
     (if dev \<le> 0 then (- 1, st)
      else case find_empty ct_flag (CTimerBuffer st) 0 of
        None \<Rightarrow> (- 1, st)
      | Some i \<Rightarrow>
          let cid = (CTimerIdAddup st AND 0xffff) OR push_bit 16 (int i);
              p = (CTimerBuffer st ! i)\<lparr>ct_flag := TMAN_VALID, ct_proc := proc, ct_arg := arg, ct_cnt := 0,
                    ct_dev := word_of_int dev, ct_id := cid\<rparr>
          in (cid, st\<lparr>CTimerBuffer := (CTimerBuffer st)[i := p],
                CTimerIdAddup := s32 (CTimerIdAddup st + 1),
                CTimerLinks := dl_append i (CTimerLinks st)\<rparr>))"

definition StopCTimerP :: "nat \<Rightarrow> ctimers \<Rightarrow> ctimers" where
  "StopCTimerP i st =
     (let p = CTimerBuffer st ! i in
      if ct_flag p \<noteq> TMAN_EMPTY then
        st\<lparr>CTimerBuffer := (CTimerBuffer st)[i := p\<lparr>ct_flag := TMAN_EMPTY\<rparr>],
           CTimerLinks := dl_unlink i (CTimerLinks st)\<rparr>
      else st)"

definition SysStopCTimer :: "int \<Rightarrow> ctimers \<Rightarrow> ctimers" where
  "SysStopCTimer cid st =
     (let offset = drop_bit 16 cid in
      if offset < 0 \<or> int MAX_CTIMER \<le> offset then st
      else
        let i = nat offset; p = CTimerBuffer st ! i in
        if ct_id p = cid \<and> ct_flag p \<noteq> TMAN_EMPTY then
          st\<lparr>CTimerBuffer := (CTimerBuffer st)[i := p\<lparr>ct_flag := TMAN_EMPTY\<rparr>],
             CTimerLinks := dl_unlink i (CTimerLinks st)\<rparr>
        else st)"

definition SysClearCTimer :: "int \<Rightarrow> ctimers \<Rightarrow> ctimers" where
  "SysClearCTimer cid st =
     (let offset = drop_bit 16 cid in
      if offset < 0 \<or> int MAX_CTIMER \<le> offset then st
      else
        let i = nat offset; p = CTimerBuffer st ! i in
        if ct_id p = cid \<and> ct_flag p \<noteq> TMAN_EMPTY
        then st\<lparr>CTimerBuffer := (CTimerBuffer st)[i := p\<lparr>ct_cnt := 0\<rparr>]\<rparr> else st)"

definition CTimerProc_body :: "(u32 \<Rightarrow> u32 \<Rightarrow> int) \<Rightarrow> nat \<Rightarrow> ctimers \<Rightarrow> ctimers" where
  "CTimerProc_body run i st =
     (let p = CTimerBuffer st ! i; p = p\<lparr>ct_cnt := ct_cnt p + 1\<rparr> in
      if ct_cnt p \<ge> ct_dev p then
        let p = p\<lparr>ct_cnt := 0\<rparr>;
            rc = run (ct_proc p) (ct_arg p);
            st = st\<lparr>CTimerBuffer := (CTimerBuffer st)[i := p],
                    CTimerCalls := CTimerCalls st @ [(ct_proc p, ct_arg p)]\<rparr>
        in if rc \<noteq> 0 then StopCTimerP i st else st
      else st\<lparr>CTimerBuffer := (CTimerBuffer st)[i := p]\<rparr>)"

definition CTimerProc :: "(u32 \<Rightarrow> u32 \<Rightarrow> int) \<Rightarrow> ctimers \<Rightarrow> ctimers option" where
  "CTimerProc run st = walk MAX_CTIMER CTimerLinks (\<lambda>i st. Some (CTimerProc_body run i st)) (nxt (CTimerLinks st) Head) st"


subsection \<open>Clock timers\<close>

record rtman_t =
  rt_id :: int
  rt_proc :: u32
  rt_arg :: u32
  rt_tstart :: int
  rt_tbase :: int
  rt_dev :: u8
  rt_mod :: u8
  rt_bonce :: u8
  rt_flag :: u8
  rt_basetime :: int

record rtimer_conf_t =
  rc_curtime :: int
  rc_bonce :: u8
  rc_tdev :: u8
  rc_tmod :: u8
  rc_basetime :: sysclock_t

record rtimers =
  RTimerBuffer :: "rtman_t list"
  RTimerLinks :: dlist
  RTimerIdAddup :: int
  RTimerCalls :: "(u32 \<times> u32 \<times> int) list"

text \<open>The offset of a timer in its period. The cases of the switch fall through, so that the
  hour and the day are cleared for minutes, and the day for hours and days.\<close>

definition RTimerGetBase :: "u8 \<Rightarrow> sysclock_t \<Rightarrow> int" where
  "RTimerGetBase m baseclock =
     (let hour = (if uint m = UTIMEDEV_MINUTE \<or> uint m = UTIMEDEV_HOUR then 0 else c_hour baseclock);
          day = (if uint m = UTIMEDEV_MINUTE \<or> uint m = UTIMEDEV_HOUR \<or> uint m = UTIMEDEV_DAY then 0
                 else if c_day baseclock \<noteq> 0 then c_day baseclock - 1 else c_day baseclock);
          minute = c_minute baseclock;
          rtn = 0;
          rtn = (if day \<noteq> 0 then rtn + uint day * 1440 * 60 else rtn);
          rtn = (if hour \<noteq> 0 then rtn + uint hour * 60 * 60 else rtn)
      in if minute \<noteq> 0 then rtn + uint minute * 60 else rtn)"

text \<open>The loops that move a timer past the current time; the fuel bounds their rounds.\<close>

fun next_start_loop :: "nat \<Rightarrow> int \<Rightarrow> rtman_t \<Rightarrow> rtman_t option" where
  "next_start_loop n curtime p =
     (if rt_tstart p \<le> curtime then
        (case n of 0 \<Rightarrow> None
         | Suc m \<Rightarrow>
            let base = UTimeAdd (rt_tbase p) (uint (rt_mod p)) (uint (rt_dev p))
            in next_start_loop m curtime (p\<lparr>rt_tbase := base, rt_tstart := s32 (base + rt_basetime p)\<rparr>))
      else Some p)"

declare next_start_loop.simps [simp del]

definition loop_fuel :: nat where "loop_fuel = 64"

text \<open>The start of the period the current time is in: the fields below the unit of the timer
  are cleared, from the largest one down.\<close>

definition period_start :: "u8 \<Rightarrow> sysclock_t \<Rightarrow> sysclock_t" where
  "period_start m clk =
     (let clk = (if uint m = UTIMEDEV_MONTH then clk\<lparr>c_month := 1\<rparr> else clk);
          clk = (if uint m = UTIMEDEV_MONTH \<or> uint m = UTIMEDEV_DAY then clk\<lparr>c_day := 1\<rparr> else clk);
          clk = (if uint m = UTIMEDEV_MONTH \<or> uint m = UTIMEDEV_DAY \<or> uint m = UTIMEDEV_HOUR
                 then clk\<lparr>c_hour := 0\<rparr> else clk)
      in clk\<lparr>c_minute := 0, c_second := 0\<rparr>)"

definition RecalRTimerP :: "rtman_t \<Rightarrow> int \<Rightarrow> rtman_t option" where
  "RecalRTimerP p curtime =
     (let p = (if uint (rt_dev p) = UTIMEDEV_MINUTE
               then (if rt_mod p = 0 then p\<lparr>rt_dev := 15\<rparr> else p\<lparr>rt_dev := 1\<rparr>) else p);
          p = (if uint (rt_mod p) > UTIMEDEV_MONTH then p\<lparr>rt_mod := word_of_int UTIMEDEV_HOUR\<rparr> else p)
      in if rt_bonce p \<noteq> 0 then Some p
         else
           let base = SysClockToUTime (period_start (rt_mod p) (UTimeToSysClock curtime))
           in next_start_loop loop_fuel curtime
                (p\<lparr>rt_tbase := base, rt_tstart := s32 (base + rt_basetime p)\<rparr>))"

definition put_rtimer :: "nat \<Rightarrow> rtman_t \<Rightarrow> rtimers \<Rightarrow> rtimers" where
  "put_rtimer i p st = st\<lparr>RTimerBuffer := (RTimerBuffer st)[i := p]\<rparr>"

definition SysRecalRTimer :: "int \<Rightarrow> int \<Rightarrow> rtimers \<Rightarrow> rtimers option" where
  "SysRecalRTimer tid utime st =
     (let offset = drop_bit 16 tid in
      if offset < 0 \<or> int MAX_RTIMER \<le> offset then Some st
      else
        let i = nat offset; p = RTimerBuffer st ! i in
        if rt_id p = tid \<and> rt_flag p \<noteq> TMAN_EMPTY
        then map_option (\<lambda>p. put_rtimer i p st) (RecalRTimerP p utime) else Some st)"

definition RecalAll_body :: "int \<Rightarrow> nat \<Rightarrow> rtimers \<Rightarrow> rtimers option" where
  "RecalAll_body utime i st =
     (let p = RTimerBuffer st ! i in
      if rt_flag p \<noteq> TMAN_EMPTY then map_option (\<lambda>p. put_rtimer i p st) (RecalRTimerP p utime) else Some st)"

definition SysRecalAllRTimer :: "int \<Rightarrow> rtimers \<Rightarrow> rtimers option" where
  "SysRecalAllRTimer utime st =
     walk MAX_RTIMER RTimerLinks (RecalAll_body utime) (nxt (RTimerLinks st) Head) st"

definition SysAddRTimer :: "rtimer_conf_t \<Rightarrow> u32 \<Rightarrow> u32 \<Rightarrow> rtimers \<Rightarrow> (int \<times> rtimers) option" where
  "SysAddRTimer pconf proc arg st =
     (if rc_tdev pconf = 0 \<or> uint (rc_tmod pconf) > UTIMEDEV_MONTH then Some (- 1, st)
      else case find_empty rt_flag (RTimerBuffer st) 0 of
        None \<Rightarrow> Some (- 1, st)
      | Some i \<Rightarrow>
          let p = (RTimerBuffer st ! i)\<lparr>rt_flag := TMAN_VALID, rt_proc := proc, rt_arg := arg,
                    rt_bonce := rc_bonce pconf\<rparr>;
              r = (if rc_bonce pconf \<noteq> 0
                   then Some (p\<lparr>rt_dev := 1, rt_mod := 1, rt_tstart := rc_curtime pconf\<rparr>)
                   else RecalRTimerP (p\<lparr>rt_dev := rc_tdev pconf, rt_mod := rc_tmod pconf,
                          rt_basetime := RTimerGetBase (rc_tmod pconf) (rc_basetime pconf)\<rparr>) (rc_curtime pconf))
          in case r of
               None \<Rightarrow> None
             | Some p \<Rightarrow>
                 let tid = (RTimerIdAddup st AND 0xffff) OR push_bit 16 (int i)
                 in Some (tid, st\<lparr>RTimerBuffer := (RTimerBuffer st)[i := p\<lparr>rt_id := tid\<rparr>],
                       RTimerIdAddup := s32 (RTimerIdAddup st + 1),
                       RTimerLinks := dl_append i (RTimerLinks st)\<rparr>))"

definition SysStopRTimer :: "int \<Rightarrow> rtimers \<Rightarrow> rtimers" where
  "SysStopRTimer tid st =
     (let offset = drop_bit 16 tid in
      if offset < 0 \<or> int MAX_RTIMER \<le> offset then st
      else
        let i = nat offset; p = RTimerBuffer st ! i in
        if rt_id p = tid \<and> rt_flag p \<noteq> TMAN_EMPTY then
          st\<lparr>RTimerBuffer := (RTimerBuffer st)[i := p\<lparr>rt_flag := TMAN_EMPTY\<rparr>],
             RTimerLinks := dl_unlink i (RTimerLinks st)\<rparr>
        else st)"

definition StopRTimerP :: "nat \<Rightarrow> rtimers \<Rightarrow> rtimers" where
  "StopRTimerP i st =
     (let p = RTimerBuffer st ! i in
      if rt_flag p = TMAN_EMPTY then st
      else st\<lparr>RTimerBuffer := (RTimerBuffer st)[i := p\<lparr>rt_flag := TMAN_EMPTY\<rparr>],
              RTimerLinks := dl_unlink i (RTimerLinks st)\<rparr>)"

text \<open>A due timer is moved to its next start: recalculated from the calendar when it is more than
  an hour late, stepped by its period otherwise (the do-while loop makes at least one step).\<close>

definition rtimer_advance :: "rtman_t \<Rightarrow> int \<Rightarrow> rtman_t option" where
  "rtimer_advance p timec =
     (if rt_bonce p \<noteq> 0 then Some p
      else if 3600 < s32 (timec - rt_tstart p) then RecalRTimerP p timec
      else
        let base = UTimeAdd (rt_tbase p) (uint (rt_mod p)) (uint (rt_dev p))
        in next_start_loop loop_fuel timec (p\<lparr>rt_tbase := base, rt_tstart := s32 (base + rt_basetime p)\<rparr>))"

definition RTimerProc_body :: "int \<Rightarrow> nat \<Rightarrow> rtimers \<Rightarrow> rtimers option" where
  "RTimerProc_body timec i st =
     (let p = RTimerBuffer st ! i in
      if rt_tstart p \<le> timec then
        (case rtimer_advance p timec of
           None \<Rightarrow> None
         | Some p \<Rightarrow>
             let st = put_rtimer i p st;
                 st = st\<lparr>RTimerCalls := RTimerCalls st @ [(rt_proc p, rt_arg p, timec)]\<rparr>
             in Some (if rt_bonce p \<noteq> 0 then StopRTimerP i st else st))
      else Some st)"

definition RTimerProc :: "int \<Rightarrow> rtimers \<Rightarrow> rtimers option" where
  "RTimerProc timec st =
     walk MAX_RTIMER RTimerLinks (RTimerProc_body timec) (nxt (RTimerLinks st) Head) st"

subsection \<open>The timer task\<close>

record timer_task =
  FeedWatchdog :: int
  SysJiffies :: int
  bakJiffies :: int
  countRtimer :: int
  task_clock :: clock_state
  ctimers :: ctimers
  rtimers :: rtimers
  watchdog_fed :: nat

definition EnableFeedWatchdog :: "int \<Rightarrow> timer_task \<Rightarrow> timer_task" where
  "EnableFeedWatchdog flag t = t\<lparr>FeedWatchdog := flag\<rparr>"

definition SysReadJiffies :: "timer_task \<Rightarrow> int" where
  "SysReadJiffies t = SysJiffies t"

text \<open>One round of the task's loop, with the answers of \<open>localtime\<close>. The read of \<open>SysJiffies\<close>
  from the driver is commented out in the source, so nothing writes it.\<close>

definition SysTimerTask_round :: "(u32 \<Rightarrow> u32 \<Rightarrow> int) \<Rightarrow> tm \<Rightarrow> tm \<Rightarrow> timer_task \<Rightarrow> timer_task option" where
  "SysTimerTask_round run tm1 tm2 t =
     (let r1 = (if SysJiffies t \<noteq> bakJiffies t then
                  map_option (\<lambda>c. t\<lparr>watchdog_fed := (if FeedWatchdog t \<noteq> 0 then Suc (watchdog_fed t) else watchdog_fed t),
                                    ctimers := c, bakJiffies := SysJiffies t\<rparr>)
                    (CTimerProc run (ctimers t))
                else Some t)
      in case r1 of
           None \<Rightarrow> None
         | Some t \<Rightarrow>
             let t = t\<lparr>countRtimer := countRtimer t + 1\<rparr> in
             if 4 \<le> countRtimer t then
               let (clk, cs) = SysClockRead tm1 tm2 (task_clock t)
               in map_option (\<lambda>r. t\<lparr>countRtimer := 0, task_clock := cs, rtimers := r\<rparr>)
                    (RTimerProc (UTimeReadCurrent cs) (rtimers t))
             else Some t)"

fun SysTimerTask_loop :: "(u32 \<Rightarrow> u32 \<Rightarrow> int) \<Rightarrow> (tm \<times> tm) list \<Rightarrow> timer_task \<Rightarrow> timer_task option" where
  "SysTimerTask_loop run [] t = Some t"
| "SysTimerTask_loop run ((tm1, tm2) # ts) t =
     (case SysTimerTask_round run tm1 tm2 t of None \<Rightarrow> None | Some t' \<Rightarrow> SysTimerTask_loop run ts t')"

text \<open>The initialisation: all entries free, both lists empty, then the clock is set from the
  external one (\<open>None\<close>: its read failed, and the function returns 1).\<close>

definition SysTimerInit_lists :: "ctimers \<Rightarrow> rtimers \<Rightarrow> ctimers \<times> rtimers" where
  "SysTimerInit_lists ct rt =
     (ct\<lparr>CTimerBuffer := map (\<lambda>p. p\<lparr>ct_flag := TMAN_EMPTY\<rparr>) (CTimerBuffer ct),
         CTimerLinks := dl_init (CTimerLinks ct)\<rparr>,
      rt\<lparr>RTimerBuffer := map (\<lambda>p. p\<lparr>rt_flag := TMAN_EMPTY\<rparr>) (RTimerBuffer rt),
         RTimerLinks := dl_init (RTimerLinks rt)\<rparr>)"

definition SysTimerInit :: "sysclock_t option \<Rightarrow> timer_task \<Rightarrow> int \<times> timer_task" where
  "SysTimerInit ext t =
     (let (ct, rt) = SysTimerInit_lists (ctimers t) (rtimers t);
          t = t\<lparr>ctimers := ct, rtimers := rt\<rparr>
      in case ext of
           None \<Rightarrow> (1, t)
         | Some clk \<Rightarrow> (0, t\<lparr>task_clock := snd (SysClockSet clk (task_clock t))\<rparr>))"

subsection \<open>Specification\<close>

subsection \<open>Lists\<close>

fun path :: "dlist \<Rightarrow> link \<Rightarrow> nat list \<Rightarrow> link \<Rightarrow> bool" where
  "path d a [] b \<longleftrightarrow> nxt d a = b \<and> prv d b = a"
| "path d a (x # xs) b \<longleftrightarrow> nxt d a = Node x \<and> prv d (Node x) = a \<and> path d (Node x) xs b"

definition is_dlist :: "dlist \<Rightarrow> nat list \<Rightarrow> bool" where
  "is_dlist d xs \<longleftrightarrow> path d Head xs Head \<and> distinct xs"

fun first_link :: "nat list \<Rightarrow> link" where
  "first_link [] = Head"
| "first_link (x # xs) = Node x"

text \<open>The interface between a list and the body of a walk: a body may unlink the entry it is
  given and leaves the rest of the list alone. A walk over such a body visits the entries the
  list had when it began, each once and in their order.\<close>

fun run_body :: "(nat \<Rightarrow> 's \<Rightarrow> 's option) \<Rightarrow> nat list \<Rightarrow> 's \<Rightarrow> 's option" where
  "run_body body [] st = Some st"
| "run_body body (x # xs) st = (case body x st of None \<Rightarrow> None | Some st' \<Rightarrow> run_body body xs st')"

definition slots :: "('a \<Rightarrow> u8) \<Rightarrow> 'a list \<Rightarrow> nat set" where
  "slots flag es = {i. i < length es \<and> flag (es ! i) \<noteq> TMAN_EMPTY}"

text \<open>The invariant of the cyclic timers: the list threads exactly the entries in use, whose ids
  name their entries, and every count is below its period.\<close>

definition ct_entry_ok :: "nat \<Rightarrow> ctman_t \<Rightarrow> bool" where
  "ct_entry_ok i p \<longleftrightarrow> drop_bit 16 (ct_id p) = int i \<and> ct_cnt p < ct_dev p"

definition ct_ok :: "ctimers \<Rightarrow> nat list \<Rightarrow> bool" where
  "ct_ok st xs \<longleftrightarrow> length (CTimerBuffer st) = MAX_CTIMER \<and> is_dlist (CTimerLinks st) xs \<and>
     set xs = slots ct_flag (CTimerBuffer st) \<and> (\<forall>i \<in> set xs. ct_entry_ok i (CTimerBuffer st ! i))"

definition ct_fires :: "ctman_t \<Rightarrow> bool" where
  "ct_fires p \<longleftrightarrow> ct_dev p \<le> ct_cnt p + 1"

definition ct_stops :: "(u32 \<Rightarrow> u32 \<Rightarrow> int) \<Rightarrow> ctman_t \<Rightarrow> bool" where
  "ct_stops run p \<longleftrightarrow> ct_fires p \<and> run (ct_proc p) (ct_arg p) \<noteq> 0"

definition ct_tick :: "(u32 \<Rightarrow> u32 \<Rightarrow> int) \<Rightarrow> ctman_t \<Rightarrow> ctman_t" where
  "ct_tick run p =
     (if ct_stops run p then p\<lparr>ct_cnt := 0, ct_flag := TMAN_EMPTY\<rparr>
      else if ct_fires p then p\<lparr>ct_cnt := 0\<rparr> else p\<lparr>ct_cnt := ct_cnt p + 1\<rparr>)"

inductive ct_reach :: "ctimers \<Rightarrow> bool" where
  ct_init: "length (CTimerBuffer ct) = MAX_CTIMER \<Longrightarrow> ct_reach (fst (SysTimerInit_lists ct rt))"
| ct_add: "ct_reach st \<Longrightarrow> dev \<le> 2147483647 \<Longrightarrow> ct_reach (snd (SysAddCTimer dev proc arg st))"
| ct_stop: "ct_reach st \<Longrightarrow> ct_reach (SysStopCTimer cid st)"
| ct_clear: "ct_reach st \<Longrightarrow> ct_reach (SysClearCTimer cid st)"
| ct_proc: "ct_reach st \<Longrightarrow> CTimerProc run st = Some st' \<Longrightarrow> ct_reach st'"

definition free_ctman :: ctman_t where
  "free_ctman = \<lparr>ct_id = 0, ct_proc = 0, ct_arg = 0, ct_dev = 0, ct_cnt = 0, ct_flag = 0\<rparr>"

definition empty_ctimers :: ctimers where
  "empty_ctimers = \<lparr>CTimerBuffer = replicate MAX_CTIMER free_ctman, CTimerLinks = dl_init \<lparr>nxt = \<lambda>_. Head, prv = \<lambda>_. Head\<rparr>,
     CTimerIdAddup = 0, CTimerCalls = []\<rparr>"

fun CTimer_rounds :: "(u32 \<Rightarrow> u32 \<Rightarrow> int) \<Rightarrow> nat \<Rightarrow> ctimers \<Rightarrow> ctimers option" where
  "CTimer_rounds run 0 st = Some st"
| "CTimer_rounds run (Suc n) st =
     (case CTimer_rounds run n st of None \<Rightarrow> None | Some st' \<Rightarrow> CTimerProc run st')"

subsection \<open>Clock timers\<close>

definition mod_unit :: "int \<Rightarrow> int" where
  "mod_unit m = (if m = 0 then 60 else if m = 1 then 3600 else if m = 2 then 86400 else 28 * 86400)"

text \<open>A periodic timer whose fields are in range and whose start is its base plus its offset.\<close>

definition rt_good :: "rtman_t \<Rightarrow> bool" where
  "rt_good p \<longleftrightarrow> 1 \<le> uint (rt_dev p) \<and> uint (rt_mod p) \<le> 3 \<and> 0 \<le> rt_basetime p \<and> rt_basetime p \<le> 23000000 \<and>
     0 \<le> rt_tbase p \<and> rt_tstart p = rt_tbase p + rt_basetime p"

definition period_len :: "int \<Rightarrow> int" where
  "period_len m = (if m = 0 then 3600 else if m = 1 then 86400 else if m = 2 then 31 * 86400 else 366 * 86400)"

definition same_timer :: "rtman_t \<Rightarrow> rtman_t \<Rightarrow> bool" where
  "same_timer p p' \<longleftrightarrow> rt_id p' = rt_id p \<and> rt_proc p' = rt_proc p \<and> rt_arg p' = rt_arg p \<and>
     rt_bonce p' = rt_bonce p \<and> rt_flag p' = rt_flag p \<and> rt_basetime p' = rt_basetime p"

definition rt_entry_ok :: "nat \<Rightarrow> rtman_t \<Rightarrow> bool" where
  "rt_entry_ok i p \<longleftrightarrow> drop_bit 16 (rt_id p) = int i \<and> (rt_bonce p \<noteq> 0 \<or> rt_good p)"

definition rt_ok :: "rtimers \<Rightarrow> nat list \<Rightarrow> bool" where
  "rt_ok st xs \<longleftrightarrow> length (RTimerBuffer st) = MAX_RTIMER \<and> is_dlist (RTimerLinks st) xs \<and>
     set xs = slots rt_flag (RTimerBuffer st) \<and> (\<forall>i \<in> set xs. rt_entry_ok i (RTimerBuffer st ! i))"

definition rt_due :: "int \<Rightarrow> rtman_t \<Rightarrow> bool" where
  "rt_due timec p \<longleftrightarrow> rt_tstart p \<le> timec"

definition rt_ends :: "int \<Rightarrow> rtman_t \<Rightarrow> bool" where
  "rt_ends timec p \<longleftrightarrow> rt_due timec p \<and> rt_bonce p \<noteq> 0"

text \<open>What one visit does to an entry.\<close>

definition rt_visited :: "int \<Rightarrow> rtman_t \<Rightarrow> rtman_t \<Rightarrow> bool" where
  "rt_visited timec p p' \<longleftrightarrow>
     (if rt_ends timec p then p' = p\<lparr>rt_flag := TMAN_EMPTY\<rparr>
      else if rt_due timec p then same_timer p p' \<and> rt_good p' \<and> timec < rt_tstart p'
      else p' = p)"

inductive rt_reach :: "rtimers \<Rightarrow> bool" where
  rt_init: "length (RTimerBuffer rt) = MAX_RTIMER \<Longrightarrow> rt_reach (snd (SysTimerInit_lists ct rt))"
| rt_add: "rt_reach st \<Longrightarrow> 0 \<le> rc_curtime pc \<Longrightarrow> rc_curtime pc \<le> 1400000000 \<Longrightarrow>
    SysAddRTimer pc proc arg st = Some (tid, st') \<Longrightarrow> rt_reach st'"
| rt_stop: "rt_reach st \<Longrightarrow> rt_reach (SysStopRTimer tid st)"
| rt_recal: "rt_reach st \<Longrightarrow> 0 \<le> cur \<Longrightarrow> cur \<le> 1400000000 \<Longrightarrow> SysRecalRTimer tid cur st = Some st' \<Longrightarrow> rt_reach st'"
| rt_recal_all: "rt_reach st \<Longrightarrow> 0 \<le> cur \<Longrightarrow> cur \<le> 1400000000 \<Longrightarrow> SysRecalAllRTimer cur st = Some st' \<Longrightarrow> rt_reach st'"
| rt_proc: "rt_reach st \<Longrightarrow> 0 \<le> cur \<Longrightarrow> cur \<le> 1400000000 \<Longrightarrow> RTimerProc cur st = Some st' \<Longrightarrow> rt_reach st'"

definition free_rtman :: rtman_t where
  "free_rtman = \<lparr>rt_id = 0, rt_proc = 0, rt_arg = 0, rt_tstart = 0, rt_tbase = 0, rt_dev = 0, rt_mod = 0,
     rt_bonce = 0, rt_flag = 0, rt_basetime = 0\<rparr>"

definition empty_rtimers :: rtimers where
  "empty_rtimers = \<lparr>RTimerBuffer = replicate MAX_RTIMER free_rtman,
     RTimerLinks = dl_init \<lparr>nxt = \<lambda>_. Head, prv = \<lambda>_. Head\<rparr>, RTimerIdAddup = 0, RTimerCalls = []\<rparr>"

definition example_conf :: rtimer_conf_t where
  "example_conf = \<lparr>rc_curtime = 549590400, rc_bonce = 0, rc_tdev = 1, rc_tmod = 1,
     rc_basetime = \<lparr>c_year = 0, c_month = 0, c_day = 0, c_hour = 0, c_minute = 5, c_second = 0, c_week = 0\<rparr>\<rparr>"

definition example_task :: timer_task where
  "example_task = \<lparr>FeedWatchdog = 1, SysJiffies = 1, bakJiffies = 0, countRtimer = 0,
     task_clock = \<lparr>UTimeCurrent = 0, ClockCurrent = example_clock 0 0 0, ClockSysStart = example_clock 0 0 0\<rparr>,
     ctimers = empty_ctimers, rtimers = empty_rtimers, watchdog_fed = 0\<rparr>"

subsection \<open>Lemmas\<close>

lemma path_append: "path d a (xs @ x # ys) b \<longleftrightarrow> path d a xs (Node x) \<and> path d (Node x) ys b"
  by (induction xs arbitrary: a) auto

lemma path_frame:
  "path d a xs b \<Longrightarrow> nxt d' a = nxt d a \<Longrightarrow> prv d' b = prv d b \<Longrightarrow>
   (\<And>x. x \<in> set xs \<Longrightarrow> nxt d' (Node x) = nxt d (Node x) \<and> prv d' (Node x) = prv d (Node x)) \<Longrightarrow> path d' a xs b"
  by (induction xs arbitrary: a) auto

lemma is_dlist_init: "is_dlist (dl_init d) []"
  by (simp add: is_dlist_def dl_init_def)

lemma is_dlist_first: "is_dlist d (xs @ ys) \<Longrightarrow> xs = [] \<Longrightarrow> nxt d Head = first_link ys"
  by (cases ys) (auto simp: is_dlist_def)

lemma is_dlist_next: "is_dlist d (xs @ x # ys) \<Longrightarrow> nxt d (Node x) = first_link ys"
  by (cases ys) (auto simp: is_dlist_def path_append)

lemma is_dlist_append:
  assumes "is_dlist d xs" "i \<notin> set xs"
  shows "is_dlist (dl_append i d) (xs @ [i])"
proof (cases xs rule: rev_cases)
  case Nil
  then show ?thesis using assms by (auto simp: is_dlist_def dl_append_def)
next
  case (snoc ys l)
  let ?d = "dl_append i d"
  have p: "path d Head ys (Node l)" "nxt d (Node l) = Head" "prv d Head = Node l" and l: "l \<notin> set ys" "l \<noteq> i" "i \<notin> set ys"
    using assms snoc by (auto simp: is_dlist_def path_append)
  have "path ?d Head ys (Node l)"
    using p l by (intro path_frame [OF p(1)]) (auto simp: dl_append_def)
  moreover have "path ?d (Node l) [i] Head" using p l by (simp add: dl_append_def)
  ultimately show ?thesis using assms snoc by (simp add: is_dlist_def path_append)
qed

lemma is_dlist_unlink:
  assumes "is_dlist d (ys @ i # zs)"
  shows "is_dlist (dl_unlink i d) (ys @ zs)"
proof -
  let ?d = "dl_unlink i d"
  have p: "path d Head ys (Node i)" "path d (Node i) zs Head" and dis: "distinct (ys @ i # zs)"
    using assms by (auto simp: is_dlist_def path_append)
  have "path ?d Head (ys @ zs) Head"
  proof (cases ys rule: rev_cases)
    case Nil
    show ?thesis
    proof (cases zs)
      case Nil then show ?thesis using \<open>ys = []\<close> p by (simp add: dl_unlink_def)
    next
      case (Cons z zs')
      have "path d (Node z) zs' Head" using p Cons by simp
      then have "path ?d (Node z) zs' Head"
        using p Cons dis \<open>ys = []\<close> by (elim path_frame) (auto simp: dl_unlink_def)
      then show ?thesis using p Cons \<open>ys = []\<close> dis by (auto simp: dl_unlink_def)
    qed
  next
    case (snoc ys' l)
    have l: "path d Head ys' (Node l)" "nxt d (Node l) = Node i" "prv d (Node i) = Node l"
      using p snoc by (auto simp: path_append)
    show ?thesis
    proof (cases zs)
      case Nil
      have "path ?d Head ys' (Node l)"
        using l p Nil dis snoc by (intro path_frame [OF l(1)]) (auto simp: dl_unlink_def)
      then show ?thesis using l p Nil dis snoc by (simp add: path_append) (auto simp: dl_unlink_def)
    next
      case (Cons z zs')
      have z: "path d (Node z) zs' Head" "nxt d (Node i) = Node z" "prv d (Node z) = Node i" using p Cons by auto
      have "path ?d Head ys' (Node l)"
        using l z dis snoc Cons by (intro path_frame [OF l(1)]) (auto simp: dl_unlink_def)
      moreover have "path ?d (Node z) zs' Head"
        using l z dis snoc Cons by (intro path_frame [OF z(1)]) (auto simp: dl_unlink_def)
      ultimately show ?thesis using l z dis snoc Cons by (simp add: path_append) (auto simp: dl_unlink_def)
    qed
  qed
  then show ?thesis using dis by (simp add: is_dlist_def)
qed

lemma is_dlist_unlink_filter:
  assumes "is_dlist d xs" "i \<in> set xs"
  shows "is_dlist (dl_unlink i d) (filter (\<lambda>x. x \<noteq> i) xs)"
proof -
  obtain ys zs where xs: "xs = ys @ i # zs" "i \<notin> set ys" "i \<notin> set zs"
    using assms by (metis (full_types) is_dlist_def distinct.simps(2) distinct_append split_list_first)
  have "filter (\<lambda>x. x \<noteq> i) ys = ys" "filter (\<lambda>x. x \<noteq> i) zs = zs" using xs by (auto intro!: filter_True)
  then have "filter (\<lambda>x. x \<noteq> i) xs = ys @ zs" using xs by simp
  then show ?thesis using is_dlist_unlink assms(1) xs by simp
qed

locale list_walk =
  fixes links :: "'s \<Rightarrow> dlist"
    and body :: "nat \<Rightarrow> 's \<Rightarrow> 's option"
  assumes keep: "body i st = Some st' \<Longrightarrow> links st' = links st \<or> links st' = dl_unlink i (links st)"
begin

lemma walk_run:
  "is_dlist (links st) (pre @ xs) \<Longrightarrow> length xs \<le> n \<Longrightarrow>
   walk n links body (first_link xs) st = run_body body xs st"
proof (induction xs arbitrary: n st pre)
  case (Cons x xs)
  obtain m where n: "n = Suc m" using Cons.prems(2) by (cases n) auto
  show ?case
  proof (cases "body x st")
    case (Some st')
    have next_x: "nxt (links st) (Node x) = first_link xs" using is_dlist_next [OF Cons.prems(1)] .
    have "\<exists>pre'. is_dlist (links st') (pre' @ xs)"
      using keep [OF Some] Cons.prems(1) is_dlist_unlink [OF Cons.prems(1)]
      by (metis append.assoc append_Cons append_Nil)
    then show ?thesis using Cons.IH Cons.prems(2) n Some next_x by (auto simp: Let_def)
  qed (simp add: n)
qed simp

lemma walk_all:
  "is_dlist (links st) xs \<Longrightarrow> length xs \<le> n \<Longrightarrow>
   walk n links body (nxt (links st) Head) st = run_body body xs st"
  using walk_run [of st "[]" xs n] is_dlist_first [of "links st" "[]" xs] by simp

end

lemma find_empty_Some:
  "find_empty flag es k = Some i \<Longrightarrow> k \<le> i \<and> i < k + length es \<and> flag (es ! (i - k)) = TMAN_EMPTY"
proof (induction es arbitrary: k)
  case (Cons e es)
  show ?case
  proof (cases "flag e = TMAN_EMPTY")
    case False
    then have "find_empty flag es (Suc k) = Some i" using Cons.prems by simp
    from Cons.IH [OF this] have "Suc k \<le> i" "i < Suc k + length es" "flag (es ! (i - Suc k)) = TMAN_EMPTY" by auto
    moreover from this have "i - k = Suc (i - Suc k)" by simp
    ultimately show ?thesis by simp
  qed (use Cons.prems in simp)
qed simp

lemma find_empty_None: "find_empty flag es k = None \<Longrightarrow> \<forall>e \<in> set es. flag e \<noteq> TMAN_EMPTY"
  by (induction es arbitrary: k) (auto split: if_splits)

lemma timer_id_slot: "drop_bit 16 ((a AND 0xffff) OR push_bit 16 (int i)) = int i"
proof -
  have "a AND 0xffff = take_bit 16 a" unfolding take_bit_eq_mask mask_eq_exp_minus_1 by simp
  then show ?thesis by (auto intro!: bit_eqI simp: bit_simps)
qed

lemma slots_update:
  "i < length es \<Longrightarrow> slots flag (es[i := e]) = (if flag e = TMAN_EMPTY then slots flag es - {i} else insert i (slots flag es))"
  by (auto simp: slots_def nth_list_update)

lemma TMAN_VALID_nonempty [simp]: "TMAN_VALID \<noteq> TMAN_EMPTY"
  by (simp add: TMAN_VALID_def TMAN_EMPTY_def)

lemma SysAddCTimer_ok:
  assumes ok: "ct_ok st xs" and dev: "0 < dev" "dev \<le> 2147483647"
  shows "if length xs = MAX_CTIMER then SysAddCTimer dev proc arg st = (- 1, st)
    else \<exists>i st'. SysAddCTimer dev proc arg st = ((CTimerIdAddup st AND 0xffff) OR push_bit 16 (int i), st') \<and>
      i \<notin> set xs \<and> ct_ok st' (xs @ [i]) \<and> ct_id (CTimerBuffer st' ! i) = fst (SysAddCTimer dev proc arg st) \<and>
      ct_dev (CTimerBuffer st' ! i) = word_of_int dev \<and> ct_cnt (CTimerBuffer st' ! i) = 0 \<and> (\<forall>j. j \<noteq> i \<longrightarrow> CTimerBuffer st' ! j = CTimerBuffer st ! j)"
proof -
  let ?b = "CTimerBuffer st"
  have l: "length ?b = MAX_CTIMER" and dl: "is_dlist (CTimerLinks st) xs" and sx: "set xs = slots ct_flag ?b"
    using ok by (simp_all add: ct_ok_def)
  have card: "length xs = card (set xs)" using dl by (simp add: is_dlist_def distinct_card)
  show ?thesis
  proof (cases "find_empty ct_flag ?b 0")
    case None
    then have "slots ct_flag ?b = {..<MAX_CTIMER}"
      using find_empty_None [OF None] l by (auto simp: slots_def)
    then have "length xs = MAX_CTIMER" using card sx by simp
    then show ?thesis using None dev by (simp add: SysAddCTimer_def)
  next
    case (Some i)
    have i: "i < MAX_CTIMER" "ct_flag (?b ! i) = TMAN_EMPTY" using find_empty_Some [OF Some] l by auto
    then have ni: "i \<notin> set xs" using sx by (simp add: slots_def)
    have "slots ct_flag ?b \<subset> {..<MAX_CTIMER}" using i l ni sx by (auto simp: slots_def)
    then have "card (set xs) < MAX_CTIMER" using sx psubset_card_mono [of "{..<MAX_CTIMER}"] by simp
    then have full: "length xs \<noteq> MAX_CTIMER" using card by simp
    let ?cid = "(CTimerIdAddup st AND 0xffff) OR push_bit 16 (int i)"
    let ?p = "(?b ! i)\<lparr>ct_flag := TMAN_VALID, ct_proc := proc, ct_arg := arg, ct_cnt := 0, ct_dev := word_of_int dev, ct_id := ?cid\<rparr>"
    have "unat (word_of_int dev :: u32) = nat dev" using dev by (simp add: take_bit_eq_mod unsigned_of_int)
    then have "0 < (word_of_int dev :: u32)" using dev by (simp add: word_less_nat_alt)
    then have e: "ct_entry_ok i ?p" 
      using timer_id_slot [of "CTimerIdAddup st" i] by (simp add: ct_entry_ok_def)
    define st' where "st' = st\<lparr>CTimerBuffer := ?b[i := ?p], CTimerIdAddup := s32 (CTimerIdAddup st + 1),
       CTimerLinks := dl_append i (CTimerLinks st)\<rparr>"
    have a: "SysAddCTimer dev proc arg st = (?cid, st')"
      using Some dev by (simp add: SysAddCTimer_def st'_def Let_def)
    have "ct_ok st' (xs @ [i])"
      using ok e i l ni is_dlist_append [OF dl ni] unfolding ct_ok_def st'_def
      by (auto simp: slots_update nth_list_update)
    then show ?thesis using a full ni i l by (auto simp: st'_def)
  qed
qed

lemma ct_unlink_ok:
  assumes ok: "ct_ok st xs" and i: "i \<in> set xs"
  shows "ct_ok (st\<lparr>CTimerBuffer := (CTimerBuffer st)[i := (CTimerBuffer st ! i)\<lparr>ct_flag := TMAN_EMPTY\<rparr>],
       CTimerLinks := dl_unlink i (CTimerLinks st)\<rparr>) (filter (\<lambda>x. x \<noteq> i) xs)"
proof -
  have "i < length (CTimerBuffer st)" using assms by (auto simp: ct_ok_def slots_def)
  then show ?thesis
    using ok is_dlist_unlink_filter [OF _ i] unfolding ct_ok_def by (auto simp: slots_update)
qed

lemma nat_slot_bound: "int MAX_CTIMER \<le> x \<or> nat x < MAX_CTIMER"
  by (simp add: MAX_CTIMER_def) linarith

lemma SysStopCTimer_ok:
  assumes "ct_ok st xs"
  shows "ct_ok (SysStopCTimer cid st)
    (filter (\<lambda>i. \<not> (i = nat (drop_bit 16 cid) \<and> ct_id (CTimerBuffer st ! i) = cid)) xs)"
proof (cases "\<exists>i \<in> set xs. i = nat (drop_bit 16 cid) \<and> ct_id (CTimerBuffer st ! i) = cid")
  case True
  then obtain i where i: "i \<in> set xs" "ct_id (CTimerBuffer st ! i) = cid" "i = nat (drop_bit 16 cid)" by blast
  have v: "ct_flag (CTimerBuffer st ! i) \<noteq> TMAN_EMPTY" "i < MAX_CTIMER" "ct_entry_ok i (CTimerBuffer st ! i)"
    using assms i(1) by (auto simp: ct_ok_def slots_def)
  then have o: "drop_bit 16 cid = int i" using i(2) by (simp add: ct_entry_ok_def)
  have "filter (\<lambda>j. \<not> (j = nat (drop_bit 16 cid) \<and> ct_id (CTimerBuffer st ! j) = cid)) xs = filter (\<lambda>x. x \<noteq> i) xs"
    using i by (intro filter_cong) auto
  then show ?thesis using ct_unlink_ok [OF assms i(1)] i(2) v o by (simp add: SysStopCTimer_def Let_def)
next
  case False
  then have "filter (\<lambda>i. \<not> (i = nat (drop_bit 16 cid) \<and> ct_id (CTimerBuffer st ! i) = cid)) xs = xs"
    by (intro filter_True) blast
  moreover have "SysStopCTimer cid st = st"
  proof (cases "drop_bit 16 cid < 0 \<or> int MAX_CTIMER \<le> drop_bit 16 cid")
    case True then show ?thesis by (simp add: SysStopCTimer_def)
  next
    case f: False
    then have "nat (drop_bit 16 cid) \<in> set xs \<or> ct_flag (CTimerBuffer st ! nat (drop_bit 16 cid)) = TMAN_EMPTY"
      using assms nat_slot_bound [of "drop_bit 16 cid"] by (auto simp: ct_ok_def slots_def)
    then show ?thesis using False f by (auto simp: SysStopCTimer_def Let_def)
  qed
  ultimately show ?thesis using assms by simp
qed

lemma ct_update_ok:
  assumes ok: "ct_ok st xs" and i: "i \<in> set xs" and "ct_flag p \<noteq> TMAN_EMPTY" "ct_entry_ok i p"
  shows "ct_ok (st\<lparr>CTimerBuffer := (CTimerBuffer st)[i := p]\<rparr>) xs"
proof -
  have "i < length (CTimerBuffer st)" using ok i by (auto simp: ct_ok_def slots_def)
  then show ?thesis using assms unfolding ct_ok_def by (auto simp: slots_update nth_list_update)
qed

lemma SysClearCTimer_ok:
  assumes ok: "ct_ok st xs"
  shows "ct_ok (SysClearCTimer cid st) xs"
proof -
  let ?i = "nat (drop_bit 16 cid)" and ?p = "CTimerBuffer st ! nat (drop_bit 16 cid)"
  have "ct_ok (st\<lparr>CTimerBuffer := (CTimerBuffer st)[?i := ?p\<lparr>ct_cnt := 0\<rparr>]\<rparr>) xs"
    if "?i < MAX_CTIMER" "ct_flag ?p \<noteq> TMAN_EMPTY"
  proof (rule ct_update_ok [OF ok])
    show i: "?i \<in> set xs" using ok that by (simp add: ct_ok_def slots_def)
    then have "ct_entry_ok ?i ?p" using ok by (simp add: ct_ok_def)
    then show "ct_entry_ok ?i (?p\<lparr>ct_cnt := 0\<rparr>)"
      by (auto simp: ct_entry_ok_def intro: le_less_trans [OF word_zero_le])
  qed (use that in simp)
  then show ?thesis using ok nat_slot_bound [of "drop_bit 16 cid"] by (auto simp: SysClearCTimer_def Let_def)
qed

lemma CTimerProc_body_eq:
  assumes "i < length (CTimerBuffer st)" "ct_flag (CTimerBuffer st ! i) \<noteq> TMAN_EMPTY"
  defines "p \<equiv> CTimerBuffer st ! i"
  shows "CTimerProc_body run i st = st\<lparr>CTimerBuffer := (CTimerBuffer st)[i := ct_tick run p],
     CTimerLinks := (if ct_stops run p then dl_unlink i (CTimerLinks st) else CTimerLinks st),
     CTimerCalls := CTimerCalls st @ (if ct_fires p then [(ct_proc p, ct_arg p)] else [])\<rparr>"
  using assms unfolding CTimerProc_body_def p_def
  by (simp add: Let_def StopCTimerP_def ct_tick_def ct_stops_def ct_fires_def nth_list_update)

interpretation ct_walk: list_walk CTimerLinks "\<lambda>i st. Some (CTimerProc_body run i st)" for run
  by unfold_locales (auto simp: CTimerProc_body_def StopCTimerP_def Let_def)

lemma CTimerProc_run:
  "distinct ys \<Longrightarrow> is_dlist (CTimerLinks st) (pre @ ys) \<Longrightarrow> set ys \<subseteq> slots ct_flag (CTimerBuffer st) \<Longrightarrow>
   \<exists>st'. run_body (\<lambda>i st. Some (CTimerProc_body run i st)) ys st = Some st' \<and>
     is_dlist (CTimerLinks st') (pre @ filter (\<lambda>i. \<not> ct_stops run (CTimerBuffer st ! i)) ys) \<and>
     length (CTimerBuffer st') = length (CTimerBuffer st) \<and>
     (\<forall>i. CTimerBuffer st' ! i = (if i \<in> set ys then ct_tick run (CTimerBuffer st ! i) else CTimerBuffer st ! i)) \<and>
     CTimerCalls st' = CTimerCalls st @ map (\<lambda>i. (ct_proc (CTimerBuffer st ! i), ct_arg (CTimerBuffer st ! i)))
       (filter (\<lambda>i. ct_fires (CTimerBuffer st ! i)) ys)"
proof (induction ys arbitrary: st pre)
  case (Cons y ys)
  let ?p = "CTimerBuffer st ! y"
  define st1 where "st1 = CTimerProc_body run y st"
  have y: "y < length (CTimerBuffer st)" "ct_flag ?p \<noteq> TMAN_EMPTY" using Cons.prems(3) by (auto simp: slots_def)
  note b = CTimerProc_body_eq [OF y, of run, folded st1_def]
  define pre1 where "pre1 = (if ct_stops run ?p then pre else pre @ [y])"
  have d1: "is_dlist (CTimerLinks st1) (pre1 @ ys)"
    using Cons.prems(2) is_dlist_unlink [of "CTimerLinks st" pre y ys] by (simp add: b pre1_def)
  have same: "j \<noteq> y \<Longrightarrow> CTimerBuffer st1 ! j = CTimerBuffer st ! j" for j by (simp add: b)
  have "set ys \<subseteq> slots ct_flag (CTimerBuffer st1)"
    using Cons.prems(1,3) by (auto simp: slots_def b nth_list_update)
  from Cons.IH [OF _ d1 this] Cons.prems(1) obtain st' where st':
    "run_body (\<lambda>i st. Some (CTimerProc_body run i st)) ys st1 = Some st'"
    "is_dlist (CTimerLinks st') (pre1 @ filter (\<lambda>i. \<not> ct_stops run (CTimerBuffer st1 ! i)) ys)"
    "length (CTimerBuffer st') = length (CTimerBuffer st1)"
    "\<forall>i. CTimerBuffer st' ! i = (if i \<in> set ys then ct_tick run (CTimerBuffer st1 ! i) else CTimerBuffer st1 ! i)"
    "CTimerCalls st' = CTimerCalls st1 @ map (\<lambda>i. (ct_proc (CTimerBuffer st1 ! i), ct_arg (CTimerBuffer st1 ! i)))
       (filter (\<lambda>i. ct_fires (CTimerBuffer st1 ! i)) ys)" by auto
  have ny: "\<And>i. i \<in> set ys \<Longrightarrow> i \<noteq> y" using Cons.prems(1) by auto
  have f: "filter (\<lambda>i. \<not> ct_stops run (CTimerBuffer st1 ! i)) ys = filter (\<lambda>i. \<not> ct_stops run (CTimerBuffer st ! i)) ys"
    "filter (\<lambda>i. ct_fires (CTimerBuffer st1 ! i)) ys = filter (\<lambda>i. ct_fires (CTimerBuffer st ! i)) ys"
    using same ny by (auto intro!: filter_cong)
  have m: "map (\<lambda>i. (ct_proc (CTimerBuffer st1 ! i), ct_arg (CTimerBuffer st1 ! i))) (filter P ys) =
      map (\<lambda>i. (ct_proc (CTimerBuffer st ! i), ct_arg (CTimerBuffer st ! i))) (filter P ys)" for P
    using same ny by (auto intro!: map_cong)
  have y1: "CTimerBuffer st1 ! y = ct_tick run ?p" using y by (simp add: b)
  show ?case
  proof (intro exI [of _ st'] conjI allI)
    show "run_body (\<lambda>i st. Some (CTimerProc_body run i st)) (y # ys) st = Some st'"
      using st'(1) by (simp add: st1_def)
    show "is_dlist (CTimerLinks st') (pre @ filter (\<lambda>i. \<not> ct_stops run (CTimerBuffer st ! i)) (y # ys))"
      using st'(2) f by (simp add: pre1_def split: if_splits)
    show "length (CTimerBuffer st') = length (CTimerBuffer st)" using st'(3) by (simp add: b)
    show "CTimerBuffer st' ! i = (if i \<in> set (y # ys) then ct_tick run (CTimerBuffer st ! i) else CTimerBuffer st ! i)" for i
      using st'(4) ny same y1 by auto
    show "CTimerCalls st' = CTimerCalls st @ map (\<lambda>i. (ct_proc (CTimerBuffer st ! i), ct_arg (CTimerBuffer st ! i)))
       (filter (\<lambda>i. ct_fires (CTimerBuffer st ! i)) (y # ys))"
      using st'(5) f m by (simp add: b)
  qed
qed simp

lemma ct_tick_ok:
  assumes "ct_entry_ok i p" "ct_flag p \<noteq> TMAN_EMPTY"
  shows "ct_flag (ct_tick run p) = TMAN_EMPTY \<longleftrightarrow> ct_stops run p" "ct_entry_ok i (ct_tick run p)"
proof -
  have c: "ct_cnt p < ct_dev p" using assms by (simp add: ct_entry_ok_def)
  show "ct_flag (ct_tick run p) = TMAN_EMPTY \<longleftrightarrow> ct_stops run p"
    using assms(2) by (simp add: ct_tick_def)
  have "0 < ct_dev p" using c by (auto intro: le_less_trans [OF word_zero_le])
  then show "ct_entry_ok i (ct_tick run p)"
    using assms(1) by (auto simp: ct_entry_ok_def ct_tick_def ct_fires_def ct_stops_def not_le)
qed

lemma ct_ok_length: "ct_ok st xs \<Longrightarrow> length xs \<le> MAX_CTIMER"
proof -
  assume ok: "ct_ok st xs"
  then have "length xs = card (set xs)" using distinct_card [of xs] by (simp add: ct_ok_def is_dlist_def)
  moreover have "set xs \<subseteq> {..<MAX_CTIMER}" using ok by (auto simp: ct_ok_def slots_def)
  then have "card (set xs) \<le> MAX_CTIMER" using card_mono [of "{..<MAX_CTIMER}"] by simp
  ultimately show ?thesis by simp
qed

lemma CTimerProc_correct:
  assumes ok: "ct_ok st xs"
  shows "\<exists>st'. CTimerProc run st = Some st' \<and>
     ct_ok st' (filter (\<lambda>i. \<not> ct_stops run (CTimerBuffer st ! i)) xs) \<and>
     (\<forall>i \<in> set xs. CTimerBuffer st' ! i = ct_tick run (CTimerBuffer st ! i)) \<and>
     CTimerCalls st' = CTimerCalls st @ map (\<lambda>i. (ct_proc (CTimerBuffer st ! i), ct_arg (CTimerBuffer st ! i)))
       (filter (\<lambda>i. ct_fires (CTimerBuffer st ! i)) xs)"
proof -
  have d: "is_dlist (CTimerLinks st) xs" "distinct xs" "set xs = slots ct_flag (CTimerBuffer st)"
    using ok by (simp_all add: ct_ok_def is_dlist_def)
  obtain st' where st': "run_body (\<lambda>i st. Some (CTimerProc_body run i st)) xs st = Some st'"
     "is_dlist (CTimerLinks st') (filter (\<lambda>i. \<not> ct_stops run (CTimerBuffer st ! i)) xs)"
     "length (CTimerBuffer st') = length (CTimerBuffer st)"
     "\<forall>i. CTimerBuffer st' ! i = (if i \<in> set xs then ct_tick run (CTimerBuffer st ! i) else CTimerBuffer st ! i)"
     "CTimerCalls st' = CTimerCalls st @ map (\<lambda>i. (ct_proc (CTimerBuffer st ! i), ct_arg (CTimerBuffer st ! i)))
       (filter (\<lambda>i. ct_fires (CTimerBuffer st ! i)) xs)"
    using CTimerProc_run [of xs st "[]" run] d by auto
  have "CTimerProc run st = Some st'"
    using ct_walk.walk_all [OF d(1) ct_ok_length [OF ok], of run] st'(1) by (simp add: CTimerProc_def)
  moreover have e: "ct_entry_ok i (CTimerBuffer st ! i)" "ct_flag (CTimerBuffer st ! i) \<noteq> TMAN_EMPTY"
    if "i \<in> set xs" for i using ok that by (auto simp: ct_ok_def slots_def)
  have s: "set (filter (\<lambda>i. \<not> ct_stops run (CTimerBuffer st ! i)) xs) = slots ct_flag (CTimerBuffer st')"
  proof (rule set_eqI)
    fix i
    show "i \<in> set (filter (\<lambda>i. \<not> ct_stops run (CTimerBuffer st ! i)) xs) \<longleftrightarrow> i \<in> slots ct_flag (CTimerBuffer st')"
    proof (cases "i \<in> set xs")
      case True
      then have "i < length (CTimerBuffer st')" using d(3) st'(3) by (simp add: slots_def)
      then show ?thesis using True st'(4) ct_tick_ok(1) [OF e [OF True]] by (simp add: slots_def)
    next
      case False
      then show ?thesis using st'(3,4) d(3) by (auto simp: slots_def)
    qed
  qed
  have "\<forall>i \<in> set (filter (\<lambda>i. \<not> ct_stops run (CTimerBuffer st ! i)) xs). ct_entry_ok i (CTimerBuffer st' ! i)"
    using st'(4) ct_tick_ok(2) [OF e] by simp
  then have "ct_ok st' (filter (\<lambda>i. \<not> ct_stops run (CTimerBuffer st ! i)) xs)"
    using ok st'(2,3) s by (auto simp: ct_ok_def)
  ultimately show ?thesis using st'(4,5) by auto
qed

lemma ct_reach_ok: "ct_reach st \<Longrightarrow> \<exists>xs. ct_ok st xs"
proof (induction rule: ct_reach.induct)
  case (ct_init ct rt)
  then have "ct_ok (fst (SysTimerInit_lists ct rt)) []"
    by (auto simp: ct_ok_def SysTimerInit_lists_def is_dlist_init slots_def)
  then show ?case ..
next
  case (ct_add st dev proc arg)
  then obtain xs where ok: "ct_ok st xs" by blast
  show ?case
  proof (cases "0 < dev")
    case True
    then show ?thesis using SysAddCTimer_ok [OF ok True ct_add.hyps(2), of proc arg] ok
      by (auto split: if_splits)
  qed (use ok in \<open>auto simp: SysAddCTimer_def\<close>)
next
  case (ct_stop st cid)
  then show ?case using SysStopCTimer_ok by blast
next
  case (ct_clear st cid)
  then show ?case using SysClearCTimer_ok by blast
next
  case (ct_proc st run st')
  then obtain xs where "ct_ok st xs" by blast
  from CTimerProc_correct [OF this, of run] show ?case using ct_proc.hyps(2) by auto
qed

lemma empty_ctimers_reach: "ct_reach empty_ctimers"
proof -
  have "empty_ctimers = fst (SysTimerInit_lists empty_ctimers rt)" for rt
    by (simp add: SysTimerInit_lists_def empty_ctimers_def free_ctman_def TMAN_EMPTY_def map_replicate_const dl_init_def)
  moreover have "length (CTimerBuffer empty_ctimers) = MAX_CTIMER" by (simp add: empty_ctimers_def)
  ultimately show ?thesis by (metis ct_init)
qed

lemma mod_Suc_step: "0 < (d :: nat) \<Longrightarrow> Suc n mod d = (if Suc (n mod d) = d then 0 else Suc (n mod d))"
  by (rule mod_Suc)

lemma empty_ctimers_ok: "ct_ok empty_ctimers []"
  by (auto simp: ct_ok_def empty_ctimers_def is_dlist_init slots_def free_ctman_def TMAN_EMPTY_def)

lemma UTimeAdd_months_bounds:
  "0 \<le> a \<Longrightarrow> a + int n * 2678400 \<le> 2147483647 \<Longrightarrow>
   a + int n * 2419200 \<le> UTimeAdd_months n y m a \<and> UTimeAdd_months n y m a \<le> a + int n * 2678400"
proof (induction n y m a rule: UTimeAdd_months.induct)
  case (2 n y m a)
  have mm: "28 \<le> month_max y m" "month_max y m \<le> 31" by (simp_all add: month_max_def)
  define a' where "a' = a + month_max y m * 86400"
  have a': "a + 2419200 \<le> a'" "a' \<le> a + 2678400" using mm by (simp_all add: a'_def)
  have b: "0 \<le> a'" "a' + int n * 2678400 \<le> 2147483647" using 2(3,4) a' by simp_all
  have s: "s32 a' = a'" using a' 2(3,4) by (intro s32_small) simp_all
  show ?case
  proof (cases "12 < m + 1")
    case True
    then have "UTimeAdd_months (Suc n) y m a = UTimeAdd_months n (y + 1) 1 a'" using s by (simp add: a'_def Let_def)
    then show ?thesis using 2(1) [of a' "m + 1"] True b a' s unfolding a'_def by simp
  next
    case False
    then have "UTimeAdd_months (Suc n) y m a = UTimeAdd_months n y (m + 1) a'" using s by (simp add: a'_def Let_def)
    then show ?thesis using 2(2) [of a' "m + 1"] False b a' s unfolding a'_def by simp
  qed
qed simp

lemma UTimeAdd_bounds:
  assumes "0 \<le> m" "m \<le> 3" "1 \<le> dev" "dev \<le> 255" "0 \<le> t" "t \<le> 1400000000"
  shows "t + mod_unit m \<le> UTimeAdd t m dev" "UTimeAdd t m dev \<le> t + 700000000"
proof -
  have "t + mod_unit m \<le> UTimeAdd t m dev \<and> UTimeAdd t m dev \<le> t + 700000000"
  proof (cases "m < 3")
    case True
    define u :: int where "u = (if m = 0 then 60 else if m = 1 then 3600 else 86400)"
    have u: "mod_unit m = u" "60 \<le> u" "u \<le> 86400" using True assms by (auto simp: mod_unit_def u_def)
    have b: "u * 1 \<le> u * dev" "u * dev \<le> 86400 * 255"
      using u assms by (intro mult_left_mono mult_mono; simp)+
    have "s32 (u * dev) = u * dev" "s32 (t + u * dev) = t + u * dev"
      using b u assms by (intro s32_small; linarith)+
    moreover have "UTimeAdd t m dev = s32 (t + s32 (u * dev))"
      using True assms by (auto simp: UTimeAdd_def u_def UTIMEDEV_MONTH_def UTIMEDEV_MINUTE_def UTIMEDEV_HOUR_def)
    ultimately show ?thesis using b u assms by (simp only: mult_1_right) linarith
  next
    case False
    then have m: "m = 3" using assms by simp
    let ?a = "UTimeAdd_months (nat dev) (c_year (UTimeToSysClock t)) (c_month (UTimeToSysClock t)) 0"
    have "0 + int (nat dev) * 2419200 \<le> ?a \<and> ?a \<le> 0 + int (nat dev) * 2678400"
      using assms by (intro UTimeAdd_months_bounds) simp_all
    then have a: "2419200 \<le> ?a" "?a \<le> 700000000" using assms by simp_all
    then have "UTimeAdd t m dev = t + ?a" using assms m by (simp add: UTimeAdd_def UTIMEDEV_MONTH_def s32_small Let_def)
    then show ?thesis using a m by (simp add: mod_unit_def)
  qed
  then show "t + mod_unit m \<le> UTimeAdd t m dev" "UTimeAdd t m dev \<le> t + 700000000" by auto
qed

lemma u8_le_255: "uint (w :: u8) \<le> 255"
  using uint_lt2p [of w] by simp

lemma next_base:
  assumes g: "rt_good p" and c: "rt_tbase p \<le> cur" "cur \<le> 1400000000"
  defines "b \<equiv> UTimeAdd (rt_tbase p) (uint (rt_mod p)) (uint (rt_dev p))"
  shows "rt_good (p\<lparr>rt_tbase := b, rt_tstart := s32 (b + rt_basetime p)\<rparr>)"
    "s32 (b + rt_basetime p) = b + rt_basetime p" "rt_tbase p + mod_unit (uint (rt_mod p)) \<le> b"
proof -
  have u: "rt_tbase p + mod_unit (uint (rt_mod p)) \<le> b" "b \<le> rt_tbase p + 700000000"
    unfolding b_def using g c by (intro UTimeAdd_bounds; simp add: rt_good_def u8_le_255)+
  have "0 \<le> mod_unit x" for x by (simp add: mod_unit_def)
  then have b0: "0 \<le> b" using u(1) g add_nonneg_nonneg [of "rt_tbase p" "mod_unit (uint (rt_mod p))"]
    unfolding rt_good_def by fastforce
  have "b + rt_basetime p \<le> 2147483647" using u(2) g c by (simp add: rt_good_def)
  then show s: "s32 (b + rt_basetime p) = b + rt_basetime p" using b0 g by (intro s32_small) (simp_all add: rt_good_def)
  show "rt_good (p\<lparr>rt_tbase := b, rt_tstart := s32 (b + rt_basetime p)\<rparr>)" using g b0 s by (simp add: rt_good_def)
  show "rt_tbase p + mod_unit (uint (rt_mod p)) \<le> b" by (rule u(1))
qed

lemma mod_unit_pos: "60 \<le> mod_unit m"
  by (simp add: mod_unit_def)

lemma rt_self: "\<exists>b t. p = p\<lparr>rt_tbase := b, rt_tstart := t\<rparr>"
proof (intro exI)
  show "p = p\<lparr>rt_tbase := rt_tbase p, rt_tstart := rt_tstart p\<rparr>" by simp
qed

lemma next_start_loop_ends:
  assumes "rt_good p" "cur \<le> 1400000000" "cur - rt_tstart p < int n * mod_unit (uint (rt_mod p))"
  shows "\<exists>p'. next_start_loop n cur p = Some p' \<and> rt_good p' \<and> cur < rt_tstart p' \<and>
    (\<exists>b t. p' = p\<lparr>rt_tbase := b, rt_tstart := t\<rparr>)"
  using assms
proof (induction n arbitrary: p)
  case 0
  have "next_start_loop 0 cur p = Some p" using 0 by (subst next_start_loop.simps) simp
  then show ?case using 0 rt_self [of p] by simp
next
  case (Suc n)
  show ?case
  proof (cases "rt_tstart p \<le> cur")
    case False
    then have "next_start_loop (Suc n) cur p = Some p" by (subst next_start_loop.simps) simp
    then show ?thesis using Suc.prems False rt_self [of p] by simp
  next
    case True
    define b where "b = UTimeAdd (rt_tbase p) (uint (rt_mod p)) (uint (rt_dev p))"
    have "rt_tbase p \<le> cur" using True Suc.prems(1) by (simp add: rt_good_def)
    note nb = next_base [OF Suc.prems(1) this Suc.prems(2), folded b_def]
    let ?q = "p\<lparr>rt_tbase := b, rt_tstart := s32 (b + rt_basetime p)\<rparr>"
    have "rt_tstart p + mod_unit (uint (rt_mod p)) \<le> rt_tstart ?q"
      using nb(2,3) Suc.prems(1) by (simp add: rt_good_def)
    then have "cur - rt_tstart ?q < int n * mod_unit (uint (rt_mod ?q))"
      using Suc.prems(3) by (simp add: algebra_simps)
    from Suc.IH [OF nb(1) Suc.prems(2) this] obtain p' where p': "next_start_loop n cur ?q = Some p'"
      "rt_good p'" "cur < rt_tstart p'" "\<exists>b t. p' = ?q\<lparr>rt_tbase := b, rt_tstart := t\<rparr>" by blast
    have "next_start_loop (Suc n) cur p = next_start_loop n cur ?q"
      using True by (subst next_start_loop.simps) (simp add: b_def Let_def)
    then show ?thesis using p' by auto
  qed
qed

lemma period_start_bounds:
  assumes v: "valid_clock c" and m: "uint m \<le> 3"
  shows "valid_clock (period_start m c)" "clock_secs (period_start m c) \<le> clock_secs c"
    "clock_secs c < clock_secs (period_start m c) + period_len (uint m)"
proof -
  have t: "uint (c_hour c) \<le> 23" "uint (c_minute c) \<le> 59" "uint (c_second c) \<le> 59"
    "1 \<le> uint (c_day c)" "uint (c_day c) \<le> month_max (c_year c) (c_month c)"
    "0 \<le> uint (c_hour c)" "0 \<le> uint (c_minute c)" "0 \<le> uint (c_second c)"
    using v by (auto simp: valid_clock_def word_less_def)
  have mm: "28 \<le> month_max y mo" "month_max y mo \<le> 31" for y mo by (simp_all add: month_max_def)
  have d1: "days_of y 1 = 0" for y by (simp add: days_of_def DaysBeforeMonth_def)
  have yd: "0 \<le> days_of (c_year c) (c_month c) + (uint (c_day c) - 1)"
    "days_of (c_year c) (c_month c) + (uint (c_day c) - 1) < 366"
    using clock_days_bounds [OF v] by (simp_all add: clock_days_def year_days_def split: if_splits)
  have "0 \<le> uint m" by simp
  then consider "uint m = 0" | "uint m = 1" | "uint m = 2" | "uint m = 3" using m by linarith
  then have "valid_clock (period_start m c) \<and> clock_secs (period_start m c) \<le> clock_secs c \<and>
    clock_secs c < clock_secs (period_start m c) + period_len (uint m)"
  proof cases
    case 1
    then show ?thesis using v t
      by (simp add: period_start_def Let_def UTIMEDEV_MONTH_def UTIMEDEV_DAY_def UTIMEDEV_HOUR_def period_len_def valid_clock_def
          clock_secs_def clock_days_def)
  next
    case 2
    then show ?thesis using v t
      by (simp add: period_start_def Let_def UTIMEDEV_MONTH_def UTIMEDEV_DAY_def UTIMEDEV_HOUR_def period_len_def valid_clock_def
          clock_secs_def clock_days_def)
  next
    case 3
    have "uint (c_day c) \<le> 31" using t(5) mm(2) by (rule order_trans)
    then show ?thesis using 3 v t mm(1) [of "c_year c" "c_month c"]
      by (simp add: period_start_def Let_def UTIMEDEV_MONTH_def UTIMEDEV_DAY_def UTIMEDEV_HOUR_def period_len_def valid_clock_def
          clock_secs_def clock_days_def) (use t in linarith)
  next
    case 4
    then show ?thesis using v t yd mm(1) [of "c_year c" 1] d1
      by (simp add: period_start_def Let_def UTIMEDEV_MONTH_def UTIMEDEV_DAY_def UTIMEDEV_HOUR_def period_len_def valid_clock_def
          clock_secs_def clock_days_def) (use t yd in linarith)
  qed
  then show "valid_clock (period_start m c)" "clock_secs (period_start m c) \<le> clock_secs c"
    "clock_secs c < clock_secs (period_start m c) + period_len (uint m)" by auto
qed

lemma period_len_unit: "period_len m < 64 * mod_unit m"
  by (simp add: period_len_def mod_unit_def)

lemma period_base:
  assumes "0 \<le> cur" "cur \<le> 1400000000" "uint m \<le> 3"
  shows "0 \<le> SysClockToUTime (period_start m (UTimeToSysClock cur))"
    "SysClockToUTime (period_start m (UTimeToSysClock cur)) \<le> cur"
    "cur - SysClockToUTime (period_start m (UTimeToSysClock cur)) < 64 * mod_unit (uint m)"
proof -
  have "cur \<le> 2147483647" using assms(2) by simp
  note c = UTimeToSysClock_correct [OF assms(1) this]
  let ?d = "period_start m (UTimeToSysClock cur)"
  note b = period_start_bounds [OF c(1) assms(3)]
  have "0 \<le> (uint (c_year ?d) + 3) div 4" by (rule pos_imp_zdiv_nonneg_iff [THEN iffD2]) simp_all
  then have "0 \<le> year_start (c_year ?d)" by (simp add: year_start_def)
  then have d0: "0 \<le> clock_days ?d" using clock_days_bounds(1) [OF b(1)] by simp
  then have nn: "0 \<le> clock_secs ?d" by (simp add: clock_secs_def)
  have "int_ok (clock_secs ?d)" using nn b(2) c(2) assms(2) by (simp add: int_ok_def)
  then have e: "SysClockToUTime ?d = clock_secs ?d" using SysClockToUTime_eq [OF b(1)] by simp
  show "0 \<le> SysClockToUTime ?d" "SysClockToUTime ?d \<le> cur" "cur - SysClockToUTime ?d < 64 * mod_unit (uint m)"
    using nn b c(2) period_len_unit [of "uint m"] unfolding e by linarith+
qed

lemma recal_norm:
  defines "q p \<equiv> (if uint (rt_dev p) = UTIMEDEV_MINUTE
               then (if rt_mod p = 0 then p\<lparr>rt_dev := 15\<rparr> else p\<lparr>rt_dev := 1\<rparr>) else p)"
  shows "1 \<le> uint (rt_dev (q p))" "rt_mod (q p) = rt_mod p"
proof -
  have "uint (rt_dev p) \<noteq> 0 \<Longrightarrow> 1 \<le> uint (rt_dev p)" using uint_ge_0 [of "rt_dev p"] by linarith
  then show "1 \<le> uint (rt_dev (q p))" by (auto simp: q_def UTIMEDEV_MINUTE_def)
  show "rt_mod (q p) = rt_mod p" by (simp add: q_def)
qed

lemma RecalRTimerP_next:
  assumes cur: "0 \<le> cur" "cur \<le> 1400000000" and p: "rt_bonce p = 0" "0 \<le> rt_basetime p" "rt_basetime p \<le> 23000000"
  shows "\<exists>p'. RecalRTimerP p cur = Some p' \<and> same_timer p p' \<and> rt_good p' \<and> cur < rt_tstart p'"
proof -
  define q where "q = (if uint (rt_dev p) = UTIMEDEV_MINUTE
               then (if rt_mod p = 0 then p\<lparr>rt_dev := 15\<rparr> else p\<lparr>rt_dev := 1\<rparr>) else p)"
  define r where "r = (if uint (rt_mod q) > UTIMEDEV_MONTH then q\<lparr>rt_mod := word_of_int UTIMEDEV_HOUR\<rparr> else q)"
  have q: "1 \<le> uint (rt_dev q)" "rt_bonce q = 0" "rt_basetime q = rt_basetime p" "same_timer p q"
    using recal_norm(1) [of p] p(1) by (simp_all add: q_def same_timer_def)
  have r: "1 \<le> uint (rt_dev r)" "uint (rt_mod r) \<le> 3" "rt_bonce r = 0" "rt_basetime r = rt_basetime p" "same_timer p r"
    using q by (auto simp: r_def UTIMEDEV_MONTH_def UTIMEDEV_HOUR_def same_timer_def)
  define b where "b = SysClockToUTime (period_start (rt_mod r) (UTimeToSysClock cur))"
  note b = period_base [OF cur r(2), folded b_def]
  have s: "s32 (b + rt_basetime r) = b + rt_basetime r" using b p cur r(4) by (intro s32_small) simp_all
  let ?s = "r\<lparr>rt_tbase := b, rt_tstart := s32 (b + rt_basetime r)\<rparr>"
  have e: "RecalRTimerP p cur = next_start_loop loop_fuel cur ?s"
    using r(3) unfolding RecalRTimerP_def Let_def q_def [symmetric] r_def [symmetric] b_def [symmetric] by simp
  have "rt_good ?s" using r b(1) p s by (simp add: rt_good_def)
  moreover have "cur - rt_tstart ?s < int loop_fuel * mod_unit (uint (rt_mod ?s))"
    using b(3) s p(2) r(4) by (simp add: loop_fuel_def)
  ultimately obtain p' where "next_start_loop loop_fuel cur ?s = Some p'" "rt_good p'" "cur < rt_tstart p'"
    "\<exists>b t. p' = ?s\<lparr>rt_tbase := b, rt_tstart := t\<rparr>" using next_start_loop_ends [OF _ cur(2)] by blast
  moreover from this(4) have "same_timer p p'" using r(5) by (auto simp: same_timer_def)
  ultimately show ?thesis using e by auto
qed

lemma rtimer_advance_next:
  assumes cur: "0 \<le> cur" "cur \<le> 1400000000" and p: "rt_bonce p = 0" "rt_good p" and due: "rt_tstart p \<le> cur"
  shows "\<exists>p'. rtimer_advance p cur = Some p' \<and> same_timer p p' \<and> rt_good p' \<and> cur < rt_tstart p'"
proof (cases "3600 < s32 (cur - rt_tstart p)")
  case True
  have b: "0 \<le> rt_basetime p" "rt_basetime p \<le> 23000000" using p(2) by (simp_all add: rt_good_def)
  show ?thesis using RecalRTimerP_next [OF cur p(1) b] True p(1) by (simp add: rtimer_advance_def)
next
  case False
  have "0 \<le> rt_tstart p" using p(2) by (simp add: rt_good_def)
  then have late: "cur - rt_tstart p \<le> 3600" using False due cur by (simp add: s32_small)
  define b where "b = UTimeAdd (rt_tbase p) (uint (rt_mod p)) (uint (rt_dev p))"
  have "rt_tbase p \<le> cur" using due p(2) by (simp add: rt_good_def)
  note nb = next_base [OF p(2) this cur(2), folded b_def]
  let ?s = "p\<lparr>rt_tbase := b, rt_tstart := s32 (b + rt_basetime p)\<rparr>"
  have "rt_tstart p \<le> rt_tstart ?s"
    using nb(2,3) mod_unit_pos [of "uint (rt_mod p)"] p(2) by (simp add: rt_good_def)
  then have "cur - rt_tstart ?s < int loop_fuel * mod_unit (uint (rt_mod ?s))"
    using late mod_unit_pos [of "uint (rt_mod p)"] by (simp add: loop_fuel_def)
  from next_start_loop_ends [OF nb(1) cur(2) this] obtain p' where
    "next_start_loop loop_fuel cur ?s = Some p'" "rt_good p'" "cur < rt_tstart p'"
    "\<exists>b t. p' = ?s\<lparr>rt_tbase := b, rt_tstart := t\<rparr>" by blast
  moreover from this(4) have "same_timer p p'" by (auto simp: same_timer_def)
  ultimately show ?thesis using False p(1) by (auto simp: rtimer_advance_def Let_def b_def)
qed

lemma RTimerProc_body_ok:
  assumes i: "i < length (RTimerBuffer st)" "rt_flag (RTimerBuffer st ! i) \<noteq> TMAN_EMPTY"
    and e: "rt_entry_ok i (RTimerBuffer st ! i)" and t: "0 \<le> timec" "timec \<le> 1400000000"
  shows "\<exists>p'. rt_visited timec (RTimerBuffer st ! i) p' \<and>
    RTimerProc_body timec i st = Some (st\<lparr>RTimerBuffer := (RTimerBuffer st)[i := p'],
      RTimerLinks := (if rt_ends timec (RTimerBuffer st ! i) then dl_unlink i (RTimerLinks st) else RTimerLinks st),
      RTimerCalls := RTimerCalls st @
        (if rt_due timec (RTimerBuffer st ! i)
         then [(rt_proc (RTimerBuffer st ! i), rt_arg (RTimerBuffer st ! i), timec)] else [])\<rparr>)"
proof -
  let ?p = "RTimerBuffer st ! i"
  consider "\<not> rt_due timec ?p" | "rt_due timec ?p" "rt_bonce ?p \<noteq> 0" | "rt_due timec ?p" "rt_bonce ?p = 0" by blast
  then show ?thesis
  proof cases
    case 1
    then show ?thesis by (intro exI [of _ ?p]) (simp add: rt_visited_def rt_ends_def RTimerProc_body_def rt_due_def Let_def)
  next
    case 2
    then show ?thesis using i
      by (intro exI [of _ "?p\<lparr>rt_flag := TMAN_EMPTY\<rparr>"])
        (simp add: rt_visited_def rt_ends_def RTimerProc_body_def rt_due_def Let_def rtimer_advance_def put_rtimer_def StopRTimerP_def)
  next
    case 3
    then have "rt_good ?p" using e by (simp add: rt_entry_ok_def)
    then obtain p' where p': "rtimer_advance ?p timec = Some p'" "same_timer ?p p'" "rt_good p'" "timec < rt_tstart p'"
      using rtimer_advance_next [OF t 3(2)] 3(1) by (auto simp: rt_due_def)
    then have "rt_visited timec ?p p'" using 3 by (simp add: rt_visited_def rt_ends_def)
    then show ?thesis using 3 p'
      by (intro exI [of _ p'])
        (simp add: rt_ends_def RTimerProc_body_def rt_due_def Let_def put_rtimer_def same_timer_def)
  qed
qed

interpretation rt_walk: list_walk RTimerLinks "RTimerProc_body timec" for timec
  by unfold_locales (auto simp: RTimerProc_body_def StopRTimerP_def put_rtimer_def Let_def split: if_splits option.splits)

lemma RTimerProc_run:
  assumes t: "0 \<le> timec" "timec \<le> 1400000000"
  shows "distinct ys \<Longrightarrow> is_dlist (RTimerLinks st) (pre @ ys) \<Longrightarrow> set ys \<subseteq> slots rt_flag (RTimerBuffer st) \<Longrightarrow>
   (\<forall>i \<in> set ys. rt_entry_ok i (RTimerBuffer st ! i)) \<Longrightarrow>
   \<exists>st'. run_body (RTimerProc_body timec) ys st = Some st' \<and>
     is_dlist (RTimerLinks st') (pre @ filter (\<lambda>i. \<not> rt_ends timec (RTimerBuffer st ! i)) ys) \<and>
     length (RTimerBuffer st') = length (RTimerBuffer st) \<and>
     (\<forall>i. if i \<in> set ys then rt_visited timec (RTimerBuffer st ! i) (RTimerBuffer st' ! i)
          else RTimerBuffer st' ! i = RTimerBuffer st ! i) \<and>
     RTimerCalls st' = RTimerCalls st @ map (\<lambda>i. (rt_proc (RTimerBuffer st ! i), rt_arg (RTimerBuffer st ! i), timec))
       (filter (\<lambda>i. rt_due timec (RTimerBuffer st ! i)) ys)"
proof (induction ys arbitrary: st pre)
  case (Cons y ys)
  let ?p = "RTimerBuffer st ! y"
  have y: "y < length (RTimerBuffer st)" "rt_flag ?p \<noteq> TMAN_EMPTY" using Cons.prems(3) by (auto simp: slots_def)
  have e: "rt_entry_ok y ?p" using Cons.prems(4) by simp
  obtain p' where vis: "rt_visited timec ?p p'" and body: "RTimerProc_body timec y st = Some (st\<lparr>RTimerBuffer := (RTimerBuffer st)[y := p'],
      RTimerLinks := (if rt_ends timec ?p then dl_unlink y (RTimerLinks st) else RTimerLinks st),
      RTimerCalls := RTimerCalls st @ (if rt_due timec ?p then [(rt_proc ?p, rt_arg ?p, timec)] else [])\<rparr>)"
    using RTimerProc_body_ok [OF y e t] by blast
  define st1 where "st1 = st\<lparr>RTimerBuffer := (RTimerBuffer st)[y := p'],
      RTimerLinks := (if rt_ends timec ?p then dl_unlink y (RTimerLinks st) else RTimerLinks st),
      RTimerCalls := RTimerCalls st @ (if rt_due timec ?p then [(rt_proc ?p, rt_arg ?p, timec)] else [])\<rparr>"
  have b: "RTimerProc_body timec y st = Some st1" using body by (simp add: st1_def)
  define pre1 where "pre1 = (if rt_ends timec ?p then pre else pre @ [y])"
  have d1: "is_dlist (RTimerLinks st1) (pre1 @ ys)"
    using Cons.prems(2) is_dlist_unlink [of "RTimerLinks st" pre y ys] by (simp add: st1_def pre1_def)
  have ny: "\<And>i. i \<in> set ys \<Longrightarrow> i \<noteq> y" using Cons.prems(1) by auto
  have same: "j \<noteq> y \<Longrightarrow> RTimerBuffer st1 ! j = RTimerBuffer st ! j" for j by (simp add: st1_def)
  have sl: "set ys \<subseteq> slots rt_flag (RTimerBuffer st1)"
    using Cons.prems(1,3) by (auto simp: slots_def st1_def nth_list_update)
  have en: "\<forall>i \<in> set ys. rt_entry_ok i (RTimerBuffer st1 ! i)" using Cons.prems(4) same ny by simp
  from Cons.IH [OF _ d1 sl en] Cons.prems(1) obtain st' where st':
    "run_body (RTimerProc_body timec) ys st1 = Some st'"
    "is_dlist (RTimerLinks st') (pre1 @ filter (\<lambda>i. \<not> rt_ends timec (RTimerBuffer st1 ! i)) ys)"
    "length (RTimerBuffer st') = length (RTimerBuffer st1)"
    "\<forall>i. if i \<in> set ys then rt_visited timec (RTimerBuffer st1 ! i) (RTimerBuffer st' ! i)
          else RTimerBuffer st' ! i = RTimerBuffer st1 ! i"
    "RTimerCalls st' = RTimerCalls st1 @ map (\<lambda>i. (rt_proc (RTimerBuffer st1 ! i), rt_arg (RTimerBuffer st1 ! i), timec))
       (filter (\<lambda>i. rt_due timec (RTimerBuffer st1 ! i)) ys)" by auto
  have f: "filter (\<lambda>i. \<not> rt_ends timec (RTimerBuffer st1 ! i)) ys = filter (\<lambda>i. \<not> rt_ends timec (RTimerBuffer st ! i)) ys"
    "filter (\<lambda>i. rt_due timec (RTimerBuffer st1 ! i)) ys = filter (\<lambda>i. rt_due timec (RTimerBuffer st ! i)) ys"
    using same ny by (auto intro!: filter_cong)
  have m: "map (\<lambda>i. (rt_proc (RTimerBuffer st1 ! i), rt_arg (RTimerBuffer st1 ! i), timec)) (filter P ys) =
      map (\<lambda>i. (rt_proc (RTimerBuffer st ! i), rt_arg (RTimerBuffer st ! i), timec)) (filter P ys)" for P
    using same ny by (auto intro!: map_cong)
  have y1: "RTimerBuffer st1 ! y = p'" using y by (simp add: st1_def)
  have yy: "y \<notin> set ys" using Cons.prems(1) by simp
  show ?case
  proof (intro exI [of _ st'] conjI allI)
    show "run_body (RTimerProc_body timec) (y # ys) st = Some st'" using st'(1) b by simp
    show "is_dlist (RTimerLinks st') (pre @ filter (\<lambda>i. \<not> rt_ends timec (RTimerBuffer st ! i)) (y # ys))"
      using st'(2) f by (simp add: pre1_def split: if_splits)
    show "length (RTimerBuffer st') = length (RTimerBuffer st)" using st'(3) by (simp add: st1_def)
    show "if i \<in> set (y # ys) then rt_visited timec (RTimerBuffer st ! i) (RTimerBuffer st' ! i)
          else RTimerBuffer st' ! i = RTimerBuffer st ! i" for i
      using st'(4) [rule_format, of i] same [of i] vis y1 yy by (cases "i = y") auto
    show "RTimerCalls st' = RTimerCalls st @ map (\<lambda>i. (rt_proc (RTimerBuffer st ! i), rt_arg (RTimerBuffer st ! i), timec))
       (filter (\<lambda>i. rt_due timec (RTimerBuffer st ! i)) (y # ys))"
      using st'(5) f m by (simp add: st1_def)
  qed
qed simp

lemma rt_ok_length: "rt_ok st xs \<Longrightarrow> length xs \<le> MAX_RTIMER"
proof -
  assume ok: "rt_ok st xs"
  then have "length xs = card (set xs)" using distinct_card [of xs] by (simp add: rt_ok_def is_dlist_def)
  moreover have "set xs \<subseteq> {..<MAX_RTIMER}" using ok by (auto simp: rt_ok_def slots_def)
  then have "card (set xs) \<le> MAX_RTIMER" using card_mono [of "{..<MAX_RTIMER}"] by simp
  ultimately show ?thesis by simp
qed

lemma rt_visited_ok:
  assumes "rt_visited timec p p'" "rt_flag p \<noteq> TMAN_EMPTY" "rt_entry_ok i p"
  shows "rt_flag p' = TMAN_EMPTY \<longleftrightarrow> rt_ends timec p" "\<not> rt_ends timec p \<Longrightarrow> rt_entry_ok i p' \<and> timec < rt_tstart p'"
  using assms by (auto simp: rt_visited_def same_timer_def rt_entry_ok_def rt_due_def split: if_splits)

lemma RTimerProc_correct:
  assumes ok: "rt_ok st xs" and t: "0 \<le> timec" "timec \<le> 1400000000"
  shows "\<exists>st'. RTimerProc timec st = Some st' \<and>
     rt_ok st' (filter (\<lambda>i. \<not> rt_ends timec (RTimerBuffer st ! i)) xs) \<and>
     (\<forall>i. i \<in> set xs \<and> \<not> rt_ends timec (RTimerBuffer st ! i) \<longrightarrow> timec < rt_tstart (RTimerBuffer st' ! i)) \<and>
     RTimerCalls st' = RTimerCalls st @ map (\<lambda>i. (rt_proc (RTimerBuffer st ! i), rt_arg (RTimerBuffer st ! i), timec))
       (filter (\<lambda>i. rt_due timec (RTimerBuffer st ! i)) xs)"
proof -
  have d: "is_dlist (RTimerLinks st) xs" "distinct xs" "set xs = slots rt_flag (RTimerBuffer st)"
    "\<forall>i \<in> set xs. rt_entry_ok i (RTimerBuffer st ! i)"
    using ok by (simp_all add: rt_ok_def is_dlist_def)
  obtain st' where st': "run_body (RTimerProc_body timec) xs st = Some st'"
     "is_dlist (RTimerLinks st') (filter (\<lambda>i. \<not> rt_ends timec (RTimerBuffer st ! i)) xs)"
     "length (RTimerBuffer st') = length (RTimerBuffer st)"
     "\<forall>i. if i \<in> set xs then rt_visited timec (RTimerBuffer st ! i) (RTimerBuffer st' ! i)
          else RTimerBuffer st' ! i = RTimerBuffer st ! i"
     "RTimerCalls st' = RTimerCalls st @ map (\<lambda>i. (rt_proc (RTimerBuffer st ! i), rt_arg (RTimerBuffer st ! i), timec))
       (filter (\<lambda>i. rt_due timec (RTimerBuffer st ! i)) xs)"
    using RTimerProc_run [OF t d(2), of st "[]"] d by auto
  have run: "RTimerProc timec st = Some st'"
    using rt_walk.walk_all [OF d(1) rt_ok_length [OF ok], of timec] st'(1) by (simp add: RTimerProc_def)
  have vis: "rt_visited timec (RTimerBuffer st ! i) (RTimerBuffer st' ! i)" if "i \<in> set xs" for i
    using st'(4) that by auto
  have fl: "rt_flag (RTimerBuffer st ! i) \<noteq> TMAN_EMPTY" if "i \<in> set xs" for i using that d(3) by (simp add: slots_def)
  note v = rt_visited_ok [OF vis fl bspec [OF d(4)]]
  have s: "set (filter (\<lambda>i. \<not> rt_ends timec (RTimerBuffer st ! i)) xs) = slots rt_flag (RTimerBuffer st')"
  proof (rule set_eqI)
    fix i
    show "i \<in> set (filter (\<lambda>i. \<not> rt_ends timec (RTimerBuffer st ! i)) xs) \<longleftrightarrow> i \<in> slots rt_flag (RTimerBuffer st')"
    proof (cases "i \<in> set xs")
      case True
      then have "i < length (RTimerBuffer st')" using d(3) st'(3) by (simp add: slots_def)
      then show ?thesis using True v(1) [OF True True True] by (simp add: slots_def)
    next
      case False
      then have "RTimerBuffer st' ! i = RTimerBuffer st ! i" using st'(4) by auto
      then show ?thesis using False st'(3) d(3) by (auto simp: slots_def)
    qed
  qed
  have "\<forall>i \<in> set (filter (\<lambda>i. \<not> rt_ends timec (RTimerBuffer st ! i)) xs). rt_entry_ok i (RTimerBuffer st' ! i)"
    using v(2) by simp
  then have "rt_ok st' (filter (\<lambda>i. \<not> rt_ends timec (RTimerBuffer st ! i)) xs)"
    using ok st'(2,3) s by (auto simp: rt_ok_def)
  then show ?thesis using run st'(5) v(2) by blast
qed

lemma RTimerGetBase_bounds: "0 \<le> RTimerGetBase m c" "RTimerGetBase m c \<le> 23000000"
proof -
  have b: "0 \<le> uint x" "uint x \<le> 255" for x :: u8 using u8_le_255 by simp_all
  have d: "uint (c_day c - 1) \<le> 255" by (rule u8_le_255)
  show "0 \<le> RTimerGetBase m c" by (simp add: RTimerGetBase_def Let_def)
  have e: "(if x \<noteq> 0 then r + uint x * k else r) = r + uint x * k" for x :: u8 and r k :: int by auto
  have e2: "(if x \<noteq> 0 then r + uint x * k * l else r) = r + uint x * k * l" for x :: u8 and r k l :: int by auto
  define h where "h = (if uint m = UTIMEDEV_MINUTE \<or> uint m = UTIMEDEV_HOUR then 0 else c_hour c)"
  define dd where "dd = (if uint m = UTIMEDEV_MINUTE \<or> uint m = UTIMEDEV_HOUR \<or> uint m = UTIMEDEV_DAY then 0
                 else if c_day c \<noteq> 0 then c_day c - 1 else c_day c)"
  have "RTimerGetBase m c = uint dd * 1440 * 60 + uint h * 60 * 60 + uint (c_minute c) * 60"
    unfolding RTimerGetBase_def Let_def h_def [symmetric] dd_def [symmetric] e e2 by simp
  moreover have "uint dd \<le> 255" "uint h \<le> 255" "uint (c_minute c) \<le> 255" by (rule u8_le_255)+
  ultimately show "RTimerGetBase m c \<le> 23000000" by simp
qed

lemma rt_update_ok:
  assumes ok: "rt_ok st xs" and i: "i \<in> set xs" and "rt_flag p \<noteq> TMAN_EMPTY" "rt_entry_ok i p"
  shows "rt_ok (put_rtimer i p st) xs"
proof -
  have "i < length (RTimerBuffer st)" using ok i by (auto simp: rt_ok_def slots_def)
  then show ?thesis using assms unfolding rt_ok_def put_rtimer_def by (auto simp: slots_update nth_list_update)
qed

lemma RecalRTimerP_once:
  assumes "rt_bonce p \<noteq> 0"
  shows "\<exists>p'. RecalRTimerP p cur = Some p' \<and> same_timer p p'"
  using assms by (auto simp: RecalRTimerP_def Let_def same_timer_def)

lemma RecalRTimerP_ok:
  assumes ok: "rt_ok st xs" and i: "i \<in> set xs" and cur: "0 \<le> cur" "cur \<le> 1400000000"
  shows "\<exists>p'. RecalRTimerP (RTimerBuffer st ! i) cur = Some p' \<and> rt_ok (put_rtimer i p' st) xs"
proof -
  let ?p = "RTimerBuffer st ! i"
  have e: "rt_entry_ok i ?p" "rt_flag ?p \<noteq> TMAN_EMPTY" using ok i by (auto simp: rt_ok_def slots_def)
  obtain p' where p': "RecalRTimerP ?p cur = Some p'" "same_timer ?p p'" "rt_bonce ?p = 0 \<longrightarrow> rt_good p'"
  proof (cases "rt_bonce ?p = 0")
    case True
    then have "0 \<le> rt_basetime ?p" "rt_basetime ?p \<le> 23000000" using e by (auto simp: rt_entry_ok_def rt_good_def)
    then show ?thesis using RecalRTimerP_next [OF cur True] that by blast
  next
    case False
    then show ?thesis using RecalRTimerP_once [OF False, of cur] that by blast
  qed
  then have "rt_entry_ok i p'" "rt_flag p' \<noteq> TMAN_EMPTY" using e by (auto simp: rt_entry_ok_def same_timer_def)
  then show ?thesis using rt_update_ok [OF ok i] p'(1) by blast
qed

lemma SysAddRTimer_ok:
  assumes ok: "rt_ok st xs" and cur: "0 \<le> rc_curtime pc" "rc_curtime pc \<le> 1400000000"
  shows "\<exists>r. SysAddRTimer pc proc arg st = Some r \<and> (\<exists>ys. rt_ok (snd r) ys)"
proof (cases "rc_tdev pc = 0 \<or> uint (rc_tmod pc) > UTIMEDEV_MONTH \<or> find_empty rt_flag (RTimerBuffer st) 0 = None")
  case True
  then show ?thesis using ok by (auto simp: SysAddRTimer_def)
next
  case False
  then obtain i where f: "find_empty rt_flag (RTimerBuffer st) 0 = Some i" by auto
  have l: "length (RTimerBuffer st) = MAX_RTIMER" and dl: "is_dlist (RTimerLinks st) xs"
    and sx: "set xs = slots rt_flag (RTimerBuffer st)" using ok by (simp_all add: rt_ok_def)
  have i: "i < length (RTimerBuffer st)" "rt_flag (RTimerBuffer st ! i) = TMAN_EMPTY"
    using find_empty_Some [OF f] by auto
  then have ni: "i \<notin> set xs" using sx by (simp add: slots_def)
  define p where "p = (RTimerBuffer st ! i)\<lparr>rt_flag := TMAN_VALID, rt_proc := proc, rt_arg := arg, rt_bonce := rc_bonce pc\<rparr>"
  define r where "r = (if rc_bonce pc \<noteq> 0
                   then Some (p\<lparr>rt_dev := 1, rt_mod := 1, rt_tstart := rc_curtime pc\<rparr>)
                   else RecalRTimerP (p\<lparr>rt_dev := rc_tdev pc, rt_mod := rc_tmod pc,
                          rt_basetime := RTimerGetBase (rc_tmod pc) (rc_basetime pc)\<rparr>) (rc_curtime pc))"
  obtain p' where p': "r = Some p'" "rt_bonce p' \<noteq> 0 \<or> rt_good p'" "rt_flag p' = TMAN_VALID"
  proof (cases "rc_bonce pc = 0")
    case True
    then have "\<exists>p'. r = Some p' \<and> same_timer (p\<lparr>rt_dev := rc_tdev pc, rt_mod := rc_tmod pc,
                          rt_basetime := RTimerGetBase (rc_tmod pc) (rc_basetime pc)\<rparr>) p' \<and> rt_good p'"
      using RecalRTimerP_next [OF cur, of "p\<lparr>rt_dev := rc_tdev pc, rt_mod := rc_tmod pc,
                          rt_basetime := RTimerGetBase (rc_tmod pc) (rc_basetime pc)\<rparr>"]
      by (auto simp: r_def p_def RTimerGetBase_bounds)
    then show ?thesis using that by (auto simp: same_timer_def p_def)
  qed (auto simp: r_def p_def intro: that)
  define tid where "tid = (RTimerIdAddup st AND 0xffff) OR push_bit 16 (int i)"
  have "drop_bit 16 tid = int i" unfolding tid_def by (rule timer_id_slot)
  then have e: "rt_entry_ok i (p'\<lparr>rt_id := tid\<rparr>)" using p'(2) by (simp add: rt_entry_ok_def rt_good_def)
  define st' where "st' = st\<lparr>RTimerBuffer := (RTimerBuffer st)[i := p'\<lparr>rt_id := tid\<rparr>],
                       RTimerIdAddup := s32 (RTimerIdAddup st + 1), RTimerLinks := dl_append i (RTimerLinks st)\<rparr>"
  have "SysAddRTimer pc proc arg st = Some (tid, st')"
    using False f p'(1) unfolding SysAddRTimer_def r_def p_def st'_def tid_def
    by (simp add: Let_def)
  moreover have "rt_ok st' (xs @ [i])"
    using ok e i l ni p'(3) is_dlist_append [OF dl ni] unfolding rt_ok_def st'_def
    by (auto simp: slots_update nth_list_update)
  ultimately show ?thesis by auto
qed

lemma SysStopRTimer_ok:
  assumes ok: "rt_ok st xs"
  shows "\<exists>ys. rt_ok (SysStopRTimer tid st) ys"
proof -
  let ?i = "nat (drop_bit 16 tid)" and ?p = "RTimerBuffer st ! nat (drop_bit 16 tid)"
  have "rt_ok (st\<lparr>RTimerBuffer := (RTimerBuffer st)[?i := ?p\<lparr>rt_flag := TMAN_EMPTY\<rparr>],
       RTimerLinks := dl_unlink ?i (RTimerLinks st)\<rparr>) (filter (\<lambda>x. x \<noteq> ?i) xs)"
    if "?i < MAX_RTIMER" "rt_flag ?p \<noteq> TMAN_EMPTY"
  proof -
    have i: "?i \<in> set xs" "?i < length (RTimerBuffer st)" using ok that by (simp_all add: rt_ok_def slots_def)
    then show ?thesis using ok is_dlist_unlink_filter [OF _ i(1)] unfolding rt_ok_def by (auto simp: slots_update)
  qed
  moreover have "int MAX_RTIMER \<le> drop_bit 16 tid \<or> ?i < MAX_RTIMER" by (simp add: MAX_RTIMER_def) linarith
  ultimately show ?thesis using ok by (auto simp: SysStopRTimer_def Let_def)
qed

lemma SysRecalRTimer_ok:
  assumes ok: "rt_ok st xs" and cur: "0 \<le> cur" "cur \<le> 1400000000"
  shows "\<exists>st'. SysRecalRTimer tid cur st = Some st' \<and> rt_ok st' xs"
proof -
  let ?i = "nat (drop_bit 16 tid)" and ?p = "RTimerBuffer st ! nat (drop_bit 16 tid)"
  have "int MAX_RTIMER \<le> drop_bit 16 tid \<or> ?i < MAX_RTIMER" by (simp add: MAX_RTIMER_def) linarith
  moreover have "?i < MAX_RTIMER \<Longrightarrow> rt_flag ?p \<noteq> TMAN_EMPTY \<Longrightarrow> ?i \<in> set xs"
    using ok by (simp add: rt_ok_def slots_def)
  ultimately show ?thesis using ok RecalRTimerP_ok [OF ok _ cur, of ?i] by (auto simp: SysRecalRTimer_def Let_def)
qed

lemma run_body_inv:
  "(\<And>i st. i \<in> X \<Longrightarrow> I st \<Longrightarrow> \<exists>st'. body i st = Some st' \<and> I st') \<Longrightarrow> set ys \<subseteq> X \<Longrightarrow> I st \<Longrightarrow>
   \<exists>st'. run_body body ys st = Some st' \<and> I st'"
proof (induction ys arbitrary: st)
  case (Cons y ys)
  then obtain st1 where "body y st = Some st1" "I st1" by fastforce
  then show ?case using Cons by auto
qed simp

interpretation recal_walk: list_walk RTimerLinks "RecalAll_body utime" for utime
  by unfold_locales (auto simp: RecalAll_body_def put_rtimer_def Let_def split: if_splits)

lemma SysRecalAllRTimer_ok:
  assumes ok: "rt_ok st xs" and cur: "0 \<le> cur" "cur \<le> 1400000000"
  shows "\<exists>st'. SysRecalAllRTimer cur st = Some st' \<and> rt_ok st' xs"
proof -
  have "\<exists>st'. run_body (RecalAll_body cur) xs st = Some st' \<and> rt_ok st' xs"
  proof (rule run_body_inv [of "set xs" "\<lambda>st. rt_ok st xs"])
    fix i s assume i: "i \<in> set xs" "rt_ok s xs"
    then show "\<exists>s'. RecalAll_body cur i s = Some s' \<and> rt_ok s' xs"
      using RecalRTimerP_ok [OF i(2,1) cur] by (auto simp: RecalAll_body_def Let_def)
  qed (use ok in auto)
  moreover have d: "is_dlist (RTimerLinks st) xs" using ok by (simp add: rt_ok_def)
  ultimately show ?thesis
    using recal_walk.walk_all [OF d rt_ok_length [OF ok], of cur] by (simp add: SysRecalAllRTimer_def)
qed

lemma rt_reach_ok: "rt_reach st \<Longrightarrow> \<exists>xs. rt_ok st xs"
proof (induction rule: rt_reach.induct)
  case (rt_init rt ct)
  then have "rt_ok (snd (SysTimerInit_lists ct rt)) []"
    by (auto simp: rt_ok_def SysTimerInit_lists_def is_dlist_init slots_def)
  then show ?case ..
next
  case (rt_add st pc proc arg tid st')
  then show ?case using SysAddRTimer_ok [of st _ pc proc arg] by auto
next
  case (rt_stop st tid)
  then show ?case using SysStopRTimer_ok by blast
next
  case (rt_recal st cur tid st')
  then obtain xs where "rt_ok st xs" by blast
  from SysRecalRTimer_ok [OF this rt_recal.hyps(2,3), of tid] show ?case using rt_recal.hyps(4) by auto
next
  case (rt_recal_all st cur st')
  then obtain xs where "rt_ok st xs" by blast
  from SysRecalAllRTimer_ok [OF this rt_recal_all.hyps(2,3)] show ?case using rt_recal_all.hyps(4) by auto
next
  case (rt_proc st cur st')
  then obtain xs where "rt_ok st xs" by blast
  from RTimerProc_correct [OF this rt_proc.hyps(2,3)] show ?case using rt_proc.hyps(4) by auto
qed

lemma empty_rtimers_reach: "rt_reach empty_rtimers"
proof -
  have "empty_rtimers = snd (SysTimerInit_lists ct empty_rtimers)" for ct
    by (simp add: SysTimerInit_lists_def empty_rtimers_def free_rtman_def TMAN_EMPTY_def map_replicate_const dl_init_def)
  moreover have "length (RTimerBuffer empty_rtimers) = MAX_RTIMER" by (simp add: empty_rtimers_def)
  ultimately show ?thesis by (metis rt_init)
qed

definition ct_call :: "ctimers \<Rightarrow> nat \<Rightarrow> u32 \<times> u32" where
  "ct_call st i = (ct_proc (CTimerBuffer st ! i), ct_arg (CTimerBuffer st ! i))"

text \<open>The rounds from now in which the timer of an entry is called: its count goes on from where it stands.\<close>

definition ct_period :: "ctimers \<Rightarrow> nat \<Rightarrow> nat \<Rightarrow> bool" where
  "ct_period st i k \<longleftrightarrow> unat (ct_dev (CTimerBuffer st ! i)) dvd unat (ct_cnt (CTimerBuffer st ! i)) + k"

text \<open>An entry after some rounds.\<close>

definition ct_after :: "ctman_t \<Rightarrow> nat \<Rightarrow> ctman_t \<Rightarrow> bool" where
  "ct_after p n q \<longleftrightarrow> ct_dev q = ct_dev p \<and> ct_proc q = ct_proc p \<and> ct_arg q = ct_arg p \<and>
     unat (ct_cnt q) = (unat (ct_cnt p) + n) mod unat (ct_dev p)"

lemma ct_after_fires:
  assumes "ct_after p n q" "0 < unat (ct_dev p)"
  shows "ct_fires q \<longleftrightarrow> unat (ct_dev p) dvd unat (ct_cnt p) + Suc n" "ct_after p (Suc n) (ct_tick (\<lambda>_ _. 0) q)"
proof -
  let ?d = "unat (ct_dev p)" and ?m = "unat (ct_cnt p) + n"
  have q: "ct_dev q = ct_dev p" "unat (ct_cnt q) = ?m mod ?d" using assms(1) by (simp_all add: ct_after_def)
  have lt: "?m mod ?d < ?d" using assms(2) by simp
  have b: "?m mod ?d + 1 < 4294967296" using lt unat_u32_lt [of "ct_dev p"] by linarith
  have u: "unat (ct_cnt q + 1) = ?m mod ?d + 1" using b by (simp add: unat_word_ariths q(2))
  have "ct_fires q \<longleftrightarrow> ?d \<le> ?m mod ?d + 1" by (simp add: ct_fires_def word_le_nat_alt q(1) u)
  also have "\<dots> \<longleftrightarrow> Suc (?m mod ?d) = ?d" using lt by linarith
  also have "\<dots> \<longleftrightarrow> ?d dvd unat (ct_cnt p) + Suc n" using assms(2) by (simp add: dvd_eq_mod_eq_0 mod_Suc)
  finally show f: "ct_fires q \<longleftrightarrow> ?d dvd unat (ct_cnt p) + Suc n" .
  have ns: "\<not> ct_stops (\<lambda>_ _. 0) q" by (simp add: ct_stops_def)
  show "ct_after p (Suc n) (ct_tick (\<lambda>_ _. 0) q)"
    using assms(1) f u assms(2) by (auto simp: ct_after_def ct_tick_def ns dvd_eq_mod_eq_0 mod_Suc)
qed

lemma CTimer_rounds_calls:
  assumes ok: "ct_ok st xs"
  shows "\<exists>st'. CTimer_rounds (\<lambda>_ _. 0) n st = Some st' \<and> ct_ok st' xs \<and>
    (\<forall>i \<in> set xs. ct_after (CTimerBuffer st ! i) n (CTimerBuffer st' ! i)) \<and>
    CTimerCalls st' = CTimerCalls st @ concat (map (\<lambda>k. map (ct_call st) (filter (\<lambda>i. ct_period st i k) xs)) [1..<Suc n])"
proof (induction n)
  case 0
  have "ct_entry_ok i (CTimerBuffer st ! i)" if "i \<in> set xs" for i using ok that by (simp add: ct_ok_def)
  then show ?case using ok by (auto simp: ct_after_def ct_entry_ok_def word_less_nat_alt)
next
  case (Suc n)
  then obtain s where s: "CTimer_rounds (\<lambda>_ _. 0) n st = Some s" "ct_ok s xs"
    "\<And>i. i \<in> set xs \<Longrightarrow> ct_after (CTimerBuffer st ! i) n (CTimerBuffer s ! i)"
    "CTimerCalls s = CTimerCalls st @ concat (map (\<lambda>k. map (ct_call st) (filter (\<lambda>i. ct_period st i k) xs)) [1..<Suc n])" by blast
  have ns: "\<not> ct_stops (\<lambda>_ _. 0) p" for p by (simp add: ct_stops_def)
  obtain s' where s': "CTimerProc (\<lambda>_ _. 0) s = Some s'" "ct_ok s' xs"
    "\<And>i. i \<in> set xs \<Longrightarrow> CTimerBuffer s' ! i = ct_tick (\<lambda>_ _. 0) (CTimerBuffer s ! i)"
    "CTimerCalls s' = CTimerCalls s @ map (ct_call s) (filter (\<lambda>i. ct_fires (CTimerBuffer s ! i)) xs)"
    using CTimerProc_correct [OF s(2), of "\<lambda>_ _. 0"] ns by (auto simp: ct_call_def [abs_def])
  have d0: "0 < unat (ct_dev (CTimerBuffer st ! i))" if "i \<in> set xs" for i
  proof -
    have "ct_entry_ok i (CTimerBuffer st ! i)" using ok that by (simp add: ct_ok_def)
    then show ?thesis by (simp add: ct_entry_ok_def word_less_nat_alt)
  qed
  have f: "ct_fires (CTimerBuffer s ! i) = ct_period st i (Suc n)" "ct_after (CTimerBuffer st ! i) (Suc n) (CTimerBuffer s' ! i)"
    if "i \<in> set xs" for i
    using ct_after_fires [OF s(3) [OF that] d0 [OF that]] s'(3) [OF that] by (simp_all add: ct_period_def)
  have "map (ct_call s) (filter (\<lambda>i. ct_fires (CTimerBuffer s ! i)) xs) = map (ct_call st) (filter (\<lambda>i. ct_period st i (Suc n)) xs)"
    using f(1) s(3) by (auto simp: ct_call_def ct_after_def intro!: map_cong filter_cong)
  then show ?case using s s' f(2) by simp
qed

subsection \<open>Properties\<close>

text \<open>C8: In every state the cyclic timers can reach, the list threads exactly the entries in use and every
  entry has the id of its slot and a count below its period; so the walk of the timer task ends.\<close>

theorem CTimers_reachable:
  assumes "ct_reach st"
  shows "(\<exists>xs. is_dlist (CTimerLinks st) xs \<and> set xs = slots ct_flag (CTimerBuffer st) \<and>
      (\<forall>i \<in> set xs. ct_entry_ok i (CTimerBuffer st ! i))) \<and>
    (\<forall>run. \<exists>st'. CTimerProc run st = Some st')"
  using ct_reach_ok [OF assms] CTimerProc_correct unfolding ct_ok_def by blast

theorem CTimers_reachable_witness:
  "\<exists>st'. CTimerProc (\<lambda>_ _. 0) (snd (SysAddCTimer 5 1 2 empty_ctimers)) = Some st'"
  using CTimers_reachable [OF ct_add [OF empty_ctimers_reach, of 5 1 2]] by simp

text \<open>Stopping a cyclic timer by the id that adding it returned removes exactly that timer; any id that no
  entry has, such as one of an earlier use of a slot, removes nothing.\<close>

theorem SysStopCTimer_exact:
  assumes ok: "ct_ok st xs" and dev: "0 < dev" "dev \<le> 2147483647" and room: "length xs < MAX_CTIMER"
    and add: "SysAddCTimer dev proc arg st = (cid, st')"
  shows "(\<exists>i. ct_ok st' (xs @ [i])) \<and> ct_ok (SysStopCTimer cid st') xs \<and>
    (\<forall>other. (\<forall>i \<in> set xs. ct_id (CTimerBuffer st ! i) \<noteq> other) \<and> other \<noteq> cid \<longrightarrow>
       (\<exists>i. ct_ok (SysStopCTimer other st') (xs @ [i])))"
proof -
  obtain i where i: "cid = (CTimerIdAddup st AND 0xffff) OR push_bit 16 (int i)" "i \<notin> set xs" "ct_ok st' (xs @ [i])"
    "ct_id (CTimerBuffer st' ! i) = cid" "\<forall>j. j \<noteq> i \<longrightarrow> CTimerBuffer st' ! j = CTimerBuffer st ! j"
    using SysAddCTimer_ok [OF ok dev, of proc arg] room add by auto
  have slot: "drop_bit 16 cid = int i" unfolding i(1) by (rule timer_id_slot)
  have "filter (\<lambda>j. \<not> (j = nat (drop_bit 16 cid) \<and> ct_id (CTimerBuffer st' ! j) = cid)) (xs @ [i]) = xs"
    using i(2,4) slot by (auto intro!: filter_True)
  then have "ct_ok (SysStopCTimer cid st') xs" using SysStopCTimer_ok [OF i(3), of cid] by simp
  moreover have "ct_ok (SysStopCTimer other st') (xs @ [i])"
    if "\<forall>i \<in> set xs. ct_id (CTimerBuffer st ! i) \<noteq> other" "other \<noteq> cid" for other
  proof -
    have "filter (\<lambda>j. \<not> (j = nat (drop_bit 16 other) \<and> ct_id (CTimerBuffer st' ! j) = other)) (xs @ [i]) = xs @ [i]"
      using that i by (intro filter_True) auto
    then show ?thesis using SysStopCTimer_ok [OF i(3), of other] by simp
  qed
  ultimately show ?thesis using i(3) by blast
qed

theorem SysStopCTimer_exact_witness:
  "ct_ok (SysStopCTimer (fst (SysAddCTimer 5 1 2 empty_ctimers)) (snd (SysAddCTimer 5 1 2 empty_ctimers))) []"
proof -
  have "ct_ok empty_ctimers []"
    by (auto simp: ct_ok_def empty_ctimers_def is_dlist_init slots_def free_ctman_def TMAN_EMPTY_def)
  from SysStopCTimer_exact [OF this, of 5 1 2] show ?thesis by (auto simp: MAX_CTIMER_def)
qed

text \<open>C28: in any number of calls of \<open>CTimerProc\<close>, every cyclic timer that nobody stops is called with its argument in each round its period ends
  and in no other, the timers of one round in the order of the list: the log of the calls is exactly this one. (The task of the
  timers makes at most one such call, see \<open>SysTimerTask_stuck\<close>.)\<close>

theorem CTimer_period:
  assumes "ct_ok st xs"
  shows "\<exists>st'. CTimer_rounds (\<lambda>_ _. 0) n st = Some st' \<and> ct_ok st' xs \<and>
    CTimerCalls st' = CTimerCalls st @
      concat (map (\<lambda>k. map (\<lambda>i. (ct_proc (CTimerBuffer st ! i), ct_arg (CTimerBuffer st ! i)))
        (filter (\<lambda>i. unat (ct_dev (CTimerBuffer st ! i)) dvd unat (ct_cnt (CTimerBuffer st ! i)) + k) xs)) [1..<Suc n])"
  using CTimer_rounds_calls [OF assms, of n] unfolding ct_call_def [abs_def] ct_period_def by blast

theorem CTimer_period_witness:
  "\<exists>st'. CTimer_rounds (\<lambda>_ _. 0) 12 (snd (SysAddCTimer 5 1 2 empty_ctimers)) = Some st' \<and> CTimerCalls st' = [(1, 2), (1, 2)]"
proof -
  let ?s = "snd (SysAddCTimer 5 1 2 empty_ctimers)"
  have s: "SysAddCTimer 5 1 2 empty_ctimers = (0, ?s)" "CTimerBuffer ?s ! 0 = \<lparr>ct_id = 0, ct_proc = 1, ct_arg = 2, ct_dev = 5, ct_cnt = 0, ct_flag = 1\<rparr>"
    "CTimerCalls ?s = []"
    by (simp_all add: SysAddCTimer_def empty_ctimers_def MAX_CTIMER_def free_ctman_def TMAN_EMPTY_def TMAN_VALID_def numeral_eq_Suc Let_def)
  obtain i where i: "fst (SysAddCTimer 5 1 2 empty_ctimers) = (CTimerIdAddup empty_ctimers AND 0xffff) OR push_bit 16 (int i)" "ct_ok ?s ([] @ [i])"
    using SysAddCTimer_ok [OF empty_ctimers_ok, of 5 1 2] by (auto simp: MAX_CTIMER_def)
  have "drop_bit 16 (fst (SysAddCTimer 5 1 2 empty_ctimers)) = int i" unfolding i(1) by (rule timer_id_slot)
  then have "i = 0" by (subst (asm) s(1)) simp
  then have ok: "ct_ok ?s [0]" using i(2) by simp
  have u: "[1..<Suc 12] = [1, 2, 3, 4, 5, 6, 7, 8, 9, 10, 11, 12]" by (simp add: upt_rec)
  from CTimer_period [OF ok, of 12] show ?thesis unfolding u by (auto simp: s(2,3))
qed

text \<open>C29: From every state the clock timers can reach, and any time before 2044, \<open>RTimerProc\<close> returns (its inner
  loops end within their fuel), calls every due timer exactly once, in the order of the list, and leaves only timers
  that start after the current time.\<close>

theorem RTimerProc_reachable:
  assumes "rt_reach st" and t: "0 \<le> timec" "timec \<le> 1400000000"
  shows "\<exists>st' xs. RTimerProc timec st = Some st' \<and>
    (\<forall>i \<in> slots rt_flag (RTimerBuffer st'). timec < rt_tstart (RTimerBuffer st' ! i)) \<and>
    distinct xs \<and> set xs = slots rt_flag (RTimerBuffer st) \<and>
    RTimerCalls st' = RTimerCalls st @
      map (\<lambda>i. (rt_proc (RTimerBuffer st ! i), rt_arg (RTimerBuffer st ! i), timec))
        (filter (\<lambda>i. rt_due timec (RTimerBuffer st ! i)) xs)"
proof -
  obtain xs where ok: "rt_ok st xs" using rt_reach_ok [OF assms(1)] by blast
  obtain st' where st': "RTimerProc timec st = Some st'"
    "rt_ok st' (filter (\<lambda>i. \<not> rt_ends timec (RTimerBuffer st ! i)) xs)"
    "\<forall>i. i \<in> set xs \<and> \<not> rt_ends timec (RTimerBuffer st ! i) \<longrightarrow> timec < rt_tstart (RTimerBuffer st' ! i)"
    "RTimerCalls st' = RTimerCalls st @ map (\<lambda>i. (rt_proc (RTimerBuffer st ! i), rt_arg (RTimerBuffer st ! i), timec))
       (filter (\<lambda>i. rt_due timec (RTimerBuffer st ! i)) xs)"
    using RTimerProc_correct [OF ok t] by blast
  have "\<forall>i \<in> slots rt_flag (RTimerBuffer st'). timec < rt_tstart (RTimerBuffer st' ! i)"
    using st'(2,3) by (auto simp: rt_ok_def)
  moreover have "distinct xs" "set xs = slots rt_flag (RTimerBuffer st)" using ok by (simp_all add: rt_ok_def is_dlist_def)
  ultimately show ?thesis using st'(1,4) by blast
qed

theorem RTimerProc_reachable_witness:
  "\<exists>tid st st'. SysAddRTimer example_conf 1 2 empty_rtimers = Some (tid, st) \<and> RTimerProc 549594000 st = Some st' \<and>
    (\<forall>i \<in> slots rt_flag (RTimerBuffer st'). 549594000 < rt_tstart (RTimerBuffer st' ! i))"
proof -
  obtain xs where ok: "rt_ok empty_rtimers xs" using rt_reach_ok [OF empty_rtimers_reach] by blast
  have c: "0 \<le> rc_curtime example_conf" "rc_curtime example_conf \<le> 1400000000" by (simp_all add: example_conf_def)
  obtain tid st where a: "SysAddRTimer example_conf 1 2 empty_rtimers = Some (tid, st)"
    using SysAddRTimer_ok [OF ok c, of 1 2] by auto
  from RTimerProc_reachable [OF rt_add [OF empty_rtimers_reach c a], of 549594000] a show ?thesis by auto
qed

text \<open>After one round of the timer task the cyclic timers and the watchdog are never served again, because
  nothing changes \<open>SysJiffies\<close>.\<close>

theorem SysTimerTask_stuck:
  assumes "SysTimerTask_round run tm1 tm2 t = Some t1" "SysTimerTask_loop run ts t1 = Some t2"
  shows "ctimers t2 = ctimers t1 \<and> watchdog_fed t2 = watchdog_fed t1"
proof -
  have round: "SysJiffies s' = SysJiffies s \<and> bakJiffies s' = SysJiffies s \<and>
      (bakJiffies s = SysJiffies s \<longrightarrow> ctimers s' = ctimers s \<and> watchdog_fed s' = watchdog_fed s)"
    if "SysTimerTask_round run a b s = Some s'" for s s' a b
    using that by (auto simp: SysTimerTask_round_def Let_def split: if_splits option.splits prod.splits)
  have "SysTimerTask_loop run ts s = Some s2 \<Longrightarrow> bakJiffies s = SysJiffies s \<Longrightarrow>
      ctimers s2 = ctimers s \<and> watchdog_fed s2 = watchdog_fed s" for s s2
  proof (induction ts arbitrary: s)
    case (Cons x ts)
    obtain a b where x: "x = (a, b)" by (cases x)
    obtain s' where s': "SysTimerTask_round run a b s = Some s'" "SysTimerTask_loop run ts s' = Some s2"
      using Cons.prems(1) x by (auto split: option.splits)
    show ?case using Cons.IH [OF s'(2)] round [OF s'(1)] Cons.prems(2) by simp
  qed simp
  then show ?thesis using assms round [OF assms(1)] by simp
qed

theorem SysTimerTask_stuck_witness:
  "\<forall>tm1 tm2. \<exists>t1 t2. SysTimerTask_round (\<lambda>_ _. 0) tm1 tm2 example_task = Some t1 \<and>
     SysTimerTask_loop (\<lambda>_ _. 0) [(tm1, tm2)] t1 = Some t2 \<and> ctimers t2 = ctimers t1"
proof (intro allI)
  fix tm1 tm2
  have c: "CTimerProc (\<lambda>_ _. 0) empty_ctimers = Some empty_ctimers"
    by (simp add: CTimerProc_def empty_ctimers_def dl_init_def)
  obtain t1 where t1: "SysTimerTask_round (\<lambda>_ _. 0) tm1 tm2 example_task = Some t1"
    and c1: "countRtimer t1 = 1" "bakJiffies t1 = SysJiffies t1"
    using c by (simp add: SysTimerTask_round_def example_task_def Let_def)
  obtain t2 where t2: "SysTimerTask_loop (\<lambda>_ _. 0) [(tm1, tm2)] t1 = Some t2"
    using c1 by (simp add: SysTimerTask_round_def Let_def)
  show "\<exists>t1 t2. SysTimerTask_round (\<lambda>_ _. 0) tm1 tm2 example_task = Some t1 \<and>
     SysTimerTask_loop (\<lambda>_ _. 0) [(tm1, tm2)] t1 = Some t2 \<and> ctimers t2 = ctimers t1"
    using SysTimerTask_stuck [OF t1 t2] t1 t2 by blast
qed

end
