(* ===== verification/Storage.thy ===== *)
theory Storage
  imports Crc
begin

text \<open>
  The checked files of \<open>sys/storage\<close>: whole records (\<open>bin.c\<close>), files of items
  (\<open>grpbin.c\<close>) and the sectors of the flat memory (\<open>flat.c\<close>). A file is its bytes; the
  file system is a map from names to files, with a predicate for the names that can be opened
  for writing. The rest of a file behind its position is what \<open>fread\<close> still finds;
  \<open>fread(p, n, 1, f)\<close> succeeds when \<open>n\<close> bytes are left. \<open>malloc\<close> is taken to succeed. The
  locale \<open>record_store\<close> is what the parameters, the alarms and the running state rely on.
\<close>

subsection \<open>Files\<close>

record fs =
  files :: "string \<Rightarrow> bytes option"
  can_write :: "string \<Rightarrow> bool"

definition fs_remove :: "string \<Rightarrow> fs \<Rightarrow> fs" where
  "fs_remove file s = s\<lparr>files := (files s)(file := None)\<rparr>"

definition fs_write :: "string \<Rightarrow> bytes \<Rightarrow> fs \<Rightarrow> fs" where
  "fs_write file bs s = s\<lparr>files := (files s)(file := Some bs)\<rparr>"

definition fread1 :: "nat \<Rightarrow> bytes \<Rightarrow> (bytes \<times> bytes) option" where
  "fread1 n rest = (if n \<le> length rest then Some (take n rest, drop n rest) else None)"

subsection \<open>Records\<close>

definition MAX_FILELEN :: int where "MAX_FILELEN = 0x400000"

definition MAX_MEMLEN :: int where "MAX_MEMLEN = 0x10000"

text \<open>The head of a file, 12 bytes in memory order.\<close>

record bin_filehead_t =
  bh_headcrc :: u16
  bh_datacrc :: u16
  bh_magic :: u32
  bh_len :: int

definition bin_head_tail :: "bin_filehead_t \<Rightarrow> bytes" where
  "bin_head_tail h = le16 (bh_datacrc h) @ le32 (bh_magic h) @ le32 (word_of_int (bh_len h))"

definition bin_head_bytes :: "bin_filehead_t \<Rightarrow> bytes" where
  "bin_head_bytes h = le16 (bh_headcrc h) @ bin_head_tail h"

fun bin_head_of :: "bytes \<Rightarrow> bin_filehead_t option" where
  "bin_head_of [a0, a1, b0, b1, m0, m1, m2, m3, l0, l1, l2, l3] =
     Some \<lparr>bh_headcrc = u16_of a0 a1, bh_datacrc = u16_of b0 b1, bh_magic = u32_of m0 m1 m2 m3,
           bh_len = sint (u32_of l0 l1 l2 l3)\<rparr>"
| "bin_head_of _ = None"

definition SaveBinFile :: "string \<Rightarrow> u32 \<Rightarrow> bytes \<Rightarrow> fs \<Rightarrow> int \<times> fs" where
  "SaveBinFile file magic buffer s =
     (let len = int (length buffer) in
      if len \<le> 0 \<or> MAX_FILELEN < len then (1, s)
      else
        let head = \<lparr>bh_headcrc = 0, bh_datacrc = CalculateCRC buffer, bh_magic = magic, bh_len = len\<rparr>;
            head = head\<lparr>bh_headcrc := CalculateCRC (bin_head_tail head)\<rparr>;
            s = fs_remove file s
        in if \<not> can_write s file then (1, s)
           else (0, fs_write file (bin_head_bytes head @ buffer) s))"

text \<open>The checksum loop reads the data in pieces of at most \<open>MAX_MEMLEN\<close> bytes and leaves the
  last piece in \<open>memcache\<close>. The fuel bounds the number of pieces; every piece has at least one
  byte, so the number of bytes is enough.\<close>

fun bin_crc_loop :: "nat \<Rightarrow> int \<Rightarrow> int \<Rightarrow> u16 \<Rightarrow> bytes \<Rightarrow> bytes \<Rightarrow> (u16 \<times> bytes) option" where
  "bin_crc_loop fuel filelen memlen crc memcache rest =
     (if filelen \<le> 0 then Some (crc, memcache)
      else case fuel of
        0 \<Rightarrow> None
      | Suc n \<Rightarrow>
          (case fread1 (nat memlen) rest of
             None \<Rightarrow> None
           | Some (piece, rest) \<Rightarrow>
               let crc = CalculateCRCStep piece crc;
                   filelen = filelen - memlen;
                   memlen = (if 0 < filelen \<and> filelen < memlen then filelen else memlen)
               in bin_crc_loop n filelen memlen crc piece rest))"

declare bin_crc_loop.simps [simp del]

definition ReadBinFile :: "string \<Rightarrow> u32 \<Rightarrow> int \<Rightarrow> fs \<Rightarrow> bytes option" where
  "ReadBinFile file magic len s =
     (if len \<le> 0 \<or> MAX_FILELEN < len then None
      else case files s file of
        None \<Rightarrow> None
      | Some content \<Rightarrow>
        (case fread1 12 content of
           None \<Rightarrow> None
         | Some (hb, rest) \<Rightarrow>
           (case bin_head_of hb of
              None \<Rightarrow> None
            | Some head \<Rightarrow>
                if bh_magic head \<noteq> magic then None
                else if bh_len head \<le> 0 \<or> MAX_FILELEN < bh_len head then None
                else if bh_headcrc head \<noteq> CalculateCRC (bin_head_tail head) then None
                else
                  let memlen = (if MAX_MEMLEN < bh_len head then MAX_MEMLEN else bh_len head) in
                  (case bin_crc_loop (nat (bh_len head)) (bh_len head) memlen 0 [] rest of
                     None \<Rightarrow> None
                   | Some (crc, memcache) \<Rightarrow>
                       if bh_datacrc head \<noteq> crc then None
                       else
                         let len = (if bh_len head < len then bh_len head else len) in
                         if MAX_MEMLEN < bh_len head then map_option fst (fread1 (nat len) rest)
                         else Some (take (nat len) memcache)))))"

text \<open>\<open>ReadBinFileCache\<close> reads the data straight into the caller's buffer, which must hold all of
  it.\<close>

definition ReadBinFileCache :: "string \<Rightarrow> u32 \<Rightarrow> int \<Rightarrow> fs \<Rightarrow> bytes option" where
  "ReadBinFileCache file magic len s =
     (if len \<le> 0 \<or> MAX_FILELEN < len then None
      else case files s file of
        None \<Rightarrow> None
      | Some content \<Rightarrow>
        (case fread1 12 content of
           None \<Rightarrow> None
         | Some (hb, rest) \<Rightarrow>
           (case bin_head_of hb of
              None \<Rightarrow> None
            | Some head \<Rightarrow>
                if bh_magic head \<noteq> magic then None
                else if bh_len head \<le> 0 \<or> len < bh_len head then None
                else if bh_headcrc head \<noteq> CalculateCRC (bin_head_tail head) then None
                else
                  (case fread1 (nat (bh_len head)) rest of
                     None \<Rightarrow> None
                   | Some (buffer, _) \<Rightarrow>
                       if bh_datacrc head \<noteq> CalculateCRC buffer then None else Some buffer))))"

subsection \<open>Files of items\<close>

record grpbin_filehead_t =
  gh_headcrc :: u16
  gh_reserv :: u16
  gh_magic :: u32
  gh_itemlen :: u16
  gh_itemnum :: u16

definition grp_head_tail :: "grpbin_filehead_t \<Rightarrow> bytes" where
  "grp_head_tail h = le16 (gh_reserv h) @ le32 (gh_magic h) @ le16 (gh_itemlen h) @ le16 (gh_itemnum h)"

definition grp_head_bytes :: "grpbin_filehead_t \<Rightarrow> bytes" where
  "grp_head_bytes h = le16 (gh_headcrc h) @ grp_head_tail h"

fun grp_head_of :: "bytes \<Rightarrow> grpbin_filehead_t option" where
  "grp_head_of [a0, a1, r0, r1, m0, m1, m2, m3, l0, l1, n0, n1] =
     Some \<lparr>gh_headcrc = u16_of a0 a1, gh_reserv = u16_of r0 r1, gh_magic = u32_of m0 m1 m2 m3,
           gh_itemlen = u16_of l0 l1, gh_itemnum = u16_of n0 n1\<rparr>"
| "grp_head_of _ = None"

text \<open>An open file: for reading, the bytes left; for writing, the bytes written so far, which
  reach the file system when it is closed.\<close>

record grpbin_ref_t =
  gr_file :: string
  gr_data :: bytes
  gr_itemlen :: int
  gr_itemnum :: int
  gr_crctemp :: u16
  gr_flag :: char

text \<open>The check of the tail walks the file in pieces of 32 bytes, in the two halves of a cache
  of 64 bytes, because the two checksum bytes may be the last ones of a piece that was already
  added up. \<open>this\<close> and \<open>other\<close> are the half to be read into and the other one.\<close>

fun grp_tail_ok :: "nat \<Rightarrow> u16 \<Rightarrow> u16 \<Rightarrow> nat \<Rightarrow> bytes \<Rightarrow> bytes \<Rightarrow> bool" where
  "grp_tail_ok 0 temp crc readlen other rest = False"
| "grp_tail_ok (Suc fuel) temp crc readlen other rest =
     (let piece = take 32 rest; rtn = length piece in
      if rtn < 32 then
        if rtn < 2 then
          (if readlen = 0 then False
           else CalculateCRCStep (take 30 other) crc = u16_of (other ! 30) (other ! 31))
        else CalculateCRCStep (take (rtn - 2) piece) temp = u16_of (piece ! (rtn - 2)) (piece ! (rtn - 1))
      else grp_tail_ok fuel (CalculateCRCStep piece temp) temp (readlen + 32) piece (drop 32 rest))"

definition OpenGrpBinFile_read :: "string \<Rightarrow> u32 \<Rightarrow> grpbin_ref_t \<Rightarrow> fs \<Rightarrow> grpbin_ref_t option" where
  "OpenGrpBinFile_read file magic pref s =
     (case files s file of
        None \<Rightarrow> None
      | Some content \<Rightarrow>
        (case fread1 12 content of
           None \<Rightarrow> None
         | Some (hb, rest) \<Rightarrow>
           (case grp_head_of hb of
              None \<Rightarrow> None
            | Some head \<Rightarrow>
                if gh_magic head \<noteq> magic then None
                else if gh_itemlen head AND 0x01 \<noteq> 0 then None
                else if gh_headcrc head \<noteq> CalculateCRC (grp_head_tail head) then None
                else if \<not> grp_tail_ok (Suc (length rest)) 0 0 0 [] rest then None
                else Some (pref\<lparr>gr_file := file, gr_flag := CHR ''r'', gr_data := rest,
                       gr_itemlen := uint (gh_itemlen head), gr_itemnum := uint (gh_itemnum head)\<rparr>))))"

definition OpenGrpBinFile_write :: "string \<Rightarrow> u32 \<Rightarrow> grpbin_ref_t \<Rightarrow> fs \<Rightarrow> grpbin_ref_t option \<times> fs" where
  "OpenGrpBinFile_write file magic pref s =
     (if gr_itemlen pref \<le> 0 \<or> 0xffff < gr_itemlen pref \<or> gr_itemlen pref AND 0x01 \<noteq> 0 then (None, s)
      else if gr_itemnum pref \<le> 0 \<or> 0xffff < gr_itemnum pref then (None, s)
      else
        let s = fs_remove file s in
        if \<not> can_write s file then (None, s)
        else
          let head = \<lparr>gh_headcrc = 0, gh_reserv = 0, gh_magic = magic, gh_itemlen = word_of_int (gr_itemlen pref),
                       gh_itemnum = word_of_int (gr_itemnum pref)\<rparr>;
              head = head\<lparr>gh_headcrc := CalculateCRC (grp_head_tail head)\<rparr>
          in (Some (pref\<lparr>gr_file := file, gr_flag := CHR ''w'', gr_crctemp := 0, gr_data := grp_head_bytes head\<rparr>),
              fs_write file [] s))"

definition OpenGrpBinFile :: "string \<Rightarrow> u32 \<Rightarrow> char \<Rightarrow> grpbin_ref_t \<Rightarrow> fs \<Rightarrow> grpbin_ref_t option \<times> fs" where
  "OpenGrpBinFile file magic flag pref s =
     (if flag = CHR ''r'' then (OpenGrpBinFile_read file magic pref s, s)
      else if flag = CHR ''w'' then OpenGrpBinFile_write file magic pref s
      else (Some (pref\<lparr>gr_flag := flag\<rparr>), s))"

fun ReadGrpBinFile_loop :: "nat \<Rightarrow> nat \<Rightarrow> bytes \<Rightarrow> (bytes \<times> bytes) option" where
  "ReadGrpBinFile_loop 0 itemlen rest = None"
| "ReadGrpBinFile_loop (Suc fuel) itemlen rest =
     (case fread1 2 rest of
        Some ([c0, c1], rest) \<Rightarrow>
          (case fread1 itemlen rest of
             None \<Rightarrow> None
           | Some (buffer, rest) \<Rightarrow>
               if u16_of c0 c1 = CalculateCRC buffer then Some (buffer, rest)
               else ReadGrpBinFile_loop fuel itemlen rest)
      | _ \<Rightarrow> None)"

text \<open>\<open>None\<close> is the answer -1; a file that is shorter than an item leaves no item to read.\<close>

definition ReadGrpBinFileItem :: "grpbin_ref_t \<Rightarrow> int \<Rightarrow> bytes option \<times> grpbin_ref_t" where
  "ReadGrpBinFileItem pref len =
     (if len < gr_itemlen pref then (None, pref)
      else case ReadGrpBinFile_loop (Suc (length (gr_data pref))) (nat (gr_itemlen pref)) (gr_data pref) of
        None \<Rightarrow> (None, pref\<lparr>gr_data := []\<rparr>)
      | Some (buffer, rest) \<Rightarrow> (Some buffer, pref\<lparr>gr_data := rest\<rparr>))"

definition WriteGrpBinFileItem :: "grpbin_ref_t \<Rightarrow> bytes \<Rightarrow> grpbin_ref_t" where
  "WriteGrpBinFileItem pref buffer =
     (let item = take (nat (gr_itemlen pref)) buffer;
          crc = CalculateCRC item;
          t = CalculateCRCStep (le16 crc) (gr_crctemp pref);
          t = CalculateCRCStep item t
      in pref\<lparr>gr_crctemp := t, gr_data := gr_data pref @ le16 crc @ item\<rparr>)"

definition CloseGrpBinFile :: "grpbin_ref_t \<Rightarrow> fs \<Rightarrow> fs" where
  "CloseGrpBinFile pref s =
     (if gr_flag pref = CHR ''w'' then fs_write (gr_file pref) (gr_data pref @ le16 (gr_crctemp pref)) s else s)"

subsection \<open>The flat memory\<close>

definition FLAT_MAGIC :: u16 where "FLAT_MAGIC = 0x39a6"

definition SectorConfig :: "(nat \<times> nat \<times> nat) list" where
  "SectorConfig = [(0, 0, 1024), (1, 1024, 256), (2, 1280, 512)]"

definition REC_DATASIZE :: "nat \<Rightarrow> int" where
  "REC_DATASIZE sector = int (snd (snd (SectorConfig ! sector))) - 4"

definition ValidRecord :: "bytes \<Rightarrow> int" where
  "ValidRecord buf =
     (case buf of
        m0 # m1 # c0 # c1 # data \<Rightarrow>
          if u16_of m0 m1 \<noteq> FLAT_MAGIC then
            (if u16_of m0 m1 = 0xffff \<and> u16_of c0 c1 = 0xffff
             then (if list_all (\<lambda>b. b = 0xff) data then - 1 else 0) else 0)
          else if CalculateCRC data \<noteq> u16_of c0 c1 then 0 else 1
      | _ \<Rightarrow> 0)"

text \<open>The driver is the map from sectors to their bytes; its \<open>read\<close> returns at most what the
  sector holds. The limit of a record is unsigned, so a negative length is over it. The flat file is not open (\<open>FlatFid\<close> is never set, its \<open>open\<close> is commented out)
  when \<open>fid\<close> is negative.\<close>

definition ReadFlatFile :: "int \<Rightarrow> (nat \<Rightarrow> bytes) \<Rightarrow> nat \<Rightarrow> int \<Rightarrow> (int \<times> bytes) option" where
  "ReadFlatFile fid dev sector len =
     (if fid < 0 then None
      else if 3 \<le> sector then None
      else if len < 0 \<or> REC_DATASIZE sector < len then None
      else
        let rdlen = nat (len + 4);
            got = take rdlen (dev sector);
            memcache = got @ replicate (rdlen - length got) 0
        in if ValidRecord memcache \<noteq> 1 \<or> length got < 4 then None
           else Some (int (length got) - 4, take (nat len) (drop 4 memcache)))"

definition WriteFlatFile :: "int \<Rightarrow> nat \<Rightarrow> bytes \<Rightarrow> (nat \<Rightarrow> bytes) \<Rightarrow> int \<times> (nat \<Rightarrow> bytes)" where
  "WriteFlatFile fid sector buf dev =
     (if fid < 0 then (- 1, dev)
      else if 3 \<le> sector then (- 1, dev)
      else if buf = [] then (- 1, dev)
      else if REC_DATASIZE sector < int (length buf) then (- 1, dev)
      else
        let rec = le16 FLAT_MAGIC @ le16 (CalculateCRC buf) @ buf
        in (int (length rec), dev(sector := rec @ drop (length rec) (dev sector))))"

subsection \<open>Specification\<close>

text \<open>What the check of the tail accepts, for the even lengths the writer produces.\<close>

definition grp_tail_spec :: "bytes \<Rightarrow> bool" where
  "grp_tail_spec w \<longleftrightarrow> 2 \<le> length w \<and> CalculateCRC (take (length w - 2) w) = u16_of (w ! (length w - 2)) (w ! (length w - 1))"

definition item_bytes :: "bytes \<Rightarrow> bytes" where
  "item_bytes item = le16 (CalculateCRC item) @ item"

text \<open>Reading \<open>n\<close> items one after the other.\<close>

fun read_items :: "nat \<Rightarrow> grpbin_ref_t \<Rightarrow> int \<Rightarrow> bytes option list \<times> grpbin_ref_t" where
  "read_items 0 p len = ([], p)"
| "read_items (Suc n) p len =
     (let (r, p) = ReadGrpBinFileItem p len; (rs, p) = read_items n p len in (r # rs, p))"

subsection \<open>Lemmas\<close>

lemma le16_u16_of [simp]: "le16 (u16_of a b) = [a, b]"
  by (simp add: le16_def)

lemma u16_of_inject [simp]: "u16_of a b = u16_of c d \<longleftrightarrow> a = c \<and> b = d"
  by (metis lo8_u16_of hi8_u16_of)

lemma bit_u32_of:
  "bit (u32_of a b c d) n \<longleftrightarrow> (if n < 8 then bit a n else if n < 16 then bit b (n - 8)
     else if n < 24 then bit c (n - 16) else bit d (n - 24))"
  unfolding u32_of_def by (auto simp: bit_simps dest: bit_imp_le_length)

lemma le32_u32_of [simp]: "le32 (u32_of a b c d) = [a, b, c, d]"
  unfolding le32_def
  by (auto intro!: bit_word_eqI simp: bit_u32_of bit_simps)

lemma le32_nth: "le32 w = [ucast w, ucast (drop_bit 8 w), ucast (drop_bit 16 w), ucast (drop_bit 24 w)]"
  by (rule le32_def)

lemma bin_head_roundtrip:
  assumes "0 \<le> bh_len h" "bh_len h \<le> 2147483647"
  shows "bin_head_of (bin_head_bytes h) = Some h"
proof -
  have "sint (word_of_int (bh_len h) :: u32) = bh_len h"
    using assms by (simp add: signed_of_int signed_take_bit_int_eq_self)
  then show ?thesis
    unfolding bin_head_bytes_def bin_head_tail_def le16_def le32_def by simp
qed

lemma length_bin_head_bytes [simp]: "length (bin_head_bytes h) = 12"
  by (simp add: bin_head_bytes_def bin_head_tail_def)

lemma bin_head_of_Some: "bin_head_of bs = Some h \<Longrightarrow> bin_head_bytes h = bs"
  by (cases bs rule: bin_head_of.cases) (auto simp: bin_head_bytes_def bin_head_tail_def)

lemma bin_head_of_12: "length bs = 12 \<Longrightarrow> \<exists>h. bin_head_of bs = Some h"
  by (auto simp: numeral_eq_Suc length_Suc_conv)

lemma bin_crc_loop_reads:
  "0 < memlen \<Longrightarrow> memlen \<le> filelen \<Longrightarrow> nat filelen \<le> length rest \<Longrightarrow> nat filelen \<le> fuel \<Longrightarrow>
   \<exists>mc. bin_crc_loop fuel filelen memlen crc mc0 rest = Some (crc_loop crc (take (nat filelen) rest), mc) \<and>
     (memlen = filelen \<longrightarrow> mc = take (nat filelen) rest)"
proof (induction fuel arbitrary: filelen memlen crc mc0 rest)
  case (Suc fuel)
  let ?f = "filelen - memlen" and ?piece = "take (nat memlen) rest" and ?rest = "drop (nat memlen) rest"
  define m where "m = (if 0 < ?f \<and> ?f < memlen then ?f else memlen)"
  have rd: "fread1 (nat memlen) rest = Some (?piece, ?rest)"
    using Suc.prems by (simp add: fread1_def)
  have step: "bin_crc_loop (Suc fuel) filelen memlen crc mc0 rest =
      bin_crc_loop fuel ?f m (crc_loop crc ?piece) ?piece ?rest"
    using Suc.prems rd by (subst bin_crc_loop.simps) (simp add: m_def CalculateCRCStep_loop Let_def)
  show ?case
  proof (cases "?f = 0")
    case True
    then have "bin_crc_loop fuel ?f m (crc_loop crc ?piece) ?piece ?rest = Some (crc_loop crc ?piece, ?piece)"
      by (subst bin_crc_loop.simps) simp
    then show ?thesis using step True by simp
  next
    case False
    then have f: "0 < ?f" using Suc.prems by simp
    have n: "nat filelen = nat memlen + nat ?f" using Suc.prems f by simp
    have "0 < m" "m \<le> ?f" "nat ?f \<le> length ?rest" "nat ?f \<le> fuel" using Suc.prems f n by (auto simp: m_def) linarith+
    from Suc.IH [OF this, of "crc_loop crc ?piece" ?piece] obtain mc where
      "bin_crc_loop fuel ?f m (crc_loop crc ?piece) ?piece ?rest =
         Some (crc_loop (crc_loop crc ?piece) (take (nat ?f) ?rest), mc)" by blast
    moreover have "take (nat filelen) rest = ?piece @ take (nat ?f) ?rest" unfolding n by (simp add: take_add)
    ultimately show ?thesis using step False by (simp add: crc_loop_append)
  qed
qed simp

lemma bin_crc_loop_Some:
  "0 < memlen \<Longrightarrow> memlen \<le> filelen \<Longrightarrow> bin_crc_loop fuel filelen memlen crc mc0 rest = Some r \<Longrightarrow>
   nat filelen \<le> length rest"
proof (induction fuel arbitrary: filelen memlen crc mc0 rest)
  case 0
  then show ?case by (subst (asm) bin_crc_loop.simps) simp
next
  case (Suc fuel)
  let ?f = "filelen - memlen"
  have l: "nat memlen \<le> length rest"
    using Suc.prems by (subst (asm) bin_crc_loop.simps) (auto simp: fread1_def split: if_splits)
  show ?case
  proof (cases "?f = 0")
    case True then show ?thesis using l by simp
  next
    case False
    define m where "m = (if 0 < ?f \<and> ?f < memlen then ?f else memlen)"
    have r: "bin_crc_loop fuel ?f m (crc_loop crc (take (nat memlen) rest)) (take (nat memlen) rest) (drop (nat memlen) rest) = Some r"
      using Suc.prems l by (subst (asm) bin_crc_loop.simps) (auto simp: fread1_def m_def CalculateCRCStep_loop Let_def split: if_splits)
    have "0 < m" "m \<le> ?f" using False Suc.prems by (auto simp: m_def)
    from Suc.IH [OF this r] show ?thesis using l Suc.prems by simp
  qed
qed

text \<open>What a successful read says about the file.\<close>

lemma ReadBinFile_Some:
  assumes "ReadBinFile file magic len s = Some bs" "files s file = Some c"
  shows "\<exists>h. 12 \<le> length c \<and> bin_head_of (take 12 c) = Some h \<and> bh_magic h = magic \<and> 0 < bh_len h \<and>
    bh_headcrc h = CalculateCRC (bin_head_tail h) \<and> nat (bh_len h) \<le> length c - 12 \<and>
    bh_datacrc h = CalculateCRC (take (nat (bh_len h)) (drop 12 c))"
proof -
  obtain h where h: "12 \<le> length c" "bin_head_of (take 12 c) = Some h" "bh_magic h = magic" "0 < bh_len h"
    "bh_headcrc h = CalculateCRC (bin_head_tail h)"
    using assms by (auto simp: ReadBinFile_def fread1_def not_le split: if_splits option.splits)
  define m where "m = (if MAX_MEMLEN < bh_len h then MAX_MEMLEN else bh_len h)"
  have m: "0 < m" "m \<le> bh_len h" using h(4) by (auto simp: m_def MAX_MEMLEN_def)
  obtain crc mc where l: "bin_crc_loop (nat (bh_len h)) (bh_len h) m 0 [] (drop 12 c) = Some (crc, mc)" "bh_datacrc h = crc"
    using assms h by (auto simp: ReadBinFile_def fread1_def Let_def m_def split: if_splits option.splits)
  note len = bin_crc_loop_Some [OF m l(1)]
  have "crc = crc_loop 0 (take (nat (bh_len h)) (drop 12 c))"
    using bin_crc_loop_reads [OF m len le_refl, of 0 "[]"] l(1) by auto
  then show ?thesis using h l(2) len by (auto simp: CalculateCRC_loop)
qed

lemma SaveBinFile_Ok:
  assumes "SaveBinFile file magic buf s = (0, s')"
  shows "\<exists>h. files s' = (files s)(file := Some (bin_head_bytes h @ buf)) \<and> bh_magic h = magic \<and>
    bh_len h = int (length buf) \<and> 0 < length buf \<and> int (length buf) \<le> MAX_FILELEN \<and>
    bh_headcrc h = CalculateCRC (bin_head_tail h) \<and> bh_datacrc h = CalculateCRC buf"
proof -
  define h0 where "h0 = \<lparr>bh_headcrc = 0, bh_datacrc = CalculateCRC buf, bh_magic = magic, bh_len = int (length buf)\<rparr>"
  define h where "h = h0\<lparr>bh_headcrc := CalculateCRC (bin_head_tail h0)\<rparr>"
  have t: "bin_head_tail h = bin_head_tail h0" by (simp add: h_def bin_head_tail_def)
  have "s' = fs_write file (bin_head_bytes h @ buf) (fs_remove file s)" "0 < length buf" "int (length buf) \<le> MAX_FILELEN"
    using assms by (auto simp: SaveBinFile_def Let_def h_def h0_def split: if_splits)
  then show ?thesis
    by (intro exI [of _ h]) (auto simp: fs_write_def fs_remove_def t h_def h0_def bin_head_tail_def)
qed

lemma ReadBinFile_saved:
  assumes c: "files s' file = Some (bin_head_bytes h @ buf)" and h: "bh_magic h = magic"
    "bh_len h = int (length buf)" "0 < length buf" "int (length buf) \<le> MAX_FILELEN"
    "bh_headcrc h = CalculateCRC (bin_head_tail h)" "bh_datacrc h = CalculateCRC buf"
    and n: "0 < n" "n \<le> MAX_FILELEN"
  shows "ReadBinFile file magic n s' = Some (take (nat n) buf)"
    "int (length buf) \<le> n \<Longrightarrow> ReadBinFileCache file magic n s' = Some buf"
proof -
  have hd: "bin_head_of (bin_head_bytes h) = Some h"
    using h by (intro bin_head_roundtrip) (simp_all add: MAX_FILELEN_def)
  have rd: "fread1 12 (bin_head_bytes h @ buf) = Some (bin_head_bytes h, buf)" by (simp add: fread1_def)
  define m where "m = (if MAX_MEMLEN < bh_len h then MAX_MEMLEN else bh_len h)"
  have m: "0 < m" "m \<le> bh_len h" using h by (auto simp: m_def MAX_MEMLEN_def)
  obtain mc where l: "bin_crc_loop (nat (bh_len h)) (bh_len h) m 0 [] buf = Some (crc_loop 0 buf, mc)"
    "m = bh_len h \<longrightarrow> mc = buf"
    using bin_crc_loop_reads [OF m, of buf "nat (bh_len h)" 0 "[]"] h by auto
  show "ReadBinFile file magic n s' = Some (take (nat n) buf)"
    using c h n hd rd l unfolding ReadBinFile_def m_def
    by (auto simp: CalculateCRC_loop Let_def fread1_def min_def MAX_MEMLEN_def split: if_splits)
  show "int (length buf) \<le> n \<Longrightarrow> ReadBinFileCache file magic n s' = Some buf"
    using c h n hd rd unfolding ReadBinFileCache_def by (auto simp: fread1_def)
qed

text \<open>What the records of the parameters, the alarms and the running state need from the files
  that hold them.\<close>

locale record_store =
  fixes save :: "string \<Rightarrow> u32 \<Rightarrow> bytes \<Rightarrow> 's \<Rightarrow> int \<times> 's"
    and load :: "string \<Rightarrow> u32 \<Rightarrow> int \<Rightarrow> 's \<Rightarrow> bytes option"
    and limit :: int
  assumes load_saved: "save f m b s = (0, s') \<Longrightarrow> 0 < n \<Longrightarrow> n \<le> limit \<Longrightarrow> load f m n s' = Some (take (nat n) b)"
    and load_magic: "save f m b s = (0, s') \<Longrightarrow> m' \<noteq> m \<Longrightarrow> load f m' n s' = None"
    and load_other: "g \<noteq> f \<Longrightarrow> load g m n (snd (save f m' b s)) = load g m n s"
begin

lemma load_whole: "save f m b s = (0, s') \<Longrightarrow> int (length b) \<le> limit \<Longrightarrow> b \<noteq> [] \<Longrightarrow> load f m (int (length b)) s' = Some b"
  by (simp add: load_saved)

lemma load_others: "list_all (\<lambda>(g, m', b). f \<noteq> g) ws \<Longrightarrow>
   load f m n (fold (\<lambda>(g, m', b) s. snd (save g m' b s)) ws s) = load f m n s"
  by (induction ws arbitrary: s) (auto simp: load_other)

lemma load_saved_others:
  "save f m b s = (0, s') \<Longrightarrow> int (length b) \<le> limit \<Longrightarrow> b \<noteq> [] \<Longrightarrow> list_all (\<lambda>(g, m', b). f \<noteq> g) ws \<Longrightarrow>
   load f m (int (length b)) (fold (\<lambda>(g, m', b) s. snd (save g m' b s)) ws s') = Some b"
  by (simp add: load_others load_whole)

end

lemma SaveBinFile_other: "g \<noteq> f \<Longrightarrow> files (snd (SaveBinFile f m b s)) g = files s g"
  by (simp add: SaveBinFile_def Let_def fs_remove_def fs_write_def)

lemma SaveBinFile_ReadBinFile:
  assumes "SaveBinFile f m b s = (0, s')"
  shows "0 < n \<Longrightarrow> n \<le> MAX_FILELEN \<Longrightarrow> ReadBinFile f m n s' = Some (take (nat n) b)"
    and "int (length b) \<le> n \<Longrightarrow> n \<le> MAX_FILELEN \<Longrightarrow> ReadBinFileCache f m n s' = Some b"
    and "m' \<noteq> m \<Longrightarrow> ReadBinFile f m' n s' = None"
proof -
  obtain h where h: "files s' = (files s)(f := Some (bin_head_bytes h @ b))" "bh_magic h = m"
    "bh_len h = int (length b)" "0 < length b" "int (length b) \<le> MAX_FILELEN"
    "bh_headcrc h = CalculateCRC (bin_head_tail h)" "bh_datacrc h = CalculateCRC b"
    using SaveBinFile_Ok [OF assms] by blast
  then have f: "files s' f = Some (bin_head_bytes h @ b)" by simp
  note r = ReadBinFile_saved [OF f h(2-7)]
  show "0 < n \<Longrightarrow> n \<le> MAX_FILELEN \<Longrightarrow> ReadBinFile f m n s' = Some (take (nat n) b)" by (rule r)
  show "int (length b) \<le> n \<Longrightarrow> n \<le> MAX_FILELEN \<Longrightarrow> ReadBinFileCache f m n s' = Some b"
    using h(4) r(2) by (metis length_greater_0_conv of_nat_0_less_iff order_less_le_trans)
  have hd: "bin_head_of (bin_head_bytes h) = Some h"
    using h by (intro bin_head_roundtrip) (simp_all add: MAX_FILELEN_def)
  show "m' \<noteq> m \<Longrightarrow> ReadBinFile f m' n s' = None"
    using f hd h(2) by (simp add: ReadBinFile_def fread1_def)
qed

lemma ReadBinFile_files: "files s f = files t f \<Longrightarrow> ReadBinFile f m n s = ReadBinFile f m n t"
  by (simp add: ReadBinFile_def)

interpretation bin: record_store SaveBinFile ReadBinFile MAX_FILELEN
  by unfold_locales
    (simp_all add: SaveBinFile_ReadBinFile(1,3) ReadBinFile_files [OF SaveBinFile_other])

lemma bin_head_bytes_parts:
  "take 2 (bin_head_bytes h) = le16 (bh_headcrc h)" "drop 2 (bin_head_bytes h) = bin_head_tail h"
  by (simp_all add: bin_head_bytes_def)

lemma CalculateCRC_update:
  "i < length bs \<Longrightarrow> v \<noteq> bs ! i \<Longrightarrow> CalculateCRC bs = CalculateCRC (bs[i := v]) \<Longrightarrow> False"
  using CalculateCRC_change [of i bs v] by simp

lemma grp_tail_ok_spec:
  "length rest < 32 * fuel \<Longrightarrow> even (length rest) \<Longrightarrow> 
   (pre = [] \<and> readlen = 0 \<or> (\<exists>p. pre = p @ other \<and> length other = 32 \<and> crc = crc_loop 0 p \<and> readlen \<noteq> 0)) \<Longrightarrow>
   temp = crc_loop 0 pre \<Longrightarrow>
   grp_tail_ok fuel temp crc readlen other rest \<longleftrightarrow> grp_tail_spec (pre @ rest)"
proof (induction fuel arbitrary: temp crc readlen other rest pre)
  case (Suc fuel)
  show ?case
  proof (cases "length rest < 32")
    case False
    have "grp_tail_ok fuel (crc_loop temp (take 32 rest)) temp (readlen + 32) (take 32 rest) (drop 32 rest)
      \<longleftrightarrow> grp_tail_spec ((pre @ take 32 rest) @ drop 32 rest)"
      using Suc.prems False by (intro Suc.IH) (auto simp: crc_loop_append)
    then show ?thesis using False by (simp add: CalculateCRCStep_loop)
  next
    case True
    show ?thesis
    proof (cases "rest = []")
      case nil: True
      show ?thesis
      proof (cases "readlen = 0")
        case z: True
        then show ?thesis using Suc.prems nil by (auto simp: grp_tail_spec_def)
      next
        case False
        then obtain p where p: "pre = p @ other" "length other = 32" "crc = crc_loop 0 p" using Suc.prems by auto
        then show ?thesis using nil False
          by (simp add: grp_tail_spec_def CalculateCRCStep_loop CalculateCRC_loop crc_loop_append nth_append)
      qed
    next
      case False
      then have n: "2 \<le> length rest" using Suc.prems(2) by (cases rest) (auto simp: Suc_le_eq)
      obtain d a b where r: "rest = d @ [a, b]"
        using n by (metis (no_types, opaque_lifting) append_butlast_last_id append_assoc append_Cons append_Nil butlast.simps(1) length_butlast Suc_le_eq One_nat_def diff_is_0_eq le_zero_eq list.size(3) not_less_eq_eq numeral_2_eq_2)
      then show ?thesis using True Suc.prems(4)
        by (simp add: grp_tail_spec_def CalculateCRCStep_loop CalculateCRC_loop crc_loop_append nth_append Let_def)
    qed
  qed
qed simp

lemma WriteGrpBinFileItem_fold:
  "list_all (\<lambda>x. int (length x) = gr_itemlen p) items \<Longrightarrow>
   fold (\<lambda>x p. WriteGrpBinFileItem p x) items p =
     p\<lparr>gr_crctemp := crc_loop (gr_crctemp p) (concat (map item_bytes items)), gr_data := gr_data p @ concat (map item_bytes items)\<rparr>"
  by (induction items arbitrary: p)
    (auto simp: WriteGrpBinFileItem_def item_bytes_def Let_def CalculateCRCStep_loop crc_loop_append)

lemma ReadGrpBinFile_loop_item:
  "length x = n \<Longrightarrow> ReadGrpBinFile_loop (Suc k) n (item_bytes x @ rest) = Some (x, rest)"
  by (simp add: item_bytes_def fread1_def le16_def)

lemma ReadGrpBinFileItem_item:
  "int (length x) = gr_itemlen p \<Longrightarrow> gr_data p = item_bytes x @ rest \<Longrightarrow> gr_itemlen p \<le> len \<Longrightarrow>
   ReadGrpBinFileItem p len = (Some x, p\<lparr>gr_data := rest\<rparr>)"
  by (auto simp: ReadGrpBinFileItem_def ReadGrpBinFile_loop_item simp del: ReadGrpBinFile_loop.simps)

lemma ReadGrpBinFile_loop_tail: "n \<noteq> 0 \<Longrightarrow> length r = 2 \<Longrightarrow> ReadGrpBinFile_loop (Suc k) n r = None"
  by (auto simp: fread1_def numeral_eq_Suc length_Suc_conv)

lemma read_items_written:
  "list_all (\<lambda>x. int (length x) = gr_itemlen p) items \<Longrightarrow> gr_data p = concat (map item_bytes items) @ rest \<Longrightarrow>
   gr_itemlen p \<le> len \<Longrightarrow> read_items (length items) p len = (map Some items, p\<lparr>gr_data := rest\<rparr>)"
  by (induction items arbitrary: p) (auto simp: ReadGrpBinFileItem_item)

lemma grp_head_roundtrip [simp]: "grp_head_of (grp_head_bytes h) = Some h"
  unfolding grp_head_bytes_def grp_head_tail_def le16_def le32_def by simp

lemma length_grp_head_bytes [simp]: "length (grp_head_bytes h) = 12"
  by (simp add: grp_head_bytes_def grp_head_tail_def)

lemma even_item_data: "list_all (\<lambda>x. even (length x)) items \<Longrightarrow> even (length (concat (map item_bytes items)))"
  by (induction items) (auto simp: item_bytes_def)

lemma grp_tail_of_data: "grp_tail_spec (d @ le16 (crc_loop 0 d))"
  by (simp add: grp_tail_spec_def CalculateCRC_loop le16_def nth_append)

lemma even_of_int_u16: "even (word_of_int i :: u16) \<longleftrightarrow> even i"
proof -
  have "bit (word_of_int i :: u16) 0 \<longleftrightarrow> bit i 0" by (simp only: bit_of_int_iff) simp
  then show ?thesis by (simp add: bit_0)
qed

lemma and_1_zero: "(a :: 'a :: semiring_bit_operations) AND 1 = 0 \<longleftrightarrow> even a"
  by (simp add: and_one_eq even_iff_mod_2_eq_zero)

lemma even_length_items: "list_all (\<lambda>x. int (length x) = il) items \<Longrightarrow> even il \<Longrightarrow> list_all (\<lambda>x. even (length x)) items"
  by (induction items) auto

subsection \<open>Properties\<close>

text \<open>A record saved with \<open>SaveBinFile\<close> is what \<open>ReadBinFile\<close> reads back under the same magic number, and
  nothing is read under another one, whatever other files are saved in between.\<close>

theorem BinFile_roundtrip:
  assumes "SaveBinFile f m b s = (0, s')" "list_all (\<lambda>(g, m', b'). f \<noteq> g) ws"
    "s'' = fold (\<lambda>(g, m', b') s. snd (SaveBinFile g m' b' s)) ws s'"
  shows "ReadBinFile f m (int (length b)) s'' = Some b \<and>
    (n \<noteq> m \<longrightarrow> ReadBinFile f n (int (length b)) s'' = None)"
proof -
  have "int (length b) \<le> MAX_FILELEN \<and> b \<noteq> []" using SaveBinFile_Ok [OF assms(1)] by auto
  then show ?thesis
    using bin.load_saved_others [OF assms(1) _ _ assms(2)] bin.load_magic [OF assms(1)]
      bin.load_others [OF assms(2)] unfolding assms(3) by auto
qed

theorem BinFile_roundtrip_witness:
  "ReadBinFile ''a'' 7 3 (snd (SaveBinFile ''b'' 8 [9]
     (snd (SaveBinFile ''a'' 7 [1, 2, 3] \<lparr>files = \<lambda>_. None, can_write = \<lambda>_. True\<rparr>)))) = Some [1, 2, 3]"
proof -
  let ?s = "\<lparr>files = \<lambda>_. None, can_write = \<lambda>_. True\<rparr> :: fs"
  have "SaveBinFile ''a'' 7 [1, 2, 3] ?s = (0, snd (SaveBinFile ''a'' 7 [1, 2, 3] ?s))"
    by (simp add: SaveBinFile_def MAX_FILELEN_def fs_remove_def Let_def)
  from BinFile_roundtrip [OF this, of "[(''b'', 8, [9])]" _ 0] show ?thesis by simp
qed

text \<open>C26: when any one byte of a saved file, of its head or of its data, has changed to another value,
  \<open>ReadBinFile\<close> refuses the file, whatever length and data the damaged head announces.\<close>

theorem BinFile_corruption:
  assumes sv: "SaveBinFile f m b s = (0, s')" and c: "files s' f = Some c" and i: "i < length c" and v: "v \<noteq> c ! i"
  shows "ReadBinFile f m n (fs_write f (c[i := v]) s') = None"
proof (rule ccontr)
  assume "ReadBinFile f m n (fs_write f (c[i := v]) s') \<noteq> None"
  then obtain bs where bs: "ReadBinFile f m n (fs_write f (c[i := v]) s') = Some bs" by auto
  obtain h where h: "c = bin_head_bytes h @ b" "bh_len h = int (length b)" "bh_headcrc h = CalculateCRC (bin_head_tail h)"
      "bh_datacrc h = CalculateCRC b" "0 < length b" "int (length b) \<le> MAX_FILELEN"
    using SaveBinFile_Ok [OF sv] c by auto
  obtain g where g: "bin_head_of (take 12 (c[i := v])) = Some g" "bh_headcrc g = CalculateCRC (bin_head_tail g)"
      "bh_datacrc g = CalculateCRC (take (nat (bh_len g)) (drop 12 (c[i := v])))"
    using ReadBinFile_Some [OF bs, of "c[i := v]"] by (auto simp: fs_write_def)
  note gb = bin_head_of_Some [OF g(1)]
  have gc: "le16 (bh_headcrc g) = take 2 (take 12 (c[i := v]))" and gt: "bin_head_tail g = drop 2 (take 12 (c[i := v]))"
    by (simp_all flip: gb add: bin_head_bytes_parts)
  consider "i < 2" | "2 \<le> i" "i < 12" | "12 \<le> i" by linarith
  then show False
  proof cases
    case 1
    have "bin_head_tail g = drop 2 (bin_head_bytes h)" using 1 by (simp add: gt h(1) list_update_append drop_update_cancel)
    then have "bin_head_tail g = bin_head_tail h" by (simp add: bin_head_bytes_parts)
    then have "take 2 (c[i := v]) = take 2 c" using gc g(2) h(3) by (simp add: h(1) bin_head_bytes_parts)
    then have "(take 2 (c[i := v])) ! i = (take 2 c) ! i" by simp
    then show False using 1 i v by simp
  next
    case 2
    have "bin_head_tail g = (bin_head_tail h)[i - 2 := v]"
      using 2 by (simp add: gt h(1) list_update_append drop_update_swap bin_head_bytes_parts)
    moreover have "le16 (bh_headcrc g) = le16 (bh_headcrc h)" using 2 by (simp add: gc h(1) bin_head_bytes_parts)
    then have "bh_headcrc g = bh_headcrc h" by (simp add: le16_def) (metis u16_of_lo_hi)
    moreover have "Suc (Suc (i - 2)) = i" using 2 by simp
    then have "bin_head_tail h ! (i - 2) \<noteq> v"
      using v 2 by (simp add: h(1) nth_append flip: bin_head_bytes_parts)
    moreover have "i - 2 < length (bin_head_tail h)" using 2 by (simp add: bin_head_tail_def)
    ultimately show False using g(2) h(3) CalculateCRC_update [of "i - 2" "bin_head_tail h" v] by simp
  next
    case 3
    have "bin_head_of (bin_head_bytes h) = Some h"
      using h by (intro bin_head_roundtrip) (simp_all add: MAX_FILELEN_def)
    then have "g = h" using g(1) 3 by (simp add: h(1) list_update_append)
    moreover have "take (length b) (drop 12 (c[i := v])) = b[i - 12 := v]"
      using 3 by (simp add: h(1) list_update_append)
    moreover have "i - 12 < length b" "v \<noteq> b ! (i - 12)" using i v 3 by (auto simp: h(1) nth_append)
    ultimately show False using g(3) h(2,4) CalculateCRC_update [of "i - 12" b v] by simp
  qed
qed

theorem BinFile_corruption_witness:
  "ReadBinFile ''a'' 7 2 (fs_write ''a'' ((bin_head_bytes \<lparr>bh_headcrc = CalculateCRC (bin_head_tail
      \<lparr>bh_headcrc = 0, bh_datacrc = CalculateCRC [1, 2], bh_magic = 7, bh_len = 2\<rparr>), bh_datacrc = CalculateCRC [1, 2],
      bh_magic = 7, bh_len = 2\<rparr> @ [1, 2])[13 := 3]) (snd (SaveBinFile ''a'' 7 [1, 2] \<lparr>files = \<lambda>_. None, can_write = \<lambda>_. True\<rparr>))) = None"
proof -
  let ?s = "\<lparr>files = \<lambda>_. None, can_write = \<lambda>_. True\<rparr> :: fs"
  let ?c = "bin_head_bytes \<lparr>bh_headcrc = CalculateCRC (bin_head_tail
      \<lparr>bh_headcrc = 0, bh_datacrc = CalculateCRC [1, 2], bh_magic = 7, bh_len = 2\<rparr>), bh_datacrc = CalculateCRC [1, 2],
      bh_magic = 7, bh_len = 2\<rparr> @ [1, 2]"
  have "SaveBinFile ''a'' 7 [1, 2] ?s = (0, snd (SaveBinFile ''a'' 7 [1, 2] ?s))"
    by (simp add: SaveBinFile_def MAX_FILELEN_def fs_remove_def Let_def)
  moreover have "files (snd (SaveBinFile ''a'' 7 [1, 2] ?s)) ''a'' = Some ?c"
    by (simp add: SaveBinFile_def MAX_FILELEN_def fs_remove_def fs_write_def Let_def)
  ultimately show ?thesis
    by (rule BinFile_corruption) (simp_all add: nth_append)
qed

text \<open>A file of items that was opened for writing, filled with the announced number of items and
  closed can be opened for reading, announces the length and the number of its items, yields the items in order, and then no more.\<close>

theorem GrpBin_roundtrip:
  assumes w: "can_write s file" and il: "0 < il" "il \<le> 0xffff" "even il"
    and num: "num = int (length items)" "0 < num" "num \<le> 0xffff" and items: "list_all (\<lambda>x. int (length x) = il) items"
    and p: "gr_itemlen p = il" "gr_itemnum p = num"
  shows "\<exists>q s1 r. OpenGrpBinFile file magic CHR ''w'' p s = (Some q, s1) \<and>
    OpenGrpBinFile file magic CHR ''r'' p0 (CloseGrpBinFile (fold (\<lambda>x q. WriteGrpBinFileItem q x) items q) s1) =
      (Some r, CloseGrpBinFile (fold (\<lambda>x q. WriteGrpBinFileItem q x) items q) s1) \<and>
    gr_itemlen r = il \<and> gr_itemnum r = num \<and>
    fst (read_items (length items) r il) = map Some items \<and>
    fst (ReadGrpBinFileItem (snd (read_items (length items) r il)) il) = None"
proof -
  define h0 where "h0 = \<lparr>gh_headcrc = 0, gh_reserv = 0, gh_magic = magic, gh_itemlen = word_of_int il, gh_itemnum = word_of_int num\<rparr>"
  define h where "h = h0\<lparr>gh_headcrc := CalculateCRC (grp_head_tail h0)\<rparr>"
  define q where "q = p\<lparr>gr_file := file, gr_flag := CHR ''w'', gr_crctemp := 0, gr_data := grp_head_bytes h\<rparr>"
  define s1 where "s1 = fs_write file [] (fs_remove file s)"
  define d where "d = concat (map item_bytes items)"
  define t where "t = d @ le16 (crc_loop 0 d)"
  define r where "r = p0\<lparr>gr_file := file, gr_flag := CHR ''r'', gr_data := t, gr_itemlen := il, gr_itemnum := num\<rparr>"
  have open_w: "OpenGrpBinFile file magic CHR ''w'' p s = (Some q, s1)"
    using w il num p by (simp add: OpenGrpBinFile_def OpenGrpBinFile_write_def and_1_zero Let_def fs_remove_def q_def s1_def h_def h0_def)
  have fold: "fold (\<lambda>x q. WriteGrpBinFileItem q x) items q = q\<lparr>gr_crctemp := crc_loop 0 d, gr_data := grp_head_bytes h @ d\<rparr>"
    using items p(1) by (subst WriteGrpBinFileItem_fold) (simp_all add: q_def d_def)
  have fl: "files (CloseGrpBinFile (fold (\<lambda>x q. WriteGrpBinFileItem q x) items q) s1) file = Some (grp_head_bytes h @ t)"
    unfolding fold by (simp add: CloseGrpBinFile_def q_def fs_write_def t_def)
  have ht: "grp_head_tail h = grp_head_tail h0" by (simp add: h_def grp_head_tail_def)
  have fld: "gh_magic h = magic" "gh_headcrc h = CalculateCRC (grp_head_tail h)" "even (gh_itemlen h)"
      "uint (gh_itemlen h) = il" "uint (gh_itemnum h) = num"
    using il num(2,3) by (simp_all add: ht) (simp_all add: h_def h0_def even_of_int_u16 unsigned_of_int take_bit_int_eq_self)
  have "even (length d)" unfolding d_def by (intro even_item_data even_length_items [OF items il(3)])
  then have "grp_tail_ok (Suc (length t)) 0 0 0 [] t"
    by (subst grp_tail_ok_spec [where pre = "[]"]) (simp_all add: grp_tail_of_data t_def)
  then have "OpenGrpBinFile_read file magic p0 (CloseGrpBinFile (fold (\<lambda>x q. WriteGrpBinFileItem q x) items q) s1) = Some r"
    unfolding OpenGrpBinFile_read_def fl using fld by (simp add: fread1_def and_1_zero r_def)
  then have open_r: "OpenGrpBinFile file magic CHR ''r'' p0 (CloseGrpBinFile (fold (\<lambda>x q. WriteGrpBinFileItem q x) items q) s1) =
      (Some r, CloseGrpBinFile (fold (\<lambda>x q. WriteGrpBinFileItem q x) items q) s1)"
    by (simp add: OpenGrpBinFile_def)
  have reads: "read_items (length items) r il = (map Some items, r\<lparr>gr_data := le16 (crc_loop 0 d)\<rparr>)"
    using items by (intro read_items_written) (simp_all add: r_def t_def d_def)
  have "ReadGrpBinFile_loop (Suc (length (le16 (crc_loop 0 d)))) (nat il) (le16 (crc_loop 0 d)) = None"
    using il by (intro ReadGrpBinFile_loop_tail) auto
  then have "fst (ReadGrpBinFileItem (r\<lparr>gr_data := le16 (crc_loop 0 d)\<rparr>) il) = None"
    by (simp add: ReadGrpBinFileItem_def r_def del: ReadGrpBinFile_loop.simps)
  then show ?thesis using open_w open_r reads by (intro exI [of _ q] exI [of _ s1] exI [of _ r]) (simp add: r_def)
qed

theorem GrpBin_roundtrip_witness:
  "\<exists>q s1 r s2. OpenGrpBinFile ''g'' 5 CHR ''w'' \<lparr>gr_file = [], gr_data = [], gr_itemlen = 2, gr_itemnum = 2, gr_crctemp = 3, gr_flag = CHR ''x''\<rparr>
      \<lparr>files = \<lambda>_. None, can_write = \<lambda>_. True\<rparr> = (Some q, s1) \<and>
    OpenGrpBinFile ''g'' 5 CHR ''r'' \<lparr>gr_file = [], gr_data = [], gr_itemlen = 0, gr_itemnum = 0, gr_crctemp = 0, gr_flag = CHR ''x''\<rparr> (CloseGrpBinFile (WriteGrpBinFileItem (WriteGrpBinFileItem q [1, 2]) [3, 4]) s1) = (Some r, s2) \<and>
    fst (read_items 2 r 2) = [Some [1, 2], Some [3, 4]]"
proof -
  let ?p = "\<lparr>gr_file = [], gr_data = [], gr_itemlen = 2, gr_itemnum = 2, gr_crctemp = 3, gr_flag = CHR ''x''\<rparr>"
  let ?s = "\<lparr>files = \<lambda>_. None, can_write = \<lambda>_. True\<rparr> :: fs"
  have p: "can_write ?s ''g''" "(0 :: int) < 2" "(2 :: int) \<le> 0xffff" "even (2 :: int)" "(2 :: int) = int (length [[1 :: u8, 2], [3, 4]])"
      "(2 :: int) \<le> 0xffff" "list_all (\<lambda>x. int (length x) = 2) [[1 :: u8, 2], [3, 4]]" "gr_itemlen ?p = 2" "gr_itemnum ?p = 2"
    by simp_all
  have l: "length [[1 :: u8, 2], [3, 4]] = 2" "map Some [[1 :: u8, 2], [3, 4]] = [Some [1, 2], Some [3, 4]]"
      "fold (\<lambda>x q. WriteGrpBinFileItem q x) [[1 :: u8, 2], [3, 4]] q = WriteGrpBinFileItem (WriteGrpBinFileItem q [1, 2]) [3, 4]" for q
    by simp_all
  show ?thesis
    using GrpBin_roundtrip [OF p(1-5) p(2) p(6-9), of 5 "\<lparr>gr_file = [], gr_data = [], gr_itemlen = 0, gr_itemnum = 0, gr_crctemp = 0, gr_flag = CHR ''x''\<rparr>"] unfolding l by blast
qed

end
