(* ===== verification/Uplink.thy ===== *)
theory Uplink
  imports Crc
begin

text \<open>
  The link to the server: the frames of \<open>uplink/uplink_pkt.h\<close>, the receiver and the sender of
  \<open>uplink/uplink_dl.c\<close>, the replies of \<open>svrcomm/faal_dl.c\<close>, and the byte sources of
  \<open>ether.c\<close>, \<open>tcpsvr.c\<close>, \<open>localsvr.c\<close> and \<open>uplink_buffer.c\<close>. Buffers are lists of bytes
  of the size the code declares; a write behind the end of one is the result
  \<open>Inl OutOfBounds\<close>, a loop that used up its fuel is \<open>Inl OutOfFuel\<close>. The answers of the
  sockets (\<open>recv\<close>, \<open>send\<close>) are an input of the model: the lists the state \<open>sock\<close> consumes.
  The locale \<open>byte_source\<close> is what the receiver needs from a source to end its loop.
\<close>

datatype stop = OutOfBounds | OutOfFuel

type_synonym 'a run = "stop + 'a"

subsection \<open>Frames\<close>

definition UPLINK_HEAD :: u8 where "UPLINK_HEAD = 0x68"
definition UPLINK_TAIL :: u8 where "UPLINK_TAIL = 0x16"
definition LEN_FAAL_HEAD :: nat where "LEN_FAAL_HEAD = 10"
definition FAALMASK_DIR :: u8 where "FAALMASK_DIR = 0x80"
definition FAALMASK_CMD :: u8 where "FAALMASK_CMD = 0x3f"

definition FAALCMD_ECHO_LOGON :: u8 where "FAALCMD_ECHO_LOGON = 0x21"
definition FAALCMD_ECHO_HBTEST :: u8 where "FAALCMD_ECHO_HBTEST = 0x24"
definition FAALCMD_LOGONOUT :: u8 where "FAALCMD_LOGONOUT = 0xa2"

definition makepkt_short :: "u8 \<Rightarrow> u8 \<Rightarrow> u16" where
  "makepkt_short s0 s1 = u16_of s1 s0"

definition departpkt_short :: "u16 \<Rightarrow> bytes" where
  "departpkt_short us = [hi8 us, lo8 us]"

text \<open>A packet is the memory it lies in, at least the ten bytes of its head: \<open>head\<close>, \<open>ver\<close>,
  four bytes \<open>addr\<close>, \<open>dep\<close>, \<open>cmd\<close>, two bytes \<open>len\<close>, then \<open>data\<close>.\<close>

definition pkt_cmd :: "bytes \<Rightarrow> u8" where "pkt_cmd pkt = pkt ! 7"

definition pkt_len :: "bytes \<Rightarrow> nat" where "pkt_len pkt = unat (makepkt_short (pkt ! 8) (pkt ! 9))"

definition FAAL_SETLEN :: "bytes \<Rightarrow> u16 \<Rightarrow> bytes" where
  "FAAL_SETLEN pkt len = pkt[8 := hi8 len, 9 := lo8 len]"

definition MakePacketG :: "bytes \<Rightarrow> (nat \<times> bytes) run" where
  "MakePacketG pkt =
     (let dataLen = pkt_len pkt;
          nLen = 10 + dataLen + 2 + 1;
          crc = GetCRC16 (take (nLen - 3) pkt)
      in case put_at pkt (10 + dataLen) [hi8 crc, lo8 crc, 0x16] of
           None \<Rightarrow> Inl OutOfBounds
         | Some pkt \<Rightarrow> Inr (nLen, pkt))"

definition CalcCheckSumB :: "bytes \<Rightarrow> u8" where
  "CalcCheckSumB P = foldl (\<lambda>ret b. ret + b) 0 P"

definition CheckStreamOK :: "bytes \<Rightarrow> nat \<Rightarrow> bool" where
  "CheckStreamOK strm PackLen =
     (if strm ! 0 \<noteq> UPLINK_HEAD then False
      else if strm ! 6 \<noteq> UPLINK_HEAD then False
      else if strm ! (PackLen - 1) \<noteq> UPLINK_TAIL then False
      else GetCRC16 (take (PackLen - 3) strm) = u16_of (strm ! (PackLen - 2)) (strm ! (PackLen - 3)))"

definition IsEchoPkt :: "bytes \<Rightarrow> u8 \<Rightarrow> bool" where
  "IsEchoPkt pkt sndcmd =
     (let sndcmd = sndcmd AND FAALMASK_CMD in
      if FAALCMD_ECHO_LOGON = sndcmd then FAALCMD_ECHO_LOGON = pkt_cmd pkt
      else if FAALCMD_ECHO_HBTEST = sndcmd then FAALCMD_ECHO_HBTEST = pkt_cmd pkt
      else if FAALCMD_LOGONOUT = sndcmd then FAALCMD_ECHO_HBTEST = pkt_cmd pkt
      else False)"

subsection \<open>The receiver\<close>

text \<open>\<open>pbuf\<close> is the offset of the write pointer in the receive buffer; \<open>cnt\<close> and \<open>maxlen\<close> are
  16 bits wide. The timer of the interface is part of the state.\<close>

record uplink_fsm_t =
  rcvbuf :: bytes
  pbuf :: nat
  cnt :: nat
  maxlen :: nat
  stat :: nat
  tm_cnt :: int
  tm_max :: int
  tm_flag :: bool

definition MAXLEN_GPRSITF_BUF :: nat where "MAXLEN_GPRSITF_BUF = 1152"

definition SetUpTimer :: "int \<Rightarrow> uplink_fsm_t \<Rightarrow> uplink_fsm_t" where
  "SetUpTimer m c = c\<lparr>tm_cnt := 0, tm_max := m, tm_flag := True\<rparr>"

definition StopUpTimer :: "uplink_fsm_t \<Rightarrow> uplink_fsm_t" where
  "StopUpTimer c = c\<lparr>tm_flag := False\<rparr>"

definition UplinkClearState :: "uplink_fsm_t \<Rightarrow> uplink_fsm_t" where
  "UplinkClearState c = StopUpTimer (c\<lparr>pbuf := 0, stat := 0, cnt := 0, maxlen := 0\<rparr>)"

definition UpTimerProc :: "uplink_fsm_t \<Rightarrow> uplink_fsm_t" where
  "UpTimerProc c =
     (if \<not> tm_flag c then c\<lparr>pbuf := 0, stat := 0, cnt := 0, maxlen := 0\<rparr>
      else
        let c = c\<lparr>tm_cnt := tm_cnt c + 1\<rparr> in
        if tm_cnt c \<ge> tm_max c then UplinkClearState c else c)"

definition fsm_put :: "u8 \<Rightarrow> uplink_fsm_t \<Rightarrow> uplink_fsm_t run" where
  "fsm_put uc c =
     (if pbuf c < length (rcvbuf c)
      then Inr (c\<lparr>rcvbuf := (rcvbuf c)[pbuf c := uc], pbuf := pbuf c + 1, cnt := (cnt c + 1) mod 65536\<rparr>)
      else Inl OutOfBounds)"

definition fsm_step :: "int \<Rightarrow> u8 \<Rightarrow> uplink_fsm_t \<Rightarrow> (bool \<times> uplink_fsm_t) run" where
  "fsm_step timeout uc c =
     (if stat c = 0 then
        (if UPLINK_HEAD = uc then
           (case fsm_put uc (UplinkClearState c) of
              Inl e \<Rightarrow> Inl e
            | Inr c \<Rightarrow> Inr (False, SetUpTimer timeout (c\<lparr>stat := 1, maxlen := 6\<rparr>)))
         else Inr (False, c))
      else if stat c = 1 then
        (case fsm_put uc c of
           Inl e \<Rightarrow> Inl e
         | Inr c \<Rightarrow> Inr (False, if cnt c \<ge> maxlen c then c\<lparr>stat := 2, maxlen := 10\<rparr> else c))
      else if stat c = 2 then
        (if UPLINK_HEAD \<noteq> uc then Inr (False, UplinkClearState c)
         else case fsm_put uc c of
           Inl e \<Rightarrow> Inl e
         | Inr c \<Rightarrow> Inr (False, c\<lparr>stat := 3\<rparr>))
      else if stat c = 3 then
        (case fsm_put uc c of
           Inl e \<Rightarrow> Inl e
         | Inr c \<Rightarrow>
             if cnt c \<ge> maxlen c then
               let dataLen = unat (makepkt_short (rcvbuf c ! (pbuf c - 2)) (rcvbuf c ! (pbuf c - 1)))
               in Inr (False, c\<lparr>stat := 4, maxlen := (dataLen + 10 + 2) mod 65536\<rparr>)
             else Inr (False, c))
      else if stat c = 4 then
        (case fsm_put uc c of
           Inl e \<Rightarrow> Inl e
         | Inr c \<Rightarrow> Inr (False, if cnt c \<ge> maxlen c then c\<lparr>stat := 5\<rparr> else c))
      else if stat c = 5 then
        (if UPLINK_TAIL \<noteq> uc then Inr (False, UplinkClearState c)
         else case fsm_put uc c of
           Inl e \<Rightarrow> Inl e
         | Inr c \<Rightarrow> let c = StopUpTimer c in Inr (CheckStreamOK (rcvbuf c) (cnt c), UplinkClearState c))
      else Inr (False, UplinkClearState c))"

text \<open>The loop over the bytes of the interface; the fuel bounds how many are read in one call.\<close>

fun UplinkRecv_loop :: "('e \<Rightarrow> (u8 option \<times> 'e) run) \<Rightarrow> int \<Rightarrow> nat \<Rightarrow> uplink_fsm_t \<Rightarrow> 'e \<Rightarrow> (int \<times> uplink_fsm_t \<times> 'e) run" where
  "UplinkRecv_loop getchar timeout 0 c e = Inl OutOfFuel"
| "UplinkRecv_loop getchar timeout (Suc fuel) c e =
     (case getchar e of
        Inl s \<Rightarrow> Inl s
      | Inr (None, e) \<Rightarrow> Inr (1, c, e)
      | Inr (Some uc, e) \<Rightarrow>
          (case fsm_step timeout uc c of
             Inl s \<Rightarrow> Inl s
           | Inr (True, c) \<Rightarrow> Inr (0, c, e)
           | Inr (False, c) \<Rightarrow> UplinkRecv_loop getchar timeout fuel c e))"

definition UplinkRecvPkt :: "('e \<Rightarrow> (u8 option \<times> 'e) run) \<Rightarrow> int \<Rightarrow> nat \<Rightarrow> uplink_fsm_t \<Rightarrow> 'e \<Rightarrow> (int \<times> uplink_fsm_t \<times> 'e) run" where
  "UplinkRecvPkt getchar timeout fuel c e = UplinkRecv_loop getchar timeout fuel (UpTimerProc c) e"

subsection \<open>The sender\<close>

definition set_addr :: "bytes \<Rightarrow> bytes \<Rightarrow> bytes" where
  "set_addr deviceid pkt =
     foldl (\<lambda>pkt i. pkt[2 + i := push_bit 4 (deviceid ! (i * 2)) OR deviceid ! (i * 2 + 1)]) pkt [0, 1, 2, 3]"

text \<open>\<open>rawsend\<close> answers whether the transmission failed.\<close>

definition UplinkSendPktG :: "(bytes \<Rightarrow> 'e \<Rightarrow> bool \<times> 'e) \<Rightarrow> bytes \<Rightarrow> bytes \<Rightarrow> 'e \<Rightarrow> (int \<times> bytes \<times> 'e) run" where
  "UplinkSendPktG rawsend deviceid pkt e =
     (let pkt = set_addr deviceid pkt in
      case MakePacketG pkt of
        Inl s \<Rightarrow> Inl s
      | Inr (len, pkt) \<Rightarrow>
          (case rawsend (take len pkt) e of (failed, e) \<Rightarrow> Inr (if failed then 1 else 0, pkt, e)))"

definition UPRTN_OK :: int where "UPRTN_OK = 0"
definition UPRTN_FAIL :: int where "UPRTN_FAIL = 1"
definition UPRTN_OKRCV :: int where "UPRTN_OKRCV = 2"
definition UPRTN_TIMEOUT :: int where "UPRTN_TIMEOUT = 4"

definition GetTimeout :: "u8 \<Rightarrow> u8 \<Rightarrow> nat \<times> nat" where
  "GetTimeout snd_timeout snd_retry = (unat snd_timeout * 10, unat (snd_retry AND 0xff))"

text \<open>Waiting for the answer: \<open>j\<close> rounds of 100 ms.\<close>

fun wait_loop :: "('e \<Rightarrow> (u8 option \<times> 'e) run) \<Rightarrow> int \<Rightarrow> nat \<Rightarrow> nat \<Rightarrow> u8 \<Rightarrow> uplink_fsm_t \<Rightarrow> 'e \<Rightarrow>
    (int option \<times> uplink_fsm_t \<times> 'e) run" where
  "wait_loop getchar timeout fuel 0 cmd c e = Inr (None, c, e)"
| "wait_loop getchar timeout fuel (Suc j) cmd c e =
     (case UplinkRecvPkt getchar timeout fuel c e of
        Inl s \<Rightarrow> Inl s
      | Inr (rtn, c, e) \<Rightarrow>
          if rtn = 0 then Inr (Some (if \<not> IsEchoPkt (rcvbuf c) cmd then UPRTN_OKRCV else UPRTN_OK), c, e)
          else wait_loop getchar timeout fuel j cmd c e)"

fun send_loop :: "('e \<Rightarrow> (u8 option \<times> 'e) run) \<Rightarrow> (bytes \<Rightarrow> 'e \<Rightarrow> bool \<times> 'e) \<Rightarrow> ('e \<Rightarrow> bool) \<Rightarrow> int \<Rightarrow> nat \<Rightarrow> bytes \<Rightarrow>
    nat \<Rightarrow> nat \<Rightarrow> uplink_fsm_t \<Rightarrow> bytes \<Rightarrow> 'e \<Rightarrow> (int \<times> uplink_fsm_t \<times> bytes \<times> 'e) run" where
  "send_loop getchar rawsend linestat timeout fuel deviceid tmo 0 c psnd e = Inr (UPRTN_TIMEOUT, c, psnd, e)"
| "send_loop getchar rawsend linestat timeout fuel deviceid tmo (Suc i) c psnd e =
     (if \<not> linestat e then Inr (UPRTN_FAIL, c, psnd, e)
      else case UplinkSendPktG rawsend deviceid psnd e of
        Inl s \<Rightarrow> Inl s
      | Inr (rtn, psnd, e) \<Rightarrow>
          if rtn \<noteq> 0 then Inr (UPRTN_FAIL, c, psnd, e)
          else
            (case wait_loop getchar timeout fuel tmo (pkt_cmd psnd) c e of
               Inl s \<Rightarrow> Inl s
             | Inr (Some r, c, e) \<Rightarrow> Inr (r, c, psnd, e)
             | Inr (None, c, e) \<Rightarrow> send_loop getchar rawsend linestat timeout fuel deviceid tmo i c psnd e))"

text \<open>What the sender uses of an interface and of the parameters.\<close>

record 'e uplinkitf_t =
  itf_getchar :: "'e \<Rightarrow> (u8 option \<times> 'e) run"
  itf_rawsend :: "bytes \<Rightarrow> 'e \<Rightarrow> bool \<times> 'e"
  itf_linestat :: "'e \<Rightarrow> bool"
  itf_timeout :: int

record link_para =
  lp_deviceid :: bytes
  lp_com_pwd :: bytes
  lp_snd_timeout :: u8
  lp_snd_retry :: u8

definition UplinkSendWait :: "'e uplinkitf_t \<Rightarrow> link_para \<Rightarrow> nat \<Rightarrow> uplink_fsm_t \<Rightarrow> bytes \<Rightarrow> 'e \<Rightarrow>
    (int \<times> uplink_fsm_t \<times> bytes \<times> 'e) run" where
  "UplinkSendWait pitf para fuel c psnd e =
     (case GetTimeout (lp_snd_timeout para) (lp_snd_retry para) of (tmo, retry) \<Rightarrow>
        send_loop (itf_getchar pitf) (itf_rawsend pitf) (itf_linestat pitf) (itf_timeout pitf) fuel
          (lp_deviceid para) tmo retry c psnd e)"

definition UplinkActiveSend :: "'e uplinkitf_t \<Rightarrow> link_para \<Rightarrow> nat \<Rightarrow> bool \<Rightarrow> uplink_fsm_t \<Rightarrow> bytes \<Rightarrow> 'e \<Rightarrow>
    (int \<times> uplink_fsm_t \<times> bytes \<times> 'e) run" where
  "UplinkActiveSend pitf para fuel flag c psnd e =
     (if \<not> flag then
        (case UplinkSendPktG (itf_rawsend pitf) (lp_deviceid para) psnd e of
           Inl s \<Rightarrow> Inl s
         | Inr (rtn, psnd, e) \<Rightarrow> Inr (rtn, c, psnd, e))
      else UplinkSendWait pitf para fuel c psnd e)"

definition set_head :: "u8 \<Rightarrow> u16 \<Rightarrow> bytes \<Rightarrow> bytes" where
  "set_head cmd len pkt = FAAL_SETLEN (pkt[0 := 0x68, 1 := 0x01, 6 := 0x68, 7 := cmd]) len"

definition UplinkLogon :: "'e uplinkitf_t \<Rightarrow> link_para \<Rightarrow> nat \<Rightarrow> uplink_fsm_t \<Rightarrow> bytes \<Rightarrow> 'e \<Rightarrow>
    (int \<times> uplink_fsm_t \<times> bytes \<times> 'e) run" where
  "UplinkLogon pitf para fuel c pkt e =
     (let pkt = foldl (\<lambda>p i. p[10 + i := lp_com_pwd para ! i]) pkt [0, 1, 2, 3];
          pkt = set_head 0xa1 4 pkt
      in case UplinkActiveSend pitf para fuel True c pkt e of
           Inl s \<Rightarrow> Inl s
         | Inr (rtn, r) \<Rightarrow> Inr (if rtn \<noteq> 0 then 1 else 0, r))"

definition UplinkLogonOut :: "'e uplinkitf_t \<Rightarrow> link_para \<Rightarrow> nat \<Rightarrow> uplink_fsm_t \<Rightarrow> bytes \<Rightarrow> 'e \<Rightarrow>
    (int \<times> uplink_fsm_t \<times> bytes \<times> 'e) run" where
  "UplinkLogonOut pitf para fuel c pkt e =
     (case UplinkActiveSend pitf para fuel True c (set_head 0xa2 0 pkt) e of
        Inl s \<Rightarrow> Inl s
      | Inr (rtn, r) \<Rightarrow> Inr (if rtn \<noteq> 0 then 1 else 0, r))"

definition UplinkLinkTest :: "'e uplinkitf_t \<Rightarrow> link_para \<Rightarrow> nat \<Rightarrow> uplink_fsm_t \<Rightarrow> bytes \<Rightarrow> 'e \<Rightarrow>
    (int \<times> uplink_fsm_t \<times> bytes \<times> 'e) run" where
  "UplinkLinkTest pitf para fuel c pkt e = UplinkActiveSend pitf para fuel True c (set_head 0xA4 0 pkt) e"

definition UplinkCheckVer :: "'e uplinkitf_t \<Rightarrow> link_para \<Rightarrow> nat \<Rightarrow> uplink_fsm_t \<Rightarrow> bytes \<Rightarrow> 'e \<Rightarrow>
    (int \<times> uplink_fsm_t \<times> bytes \<times> 'e) run" where
  "UplinkCheckVer pitf para fuel c pkt e = UplinkActiveSend pitf para fuel False c (set_head 0x84 0 pkt) e"

definition UplinkDeviceCheck :: "'e uplinkitf_t \<Rightarrow> link_para \<Rightarrow> int \<Rightarrow> nat \<Rightarrow> uplink_fsm_t \<Rightarrow> bytes \<Rightarrow> 'e \<Rightarrow>
    (int \<times> uplink_fsm_t \<times> bytes \<times> 'e) run" where
  "UplinkDeviceCheck pitf para filestat fuel c pkt e =
     (let pkt = (set_head 0x81 1 pkt)[10 := (if filestat = 0 then 0x08 else 0x0F)]
      in UplinkActiveSend pitf para fuel False c pkt e)"

subsection \<open>Replies\<close>

text \<open>\<open>faal_makepkt\<close> writes the checksum and the tail through the pointer \<open>puc\<close>, which still
  points at the first byte of the packet.\<close>

definition faal_makepkt :: "nat \<Rightarrow> bytes \<Rightarrow> bytes \<Rightarrow> (int \<times> bytes)" where
  "faal_makepkt sndmax deviceid pkt =
     (let len = pkt_len pkt in
      if sndmax < len then (- 1, pkt)
      else
        let pkt = pkt[0 := 0x68, 6 := 0x68, 1 := 0x01];
            pkt = set_addr deviceid pkt;
            pkt = pkt[7 := pkt ! 7 OR FAALMASK_DIR];
            len = len + LEN_FAAL_HEAD;
            crc = GetCRC16 (take len pkt);
            puc = 0;
            pkt = pkt[puc := hi8 crc, puc + 1 := lo8 crc, puc + 2 := UPLINK_TAIL]
        in (int len + 3, pkt))"

definition faal_sendpkt :: "(bytes \<Rightarrow> 'e \<Rightarrow> bool \<times> 'e) \<Rightarrow> nat \<Rightarrow> bytes \<Rightarrow> bytes \<Rightarrow> 'e \<Rightarrow> int \<times> bytes \<times> 'e" where
  "faal_sendpkt rawsend sndmax deviceid pkt e =
     (case faal_makepkt sndmax deviceid pkt of (len, pkt) \<Rightarrow>
        if len = - 1 then (1, pkt, e)
        else case rawsend (take (nat len) pkt) e of (failed, e) \<Rightarrow> (if failed then 1 else 0, pkt, e))"

subsection \<open>Byte sources\<close>

text \<open>An answer of \<open>recv\<close>: some bytes (at most as many as asked for), none waiting, or a
  connection that was closed or failed.\<close>

datatype recv_result = Received bytes | WouldBlock | Broken

record sock =
  sk_srv :: bool
  sk_open :: bool
  sk_num :: bool
  sk_line :: bool
  sk_buf :: bytes
  sk_len :: int
  sk_head :: nat
  sk_net :: "recv_result list"
  sk_fail :: "bool list"
  sk_sent :: "bytes list"

definition recv_next :: "sock \<Rightarrow> recv_result \<times> sock" where
  "recv_next e = (case sk_net e of [] \<Rightarrow> (WouldBlock, e) | r # rs \<Rightarrow> (r, e\<lparr>sk_net := rs\<rparr>))"

definition take_char :: "sock \<Rightarrow> (u8 option \<times> sock) run" where
  "take_char e =
     (if sk_head e < length (sk_buf e)
      then Inr (Some (sk_buf e ! sk_head e), e\<lparr>sk_head := sk_head e + 1, sk_len := sk_len e - 1\<rparr>)
      else Inl OutOfBounds)"

definition EtherGetChar :: "sock \<Rightarrow> (u8 option \<times> sock) run" where
  "EtherGetChar e =
     (if \<not> sk_open e then Inr (None, e)
      else if sk_len e \<le> 0 then
        (case recv_next e of (r, e) \<Rightarrow>
           case r of
             Broken \<Rightarrow> Inr (None, e\<lparr>sk_len := - 1, sk_open := False, sk_line := False\<rparr>)
           | WouldBlock \<Rightarrow> Inr (None, e\<lparr>sk_len := - 1\<rparr>)
           | Received bs \<Rightarrow>
               if bs = [] then Inr (None, e\<lparr>sk_len := 0, sk_open := False, sk_line := False\<rparr>)
               else case put_at (sk_buf e) 0 bs of
                 None \<Rightarrow> Inl OutOfBounds
               | Some buf \<Rightarrow> take_char (e\<lparr>sk_buf := buf, sk_len := int (length bs), sk_head := 0\<rparr>))
      else take_char e)"

definition TcpSvrGetChar :: "sock \<Rightarrow> (u8 option \<times> sock) run" where
  "TcpSvrGetChar e =
     (if \<not> sk_srv e \<or> \<not> sk_open e then Inr (None, e)
      else if sk_len e \<le> 0 then
        (case recv_next e of (r, e) \<Rightarrow>
           case r of
             Broken \<Rightarrow> Inr (None, e\<lparr>sk_len := - 1, sk_open := False, sk_num := False\<rparr>)
           | WouldBlock \<Rightarrow> Inr (None, e\<lparr>sk_len := - 1\<rparr>)
           | Received bs \<Rightarrow>
               if bs = [] then Inr (None, e\<lparr>sk_len := 0, sk_open := False, sk_num := False\<rparr>)
               else case put_at (sk_buf e) 0 bs of
                 None \<Rightarrow> Inl OutOfBounds
               | Some buf \<Rightarrow> take_char (e\<lparr>sk_buf := buf, sk_len := int (length bs), sk_head := 0\<rparr>))
      else take_char e)"

text \<open>\<open>LocalSvrGetChar\<close> resets the length where the others reset the head.\<close>

definition LocalSvrGetChar :: "sock \<Rightarrow> (u8 option \<times> sock) run" where
  "LocalSvrGetChar e =
     (if \<not> sk_srv e \<or> \<not> sk_open e then Inr (None, e)
      else if sk_len e \<le> 0 then
        (case recv_next e of (r, e) \<Rightarrow>
           case r of
             Broken \<Rightarrow> Inr (None, e\<lparr>sk_len := - 1, sk_open := False, sk_num := False\<rparr>)
           | WouldBlock \<Rightarrow> Inr (None, e\<lparr>sk_len := - 1\<rparr>)
           | Received bs \<Rightarrow>
               if bs = [] then Inr (None, e\<lparr>sk_len := 0, sk_open := False, sk_num := False\<rparr>)
               else case put_at (sk_buf e) 0 bs of
                 None \<Rightarrow> Inl OutOfBounds
               | Some buf \<Rightarrow> take_char (e\<lparr>sk_buf := buf, sk_len := 0\<rparr>))
      else take_char e)"

definition send_next :: "bytes \<Rightarrow> sock \<Rightarrow> bool \<times> sock" where
  "send_next buf e =
     (case sk_fail e of
        [] \<Rightarrow> (False, e\<lparr>sk_sent := sk_sent e @ [buf]\<rparr>)
      | f # fs \<Rightarrow> (f, if f then e\<lparr>sk_fail := fs\<rparr> else e\<lparr>sk_fail := fs, sk_sent := sk_sent e @ [buf]\<rparr>))"

definition EtherRawSend :: "bytes \<Rightarrow> sock \<Rightarrow> bool \<times> sock" where
  "EtherRawSend buf e =
     (if \<not> sk_open e then (True, e)
      else case send_next buf e of (failed, e) \<Rightarrow>
        if failed then (True, e\<lparr>sk_open := False, sk_line := False\<rparr>) else (False, e))"

definition TcpSvrRawSend :: "bytes \<Rightarrow> sock \<Rightarrow> bool \<times> sock" where
  "TcpSvrRawSend buf e =
     (if \<not> sk_srv e \<or> \<not> sk_open e then (True, e)
      else case send_next buf e of (failed, e) \<Rightarrow>
        if failed then (True, e\<lparr>sk_open := False\<rparr>) else (False, e))"

definition LocalSvrRawSend :: "bytes \<Rightarrow> sock \<Rightarrow> bool \<times> sock" where
  "LocalSvrRawSend buf e =
     (if \<not> sk_srv e \<or> \<not> sk_open e then (True, e)
      else case send_next buf e of (failed, e) \<Rightarrow>
        if failed then (True, e\<lparr>sk_open := False, sk_num := False\<rparr>) else (False, e))"

text \<open>The serial line is not connected: it always has a character, which it does not write, so
  the byte is whatever the variable of the caller holds.\<close>

definition empty_getchar :: "'e \<Rightarrow> u8 \<Rightarrow> u8 option \<times> 'e" where
  "empty_getchar e uc = (Some uc, e)"

definition empty_rawsend :: "bytes \<Rightarrow> 'e \<Rightarrow> bool \<times> 'e" where
  "empty_rawsend buf e = (False, e)"

definition linestat_empty :: "'e \<Rightarrow> bool" where
  "linestat_empty e = True"

definition ether_itf :: "sock uplinkitf_t" where
  "ether_itf = \<lparr>itf_getchar = EtherGetChar, itf_rawsend = EtherRawSend, itf_linestat = linestat_empty, itf_timeout = 6\<rparr>"

definition tcpsvr_itf :: "sock uplinkitf_t" where
  "tcpsvr_itf = \<lparr>itf_getchar = TcpSvrGetChar, itf_rawsend = TcpSvrRawSend, itf_linestat = linestat_empty, itf_timeout = 6\<rparr>"

definition localsvr_itf :: "sock uplinkitf_t" where
  "localsvr_itf = \<lparr>itf_getchar = LocalSvrGetChar, itf_rawsend = LocalSvrRawSend, itf_linestat = linestat_empty, itf_timeout = 6\<rparr>"

definition serial_itf :: "u8 \<Rightarrow> 'e uplinkitf_t" where
  "serial_itf uc = \<lparr>itf_getchar = \<lambda>e. Inr (empty_getchar e uc), itf_rawsend = empty_rawsend, itf_linestat = linestat_empty, itf_timeout = 5\<rparr>"

subsection \<open>Specification\<close>

text \<open>The states the receiver can be in: what is stored, and what each state knows of it.\<close>

definition stage_ok :: "nat \<Rightarrow> nat \<Rightarrow> nat \<Rightarrow> bytes \<Rightarrow> bool" where
  "stage_ok s p m b \<longleftrightarrow>
     (if s = 0 then p = 0
      else b ! 0 = UPLINK_HEAD \<and>
       (if s = 1 then m = 6 \<and> 0 < p \<and> p < 6
        else if s = 2 then m = 10 \<and> p = 6
        else b ! 6 = UPLINK_HEAD \<and>
         (if s = 3 then m = 10 \<and> 7 \<le> p \<and> p < 10
          else m = (pkt_len b + 12) mod 65536 \<and> 10 \<le> p \<and> (if s = 4 then p < max 11 m else s = 5 \<and> p = max 11 m))))"

definition fsm_ok :: "uplink_fsm_t \<Rightarrow> bool" where
  "fsm_ok c \<longleftrightarrow> length (rcvbuf c) = MAXLEN_GPRSITF_BUF \<and> cnt c = pbuf c \<and> pbuf c \<le> MAXLEN_GPRSITF_BUF \<and>
     stage_ok (stat c) (pbuf c) (maxlen c) (rcvbuf c)"

text \<open>A well-formed frame of \<open>n\<close> bytes, written out: both heads, the checksum of all but the last three bytes in its place, the tail.\<close>

definition well_formed :: "bytes \<Rightarrow> nat \<Rightarrow> bool" where
  "well_formed b n \<longleftrightarrow> b ! 0 = 0x68 \<and> b ! 6 = 0x68 \<and> b ! (n - 1) = 0x16 \<and>
     GetCRC16 (take (n - 3) b) = u16_of (b ! (n - 2)) (b ! (n - 3))"

definition valid_frame :: "bytes \<Rightarrow> bool" where
  "valid_frame f \<longleftrightarrow> length f = pkt_len f + 13 \<and> length f \<le> MAXLEN_GPRSITF_BUF \<and> well_formed f (length f)"

text \<open>How many bytes the receiver takes for an announced length: twelve, when the sum with the head wraps around at 16 bits.\<close>

definition frame_bytes :: "bytes \<Rightarrow> nat" where
  "frame_bytes b = (if pkt_len b < 65524 then pkt_len b + 13 else 12)"

text \<open>What the receiver accepts.\<close>

definition accepted :: "bytes \<Rightarrow> bool" where
  "accepted b \<longleftrightarrow> (\<exists>n \<le> MAXLEN_GPRSITF_BUF. CheckStreamOK b n \<and> n = Suc (max 11 ((pkt_len b + 12) mod 65536)))"

text \<open>The receiver over a stream of bytes.\<close>

fun fsm_feed :: "int \<Rightarrow> bytes \<Rightarrow> uplink_fsm_t \<Rightarrow> (bool \<times> uplink_fsm_t \<times> bytes) run" where
  "fsm_feed t [] c = Inr (False, c, [])"
| "fsm_feed t (b # bs) c =
     (case fsm_step t b c of
        Inl s \<Rightarrow> Inl s
      | Inr (True, c) \<Rightarrow> Inr (True, c, bs)
      | Inr (False, c) \<Rightarrow> fsm_feed t bs c)"

text \<open>After \<open>k\<close> bytes of a stream that starts like a frame.\<close>

definition at_frame :: "bytes \<Rightarrow> nat \<Rightarrow> uplink_fsm_t \<Rightarrow> bool" where
  "at_frame f k c \<longleftrightarrow> fsm_ok c \<and> pbuf c = k \<and> take k (rcvbuf c) = take k f \<and> (k < 11 \<longrightarrow> stat c \<noteq> 5)"

definition same_timer :: "uplink_fsm_t \<Rightarrow> uplink_fsm_t \<Rightarrow> bool" where
  "same_timer c c' \<longleftrightarrow> tm_cnt c' = tm_cnt c \<and> tm_flag c' = tm_flag c \<and> tm_max c' = tm_max c"

definition framed :: "bytes \<Rightarrow> bytes" where
  "framed pkt = take (10 + pkt_len pkt) pkt @ (let crc = GetCRC16 (take (10 + pkt_len pkt) pkt) in [hi8 crc, lo8 crc, 0x16])"

text \<open>What the answers of \<open>recv\<close> bring, call by call.\<close>

fun net_polls :: "recv_result list \<Rightarrow> nat \<Rightarrow> bytes" where
  "net_polls [] = (\<lambda>_. [])"
| "net_polls (Broken # rs) = (\<lambda>_. [])"
| "net_polls (WouldBlock # rs) = (\<lambda>n. case n of 0 \<Rightarrow> [] | Suc m \<Rightarrow> net_polls rs m)"
| "net_polls (Received bs # rs) = (if bs = [] then (\<lambda>_. []) else (net_polls rs)(0 := bs @ net_polls rs 0))"

definition sock_ok :: "sock \<Rightarrow> bool" where
  "sock_ok e \<longleftrightarrow> length (sk_buf e) = 2048 \<and> (0 < sk_len e \<longrightarrow> sk_head e + nat (sk_len e) \<le> 2048) \<and>
     list_all (\<lambda>r. case r of Received bs \<Rightarrow> length bs \<le> 2048 | _ \<Rightarrow> True) (sk_net e)"

definition sock_waiting :: "sock \<Rightarrow> nat \<Rightarrow> bytes" where
  "sock_waiting e = (if 0 < sk_len e
     then (net_polls (sk_net e))(0 := take (nat (sk_len e)) (drop (sk_head e) (sk_buf e)) @ net_polls (sk_net e) 0)
     else net_polls (sk_net e))"

definition ether_polls :: "sock \<Rightarrow> nat \<Rightarrow> bytes" where
  "ether_polls e = (if sk_open e then sock_waiting e else (\<lambda>_. []))"

definition tcpsvr_polls :: "sock \<Rightarrow> nat \<Rightarrow> bytes" where
  "tcpsvr_polls e = (if sk_srv e \<and> sk_open e then sock_waiting e else (\<lambda>_. []))"

definition idle_fsm :: uplink_fsm_t where
  "idle_fsm = \<lparr>rcvbuf = replicate 1152 0, pbuf = 0, cnt = 0, maxlen = 0, stat = 0, tm_cnt = 0, tm_max = 0, tm_flag = False\<rparr>"

definition idle_sock :: sock where
  "idle_sock = \<lparr>sk_srv = True, sk_open = True, sk_num = False, sk_line = False, sk_buf = replicate 2048 0, sk_len = 0, sk_head = 0,
     sk_net = [], sk_fail = [], sk_sent = []\<rparr>"

fun read_n :: "(sock \<Rightarrow> (u8 option \<times> sock) run) \<Rightarrow> nat \<Rightarrow> sock \<Rightarrow> (bytes \<times> sock) run" where
  "read_n getchar 0 e = Inr ([], e)"
| "read_n getchar (Suc n) e =
     (case getchar e of
        Inl s \<Rightarrow> Inl s
      | Inr (None, e) \<Rightarrow> Inr ([], e)
      | Inr (Some b, e) \<Rightarrow> (case read_n getchar n e of Inl s \<Rightarrow> Inl s | Inr (bs, e) \<Rightarrow> Inr (b # bs, e)))"

subsection \<open>Lemmas\<close>

lemma pkt_len_update [simp]: "10 \<le> i \<Longrightarrow> pkt_len (b[i := v]) = pkt_len b"
  by (simp add: pkt_len_def)

lemma pkt_len_less [simp]: "pkt_len b < 65536"
  by (simp add: pkt_len_def)

lemma stage_0 [simp]: "stage_ok 0 p m b \<longleftrightarrow> p = 0"
  by (simp add: stage_ok_def)

lemma stage_le_5: "stage_ok s p m b \<Longrightarrow> s = 0 \<or> s = 1 \<or> s = 2 \<or> s = 3 \<or> s = 4 \<or> s = 5"
  by (auto simp: stage_ok_def split: if_splits)

lemma UplinkClearState_simps [simp]:
  "rcvbuf (UplinkClearState c) = rcvbuf c" "pbuf (UplinkClearState c) = 0" "cnt (UplinkClearState c) = 0"
  "stat (UplinkClearState c) = 0" "maxlen (UplinkClearState c) = 0" "tm_flag (UplinkClearState c) = False"
  by (simp_all add: UplinkClearState_def StopUpTimer_def)

lemma fsm_ok_clear [simp]: "length (rcvbuf c) = MAXLEN_GPRSITF_BUF \<Longrightarrow> fsm_ok (UplinkClearState c)"
  by (simp add: fsm_ok_def)

lemma fsm_ok_timer_fields [simp]: "fsm_ok (c\<lparr>tm_cnt := i\<rparr>) = fsm_ok c" "fsm_ok (c\<lparr>tm_flag := f\<rparr>) = fsm_ok c"
  by (simp_all add: fsm_ok_def)

lemma fsm_ok_timer: "fsm_ok c \<Longrightarrow> fsm_ok (UpTimerProc c)"
  by (cases "tm_flag c") (simp_all add: UpTimerProc_def Let_def, simp_all add: fsm_ok_def)

lemma fsm_put_Inr: "fsm_put uc c = Inr c' \<longleftrightarrow> pbuf c < length (rcvbuf c) \<and>
    c' = c\<lparr>rcvbuf := (rcvbuf c)[pbuf c := uc], pbuf := pbuf c + 1, cnt := (cnt c + 1) mod 65536\<rparr>"
  by (auto simp: fsm_put_def)

lemma fsm_put_Inl: "fsm_put uc c = Inl e \<longleftrightarrow> length (rcvbuf c) \<le> pbuf c \<and> e = OutOfBounds"
  by (auto simp: fsm_put_def)

text \<open>One lemma for each state of the receiver.\<close>

lemma fsm_step_0:
  "fsm_ok c \<Longrightarrow> stat c = 0 \<Longrightarrow> fsm_step t uc c = (if uc = UPLINK_HEAD
     then Inr (False, SetUpTimer t ((UplinkClearState c)\<lparr>rcvbuf := (rcvbuf c)[0 := uc], pbuf := 1, cnt := 1, stat := 1, maxlen := 6\<rparr>))
     else Inr (False, c))"
  by (simp add: fsm_step_def fsm_put_def fsm_ok_def MAXLEN_GPRSITF_BUF_def UplinkClearState_def StopUpTimer_def)

lemma fsm_step_1:
  "fsm_ok c \<Longrightarrow> stat c = 1 \<Longrightarrow> fsm_step t uc c = Inr (False, c\<lparr>rcvbuf := (rcvbuf c)[pbuf c := uc],
     pbuf := pbuf c + 1, cnt := pbuf c + 1, stat := (if pbuf c = 5 then 2 else 1), maxlen := (if pbuf c = 5 then 10 else 6)\<rparr>)"
  by (auto simp: fsm_step_def fsm_put_def fsm_ok_def stage_ok_def MAXLEN_GPRSITF_BUF_def)

lemma fsm_step_2:
  "fsm_ok c \<Longrightarrow> stat c = 2 \<Longrightarrow> fsm_step t uc c = Inr (False, if uc = UPLINK_HEAD
     then c\<lparr>rcvbuf := (rcvbuf c)[6 := uc], pbuf := 7, cnt := 7, stat := 3\<rparr> else UplinkClearState c)"
  by (auto simp: fsm_step_def fsm_put_def fsm_ok_def stage_ok_def MAXLEN_GPRSITF_BUF_def)

lemma fsm_step_3:
  assumes "fsm_ok c" "stat c = 3"
  shows "fsm_step t uc c = Inr (False, let b = (rcvbuf c)[pbuf c := uc] in
     c\<lparr>rcvbuf := b, pbuf := pbuf c + 1, cnt := pbuf c + 1, stat := (if pbuf c = 9 then 4 else 3),
       maxlen := (if pbuf c = 9 then (pkt_len b + 12) mod 65536 else 10)\<rparr>)"
proof (cases "pbuf c = 9")
  case True
  then show ?thesis using assms
    by (simp add: fsm_step_def fsm_put_def fsm_ok_def stage_ok_def MAXLEN_GPRSITF_BUF_def pkt_len_def Let_def add.commute)
next
  case False
  then show ?thesis using assms
    by (auto simp: fsm_step_def fsm_put_def fsm_ok_def stage_ok_def MAXLEN_GPRSITF_BUF_def Let_def)
qed

lemma fsm_step_4:
  "fsm_ok c \<Longrightarrow> stat c = 4 \<Longrightarrow> fsm_step t uc c = (if pbuf c < MAXLEN_GPRSITF_BUF then Inr (False, c\<lparr>rcvbuf := (rcvbuf c)[pbuf c := uc],
     pbuf := pbuf c + 1, cnt := pbuf c + 1, stat := (if maxlen c \<le> pbuf c + 1 then 5 else 4)\<rparr>) else Inl OutOfBounds)"
  by (auto simp: fsm_step_def fsm_put_def fsm_ok_def MAXLEN_GPRSITF_BUF_def)

lemma fsm_step_5:
  "fsm_ok c \<Longrightarrow> stat c = 5 \<Longrightarrow> fsm_step t uc c = (if uc \<noteq> UPLINK_TAIL then Inr (False, UplinkClearState c)
     else if pbuf c < MAXLEN_GPRSITF_BUF then
       Inr (CheckStreamOK ((rcvbuf c)[pbuf c := uc]) (pbuf c + 1), UplinkClearState (c\<lparr>rcvbuf := (rcvbuf c)[pbuf c := uc]\<rparr>))
     else Inl OutOfBounds)"
  by (auto simp: fsm_step_def fsm_put_def fsm_ok_def MAXLEN_GPRSITF_BUF_def StopUpTimer_def UplinkClearState_def Let_def)

lemma fsm_okD:
  assumes "fsm_ok c"
  shows "length (rcvbuf c) = MAXLEN_GPRSITF_BUF" "cnt c = pbuf c" "pbuf c \<le> MAXLEN_GPRSITF_BUF" "stage_ok (stat c) (pbuf c) (maxlen c) (rcvbuf c)"
  using assms by (simp_all add: fsm_ok_def)

lemma fsm_okI:
  "length (rcvbuf c) = MAXLEN_GPRSITF_BUF \<Longrightarrow> cnt c = pbuf c \<Longrightarrow> pbuf c \<le> MAXLEN_GPRSITF_BUF \<Longrightarrow> stage_ok (stat c) (pbuf c) (maxlen c) (rcvbuf c) \<Longrightarrow> fsm_ok c"
  by (simp add: fsm_ok_def)

lemma stage_simps:
  "stage_ok (Suc 0) p m b \<longleftrightarrow> b ! 0 = UPLINK_HEAD \<and> m = 6 \<and> 0 < p \<and> p < 6"
  "stage_ok 2 p m b \<longleftrightarrow> b ! 0 = UPLINK_HEAD \<and> m = 10 \<and> p = 6"
  "stage_ok 3 p m b \<longleftrightarrow> b ! 0 = UPLINK_HEAD \<and> b ! 6 = UPLINK_HEAD \<and> m = 10 \<and> 7 \<le> p \<and> p < 10"
  "stage_ok 4 p m b \<longleftrightarrow> b ! 0 = UPLINK_HEAD \<and> b ! 6 = UPLINK_HEAD \<and> m = (pkt_len b + 12) mod 65536 \<and> 10 \<le> p \<and> p < max 11 m"
  "stage_ok 5 p m b \<longleftrightarrow> b ! 0 = UPLINK_HEAD \<and> b ! 6 = UPLINK_HEAD \<and> m = (pkt_len b + 12) mod 65536 \<and> 10 \<le> p \<and> p = max 11 m"
  by (simp_all add: stage_ok_def)

lemma fsm_step_ok_low:
  assumes ok: "fsm_ok c" and st: "fsm_step t uc c = Inr (acc, c')" and s: "stat c < 3"
  shows "fsm_ok c'"
proof -
  note d = fsm_okD [OF ok]
  consider "stat c = 0" | "stat c = 1" | "stat c = 2" using s by linarith
  then show ?thesis
  proof cases
    case 1
    then show ?thesis using st [unfolded fsm_step_0 [OF ok 1]] ok d(1)
      by (auto intro!: fsm_okI simp: SetUpTimer_def stage_simps MAXLEN_GPRSITF_BUF_def split: if_splits)
  next
    case 2
    from st [unfolded fsm_step_1 [OF ok 2]] have c': "c\<lparr>rcvbuf := (rcvbuf c)[pbuf c := uc],
     pbuf := pbuf c + 1, cnt := pbuf c + 1, stat := (if pbuf c = 5 then 2 else 1), maxlen := (if pbuf c = 5 then 10 else 6)\<rparr> = c'" by simp
    have "rcvbuf c ! 0 = UPLINK_HEAD" "0 < pbuf c" "pbuf c < 6" using d(4) 2 by (simp_all add: stage_simps)
    then show ?thesis unfolding c' [symmetric] using d(1)
      by (intro fsm_okI) (simp_all add: stage_simps MAXLEN_GPRSITF_BUF_def)
  next
    case 3
    have "rcvbuf c ! 0 = UPLINK_HEAD" "maxlen c = 10" using d(4) 3 by (simp_all add: stage_simps)
    then show ?thesis using st [unfolded fsm_step_2 [OF ok 3]] d(1)
      by (auto intro!: fsm_okI simp: stage_simps MAXLEN_GPRSITF_BUF_def split: if_splits)
  qed
qed

lemma fsm_step_ok_high:
  assumes ok: "fsm_ok c" and st: "fsm_step t uc c = Inr (acc, c')" and s: "3 \<le> stat c"
  shows "fsm_ok c'"
proof -
  note d = fsm_okD [OF ok]
  consider "stat c = 3" | "stat c = 4" | "stat c = 5" using s stage_le_5 [OF d(4)] by fastforce
  then show ?thesis
  proof cases
    case 1
    have p: "rcvbuf c ! 0 = UPLINK_HEAD" "rcvbuf c ! 6 = UPLINK_HEAD" "7 \<le> pbuf c" "pbuf c < 10" using d(4) by (simp_all add: 1 stage_simps)
    from st [unfolded fsm_step_3 [OF ok 1] Let_def] have c': "c\<lparr>rcvbuf := (rcvbuf c)[pbuf c := uc], pbuf := pbuf c + 1, cnt := pbuf c + 1,
        stat := (if pbuf c = 9 then 4 else 3), maxlen := (if pbuf c = 9 then (pkt_len ((rcvbuf c)[pbuf c := uc]) + 12) mod 65536 else 10)\<rparr> = c'" by simp
    show ?thesis
      unfolding c' [symmetric] using d(1) p by (cases "pbuf c = 9"; intro fsm_okI) (simp_all add: stage_simps MAXLEN_GPRSITF_BUF_def)
  next
    case 2
    have p: "rcvbuf c ! 0 = UPLINK_HEAD" "rcvbuf c ! 6 = UPLINK_HEAD" "10 \<le> pbuf c" "pbuf c < max 11 (maxlen c)"
      "maxlen c = (pkt_len (rcvbuf c) + 12) mod 65536" using d(4) unfolding 2 stage_simps by blast+
    from st [unfolded fsm_step_4 [OF ok 2]] have n: "pbuf c < MAXLEN_GPRSITF_BUF" and
      c': "c\<lparr>rcvbuf := (rcvbuf c)[pbuf c := uc], pbuf := pbuf c + 1, cnt := pbuf c + 1, stat := (if maxlen c \<le> pbuf c + 1 then 5 else 4)\<rparr> = c'"
      by (simp_all split: if_splits)
    have "pbuf c + 1 = max 11 (maxlen c) \<or> pbuf c + 1 < max 11 (maxlen c)" using p(4) by linarith
    then show ?thesis unfolding c' [symmetric] using d(1) p(1,2,3) n
      by (cases "maxlen c \<le> pbuf c + 1"; intro fsm_okI) (auto simp: stage_simps p(5) [symmetric])
  next
    case 3
    then show ?thesis using st [unfolded fsm_step_5 [OF ok 3]] d(1) by (auto split: if_splits)
  qed
qed

lemma fsm_step_ok: "fsm_ok c \<Longrightarrow> fsm_step t uc c = Inr (acc, c') \<Longrightarrow> fsm_ok c'"
  using fsm_step_ok_low [of c t uc acc c'] fsm_step_ok_high [of c t uc acc c'] by linarith

lemma CheckStreamOK_take:
  "13 \<le> n \<Longrightarrow> n \<le> length b \<Longrightarrow> CheckStreamOK (take n b) n = CheckStreamOK b n"
  by (simp add: CheckStreamOK_def min_def)

lemma CheckStreamOK_well_formed: "CheckStreamOK b n \<longleftrightarrow> well_formed b n"
  by (auto simp: CheckStreamOK_def well_formed_def UPLINK_HEAD_def UPLINK_TAIL_def)

lemma valid_frame_check: "valid_frame f \<longleftrightarrow> length f = pkt_len f + 13 \<and> length f \<le> MAXLEN_GPRSITF_BUF \<and> CheckStreamOK f (length f)"
  by (simp add: valid_frame_def CheckStreamOK_well_formed)

lemma pkt_len_take [simp]: "10 \<le> n \<Longrightarrow> pkt_len (take n b) = pkt_len b"
  by (simp add: pkt_len_def)

lemma accepted_valid: "accepted b \<Longrightarrow> length b = MAXLEN_GPRSITF_BUF \<Longrightarrow> pkt_len b < 65524 \<Longrightarrow> valid_frame (take (pkt_len b + 13) b)"
  by (auto simp: accepted_def valid_frame_check CheckStreamOK_take add.commute)

lemma fsm_step_accepts:
  assumes ok: "fsm_ok c" and st: "fsm_step t uc c = Inr (True, c')"
  shows "accepted (rcvbuf c')" "stat c' = 0"
proof -
  note d = fsm_okD [OF ok]
  consider "stat c = 0" | "stat c = 1" | "stat c = 2" | "stat c = 3" | "stat c = 4" | "stat c = 5"
    using stage_le_5 [OF d(4)] by (elim disjE)
  then have "stat c = 5"
    using ok st by cases (auto simp: fsm_step_0 fsm_step_1 fsm_step_2 fsm_step_3 fsm_step_4 split: if_splits)
  then have p: "pbuf c = max 11 (maxlen c)" "maxlen c = (pkt_len (rcvbuf c) + 12) mod 65536" "10 \<le> pbuf c"
    and s: "CheckStreamOK ((rcvbuf c)[pbuf c := uc]) (pbuf c + 1)" "pbuf c < MAXLEN_GPRSITF_BUF"
      "rcvbuf c' = (rcvbuf c)[pbuf c := uc]" "stat c' = 0"
    using ok st d(4) by (auto simp: fsm_step_5 stage_ok_def split: if_splits)
  then show "accepted (rcvbuf c')" "stat c' = 0" by (auto simp: accepted_def)
qed

text \<open>The only way out of the buffer.\<close>

lemma fsm_step_overrun:
  assumes ok: "fsm_ok c" and st: "fsm_step t uc c = Inl s"
  shows "s = OutOfBounds \<and> 1140 \<le> pkt_len (rcvbuf c) \<and> pbuf c = MAXLEN_GPRSITF_BUF"
proof -
  note d = fsm_okD [OF ok]
  consider "stat c = 0" | "stat c = 1" | "stat c = 2" | "stat c = 3" | "stat c = 4" | "stat c = 5"
    using stage_le_5 [OF d(4)] by (elim disjE)
  then have q: "(stat c = 4 \<or> stat c = 5) \<and> pbuf c = MAXLEN_GPRSITF_BUF \<and> s = OutOfBounds"
  proof cases
    case 1 then show ?thesis using st [unfolded fsm_step_0 [OF ok 1]] by (simp split: if_splits)
  next
    case 2 then show ?thesis using st [unfolded fsm_step_1 [OF ok 2]] by simp
  next
    case 3 then show ?thesis using st [unfolded fsm_step_2 [OF ok 3]] by simp
  next
    case 4 then show ?thesis using st [unfolded fsm_step_3 [OF ok 4]] by simp
  next
    case 5 then show ?thesis using st [unfolded fsm_step_4 [OF ok 5]] d(3) by (simp split: if_splits)
  next
    case 6 then show ?thesis using st [unfolded fsm_step_5 [OF ok 6]] d(3) by (simp split: if_splits)
  qed
  have "1152 \<le> (pkt_len (rcvbuf c) + 12) mod 65536"
  proof (cases "stat c = 4")
    case True
    have "1152 < max 11 ((pkt_len (rcvbuf c) + 12) mod 65536)" using d(4) q by (auto simp: True stage_simps MAXLEN_GPRSITF_BUF_def)
    then show ?thesis by linarith
  next
    case False
    then have f: "stat c = 5" using q by simp
    have "1152 = max 11 ((pkt_len (rcvbuf c) + 12) mod 65536)" using d(4) q by (auto simp: f stage_simps MAXLEN_GPRSITF_BUF_def)
    then show ?thesis by linarith
  qed
  then have "1152 \<le> pkt_len (rcvbuf c) + 12" using mod_less_eq_dividend order_trans by blast
  then show ?thesis using q by simp
qed

lemma fsm_feed_append:
  "fsm_feed t (xs @ ys) c = (case fsm_feed t xs c of Inl s \<Rightarrow> Inl s
     | Inr (True, c, r) \<Rightarrow> Inr (True, c, r @ ys) | Inr (False, c, r) \<Rightarrow> fsm_feed t ys c)"
  by (induction xs arbitrary: c) (auto split: sum.splits bool.splits)

lemma fsm_feed_ok: "fsm_ok c \<Longrightarrow> fsm_feed t bs c = Inr (acc, c', r) \<Longrightarrow> fsm_ok c' \<and> (acc \<longrightarrow> accepted (rcvbuf c') \<and> stat c' = 0) \<and> (\<not> acc \<longrightarrow> r = [])"
proof (induction bs arbitrary: c)
  case (Cons b bs)
  obtain a c1 where st: "fsm_step t b c = Inr (a, c1)" using Cons.prems by (auto split: sum.splits)
  note k = fsm_step_ok [OF Cons.prems(1) st]
  show ?case
  proof (cases a)
    case True
    then show ?thesis using Cons.prems st k fsm_step_accepts [of c t b c1] by simp
  next
    case False
    then show ?thesis using Cons.prems st Cons.IH [OF k] by simp
  qed
qed simp

lemma fsm_feed_overrun: "fsm_ok c \<Longrightarrow> fsm_feed t bs c = Inl s \<Longrightarrow> s = OutOfBounds"
proof (induction bs arbitrary: c)
  case (Cons b bs)
  show ?case
  proof (cases "fsm_step t b c")
    case (Inl x) then show ?thesis using Cons.prems fsm_step_overrun by auto
  next
    case (Inr p)
    then obtain a c1 where st: "fsm_step t b c = Inr (a, c1)" by (cases p) auto
    note k = fsm_step_ok [OF Cons.prems(1) st]
    show ?thesis using Cons.prems st Cons.IH [OF k] by (cases a) auto
  qed
qed simp

text \<open>What is stored is always the end of what was read.\<close>

lemma wrapped_length: "Suc (max 11 ((pkt_len b + 12) mod 65536)) = frame_bytes b"
proof (cases "pkt_len b < 65524")
  case True
  then show ?thesis by (simp add: frame_bytes_def)
next
  case False
  then obtain k where k: "pkt_len b = 65524 + k" by (metis le_Suc_ex not_less)
  have "k < 12" using pkt_len_less [of b] k by linarith
  moreover have "pkt_len b + 12 = k + 65536" using k by simp
  then have "(pkt_len b + 12) mod 65536 = k mod 65536" by (simp only: mod_add_self2)
  ultimately show ?thesis using False by (simp add: frame_bytes_def)
qed

lemma accepted_bytes: "accepted b \<longleftrightarrow> frame_bytes b \<le> MAXLEN_GPRSITF_BUF \<and> well_formed b (frame_bytes b)"
  using wrapped_length [of b] by (auto simp: accepted_def CheckStreamOK_well_formed)

lemma take_put: "p < length b \<Longrightarrow> take (Suc p) (b[p := u]) = take p b @ [u]"
  by (simp add: take_Suc_conv_app_nth)

lemma fsm_step_stream:
  assumes ok: "fsm_ok c" and st: "fsm_step t u c = Inr (False, c')"
  shows "\<exists>p. take (pbuf c) (rcvbuf c) @ [u] = p @ take (pbuf c') (rcvbuf c')"
proof -
  note d = fsm_okD [OF ok]
  have put: ?thesis if "rcvbuf c' = (rcvbuf c)[pbuf c := u]" "pbuf c' = Suc (pbuf c)" "pbuf c < MAXLEN_GPRSITF_BUF"
    using that d(1) by (intro exI [of _ "[]"]) (simp add: take_put)
  have clear: ?thesis if "pbuf c' = 0" using that by simp
  consider "stat c = 0" | "stat c = 1" | "stat c = 2" | "stat c = 3" | "stat c = 4" | "stat c = 5"
    using stage_le_5 [OF d(4)] by (elim disjE)
  then show ?thesis
  proof cases
    case 1
    then have "pbuf c = 0" using d(4) by simp
    then show ?thesis using st [unfolded fsm_step_0 [OF ok 1]] put clear by (auto simp: SetUpTimer_def MAXLEN_GPRSITF_BUF_def split: if_splits)
  next
    case 2
    then have "pbuf c < 6" using d(4) by (simp add: stage_simps)
    then show ?thesis using st [unfolded fsm_step_1 [OF ok 2]] put by (auto simp: MAXLEN_GPRSITF_BUF_def)
  next
    case 3
    then have "pbuf c = 6" using d(4) by (simp add: stage_simps)
    then show ?thesis using st [unfolded fsm_step_2 [OF ok 3]] put clear by (auto simp: MAXLEN_GPRSITF_BUF_def split: if_splits)
  next
    case 4
    then have "pbuf c < 10" using d(4) by (simp add: stage_simps)
    then show ?thesis using st [unfolded fsm_step_3 [OF ok 4] Let_def] put by (auto simp: MAXLEN_GPRSITF_BUF_def)
  next
    case 5
    then show ?thesis using st [unfolded fsm_step_4 [OF ok 5]] put by (auto split: if_splits)
  next
    case 6
    then show ?thesis using st [unfolded fsm_step_5 [OF ok 6]] clear by (auto split: if_splits)
  qed
qed

lemma fsm_accept_stream:
  assumes ok: "fsm_ok c" and st: "fsm_step t u c = Inr (True, c')"
  shows "take (pbuf c) (rcvbuf c) @ [u] = take (frame_bytes (rcvbuf c')) (rcvbuf c')"
proof -
  note d = fsm_okD [OF ok]
  consider "stat c = 0" | "stat c = 1" | "stat c = 2" | "stat c = 3" | "stat c = 4" | "stat c = 5"
    using stage_le_5 [OF d(4)] by (elim disjE)
  then have five: "stat c = 5"
    using ok st by cases (auto simp: fsm_step_0 fsm_step_1 fsm_step_2 fsm_step_3 fsm_step_4 split: if_splits)
  have c': "rcvbuf c' = (rcvbuf c)[pbuf c := u]" "pbuf c < MAXLEN_GPRSITF_BUF"
    using st [unfolded fsm_step_5 [OF ok five]] by (auto split: if_splits)
  have "maxlen c = (pkt_len (rcvbuf c) + 12) mod 65536" "10 \<le> pbuf c" "pbuf c = max 11 (maxlen c)" using d(4) unfolding five stage_simps by blast+
  then have "Suc (pbuf c) = frame_bytes (rcvbuf c')" using wrapped_length [of "rcvbuf c'"] by (simp only: c'(1) pkt_len_update)
  then show ?thesis using c' d(1) take_put [of "pbuf c" "rcvbuf c" u] by simp
qed

text \<open>Bytes that drive the receiver out of its buffer: a frame with a length that does not fit, and at least 1153 bytes of it.\<close>

definition overlong :: "bytes \<Rightarrow> bool" where
  "overlong f \<longleftrightarrow> 1153 \<le> length f \<and> f ! 0 = 0x68 \<and> f ! 6 = 0x68 \<and> 1140 \<le> pkt_len f"

lemma fsm_feed_stream:
  "fsm_ok c \<Longrightarrow> case fsm_feed t bs c of
     Inl s \<Rightarrow> \<exists>p f. take (pbuf c) (rcvbuf c) @ bs = p @ f \<and> overlong f
   | Inr (True, c', r) \<Rightarrow> \<exists>p. take (pbuf c) (rcvbuf c) @ bs = p @ take (frame_bytes (rcvbuf c')) (rcvbuf c') @ r
   | Inr (False, c', r) \<Rightarrow> \<exists>p. take (pbuf c) (rcvbuf c) @ bs = p @ take (pbuf c') (rcvbuf c')"
proof (induction bs arbitrary: c)
  case Nil
  then show ?case by simp
next
  case (Cons b bs)
  let ?S = "take (pbuf c) (rcvbuf c) @ b # bs"
  have S: "?S = (take (pbuf c) (rcvbuf c) @ [b]) @ bs" by simp
  show ?case
  proof (cases "fsm_step t b c")
    case (Inl s)
    note o = fsm_step_overrun [OF Cons.prems Inl]
    note d = fsm_okD [OF Cons.prems]
    have "10 \<le> pbuf c" using o by (simp add: MAXLEN_GPRSITF_BUF_def)
    then have h: "rcvbuf c ! 0 = 0x68" "rcvbuf c ! 6 = 0x68"
      using d(4) stage_le_5 [OF d(4)] o by (auto simp: stage_simps UPLINK_HEAD_def MAXLEN_GPRSITF_BUF_def)
    have t: "take (pbuf c) (rcvbuf c) = rcvbuf c" using o d(1) by simp
    have "pkt_len ?S = pkt_len (rcvbuf c)" using d(1) o unfolding t
      by (simp add: pkt_len_def nth_append MAXLEN_GPRSITF_BUF_def)
    moreover have "?S ! 0 = 0x68" "?S ! 6 = 0x68" unfolding t using h d(1) by (simp_all add: nth_append MAXLEN_GPRSITF_BUF_def)
    moreover have "1153 \<le> length ?S" unfolding t using d(1) by (simp add: MAXLEN_GPRSITF_BUF_def)
    ultimately have "overlong ?S" using o by (simp add: overlong_def)
    then show ?thesis using Inl by (auto intro: exI [of _ "[]"])
  next
    case (Inr x)
    obtain a c1 where x: "x = (a, c1)" by (cases x)
    show ?thesis
    proof (cases a)
      case True
      have "take (pbuf c) (rcvbuf c) @ [b] = take (frame_bytes (rcvbuf c1)) (rcvbuf c1)"
        using fsm_accept_stream [OF Cons.prems] Inr x True by simp
      then show ?thesis using Inr x True unfolding S by (auto intro: exI [of _ "[]"])
    next
      case False
      obtain p where p: "take (pbuf c) (rcvbuf c) @ [b] = p @ take (pbuf c1) (rcvbuf c1)"
        using fsm_step_stream [OF Cons.prems, of t b c1] Inr x False by auto
      have ok: "fsm_ok c1" using fsm_step_ok [OF Cons.prems] Inr x by blast
      have e: "fsm_feed t (b # bs) c = fsm_feed t bs c1" using Inr x False by simp
      have S': "?S = p @ (take (pbuf c1) (rcvbuf c1) @ bs)" using p S by simp
      show ?thesis using Cons.IH [OF ok] unfolding e S'
        by (auto split: sum.splits prod.splits bool.splits) (metis append.assoc)+
    qed
  qed
qed

lemma take_update_nth: "take k b = take k f \<Longrightarrow> k < length b \<Longrightarrow> k < length f \<Longrightarrow> take (Suc k) (b[k := f ! k]) = take (Suc k) f"
  by (simp add: take_Suc_conv_app_nth)

lemma nth_of_take: "take k b = take k f \<Longrightarrow> i < k \<Longrightarrow> b ! i = f ! i"
  by (metis nth_take)

lemma pkt_len_of_take: "take k b = take k f \<Longrightarrow> 10 \<le> k \<Longrightarrow> pkt_len b = pkt_len f"
  by (metis pkt_len_take)

lemma at_frame_step:
  assumes a: "at_frame f k c" and h: "f ! 0 = UPLINK_HEAD" "f ! 6 = UPLINK_HEAD" and l: "pkt_len f < 65524"
    and k: "k < pkt_len f + 12" "k < MAXLEN_GPRSITF_BUF" "k < length f"
  shows "\<exists>c'. fsm_step t (f ! k) c = Inr (False, c') \<and> at_frame f (Suc k) c' \<and> (0 < k \<longrightarrow> tm_cnt c' = tm_cnt c \<and> tm_flag c' = tm_flag c \<and> tm_max c' = tm_max c) \<and>
     (k = 0 \<longrightarrow> tm_cnt c' = 0 \<and> tm_flag c' \<and> tm_max c' = t)"
proof -
  have ok: "fsm_ok c" and p: "pbuf c = k" and tk: "take k (rcvbuf c) = take k f" and n5: "k < 11 \<longrightarrow> stat c \<noteq> 5"
    using a by (auto simp: at_frame_def)
  note d = fsm_okD [OF ok]
  have tk': "take (Suc k) ((rcvbuf c)[k := f ! k]) = take (Suc k) f"
    using take_update_nth [OF tk] d(1) k by simp
  have fl: "10 \<le> Suc k \<Longrightarrow> pkt_len ((rcvbuf c)[k := f ! k]) = pkt_len f"
    using pkt_len_of_take [OF tk'] .
  have nx: "fsm_ok c'" if "fsm_step t (f ! k) c = Inr (False, c')" for c' using fsm_step_ok [OF ok that] .
  consider "stat c = 0" | "stat c = 1" | "stat c = 2" | "stat c = 3" | "stat c = 4" | "stat c = 5"
    using stage_le_5 [OF d(4)] by (elim disjE)
  then show ?thesis
  proof cases
    case 1
    then have k0: "k = 0" using d(4) p by simp
    note e = fsm_step_0 [OF ok 1, of t "f ! k", unfolded k0 h(1), simplified]
    show ?thesis using nx [unfolded k0 h(1), OF e] e tk' by (simp add: at_frame_def SetUpTimer_def k0 h(1))
  next
    case 2
    then have k0: "0 < k" using d(4) p by (simp add: stage_simps)
    note e = fsm_step_1 [OF ok 2, of t "f ! k"]
    show ?thesis using nx [OF e] e tk' k0 p by (simp add: at_frame_def)
  next
    case 3
    then have k6: "k = 6" using d(4) p by (simp add: stage_simps)
    note e = fsm_step_2 [OF ok 3, of t "f ! k", unfolded k6 h(2), simplified]
    show ?thesis using nx [unfolded k6 h(2), OF e] e tk' by (simp add: at_frame_def k6 h(2))
  next
    case 4
    then have k0: "0 < k" using d(4) p by (simp add: stage_simps)
    note e = fsm_step_3 [OF ok 4, of t "f ! k", unfolded Let_def]
    show ?thesis using nx [OF e] e tk' k0 p by (simp add: at_frame_def)
  next
    case 5
    then have k10: "10 \<le> k" using d(4) p by (simp add: stage_simps)
    have "pkt_len (rcvbuf c) = pkt_len f" by (rule pkt_len_of_take [OF tk k10])
    then have "maxlen c = pkt_len f + 12" using d(4) 5 l by (simp add: stage_simps)
    note e = fsm_step_4 [OF ok 5, of t "f ! k", unfolded p, simplified k(2) if_True]
    show ?thesis using nx [OF e] e tk' k10 \<open>maxlen c = _\<close> by (simp add: at_frame_def)
  next
    case 6
    then have k10: "10 \<le> k" using d(4) p by (simp add: stage_simps)
    have "pkt_len (rcvbuf c) = pkt_len f" by (rule pkt_len_of_take [OF tk k10])
    then have "k = max 11 (pkt_len f + 12)" using d(4) 6 l p by (simp add: stage_simps)
    then show ?thesis using k by simp
  qed
qed

lemma at_frame_feed:
  assumes "at_frame f k c" "f ! 0 = UPLINK_HEAD" "f ! 6 = UPLINK_HEAD" "pkt_len f < 65524"
    "k + m \<le> pkt_len f + 12" "k + m \<le> MAXLEN_GPRSITF_BUF" "k + m \<le> length f"
  shows "\<exists>c'. fsm_feed t (take m (drop k f)) c = Inr (False, c', []) \<and> at_frame f (k + m) c' \<and>
    (0 < k \<or> m = 0 \<longrightarrow> same_timer c c') \<and> (k = 0 \<and> 0 < m \<longrightarrow> tm_cnt c' = 0 \<and> tm_flag c' \<and> tm_max c' = t)"
  using assms
proof (induction m arbitrary: k c)
  case (Suc m)
  obtain c1 where c1: "fsm_step t (f ! k) c = Inr (False, c1)" "at_frame f (Suc k) c1" "0 < k \<Longrightarrow> same_timer c c1"
      "k = 0 \<Longrightarrow> tm_cnt c1 = 0 \<and> tm_flag c1 \<and> tm_max c1 = t"
    using at_frame_step [OF Suc.prems(1-4), of t] Suc.prems(5-7) by (auto simp: same_timer_def)
  obtain c2 where c2: "fsm_feed t (take m (drop (Suc k) f)) c1 = Inr (False, c2, [])" "at_frame f (Suc k + m) c2" "same_timer c1 c2"
    using Suc.IH [OF c1(2) Suc.prems(2-4)] Suc.prems(5-7) by auto
  have "take (Suc m) (drop k f) = f ! k # take m (drop (Suc k) f)"
    using Suc.prems(7) by (simp add: Cons_nth_drop_Suc [symmetric])
  then show ?case using c1 c2 by (auto simp: same_timer_def)
qed (simp add: same_timer_def)

lemma valid_frameD:
  assumes "valid_frame f"
  shows "length f = pkt_len f + 13" "length f \<le> MAXLEN_GPRSITF_BUF" "CheckStreamOK f (length f)" "f ! 0 = UPLINK_HEAD"
    "f ! 6 = UPLINK_HEAD" "pkt_len f < 65524" "f ! (pkt_len f + 12) = UPLINK_TAIL"
  using assms by (auto simp: valid_frame_check CheckStreamOK_def MAXLEN_GPRSITF_BUF_def add.commute split: if_splits)

lemma at_frame_last:
  assumes f: "valid_frame f" and a: "at_frame f (pkt_len f + 12) c"
  shows "\<exists>c'. fsm_step t (f ! (pkt_len f + 12)) c = Inr (True, c') \<and> fsm_ok c' \<and> take (length f) (rcvbuf c') = f"
proof -
  note v = valid_frameD [OF f]
  have ok: "fsm_ok c" and p: "pbuf c = pkt_len f + 12" and tk: "take (pkt_len f + 12) (rcvbuf c) = take (pkt_len f + 12) f"
    using a by (auto simp: at_frame_def)
  note d = fsm_okD [OF ok]
  have pl: "pkt_len (rcvbuf c) = pkt_len f" by (rule pkt_len_of_take [OF tk]) simp
  have five: "stat c = 5"
    using d(4) p pl v(6) stage_le_5 [OF d(4)] by (auto simp: stage_simps)
  have n: "pkt_len f + 12 < MAXLEN_GPRSITF_BUF" using v(1,2) by simp
  have tk': "take (length f) ((rcvbuf c)[pkt_len f + 12 := f ! (pkt_len f + 12)]) = f"
    using take_update_nth [OF tk] d(1) n v(1) by (simp add: eval_nat_numeral)
  have "CheckStreamOK ((rcvbuf c)[pkt_len f + 12 := f ! (pkt_len f + 12)]) (length f)"
    using v(3) d(1) v(1,2) CheckStreamOK_take [of "length f" "(rcvbuf c)[pkt_len f + 12 := f ! (pkt_len f + 12)]"] unfolding tk' by simp
  then show ?thesis
    using fsm_step_5 [OF ok five, of t "f ! (pkt_len f + 12)"] p v(1,7) n tk' d(1) by (simp add: add.commute)
qed

lemma at_frame_complete:
  assumes f: "valid_frame f" and a: "at_frame f k c" and k: "k \<le> pkt_len f + 12"
  shows "\<exists>c'. fsm_feed t (drop k f) c = Inr (True, c', []) \<and> fsm_ok c' \<and> take (length f) (rcvbuf c') = f"
proof -
  note v = valid_frameD [OF f]
  define m where "m = pkt_len f + 12 - k"
  obtain c1 where c1: "fsm_feed t (take m (drop k f)) c = Inr (False, c1, [])" "at_frame f (pkt_len f + 12) c1"
    using at_frame_feed [OF a v(4-6), of m t] k v(1,2) by (auto simp: m_def)
  have e: "drop k f = take m (drop k f) @ [f ! (pkt_len f + 12)]"
  proof -
    have "drop (pkt_len f + 12) f = [f ! (pkt_len f + 12)]"
      using v(1) by (simp add: Cons_nth_drop_Suc [symmetric])
    moreover have "drop m (drop k f) = drop (pkt_len f + 12) f" using k by (simp add: m_def)
    ultimately show ?thesis by (metis append_take_drop_id)
  qed
  obtain c2 where "fsm_step t (f ! (pkt_len f + 12)) c1 = Inr (True, c2)" "fsm_ok c2" "take (length f) (rcvbuf c2) = f"
    using at_frame_last [OF f c1(2), of t] by blast
  then show ?thesis using c1 by (subst e) (simp add: fsm_feed_append)
qed

lemma at_frame_idle: "fsm_ok c \<Longrightarrow> stat c = 0 \<Longrightarrow> at_frame f 0 c"
  by (simp add: at_frame_def fsm_ok_def)

lemma at_frame_timer:
  assumes "at_frame f k c" "k = 0 \<or> (tm_flag c \<and> tm_cnt c + 1 < tm_max c)"
  shows "at_frame f k (UpTimerProc c)" "0 < k \<Longrightarrow> tm_cnt (UpTimerProc c) = tm_cnt c + 1 \<and> tm_flag (UpTimerProc c) \<and> tm_max (UpTimerProc c) = tm_max c"
proof -
  show "at_frame f k (UpTimerProc c)"
    using assms fsm_ok_timer [of c] by (auto simp: at_frame_def UpTimerProc_def Let_def)
  show "0 < k \<Longrightarrow> tm_cnt (UpTimerProc c) = tm_cnt c + 1 \<and> tm_flag (UpTimerProc c) \<and> tm_max (UpTimerProc c) = tm_max c"
    using assms by (simp add: UpTimerProc_def Let_def)
qed

lemma fsm_feed_rest: "fsm_feed t bs c = Inr (a, c', r) \<Longrightarrow> length r \<le> length bs"
  by (induction bs arbitrary: c) (fastforce split: sum.splits bool.splits)+

text \<open>What the receiver and the sender need from an interface: \<open>polls e n\<close> are the bytes that
  the \<open>n\<close>-th call from now finds, \<open>sent e\<close> the frames that went out.\<close>

locale byte_source =
  fixes getchar :: "'e \<Rightarrow> (u8 option \<times> 'e) run"
    and polls :: "'e \<Rightarrow> nat \<Rightarrow> bytes"
    and ok :: "'e \<Rightarrow> bool"
  assumes get_some: "ok e \<Longrightarrow> polls e 0 = b # bs \<Longrightarrow> \<exists>e'. getchar e = Inr (Some b, e') \<and> ok e' \<and> polls e' = (polls e)(0 := bs)"
    and get_none: "ok e \<Longrightarrow> polls e 0 = [] \<Longrightarrow> \<exists>e'. getchar e = Inr (None, e') \<and> ok e' \<and> polls e' = (\<lambda>n. polls e (Suc n))"
begin

lemma recv_loop_feed:
  "ok e \<Longrightarrow> length (polls e 0) < fuel \<Longrightarrow>
   (case fsm_feed t (polls e 0) c of
      Inl s \<Rightarrow> UplinkRecv_loop getchar t fuel c e = Inl s
    | Inr (True, c', r) \<Rightarrow> \<exists>e'. UplinkRecv_loop getchar t fuel c e = Inr (0, c', e') \<and> ok e' \<and> polls e' = (polls e)(0 := r)
    | Inr (False, c', r) \<Rightarrow> \<exists>e'. UplinkRecv_loop getchar t fuel c e = Inr (1, c', e') \<and> ok e' \<and> polls e' = (\<lambda>n. polls e (Suc n)))"
proof (induction fuel arbitrary: c e)
  case (Suc fuel)
  show ?case
  proof (cases "polls e 0")
    case Nil
    then show ?thesis using get_none [OF Suc.prems(1) Nil] by auto
  next
    case (Cons b bs)
    obtain e1 where e1: "getchar e = Inr (Some b, e1)" "ok e1" "polls e1 = (polls e)(0 := bs)"
      using get_some [OF Suc.prems(1) Cons] by blast
    have l: "length (polls e1 0) < fuel" using Suc.prems(2) Cons e1(3) by simp
    note ih = Suc.IH [OF e1(2) l]
    show ?thesis
    proof (cases "fsm_step t b c")
      case (Inl s) then show ?thesis using Cons e1 by simp
    next
      case (Inr p)
      obtain a c1 where p: "p = (a, c1)" by (cases p)
      show ?thesis
      proof (cases a)
        case True then show ?thesis using Inr p Cons e1 by auto
      next
        case False
        have e: "UplinkRecv_loop getchar t (Suc fuel) c e = UplinkRecv_loop getchar t fuel c1 e1"
          "fsm_feed t (polls e 0) c = fsm_feed t bs c1"
          using Inr p False Cons e1 by simp_all
        show ?thesis unfolding e using ih [of c1] by (simp add: e1(3) comp_def fun_upd_def cong: if_cong split: sum.splits prod.splits bool.splits)
      qed
    qed
  qed
qed simp

lemma recv_feed_accept:
  assumes "ok e" "length (polls e 0) < fuel" "fsm_feed t (polls e 0) (UpTimerProc c) = Inr (True, c', r)"
  shows "\<exists>e'. UplinkRecvPkt getchar t fuel c e = Inr (0, c', e') \<and> ok e' \<and> polls e' = (polls e)(0 := r)"
  using recv_loop_feed [OF assms(1,2), of t "UpTimerProc c"] assms(3) by (simp add: UplinkRecvPkt_def)

lemma recv_feed_more:
  assumes "ok e" "length (polls e 0) < fuel" "fsm_feed t (polls e 0) (UpTimerProc c) = Inr (False, c', r)"
  shows "\<exists>e'. UplinkRecvPkt getchar t fuel c e = Inr (1, c', e') \<and> ok e' \<and> polls e' = (\<lambda>n. polls e (Suc n))"
  using recv_loop_feed [OF assms(1,2), of t "UpTimerProc c"] assms(3) by (simp add: UplinkRecvPkt_def)

text \<open>A call returns: with a frame, without one, or by leaving the buffer.\<close>

lemma recv_returns:
  assumes "ok e" "length (polls e 0) < fuel" "fsm_ok c"
  shows "UplinkRecvPkt getchar t fuel c e = Inl OutOfBounds \<or>
    (\<exists>c' e'. UplinkRecvPkt getchar t fuel c e = Inr (1, c', e') \<and> fsm_ok c' \<and> ok e' \<and> polls e' = (\<lambda>n. polls e (Suc n))) \<or>
    (\<exists>c' e' r. UplinkRecvPkt getchar t fuel c e = Inr (0, c', e') \<and> fsm_ok c' \<and> accepted (rcvbuf c') \<and> stat c' = 0 \<and>
       ok e' \<and> polls e' = (polls e)(0 := r) \<and> length r \<le> length (polls e 0))"
proof -
  note ok = fsm_ok_timer [OF assms(3)]
  show ?thesis
  proof (cases "fsm_feed t (polls e 0) (UpTimerProc c)")
    case (Inl s)
    then have "s = OutOfBounds" using fsm_feed_overrun [OF ok] by blast
    then show ?thesis using recv_loop_feed [OF assms(1,2), of t "UpTimerProc c"] Inl by (simp add: UplinkRecvPkt_def)
  next
    case (Inr p)
    obtain a c1 r where p: "p = (a, c1, r)" by (cases p) auto
    note k = fsm_feed_ok [OF ok Inr [unfolded p]]
    show ?thesis
    proof (cases a)
      case True
      have "length r \<le> length (polls e 0)" using fsm_feed_rest [OF Inr [unfolded p]] .
      moreover obtain e' where "UplinkRecvPkt getchar t fuel c e = Inr (0, c1, e')" "ok e'" "polls e' = (polls e)(0 := r)"
        using recv_feed_accept [OF assms(1,2), of t c c1 r] Inr p True by auto
      ultimately show ?thesis using k True by blast
    next
      case False then show ?thesis using recv_feed_more [OF assms(1,2), of t c c1 r] Inr p k by auto
    qed
  qed
qed

text \<open>A frame that arrives in pieces, one per round of waiting.\<close>

lemma wait_chunks:
  assumes f: "valid_frame f"
  shows "chunks \<noteq> [] \<Longrightarrow> last chunks \<noteq> [] \<Longrightarrow> \<forall>i < length chunks. polls e i = chunks ! i \<and> length (polls e i) < fuel \<Longrightarrow>
    concat chunks = drop k f \<Longrightarrow> k \<le> pkt_len f + 12 \<Longrightarrow> at_frame f k c \<Longrightarrow> length chunks \<le> j \<Longrightarrow> ok e \<Longrightarrow>
    (if k = 0 then int (length chunks) \<le> t else tm_flag c \<and> tm_max c = t \<and> tm_cnt c + int (length chunks) < t) \<Longrightarrow>
    \<exists>c' e'. wait_loop getchar t fuel j cmd c e = Inr (Some (if IsEchoPkt f cmd then UPRTN_OK else UPRTN_OKRCV), c', e') \<and>
      ok e' \<and> fsm_ok c' \<and> take (length f) (rcvbuf c') = f"
proof (induction chunks arbitrary: k c e j)
  case (Cons ch chunks)
  note v = valid_frameD [OF f]
  obtain j' where j: "j = Suc j'" using Cons.prems(7) by (cases j) auto
  have p0: "polls e 0 = ch" "length (polls e 0) < fuel" using Cons.prems(3) by auto
  have tm: "k = 0 \<or> (tm_flag c \<and> tm_cnt c + 1 < tm_max c)"
    using Cons.prems(9) by (auto split: if_splits)
  note at = at_frame_timer [OF Cons.prems(6) tm]
  show ?case
  proof (cases "chunks = []")
    case True
    then have ch: "ch = drop k f" using Cons.prems(4) by simp
    obtain c' where c': "fsm_feed t ch (UpTimerProc c) = Inr (True, c', [])" "fsm_ok c'" "take (length f) (rcvbuf c') = f"
      using at_frame_complete [OF f at(1) Cons.prems(5), of t] ch by blast
    then obtain e' where e': "UplinkRecvPkt getchar t fuel c e = Inr (0, c', e')" "ok e'"
      using recv_feed_accept [OF Cons.prems(8) p0(2)] p0(1) by blast
    have "pkt_cmd (rcvbuf c') = pkt_cmd f"
      using nth_of_take [of "length f" "rcvbuf c'" f 7] c'(3) v(1) by (simp add: pkt_cmd_def)
    then have "IsEchoPkt (rcvbuf c') cmd = IsEchoPkt f cmd" by (simp add: IsEchoPkt_def)
    then show ?thesis using e' c' j by simp
  next
    case False
    define m where "m = length ch"
    have len: "length ch + length (concat chunks) = length f - k" using arg_cong [OF Cons.prems(4), of length] by simp
    have "concat chunks \<noteq> []" using False Cons.prems(2) by (metis concat_eq_Nil_conv last_ConsR last_in_set)
    then have pos: "0 < length (concat chunks)" by blast
    have ch: "ch = take m (drop k f)" using Cons.prems(4) unfolding m_def by (metis append_eq_conv_conj concat.simps(2))
    have km: "k + m \<le> pkt_len f + 12" using len pos v(1) Cons.prems(5) unfolding m_def by linarith
    obtain c1 where c1: "fsm_feed t ch (UpTimerProc c) = Inr (False, c1, [])" "at_frame f (k + m) c1"
      "0 < k \<or> m = 0 \<Longrightarrow> same_timer (UpTimerProc c) c1" "k = 0 \<and> 0 < m \<Longrightarrow> tm_cnt c1 = 0 \<and> tm_flag c1 \<and> tm_max c1 = t"
      using at_frame_feed [OF at(1) v(4-6) km, of t] km v(1,2) ch by auto
    obtain e1 where e1: "UplinkRecvPkt getchar t fuel c e = Inr (1, c1, e1)" "ok e1" "polls e1 = (\<lambda>n. polls e (Suc n))"
      using recv_feed_more [OF Cons.prems(8) p0(2)] p0(1) c1(1) by blast
    have "concat chunks = drop (k + m) f"
      using Cons.prems(4) unfolding m_def by (metis append_eq_conv_conj concat.simps(2) drop_drop add.commute)
    moreover have "if k + m = 0 then int (length chunks) \<le> t else tm_flag c1 \<and> tm_max c1 = t \<and> tm_cnt c1 + int (length chunks) < t"
    proof (cases "k = 0")
      case True
      then show ?thesis using Cons.prems(9) c1(4) by auto
    next
      case False
      then show ?thesis using Cons.prems(9) c1(3) at(2) by (auto simp: same_timer_def)
    qed
    moreover have "\<forall>i < length chunks. polls e1 i = chunks ! i \<and> length (polls e1 i) < fuel"
      using Cons.prems(3) unfolding e1(3) by (metis Suc_less_eq length_Cons nth_Cons_Suc)
    moreover have "last chunks \<noteq> []" using Cons.prems(2) False by simp
    moreover have "length chunks \<le> j'" using Cons.prems(7) j by simp
    ultimately obtain c' e' where "wait_loop getchar t fuel j' cmd c1 e1 = Inr (Some (if IsEchoPkt f cmd then UPRTN_OK else UPRTN_OKRCV), c', e')"
        "ok e'" "fsm_ok c'" "take (length f) (rcvbuf c') = f"
      using Cons.IH [OF False _ _ _ km c1(2) _ e1(2)] by blast
    then show ?thesis using e1(1) j by auto
  qed
qed simp

end

text \<open>The sender adds the laws of its output.\<close>

locale uplink_itf = byte_source "itf_getchar pitf" polls ok
  for pitf :: "'e uplinkitf_t" and polls :: "'e \<Rightarrow> nat \<Rightarrow> bytes" and ok :: "'e \<Rightarrow> bool" +
  fixes sent :: "'e \<Rightarrow> bytes list"
  assumes line: "itf_linestat pitf e"
    and get_sent: "itf_getchar pitf e = Inr (x, e') \<Longrightarrow> sent e' = sent e"
    and send_ok: "ok e \<Longrightarrow> itf_rawsend pitf b e = (False, e') \<Longrightarrow> ok e' \<and> polls e' = polls e \<and> sent e' = sent e @ [b]"
    and send_fail: "itf_rawsend pitf b e = (True, e') \<Longrightarrow> sent e' = sent e"
begin

lemma recv_sent_loop: "UplinkRecv_loop (itf_getchar pitf) t fuel c e = Inr (r, c', e') \<Longrightarrow> sent e' = sent e"
proof (induction fuel arbitrary: c e)
  case (Suc fuel)
  then show ?case
  proof (cases "itf_getchar pitf e")
    case (Inr p)
    obtain x e1 where p: "p = (x, e1)" by (cases p)
    have s1: "sent e1 = sent e" using get_sent Inr p by blast
    show ?thesis
    proof (cases x)
      case None then show ?thesis using Suc.prems Inr p s1 by simp
    next
      case (Some uc)
      then show ?thesis using Suc.prems Inr p s1 Suc.IH [of _ e1]
        by (simp split: sum.splits prod.splits bool.splits)
    qed
  qed simp
qed simp

lemma wait_sent: "wait_loop (itf_getchar pitf) t fuel j cmd c e = Inr (r, c', e') \<Longrightarrow> sent e' = sent e"
proof (induction j arbitrary: c e)
  case (Suc j)
  then show ?case
    by (auto simp: UplinkRecvPkt_def dest: recv_sent_loop split: sum.splits prod.splits if_splits)
qed simp

lemma wait_returns:
  "ok e \<Longrightarrow> \<forall>i. length (polls e i) < fuel \<Longrightarrow> fsm_ok c \<Longrightarrow>
   wait_loop (itf_getchar pitf) t fuel j cmd c e = Inl OutOfBounds \<or>
   (\<exists>r c' e'. wait_loop (itf_getchar pitf) t fuel j cmd c e = Inr (r, c', e') \<and> fsm_ok c' \<and> ok e' \<and> (\<forall>i. length (polls e' i) < fuel) \<and>
     (r = None \<or> accepted (rcvbuf c') \<and> r = Some (if IsEchoPkt (rcvbuf c') cmd then UPRTN_OK else UPRTN_OKRCV)))"
proof (induction j arbitrary: c e)
  case (Suc j)
  have l: "length (polls e 0) < fuel" using Suc.prems(2) by blast
  consider "UplinkRecvPkt (itf_getchar pitf) t fuel c e = Inl OutOfBounds"
    | c' e' where "UplinkRecvPkt (itf_getchar pitf) t fuel c e = Inr (1, c', e')" "fsm_ok c'" "ok e'" "polls e' = (\<lambda>n. polls e (Suc n))"
    | c' e' r where "UplinkRecvPkt (itf_getchar pitf) t fuel c e = Inr (0, c', e')" "fsm_ok c'" "accepted (rcvbuf c')" "ok e'"
        "polls e' = (polls e)(0 := r)" "length r \<le> length (polls e 0)"
    using recv_returns [OF Suc.prems(1) l Suc.prems(3), of t] by blast
  then show ?case
  proof cases
    case 1 then show ?thesis by simp
  next
    case 2 then show ?thesis using Suc.IH [OF 2(3) _ 2(2)] Suc.prems(2) by auto
  next
    case 3
    have "\<forall>i. length (polls e' i) < fuel" using 3(5,6) Suc.prems(2) by (auto simp: le_less_trans [OF 3(6)])
    then show ?thesis using 3 by simp
  qed
qed simp

end

text \<open>What a packet becomes on its way out.\<close>

lemma length_set_addr [simp]: "length (set_addr d pkt) = length pkt"
  by (simp add: set_addr_def)

lemma set_addr_nth: "set_addr d pkt ! 0 = pkt ! 0" "6 \<le> i \<Longrightarrow> set_addr d pkt ! i = pkt ! i"
  by (simp_all add: set_addr_def)

lemma set_addr_twice: "set_addr d (set_addr d pkt) = set_addr d pkt"
  by (simp add: set_addr_def list_update_swap)

lemma pkt_len_set_addr [simp]: "pkt_len (set_addr d pkt) = pkt_len pkt" and pkt_cmd_set_addr [simp]: "pkt_cmd (set_addr d pkt) = pkt_cmd pkt"
  by (simp_all add: pkt_len_def pkt_cmd_def set_addr_nth)

lemma MakePacketG_framed:
  assumes "pkt_len pkt + 13 \<le> length pkt"
  shows "MakePacketG pkt = Inr (pkt_len pkt + 13, framed pkt @ drop (pkt_len pkt + 13) pkt)"
  using assms by (simp add: MakePacketG_def put_at_def framed_def Let_def add.commute)

lemma length_framed: "pkt_len pkt + 13 \<le> length pkt \<Longrightarrow> length (framed pkt) = pkt_len pkt + 13"
  by (simp add: framed_def Let_def)

lemma framed_nth: "pkt_len pkt + 13 \<le> length pkt \<Longrightarrow> i < 10 \<Longrightarrow> framed pkt ! i = pkt ! i"
  by (simp add: framed_def nth_append)

lemma pkt_len_framed: "pkt_len pkt + 13 \<le> length pkt \<Longrightarrow> pkt_len (framed pkt @ r) = pkt_len pkt"
  by (simp add: pkt_len_def [of "framed pkt @ r"] nth_append length_framed framed_nth) (simp add: pkt_len_def)

lemma valid_framed:
  assumes "pkt_len pkt + 13 \<le> length pkt" "pkt ! 0 = UPLINK_HEAD" "pkt ! 6 = UPLINK_HEAD" "pkt_len pkt + 13 \<le> MAXLEN_GPRSITF_BUF"
  shows "valid_frame (framed pkt)"
proof -
  have l: "pkt_len (framed pkt) = pkt_len pkt" using pkt_len_framed [OF assms(1), of "[]"] by simp
  have "GetCRC16 (take (10 + pkt_len pkt) (framed pkt)) = u16_of (framed pkt ! (11 + pkt_len pkt)) (framed pkt ! (10 + pkt_len pkt))"
    using assms(1) by (simp add: framed_def Let_def nth_append)
  moreover have "framed pkt ! (12 + pkt_len pkt) = 0x16" using assms(1) by (simp add: framed_def Let_def nth_append)
  ultimately show ?thesis
    using assms l by (simp add: valid_frame_check length_framed CheckStreamOK_def framed_nth UPLINK_TAIL_def add.commute)
qed

lemma framed_again:
  assumes "pkt_len pkt + 13 \<le> length pkt"
  shows "framed (framed pkt @ drop (pkt_len pkt + 13) pkt) = framed pkt"
  using assms pkt_len_framed [OF assms] by (simp add: framed_def [of "framed pkt @ r" for r] length_framed) (simp add: framed_def)

lemma UplinkSendPktG_framed:
  fixes d :: bytes
  assumes "pkt_len pkt + 13 \<le> length pkt"
  defines "p \<equiv> set_addr d pkt"
  shows "UplinkSendPktG rawsend d pkt e = (case rawsend (framed p) e of (failed, e') \<Rightarrow>
     Inr (if failed then 1 else 0, framed p @ drop (pkt_len p + 13) p, e'))"
proof -
  have l: "pkt_len p + 13 \<le> length p" using assms by simp
  show ?thesis
    unfolding UplinkSendPktG_def p_def [symmetric] Let_def MakePacketG_framed [OF l]
    using l by (simp add: length_framed)
qed

text \<open>The memory after a frame was built in it sends the same frame again.\<close>

lemma set_addr_framed:
  fixes d :: bytes
  assumes "pkt_len pkt + 13 \<le> length pkt"
  defines "p \<equiv> set_addr d pkt"
  shows "set_addr d (framed p @ drop (pkt_len p + 13) p) = framed p @ drop (pkt_len p + 13) p"
proof -
  have l: "pkt_len p + 13 \<le> length p" using assms by simp
  define m where "m = framed p @ drop (pkt_len p + 13) p"
  have n: "m ! i = p ! i" if "i < 10" for i using that l by (simp add: m_def nth_append length_framed framed_nth)
  have lm: "length m = length pkt" using l by (simp add: m_def length_framed) (simp add: p_def)
  have "set_addr d m ! i = m ! i" if "i < length m" for i
    using that n [of i] lm assms(1) by (cases "i < 6") (auto simp: set_addr_def p_def nth_list_update)
  then show ?thesis unfolding m_def [symmetric] by (intro list_eq_by_index) simp_all
qed

lemma take_char_waiting:
  assumes "sock_ok e" "0 < sk_len e"
  shows "\<exists>b bs e'. take_char e = Inr (Some b, e') \<and> sock_ok e' \<and> sock_waiting e 0 = b # bs \<and>
     sock_waiting e' = (sock_waiting e)(0 := bs) \<and> sk_open e' = sk_open e \<and> sk_srv e' = sk_srv e \<and> sk_sent e' = sk_sent e"
proof -
  have h: "sk_head e < length (sk_buf e)" using assms by (auto simp: sock_ok_def)
  obtain n where n: "nat (sk_len e) = Suc n" "sk_len e = int n + 1" using assms(2) by (metis gr0_conv_Suc nat_0_iff not_gr_zero not_less zero_less_nat_eq int_nat_eq of_nat_Suc add.commute less_le)
  let ?e = "e\<lparr>sk_head := sk_head e + 1, sk_len := sk_len e - 1\<rparr>"
  have "take (nat (sk_len e)) (drop (sk_head e) (sk_buf e)) =
      sk_buf e ! sk_head e # take n (drop (sk_head e + 1) (sk_buf e))"
    using h by (simp add: n(1) Cons_nth_drop_Suc [symmetric])
  moreover have "sock_ok ?e" using assms h n by (auto simp: sock_ok_def)
  ultimately show ?thesis
    using h assms(2) n by (intro exI [of _ "sk_buf e ! sk_head e"] exI [of _ "take n (drop (sk_head e + 1) (sk_buf e)) @ net_polls (sk_net e) 0"] exI [of _ ?e])
      (auto simp: take_char_def sock_waiting_def)
qed

text \<open>The call of \<open>recv\<close> the sources share.\<close>

lemma recv_waiting:
  assumes "sock_ok e" "sk_len e \<le> 0"
  shows "(case recv_next e of (r, e1) \<Rightarrow>
     sk_open e1 = sk_open e \<and> sk_srv e1 = sk_srv e \<and> sk_sent e1 = sk_sent e \<and> sk_len e1 = sk_len e \<and> sk_buf e1 = sk_buf e \<and> sock_ok e1 \<and>
     (case r of
        Broken \<Rightarrow> sock_waiting e = (\<lambda>_. [])
      | WouldBlock \<Rightarrow> sock_waiting e 0 = [] \<and> net_polls (sk_net e1) = (\<lambda>n. sock_waiting e (Suc n))
      | Received bs \<Rightarrow> (if bs = [] then sock_waiting e = (\<lambda>_. [])
          else \<exists>buf. put_at (sk_buf e) 0 bs = Some buf \<and>
            sock_ok (e1\<lparr>sk_buf := buf, sk_len := int (length bs), sk_head := 0\<rparr>) \<and>
            sock_waiting (e1\<lparr>sk_buf := buf, sk_len := int (length bs), sk_head := 0\<rparr>) = sock_waiting e)))"
proof (cases "sk_net e")
  case Nil
  then show ?thesis using assms by (simp add: recv_next_def sock_waiting_def)
next
  case (Cons r rs)
  then show ?thesis using assms
    by (cases r) (auto simp: recv_next_def sock_waiting_def sock_ok_def put_at_def)
qed

lemma EtherGetChar_some:
  assumes "sock_ok e" "ether_polls e 0 = b # bs"
  shows "\<exists>e'. EtherGetChar e = Inr (Some b, e') \<and> sock_ok e' \<and> ether_polls e' = (ether_polls e)(0 := bs)"
proof -
  have op: "sk_open e" and w: "sock_waiting e 0 = b # bs" using assms(2) by (auto simp: ether_polls_def split: if_splits)
  show ?thesis
  proof (cases "sk_len e \<le> 0")
    case False
    then show ?thesis using take_char_waiting [OF assms(1)] op w by (auto simp: EtherGetChar_def ether_polls_def)
  next
    case True
    obtain r e1 where r: "recv_next e = (r, e1)" by (cases "recv_next e")
    note rw = recv_waiting [OF assms(1) True, unfolded r prod.case]
    have "\<exists>bs'. r = Received bs' \<and> bs' \<noteq> []" using rw w by (cases r) (auto split: if_splits)
    then obtain bs' where bs': "r = Received bs'" "bs' \<noteq> []" by blast
    then obtain buf where buf: "put_at (sk_buf e) 0 bs' = Some buf" and
      e2: "sock_ok (e1\<lparr>sk_buf := buf, sk_len := int (length bs'), sk_head := 0\<rparr>)"
        "sock_waiting (e1\<lparr>sk_buf := buf, sk_len := int (length bs'), sk_head := 0\<rparr>) = sock_waiting e"
      using rw by auto
    obtain b2 bs2 e' where "take_char (e1\<lparr>sk_buf := buf, sk_len := int (length bs'), sk_head := 0\<rparr>) = Inr (Some b2, e')" "sock_ok e'"
        "sock_waiting e 0 = b2 # bs2" "sock_waiting e' = (sock_waiting e)(0 := bs2)" "sk_open e' = sk_open e1"
      using take_char_waiting [OF e2(1)] bs'(2) e2(2) by auto
    then show ?thesis using True op w r bs' buf rw by (auto simp: EtherGetChar_def ether_polls_def)
  qed
qed

lemma EtherGetChar_none:
  assumes "sock_ok e" "ether_polls e 0 = []"
  shows "\<exists>e'. EtherGetChar e = Inr (None, e') \<and> sock_ok e' \<and> ether_polls e' = (\<lambda>n. ether_polls e (Suc n))"
proof (cases "sk_open e")
  case False
  then show ?thesis using assms(1) by (auto simp: EtherGetChar_def ether_polls_def)
next
  case op: True
  then have w: "sock_waiting e 0 = []" using assms(2) by (simp add: ether_polls_def)
  then have le: "sk_len e \<le> 0" using take_char_waiting [OF assms(1)] by fastforce
  obtain r e1 where r: "recv_next e = (r, e1)" by (cases "recv_next e")
  note rw = recv_waiting [OF assms(1) le, unfolded r prod.case]
  consider "r = Broken \<or> r = Received []" | "r = WouldBlock" | bs where "r = Received bs" "bs \<noteq> []" by (cases r) auto
  then show ?thesis
  proof cases
    case 1
    then show ?thesis using op le r rw by (auto simp: EtherGetChar_def ether_polls_def sock_ok_def)
  next
    case 2
    then show ?thesis using op le r rw by (auto simp: EtherGetChar_def ether_polls_def sock_ok_def sock_waiting_def [of "e1\<lparr>sk_len := -1\<rparr>"])
  next
    case 3
    then obtain buf where "sock_ok (e1\<lparr>sk_buf := buf, sk_len := int (length bs), sk_head := 0\<rparr>)"
        "sock_waiting (e1\<lparr>sk_buf := buf, sk_len := int (length bs), sk_head := 0\<rparr>) = sock_waiting e" using rw by auto
    from take_char_waiting [OF this(1)] this(2) w 3(2) show ?thesis by auto
  qed
qed

lemma TcpSvrGetChar_eq: "sk_srv e \<Longrightarrow> TcpSvrGetChar e = (case EtherGetChar e of
     Inr (None, e') \<Rightarrow> Inr (None, if sk_open e \<and> \<not> sk_open e' then e'\<lparr>sk_line := sk_line e, sk_num := False\<rparr> else e')
   | x \<Rightarrow> x)"
  by (cases "sk_net e")
    (auto simp: TcpSvrGetChar_def EtherGetChar_def recv_next_def take_char_def split: recv_result.splits option.splits prod.splits)

lemma sock_marks [simp]:
  "sock_ok (e\<lparr>sk_line := a, sk_num := b\<rparr>) = sock_ok e" "ether_polls (e\<lparr>sk_line := a, sk_num := b\<rparr>) = ether_polls e"
  by (simp_all add: sock_ok_def ether_polls_def sock_waiting_def)

lemma sk_srv_get: "EtherGetChar e = Inr (x, e') \<Longrightarrow> sk_srv e' = sk_srv e \<and> sk_sent e' = sk_sent e"
  by (cases "sk_net e") (auto simp: EtherGetChar_def recv_next_def take_char_def split: recv_result.splits option.splits prod.splits if_splits)

lemma tcpsvr_ether_polls: "tcpsvr_polls e = (if sk_srv e then ether_polls e else (\<lambda>_. []))"
  by (simp add: tcpsvr_polls_def ether_polls_def)

lemma TcpSvrGetChar_some:
  "sock_ok e \<Longrightarrow> tcpsvr_polls e 0 = b # bs \<Longrightarrow> \<exists>e'. TcpSvrGetChar e = Inr (Some b, e') \<and> sock_ok e' \<and> tcpsvr_polls e' = (tcpsvr_polls e)(0 := bs)"
  using EtherGetChar_some [of e b bs] sk_srv_get [of e]
  by (cases "sk_srv e") (auto simp: tcpsvr_ether_polls TcpSvrGetChar_eq)

lemma TcpSvrGetChar_none:
  assumes "sock_ok e" "tcpsvr_polls e 0 = []"
  shows "\<exists>e'. TcpSvrGetChar e = Inr (None, e') \<and> sock_ok e' \<and> tcpsvr_polls e' = (\<lambda>n. tcpsvr_polls e (Suc n))"
proof (cases "sk_srv e")
  case True
  then obtain e' where "EtherGetChar e = Inr (None, e')" "sock_ok e'" "ether_polls e' = (\<lambda>n. ether_polls e (Suc n))"
    using EtherGetChar_none [OF assms(1)] assms(2) by (auto simp: tcpsvr_ether_polls)
  then show ?thesis using True sk_srv_get [of e None e'] by (simp add: tcpsvr_ether_polls TcpSvrGetChar_eq)
next
  case False
  then show ?thesis using assms by (simp add: TcpSvrGetChar_def tcpsvr_ether_polls)
qed

lemma send_next_polls: "send_next b e = (f, e') \<Longrightarrow> sk_open e' = sk_open e \<and> sk_srv e' = sk_srv e \<and> sock_waiting e' = sock_waiting e \<and>
    sock_ok e' = sock_ok e \<and> sk_sent e' = (if f then sk_sent e else sk_sent e @ [b])"
  by (auto simp: send_next_def sock_waiting_def sock_ok_def split: list.splits if_splits)

interpretation ether: uplink_itf ether_itf ether_polls sock_ok sk_sent
  apply unfold_locales
       apply (simp add: ether_itf_def EtherGetChar_some)
      apply (simp add: ether_itf_def EtherGetChar_none)
     apply (simp add: ether_itf_def linestat_empty_def)
    apply (simp add: ether_itf_def) using sk_srv_get apply blast
   apply (auto simp: ether_itf_def EtherRawSend_def ether_polls_def dest: send_next_polls split: prod.splits if_splits)
  done

interpretation tcpsvr: uplink_itf tcpsvr_itf tcpsvr_polls sock_ok sk_sent
  apply unfold_locales
       apply (simp add: tcpsvr_itf_def TcpSvrGetChar_some)
      apply (simp add: tcpsvr_itf_def TcpSvrGetChar_none)
     apply (simp add: tcpsvr_itf_def linestat_empty_def)
    subgoal for e x e' using sk_srv_get [of e]
      by (cases "sk_srv e") (auto simp: tcpsvr_itf_def TcpSvrGetChar_eq split: sum.splits prod.splits option.splits, simp add: TcpSvrGetChar_def)
   apply (auto simp: tcpsvr_itf_def TcpSvrRawSend_def tcpsvr_polls_def dest: send_next_polls split: prod.splits if_splits)
  done

context uplink_itf
begin

lemma send_loop_returns:
  "ok e \<Longrightarrow> \<forall>i. length (polls e i) < fuel \<Longrightarrow> fsm_ok c \<Longrightarrow> pkt_len pkt + 13 \<le> length pkt \<Longrightarrow>
   send_loop (itf_getchar pitf) (itf_rawsend pitf) (itf_linestat pitf) t fuel d tmo i c pkt e = Inl OutOfBounds \<or>
   (\<exists>rtn c' pkt' e' n. send_loop (itf_getchar pitf) (itf_rawsend pitf) (itf_linestat pitf) t fuel d tmo i c pkt e = Inr (rtn, c', pkt', e') \<and>
      n \<le> i \<and> sent e' = sent e @ replicate n (framed (set_addr d pkt)) \<and>
      (rtn = UPRTN_TIMEOUT \<and> n = i \<or> rtn = UPRTN_FAIL \<or>
       0 < n \<and> accepted (rcvbuf c') \<and> rtn = (if IsEchoPkt (rcvbuf c') (pkt_cmd pkt) then UPRTN_OK else UPRTN_OKRCV)))"
proof (induction i arbitrary: c pkt e)
  case (Suc i)
  let ?p = "set_addr d pkt"
  let ?m = "framed ?p @ drop (pkt_len ?p + 13) ?p"
  obtain f e1 where snd: "itf_rawsend pitf (framed ?p) e = (f, e1)" by (cases "itf_rawsend pitf (framed ?p) e")
  have sd: "UplinkSendPktG (itf_rawsend pitf) d pkt e = Inr (if f then 1 else 0, ?m, e1)"
    using snd by (simp add: UplinkSendPktG_framed [OF Suc.prems(4)])
  have l: "pkt_len ?p + 13 \<le> length ?p" using Suc.prems(4) by simp
  have m: "pkt_len ?m = pkt_len pkt" "length ?m = length pkt" "set_addr d ?m = ?m" "framed ?m = framed ?p" "pkt_cmd ?m = pkt_cmd pkt"
    using pkt_len_framed [OF l] length_framed [OF l] set_addr_framed [OF Suc.prems(4)] framed_again [OF l] framed_nth [OF l, of 7] Suc.prems(4)
    by (simp_all add: pkt_cmd_def nth_append set_addr_nth)
  show ?case
  proof (cases f)
    case True
    then show ?thesis using line sd send_fail snd by (auto intro!: exI [of _ 0])
  next
    case False
    then have e1: "ok e1" "polls e1 = polls e" "sent e1 = sent e @ [framed ?p]"
      using send_ok [OF Suc.prems(1)] snd by auto
    consider "wait_loop (itf_getchar pitf) t fuel tmo (pkt_cmd pkt) c e1 = Inl OutOfBounds"
      | r c' e' where "wait_loop (itf_getchar pitf) t fuel tmo (pkt_cmd pkt) c e1 = Inr (r, c', e')" "fsm_ok c'" "ok e'"
          "\<forall>i. length (polls e' i) < fuel"
          "r = None \<or> accepted (rcvbuf c') \<and> r = Some (if IsEchoPkt (rcvbuf c') (pkt_cmd pkt) then UPRTN_OK else UPRTN_OKRCV)"
      using wait_returns [OF e1(1) _ Suc.prems(3), of fuel t tmo "pkt_cmd pkt"] Suc.prems(2) e1(2) by auto
    then show ?thesis
    proof cases
      case 1 then show ?thesis using line sd False m(5) by simp
    next
      case 2
      have se: "sent e' = sent e @ [framed ?p]" using wait_sent [OF 2(1)] e1(3) by simp
      show ?thesis
      proof (cases r)
        case (Some x)
        then show ?thesis using line sd False m(5) 2 se by (auto intro!: exI [of _ "1 :: nat"])
      next
        case None
        have step: "send_loop (itf_getchar pitf) (itf_rawsend pitf) (itf_linestat pitf) t fuel d tmo (Suc i) c pkt e =
            send_loop (itf_getchar pitf) (itf_rawsend pitf) (itf_linestat pitf) t fuel d tmo i c' ?m e'"
          using line sd False m(5) 2(1) None by simp
        have lm: "pkt_len ?m + 13 \<le> length ?m" using m(1,2) Suc.prems(4) by simp
        have rep: "(sent e @ [framed ?p]) @ replicate n (framed ?p) = sent e @ replicate (Suc n) (framed ?p)" for n by simp
        show ?thesis
          unfolding step using Suc.IH [OF 2(3,4,2) lm] unfolding m(3,4,5) se rep
          by (elim disjE exE conjE) (blast | (rule disjI2, intro exI conjI, assumption, simp, assumption, simp))+
      qed
    qed
  qed
qed (auto intro!: exI [of _ "0 :: nat"])

lemma send_loop_reply:
  assumes e: "ok e" and c: "fsm_ok c" "stat c = 0" and pkt: "pkt_len pkt + 13 \<le> length pkt" and f: "valid_frame f"
    and snd: "itf_rawsend pitf (framed (set_addr d pkt)) e = (False, e1)"
    and ch: "chunks \<noteq> []" "last chunks \<noteq> []" "concat chunks = f" "\<forall>i < length chunks. polls e i = chunks ! i \<and> length (polls e i) < fuel"
      "length chunks \<le> tmo" "int (length chunks) \<le> t"
  shows "\<exists>c' pkt' e'. send_loop (itf_getchar pitf) (itf_rawsend pitf) (itf_linestat pitf) t fuel d tmo (Suc i) c pkt e =
     Inr (if IsEchoPkt f (pkt_cmd pkt) then UPRTN_OK else UPRTN_OKRCV, c', pkt', e') \<and> take (length f) (rcvbuf c') = f"
proof -
  let ?p = "set_addr d pkt"
  let ?m = "framed ?p @ drop (pkt_len ?p + 13) ?p"
  have l: "pkt_len ?p + 13 \<le> length ?p" using pkt by simp
  have sd: "UplinkSendPktG (itf_rawsend pitf) d pkt e = Inr (0, ?m, e1)"
    using snd by (simp add: UplinkSendPktG_framed [OF pkt])
  have cmd: "pkt_cmd ?m = pkt_cmd pkt"
    using length_framed [OF l] framed_nth [OF l, of 7] by (simp add: pkt_cmd_def nth_append set_addr_nth)
  have e1: "ok e1" "polls e1 = polls e" using send_ok [OF e] snd by auto
  have ch4: "\<forall>i < length chunks. polls e1 i = chunks ! i \<and> length (polls e1 i) < fuel" using ch(4) unfolding e1(2) .
  obtain c' e' where "wait_loop (itf_getchar pitf) t fuel tmo (pkt_cmd pkt) c e1 =
      Inr (Some (if IsEchoPkt f (pkt_cmd pkt) then UPRTN_OK else UPRTN_OKRCV), c', e')" "take (length f) (rcvbuf c') = f"
    using wait_chunks [OF f ch(1,2) ch4 _ _ at_frame_idle [OF c] ch(5) e1(1), of t "pkt_cmd pkt"] ch(3,6) by auto
  then show ?thesis using line sd cmd by simp
qed

end

lemma idle_ok [simp]: "fsm_ok idle_fsm" "stat idle_fsm = 0" "sk_open idle_sock" "sk_srv idle_sock" "sk_fail idle_sock = []" "sk_net idle_sock = []"
  "sk_len idle_sock = 0" "sk_head idle_sock = 0" "sk_buf idle_sock = replicate 2048 0" "sk_sent idle_sock = []"
  by (simp_all add: fsm_ok_def idle_fsm_def MAXLEN_GPRSITF_BUF_def idle_sock_def)

lemma idle_polls: "ether_polls (idle_sock\<lparr>sk_net := rs\<rparr>) = net_polls rs" "sock_ok (idle_sock\<lparr>sk_net := rs\<rparr>) =
    list_all (\<lambda>r. case r of Received bs \<Rightarrow> length bs \<le> 2048 | _ \<Rightarrow> True) rs"
  by (simp_all add: ether_polls_def sock_waiting_def sock_ok_def)

lemma nth_head: "n = Suc m \<Longrightarrow> (x # xs) ! n = xs ! m" by simp

lemma UplinkSendPktG_cmd:
  assumes "UplinkSendPktG rawsend d pkt e = Inr (r, pkt', e')"
  shows "pkt_cmd pkt' = pkt_cmd pkt"
proof (cases "pkt_len pkt + 13 \<le> length pkt")
  case True
  let ?p = "set_addr d pkt"
  have "pkt_len ?p + 13 \<le> length ?p" using True by simp
  then show ?thesis
    using assms framed_nth [of ?p 7] length_framed [of ?p]
    by (auto simp: UplinkSendPktG_framed [OF True] pkt_cmd_def nth_append set_addr_nth split: prod.splits if_splits)
next
  case False
  then have "MakePacketG (set_addr d pkt) = Inl OutOfBounds" by (simp add: MakePacketG_def put_at_def Let_def)
  then show ?thesis using assms by (simp add: UplinkSendPktG_def Let_def)
qed

lemma wait_loop_no_echo:
  "(\<And>b. \<not> IsEchoPkt b cmd) \<Longrightarrow> wait_loop g t fuel j cmd c e = Inr (Some r, c', e') \<Longrightarrow> r = UPRTN_OKRCV"
  by (induction j arbitrary: c e) (auto split: sum.splits prod.splits if_splits)

lemma send_loop_no_echo:
  assumes "\<And>b. \<not> IsEchoPkt b (pkt_cmd pkt)" "send_loop g rs ls t fuel d tmo i c pkt e = Inr (r, x)"
  shows "r \<noteq> UPRTN_OK"
  using assms
proof (induction i arbitrary: c pkt e)
  case (Suc i)
  show ?case
  proof (cases "ls e")
    case True
    then obtain rtn pkt1 e1 where s: "UplinkSendPktG rs d pkt e = Inr (rtn, pkt1, e1)"
      using Suc.prems(2) by (auto split: sum.splits)
    have cmd: "pkt_cmd pkt1 = pkt_cmd pkt" by (rule UplinkSendPktG_cmd [OF s])
    show ?thesis
    proof (cases "wait_loop g t fuel tmo (pkt_cmd pkt) c e1")
      case (Inl a)
      then show ?thesis using Suc.prems(2) True s cmd by (auto simp: UPRTN_FAIL_def UPRTN_OK_def split: if_splits)
    next
      case (Inr p)
      obtain ro c1 e2 where p: "p = (ro, c1, e2)" by (cases p) auto
      show ?thesis
      proof (cases ro)
        case None
        then show ?thesis using Suc.prems(2) True s cmd Inr p Suc.IH [of pkt1 c1 e2] Suc.prems(1)
          by (auto simp: UPRTN_FAIL_def UPRTN_OK_def split: if_splits)
      next
        case (Some v)
        then have "v = UPRTN_OKRCV" using wait_loop_no_echo [OF Suc.prems(1), of g t fuel tmo c e1 v c1 e2] Inr p by simp
        then show ?thesis using Suc.prems(2) True s cmd Inr p Some
          by (auto simp: UPRTN_FAIL_def UPRTN_OK_def UPRTN_OKRCV_def split: if_splits)
      qed
    qed
  next
    case False then show ?thesis using Suc.prems(2) by (simp add: UPRTN_FAIL_def UPRTN_OK_def)
  qed
qed (simp add: UPRTN_TIMEOUT_def UPRTN_OK_def)

lemma set_head_simps [simp]:
  "length (set_head cmd len pkt) = length pkt"
  "10 \<le> length pkt \<Longrightarrow> pkt_cmd (set_head cmd len pkt) = cmd"
  "10 \<le> length pkt \<Longrightarrow> pkt_len (set_head cmd len pkt) = unat len"
  "10 \<le> length pkt \<Longrightarrow> set_head cmd len pkt ! 0 = UPLINK_HEAD"
  "10 \<le> length pkt \<Longrightarrow> set_head cmd len pkt ! 6 = UPLINK_HEAD"
  by (auto simp: set_head_def FAAL_SETLEN_def pkt_cmd_def pkt_len_def makepkt_short_def UPLINK_HEAD_def)
    (metis length_0_conv not_numeral_le_zero nth_list_update_eq bot_nat_0.not_eq_extremum)

lemma IsEchoPkt_logonout: "\<not> IsEchoPkt b 0xa2"
  by (simp add: IsEchoPkt_def FAALMASK_CMD_def FAALCMD_ECHO_LOGON_def FAALCMD_ECHO_HBTEST_def FAALCMD_LOGONOUT_def)

lemma IsEchoPkt_logon: "IsEchoPkt b 0xa1 \<longleftrightarrow> pkt_cmd b = 0x21"
  by (auto simp: IsEchoPkt_def FAALMASK_CMD_def FAALCMD_ECHO_LOGON_def FAALCMD_ECHO_HBTEST_def FAALCMD_LOGONOUT_def)

lemma IsEchoPkt_test: "IsEchoPkt b 0xa4 \<longleftrightarrow> pkt_cmd b = 0x24"
  by (auto simp: IsEchoPkt_def FAALMASK_CMD_def FAALCMD_ECHO_LOGON_def FAALCMD_ECHO_HBTEST_def FAALCMD_LOGONOUT_def)

lemma take3_update: "3 \<le> length h \<Longrightarrow> take 3 (h[0 := a, 1 := b, 2 := c]) = [a, b, c]"
  by (cases h; cases "tl h"; cases "tl (tl h)") (auto simp: numeral_eq_Suc)

lemma LocalSvrGetChar_segment:
  assumes "sk_srv e" "sk_open e" "sk_len e \<le> 0" "length (sk_buf e) = 2048" "sk_net e = Received s # rs" "s \<noteq> []" "length s \<le> 2048"
  shows "LocalSvrGetChar e = (if sk_head e < 2048
    then Inr (Some ((s @ drop (length s) (sk_buf e)) ! sk_head e),
      e\<lparr>sk_net := rs, sk_buf := s @ drop (length s) (sk_buf e), sk_len := - 1, sk_head := sk_head e + 1\<rparr>)
    else Inl OutOfBounds)"
  using assms by (simp add: LocalSvrGetChar_def recv_next_def put_at_def take_char_def)

subsection \<open>Properties\<close>

text \<open>C3: called in any state the receiver can be in, on the client socket, \<open>UplinkRecvPkt\<close> returns and stays in such a state. When it reports a
  frame, the receive buffer starts with a frame that is well-formed byte by byte (both heads, the checksum, the tail), which is a run of
  the bytes that were stored or waited, and what follows it still waits. It has the announced length, except that one of 65524 or more wraps
  around to a frame of twelve bytes. Only a frame that announces 1140 bytes or more, with 1153 of them there, drives the receiver out of its buffer.\<close>

theorem UplinkRecvPkt_sound:
  assumes "sock_ok e" "fsm_ok c" "length (ether_polls e 0) < fuel"
  defines "stream \<equiv> take (pbuf (UpTimerProc c)) (rcvbuf c) @ ether_polls e 0"
  shows "case UplinkRecvPkt EtherGetChar t fuel c e of
      Inl s \<Rightarrow> s = OutOfBounds \<and> (\<exists>p f. stream = p @ f \<and> 1153 \<le> length f \<and> f ! 0 = 0x68 \<and> f ! 6 = 0x68 \<and> 1140 \<le> pkt_len f)
    | Inr (r, c', e') \<Rightarrow> sock_ok e' \<and> fsm_ok c' \<and>
        (r = 1 \<and> ether_polls e' = (\<lambda>n. ether_polls e (Suc n)) \<or>
         r = 0 \<and> stat c' = 0 \<and>
           (let b = rcvbuf c'; n = (if pkt_len b < 65524 then pkt_len b + 13 else 12) in
              n \<le> 1152 \<and> b ! 0 = 0x68 \<and> b ! 6 = 0x68 \<and> b ! (n - 1) = 0x16 \<and> GetCRC16 (take (n - 3) b) = u16_of (b ! (n - 2)) (b ! (n - 3)) \<and>
              (\<exists>p. stream = p @ take n b @ ether_polls e' 0)))"
proof -
  have g: "itf_getchar ether_itf = EtherGetChar" by (simp add: ether_itf_def)
  let ?c = "UpTimerProc c"
  have ok: "fsm_ok ?c" by (rule fsm_ok_timer [OF assms(2)])
  have b: "rcvbuf ?c = rcvbuf c" by (simp add: UpTimerProc_def Let_def UplinkClearState_def StopUpTimer_def)
  note l = ether.recv_loop_feed [OF assms(1,3), where t = t and c = ?c, unfolded g]
  note st = fsm_feed_stream [OF ok, where t = t and bs = "ether_polls e 0", unfolded b, folded stream_def]
  show ?thesis
  proof (cases "fsm_feed t (ether_polls e 0) ?c")
    case (Inl s)
    then show ?thesis using l st fsm_feed_overrun [OF ok Inl] by (auto simp: UplinkRecvPkt_def overlong_def)
  next
    case (Inr x)
    obtain a c' r where x: "x = (a, c', r)" by (cases x)
    note k = fsm_feed_ok [OF ok Inr [unfolded x]]
    show ?thesis
    proof (cases a)
      case True
      have w: "frame_bytes (rcvbuf c') \<le> 1152" "well_formed (rcvbuf c') (frame_bytes (rcvbuf c'))" "stat c' = 0"
        using k True accepted_bytes [of "rcvbuf c'"] by (simp_all add: MAXLEN_GPRSITF_BUF_def)
      obtain e' where e': "UplinkRecv_loop EtherGetChar t fuel ?c e = Inr (0, c', e')" "sock_ok e'" "ether_polls e' = (ether_polls e)(0 := r)"
        using l Inr x True by auto
      obtain p where "stream = p @ take (frame_bytes (rcvbuf c')) (rcvbuf c') @ r" using st Inr x True by auto
      then show ?thesis using e' w k unfolding UplinkRecvPkt_def well_formed_def frame_bytes_def Let_def by auto
    next
      case False
      then show ?thesis using l Inr x k by (auto simp: UplinkRecvPkt_def)
    qed
  qed
qed

theorem UplinkRecvPkt_sound_witness:
  "\<exists>c' e'. UplinkRecvPkt EtherGetChar 6 3 idle_fsm (idle_sock\<lparr>sk_net := [Received [0x68, 1]]\<rparr>) = Inr (1, c', e') \<and> fsm_ok c' \<and> sock_ok e'"
proof -
  let ?e = "idle_sock\<lparr>sk_net := [Received [0x68, 1]]\<rparr>"
  have h: "sock_ok ?e" "fsm_ok idle_fsm" "length (ether_polls ?e 0) < 3" by (simp_all add: idle_polls)
  have s: "take (pbuf (UpTimerProc idle_fsm)) (rcvbuf idle_fsm) = []" by (simp add: UpTimerProc_def idle_fsm_def)
  have n: "\<not> (\<exists>p. [0x68, 1 :: u8] = p @ ys) \<or> length ys \<le> 2" for ys
    by (metis length_Cons length_append list.size(3) numeral_2_eq_2 trans_le_add2 le_refl)
  have l: "length (take k b @ rest) \<le> 2 \<Longrightarrow> length b = 1152 \<Longrightarrow> k \<le> 1152 \<Longrightarrow> k \<le> 2" for k and b rest :: bytes by simp
  show ?thesis
  proof (cases "UplinkRecvPkt EtherGetChar 6 3 idle_fsm ?e")
    case (Inl s)
    then show ?thesis using UplinkRecvPkt_sound [OF h, of 6] n by (fastforce simp: s idle_polls)
  next
    case (Inr x)
    obtain r c' e' where x: "x = (r, c', e')" by (cases x)
    define k where "k = (if pkt_len (rcvbuf c') < 65524 then pkt_len (rcvbuf c') + 13 else 12)"
    have k: "fsm_ok c'" "sock_ok e'" "r = 1 \<or> k \<le> 1152 \<and> (\<exists>p. [0x68, 1] = p @ take k (rcvbuf c') @ ether_polls e' 0)"
      using UplinkRecvPkt_sound [OF h, of 6] Inr x unfolding k_def Let_def by (simp_all only: s) (auto simp: idle_polls)
    have "12 \<le> k" by (simp add: k_def)
    have "length (rcvbuf c') = 1152" using k by (simp add: fsm_ok_def MAXLEN_GPRSITF_BUF_def)
    then have "r \<noteq> 1 \<Longrightarrow> k \<le> 2" using k(3) n [of "take k (rcvbuf c') @ ether_polls e' 0"] l [of k "rcvbuf c'" "ether_polls e' 0"] by blast
    then have "r = 1" using \<open>12 \<le> k\<close> by linarith
    then show ?thesis using Inr x k by simp
  qed
qed

text \<open>C30: the receiver does not compare the announced length with its buffer of 1152 bytes: a peer that sends the
  two head bytes, a length of at least 1141 and 1153 bytes makes it write behind the end of the buffer.\<close>

theorem UplinkRecv_overrun:
  assumes "fsm_ok c" "stat c = 0" "sock_ok e" "ether_polls e 0 = f" "length f < fuel" "1153 \<le> length f"
    "f ! 0 = UPLINK_HEAD" "f ! 6 = UPLINK_HEAD" "1141 \<le> pkt_len f" "pkt_len f < 65524"
  shows "UplinkRecvPkt EtherGetChar t fuel c e = Inl OutOfBounds"
proof -
  have g: "itf_getchar ether_itf = EtherGetChar" by (simp add: ether_itf_def)
  have at0: "at_frame f 0 (UpTimerProc c)"
    using at_frame_timer(1) [OF at_frame_idle [OF assms(1,2)]] by simp
  obtain c1 where c1: "fsm_feed t (take 1152 f) (UpTimerProc c) = Inr (False, c1, [])" "at_frame f 1152 c1"
    using at_frame_feed [OF at0 assms(7,8,10), of 1152 t] assms(6,9) by (auto simp: MAXLEN_GPRSITF_BUF_def)
  have ok: "fsm_ok c1" and p: "pbuf c1 = 1152" and tk: "take 1152 (rcvbuf c1) = take 1152 f" using c1(2) by (auto simp: at_frame_def)
  note d = fsm_okD [OF ok]
  have "pkt_len (rcvbuf c1) = pkt_len f" by (rule pkt_len_of_take [OF tk]) simp
  then have "stat c1 = 4" using stage_le_5 [OF d(4)] d(4) p assms(9,10) by (auto simp: stage_simps)
  then have "fsm_step t (f ! 1152) c1 = Inl OutOfBounds" using fsm_step_4 [OF ok] p by (simp add: MAXLEN_GPRSITF_BUF_def)
  moreover have "f = take 1152 f @ f ! 1152 # drop 1153 f" using assms(6) id_take_nth_drop [of 1152 f] by simp
  ultimately have "fsm_feed t f (UpTimerProc c) = Inl OutOfBounds"
    using c1(1) fsm_feed_append [of t "take 1152 f" "f ! 1152 # drop 1153 f"] by simp
  then show ?thesis
    using ether.recv_loop_feed [OF assms(3), of fuel t "UpTimerProc c"] assms(4,5) unfolding g by (simp add: UplinkRecvPkt_def)
qed

theorem UplinkRecv_overrun_witness:
  "UplinkRecvPkt EtherGetChar 6 1154 idle_fsm (idle_sock\<lparr>sk_net := [Received ([0x68, 1, 0, 0, 0, 0, 0x68, 1, 0x04, 0x75] @ replicate 1143 0)]\<rparr>)
     = Inl OutOfBounds"
  by (rule UplinkRecv_overrun [where f = "[0x68, 1, 0, 0, 0, 0, 0x68, 1, 0x04, 0x75] @ replicate 1143 0"])
    (simp_all add: idle_polls UPLINK_HEAD_def pkt_len_def makepkt_short_def unat_u16_of)

text \<open>A well-formed answer that arrives in at most six pieces, one per round of waiting, before the timeout
  is received whatever the cut, and \<open>UplinkLogon\<close> succeeds exactly when its command is the echo of the logon.\<close>

theorem UplinkLogon_answered:
  assumes e: "sock_ok e" "sk_open e" "sk_fail e = []" and c: "fsm_ok c" "stat c = 0" and pkt: "length pkt = 1152"
    and f: "valid_frame f"
    and ch: "chunks \<noteq> []" "last chunks \<noteq> []" "concat chunks = f" "\<forall>i < length chunks. ether_polls e i = chunks ! i \<and> length (ether_polls e i) < fuel"
      "length chunks \<le> 6" "length chunks \<le> unat (lp_snd_timeout para) * 10" "lp_snd_retry para \<noteq> 0"
  shows "\<exists>c' pkt' e'. UplinkLogon ether_itf para fuel c pkt e = Inr (if pkt_cmd f = 0x21 then 0 else 1, c', pkt', e') \<and>
    take (length f) (rcvbuf c') = f"
proof -
  define p where "p = set_head 0xa1 4 (foldl (\<lambda>p i. p[10 + i := lp_com_pwd para ! i]) pkt [0, 1, 2, 3])"
  have lp: "length p = 1152" using pkt by (simp add: p_def)
  have hp: "pkt_cmd p = 0xa1" "pkt_len p = 4" using pkt by (simp_all add: p_def)
  have "0 < unat (lp_snd_retry para)" using ch(7) by (simp add: unat_gt_0)
  then obtain i where i: "unat (lp_snd_retry para) = Suc i" using gr0_conv_Suc by blast
  have r: "unat (lp_snd_retry para AND 0xff) = Suc i"
  proof -
    have "(0xff :: u8) = - 1" by simp
    then show ?thesis using i by (simp only: and.right_neutral)
  qed
  obtain e1 where snd: "itf_rawsend ether_itf (framed (set_addr (lp_deviceid para) p)) e = (False, e1)"
    using e by (simp add: ether_itf_def EtherRawSend_def send_next_def)
  have pl: "pkt_len p + 13 \<le> length p" using lp hp by simp
  have t: "int (length chunks) \<le> itf_timeout ether_itf" using ch(5) by (simp add: ether_itf_def)
  obtain c' pkt' e' where l: "send_loop (itf_getchar ether_itf) (itf_rawsend ether_itf) (itf_linestat ether_itf) (itf_timeout ether_itf) fuel
      (lp_deviceid para) (unat (lp_snd_timeout para) * 10) (Suc i) c p e =
      Inr (if IsEchoPkt f (pkt_cmd p) then UPRTN_OK else UPRTN_OKRCV, c', pkt', e')" "take (length f) (rcvbuf c') = f"
    using ether.send_loop_reply [OF e(1) c pl f snd ch(1-4,6) t] by blast
  then have "UplinkActiveSend ether_itf para fuel True c p e = Inr (if pkt_cmd f = 0x21 then UPRTN_OK else UPRTN_OKRCV, c', pkt', e')"
    unfolding UplinkActiveSend_def UplinkSendWait_def GetTimeout_def r prod.case hp(1) IsEchoPkt_logon by simp
  then show ?thesis using l(2) unfolding UplinkLogon_def p_def [symmetric] Let_def by (simp add: UPRTN_OK_def UPRTN_OKRCV_def)
qed

theorem UplinkLogon_answered_witness:
  "\<exists>f c' pkt' e'. pkt_cmd f = 0x21 \<and>
    UplinkLogon ether_itf \<lparr>lp_deviceid = replicate 8 1, lp_com_pwd = replicate 4 0, lp_snd_timeout = 1, lp_snd_retry = 2\<rparr> 14 idle_fsm
      (replicate 1152 0) (idle_sock\<lparr>sk_net := [Received f]\<rparr>) = Inr (0, c', pkt', e')"
proof -
  let ?q = "set_head 0x21 0 (replicate 13 0) :: bytes"
  define f where "f = framed ?q"
  have q: "pkt_len ?q + 13 \<le> length ?q" "?q ! 0 = UPLINK_HEAD" "?q ! 6 = UPLINK_HEAD" "pkt_len ?q + 13 \<le> MAXLEN_GPRSITF_BUF"
    by (simp_all add: MAXLEN_GPRSITF_BUF_def)
  have v: "valid_frame f" unfolding f_def by (rule valid_framed [OF q])
  have cmd: "pkt_cmd f = 0x21" using framed_nth [OF q(1), of 7] set_head_simps(2) [of "replicate 13 0"] by (simp add: f_def pkt_cmd_def)
  have len: "length f = 13" using length_framed [OF q(1)] by (simp add: f_def)
  let ?para = "\<lparr>lp_deviceid = replicate 8 1, lp_com_pwd = replicate 4 0, lp_snd_timeout = 1, lp_snd_retry = 2\<rparr> :: link_para"
  let ?e = "idle_sock\<lparr>sk_net := [Received f]\<rparr>"
  have ch: "\<forall>i < length [f]. ether_polls ?e i = [f] ! i \<and> length (ether_polls ?e i) < 14"
    using len by (auto simp: idle_polls)
  have o: "sock_ok ?e" "sk_open ?e" "sk_fail ?e = []" using len by (simp_all add: idle_polls)
  have "f \<noteq> []" using len by auto
  then show ?thesis
    using UplinkLogon_answered [OF o idle_ok(1,2) _ v _ _ _ ch, of "replicate 1152 0" ?para] cmd by auto
qed



text \<open>On every interface, whatever the server answers, \<open>UplinkLogonOut\<close> never reports success: the command is
  masked with 0x3f before it is compared with 0xa2.\<close>

theorem UplinkLogonOut_never_confirmed:
  assumes "10 \<le> length pkt"
  shows "(\<exists>s. UplinkLogonOut pitf para fuel c pkt e = Inl s) \<or> (\<exists>r. UplinkLogonOut pitf para fuel c pkt e = Inr (1, r))"
proof (cases "UplinkActiveSend pitf para fuel True c (set_head 0xa2 0 pkt) e")
  case (Inl s)
  then show ?thesis by (simp add: UplinkLogonOut_def)
next
  case (Inr p)
  obtain r c1 p1 e1 where p: "p = (r, c1, p1, e1)" by (cases p) auto
  have ne: "\<not> IsEchoPkt b (pkt_cmd (set_head 0xa2 0 pkt))" for b
    using set_head_simps(2) [OF assms] IsEchoPkt_logonout by simp
  have "r \<noteq> 0"
    using Inr [unfolded p] send_loop_no_echo [OF ne, of "itf_getchar pitf" "itf_rawsend pitf" "itf_linestat pitf"]
    unfolding UplinkActiveSend_def UplinkSendWait_def UPRTN_OK_def by (auto split: prod.splits)
  then show ?thesis using Inr p by (simp add: UplinkLogonOut_def)
qed

theorem UplinkLogonOut_never_confirmed_witness:
  "(\<exists>s. UplinkLogonOut ether_itf \<lparr>lp_deviceid = [], lp_com_pwd = [], lp_snd_timeout = 1, lp_snd_retry = 2\<rparr> 10 idle_fsm (replicate 1152 0) idle_sock = Inl s) \<or>
   (\<exists>r. UplinkLogonOut ether_itf \<lparr>lp_deviceid = [], lp_com_pwd = [], lp_snd_timeout = 1, lp_snd_retry = 2\<rparr> 10 idle_fsm (replicate 1152 0) idle_sock = Inr (1, r))"
  by (rule UplinkLogonOut_never_confirmed) simp

text \<open>A reply built by \<open>faal_makepkt\<close> carries its checksum and tail in its first three bytes instead of behind
  the data, which is left as it was, so the check of the receiver fails unless the checksum starts with the head byte and
  the buffer already held the tail.\<close>

theorem faal_makepkt_overwrites:
  assumes "pkt_len pkt + 13 \<le> length pkt" "pkt_len pkt \<le> sndmax"
  shows "\<exists>q crc. faal_makepkt sndmax d pkt = (int (pkt_len pkt) + 13, q) \<and>
    crc = GetCRC16 (take (pkt_len pkt + 10) ((set_addr d (pkt[0 := 0x68, 6 := 0x68, 1 := 0x01]))[7 := (pkt_cmd pkt OR FAALMASK_DIR)])) \<and>
    take 3 q = [hi8 crc, lo8 crc, UPLINK_TAIL] \<and> drop 10 q = drop 10 pkt \<and>
    (CheckStreamOK q (pkt_len pkt + 13) \<longrightarrow> hi8 crc = UPLINK_HEAD \<and> pkt ! (pkt_len pkt + 12) = UPLINK_TAIL)"
proof -
  let ?h = "(set_addr d (pkt[0 := 0x68, 6 := 0x68, 1 := 0x01]))[7 := (pkt_cmd pkt OR FAALMASK_DIR)]"
  define crc where "crc = GetCRC16 (take (pkt_len pkt + 10) ?h)"
  define q where "q = ?h[0 := hi8 crc, 1 := lo8 crc, 2 := UPLINK_TAIL]"
  have l: "length q = length pkt" by (simp add: q_def)
  have "set_addr d (pkt[0 := 0x68, 6 := 0x68, 1 := 0x01]) ! 7 = pkt_cmd pkt"
    using assms(1) by (simp add: set_addr_nth pkt_cmd_def)
  then have mk: "faal_makepkt sndmax d pkt = (int (pkt_len pkt) + 13, q)"
    using assms(2) by (simp add: faal_makepkt_def Let_def LEN_FAAL_HEAD_def crc_def q_def add.commute numeral_2_eq_2)
  have t: "take 3 q = [hi8 crc, lo8 crc, UPLINK_TAIL]"
    using assms(1) unfolding q_def by (intro take3_update) simp
  have dr: "drop 10 q = drop 10 pkt"
    using assms(1) by (intro nth_equalityI) (simp_all add: q_def set_addr_def)
  have "q ! 0 = hi8 crc" using arg_cong [OF t, of "\<lambda>x. x ! 0"] by simp
  moreover have "q ! (pkt_len pkt + 12) = pkt ! (pkt_len pkt + 12)"
    using arg_cong [OF dr, of "\<lambda>x. x ! (pkt_len pkt + 2)"] assms(1) l by (simp add: add.commute)
  ultimately have "CheckStreamOK q (pkt_len pkt + 13) \<longrightarrow> hi8 crc = UPLINK_HEAD \<and> pkt ! (pkt_len pkt + 12) = UPLINK_TAIL"
    by (auto simp: CheckStreamOK_def add.commute split: if_splits)
  then show ?thesis using mk t dr crc_def by (intro exI [of _ q] exI [of _ crc]) simp
qed

theorem faal_makepkt_overwrites_witness:
  "\<exists>q. faal_makepkt 1024 (replicate 8 1) (set_head 0x23 0 (replicate 1152 0)) = (13, q) \<and> \<not> CheckStreamOK q 13"
proof -
  let ?pkt = "set_head 0x23 0 (replicate 1152 0) :: bytes"
  have p: "pkt_len ?pkt + 13 \<le> length ?pkt" "pkt_len ?pkt \<le> 1024" by simp_all
  have n: "?pkt ! 12 \<noteq> UPLINK_TAIL" by (simp add: set_head_def FAAL_SETLEN_def UPLINK_TAIL_def)
  from faal_makepkt_overwrites [OF p, of "replicate 8 1"] n show ?thesis by auto
qed

text \<open>The source of the local server yields one byte for every segment it receives, however long, and reads
  behind its buffer after 2048 segments.\<close>

theorem LocalSvrGetChar_loses:
  assumes "sk_srv e" "sk_open e" "sk_len e \<le> 0" "length (sk_buf e) = 2048" "sk_net e = map Received segs @ rest"
    "list_all (\<lambda>bs. bs \<noteq> [] \<and> length bs \<le> 2048) segs" "sk_head e \<le> 2048"
  shows "if sk_head e + length segs \<le> 2048
    then \<exists>bs e'. read_n LocalSvrGetChar (length segs) e = Inr (bs, e') \<and> length bs = length segs \<and> sk_net e' = rest
    else read_n LocalSvrGetChar (length segs) e = Inl OutOfBounds"
  using assms
proof (induction segs arbitrary: e)
  case (Cons s segs)
  note g = LocalSvrGetChar_segment [of e s "map Received segs @ rest"]
  show ?case
  proof (cases "sk_head e < 2048")
    case True
    let ?e1 = "e\<lparr>sk_net := map Received segs @ rest, sk_buf := s @ drop (length s) (sk_buf e), sk_len := - 1, sk_head := sk_head e + 1\<rparr>"
    have ih: "if sk_head ?e1 + length segs \<le> 2048
      then \<exists>bs e'. read_n LocalSvrGetChar (length segs) ?e1 = Inr (bs, e') \<and> length bs = length segs \<and> sk_net e' = rest
      else read_n LocalSvrGetChar (length segs) ?e1 = Inl OutOfBounds"
      using Cons.prems True by (intro Cons.IH) auto
    show ?thesis using ih g Cons.prems True by (auto split: if_splits)
  next
    case False
    then show ?thesis using g Cons.prems by simp
  qed
qed auto

theorem LocalSvrGetChar_loses_witness:
  "\<exists>bs e'. read_n LocalSvrGetChar 2 (idle_sock\<lparr>sk_net := [Received [0x68, 1, 2], Received [3, 4]]\<rparr>) = Inr (bs, e') \<and> length bs = 2 \<and> sk_net e' = []"
  using LocalSvrGetChar_loses [of "idle_sock\<lparr>sk_net := [Received [0x68, 1, 2], Received [3, 4]]\<rparr>" "[[0x68, 1, 2], [3, 4]]" "[]"] by (simp add: numeral_2_eq_2)

end
