(* ===== verification/Alarm.thy ===== *)
theory Alarm
  imports Storage Clock
begin

text \<open>
  The running state (\<open>monitor/runstate.c\<close>) and the events (\<open>monitor/alarm.c\<close>): a ring of 1024
  events in memory with the indices \<open>head\<close>, \<open>cur\<close> and \<open>snd\<close> of the running state, which are
  saved as records of \<open>sys/storage\<close>. The callers pass \<open>GetCurrentAlarm()\<close>, a pointer into the
  ring itself, so a pointer to an event is its index. The lock is part of the state: taking it
  while it is held is the result \<open>Inl Blocked\<close>, an index behind the ring \<open>Inl BadIndex\<close>. The
  locale \<open>event_queue\<close> is what the sender of the events relies on. The time of day is an
  argument.
\<close>

datatype alarm_stop = Blocked | BadIndex

subsection \<open>The running state\<close>

record runstate_tG =
  rs_softflag :: u8
  rs_softver :: bytes
  rs_pad1 :: u8
  rs_head :: nat
  rs_cur :: nat
  rs_snd :: nat
  rs_playstate :: u8
  rs_pad2 :: u8
  rs_cnt_snderr :: u8
  rs_alarmtime :: u8

text \<open>The bytes of the structure, with the two bytes of padding the compiler inserts.\<close>

definition runstate_bytes :: "runstate_tG \<Rightarrow> bytes" where
  "runstate_bytes r = [rs_softflag r] @ rs_softver r @ [rs_pad1 r] @ le16 (of_nat (rs_head r)) @ le16 (of_nat (rs_cur r)) @
     le16 (of_nat (rs_snd r)) @ [rs_playstate r, rs_pad2 r, rs_cnt_snderr r, rs_alarmtime r]"

definition runstate_of :: "bytes \<Rightarrow> runstate_tG" where
  "runstate_of b = \<lparr>rs_softflag = b ! 0, rs_softver = take 8 (drop 1 b), rs_pad1 = b ! 9, rs_head = unat (u16_of (b ! 10) (b ! 11)),
     rs_cur = unat (u16_of (b ! 12) (b ! 13)), rs_snd = unat (u16_of (b ! 14) (b ! 15)), rs_playstate = b ! 16, rs_pad2 = b ! 17,
     rs_cnt_snderr = b ! 18, rs_alarmtime = b ! 19\<rparr>"

definition zero_runstate :: runstate_tG where
  "zero_runstate = runstate_of (replicate 20 0)"

definition RUNSTATE_MAGIC :: u32 where "RUNSTATE_MAGIC = 0xfefc9701"

definition RUNSTATE_FILE :: string where "RUNSTATE_FILE = ''/param'' @ ''/runstate.db''"

definition SaveRunState :: "runstate_tG \<Rightarrow> fs \<Rightarrow> fs" where
  "SaveRunState r s = snd (SaveBinFile RUNSTATE_FILE RUNSTATE_MAGIC (runstate_bytes r) s)"

definition ClearRunState :: "fs \<Rightarrow> runstate_tG \<times> fs" where
  "ClearRunState s = (let r = zero_runstate in (r, SaveRunState r s))"

text \<open>What was read is laid over the cleared structure.\<close>

definition RunStateInit :: "fs \<Rightarrow> runstate_tG" where
  "RunStateInit s =
     (let zero = replicate 20 (0 :: u8) in
      case ReadBinFile RUNSTATE_FILE RUNSTATE_MAGIC 20 s of
        Some bs \<Rightarrow> runstate_of (bs @ drop (length bs) zero)
      | None \<Rightarrow> runstate_of zero)"

subsection \<open>Events\<close>

record alarm_buf_t =
  al_starttime :: int
  al_endtime :: int
  al_palyedid :: u16
  al_pad :: u16

definition alarm_bytes :: "alarm_buf_t \<Rightarrow> bytes" where
  "alarm_bytes a = le32 (word_of_int (al_starttime a)) @ le32 (word_of_int (al_endtime a)) @ le16 (al_palyedid a) @ le16 (al_pad a)"

fun alarms_of :: "bytes \<Rightarrow> alarm_buf_t list" where
  "alarms_of (s0 # s1 # s2 # s3 # e0 # e1 # e2 # e3 # i0 # i1 # p0 # p1 # rest) =
     \<lparr>al_starttime = sint (u32_of s0 s1 s2 s3), al_endtime = sint (u32_of e0 e1 e2 e3), al_palyedid = u16_of i0 i1,
      al_pad = u16_of p0 p1\<rparr> # alarms_of rest"
| "alarms_of _ = []"

definition MAX_ALARM :: nat where "MAX_ALARM = 1024"
definition ALMNUM_PERFILE :: nat where "ALMNUM_PERFILE = 256"
definition ALARM_MAGIC :: u32 where "ALARM_MAGIC = 0x9631f810"

text \<open>The complement of 255 is cast to a byte.\<close>

definition ALARM_BASEMASK :: u8 where "ALARM_BASEMASK = word_of_int (NOT (int ALMNUM_PERFILE - 1))"

definition alarm_base :: "nat \<Rightarrow> nat" where
  "alarm_base cur = unat (of_nat cur AND ucast ALARM_BASEMASK :: u32)"

record alarm_state =
  al_run :: runstate_tG
  al_cache :: "alarm_buf_t list"
  al_locked :: bool
  al_fs :: fs

definition AlarmFileName :: "nat \<Rightarrow> string" where
  "AlarmFileName offset = ''/data/'' @ ''i'' @ dec_nat (offset div ALMNUM_PERFILE) @ ''.alm''"

definition GetCurrentAlarm :: "alarm_state \<Rightarrow> nat" where
  "GetCurrentAlarm st = alarm_base (rs_cur (al_run st))"

definition save_block :: "nat \<Rightarrow> alarm_state \<Rightarrow> alarm_state" where
  "save_block idxbase st = st\<lparr>al_fs := snd (SaveBinFile (AlarmFileName (rs_cur (al_run st))) ALARM_MAGIC
     (concat (map alarm_bytes (take ALMNUM_PERFILE (drop idxbase (al_cache st))))) (al_fs st))\<rparr>"

definition UpdateAlarm :: "sysclock_t \<Rightarrow> int \<Rightarrow> nat \<Rightarrow> alarm_state \<Rightarrow> alarm_stop + alarm_state" where
  "UpdateAlarm pclock now pbuf st =
     (if al_locked st then Inl Blocked
      else
        let st = st\<lparr>al_locked := True\<rparr> in
        if c_year pclock \<noteq> 17 then Inr st
        else if MAX_ALARM \<le> rs_cur (al_run st) then Inl BadIndex
        else
          let st = st\<lparr>al_cache := (al_cache st)[rs_cur (al_run st) := al_cache st ! pbuf]\<rparr>;
              st = st\<lparr>al_cache := (al_cache st)[pbuf := (al_cache st ! pbuf)\<lparr>al_endtime := now\<rparr>]\<rparr>;
              st = save_block (alarm_base (rs_cur (al_run st))) st
          in Inr (st\<lparr>al_locked := False\<rparr>))"

text \<open>The step of the ring: the oldest event is given up when the ring is full.\<close>

definition ring_step :: "runstate_tG \<Rightarrow> runstate_tG" where
  "ring_step r =
     (let r = r\<lparr>rs_cur := (rs_cur r + 1) mod 65536\<rparr>;
          r = (if rs_cur r \<ge> MAX_ALARM then r\<lparr>rs_cur := 0\<rparr> else r)
      in if rs_cur r = rs_head r then
           let r = r\<lparr>rs_head := (rs_head r + 1) mod 65536\<rparr>
           in if rs_head r \<ge> MAX_ALARM then r\<lparr>rs_head := 0\<rparr> else r
         else r)"

definition SaveAlarm :: "sysclock_t \<Rightarrow> int \<Rightarrow> nat \<Rightarrow> alarm_state \<Rightarrow> alarm_stop + alarm_state" where
  "SaveAlarm pclock now pbuf st =
     (if al_locked st then Inl Blocked
      else
        let st = st\<lparr>al_locked := True\<rparr> in
        if c_year pclock \<noteq> 17 then Inr st
        else if MAX_ALARM \<le> rs_cur (al_run st) then Inl BadIndex
        else
          let st = st\<lparr>al_cache := (al_cache st)[pbuf := (al_cache st ! pbuf)\<lparr>al_endtime := now\<rparr>]\<rparr>;
              st = st\<lparr>al_cache := (al_cache st)[rs_cur (al_run st) := al_cache st ! pbuf]\<rparr>;
              st = save_block (alarm_base (rs_cur (al_run st))) st;
              st = st\<lparr>al_run := (ring_step (al_run st))\<lparr>rs_playstate := 0\<rparr>\<rparr>;
              st = st\<lparr>al_fs := SaveRunState (al_run st) (al_fs st)\<rparr>
          in Inr (st\<lparr>al_locked := False\<rparr>))"

definition ClearAlarm :: "alarm_state \<Rightarrow> alarm_state" where
  "ClearAlarm st = st\<lparr>al_run := (al_run st)\<lparr>rs_head := 0, rs_cur := 0, rs_snd := 0\<rparr>\<rparr>"

definition MakeAlarmG :: "sysclock_t \<Rightarrow> int \<Rightarrow> nat \<Rightarrow> alarm_state \<Rightarrow> alarm_state" where
  "MakeAlarmG pclock now pbuf st =
     (if c_year pclock \<noteq> 17 then st
      else
        let r = al_run st;
            r = (if rs_playstate r = 1 then ring_step r else r);
            r = (if rs_head r \<ge> MAX_ALARM \<or> rs_cur r \<ge> MAX_ALARM then r\<lparr>rs_cur := 0, rs_head := 0\<rparr> else r);
            r = r\<lparr>rs_playstate := 1\<rparr>;
            cache = (al_cache st)[pbuf := (al_cache st ! pbuf)\<lparr>al_starttime := now, al_endtime := now\<rparr>]
        in st\<lparr>al_run := r, al_cache := cache, al_fs := SaveRunState r (al_fs st)\<rparr>)"

definition AlarmInit_block :: "fs \<Rightarrow> nat \<Rightarrow> alarm_buf_t list" where
  "AlarmInit_block s offset =
     (let zero = replicate (12 * ALMNUM_PERFILE) (0 :: u8) in
      case ReadBinFile (AlarmFileName offset) ALARM_MAGIC (12 * int ALMNUM_PERFILE) s of
        Some bs \<Rightarrow> alarms_of (bs @ drop (length bs) zero)
      | None \<Rightarrow> alarms_of zero)"

definition AlarmInit :: "runstate_tG \<Rightarrow> fs \<Rightarrow> alarm_state" where
  "AlarmInit r s = \<lparr>al_run = r, al_cache = concat (map (AlarmInit_block s) [0, 256, 512, 768]), al_locked = False, al_fs = s\<rparr>"

definition FormatAlarm :: "alarm_buf_t \<Rightarrow> bytes" where
  "FormatAlarm palm = le32 (word_of_int (al_starttime palm)) @ le32 (word_of_int (al_endtime palm))"

text \<open>Where the next event to be sent is; an index outside the ring of stored events goes back to
  the oldest one.\<close>

definition snd_index :: "runstate_tG \<Rightarrow> nat" where
  "snd_index r =
     (let snd = (if rs_cur r > rs_head r
                 then (if rs_snd r > rs_cur r \<or> rs_snd r < rs_head r then rs_head r else rs_snd r)
                 else (if rs_snd r > rs_cur r \<and> rs_snd r < rs_head r then rs_head r else rs_snd r))
      in if snd \<ge> MAX_ALARM then 0 else snd)"

definition ActiveSendAlarm :: "alarm_state \<Rightarrow> bytes option \<times> alarm_state" where
  "ActiveSendAlarm st =
     (let r = al_run st in
      if rs_cur r = rs_head r then (None, st)
      else
        let r = r\<lparr>rs_snd := snd_index r\<rparr>; st = st\<lparr>al_run := r\<rparr> in
        if rs_snd r = rs_cur r then (None, st)
        else
          let buf = FormatAlarm (al_cache st ! rs_snd r);
              r = r\<lparr>rs_snd := rs_snd r + 1\<rparr>
          in (Some buf, st\<lparr>al_run := r, al_fs := SaveRunState r (al_fs st)\<rparr>))"

text \<open>Emptying a queue by calling its reader until it answers that nothing is left; the fuel
  bounds the number of calls. The loop of \<open>AlarmProc\<close> (\<open>uplink/svrcomm.c\<close>) is this loop on the
  events: each goes out without waiting for an answer.\<close>

fun drain :: "('s \<Rightarrow> 'a option \<times> 's) \<Rightarrow> nat \<Rightarrow> 's \<Rightarrow> ('a list \<times> 's) option" where
  "drain deq 0 st = None"
| "drain deq (Suc fuel) st =
     (case deq st of
        (None, st) \<Rightarrow> Some ([], st)
      | (Some x, st) \<Rightarrow> (case drain deq fuel st of None \<Rightarrow> None | Some (out, st) \<Rightarrow> Some (x # out, st)))"

definition AlarmProc_loop :: "nat \<Rightarrow> alarm_state \<Rightarrow> (bytes list \<times> alarm_state) option" where
  "AlarmProc_loop = drain ActiveSendAlarm"

subsection \<open>Specification\<close>

definition time_ok :: "alarm_buf_t \<Rightarrow> bool" where
  "time_ok a \<longleftrightarrow> int_ok (al_starttime a) \<and> int_ok (al_endtime a)"

text \<open>The queue of the events that were not sent yet.\<close>

definition unsent :: "runstate_tG \<Rightarrow> nat list" where
  "unsent r = (if rs_cur r = rs_head r then [] else let s = snd_index r in
     if s \<le> rs_cur r then [s..<rs_cur r] else [s..<MAX_ALARM] @ [0..<rs_cur r])"

definition ring_ok :: "runstate_tG \<Rightarrow> bool" where
  "ring_ok r \<longleftrightarrow> rs_cur r < MAX_ALARM \<and>
     (rs_head r = 0 \<and> (rs_snd r \<le> rs_cur r \<or> rs_cur r = 1023 \<and> rs_snd r = 1024) \<or>
      rs_head r = rs_cur r + 1 \<and> rs_head r < MAX_ALARM \<and> rs_snd r \<le> MAX_ALARM)"

definition alarm_items :: "alarm_state \<Rightarrow> bytes list" where
  "alarm_items st = map (\<lambda>i. FormatAlarm (al_cache st ! i)) (unsent (al_run st))"

text \<open>The same with the slot of the ring each event is in, and what a change of the event in a slot does to it.\<close>

definition waiting :: "alarm_state \<Rightarrow> (nat \<times> bytes) list" where
  "waiting st = map (\<lambda>i. (i, FormatAlarm (al_cache st ! i))) (unsent (al_run st))"

definition revise :: "nat \<Rightarrow> alarm_buf_t \<Rightarrow> nat \<times> bytes \<Rightarrow> nat \<times> bytes" where
  "revise p a x = (fst x, if fst x = p then FormatAlarm a else snd x)"

definition alarm_inv :: "alarm_state \<Rightarrow> bool" where
  "alarm_inv st \<longleftrightarrow> ring_ok (al_run st) \<and> length (al_cache st) = MAX_ALARM"

definition full_ring :: alarm_state where
  "full_ring = \<lparr>al_run = zero_runstate\<lparr>rs_cur := 4, rs_head := 5, rs_snd := 5\<rparr>,
     al_cache = replicate 1024 \<lparr>al_starttime = 0, al_endtime = 0, al_palyedid = 0, al_pad = 0\<rparr>, al_locked = False,
     al_fs = \<lparr>files = \<lambda>_. None, can_write = \<lambda>_. True\<rparr>\<rparr>"

subsection \<open>Lemmas\<close>

lemma runstate_roundtrip:
  "length (rs_softver r) = 8 \<Longrightarrow> rs_head r < 65536 \<Longrightarrow> rs_cur r < 65536 \<Longrightarrow> rs_snd r < 65536 \<Longrightarrow> runstate_of (runstate_bytes r) = r"
  by (simp add: runstate_of_def runstate_bytes_def le16_def nth_append unat_of_nat take_bit_nat_eq_self)

lemma length_runstate_bytes: "length (rs_softver r) = 8 \<Longrightarrow> length (runstate_bytes r) = 20"
  by (simp add: runstate_bytes_def)

lemma sint_word_of_int: "int_ok x \<Longrightarrow> sint (word_of_int x :: u32) = x"
  by (simp add: int_ok_def signed_of_int signed_take_bit_int_eq_self)

lemma alarms_of_bytes: "time_ok a \<Longrightarrow> alarms_of (alarm_bytes a @ rest) = a # alarms_of rest"
  by (simp add: alarm_bytes_def le32_def le16_def time_ok_def sint_word_of_int)

lemma alarms_of_concat: "list_all time_ok as \<Longrightarrow> alarms_of (concat (map alarm_bytes as)) = as"
  by (induction as) (simp_all add: alarms_of_bytes)

lemma length_alarm_bytes [simp]: "length (alarm_bytes a) = 12"
  by (simp add: alarm_bytes_def)

lemma length_concat_alarms: "length (concat (map alarm_bytes as)) = 12 * length as"
  by (induction as) simp_all

lemma ALARM_BASEMASK_0: "ALARM_BASEMASK = 0"
  by (simp add: ALARM_BASEMASK_def ALMNUM_PERFILE_def not_int_def)

lemma alarm_base_0 [simp]: "alarm_base n = 0"
  by (simp add: alarm_base_def ALARM_BASEMASK_0)

lemma SaveBinFile_succeeds:
  "can_write s f \<Longrightarrow> b \<noteq> [] \<Longrightarrow> int (length b) \<le> MAX_FILELEN \<Longrightarrow> SaveBinFile f m b s = (0, snd (SaveBinFile f m b s))"
  by (simp add: SaveBinFile_def Let_def fs_remove_def)

lemma can_write_save [simp]: "can_write (snd (SaveBinFile f m b s)) = can_write s"
  by (simp add: SaveBinFile_def Let_def fs_remove_def fs_write_def)

lemma load_after_save: "can_write s f \<Longrightarrow> b \<noteq> [] \<Longrightarrow> int (length b) \<le> MAX_FILELEN \<Longrightarrow>
    ReadBinFile f m (int (length b)) (snd (SaveBinFile f m b s)) = Some b"
  by (rule bin.load_whole [OF SaveBinFile_succeeds]) auto

lemma RunStateInit_saved:
  assumes "can_write s RUNSTATE_FILE" "length (rs_softver r) = 8" "rs_head r < 65536" "rs_cur r < 65536" "rs_snd r < 65536"
  shows "RunStateInit (SaveRunState r s) = r"
proof -
  have l: "length (runstate_bytes r) = 20" by (rule length_runstate_bytes [OF assms(2)])
  then have "ReadBinFile RUNSTATE_FILE RUNSTATE_MAGIC 20 (SaveRunState r s) = Some (runstate_bytes r)"
    using load_after_save [OF assms(1), of "runstate_bytes r" RUNSTATE_MAGIC]
    by (cases "runstate_bytes r") (simp_all add: SaveRunState_def MAX_FILELEN_def)
  then show ?thesis using l by (simp add: RunStateInit_def runstate_roundtrip [OF assms(2-5)])
qed

lemma AlarmInit_block_saved:
  assumes "can_write s (AlarmFileName off)" "list_all time_ok as" "length as = 256"
  shows "AlarmInit_block (snd (SaveBinFile (AlarmFileName off) ALARM_MAGIC (concat (map alarm_bytes as)) s)) off = as"
proof -
  have l: "length (concat (map alarm_bytes as)) = 3072" using assms(3) by (simp add: length_concat_alarms)
  then have "ReadBinFile (AlarmFileName off) ALARM_MAGIC 3072 (snd (SaveBinFile (AlarmFileName off) ALARM_MAGIC (concat (map alarm_bytes as)) s))
      = Some (concat (map alarm_bytes as))"
    using load_after_save [OF assms(1), of "concat (map alarm_bytes as)" ALARM_MAGIC]
    by (cases "concat (map alarm_bytes as)") (simp_all add: MAX_FILELEN_def)
  then show ?thesis using l alarms_of_concat [OF assms(2)] by (simp add: AlarmInit_block_def ALMNUM_PERFILE_def)
qed

locale event_queue =
  fixes items :: "'s \<Rightarrow> 'a list" and deq :: "'s \<Rightarrow> 'a option \<times> 's" and inv :: "'s \<Rightarrow> bool"
  assumes deq_some: "inv st \<Longrightarrow> items st = x # xs \<Longrightarrow> \<exists>st'. deq st = (Some x, st') \<and> items st' = xs \<and> inv st'"
    and deq_none: "inv st \<Longrightarrow> items st = [] \<Longrightarrow> \<exists>st'. deq st = (None, st') \<and> items st' = [] \<and> inv st'"
begin

lemma drain_all: "inv st \<Longrightarrow> length (items st) < fuel \<Longrightarrow>
   \<exists>st'. drain deq fuel st = Some (items st, st') \<and> items st' = [] \<and> inv st'"
proof (induction fuel arbitrary: st)
  case (Suc fuel)
  show ?case
  proof (cases "items st")
    case Nil
    then show ?thesis using deq_none [OF Suc.prems(1)] by auto
  next
    case (Cons x xs)
    then obtain st1 where st1: "deq st = (Some x, st1)" "items st1 = xs" "inv st1" using deq_some [OF Suc.prems(1)] by blast
    then obtain st' where "drain deq fuel st1 = Some (xs, st')" "items st' = []" "inv st'"
      using Suc.IH [of st1] Suc.prems(2) Cons by auto
    then show ?thesis using st1 Cons by simp
  qed
qed simp

end

lemma snd_index_ring: "ring_ok r \<Longrightarrow> rs_cur r \<noteq> rs_head r \<Longrightarrow>
   snd_index r = (if rs_snd r \<ge> MAX_ALARM \<or> rs_head r = 0 \<and> rs_snd r > rs_cur r then 0 else rs_snd r)"
  by (auto simp: snd_index_def ring_ok_def MAX_ALARM_def Let_def)

lemma snd_index_fix: "ring_ok r \<Longrightarrow> rs_cur r \<noteq> rs_head r \<Longrightarrow> snd_index (r\<lparr>rs_snd := snd_index r\<rparr>) = snd_index r"
  and ring_ok_normal: "ring_ok r \<Longrightarrow> rs_cur r \<noteq> rs_head r \<Longrightarrow> ring_ok (r\<lparr>rs_snd := snd_index r\<rparr>)"
  and ring_ok_sent: "ring_ok r \<Longrightarrow> rs_cur r \<noteq> rs_head r \<Longrightarrow> snd_index r \<noteq> rs_cur r \<Longrightarrow> ring_ok (r\<lparr>rs_snd := snd_index r + 1\<rparr>)"
  by (auto simp: snd_index_def ring_ok_def MAX_ALARM_def Let_def)

lemma unsent_sent:
  assumes "ring_ok r" "rs_cur r \<noteq> rs_head r" "snd_index r \<noteq> rs_cur r"
  shows "unsent r = snd_index r # unsent (r\<lparr>rs_snd := snd_index r + 1\<rparr>)"
proof -
  have lt: "snd_index r < MAX_ALARM" "rs_cur r < MAX_ALARM" using assms(1) by (auto simp: snd_index_def MAX_ALARM_def Let_def ring_ok_def)
  have nx: "snd_index (r\<lparr>rs_snd := snd_index r + 1\<rparr>) = (if snd_index r + 1 = MAX_ALARM then 0 else snd_index r + 1)"
    using snd_index_ring [OF ring_ok_sent [OF assms]] snd_index_ring [OF assms(1,2)] assms lt
    by (auto simp: ring_ok_def MAX_ALARM_def split: if_splits)
  show ?thesis
  proof (cases "snd_index r < rs_cur r")
    case True
    then show ?thesis using nx lt assms by (simp add: unsent_def upt_conv_Cons Let_def)
  next
    case False
    then show ?thesis using nx lt assms by (auto simp: unsent_def upt_conv_Cons Let_def)
  qed
qed

interpretation alarms: event_queue alarm_items ActiveSendAlarm alarm_inv
proof
  fix st x xs assume inv: "alarm_inv st" and it: "alarm_items st = x # xs"
  define r where "r = al_run st"
  have ne: "rs_cur r \<noteq> rs_head r" and s: "snd_index r \<noteq> rs_cur r"
    using it by (auto simp: alarm_items_def unsent_def r_def Let_def split: if_splits)
  have ok: "ring_ok r" using inv by (simp add: alarm_inv_def r_def)
  note u = unsent_sent [OF ok ne s]
  let ?r = "r\<lparr>rs_snd := snd_index r + 1\<rparr>"
  show "\<exists>st'. ActiveSendAlarm st = (Some x, st') \<and> alarm_items st' = xs \<and> alarm_inv st'"
    using it ne s u ring_ok_sent [OF ok ne s] inv
    by (auto simp: ActiveSendAlarm_def alarm_items_def alarm_inv_def Let_def r_def)
next
  fix st assume inv: "alarm_inv st" and it: "alarm_items st = []"
  define r where "r = al_run st"
  have ok: "ring_ok r" using inv by (simp add: alarm_inv_def r_def)
  show "\<exists>st'. ActiveSendAlarm st = (None, st') \<and> alarm_items st' = [] \<and> alarm_inv st'"
  proof (cases "rs_cur r = rs_head r")
    case True
    then show ?thesis using inv it by (simp add: ActiveSendAlarm_def r_def)
  next
    case False
    have lt: "snd_index r < MAX_ALARM" using ok by (auto simp: snd_index_def MAX_ALARM_def Let_def ring_ok_def)
    have "snd_index r = rs_cur r" using it False lt by (auto simp: alarm_items_def unsent_def r_def [symmetric] Let_def split: if_splits)
    then show ?thesis
      using False inv it ring_ok_normal [OF ok False] snd_index_fix [OF ok False]
      by (auto simp: ActiveSendAlarm_def alarm_items_def alarm_inv_def Let_def r_def unsent_def)
  qed
qed

lemma ring_step_eq: "ring_ok r \<Longrightarrow> ring_step r = (let c = (if rs_cur r = 1023 then 0 else rs_cur r + 1) in
    r\<lparr>rs_cur := c, rs_head := (if rs_head r = c then (if rs_head r = 1023 then 0 else rs_head r + 1) else rs_head r)\<rparr>)"
  by (auto simp: ring_step_def ring_ok_def MAX_ALARM_def Let_def)

lemma ring_ok_step: "ring_ok r \<Longrightarrow> ring_ok (ring_step r)"
  unfolding ring_step_eq by (auto simp: ring_ok_def MAX_ALARM_def Let_def)

lemma upt_ends: "a \<le> 1022 \<Longrightarrow> [a..<1023] = [a..<1022] @ [1022 :: nat]" "a \<le> 1023 \<Longrightarrow> [a..<1024] = [a..<1023] @ [1023 :: nat]"
  using upt_Suc_append [of a 1022] upt_Suc_append [of a 1023] by simp_all

lemma unsent_step:
  assumes "ring_ok r"
  shows "unsent (ring_step r) = (if length (unsent r) = 1023 then [] else unsent r @ [rs_cur r])"
proof -
  let ?q = "ring_step r"
  note q = ring_step_eq [OF assms]
  note okq = ring_ok_step [OF assms]
  consider (low) "rs_head r = 0" "rs_cur r < 1023" "rs_snd r \<le> rs_cur r"
    | (turn) "rs_head r = 0" "rs_cur r = 1023" "rs_snd r \<le> 1024"
    | (full) "rs_head r = rs_cur r + 1" "rs_cur r < 1023" "rs_snd r \<le> 1024"
    using assms unfolding ring_ok_def MAX_ALARM_def by fastforce
  then show ?thesis
  proof cases
    case low
    then have "rs_cur ?q = rs_cur r + 1" "rs_head ?q = 0" "rs_snd ?q = rs_snd r" using q by (simp_all add: Let_def)
    then show ?thesis using low by (auto simp: unsent_def snd_index_def MAX_ALARM_def Let_def)
  next
    case turn
    then have "rs_cur ?q = 0" "rs_head ?q = 1" "rs_snd ?q = rs_snd r" using q by (simp_all add: Let_def)
    then show ?thesis using turn upt_ends(2) [of "rs_snd r"] upt_ends(2) [of 0] by (auto simp: unsent_def snd_index_def MAX_ALARM_def Let_def)
  next
    case full
    then have h: "rs_cur ?q = rs_cur r + 1" "rs_head ?q = (if rs_cur r = 1022 then 0 else rs_cur r + 2)" "rs_snd ?q = rs_snd r" using q by (simp_all add: Let_def)
    show ?thesis
    proof (cases "rs_cur r = 1022")
      case True
      then show ?thesis using full h upt_ends(1) [of "rs_snd r"] upt_ends(1) [of 0] by (auto simp: unsent_def snd_index_def MAX_ALARM_def Let_def)
    next
      case False
      then have "rs_head ?q = rs_cur r + 2" using full h by simp
      then show ?thesis using full h False by (auto simp: unsent_def snd_index_def MAX_ALARM_def Let_def)
    qed
  qed
qed

lemma unsent_bounds: "ring_ok r \<Longrightarrow> length (unsent r) \<le> 1023" "ring_ok r \<Longrightarrow> i \<in> set (unsent r) \<Longrightarrow> i < MAX_ALARM \<and> i \<noteq> rs_cur r"
  by (auto simp: unsent_def ring_ok_def snd_index_def MAX_ALARM_def Let_def split: if_splits)

lemma waiting_items: "map snd (waiting st) = alarm_items st"
  by (simp add: waiting_def alarm_items_def)

lemma waiting_slots: "map fst (waiting st) = unsent (al_run st)"
  by (simp add: waiting_def comp_def)

text \<open>Another event in a slot shows in the queue exactly where that slot waits.\<close>

lemma waiting_revise:
  assumes "\<forall>i \<in> set xs. i < length cache" "\<forall>i \<in> set xs. i \<noteq> j"
  shows "map (\<lambda>i. (i, FormatAlarm (cache[j := b, p := a] ! i))) xs = map (revise p a) (map (\<lambda>i. (i, FormatAlarm (cache ! i))) xs)"
  using assms by (auto simp: revise_def nth_list_update)

lemma MakeAlarmG_run:
  assumes "ring_ok (al_run st)" "c_year clock = 17"
  shows "ring_ok (al_run (MakeAlarmG clock now p st))" "rs_playstate (al_run (MakeAlarmG clock now p st)) = 1"
    "unsent (al_run (MakeAlarmG clock now p st)) =
      (if rs_playstate (al_run st) \<noteq> 1 then unsent (al_run st)
       else if length (unsent (al_run st)) < 1023 then unsent (al_run st) @ [rs_cur (al_run st)] else [])"
proof -
  define r where "r = (if rs_playstate (al_run st) = 1 then ring_step (al_run st) else al_run st)"
  have ok: "ring_ok r" using assms(1) ring_ok_step by (simp add: r_def)
  have run: "al_run (MakeAlarmG clock now p st) = r\<lparr>rs_playstate := 1\<rparr>"
    using ok assms(2) by (auto simp: MakeAlarmG_def r_def [symmetric] Let_def ring_ok_def MAX_ALARM_def)
  have same: "unsent (r\<lparr>rs_playstate := 1\<rparr>) = unsent r" "ring_ok (r\<lparr>rs_playstate := 1\<rparr>) = ring_ok r"
    by (simp_all add: unsent_def snd_index_def ring_ok_def Let_def)
  show "ring_ok (al_run (MakeAlarmG clock now p st))" "rs_playstate (al_run (MakeAlarmG clock now p st)) = 1"
    "unsent (al_run (MakeAlarmG clock now p st)) =
      (if rs_playstate (al_run st) \<noteq> 1 then unsent (al_run st)
       else if length (unsent (al_run st)) < 1023 then unsent (al_run st) @ [rs_cur (al_run st)] else [])"
    using unsent_step [OF assms(1)] ok same unsent_bounds(1)[OF assms(1)] by (auto simp: run r_def)
qed

lemma MakeAlarmG_waiting:
  fixes now :: int and p :: nat
  assumes "alarm_inv st" "c_year clock = 17"
  defines "a \<equiv> (al_cache st ! p)\<lparr>al_starttime := now, al_endtime := now\<rparr>"
  shows "alarm_inv (MakeAlarmG clock now p st)" "al_cache (MakeAlarmG clock now p st) = (al_cache st)[p := a]"
    "waiting (MakeAlarmG clock now p st) = map (revise p a)
      (if rs_playstate (al_run st) \<noteq> 1 then waiting st
       else if length (waiting st) < 1023 then waiting st @ [(rs_cur (al_run st), FormatAlarm (al_cache st ! rs_cur (al_run st)))] else [])"
proof -
  have ok: "ring_ok (al_run st)" "length (al_cache st) = MAX_ALARM" using assms(1) by (simp_all add: alarm_inv_def)
  note r = MakeAlarmG_run[OF ok(1) assms(2), of now p]
  show c: "al_cache (MakeAlarmG clock now p st) = (al_cache st)[p := a]" using assms(2) by (simp add: MakeAlarmG_def Let_def a_def)
  show i: "alarm_inv (MakeAlarmG clock now p st)" using r(1) c ok(2) by (simp add: alarm_inv_def)
  let ?xs = "unsent (al_run (MakeAlarmG clock now p st))"
  have "\<forall>i \<in> set ?xs. i < length (al_cache st)" using unsent_bounds(2)[OF r(1)] ok(2) by auto
  then have "waiting (MakeAlarmG clock now p st) = map (revise p a) (map (\<lambda>i. (i, FormatAlarm (al_cache st ! i))) ?xs)"
    by (auto simp: waiting_def c revise_def nth_list_update)
  moreover have "length (waiting st) = length (unsent (al_run st))" by (simp add: waiting_def)
  ultimately show "waiting (MakeAlarmG clock now p st) = map (revise p a)
      (if rs_playstate (al_run st) \<noteq> 1 then waiting st
       else if length (waiting st) < 1023 then waiting st @ [(rs_cur (al_run st), FormatAlarm (al_cache st ! rs_cur (al_run st)))] else [])"
    unfolding r(3) by (simp add: waiting_def)
qed

lemma ActiveSendAlarm_waiting:
  assumes "alarm_inv st" "ActiveSendAlarm st = (x, st')"
  shows "alarm_inv st'" "al_cache st' = al_cache st" "rs_cur (al_run st') = rs_cur (al_run st)" "rs_playstate (al_run st') = rs_playstate (al_run st)"
    "case x of None \<Rightarrow> waiting st = [] \<and> waiting st' = [] | Some b \<Rightarrow> \<exists>i. waiting st = (i, b) # waiting st'"
proof -
  have k: "al_cache st' = al_cache st \<and> rs_cur (al_run st') = rs_cur (al_run st) \<and> rs_playstate (al_run st') = rs_playstate (al_run st)"
    using assms(2) by (auto simp: ActiveSendAlarm_def Let_def split: if_splits)
  then show "al_cache st' = al_cache st" "rs_cur (al_run st') = rs_cur (al_run st)" "rs_playstate (al_run st') = rs_playstate (al_run st)"
    by simp_all
  have "alarm_inv st' \<and> (case x of None \<Rightarrow> alarm_items st = [] \<and> alarm_items st' = [] | Some b \<Rightarrow> alarm_items st = b # alarm_items st')"
    using alarms.deq_none[OF assms(1)] alarms.deq_some[OF assms(1)] assms(2) by (cases "alarm_items st") auto
  then show i: "alarm_inv st'"
    and "case x of None \<Rightarrow> waiting st = [] \<and> waiting st' = [] | Some b \<Rightarrow> \<exists>i. waiting st = (i, b) # waiting st'"
  proof (safe)
    assume e: "case x of None \<Rightarrow> alarm_items st = [] \<and> alarm_items st' = [] | Some b \<Rightarrow> alarm_items st = b # alarm_items st'"
    show "case x of None \<Rightarrow> waiting st = [] \<and> waiting st' = [] | Some b \<Rightarrow> \<exists>i. waiting st = (i, b) # waiting st'"
    proof (cases x)
      case None
      then show ?thesis using e by (simp add: waiting_def alarm_items_def)
    next
      case (Some b)
      have r: "rs_cur (al_run st) \<noteq> rs_head (al_run st)" "snd_index (al_run st) \<noteq> rs_cur (al_run st)"
          "al_run st' = (al_run st)\<lparr>rs_snd := snd_index (al_run st) + 1\<rparr>" "b = FormatAlarm (al_cache st ! snd_index (al_run st))"
        using assms(2) Some by (auto simp: ActiveSendAlarm_def Let_def split: if_splits)
      have "ring_ok (al_run st)" using assms(1) by (simp add: alarm_inv_def)
      from unsent_sent[OF this r(1,2)] show ?thesis using r k by (simp add: Some waiting_def)
    qed
  qed
qed

lemma UpdateAlarm_waiting:
  fixes now :: int and p :: nat
  assumes "alarm_inv st" "c_year clock = 17" "\<not> al_locked st" "p < MAX_ALARM"
  defines "a \<equiv> (al_cache st ! p)\<lparr>al_endtime := now\<rparr>"
  shows "\<exists>st'. UpdateAlarm clock now p st = Inr st' \<and> alarm_inv st' \<and> \<not> al_locked st' \<and> al_run st' = al_run st \<and>
    al_cache st' = (al_cache st)[rs_cur (al_run st) := al_cache st ! p, p := a] \<and> waiting st' = map (revise p a) (waiting st)"
proof -
  have ok: "ring_ok (al_run st)" "length (al_cache st) = MAX_ALARM" "rs_cur (al_run st) < MAX_ALARM"
    using assms(1) by (auto simp: alarm_inv_def ring_ok_def)
  let ?cache = "(al_cache st)[rs_cur (al_run st) := al_cache st ! p, p := a]"
  have upd: "(al_cache st)[rs_cur (al_run st) := al_cache st ! p] ! p = al_cache st ! p"
    using ok assms(4) by (cases "p = rs_cur (al_run st)") simp_all
  define st' where "st' = (save_block 0 (st\<lparr>al_locked := True, al_cache := ?cache\<rparr>))\<lparr>al_locked := False\<rparr>"
  have u: "UpdateAlarm clock now p st = Inr st'"
    using assms(2,3) ok(3) upd by (simp add: UpdateAlarm_def Let_def a_def st'_def)
  have c: "al_cache st' = ?cache" "al_run st' = al_run st" "\<not> al_locked st'" by (simp_all add: st'_def save_block_def)
  have "waiting st' = map (revise p a) (waiting st)"
    unfolding waiting_def c using unsent_bounds(2)[OF ok(1)] ok(2) by (intro waiting_revise) auto
  then show ?thesis using u c ok(1,2) by (auto simp: alarm_inv_def)
qed

lemma length_alarms_of: "length (alarms_of b) = length b div 12"
  by (induction b rule: alarms_of.induct) auto

lemma ReadBinFile_length:
  assumes "ReadBinFile f m n s = Some bs"
  shows "length bs \<le> nat n"
proof -
  have l: "length (take (nat (if a < n then a else n)) xs) \<le> nat n" for a and xs :: bytes
    by (auto simp: min_le_iff_disj nat_mono)
  show ?thesis
    using assms l by (auto simp: ReadBinFile_def fread1_def Let_def split: if_splits option.splits)
qed

lemma length_AlarmInit_block [simp]: "length (AlarmInit_block s off) = 256"
  using ReadBinFile_length [of "AlarmFileName off" ALARM_MAGIC 3072 s]
  by (auto simp: AlarmInit_block_def ALMNUM_PERFILE_def length_alarms_of Let_def split: option.splits)

lemma AlarmInit_blocks: "k < 4 \<Longrightarrow> take 256 (drop (256 * k) (al_cache (AlarmInit r s))) = AlarmInit_block s (256 * k)"
  by (cases "k = 0"; cases "k = 1"; cases "k = 2"; cases "k = 3") (simp_all add: AlarmInit_def)

subsection \<open>Properties\<close>

text \<open>C7: the ring of events refines a queue of the events to be sent, each with the slot it is in and with its times. Sending takes
  the first event off, or answers that the queue is empty exactly when it is. Starting an event in 2017 appends the event
  that was current, with its contents, if it was playing - when 1023 events wait, the whole queue is dropped instead -, and writes the time to the event
  that the caller passes. An update in 2017 copies this event to the current slot and moves its end time; both change a waiting event exactly when the
  caller passes the slot it waits in. In any other year a start changes nothing and an update only takes the lock; while it is held every update blocks.
  The slot that the callers pass, that of the current event with its low bits masked out, is always slot 0.\<close>

theorem MakeAlarmG_refines_queue:
  assumes "alarm_inv st" "p < MAX_ALARM"
  shows "(case ActiveSendAlarm st of (x, st') \<Rightarrow> alarm_inv st' \<and> al_cache st' = al_cache st \<and> rs_cur (al_run st') = rs_cur (al_run st) \<and>
      (case x of None \<Rightarrow> waiting st = [] \<and> waiting st' = [] | Some b \<Rightarrow> \<exists>i. waiting st = (i, b) # waiting st')) \<and>
    (let st' = MakeAlarmG clock now p st; a = (al_cache st ! p)\<lparr>al_starttime := now, al_endtime := now\<rparr>; cur = rs_cur (al_run st) in
      if c_year clock = 17
      then alarm_inv st' \<and> rs_playstate (al_run st') = 1 \<and> al_cache st' = (al_cache st)[p := a] \<and>
        waiting st' = map (revise p a)
          (if rs_playstate (al_run st) \<noteq> 1 then waiting st
           else if length (waiting st) < 1023 then waiting st @ [(cur, FormatAlarm (al_cache st ! cur))] else [])
      else st' = st) \<and>
    (let a = (al_cache st ! p)\<lparr>al_endtime := now\<rparr>; cur = rs_cur (al_run st) in
      if al_locked st then UpdateAlarm clock now p st = Inl Blocked
      else if c_year clock \<noteq> 17 then UpdateAlarm clock now p st = Inr (st\<lparr>al_locked := True\<rparr>)
      else \<exists>st'. UpdateAlarm clock now p st = Inr st' \<and> alarm_inv st' \<and> \<not> al_locked st' \<and> al_run st' = al_run st \<and>
        al_cache st' = (al_cache st)[cur := al_cache st ! p, p := a] \<and> waiting st' = map (revise p a) (waiting st)) \<and>
    GetCurrentAlarm st = 0"
proof (intro conjI)
  show "GetCurrentAlarm st = 0" by (simp add: GetCurrentAlarm_def)
  obtain x st' where s: "ActiveSendAlarm st = (x, st')" by (cases "ActiveSendAlarm st")
  show "case ActiveSendAlarm st of (x, st') \<Rightarrow> alarm_inv st' \<and> al_cache st' = al_cache st \<and> rs_cur (al_run st') = rs_cur (al_run st) \<and>
      (case x of None \<Rightarrow> waiting st = [] \<and> waiting st' = [] | Some b \<Rightarrow> \<exists>i. waiting st = (i, b) # waiting st')"
    using ActiveSendAlarm_waiting[OF assms(1) s] by (simp add: s)
  show "let st' = MakeAlarmG clock now p st; a = (al_cache st ! p)\<lparr>al_starttime := now, al_endtime := now\<rparr>; cur = rs_cur (al_run st) in
      if c_year clock = 17
      then alarm_inv st' \<and> rs_playstate (al_run st') = 1 \<and> al_cache st' = (al_cache st)[p := a] \<and>
        waiting st' = map (revise p a)
          (if rs_playstate (al_run st) \<noteq> 1 then waiting st
           else if length (waiting st) < 1023 then waiting st @ [(cur, FormatAlarm (al_cache st ! cur))] else [])
      else st' = st"
  proof (cases "c_year clock = 17")
    case True
    have "ring_ok (al_run st)" using assms(1) by (simp add: alarm_inv_def)
    from MakeAlarmG_waiting[OF assms(1) True, of now p] MakeAlarmG_run(2)[OF this True, of now p] True show ?thesis
      unfolding Let_def by simp
  next
    case False
    then show ?thesis by (simp add: MakeAlarmG_def)
  qed
  show "let a = (al_cache st ! p)\<lparr>al_endtime := now\<rparr>; cur = rs_cur (al_run st) in
      if al_locked st then UpdateAlarm clock now p st = Inl Blocked
      else if c_year clock \<noteq> 17 then UpdateAlarm clock now p st = Inr (st\<lparr>al_locked := True\<rparr>)
      else \<exists>st'. UpdateAlarm clock now p st = Inr st' \<and> alarm_inv st' \<and> \<not> al_locked st' \<and> al_run st' = al_run st \<and>
        al_cache st' = (al_cache st)[cur := al_cache st ! p, p := a] \<and> waiting st' = map (revise p a) (waiting st)"
    using UpdateAlarm_waiting[OF assms(1) _ _ assms(2), of clock now] by (auto simp: Let_def UpdateAlarm_def)
qed

text \<open>A full ring: the next start drops all 1023 events; and while one event waits in slot 0, the next start writes its time into it.\<close>

theorem MakeAlarmG_refines_queue_witness:
  "length (waiting (full_ring\<lparr>al_run := (al_run full_ring)\<lparr>rs_playstate := 1\<rparr>\<rparr>)) = 1023 \<and>
   waiting (MakeAlarmG (example_clock 1 2 3) 9 0 (full_ring\<lparr>al_run := (al_run full_ring)\<lparr>rs_playstate := 1\<rparr>\<rparr>)) = [] \<and>
   waiting (MakeAlarmG (example_clock 1 2 3) 9 0 (full_ring\<lparr>al_run := (al_run full_ring)\<lparr>rs_cur := 0, rs_head := 0, rs_snd := 0, rs_playstate := 1\<rparr>\<rparr>)) =
     [(0, FormatAlarm \<lparr>al_starttime = 9, al_endtime = 9, al_palyedid = 0, al_pad = 0\<rparr>)]"
proof -
  let ?a = "full_ring\<lparr>al_run := (al_run full_ring)\<lparr>rs_playstate := 1\<rparr>\<rparr>"
  let ?b = "full_ring\<lparr>al_run := (al_run full_ring)\<lparr>rs_cur := 0, rs_head := 0, rs_snd := 0, rs_playstate := 1\<rparr>\<rparr>"
  have r: "alarm_inv ?a" "alarm_inv ?b" "c_year (example_clock 1 2 3) = 17" "0 < MAX_ALARM"
    by (simp_all add: alarm_inv_def full_ring_def ring_ok_def MAX_ALARM_def example_clock_def)
  have a: "length (waiting ?a) = 1023" by (simp add: waiting_def full_ring_def unsent_def snd_index_def MAX_ALARM_def)
  have b: "waiting ?b = []" by (simp add: waiting_def full_ring_def unsent_def)
  show ?thesis
    using MakeAlarmG_refines_queue [OF r(1) r(4), of "example_clock 1 2 3" 9] MakeAlarmG_refines_queue [OF r(2) r(4), of "example_clock 1 2 3" 9] a b r(3)
    by (simp add: Let_def revise_def full_ring_def)
qed

text \<open>The loop that reports the events ends after at most 1024 calls, sends exactly the waiting events, each once
  and oldest first, and leaves no event waiting.\<close>

theorem AlarmProc_sends:
  assumes "ring_ok (al_run st)" "length (al_cache st) = MAX_ALARM" "1024 \<le> fuel"
  shows "\<exists>st'. AlarmProc_loop fuel st = Some (map (\<lambda>i. FormatAlarm (al_cache st ! i)) (unsent (al_run st)), st') \<and>
    unsent (al_run st') = [] \<and> ring_ok (al_run st')"
proof -
  have "rs_cur (al_run st) < 1024" "rs_head (al_run st) = 0 \<or> rs_cur (al_run st) < 1023" using assms(1) by (auto simp: ring_ok_def MAX_ALARM_def)
  moreover have "rs_cur (al_run st) \<noteq> rs_head (al_run st) \<Longrightarrow> snd_index (al_run st) \<le> rs_cur (al_run st) \<or> rs_cur (al_run st) < snd_index (al_run st)" by linarith
  ultimately have "length (unsent (al_run st)) < 1024"
    by (auto simp: unsent_def Let_def MAX_ALARM_def)
  then show ?thesis
    using alarms.drain_all [of st fuel] assms unfolding AlarmProc_loop_def
    by (auto simp: alarm_inv_def alarm_items_def)
qed

theorem AlarmProc_sends_witness:
  "\<exists>out st'. AlarmProc_loop 1024 full_ring = Some (out, st') \<and> length out = 1023 \<and> unsent (al_run st') = []"
proof -
  have r: "ring_ok (al_run full_ring)" "length (al_cache full_ring) = MAX_ALARM" by (simp_all add: full_ring_def ring_ok_def MAX_ALARM_def)
  have "length (unsent (al_run full_ring)) = 1023" by (simp add: full_ring_def unsent_def snd_index_def MAX_ALARM_def)
  then show ?thesis using AlarmProc_sends [OF r, of 1024] by auto
qed

text \<open>After an event was sent, a restart that reads the saved running state finds the same indices, so exactly
  the remaining events are still waiting.\<close>

theorem RunState_restart:
  assumes "can_write (al_fs st) RUNSTATE_FILE" "length (rs_softver (al_run st)) = 8" "ring_ok (al_run st)" "ActiveSendAlarm st = (Some buf, st')"
  shows "RunStateInit (al_fs st') = al_run st' \<and> unsent (RunStateInit (al_fs st')) = tl (unsent (al_run st))"
proof -
  have ne: "rs_cur (al_run st) \<noteq> rs_head (al_run st)" "snd_index (al_run st) \<noteq> rs_cur (al_run st)"
    and st': "al_run st' = (al_run st)\<lparr>rs_snd := snd_index (al_run st) + 1\<rparr>" "al_fs st' = SaveRunState (al_run st') (al_fs st)"
    using assms(4) by (auto simp: ActiveSendAlarm_def Let_def split: if_splits)
  have ok: "ring_ok (al_run st')" using ring_ok_sent [OF assms(3) ne] st'(1) by simp
  have "RunStateInit (al_fs st') = al_run st'"
    unfolding st'(2) using assms(1,2) ok st'(1) by (intro RunStateInit_saved) (auto simp: ring_ok_def MAX_ALARM_def)
  then show ?thesis using unsent_sent [OF assms(3) ne] st'(1) by simp
qed

theorem RunState_restart_witness:
  "\<exists>buf st'. ActiveSendAlarm full_ring = (Some buf, st') \<and> RunStateInit (al_fs st') = al_run st'"
proof -
  obtain buf st' where a: "ActiveSendAlarm full_ring = (Some buf, st')"
    by (simp add: ActiveSendAlarm_def full_ring_def snd_index_def MAX_ALARM_def Let_def)
  have "can_write (al_fs full_ring) RUNSTATE_FILE" "length (rs_softver (al_run full_ring)) = 8" "ring_ok (al_run full_ring)"
    by (simp_all add: full_ring_def ring_ok_def MAX_ALARM_def zero_runstate_def runstate_of_def)
  from RunState_restart [OF this a] a show ?thesis by blast
qed

text \<open>An update in 2017 copies the event to its place in the ring and saves the first 256 entries of the ring,
  whatever the current index is, in the file of the block of the index: a restart finds in that block the entries 0 to 255.\<close>

theorem UpdateAlarm_restart:
  assumes "UpdateAlarm clock now p st = Inr st'" "c_year clock = 17" "length (al_cache st) = MAX_ALARM" "p < MAX_ALARM"
    "list_all time_ok (al_cache st)" "int_ok now" "can_write (al_fs st) (AlarmFileName (rs_cur (al_run st)))" "k = rs_cur (al_run st) div 256"
  shows "take 256 (drop (256 * k) (al_cache (AlarmInit r (al_fs st')))) = take 256 (al_cache st') \<and> \<not> al_locked st' \<and>
    al_cache st' = (al_cache st)[rs_cur (al_run st) := al_cache st ! p, p := (al_cache st ! p)\<lparr>al_endtime := now\<rparr>]"
proof -
  let ?cur = "rs_cur (al_run st)"
  define cache where "cache = (al_cache st)[?cur := al_cache st ! p, p := (al_cache st ! p)\<lparr>al_endtime := now\<rparr>]"
  have lt: "?cur < MAX_ALARM" and nl: "\<not> al_locked st" using assms(1,2) by (auto simp: UpdateAlarm_def Let_def split: if_splits)
  have upd: "(al_cache st)[?cur := al_cache st ! p] ! p = al_cache st ! p" using assms(3,4) lt by (cases "p = ?cur") simp_all
  have st': "st' = (save_block 0 (st\<lparr>al_locked := True, al_cache := cache\<rparr>))\<lparr>al_locked := False\<rparr>"
    using assms(1,2) lt nl upd by (simp add: UpdateAlarm_def Let_def cache_def split: if_splits)
  have lc: "length cache = 1024" using assms(3) by (simp add: cache_def MAX_ALARM_def)
  have "time_ok (al_cache st ! p)" using assms(3-5) by (simp add: list_all_length)
  then have "time_ok ((al_cache st ! p)\<lparr>al_endtime := now\<rparr>)" using assms(6) by (simp add: time_ok_def)
  with \<open>time_ok (al_cache st ! p)\<close> have tm: "list_all time_ok cache"
    using assms(5) by (auto simp: cache_def list_all_iff dest!: set_update_subset_insert [THEN subsetD])
  have "list_all time_ok (take 256 cache)" using tm by (simp add: list_all_length)
  then have blk: "AlarmInit_block (al_fs st') ?cur = take 256 cache"
    using AlarmInit_block_saved [of "al_fs st" ?cur "take 256 cache"] assms(7) lc
    by (simp add: st' save_block_def ALMNUM_PERFILE_def)
  have fn: "AlarmInit_block s (256 * (?cur div 256)) = AlarmInit_block s ?cur" for s
    by (simp add: AlarmInit_block_def AlarmFileName_def ALMNUM_PERFILE_def)
  have "k < 4" using lt assms(8) by (simp add: MAX_ALARM_def div_less_iff_less_mult)
  then show ?thesis
    using AlarmInit_blocks [of k r "al_fs st'"] blk fn assms(8) by (simp add: st' save_block_def cache_def)
qed

theorem UpdateAlarm_restart_witness:
  "\<exists>st'. UpdateAlarm (example_clock 1 2 3) 7 0 (full_ring\<lparr>al_run := (al_run full_ring)\<lparr>rs_cur := 300\<rparr>\<rparr>) = Inr st' \<and>
     al_endtime (al_cache (AlarmInit zero_runstate (al_fs st')) ! 256) = 7 \<and> al_endtime (al_cache st' ! 256) = 0"
proof -
  let ?st = "full_ring\<lparr>al_run := (al_run full_ring)\<lparr>rs_cur := 300\<rparr>\<rparr>"
  obtain st' where st': "UpdateAlarm (example_clock 1 2 3) 7 0 ?st = Inr st'"
    by (simp add: UpdateAlarm_def full_ring_def example_clock_def MAX_ALARM_def Let_def)
  have p: "c_year (example_clock 1 2 3) = 17" "length (al_cache ?st) = MAX_ALARM" "0 < MAX_ALARM" "list_all time_ok (al_cache ?st)" "int_ok 7"
    "can_write (al_fs ?st) (AlarmFileName (rs_cur (al_run ?st)))" "1 = rs_cur (al_run ?st) div 256"
    by (simp_all add: full_ring_def MAX_ALARM_def example_clock_def time_ok_def int_ok_def list_all_length)
  have r: "take 256 (drop 256 (al_cache (AlarmInit zero_runstate (al_fs st')))) = take 256 (al_cache st')"
    "al_cache st' = (al_cache ?st)[300 := al_cache ?st ! 0, 0 := (al_cache ?st ! 0)\<lparr>al_endtime := 7\<rparr>]"
    using UpdateAlarm_restart [OF st' p, of zero_runstate] by simp_all
  have "length (al_cache (AlarmInit zero_runstate (al_fs st'))) = 1024" by (simp add: AlarmInit_def)
  then have "al_cache (AlarmInit zero_runstate (al_fs st')) ! 256 = take 256 (drop 256 (al_cache (AlarmInit zero_runstate (al_fs st')))) ! 0"
    by simp
  then show ?thesis using st' unfolding r by (auto simp: r(2) full_ring_def)
qed

text \<open>Outside the year 2017 an update changes nothing and returns with the lock held, so every later update or
  save of an event blocks.\<close>

theorem UpdateAlarm_blocks:
  assumes "c_year clock \<noteq> 17" "\<not> al_locked st"
  shows "\<exists>st'. UpdateAlarm clock now p st = Inr st' \<and> al_cache st' = al_cache st \<and> al_fs st' = al_fs st \<and>
    (\<forall>clock' now' q. UpdateAlarm clock' now' q st' = Inl Blocked \<and> SaveAlarm clock' now' q st' = Inl Blocked)"
  using assms by (simp add: UpdateAlarm_def SaveAlarm_def)

theorem UpdateAlarm_blocks_witness:
  "\<exists>st'. UpdateAlarm ((example_clock 1 2 3)\<lparr>c_year := 18\<rparr>) 7 0 full_ring = Inr st' \<and> UpdateAlarm (example_clock 1 2 3) 8 0 st' = Inl Blocked"
  using UpdateAlarm_blocks [of "(example_clock 1 2 3)\<lparr>c_year := 18\<rparr>" full_ring 7 0] by (auto simp: full_ring_def)

end
