(* ===== verification/Xin.thy ===== *)
theory Xin
  imports Storage
begin

text \<open>
  The text files of the parameters (\<open>sys/storage/xin.c\<close>): lines \<open>name=value\<close>, each ended by a
  NUL, behind a head with a magic number, the length and a checksum. The file is read and written
  through one static buffer, whose contents survive from one file to the next, under a lock that
  is held from \<open>XinOpen\<close> to \<open>XinClose\<close>. A pointer into the buffer is an offset, or the rest of
  the buffer from there on. Taking the lock while it is held is \<open>Inl XinBlocked\<close>, an access
  behind the buffer \<open>Inl XinOutOfBounds\<close>.
\<close>

datatype xin_stop = XinBlocked | XinOutOfBounds | XinOutOfFuel

definition XIN_MAGIC :: u32 where "XIN_MAGIC = 0xaf7c32d1"
definition XIN_MAXSIZE :: nat where "XIN_MAXSIZE = 0x7000"
definition XIN_MAXFILENAME :: nat where "XIN_MAXFILENAME = 128"

record xinref_t =
  xr_len :: nat
  xr_openflag :: char
  xr_buffer :: string
  xr_pscan :: nat
  xr_filename :: string
  xr_locked :: bool
  xr_fs :: fs

definition xin_head :: "string \<Rightarrow> bytes" where
  "xin_head text = le32 XIN_MAGIC @ le16 (of_nat (length text)) @ le16 (CalculateCRC (bytes_of text))"

text \<open>Reading a file into the buffer. The answer is whether it is valid, with the buffer and the length.\<close>

definition XinOpen_read :: "bytes \<Rightarrow> string \<Rightarrow> (bool \<times> string \<times> nat) option" where
  "XinOpen_read content buffer =
     (case fread1 8 content of
        None \<Rightarrow> Some (False, buffer, 0)
      | Some (hb, rest) \<Rightarrow>
          let len = unat (u16_of (hb ! 4) (hb ! 5)) in
          if u32_of (hb ! 0) (hb ! 1) (hb ! 2) (hb ! 3) \<noteq> XIN_MAGIC then Some (False, buffer, 0)
          else if len \<le> 0 \<or> XIN_MAXSIZE < len then Some (False, buffer, 0)
          else
            let got = string_of (take len rest) in
            (case put_at buffer 0 got of
               None \<Rightarrow> None
             | Some buffer \<Rightarrow>
                 if length got < len then Some (False, buffer, 0)
                 else if u16_of (hb ! 6) (hb ! 7) \<noteq> CalculateCRC (bytes_of (take len buffer)) then Some (False, buffer, 0)
                 else (case put_at buffer len [CHR 0x00, CHR 0x00] of
                         None \<Rightarrow> None
                       | Some buffer \<Rightarrow> Some (True, buffer, len))))"

text \<open>The answer is whether a reference was returned.\<close>

definition XinOpen :: "string \<Rightarrow> char \<Rightarrow> xinref_t \<Rightarrow> xin_stop + (bool \<times> xinref_t)" where
  "XinOpen filename flag x =
     (if XIN_MAXFILENAME \<le> length filename then Inr (False, x)
      else if xr_locked x then Inl XinBlocked
      else if flag = CHR ''r'' then
        (case files (xr_fs x) filename of
           None \<Rightarrow> Inr (False, x)
         | Some content \<Rightarrow>
             let x = x\<lparr>xr_pscan := 0, xr_openflag := flag, xr_filename := filename\<rparr> in
             (case XinOpen_read content (xr_buffer x) of
                None \<Rightarrow> Inl XinOutOfBounds
              | Some (False, buffer, _) \<Rightarrow> Inr (False, x\<lparr>xr_buffer := buffer\<rparr>)
              | Some (True, buffer, len) \<Rightarrow> Inr (True, x\<lparr>xr_buffer := buffer, xr_pscan := 0, xr_len := len, xr_locked := True\<rparr>)))
      else if flag \<noteq> CHR ''w'' then Inr (False, x)
      else Inr (True, x\<lparr>xr_openflag := flag, xr_filename := filename, xr_pscan := 0, xr_len := 0, xr_locked := True\<rparr>))"

definition XinClose :: "xinref_t \<Rightarrow> xinref_t" where
  "XinClose x =
     (if xr_openflag x = CHR ''r'' then x\<lparr>xr_locked := False\<rparr>
      else if xr_len x \<le> 0 \<or> XIN_MAXSIZE < xr_len x then x\<lparr>xr_locked := False\<rparr>
      else
        let text = take (xr_len x) (xr_buffer x);
            s = fs_remove (xr_filename x) (xr_fs x)
        in if \<not> can_write s (xr_filename x) then x\<lparr>xr_fs := s, xr_locked := False\<rparr>
           else x\<lparr>xr_fs := fs_write (xr_filename x) (xin_head text @ bytes_of text) s, xr_locked := False\<rparr>)"

subsection \<open>Finding a variable\<close>

definition cstrlen :: "string \<Rightarrow> nat option" where
  "cstrlen s = (if CHR 0x00 \<in> set s then Some (length (cstr s)) else None)"

text \<open>The comparison advances both pointers before it breaks off at a difference; it returns what
  is left behind them.\<close>

fun cmp_name :: "string \<Rightarrow> string \<Rightarrow> (string \<times> string) option" where
  "cmp_name pstr [] = Some (pstr, [])"
| "cmp_name [] (c # cs) = None"
| "cmp_name (d # ds) (c # cs) = (if d \<noteq> c then Some (ds, cs) else cmp_name ds cs)"

fun find_loop :: "nat \<Rightarrow> string \<Rightarrow> string \<Rightarrow> nat \<Rightarrow> bool \<Rightarrow> nat \<Rightarrow> xin_stop + (string option \<times> nat)" where
  "find_loop 0 buffer varname pbak brescan pscan = Inl XinOutOfFuel"
| "find_loop (Suc fuel) buffer varname pbak brescan pscan =
     (if brescan \<and> pbak \<le> pscan then Inr (None, pscan)
      else case drop pscan buffer of
        [] \<Rightarrow> Inl XinOutOfBounds
      | c # _ \<Rightarrow>
          let rescan = (\<not> brescan \<and> c = CHR 0x00);
              brescan = (brescan \<or> rescan);
              pscan = (if rescan then 0 else pscan)
          in (case cmp_name (drop pscan buffer) varname of
                None \<Rightarrow> Inl XinOutOfBounds
              | Some ([], _) \<Rightarrow> Inl XinOutOfBounds
              | Some (d # pvalue, pname) \<Rightarrow>
                  if pname \<noteq> [] \<or> d \<noteq> CHR ''='' then
                    if d = CHR 0x00 then find_loop fuel buffer varname pbak brescan (length buffer - length pvalue)
                    else (case cstrlen (drop pscan buffer) of
                            None \<Rightarrow> Inl XinOutOfBounds
                          | Some n \<Rightarrow> find_loop fuel buffer varname pbak brescan (pscan + n + 1))
                  else (case cstrlen (drop pscan buffer) of
                          None \<Rightarrow> Inl XinOutOfBounds
                        | Some n \<Rightarrow> Inr (Some (cstr pvalue), pscan + n + 1))))"

text \<open>Every round but one moves \<open>pscan\<close> forward, once through the buffer and once more after the
  restart, so twice the buffer is enough fuel.\<close>

definition FindVariable :: "xinref_t \<Rightarrow> string \<Rightarrow> xin_stop + (string option \<times> xinref_t)" where
  "FindVariable x varname =
     (case find_loop (2 * length (xr_buffer x) + 2) (xr_buffer x) varname (xr_pscan x) False (xr_pscan x) of
        Inl s \<Rightarrow> Inl s
      | Inr (r, pscan) \<Rightarrow> Inr (r, x\<lparr>xr_pscan := pscan\<rparr>))"

subsection \<open>Reading values\<close>

definition hex_val :: "char \<Rightarrow> nat option" where
  "hex_val c = (let n = of_char c :: nat in
     if 48 \<le> n \<and> n \<le> 57 then Some (n - 48)
     else if 65 \<le> n \<and> n \<le> 70 then Some (n - 65 + 10)
     else if 97 \<le> n \<and> n \<le> 102 then Some (n - 97 + 10)
     else None)"

fun hex_sum :: "u32 \<Rightarrow> string \<Rightarrow> u32" where
  "hex_sum acc [] = acc"
| "hex_sum acc (c # cs) = (case hex_val c of None \<Rightarrow> acc | Some num \<Rightarrow> hex_sum (push_bit 4 acc + of_nat num) cs)"

text \<open>\<open>atoi\<close> of the C library: white space, a sign, digits, the value limited to the range of \<open>int\<close>.\<close>

definition is_space :: "char \<Rightarrow> bool" where
  "is_space c \<longleftrightarrow> of_char c = (32 :: nat) \<or> 9 \<le> (of_char c :: nat) \<and> (of_char c :: nat) \<le> 13"

definition c_atoi :: "string \<Rightarrow> int" where
  "c_atoi str =
     (let s = dropWhile is_space str;
          neg = (s \<noteq> [] \<and> hd s = CHR ''-'');
          s = (if s \<noteq> [] \<and> (hd s = CHR ''-'' \<or> hd s = CHR ''+'') then tl s else s);
          n = int (read_dec (takeWhile is_digit s))
      in if neg then max (- 2147483648) (- n) else min 2147483647 n)"

definition XinStrToInt :: "string \<Rightarrow> int" where
  "XinStrToInt str =
     (if take 1 str = ''0'' \<and> (take 1 (drop 1 str) = ''x'' \<or> take 1 (drop 1 str) = ''X'')
      then sint (hex_sum 0 (drop 2 str)) else c_atoi str)"

definition XinReadInt :: "xinref_t \<Rightarrow> string \<Rightarrow> int \<Rightarrow> xin_stop + (int \<times> xinref_t)" where
  "XinReadInt x varname defvalue =
     (if xr_openflag x \<noteq> CHR ''r'' then Inr (defvalue, x)
      else case FindVariable x varname of
        Inl s \<Rightarrow> Inl s
      | Inr (None, x) \<Rightarrow> Inr (defvalue, x)
      | Inr (Some pvalue, x) \<Rightarrow> Inr (XinStrToInt pvalue, x))"

definition XinReadString :: "xinref_t \<Rightarrow> string \<Rightarrow> int \<Rightarrow> xin_stop + (string option \<times> xinref_t)" where
  "XinReadString x varname len =
     (if xr_openflag x \<noteq> CHR ''r'' then Inr (None, x)
      else case FindVariable x varname of
        Inl s \<Rightarrow> Inl s
      | Inr (None, x) \<Rightarrow> Inr (None, x)
      | Inr (Some pvalue, x) \<Rightarrow> Inr (Some (take (nat (len - 1)) pvalue), x))"

text \<open>Pairs of digits become bytes; a single digit at the end is written to the buffer but not
  counted, and is left out here.\<close>

fun XinStrToHex :: "string \<Rightarrow> nat \<Rightarrow> bytes" where
  "XinStrToHex (a # b # str) len =
     (case (hex_val a, hex_val b) of
        (Some h, Some l) \<Rightarrow>
          (push_bit 4 (of_nat h) OR of_nat l) # (if len \<le> 1 then [] else XinStrToHex str (len - 1))
      | _ \<Rightarrow> [])"
| "XinStrToHex _ len = []"

definition XinReadHex :: "xinref_t \<Rightarrow> string \<Rightarrow> nat \<Rightarrow> xin_stop + (bytes option \<times> xinref_t)" where
  "XinReadHex x varname len =
     (if xr_openflag x \<noteq> CHR ''r'' then Inr (None, x)
      else case FindVariable x varname of
        Inl s \<Rightarrow> Inl s
      | Inr (None, x) \<Rightarrow> Inr (None, x)
      | Inr (Some pvalue, x) \<Rightarrow> Inr (Some (XinStrToHex pvalue len), x))"

subsection \<open>Writing values\<close>

definition hex_digit :: "nat \<Rightarrow> char" where
  "hex_digit n = char_of (if n < 10 then 48 + n else 55 + n)"

fun hex_nat :: "nat \<Rightarrow> string" where
  "hex_nat n = (if n < 16 then [hex_digit n] else hex_nat (n div 16) @ [hex_digit (n mod 16)])"

declare hex_nat.simps [simp del]

definition hex2 :: "u8 \<Rightarrow> string" where
  "hex2 b = [hex_digit (unat b div 16), hex_digit (unat b mod 16)]"

text \<open>\<open>sprintf\<close> to the scan pointer, then \<open>ADD_POINTER\<close>.\<close>

definition xin_append :: "xinref_t \<Rightarrow> string \<Rightarrow> xin_stop + (int \<times> xinref_t)" where
  "xin_append x text =
     (case put_at (xr_buffer x) (xr_pscan x) (text @ [CHR 0x00]) of
        None \<Rightarrow> Inl XinOutOfBounds
      | Some buffer \<Rightarrow>
          let x = x\<lparr>xr_buffer := buffer\<rparr>; add_len = length text in
          if xr_len x + add_len \<ge> XIN_MAXSIZE then Inr (1, x)
          else Inr (0, x\<lparr>xr_len := xr_len x + add_len + 1, xr_pscan := xr_pscan x + add_len + 1\<rparr>))"

definition XinWriteInt :: "xinref_t \<Rightarrow> string \<Rightarrow> int \<Rightarrow> bool \<Rightarrow> xin_stop + (int \<times> xinref_t)" where
  "XinWriteInt x varname value hex =
     (if xr_openflag x \<noteq> CHR ''w'' then Inr (1, x)
      else xin_append x (cstr varname @ (if hex then ''=0x'' @ hex_nat (unat (word_of_int value :: u32)) else ''='' @ dec_int value)))"

definition XinWriteString :: "xinref_t \<Rightarrow> string \<Rightarrow> string \<Rightarrow> xin_stop + (int \<times> xinref_t)" where
  "XinWriteString x varname str =
     (if xr_openflag x \<noteq> CHR ''w'' then Inr (1, x)
      else xin_append x (cstr varname @ ''='' @ cstr str))"

fun write_hex_loop :: "string \<Rightarrow> nat \<Rightarrow> nat \<Rightarrow> bytes \<Rightarrow> xin_stop + (string \<times> (nat \<times> nat) option)" where
  "write_hex_loop buffer pscan scanlen [] = Inr (buffer, Some (pscan, scanlen))"
| "write_hex_loop buffer pscan scanlen (b # bs) =
     (case put_at buffer pscan (hex2 b @ [CHR 0x00]) of
        None \<Rightarrow> Inl XinOutOfBounds
      | Some buffer \<Rightarrow>
          if scanlen + 2 \<ge> XIN_MAXSIZE then Inr (buffer, None)
          else write_hex_loop buffer (pscan + 2) (scanlen + 2) bs)"

definition XinWriteHex :: "xinref_t \<Rightarrow> string \<Rightarrow> bytes \<Rightarrow> xin_stop + (int \<times> xinref_t)" where
  "XinWriteHex x varname bs =
     (if xr_openflag x \<noteq> CHR ''w'' then Inr (1, x)
      else
        let text = cstr varname @ ''='' in
        (case put_at (xr_buffer x) (xr_pscan x) (text @ [CHR 0x00]) of
           None \<Rightarrow> Inl XinOutOfBounds
         | Some buffer \<Rightarrow>
             if xr_len x + length text \<ge> XIN_MAXSIZE then Inr (1, x\<lparr>xr_buffer := buffer\<rparr>)
             else
               (case write_hex_loop buffer (xr_pscan x + length text) (xr_len x + length text) bs of
                  Inl s \<Rightarrow> Inl s
                | Inr (buffer, None) \<Rightarrow> Inr (1, x\<lparr>xr_buffer := buffer\<rparr>)
                | Inr (buffer, Some (pscan, scanlen)) \<Rightarrow>
                    Inr (0, x\<lparr>xr_buffer := buffer, xr_pscan := pscan + 1, xr_len := scanlen + 1\<rparr>))))"

subsection \<open>Specification\<close>

text \<open>The lines of a file, and when two names are not told apart.\<close>

definition xin_line :: "string \<times> string \<Rightarrow> string" where
  "xin_line l = fst l @ CHR ''='' # snd l @ [CHR 0x00]"

definition xin_text :: "(string \<times> string) list \<Rightarrow> string" where
  "xin_text ls = concat (map xin_line ls)"

definition line_pos :: "(string \<times> string) list \<Rightarrow> nat \<Rightarrow> nat" where
  "line_pos ls i = length (xin_text (take i ls))"

definition name_ok :: "string \<Rightarrow> bool" where
  "name_ok n \<longleftrightarrow> n \<noteq> [] \<and> no_nul n \<and> CHR ''='' \<notin> set n"

definition line_ok :: "string \<times> string \<Rightarrow> bool" where
  "line_ok l \<longleftrightarrow> name_ok (fst l) \<and> no_nul (snd l) \<and> take 1 (snd l) \<noteq> ''=''"

definition same_name :: "string \<Rightarrow> string \<Rightarrow> bool" where
  "same_name a b \<longleftrightarrow> length a = length b \<and> butlast a = butlast b"

definition is_line :: "string \<Rightarrow> string \<times> string \<Rightarrow> bool" where
  "is_line m l \<longleftrightarrow> same_name (fst l) m"

text \<open>The index of the first line with a name, cyclically from line \<open>i\<close> on.\<close>

definition seek :: "(string \<times> string) list \<Rightarrow> nat \<Rightarrow> string \<Rightarrow> nat option" where
  "seek ls i m = find (\<lambda>j. is_line m (ls ! j)) ([i..<length ls] @ [0..<i])"

text \<open>The values of a file, as they are written and as they are read.\<close>

datatype xin_value = XStr string | XInt int bool | XHex bytes

definition value_text :: "xin_value \<Rightarrow> string" where
  "value_text v = (case v of XStr s \<Rightarrow> s
     | XInt i hex \<Rightarrow> (if hex then ''0x'' @ hex_nat (unat (word_of_int i :: u32)) else dec_int i)
     | XHex bs \<Rightarrow> concat (map hex2 bs))"

definition value_ok :: "xin_value \<Rightarrow> bool" where
  "value_ok v \<longleftrightarrow> (case v of XStr s \<Rightarrow> no_nul s \<and> take 1 s \<noteq> ''='' | XInt i _ \<Rightarrow> - 2147483648 \<le> i \<and> i < 2147483648 | XHex bs \<Rightarrow> True)"

text \<open>Writing, and reading back in the same order.\<close>

fun write_value :: "string \<times> xin_value \<Rightarrow> xinref_t \<Rightarrow> xin_stop + (int \<times> xinref_t)" where
  "write_value (n, XStr s) x = XinWriteString x n s"
| "write_value (n, XInt i hex) x = XinWriteInt x n i hex"
| "write_value (n, XHex bs) x = XinWriteHex x n bs"

fun write_values :: "(string \<times> xin_value) list \<Rightarrow> xinref_t \<Rightarrow> xin_stop + (int \<times> xinref_t)" where
  "write_values [] x = Inr (0, x)"
| "write_values (l # ls) x = (case write_value l x of
     Inl s \<Rightarrow> Inl s
   | Inr (r, x) \<Rightarrow> if r \<noteq> 0 then Inr (r, x) else write_values ls x)"

fun read_value :: "string \<times> xin_value \<Rightarrow> xinref_t \<Rightarrow> xin_stop + (xin_value option \<times> xinref_t)" where
  "read_value (n, XStr s) x = map_sum id (map_prod (map_option XStr) id) (XinReadString x n (int (length s) + 1))"
| "read_value (n, XInt i hex) x = map_sum id (map_prod (\<lambda>i. Some (XInt i hex)) id) (XinReadInt x n 0)"
| "read_value (n, XHex bs) x = map_sum id (map_prod (map_option XHex) id) (XinReadHex x n (length bs))"

fun read_values :: "(string \<times> xin_value) list \<Rightarrow> xinref_t \<Rightarrow> xin_stop + (xin_value option list \<times> xinref_t)" where
  "read_values [] x = Inr ([], x)"
| "read_values (l # ls) x = (case read_value l x of
     Inl s \<Rightarrow> Inl s
   | Inr (v, x) \<Rightarrow> map_sum id (map_prod ((#) v) id) (read_values ls x))"

definition text_line :: "string \<times> xin_value \<Rightarrow> string \<times> string" where
  "text_line l = (fst l, value_text (snd l))"

definition wrote :: "(string \<times> string) list \<Rightarrow> xinref_t \<Rightarrow> bool" where
  "wrote ls x \<longleftrightarrow> xr_openflag x = CHR ''w'' \<and> xr_pscan x = xr_len x \<and> xr_len x \<le> XIN_MAXSIZE \<and>
     length (xr_buffer x) = XIN_MAXSIZE + 128 \<and> take (xr_len x) (xr_buffer x) = xin_text ls"

definition opened :: "(string \<times> xin_value) list \<Rightarrow> xinref_t \<Rightarrow> bool" where
  "opened ls x \<longleftrightarrow> xr_openflag x = CHR ''r'' \<and> (\<exists>rest. xr_buffer x = xin_text (map text_line ls) @ CHR 0x00 # rest) \<and>
     (\<exists>i \<le> length ls. xr_pscan x = line_pos (map text_line ls) i)"

definition distinct_names :: "(string \<times> xin_value) list \<Rightarrow> bool" where
  "distinct_names ls \<longleftrightarrow> (\<forall>a \<in> set ls. \<forall>b \<in> set ls. same_name (fst a) (fst b) \<longrightarrow> a = b)"

definition xin_idle :: xinref_t where
  "xin_idle = \<lparr>xr_len = 0, xr_openflag = CHR 0x00, xr_buffer = replicate (XIN_MAXSIZE + 128) CHR 0x00, xr_pscan = 0, xr_filename = [],
     xr_locked = False, xr_fs = \<lparr>files = \<lambda>_. None, can_write = \<lambda>_. True\<rparr>\<rparr>"

text \<open>Two lines, of which the wrong one is found.\<close>

definition two_lines :: "(string \<times> string) list" where
  "two_lines = [(''svraddrIp1'', ''a''), (''svraddrIp2'', ''b'')]"

subsection \<open>Lemmas\<close>

lemma cmp_name_match:
  "same_name n m \<Longrightarrow> cmp_name (n @ rest) m = Some (rest, [])"
proof (induction m arbitrary: n)
  case (Cons c m)
  then obtain d ds where n: "n = d # ds" by (cases n) (auto simp: same_name_def)
  show ?case
  proof (cases "m = []")
    case True
    then show ?thesis using Cons.prems n by (auto simp: same_name_def)
  next
    case False
    then have "ds \<noteq> []" using Cons.prems n by (auto simp: same_name_def)
    then show ?thesis using Cons n False by (auto simp: same_name_def)
  qed
qed (simp add: same_name_def)

text \<open>A name that differs before its last character leaves a part of the name behind, or the
  value when it is longer than the name of the line.\<close>

lemma cmp_name_differs:
  assumes "m \<noteq> []" "no_nul n" "CHR ''='' \<notin> set n" "CHR ''='' \<notin> set m" "\<not> same_name n m" "take 1 v \<noteq> ''=''" "no_nul v"
  shows "\<exists>d p q. cmp_name (n @ CHR ''='' # v @ CHR 0x00 # rest) m = Some (d # p, q) \<and> (q \<noteq> [] \<or> d \<noteq> CHR ''='') \<and>
    (d = CHR 0x00 \<longrightarrow> v = [] \<and> p = rest)"
  using assms
proof (induction m arbitrary: n)
  case (Cons c m)
  show ?case
  proof (cases n)
    case Nil
    then show ?thesis using Cons.prems by (cases v) (auto simp: no_nul_def)
  next
    case (Cons d ds)
    note n = this
    show ?thesis
    proof (cases "m = []")
      case True
      then have "ds \<noteq> []" using Cons.prems n by (auto simp: same_name_def)
      then show ?thesis using Cons.prems n True by (cases ds) (auto simp: no_nul_def)
    next
      case False
      show ?thesis
      proof (cases "d = c")
        case True
        then have "\<not> same_name ds m" using Cons.prems(5) n False by (cases "ds = []") (auto simp: same_name_def)
        then show ?thesis using Cons.IH[of ds] Cons.prems n False True by (auto simp: no_nul_def)
      next
        case mism: False
        show ?thesis using Cons.prems n False mism by (cases ds) (auto simp: no_nul_def)
      qed
    qed
  qed
qed simp

lemma line_pos_0 [simp]: "line_pos ls 0 = 0"
  by (simp add: line_pos_def xin_text_def)

lemma line_pos_Suc: "i < length ls \<Longrightarrow> line_pos ls (Suc i) = line_pos ls i + length (fst (ls ! i)) + length (snd (ls ! i)) + 2"
  by (simp add: line_pos_def xin_text_def take_Suc_conv_app_nth xin_line_def)

lemma line_pos_length: "line_pos ls (length ls) = length (xin_text ls)"
  by (simp add: line_pos_def)

lemma xin_text_split: "xin_text ls = xin_text (take i ls) @ xin_text (drop i ls)"
  by (simp add: xin_text_def flip: concat_append map_append)

lemma drop_line_pos: "i \<le> length ls \<Longrightarrow> drop (line_pos ls i) (xin_text ls @ t) = xin_text (drop i ls) @ t"
  by (subst xin_text_split[of ls i]) (simp add: line_pos_def)

lemma drop_line: "i < length ls \<Longrightarrow> drop (line_pos ls i) (xin_text ls @ t) =
    fst (ls ! i) @ CHR ''='' # snd (ls ! i) @ CHR 0x00 # drop (line_pos ls (Suc i)) (xin_text ls @ t)"
  unfolding drop_line_pos[OF less_imp_le] drop_line_pos[OF Suc_leI]
  by (simp add: xin_text_def xin_line_def flip: Cons_nth_drop_Suc)

lemma line_pos_less: "i < j \<Longrightarrow> j \<le> length ls \<Longrightarrow> line_pos ls i < line_pos ls j"
proof (induction j)
  case (Suc j)
  then show ?case using line_pos_Suc[of j ls] by (cases "i = j") auto
qed simp

lemma line_pos_le_iff: "i \<le> length ls \<Longrightarrow> j \<le> length ls \<Longrightarrow> line_pos ls i \<le> line_pos ls j \<longleftrightarrow> i \<le> j"
  by (metis leI le_less line_pos_less not_less)

lemma line_pos_ge: "i \<le> length ls \<Longrightarrow> i \<le> line_pos ls i"
  by (induction i) (auto simp: line_pos_Suc)

lemma find_line:
  assumes b: "b = xin_text ls @ CHR 0x00 # rest" and i: "i < length ls" and l: "line_ok (ls ! i)" and m: "name_ok m"
    and start: "\<not> (br \<and> pbak \<le> p0) \<and> p0 = line_pos ls i \<and> br' = br \<or> \<not> br \<and> p0 = length (xin_text ls) \<and> i = 0 \<and> br'"
  shows "find_loop (Suc fuel) b m pbak br p0 =
    (if same_name (fst (ls ! i)) m then Inr (Some (snd (ls ! i)), line_pos ls (Suc i))
     else find_loop fuel b m pbak br' (line_pos ls (Suc i)))"
proof -
  obtain n v where nv: "ls ! i = (n, v)" by fastforce
  define r where "r = drop (line_pos ls (Suc i)) b"
  define c0 where "c0 = hd (drop p0 b)"
  have d: "drop (line_pos ls i) b = n @ CHR ''='' # v @ CHR 0x00 # r" using drop_line[OF i, of "CHR 0x00 # rest"] nv b r_def by simp
  have ok: "n \<noteq> []" "no_nul n" "CHR ''='' \<notin> set n" "no_nul v" "take 1 v \<noteq> ''=''" "m \<noteq> []" "CHR ''='' \<notin> set m"
    using l m nv by (auto simp: line_ok_def name_ok_def)
  have pos: "line_pos ls (Suc i) = line_pos ls i + (length n + length v + 1) + 1" using line_pos_Suc[OF i] nv by simp
  have len: "cstrlen (drop (line_pos ls i) b) = Some (length n + length v + 1)"
  proof -
    have "no_nul (n @ CHR ''='' # v)" using ok by (simp add: no_nul_def)
    from cstr_append_nul[OF this, of r] show ?thesis by (simp add: cstrlen_def d)
  qed
  have "hd n \<noteq> CHR 0x00" using ok by (cases n) (auto simp: no_nul_def)
  then have c0: "drop p0 b \<noteq> []" "\<not> (br \<and> pbak \<le> p0)" "(if \<not> br \<and> c0 = CHR 0x00 then 0 else p0) = line_pos ls i"
      "(br \<or> \<not> br \<and> c0 = CHR 0x00) = br'"
    using start d ok unfolding c0_def by (auto simp: b)
  then obtain cs where cs: "drop p0 b = c0 # cs" unfolding c0_def by (cases "drop p0 b") auto
  have step: "find_loop (Suc fuel) b m pbak br p0 =
    (case cmp_name (drop (line_pos ls i) b) m of
       None \<Rightarrow> Inl XinOutOfBounds
     | Some ([], _) \<Rightarrow> Inl XinOutOfBounds
     | Some (d # pvalue, pname) \<Rightarrow>
         if pname \<noteq> [] \<or> d \<noteq> CHR ''='' then
           if d = CHR 0x00 then find_loop fuel b m pbak br' (length b - length pvalue)
           else find_loop fuel b m pbak br' (line_pos ls (Suc i))
         else Inr (Some (cstr pvalue), line_pos ls (Suc i)))"
    unfolding find_loop.simps Let_def cs list.case c0(3,4) len option.case pos[symmetric] using c0(2) by (simp only: if_False simp_thms)
  show ?thesis
  proof (cases "same_name n m")
    case True
    then have "cmp_name (drop (line_pos ls i) b) m = Some (CHR ''='' # v @ CHR 0x00 # r, [])" unfolding d by (rule cmp_name_match)
    then show ?thesis unfolding step using True nv ok by simp
  next
    case False
    obtain e p q where cmp: "cmp_name (drop (line_pos ls i) b) m = Some (e # p, q)" "q \<noteq> [] \<or> e \<noteq> CHR ''=''"
        "e = CHR 0x00 \<longrightarrow> v = [] \<and> p = r"
      using cmp_name_differs[OF ok(6,2,3,7) False ok(5,4), of r] unfolding d by blast
    have "line_pos ls (Suc i) \<le> length b" using line_pos_le_iff[of "Suc i" ls "length ls"] i b by (simp add: line_pos_length)
    then have "length b - length r = line_pos ls (Suc i)" by (simp add: r_def)
    then show ?thesis unfolding step using False nv cmp by auto
  qed
qed

declare find_loop.simps(2) [simp del]

lemma seek_rescan:
  assumes b: "b = xin_text ls @ CHR 0x00 # rest" and l: "\<forall>l \<in> set ls. line_ok l" and m: "name_ok m"
    and "i \<le> length ls" "j \<le> length ls" "i - j < fuel"
  shows "find_loop fuel b m (line_pos ls i) True (line_pos ls j) =
    (case find (\<lambda>k. is_line m (ls ! k)) [j..<i] of
       Some k \<Rightarrow> Inr (Some (snd (ls ! k)), line_pos ls (Suc k)) | None \<Rightarrow> Inr (None, line_pos ls (max i j)))"
  using assms(4-6)
proof (induction "i - j" arbitrary: j fuel)
  case 0
  then obtain f where "fuel = Suc f" by (cases fuel) auto
  then show ?case using 0 by (auto simp: line_pos_le_iff max_def find_loop.simps(2))
next
  case (Suc d)
  then obtain f where f: "fuel = Suc f" by (cases fuel) auto
  have j: "j < i" "j < length ls" using Suc by auto
  note step = find_line[OF b j(2) _ m, of True "line_pos ls i" "line_pos ls j" True f]
  have "find_loop f b m (line_pos ls i) True (line_pos ls (Suc j)) =
    (case find (\<lambda>k. is_line m (ls ! k)) [Suc j..<i] of
       Some k \<Rightarrow> Inr (Some (snd (ls ! k)), line_pos ls (Suc k)) | None \<Rightarrow> Inr (None, line_pos ls (max i (Suc j))))"
    by (rule Suc.hyps(1)) (use Suc.hyps(2) Suc.prems f j in auto)
  moreover have "max i (Suc j) = i" "max i j = i" using j by auto
  ultimately show ?case
    using step[folded is_line_def] f j l Suc.prems by (simp add: line_pos_le_iff upt_conv_Cons split: option.split)
qed

lemma seek_first:
  assumes b: "b = xin_text ls @ CHR 0x00 # rest" and l: "\<forall>l \<in> set ls. line_ok l" and m: "name_ok m" and ls: "ls \<noteq> []"
    and "i \<le> j" "j \<le> length ls" "length ls - j + i + 2 \<le> fuel" "\<forall>k. i \<le> k \<and> k < j \<longrightarrow> \<not> is_line m (ls ! k)"
  shows "find_loop fuel b m (line_pos ls i) False (line_pos ls j) =
    (case find (\<lambda>k. is_line m (ls ! k)) ([j..<length ls] @ [0..<i]) of
       Some k \<Rightarrow> Inr (Some (snd (ls ! k)), line_pos ls (Suc k)) | None \<Rightarrow> Inr (None, line_pos ls (max i 1)))"
  using assms(5-)
proof (induction "length ls - j" arbitrary: j fuel)
  case 0
  then obtain f where f: "fuel = Suc f" by (cases fuel) auto
  have j: "j = length ls" using 0 by simp
  have 1: "0 < length ls" using ls by simp
  note step = find_line[OF b 1 _ m, of False "line_pos ls i" "line_pos ls j" True f, folded is_line_def]
  have tl: "find_loop f b m (line_pos ls i) True (line_pos ls (Suc 0)) =
    (case find (\<lambda>k. is_line m (ls ! k)) [Suc 0..<i] of
       Some k \<Rightarrow> Inr (Some (snd (ls ! k)), line_pos ls (Suc k)) | None \<Rightarrow> Inr (None, line_pos ls (max i (Suc 0))))"
    by (rule seek_rescan[OF b l m]) (use 0 Suc_leI[OF 1] f j in simp_all)
  show ?case
  proof (cases "i = 0")
    case True
    then have "\<not> is_line m (ls ! 0)" using 0 1 j by simp
    then show ?thesis using step tl True j f ls l by (simp add: line_pos_length split: option.split)
  next
    case False
    then have "[0..<i] = 0 # [Suc 0..<i]" by (simp add: upt_conv_Cons)
    then show ?thesis using step tl j f ls l by (simp add: line_pos_length split: option.split)
  qed
next
  case (Suc d)
  then obtain f where f: "fuel = Suc f" by (cases fuel) auto
  have j: "j < length ls" using Suc by auto
  note step = find_line[OF b j _ m, of False "line_pos ls i" "line_pos ls j" False f, folded is_line_def]
  have "find_loop f b m (line_pos ls i) False (line_pos ls (Suc j)) =
    (case find (\<lambda>k. is_line m (ls ! k)) ([Suc j..<length ls] @ [0..<i]) of
       Some k \<Rightarrow> Inr (Some (snd (ls ! k)), line_pos ls (Suc k)) | None \<Rightarrow> Inr (None, line_pos ls (max i 1)))" if "\<not> is_line m (ls ! j)"
    by (rule Suc.hyps(1)) (use Suc.hyps(2) Suc.prems f j that less_Suc_eq in auto)
  then show ?case using step f j l by (simp add: upt_conv_Cons)
qed

lemma FindVariable_seek:
  assumes "xr_buffer x = xin_text ls @ CHR 0x00 # rest" "\<forall>l \<in> set ls. line_ok l" "ls \<noteq> []" "name_ok m"
    and "i \<le> length ls" "xr_pscan x = line_pos ls i"
  shows "FindVariable x m =
    (case seek ls i m of
       Some k \<Rightarrow> Inr (Some (snd (ls ! k)), x\<lparr>xr_pscan := line_pos ls (Suc k)\<rparr>)
     | None \<Rightarrow> Inr (None, x\<lparr>xr_pscan := line_pos ls (max i 1)\<rparr>))"
proof -
  have "length ls \<le> length (xr_buffer x)" using line_pos_ge[of "length ls" ls] assms(1) by (simp add: line_pos_length split: option.split)
  then have "length ls - i + i + 2 \<le> 2 * length (xr_buffer x) + 2" using assms(5) by simp
  moreover have "\<forall>k. i \<le> k \<and> k < i \<longrightarrow> \<not> is_line m (ls ! k)" by (blast dest: leD)
  ultimately show ?thesis unfolding FindVariable_def assms(6)
    using seek_first[OF assms(1,2,4,3) order_refl assms(5)]
    by (simp add: seek_def split: option.split)
qed

lemma find_map: "find P (map f xs) = map_option f (find (\<lambda>x. P (f x)) xs)"
  by (induction xs) auto

lemma map_nth_rotate: "i \<le> length ls \<Longrightarrow> map ((!) ls) ([i..<length ls] @ [0..<i]) = drop i ls @ take i ls"
  by (rule nth_equalityI) (auto simp: nth_append)

lemma find_seek: "i \<le> length ls \<Longrightarrow> find (is_line m) (drop i ls @ take i ls) = map_option ((!) ls) (seek ls i m)"
  unfolding seek_def find_map[symmetric] map_nth_rotate[symmetric] by (simp add: find_map)

lemma seek_less: "i \<le> length ls \<Longrightarrow> seek ls i m = Some k \<Longrightarrow> k < length ls \<and> is_line m (ls ! k)"
proof -
  assume i: "i \<le> length ls" and k: "seek ls i m = Some k"
  then have "k \<in> set ([i..<length ls] @ [0..<i]) \<and> is_line m (ls ! k)" unfolding seek_def find_Some_iff by (metis nth_mem)
  then show ?thesis using i by auto
qed

lemma FindVariable_finds:
  assumes "xr_buffer x = xin_text ls @ CHR 0x00 # rest" "\<forall>l \<in> set ls. line_ok l" "ls \<noteq> []" "name_ok m"
    and "i \<le> length ls" "xr_pscan x = line_pos ls i"
  shows "\<exists>k \<le> length ls. FindVariable x m =
    Inr (map_option snd (find (is_line m) (drop i ls @ take i ls)), x\<lparr>xr_pscan := line_pos ls k\<rparr>)"
proof (cases "seek ls i m")
  case None
  then show ?thesis using FindVariable_seek[OF assms] assms(3,5)
    by (intro exI[of _ "max i 1"]) (simp add: find_seek[OF assms(5)] Suc_le_eq)
next
  case (Some k)
  then show ?thesis using FindVariable_seek[OF assms] seek_less[OF assms(5) Some]
    by (intro exI[of _ "Suc k"]) (simp add: find_seek[OF assms(5)] Suc_le_eq)
qed

lemma hex_digit_val [simp]: "n < 16 \<Longrightarrow> hex_val (hex_digit n) = Some n"
  by (auto simp: hex_val_def hex_digit_def)

lemma hex_val_ok: "hex_val c = Some n \<Longrightarrow> c \<noteq> CHR 0x00 \<and> c \<noteq> CHR ''=''"
  by (auto simp: hex_val_def Let_def)

lemma hex_nat_digits: "list_all (\<lambda>c. hex_val c \<noteq> None) (hex_nat n)"
  by (induction n rule: hex_nat.induct) (subst hex_nat.simps, simp)

lemma hex_sum_append: "list_all (\<lambda>c. hex_val c \<noteq> None) s \<Longrightarrow> hex_sum acc (s @ t) = hex_sum (hex_sum acc s) t"
  by (induction s arbitrary: acc) auto

lemma hex_sum_hex_nat: "hex_sum 0 (hex_nat n) = of_nat n"
proof (induction n rule: hex_nat.induct)
  case (1 n)
  have "push_bit 4 (of_nat (n div 16)) + of_nat (n mod 16) = (of_nat (n div 16 * 16 + n mod 16) :: u32)"
    by (simp only: push_bit_eq_mult of_nat_add of_nat_mult) simp
  then have "push_bit 4 (of_nat (n div 16)) + of_nat (n mod 16) = (of_nat n :: u32)" by simp
  with 1 show ?case by (subst hex_nat.simps) (auto simp: hex_sum_append[OF hex_nat_digits])
qed

lemma dec_nat_chars: "c \<in> set (dec_nat n) \<Longrightarrow> c \<noteq> CHR 0x00 \<and> c \<noteq> CHR ''='' \<and> c \<noteq> CHR ''x'' \<and> c \<noteq> CHR ''X'' \<and> c \<noteq> CHR ''-'' \<and> c \<noteq> CHR ''+'' \<and> \<not> is_space c"
  using dec_nat_digits[of n] by (auto simp: list_all_iff is_digit_def is_space_def)

lemma c_atoi_dec: "- 2147483648 \<le> i \<Longrightarrow> i < 2147483648 \<Longrightarrow> c_atoi (dec_int i) = i"
proof -
  assume i: "- 2147483648 \<le> i" "i < 2147483648"
  have d: "takeWhile is_digit (dec_nat n) = dec_nat n" for n
    using dec_nat_digits[of n] by (simp add: list_all_iff)
  have s: "dropWhile is_space (dec_nat n) = dec_nat n" "hd (dec_nat n) \<noteq> CHR ''-''" "hd (dec_nat n) \<noteq> CHR ''+''" for n
    using dec_nat_chars[of "hd (dec_nat n)" n] dec_nat_nonempty[of n] by (cases "dec_nat n"; auto)+
  show ?thesis
    using i by (simp add: c_atoi_def dec_int_def Let_def d s dec_nat_nonempty read_dec_dec_nat is_space_def)
qed

lemma XinStrToInt_text: "value_ok (XInt i hex) \<Longrightarrow> XinStrToInt (value_text (XInt i hex)) = i"
proof (cases hex)
  case True
  assume "value_ok (XInt i hex)"
  then have "sint (word_of_int i :: u32) = i" by (simp add: value_ok_def signed_of_int signed_take_bit_int_eq_self)
  then show ?thesis using True by (simp add: value_text_def XinStrToInt_def hex_sum_hex_nat)
next
  case False
  assume ok: "value_ok (XInt i hex)"
  have c: "c \<noteq> CHR ''x'' \<and> c \<noteq> CHR ''X''" if "c \<in> set (dec_int i)" for c
    using that dec_nat_chars by (auto simp: dec_int_def split: if_splits)
  have "take 1 (drop 1 (dec_int i)) \<noteq> [c]" if "c = CHR ''x'' \<or> c = CHR ''X''" for c
    using that c by (metis in_set_dropD in_set_takeD list.set_intros(1))
  then show ?thesis using False ok by (simp add: value_text_def XinStrToInt_def c_atoi_dec value_ok_def)
qed

lemma of_nat_unat_id: "of_nat (unat w) = (w :: 'a :: len word)"
  by simp

lemma XinStrToHex_text: "XinStrToHex (concat (map hex2 bs)) (length bs) = bs"
proof (induction bs)
  case (Cons b bs)
  have 1: "unat b div 16 < 16" using unsigned_less[of b] by (simp add: less_mult_imp_div_less)
  have 2: "push_bit 4 (of_nat (unat b div 16)) OR of_nat (unat b mod 16) = b"
  proof -
    have "unat (drop_bit 4 b) = unat b div 16" by (simp only: unat_drop_bit_eq) (simp add: drop_bit_eq_div)
    then have "of_nat (unat b div 16) = drop_bit 4 b" by (metis of_nat_unat_id)
    moreover have "of_nat (unat b mod 16) = take_bit 4 b" using unat_low_nibble[of b] unfolding u8_low_nibble by (metis of_nat_unat_id)
    ultimately show ?thesis by (simp add: bit_eq_iff bit_or_iff bit_push_bit_iff bit_drop_bit_eq bit_take_bit_iff) (auto intro: bit_imp_le_length)
  qed
  show ?case using Cons 1 2 by (cases bs) (simp_all add: hex2_def)
qed simp

lemma value_text_ok: "value_ok v \<Longrightarrow> no_nul (value_text v) \<and> take 1 (value_text v) \<noteq> ''=''"
proof (cases v)
  case (XInt i hex)
  have h: "c \<in> set (hex_nat n) \<Longrightarrow> c \<noteq> CHR 0x00 \<and> c \<noteq> CHR ''=''" for c n
    using hex_nat_digits[of n] hex_val_ok by (auto simp: list_all_iff)
  have d: "no_nul (dec_nat n)" "take 1 (dec_nat n) \<noteq> ''=''" for n
    using dec_nat_chars[of _ n] unfolding no_nul_def by (blast, cases "dec_nat n") auto
  show ?thesis using XInt d h by (auto simp: value_text_def no_nul_def dec_int_def)
next
  case (XHex bs)
  have h: "c \<in> set (hex2 b) \<Longrightarrow> c \<noteq> CHR 0x00 \<and> c \<noteq> CHR ''=''" for c b
  proof -
    have "unat b div 16 < 16" using unsigned_less[of b] by (simp add: less_mult_imp_div_less)
    then have "hex_val (hex_digit (unat b div 16)) \<noteq> None" "hex_val (hex_digit (unat b mod 16)) \<noteq> None" by simp_all
    then show "c \<in> set (hex2 b) \<Longrightarrow> c \<noteq> CHR 0x00 \<and> c \<noteq> CHR ''=''" using hex_val_ok by (auto simp: hex2_def)
  qed
  moreover have "c \<in> set (take 1 xs) \<Longrightarrow> c \<in> set xs" for c and xs :: string by (rule in_set_takeD)
  ultimately have "CHR ''='' \<notin> set (take 1 (concat (map hex2 bs)))" "CHR 0x00 \<notin> set (concat (map hex2 bs))" by fastforce+
  then show ?thesis using XHex by (auto simp: value_text_def no_nul_def)
qed (simp add: value_text_def value_ok_def)

lemma xin_text_append: "xin_text (ls @ ms) = xin_text ls @ xin_text ms"
  by (simp add: xin_text_def)

lemma xin_text_snoc: "xin_text (ls @ [(n, v)]) = xin_text ls @ n @ CHR ''='' # v @ [CHR 0x00]"
  by (simp add: xin_text_append) (simp add: xin_text_def xin_line_def)

lemma wrote_length: "wrote ls x \<Longrightarrow> length (xin_text ls) = xr_len x"
  unfolding wrote_def by (metis le_add1 length_take min.absorb2 order_trans)

lemma xin_append_wrote:
  assumes "wrote ls x" "xin_append x (n @ CHR ''='' # v) = Inr (0, x')"
  shows "wrote (ls @ [(n, v)]) x' \<and> xr_fs x' = xr_fs x \<and> xr_filename x' = xr_filename x"
  using assms wrote_length[OF assms(1)]
  by (auto simp: wrote_def xin_append_def put_at_def Let_def xin_text_snoc split: option.splits if_splits)

lemma length_concat_hex2: "length (concat (map hex2 bs)) = 2 * length bs"
  by (induction bs) (simp_all add: hex2_def)

lemma write_hex_loop_wrote:
  assumes "write_hex_loop b p s bs = Inr (b', Some (p', s'))" "p < length b" "take (Suc p) b = t @ [CHR 0x00]" "s < XIN_MAXSIZE"
  shows "p' = p + 2 * length bs \<and> s' = s + 2 * length bs \<and> s' < XIN_MAXSIZE \<and> length b' = length b \<and>
    take (Suc p') b' = t @ concat (map hex2 bs) @ [CHR 0x00]"
  using assms
proof (induction bs arbitrary: b p s t)
  case (Cons h bs)
  then obtain c where c: "put_at b p (hex2 h @ [CHR 0x00]) = Some c" "s + 2 < XIN_MAXSIZE"
      "write_hex_loop c (p + 2) (s + 2) bs = Inr (b', Some (p', s'))"
    by (auto split: option.splits if_splits)
  have t: "take p b = t" using Cons.prems(2,3) by (simp add: take_Suc_conv_app_nth)
  then have "length t = p" using Cons.prems(2) by auto
  note t = t this
  have "p + 2 < length c \<and> length c = length b \<and> take (Suc (p + 2)) c = (t @ hex2 h) @ [CHR 0x00]"
    using c(1) t Cons.prems(2) by (auto simp: put_at_def hex2_def split: if_splits)
  then show ?case using Cons.IH[OF c(3) _ _ c(2), of "t @ hex2 h"] by (auto simp: add.assoc)
qed auto

lemma XinWriteHex_wrote:
  assumes w: "wrote ls x" and r: "XinWriteHex x n bs = Inr (0, x')" and n: "no_nul n"
  shows "wrote (ls @ [(n, concat (map hex2 bs))]) x' \<and> xr_fs x' = xr_fs x \<and> xr_filename x' = xr_filename x"
proof -
  let ?t = "n @ ''=''"
  have f: "xr_openflag x = CHR ''w''" using w by (simp add: wrote_def)
  from r f n obtain b b' p' s' where b: "put_at (xr_buffer x) (xr_pscan x) (?t @ [CHR 0x00]) = Some b" "xr_len x + length ?t < XIN_MAXSIZE"
      "write_hex_loop b (xr_pscan x + length ?t) (xr_len x + length ?t) bs = Inr (b', Some (p', s'))"
      "x' = x\<lparr>xr_buffer := b', xr_pscan := p' + 1, xr_len := s' + 1\<rparr>"
    by (auto simp: XinWriteHex_def Let_def not_le split: option.splits if_splits sum.splits)
  have "xr_pscan x + length ?t < length b" "length b = length (xr_buffer x)"
      "take (Suc (xr_pscan x + length ?t)) b = (xin_text ls @ ?t) @ [CHR 0x00]"
    using b(1) w wrote_length[OF w] by (auto simp: put_at_def wrote_def split: if_splits)
  from write_hex_loop_wrote[OF b(3) this(1,3) b(2)] this(2) w show ?thesis
    by (auto simp: wrote_def b(4) xin_text_snoc)
qed

lemma write_value_wrote:
  assumes "wrote ls x" "write_value l x = Inr (0, x')" "name_ok (fst l)" "value_ok (snd l)"
  shows "wrote (ls @ [text_line l]) x' \<and> xr_fs x' = xr_fs x \<and> xr_filename x' = xr_filename x"
proof -
  obtain n v where l: "l = (n, v)" by (cases l)
  have f: "xr_openflag x = CHR ''w''" "no_nul n" using assms l by (simp_all add: wrote_def name_ok_def)
  show ?thesis
  proof (cases v)
    case (XHex bs)
    then show ?thesis using XinWriteHex_wrote[OF assms(1)] assms(2) l f by (simp add: text_line_def value_text_def)
  qed (use xin_append_wrote[OF assms(1)] assms(2,4) l f in
      \<open>auto simp: text_line_def value_text_def value_ok_def XinWriteString_def XinWriteInt_def split: if_splits\<close>)
qed

lemma write_values_wrote:
  assumes "wrote ms x" "write_values ls x = Inr (0, x')" "\<forall>l \<in> set ls. name_ok (fst l) \<and> value_ok (snd l)"
  shows "wrote (ms @ map text_line ls) x' \<and> xr_fs x' = xr_fs x \<and> xr_filename x' = xr_filename x"
  using assms
proof (induction ls arbitrary: ms x)
  case (Cons l ls)
  then obtain y where y: "write_value l x = Inr (0, y)" "write_values ls y = Inr (0, x')"
    by (auto split: sum.splits prod.splits if_splits)
  have "wrote (ms @ [text_line l]) y \<and> xr_fs y = xr_fs x \<and> xr_filename y = xr_filename x"
    by (rule write_value_wrote[OF Cons.prems(1) y(1)]) (use Cons.prems in auto)
  then show ?case using Cons.IH[OF _ y(2), of "ms @ [text_line l]"] Cons.prems by simp
qed simp

text \<open>The file written by \<open>XinClose\<close> is read back by \<open>XinOpen\<close>.\<close>

lemma XinOpen_read_file:
  assumes "text \<noteq> []" "length text \<le> XIN_MAXSIZE" "length buffer = XIN_MAXSIZE + 128"
  shows "\<exists>rest. XinOpen_read (xin_head text @ bytes_of text) buffer = Some (True, text @ CHR 0x00 # rest, length text)"
proof -
  have l: "unat (of_nat (length text) :: u16) = length text" using assms(2) by (simp add: unat_of_nat take_bit_nat_eq_self XIN_MAXSIZE_def)
  define hd8 where "hd8 = xin_head text"
  have h: "length hd8 = 8" "u32_of (hd8 ! 0) (hd8 ! 1) (hd8 ! 2) (hd8 ! 3) = XIN_MAGIC"
      "unat (u16_of (hd8 ! 4) (hd8 ! 5)) = length text" "u16_of (hd8 ! 6) (hd8 ! 7) = CalculateCRC (bytes_of text)"
    by (simp_all add: hd8_def xin_head_def le32_def le16_def l)
  show ?thesis
    unfolding hd8_def[symmetric]
    using assms h by (auto simp: XinOpen_read_def fread1_def put_at_def Let_def)
qed

lemma xin_text_nonempty: "ls \<noteq> [] \<Longrightarrow> xin_text ls \<noteq> []"
  by (cases ls) (auto simp: xin_text_def xin_line_def)

lemma XinOpen_file:
  assumes "files (xr_fs x) f = Some (xin_head text @ bytes_of text)" "\<not> xr_locked x" "length f < XIN_MAXFILENAME"
    and "text \<noteq> []" "length text \<le> XIN_MAXSIZE" "length (xr_buffer x) = XIN_MAXSIZE + 128"
  shows "\<exists>y rest. XinOpen f CHR ''r'' x = Inr (True, y) \<and> xr_openflag y = CHR ''r'' \<and> xr_pscan y = 0 \<and>
    xr_buffer y = text @ CHR 0x00 # rest"
proof -
  obtain rest where "XinOpen_read (xin_head text @ bytes_of text) (xr_buffer x) = Some (True, text @ CHR 0x00 # rest, length text)"
    using XinOpen_read_file[OF assms(4-6)] by blast
  then show ?thesis using assms(1-3) by (simp add: XinOpen_def Let_def)
qed

lemma XinClose_file:
  assumes w: "wrote ls x" and ls: "ls \<noteq> []" and c: "can_write (xr_fs x) (xr_filename x)"
  shows "xr_fs (XinClose x) = fs_write (xr_filename x) (xin_head (xin_text ls) @ bytes_of (xin_text ls)) (xr_fs x)"
    and "\<not> xr_locked (XinClose x)" and "xr_buffer (XinClose x) = xr_buffer x"
proof -
  have l: "length (xin_text ls) = xr_len x" "0 < xr_len x" "xr_len x \<le> XIN_MAXSIZE" "xr_openflag x = CHR ''w''"
      "take (xr_len x) (xr_buffer x) = xin_text ls"
    using wrote_length[OF w] w length_greater_0_conv[THEN iffD2, OF xin_text_nonempty[OF ls]] by (simp_all add: wrote_def)
  show "xr_fs (XinClose x) = fs_write (xr_filename x) (xin_head (xin_text ls) @ bytes_of (xin_text ls)) (xr_fs x)"
      "\<not> xr_locked (XinClose x)" "xr_buffer (XinClose x) = xr_buffer x"
    using l c by (simp_all add: XinClose_def Let_def fs_write_def fs_remove_def)
qed

text \<open>What was closed is opened again by any reader that sees the same file, whatever its buffer held before.\<close>

lemma XinClose_XinOpen:
  assumes w: "wrote ls x" and ls: "ls \<noteq> []" and c: "can_write (xr_fs x) (xr_filename x)" and f: "length (xr_filename x) < XIN_MAXFILENAME"
    and z: "files (xr_fs z) (xr_filename x) = files (xr_fs (XinClose x)) (xr_filename x)" "length (xr_buffer z) = XIN_MAXSIZE + 128" "\<not> xr_locked z"
  shows "\<exists>y rest. XinOpen (xr_filename x) CHR ''r'' z = Inr (True, y) \<and> xr_openflag y = CHR ''r'' \<and> xr_pscan y = 0 \<and>
    xr_buffer y = xin_text ls @ CHR 0x00 # rest"
  by (rule XinOpen_file)
    (use XinClose_file[OF w ls c] w wrote_length[OF w] f z xin_text_nonempty[OF ls] in \<open>simp_all add: fs_write_def wrote_def\<close>)

lemma find_unique:
  assumes "a \<in> set xs" "P a" "\<forall>b \<in> set xs. P b \<longrightarrow> b = a"
  shows "find P xs = Some a"
proof (cases "find P xs")
  case None
  then show ?thesis using assms(1,2) unfolding find_None_iff by blast
next
  case (Some b)
  then show ?thesis using assms(3) unfolding find_Some_iff by (metis nth_mem)
qed

lemma FindVariable_line:
  assumes o: "opened ls x" and ok: "\<forall>l \<in> set ls. name_ok (fst l) \<and> value_ok (snd l)" and d: "distinct_names ls" and l: "l \<in> set ls"
  shows "\<exists>y. FindVariable x (fst l) = Inr (Some (value_text (snd l)), y) \<and> opened ls y"
proof -
  let ?ms = "map text_line ls"
  obtain rest i where r: "xr_buffer x = xin_text ?ms @ CHR 0x00 # rest" "i \<le> length ?ms" "xr_pscan x = line_pos ?ms i"
    using o by (auto simp: opened_def)
  have ok': "\<forall>l \<in> set ?ms. line_ok l" using ok value_text_ok by (auto simp: line_ok_def text_line_def)
  have "find (is_line (fst l)) (drop i ?ms @ take i ?ms) = Some (text_line l)"
  proof (rule find_unique)
    have set: "set (drop i ?ms @ take i ?ms) = set ?ms" by (metis append_take_drop_id set_append Un_commute)
    show "text_line l \<in> set (drop i ?ms @ take i ?ms)" unfolding set using l by simp
    show "is_line (fst l) (text_line l)" by (simp add: is_line_def text_line_def same_name_def)
    show "\<forall>b\<in>set (drop i ?ms @ take i ?ms). is_line (fst l) b \<longrightarrow> b = text_line l"
      unfolding set using d l by (auto simp: is_line_def text_line_def distinct_names_def) 
  qed
  moreover have "?ms \<noteq> []" "name_ok (fst l)" using ok l by auto
  ultimately obtain k where "k \<le> length ?ms" "FindVariable x (fst l) = Inr (Some (value_text (snd l)), x\<lparr>xr_pscan := line_pos ?ms k\<rparr>)"
    using FindVariable_finds[OF r(1) ok' _ _ r(2,3), of "fst l"] by (auto simp: text_line_def)
  then show ?thesis using o by (auto simp: opened_def)
qed

lemma read_value_line:
  assumes "opened ls x" "\<forall>l \<in> set ls. name_ok (fst l) \<and> value_ok (snd l)" "distinct_names ls" "l \<in> set ls"
  shows "\<exists>y. read_value l x = Inr (Some (snd l), y) \<and> opened ls y"
proof -
  obtain n v where l: "l = (n, v)" by (cases l)
  obtain y where y: "FindVariable x n = Inr (Some (value_text v), y)" "opened ls y" using FindVariable_line[OF assms] l by auto
  have f: "xr_openflag x = CHR ''r''" "value_ok v" using assms l by (auto simp: opened_def)
  show ?thesis
    using y f l XinStrToHex_text XinStrToInt_text
    by (cases v) (auto simp: XinReadString_def XinReadInt_def XinReadHex_def value_text_def)
qed

lemma read_values_lines:
  assumes "opened ls x" "\<forall>l \<in> set ls. name_ok (fst l) \<and> value_ok (snd l)" "distinct_names ls" "set ms \<subseteq> set ls"
  shows "\<exists>y. read_values ms x = Inr (map (Some \<circ> snd) ms, y)"
  using assms(1,4)
proof (induction ms arbitrary: x)
  case (Cons l ms)
  then obtain y where y: "read_value l x = Inr (Some (snd l), y)" "opened ls y"
    using read_value_line[OF Cons.prems(1) assms(2,3), of l] by auto
  then show ?case using Cons.IH[OF y(2)] Cons.prems by auto
qed simp

subsection \<open>Properties\<close>

text \<open>C32: in a well-formed buffer the search ends, stays in the buffer and returns the value of the first line, cyclically
  from the scan pointer on, whose name has the length of the wanted one and agrees with it up to the last character:
  the last character is not compared, so \<open>svraddrIp1\<close> is answered with the value of \<open>svraddrIp2\<close>.\<close>

theorem FindVariable_cyclic:
  assumes "xr_buffer x = xin_text ls @ CHR 0x00 # rest" "\<forall>l \<in> set ls. line_ok l" "ls \<noteq> []" "name_ok m"
    and "i \<le> length ls" "xr_pscan x = line_pos ls i"
  shows "\<exists>k \<le> length ls. FindVariable x m =
    Inr (map_option snd (find (\<lambda>l. length (fst l) = length m \<and> butlast (fst l) = butlast m) (drop i ls @ take i ls)), x\<lparr>xr_pscan := line_pos ls k\<rparr>)"
  using FindVariable_finds [OF assms] unfolding is_line_def same_name_def .

theorem FindVariable_cyclic_witness:
  "\<exists>k \<le> 2. FindVariable (xin_idle\<lparr>xr_buffer := xin_text two_lines @ [CHR 0x00, CHR 0x00], xr_pscan := line_pos two_lines 1\<rparr>) ''svraddrIp1'' =
    Inr (Some ''b'', xin_idle\<lparr>xr_buffer := xin_text two_lines @ [CHR 0x00, CHR 0x00], xr_pscan := line_pos two_lines k\<rparr>)"
proof -
  let ?x = "xin_idle\<lparr>xr_buffer := xin_text two_lines @ [CHR 0x00, CHR 0x00], xr_pscan := line_pos two_lines 1\<rparr>"
  have p: "xr_buffer ?x = xin_text two_lines @ CHR 0x00 # [CHR 0x00]" "\<forall>l \<in> set two_lines. line_ok l" "two_lines \<noteq> []"
      "name_ok ''svraddrIp1''" "1 \<le> length two_lines" "xr_pscan ?x = line_pos two_lines 1"
    by (simp_all add: two_lines_def line_ok_def name_ok_def no_nul_def)
  have f: "find (is_line ''svraddrIp1'') (drop 1 two_lines @ take 1 two_lines) = Some (''svraddrIp2'', ''b'')" "length two_lines = 2"
    by (simp_all add: two_lines_def is_line_def same_name_def)
  show ?thesis using FindVariable_cyclic[OF p] f unfolding is_line_def same_name_def by simp
qed

text \<open>C23: when names differ before their last character, what was written to a file without an error (strings, decimal and
  hexadecimal integers, byte arrays) is read back after the file was closed, in any order of reading, by every program that
  sees the file: what the static buffer and the other variables hold when it is opened does not matter.\<close>

theorem Xin_roundtrip:
  assumes "XinOpen f CHR ''w'' x = Inr (True, x1)" "length (xr_buffer x) = XIN_MAXSIZE + 128" "can_write (xr_fs x) f"
    and "write_values ls x1 = Inr (0, x2)" "ls \<noteq> []"
    and "\<forall>l \<in> set ls. name_ok (fst l) \<and> value_ok (snd l)" "distinct_names ls" "set ms \<subseteq> set ls"
    and "files (xr_fs r) f = files (xr_fs (XinClose x2)) f" "length (xr_buffer r) = XIN_MAXSIZE + 128" "\<not> xr_locked r"
  shows "\<exists>y z. XinOpen f CHR ''r'' r = Inr (True, y) \<and> read_values ms y = Inr (map (Some \<circ> snd) ms, z)"
proof -
  have o: "x1 = x\<lparr>xr_openflag := CHR ''w'', xr_filename := f, xr_pscan := 0, xr_len := 0, xr_locked := True\<rparr>" "length f < XIN_MAXFILENAME"
    using assms(1) by (auto simp: XinOpen_def not_le split: if_splits)
  have "wrote [] x1" using o assms(2) by (simp add: wrote_def xin_text_def)
  then have w: "wrote (map text_line ls) x2" "xr_fs x2 = xr_fs x1" "xr_filename x2 = f"
    using write_values_wrote[OF _ assms(4,6), of "[]"] o by simp_all
  have "\<exists>y rest. XinOpen f CHR ''r'' r = Inr (True, y) \<and> xr_openflag y = CHR ''r'' \<and> xr_pscan y = 0 \<and>
      xr_buffer y = xin_text (map text_line ls) @ CHR 0x00 # rest"
    using XinClose_XinOpen[OF w(1), of r] assms(3,5,9-11) o w(2,3) by simp
  then obtain y rest where y: "XinOpen f CHR ''r'' r = Inr (True, y)" "xr_openflag y = CHR ''r''" "xr_pscan y = 0"
      "xr_buffer y = xin_text (map text_line ls) @ CHR 0x00 # rest" by blast
  have "opened ls y" using y by (auto simp: opened_def intro!: exI[of _ 0])
  from read_values_lines[OF this assms(6,7,8)] y(1) show ?thesis by blast
qed

theorem Xin_roundtrip_witness:
  "\<exists>x1 x2 y z. XinOpen ''f'' CHR ''w'' xin_idle = Inr (True, x1) \<and>
    write_values [(''port'', XInt 3307 False), (''mask'', XInt 255 True), (''key'', XHex [0x1f, 2]), (''name'', XStr ''ab'')] x1 = Inr (0, x2) \<and>
    XinOpen ''f'' CHR ''r'' (xin_idle\<lparr>xr_fs := xr_fs (XinClose x2)\<rparr>) = Inr (True, y) \<and>
    read_values [(''name'', XStr ''ab''), (''port'', XInt 3307 False)] y = Inr ([Some (XStr ''ab''), Some (XInt 3307 False)], z)"
proof -
  let ?ls = "[(''port'', XInt 3307 False), (''mask'', XInt 255 True), (''key'', XHex [0x1f, 2]), (''name'', XStr ''ab'')]"
  obtain x1 where x1: "XinOpen ''f'' CHR ''w'' xin_idle = Inr (True, x1)"
      "x1 = xin_idle\<lparr>xr_openflag := CHR ''w'', xr_filename := ''f'', xr_pscan := 0, xr_len := 0, xr_locked := True\<rparr>"
    by (simp add: XinOpen_def xin_idle_def XIN_MAXFILENAME_def)
  have d: "dec_int 3307 = ''3307''" by code_simp
  have h: "hex_nat 255 = ''FF''" by code_simp
  have b: "concat (map hex2 [0x1f, 2]) = ''1F02''" by code_simp
  obtain x2 where x2: "write_values ?ls x1 = Inr (0, x2)"
    by (simp add: x1(2) xin_idle_def XinWriteInt_def XinWriteHex_def XinWriteString_def xin_append_def put_at_def XIN_MAXSIZE_def Let_def d h cstr_def hex2_def hex_digit_def)
  show ?thesis
    using Xin_roundtrip[OF x1(1) _ _ x2, of "[(''name'', XStr ''ab''), (''port'', XInt 3307 False)]" "xin_idle\<lparr>xr_fs := xr_fs (XinClose x2)\<rparr>"] x1(1) x2
    by (simp add: xin_idle_def name_ok_def value_ok_def no_nul_def distinct_names_def same_name_def)
qed

end
