(* ===== verification/ParamTerm.thy ===== *)
theory ParamTerm
  imports Xin Bcd
begin

text \<open>
  The parameters of the terminal (\<open>param/term.c\<close>, \<open>include/param/term.h\<close>): their defaults, the
  values of the configuration of the system (\<open>uci\<close>, the answers of which are a parameter of the
  model, as is the resolution of a host name), and their text file with its backup, which is
  written and read through the text files of \<open>Xin\<close>. Arrays of characters and bytes are lists of
  their size; a string in an array ends at its first NUL. The union of an address is its ten
  bytes: the channel, then an IP address at offset 3 and a port at offset 8, or a phone number
  at offset 1. The numbers of meters, which no code uses, are left out; a printed number is not
  limited to the range of \<open>int\<close>.
\<close>

subsection \<open>Data\<close>

definition sa_chn :: "bytes \<Rightarrow> u8" where "sa_chn a = a ! 0"
definition sa_ip :: "bytes \<Rightarrow> bytes" where "sa_ip a = take 4 (drop 3 a)"
definition sa_port :: "bytes \<Rightarrow> u16" where "sa_port a = u16_of (a ! 8) (a ! 9)"
definition sa_phone :: "bytes \<Rightarrow> bytes" where "sa_phone a = take 8 (drop 1 a)"
definition set_chn :: "u8 \<Rightarrow> bytes \<Rightarrow> bytes" where "set_chn c a = a[0 := c]"
definition set_ip :: "bytes \<Rightarrow> bytes \<Rightarrow> bytes" where "set_ip ip a = take 3 a @ take 4 ip @ drop 7 a"
definition set_port :: "u16 \<Rightarrow> bytes \<Rightarrow> bytes" where "set_port p a = a[8 := lo8 p, 9 := hi8 p]"
definition set_phone :: "bytes \<Rightarrow> bytes \<Rightarrow> bytes" where "set_phone p a = take 1 a @ take 8 p @ drop 9 a"

record camera =
  cam_index :: u8
  cam_nchanel :: u8
  cam_fac_type :: u8
  cam_net_port :: u16
  cam_net_addr :: string
  cam_username :: string
  cam_password :: string
  cam_videoname :: string

record portcfg_t =
  pc_valid :: u8
  pc_baud :: u8
  pc_parity :: u8
  pc_databits :: u8
  pc_stopbits :: u8
  pc_func :: u8

record para_term_tG =
  pt_svraddr :: bytes
  pt_svraddr_1 :: bytes
  pt_svraddr_2 :: bytes
  pt_sms_addr :: bytes
  pt_gate_addr :: bytes
  pt_apn :: string
  pt_MusicState :: u8
  pt_deviceid :: bytes
  pt_ledscreenPort :: u16
  pt_strledscreenaddr :: string
  pt_strmusicpwd :: string
  pt_music_volume :: u16
  pt_first_start :: u8
  pt_Musicmonth :: u8
  pt_login_update_system :: u8
  pt_login_down_musice :: u8
  pt_cdma_usr :: string
  pt_cdma_pwd :: string
  pt_nor_pwd :: bytes
  pt_com_pwd :: bytes
  pt_adm_pwd :: bytes
  pt_search_device :: u8
  pt_task_starthour :: u8
  pt_task_startdev :: u8
  pt_plc_route_type :: u8
  pt_gate_linewaste :: bytes
  pt_hour_upimpdata :: u8
  pt_hour_updaydata :: u8
  pt_alarm_flag :: u32
  pt_cascade_addr :: bytes
  pt_cascade_flag :: u8
  pt_day_read_mondata :: u8
  pt_hour_read_mondata :: u8
  pt_day_up_mondata :: u8
  pt_hour_up_mondata :: u8
  pt_peibian_addr :: bytes
  pt_device_code :: string
  pt_ct :: bytes
  pt_autoflag :: u8
  pt_register_code :: string
  pt_camerainfo :: "camera list"
  pt_port :: "portcfg_t list"

definition MAX_485PORT :: nat where "MAX_485PORT = 3"
definition PORTCFG_NUM :: nat where "PORTCFG_NUM = 7"
definition MAX_CAMERA_NUM :: nat where "MAX_CAMERA_NUM = 4"

text \<open>Writing a string or the first bytes of an array.\<close>

definition put_str :: "string \<Rightarrow> string \<Rightarrow> string" where
  "put_str s buf = s @ CHR 0x00 # drop (length s + 1) buf"

definition put_front :: "'a list \<Rightarrow> 'a list \<Rightarrow> 'a list" where
  "put_front xs buf = xs @ drop (length xs) buf"

subsection \<open>Conversions\<close>

fun ip_loop :: "string \<Rightarrow> nat \<Rightarrow> int \<Rightarrow> bytes \<Rightarrow> bytes" where
  "ip_loop [] idx i ip = ip[idx := word_of_int i]"
| "ip_loop (c # str) idx i ip =
     (if c = CHR ''.'' then
        (let ip = ip[idx := word_of_int i] in if idx + 1 > 3 then ip else ip_loop str (idx + 1) 0 ip)
      else if is_digit c then ip_loop str idx (i * 10 + int (digit_val c)) ip
      else ip[idx := word_of_int i])"

definition StringToIp :: "string \<Rightarrow> bytes" where
  "StringToIp str = ip_loop (cstr str) 0 0 [0, 0, 0, 0]"

definition IpToString :: "bytes \<Rightarrow> string" where
  "IpToString ip = dec_nat (unat (ip ! 0)) @ ''.'' @ dec_nat (unat (ip ! 1)) @ ''.'' @
     dec_nat (unat (ip ! 2)) @ ''.'' @ dec_nat (unat (ip ! 3))"

text \<open>The phone number of the message centre: the digits move to the end of eight bytes, behind a
  filling of \<open>0xaa\<close>, and are stored reversed.\<close>

definition sms_phone_tonormal :: "nat \<Rightarrow> bytes \<Rightarrow> bytes \<Rightarrow> bytes" where
  "sms_phone_tonormal n num phone =
     (let num = fold (\<lambda>i num. num[7 - i := num ! (n - 1 - i)]) [0..<n] num;
          num = fold (\<lambda>i num. num[i := 0xaa]) [0..<8 - n] num
      in fold (\<lambda>i phone. phone[i := num ! (7 - i)]) [0..<8] phone)"

definition sms_phone_tounnor :: "bytes \<Rightarrow> bytes" where
  "sms_phone_tounnor phone = map (\<lambda>i. phone ! (7 - i)) [0..<8]"

fun sms_phone_loop :: "bool \<Rightarrow> bytes \<Rightarrow> bytes" where
  "sms_phone_loop flag [] = []"
| "sms_phone_loop False (p # ps) =
     (if p = 0xaa then sms_phone_loop True ps
      else if p = 0 then sms_phone_loop False ps
      else (p + 0x30) # sms_phone_loop False ps)"
| "sms_phone_loop True (p # ps) =
     (if p = 0xaa then sms_phone_loop True ps else (p + 0x30) # sms_phone_loop True ps)"

definition sms_phone_numtoascii :: "bytes \<Rightarrow> bytes" where
  "sms_phone_numtoascii phone = sms_phone_loop False (rev (take 16 phone)) @ [0]"

definition swap23 :: "bytes \<Rightarrow> nat \<Rightarrow> bytes" where
  "swap23 a i = a[i + 2 := a ! (i + 3), i + 3 := a ! (i + 2)]"

definition Cascade_AddrChange :: "bytes \<Rightarrow> bytes \<Rightarrow> nat \<Rightarrow> bytes" where
  "Cascade_AddrChange target outadr flag =
     (if flag = 1 then fold (\<lambda>i a. swap23 a (i * 4)) [0..<4] (put_front (take 16 target) outadr)
      else swap23 (put_front (take 4 target) outadr) 0)"

definition BuffRev :: "bytes \<Rightarrow> nat \<Rightarrow> bytes" where
  "BuffRev buf n = (if n > 128 then buf else put_front (rev (take n buf)) buf)"

subsection \<open>Defaults\<close>

definition def_ip :: "bytes \<Rightarrow> u16 \<Rightarrow> bytes \<Rightarrow> bytes" where
  "def_ip ip port a = set_port port (set_ip ip a)"

definition def_port :: "nat \<Rightarrow> portcfg_t \<Rightarrow> portcfg_t" where
  "def_port i c = c\<lparr>pc_baud := 4, pc_databits := 8, pc_parity := 1, pc_stopbits := 1, pc_func := of_nat i\<rparr>"

text \<open>The registration code has 13 bytes; clearing 16 of them clears the first three bytes of the
  first camera too.\<close>

definition clear_register :: "para_term_tG \<Rightarrow> para_term_tG" where
  "clear_register p = p\<lparr>pt_register_code := replicate 13 CHR 0x00,
     pt_camerainfo := (pt_camerainfo p)[0 := (pt_camerainfo p ! 0)\<lparr>cam_index := 0, cam_nchanel := 0, cam_fac_type := 0\<rparr>]\<rparr>"

definition LoadDefParaTerm :: "para_term_tG \<Rightarrow> para_term_tG" where
  "LoadDefParaTerm p = clear_register (p\<lparr>
     pt_svraddr := def_ip [192, 168, 3, 187] 5000 (pt_svraddr p),
     pt_ledscreenPort := 28123,
     pt_MusicState := 0,
     pt_strledscreenaddr := put_str ''192.168.3.187'' (pt_strledscreenaddr p),
     pt_svraddr_1 := def_ip [114, 112, 52, 104] 5000 (pt_svraddr_1 p),
     pt_apn := put_str ''CMNET'' (pt_apn p),
     pt_cdma_usr := put_str ''CMNET'' (pt_cdma_usr p),
     pt_cdma_pwd := put_str ''CMNET'' (pt_cdma_pwd p),
     pt_gate_addr := set_ip [192, 168, 0, 1] (pt_gate_addr p),
     pt_deviceid := put_front [0, 7, 5, 5, 1, 4, 0xD7] (pt_deviceid p),
     pt_first_start := 1,
     pt_Musicmonth := 7,
     pt_login_update_system := 0,
     pt_login_down_musice := 0,
     pt_search_device := 0,
     pt_task_starthour := 1,
     pt_task_startdev := 1,
     pt_plc_route_type := 0,
     pt_gate_linewaste := [1, 0],
     pt_hour_upimpdata := 0xff,
     pt_hour_updaydata := 0xff,
     pt_alarm_flag := 0,
     pt_cascade_addr := replicate 16 0xff,
     pt_cascade_flag := 1,
     pt_day_read_mondata := 1,
     pt_hour_read_mondata := 1,
     pt_day_up_mondata := 3,
     pt_hour_up_mondata := 5,
     pt_nor_pwd := [0, 0, 0],
     pt_com_pwd := put_front [0x11, 0x11, 0x11] (pt_com_pwd p),
     pt_adm_pwd := [0, 0, 0],
     pt_port := fold (\<lambda>i ps. ps[i := def_port i (ps ! i)]) [0..<MAX_485PORT] (pt_port p),
     pt_autoflag := 1\<rparr>)"

subsection \<open>The configuration of the system\<close>

text \<open>A buffer of 100 characters that keeps what an earlier query left in it.\<close>

definition getuciConfigvar :: "(string \<Rightarrow> string option) \<Rightarrow> string \<Rightarrow> string \<Rightarrow> (bool \<times> string)" where
  "getuciConfigvar uci varname buffer =
     (case uci varname of
        None \<Rightarrow> (False, buffer)
      | Some answer \<Rightarrow>
          let str_tmp = cstr (take 99 answer) in
          if take 4 str_tmp = ''uci:'' \<or> length str_tmp < 2 then (False, buffer)
          else (True, put_str (butlast str_tmp) buffer))"

definition num_of :: "char \<Rightarrow> u8" where "num_of c = of_char c - 0x30"

definition LoadUci :: "(string \<Rightarrow> string option) \<Rightarrow> (string \<Rightarrow> bytes option) \<Rightarrow> string \<Rightarrow> para_term_tG \<Rightarrow> para_term_tG" where
  "LoadUci uci gethostbyname str p =
     (let (ok, str) = getuciConfigvar uci ''sn'' str;
          p = (if ok then p\<lparr>pt_deviceid := map (\<lambda>i. num_of (str ! i)) [0..<8]\<rparr> else p);
          (ok, str) = getuciConfigvar uci ''firststart'' str;
          p = (if ok then p\<lparr>pt_first_start := num_of (str ! 0)\<rparr> else p);
          (ok, str) = getuciConfigvar uci ''musicmonth'' str;
          p = (if ok then p\<lparr>pt_Musicmonth := num_of (str ! 0)\<rparr> else p);
          (ok, str) = getuciConfigvar uci ''master_addr'' str;
          p = (if ok then (case gethostbyname (cstr str) of
                 None \<Rightarrow> p | Some ip \<Rightarrow> p\<lparr>pt_svraddr := set_ip ip (pt_svraddr p)\<rparr>) else p);
          (ok, str) = getuciConfigvar uci ''master_port'' str;
          p = (if ok then p\<lparr>pt_svraddr := set_port (word_of_int (c_atoi (cstr str))) (pt_svraddr p)\<rparr> else p);
          (ok, str) = getuciConfigvar uci ''music_volume'' str
      in p\<lparr>pt_music_volume := (if ok then word_of_int (c_atoi (cstr str)) else 20)\<rparr>)"

definition load_hardinfo :: "bytes \<Rightarrow> bytes" where
  "load_hardinfo hard_info =
     (let ver = push_bit 4 0x04 AND 0xf0;
          h = hard_info[12 := hard_info ! 12 OR ver];
          ver = push_bit 4 0x01 OR 0x01;
          h = h[13 := ver]
      in take 16 h @ hextobcd (take 2 (drop 16 h)) @ drop 18 h)"

subsection \<open>The file\<close>

text \<open>Reading is a sequence of steps: the name of a variable, and what is done with its value. A
  step on an integer has a default, those on strings and arrays do nothing when the variable is
  missing; \<open>LDo\<close> is a statement between the reads.\<close>

datatype 'p load =
    LInt string int "int \<Rightarrow> 'p \<Rightarrow> 'p"
  | LStr string int "string \<Rightarrow> 'p \<Rightarrow> 'p"
  | LHex string nat "bytes \<Rightarrow> 'p \<Rightarrow> 'p"
  | LDo "'p \<Rightarrow> 'p"

fun load_step :: "'p load \<Rightarrow> xinref_t \<times> 'p \<Rightarrow> xin_stop + (xinref_t \<times> 'p)" where
  "load_step (LInt name def upd) (x, p) =
     (case XinReadInt x name def of Inl s \<Rightarrow> Inl s | Inr (i, x) \<Rightarrow> Inr (x, upd i p))"
| "load_step (LStr name len upd) (x, p) =
     (case XinReadString x name len of
        Inl s \<Rightarrow> Inl s | Inr (None, x) \<Rightarrow> Inr (x, p) | Inr (Some t, x) \<Rightarrow> Inr (x, upd t p))"
| "load_step (LHex name len upd) (x, p) =
     (case XinReadHex x name len of
        Inl s \<Rightarrow> Inl s | Inr (None, x) \<Rightarrow> Inr (x, p) | Inr (Some bs, x) \<Rightarrow> Inr (x, upd bs p))"
| "load_step (LDo f) (x, p) = Inr (x, f p)"

fun load_steps :: "'p load list \<Rightarrow> xinref_t \<times> 'p \<Rightarrow> xin_stop + (xinref_t \<times> 'p)" where
  "load_steps [] xp = Inr xp"
| "load_steps (l # ls) xp = (case load_step l xp of Inl s \<Rightarrow> Inl s | Inr xp \<Rightarrow> load_steps ls xp)"

text \<open>Writing is a sequence of lines; the result of a write is ignored.\<close>

datatype save = SInt string int | SStr string string | SHex string bytes

fun save_step :: "save \<Rightarrow> xinref_t \<Rightarrow> xin_stop + xinref_t" where
  "save_step (SInt name i) x = map_sum id snd (XinWriteInt x name i False)"
| "save_step (SStr name s) x = map_sum id snd (XinWriteString x name s)"
| "save_step (SHex name bs) x = map_sum id snd (XinWriteHex x name bs)"

fun save_steps :: "save list \<Rightarrow> xinref_t \<Rightarrow> xin_stop + xinref_t" where
  "save_steps [] x = Inr x"
| "save_steps (l # ls) x = (case save_step l x of Inl s \<Rightarrow> Inl s | Inr x \<Rightarrow> save_steps ls x)"

definition port_saves :: "para_term_tG \<Rightarrow> nat \<Rightarrow> save list" where
  "port_saves p i = (let c = pt_port p ! i in
     [SInt (''baud'' @ dec_nat i) (uint (pc_baud c)),
      SInt (''databits'' @ dec_nat i) (uint (pc_databits c)),
      SInt (''stopbits'' @ dec_nat i) (uint (pc_stopbits c)),
      SInt (''parity'' @ dec_nat i) (uint (pc_parity c)),
      SInt (''func'' @ dec_nat i) (uint (pc_func c))])"

definition term_saves :: "para_term_tG \<Rightarrow> save list" where
  "term_saves p =
     [SInt ''svraddrflag'' (uint (sa_chn (pt_svraddr p))),
      SStr ''svraddrIp'' (IpToString (sa_ip (pt_svraddr p))),
      SInt ''svrport'' (uint (sa_port (pt_svraddr p))),
      SStr ''svraddrIp2'' (IpToString (sa_ip (pt_svraddr_1 p))),
      SInt ''svrport2'' (uint (sa_port (pt_svraddr_1 p))),
      SStr ''svraddrIp3'' (IpToString (sa_ip (pt_svraddr_2 p))),
      SInt ''svrport3'' (uint (sa_port (pt_svraddr_2 p))),
      SHex ''smsaddr'' (sms_phone_tounnor (pt_sms_addr p)),
      SStr ''gateaddr'' (IpToString (sa_ip (pt_gate_addr p))),
      SInt ''gateport'' (uint (sa_port (pt_gate_addr p))),
      SStr ''apn'' (pt_apn p),
      SStr ''cdmausr'' (pt_cdma_usr p),
      SStr ''cdmapwd'' (pt_cdma_pwd p),
      SHex ''norpwd'' (take 3 (pt_nor_pwd p)),
      SHex ''compwd'' (take 3 (pt_com_pwd p)),
      SHex ''admpwd'' (take 3 (pt_adm_pwd p)),
      SInt ''search_device'' (uint (pt_search_device p)),
      SInt ''taskstarthour'' (uint (pt_task_starthour p)),
      SInt ''taskstartdev'' (uint (pt_task_startdev p)),
      SInt ''plcroutetype'' (uint (pt_plc_route_type p)),
      SHex ''gatelinewaste'' (take 2 (pt_gate_linewaste p)),
      SInt ''hourupimpdata'' (uint (pt_hour_upimpdata p)),
      SInt ''hourupdaydata'' (uint (pt_hour_updaydata p)),
      SInt ''alarmflag'' (sint (pt_alarm_flag p)),
      SHex ''cascadeaddr'' (Cascade_AddrChange (pt_cascade_addr p) [] 1),
      SInt ''cascadeflag'' (uint (pt_cascade_flag p)),
      SInt ''dayreadmondata'' (uint (pt_day_read_mondata p)),
      SInt ''hourreadmondata'' (uint (pt_hour_read_mondata p)),
      SInt ''dayupmondata'' (uint (pt_day_up_mondata p)),
      SInt ''hourupmondata'' (uint (pt_hour_up_mondata p)),
      SHex ''peibian_addr'' (take 4 (Cascade_AddrChange (pt_peibian_addr p) [] 0)),
      SHex ''ct'' (take 2 (pt_ct p))] @
     concat (map (port_saves p) [0..<MAX_485PORT])"

definition TERM_FILE :: string where "TERM_FILE = ''/param/term.xin''"
definition TERM_BAK :: string where "TERM_BAK = ''/bakup/term.xin''"

definition SaveParaTerm_to :: "string \<Rightarrow> para_term_tG \<Rightarrow> xinref_t \<Rightarrow> xin_stop + (bool \<times> xinref_t)" where
  "SaveParaTerm_to file p x =
     (case XinOpen file CHR ''w'' x of
        Inl s \<Rightarrow> Inl s
      | Inr (False, x) \<Rightarrow> Inr (False, x)
      | Inr (True, x) \<Rightarrow> map_sum id (\<lambda>x. (True, XinClose x)) (save_steps (term_saves p) x))"

definition SaveParaTerm :: "para_term_tG \<Rightarrow> xinref_t \<Rightarrow> xin_stop + (int \<times> xinref_t)" where
  "SaveParaTerm p x =
     (case SaveParaTerm_to TERM_FILE p x of
        Inl s \<Rightarrow> Inl s
      | Inr (_, x) \<Rightarrow>
          map_sum id (\<lambda>(ok, x). (if ok then 0 else 1, x)) (SaveParaTerm_to TERM_BAK p x))"

text \<open>The state of the reader is the parameters and a buffer \<open>tmpbuf\<close> of 16 bytes on the stack.\<close>

type_synonym term_load = "(para_term_tG \<times> bytes) load"

abbreviation LP :: "(para_term_tG \<Rightarrow> para_term_tG) \<Rightarrow> para_term_tG \<times> bytes \<Rightarrow> para_term_tG \<times> bytes" where
  "LP f \<equiv> map_prod f id"

definition ip_step :: "string \<Rightarrow> ((bytes \<Rightarrow> bytes) \<Rightarrow> para_term_tG \<Rightarrow> para_term_tG) \<Rightarrow> term_load" where
  "ip_step name upd = LStr name 24 (\<lambda>str. if str = [] then id else LP (upd (set_ip (StringToIp str))))"

definition chn_step :: "string \<Rightarrow> ((bytes \<Rightarrow> bytes) \<Rightarrow> para_term_tG \<Rightarrow> para_term_tG) \<Rightarrow> term_load" where
  "chn_step name upd = LInt name 4 (\<lambda>i. LP (upd (set_chn (word_of_int i))))"

definition port_step :: "string \<Rightarrow> int \<Rightarrow> ((bytes \<Rightarrow> bytes) \<Rightarrow> para_term_tG \<Rightarrow> para_term_tG) \<Rightarrow> term_load" where
  "port_step name def upd = LInt name def (\<lambda>i. LP (upd (set_port (word_of_int i))))"

definition byte_step :: "string \<Rightarrow> int \<Rightarrow> ((u8 \<Rightarrow> u8) \<Rightarrow> para_term_tG \<Rightarrow> para_term_tG) \<Rightarrow> term_load" where
  "byte_step name def upd = LInt name def (\<lambda>i. LP (upd (\<lambda>_. word_of_int i)))"

definition upd_port :: "nat \<Rightarrow> (portcfg_t \<Rightarrow> portcfg_t) \<Rightarrow> para_term_tG \<Rightarrow> para_term_tG" where
  "upd_port i f p = p\<lparr>pt_port := (pt_port p)[i := f (pt_port p ! i)]\<rparr>"

definition port_loads :: "nat \<Rightarrow> term_load list" where
  "port_loads i =
     [LInt (''baud'' @ dec_nat i) 4 (\<lambda>v. LP (upd_port i (\<lambda>c. c\<lparr>pc_baud := word_of_int v\<rparr>))),
      LInt (''databits'' @ dec_nat i) 8 (\<lambda>v. LP (upd_port i (\<lambda>c. c\<lparr>pc_databits := word_of_int v\<rparr>))),
      LInt (''stopbits'' @ dec_nat i) 1 (\<lambda>v. LP (upd_port i (\<lambda>c. c\<lparr>pc_stopbits := word_of_int v\<rparr>))),
      LInt (''parity'' @ dec_nat i) 1 (\<lambda>v. LP (upd_port i (\<lambda>c. c\<lparr>pc_parity := word_of_int v\<rparr>))),
      LInt (''func'' @ dec_nat i) (int i) (\<lambda>v. LP (upd_port i (\<lambda>c. c\<lparr>pc_func := word_of_int v\<rparr>)))]"

definition term_loads :: "term_load list" where
  "term_loads =
     [chn_step ''svraddrflag'' pt_svraddr_update,
      ip_step ''svraddrIp'' pt_svraddr_update,
      port_step ''svrport'' 8300 pt_svraddr_update,
      chn_step ''svraddrflag1'' pt_svraddr_1_update,
      ip_step ''svraddrIp1'' pt_svraddr_1_update,
      port_step ''svrport1'' 9001 pt_svraddr_1_update,
      chn_step ''svraddrflag2'' pt_svraddr_2_update,
      ip_step ''svraddrIp2'' pt_svraddr_2_update,
      port_step ''svrport2'' 9001 pt_svraddr_2_update,
      ip_step ''gateaddr'' pt_gate_addr_update,
      port_step ''gateport'' 9001 pt_gate_addr_update,
      LHex ''smsaddr'' 8 (\<lambda>bs. LP (pt_sms_addr_update (sms_phone_tonormal (length bs) (put_front bs (replicate 8 0))))),
      LStr ''apn'' 16 (\<lambda>str. LP (pt_apn_update (put_str str))),
      LStr ''cdmausr'' 32 (\<lambda>str. LP (pt_cdma_usr_update (put_str str))),
      LStr ''cdmapwd'' 32 (\<lambda>str. LP (pt_cdma_pwd_update (put_str str))),
      LHex ''norpwd'' 3 (\<lambda>bs. LP (pt_nor_pwd_update (put_front bs))),
      LHex ''compwd'' 3 (\<lambda>bs. LP (pt_com_pwd_update (put_front bs))),
      LHex ''admpwd'' 3 (\<lambda>bs. LP (pt_adm_pwd_update (put_front bs))),
      byte_step ''search_device'' 0 pt_search_device_update,
      byte_step ''taskstarthour'' 1 pt_task_starthour_update,
      byte_step ''taskstartdev'' 1 pt_task_startdev_update,
      byte_step ''plcroutetype'' 0 pt_plc_route_type_update,
      LHex ''gatelinewaste'' 2 (\<lambda>bs. LP (pt_gate_linewaste_update (put_front bs))),
      byte_step ''hourupimpdata'' 0xff pt_hour_upimpdata_update,
      byte_step ''hourupdaydata'' 0xff pt_hour_updaydata_update,
      LInt ''alarmflag'' 0 (\<lambda>i. LP (pt_alarm_flag_update (\<lambda>_. word_of_int i))),
      LHex ''cascadeaddr'' 16 (\<lambda>bs. map_prod id (put_front bs)),
      LDo (\<lambda>(p, tmpbuf). (p\<lparr>pt_cascade_addr := Cascade_AddrChange tmpbuf (pt_cascade_addr p) 1\<rparr>, tmpbuf)),
      byte_step ''AutoFlag'' 1 pt_autoflag_update,
      LStr ''RegeCode'' 13 (\<lambda>str. LP (pt_register_code_update (put_str str))),
      LDo (LP (\<lambda>p. p\<lparr>pt_autoflag := (if cstr (pt_register_code p) = ''000000000000'' then 1 else 0)\<rparr>)),
      LDo (LP (\<lambda>p. p\<lparr>pt_autoflag := 1\<rparr>)),
      byte_step ''cascadeflag'' 1 pt_cascade_flag_update,
      byte_step ''dayreadmondata'' 1 pt_day_read_mondata_update,
      byte_step ''hourreadmondata'' 1 pt_hour_read_mondata_update,
      byte_step ''dayupmondata'' 3 pt_day_up_mondata_update,
      byte_step ''hourupmondata'' 5 pt_hour_up_mondata_update,
      LHex ''peibian_addr'' 4 (\<lambda>bs. map_prod id (put_front bs)),
      LDo (\<lambda>(p, tmpbuf). (p\<lparr>pt_peibian_addr := Cascade_AddrChange tmpbuf (pt_peibian_addr p) 0\<rparr>, tmpbuf)),
      LHex ''ct'' 2 (\<lambda>bs. LP (pt_ct_update (put_front bs)))] @
     concat (map port_loads [0..<MAX_485PORT])"

text \<open>The answer is whether a file was read.\<close>

definition LoadParaTerm ::
    "(string \<Rightarrow> string option) \<Rightarrow> (string \<Rightarrow> bytes option) \<Rightarrow> string \<Rightarrow> bytes \<Rightarrow> para_term_tG \<Rightarrow> xinref_t \<Rightarrow>
     xin_stop + (bool \<times> para_term_tG \<times> xinref_t)" where
  "LoadParaTerm uci gethostbyname str tmpbuf p x =
     (let p = LoadUci uci gethostbyname str (LoadDefParaTerm p) in
      case (case XinOpen TERM_FILE CHR ''r'' x of
              Inr (False, x) \<Rightarrow> XinOpen TERM_BAK CHR ''r'' x
            | r \<Rightarrow> r) of
        Inl s \<Rightarrow> Inl s
      | Inr (False, x) \<Rightarrow> Inr (False, p, x)
      | Inr (True, x) \<Rightarrow>
          (case load_steps term_loads (x, p, tmpbuf) of
             Inl s \<Rightarrow> Inl s
           | Inr (x, p, _) \<Rightarrow> Inr (True, p, XinClose x)))"

subsection \<open>Specification\<close>

text \<open>The lines that are written and the lines that are read: the sequence of the indices of the
  lines that a sequence of reads finds depends on the names only.\<close>

fun save_line :: "save \<Rightarrow> string \<times> string" where
  "save_line (SInt n i) = (n, dec_int i)"
| "save_line (SStr n s) = (n, cstr s)"
| "save_line (SHex n bs) = (n, concat (map hex2 bs))"

fun load_name :: "'p load \<Rightarrow> string option" where
  "load_name (LInt n _ _) = Some n"
| "load_name (LStr n _ _) = Some n"
| "load_name (LHex n _ _) = Some n"
| "load_name (LDo _) = None"

definition seek_name :: "string list \<Rightarrow> nat \<Rightarrow> string \<Rightarrow> nat option" where
  "seek_name ns i m = find (\<lambda>j. same_name (ns ! j) m) ([i..<length ns] @ [0..<i])"

fun trace :: "string list \<Rightarrow> nat \<Rightarrow> string option list \<Rightarrow> nat option list" where
  "trace ns i [] = []"
| "trace ns i (None # ms) = None # trace ns i ms"
| "trace ns i (Some m # ms) =
     (case seek_name ns i m of
        Some k \<Rightarrow> Some k # trace ns (Suc k) ms
      | None \<Rightarrow> None # trace ns (max i 1) ms)"

fun load_apply :: "(string \<times> string) list \<Rightarrow> 'p load list \<Rightarrow> nat option list \<Rightarrow> 'p \<Rightarrow> 'p" where
  "load_apply ls [] ks p = p"
| "load_apply ls (s # ss) [] p = p"
| "load_apply ls (LDo f # ss) (k # ks) p = load_apply ls ss ks (f p)"
| "load_apply ls (LInt n d u # ss) (k # ks) p =
     load_apply ls ss ks (u (case k of None \<Rightarrow> d | Some k \<Rightarrow> XinStrToInt (snd (ls ! k))) p)"
| "load_apply ls (LStr n m u # ss) (k # ks) p =
     load_apply ls ss ks (case k of None \<Rightarrow> p | Some k \<Rightarrow> u (take (nat (m - 1)) (snd (ls ! k))) p)"
| "load_apply ls (LHex n m u # ss) (k # ks) p =
     load_apply ls ss ks (case k of None \<Rightarrow> p | Some k \<Rightarrow> u (XinStrToHex (snd (ls ! k)) m) p)"

definition at_line :: "(string \<times> string) list \<Rightarrow> nat \<Rightarrow> xinref_t \<Rightarrow> bool" where
  "at_line ls i x \<longleftrightarrow> xr_openflag x = CHR ''r'' \<and> (\<exists>rest. xr_buffer x = xin_text ls @ CHR 0x00 # rest) \<and>
     ls \<noteq> [] \<and> (\<forall>l \<in> set ls. line_ok l) \<and> i \<le> length ls \<and> xr_pscan x = line_pos ls i"

definition load_ok :: "'p load \<Rightarrow> bool" where
  "load_ok s = (case load_name s of None \<Rightarrow> True | Some n \<Rightarrow> name_ok n)"

definition term_names :: "string list" where
  "term_names = [''svraddrflag'', ''svraddrIp'', ''svrport'', ''svraddrIp2'', ''svrport2'', ''svraddrIp3'', ''svrport3'',
     ''smsaddr'', ''gateaddr'', ''gateport'', ''apn'', ''cdmausr'', ''cdmapwd'', ''norpwd'', ''compwd'', ''admpwd'',
     ''search_device'', ''taskstarthour'', ''taskstartdev'', ''plcroutetype'', ''gatelinewaste'', ''hourupimpdata'',
     ''hourupdaydata'', ''alarmflag'', ''cascadeaddr'', ''cascadeflag'', ''dayreadmondata'', ''hourreadmondata'',
     ''dayupmondata'', ''hourupmondata'', ''peibian_addr'', ''ct'',
     ''baud0'', ''databits0'', ''stopbits0'', ''parity0'', ''func0'',
     ''baud1'', ''databits1'', ''stopbits1'', ''parity1'', ''func1'',
     ''baud2'', ''databits2'', ''stopbits2'', ''parity2'', ''func2'']"

definition read_names :: "string option list" where
  "read_names = map load_name term_loads"

definition read_lines :: "nat option list" where
  "read_lines =
   [Some 0, Some 1, Some 2, None, Some 3, Some 4, None, Some 5, Some 6,
    Some 8, Some 9, Some 7, Some 10, Some 11, Some 12, Some 13, Some 14,
    Some 15, Some 16, Some 17, Some 18, Some 19, Some 20, Some 21, Some 22,
    Some 23, Some 24, None, None, None, None, None, Some 25, Some 26, Some 27,
    Some 28, Some 29, Some 30, None, Some 31, Some 32, Some 33, Some 34,
    Some 35, Some 36, Some 37, Some 38, Some 39, Some 40, Some 41, Some 42,
    Some 43, Some 44, Some 45, Some 46]"

text \<open>What is read back: the fields of \<open>p\<close> that are saved, over the fields of \<open>d\<close>.\<close>

definition restored_addr :: "u8 \<Rightarrow> bytes \<Rightarrow> bytes \<Rightarrow> bytes" where
  "restored_addr chn a d = set_port (sa_port a) (set_ip (sa_ip a) (set_chn chn d))"

definition restored_port :: "para_term_tG \<Rightarrow> nat \<Rightarrow> portcfg_t list \<Rightarrow> portcfg_t list" where
  "restored_port p i ps = ps[i := (pt_port p ! i)\<lparr>pc_valid := pc_valid (ps ! i)\<rparr>]"

definition restored :: "para_term_tG \<Rightarrow> para_term_tG \<Rightarrow> para_term_tG" where
  "restored p d = d\<lparr>
     pt_svraddr := restored_addr (sa_chn (pt_svraddr p)) (pt_svraddr p) (pt_svraddr d),
     pt_svraddr_1 := restored_addr 4 (pt_svraddr_1 p) (pt_svraddr_1 d),
     pt_svraddr_2 := restored_addr 4 (pt_svraddr_2 p) (pt_svraddr_2 d),
     pt_gate_addr := set_port (sa_port (pt_gate_addr p)) (set_ip (sa_ip (pt_gate_addr p)) (pt_gate_addr d)),
     pt_sms_addr := put_front (take 8 (pt_sms_addr p)) (pt_sms_addr d),
     pt_apn := put_str (cstr (pt_apn p)) (pt_apn d),
     pt_cdma_usr := put_str (cstr (pt_cdma_usr p)) (pt_cdma_usr d),
     pt_cdma_pwd := put_str (cstr (pt_cdma_pwd p)) (pt_cdma_pwd d),
     pt_nor_pwd := pt_nor_pwd p,
     pt_com_pwd := put_front (take 3 (pt_com_pwd p)) (pt_com_pwd d),
     pt_adm_pwd := pt_adm_pwd p,
     pt_search_device := pt_search_device p,
     pt_task_starthour := pt_task_starthour p,
     pt_task_startdev := pt_task_startdev p,
     pt_plc_route_type := pt_plc_route_type p,
     pt_gate_linewaste := pt_gate_linewaste p,
     pt_hour_upimpdata := pt_hour_upimpdata p,
     pt_hour_updaydata := pt_hour_updaydata p,
     pt_alarm_flag := pt_alarm_flag p,
     pt_cascade_addr := pt_cascade_addr p,
     pt_autoflag := 1,
     pt_cascade_flag := pt_cascade_flag p,
     pt_day_read_mondata := pt_day_read_mondata p,
     pt_hour_read_mondata := pt_hour_read_mondata p,
     pt_day_up_mondata := pt_day_up_mondata p,
     pt_hour_up_mondata := pt_hour_up_mondata p,
     pt_peibian_addr := pt_peibian_addr p,
     pt_ct := pt_ct p,
     pt_port := fold (restored_port p) [0..<MAX_485PORT] (pt_port d)\<rparr>"

text \<open>The lengths of the arrays.\<close>

definition para_shape :: "para_term_tG \<Rightarrow> bool" where
  "para_shape p \<longleftrightarrow>
     length (pt_svraddr p) = 10 \<and> length (pt_svraddr_1 p) = 10 \<and> length (pt_svraddr_2 p) = 10 \<and> length (pt_gate_addr p) = 10 \<and>
     length (pt_sms_addr p) = 16 \<and> length (pt_apn p) = 16 \<and> length (pt_cdma_usr p) = 32 \<and> length (pt_cdma_pwd p) = 32 \<and>
     length (pt_nor_pwd p) = 3 \<and> length (pt_com_pwd p) = 4 \<and> length (pt_adm_pwd p) = 3 \<and> length (pt_gate_linewaste p) = 2 \<and>
     length (pt_cascade_addr p) = 16 \<and> length (pt_peibian_addr p) = 4 \<and> length (pt_ct p) = 2 \<and> length (pt_port p) = 7 \<and>
     length (pt_deviceid p) = 8"

definition str_ok :: "string \<Rightarrow> bool" where
  "str_ok s \<longleftrightarrow> CHR 0x00 \<in> set s \<and> take 1 (cstr s) \<noteq> ''=''"

definition term_lines :: "para_term_tG \<Rightarrow> (string \<times> string) list" where
  "term_lines p = map save_line (term_saves p)"

definition strs_ok :: "para_term_tG \<Rightarrow> bool" where
  "strs_ok p \<longleftrightarrow> str_ok (pt_apn p) \<and> str_ok (pt_cdma_usr p) \<and> str_ok (pt_cdma_pwd p)"

definition term_file :: "para_term_tG \<Rightarrow> bytes" where
  "term_file p = xin_head (xin_text (term_lines p)) @ bytes_of (xin_text (term_lines p))"

definition xin_ready :: "xinref_t \<Rightarrow> bool" where
  "xin_ready x \<longleftrightarrow> \<not> xr_locked x \<and> length (xr_buffer x) = XIN_MAXSIZE + 128"

definition example_para :: para_term_tG where
  "example_para = \<lparr>pt_svraddr = replicate 10 4, pt_svraddr_1 = replicate 10 5, pt_svraddr_2 = replicate 10 6, pt_sms_addr = replicate 16 1,
     pt_gate_addr = replicate 10 7, pt_apn = ''CMNET'' @ replicate 11 CHR 0x00, pt_MusicState = 0, pt_deviceid = replicate 8 0,
     pt_ledscreenPort = 0, pt_strledscreenaddr = replicate 16 CHR 0x00, pt_strmusicpwd = replicate 16 CHR 0x00, pt_music_volume = 0,
     pt_first_start = 0, pt_Musicmonth = 0, pt_login_update_system = 0, pt_login_down_musice = 0,
     pt_cdma_usr = replicate 32 CHR 0x00, pt_cdma_pwd = replicate 32 CHR 0x00, pt_nor_pwd = [1, 2, 3], pt_com_pwd = [1, 2, 3, 4],
     pt_adm_pwd = [1, 2, 3], pt_search_device = 9, pt_task_starthour = 8, pt_task_startdev = 7, pt_plc_route_type = 6,
     pt_gate_linewaste = [5, 4], pt_hour_upimpdata = 3, pt_hour_updaydata = 2, pt_alarm_flag = 0xffffffff, pt_cascade_addr = replicate 16 1,
     pt_cascade_flag = 0, pt_day_read_mondata = 28, pt_hour_read_mondata = 23, pt_day_up_mondata = 1, pt_hour_up_mondata = 2,
     pt_peibian_addr = [1, 2, 3, 4], pt_device_code = replicate 16 CHR 0x00, pt_ct = [1, 2], pt_autoflag = 0,
     pt_register_code = replicate 13 CHR 0x00,
     pt_camerainfo = replicate 4 \<lparr>cam_index = 1, cam_nchanel = 0, cam_fac_type = 0, cam_net_port = 0, cam_net_addr = [], cam_username = [],
       cam_password = [], cam_videoname = []\<rparr>,
     pt_port = replicate 7 \<lparr>pc_valid = 0, pc_baud = 1, pc_parity = 2, pc_databits = 3, pc_stopbits = 4, pc_func = 5\<rparr>\<rparr>"

subsection \<open>Lemmas\<close>

lemma seek_name_seek: "seek ls i m = seek_name (map fst ls) i m" if "i \<le> length ls"
proof -
  have c: "find P xs = find Q xs" if "\<And>x. x \<in> set xs \<Longrightarrow> P x = Q x" for P Q and xs :: "nat list"
    using that by (induction xs) auto
  show ?thesis unfolding seek_def seek_name_def using that by (auto intro!: c simp: is_line_def)
qed

lemma FindVariable_at_line:
  assumes "at_line ls i x" "name_ok m"
  shows "\<exists>y. at_line ls (case seek_name (map fst ls) i m of Some k \<Rightarrow> Suc k | None \<Rightarrow> max i 1) y \<and> 
    FindVariable x m = Inr (map_option (\<lambda>k. snd (ls ! k)) (seek_name (map fst ls) i m), y)"
proof -
  obtain rest where r: "xr_buffer x = xin_text ls @ CHR 0x00 # rest" using assms by (auto simp: at_line_def)
  have a: "\<forall>l \<in> set ls. line_ok l" "ls \<noteq> []" "i \<le> length ls" "xr_pscan x = line_pos ls i" "xr_openflag x = CHR ''r''"
    using assms by (auto simp: at_line_def)
  have k: "Suc k \<le> length ls" if "seek ls i m = Some k" for k using seek_less[OF a(3) that] by simp
  have "max i 1 \<le> length ls" using a(2,3) by (cases ls) auto
  then show ?thesis
    using FindVariable_seek[OF r a(1,2) assms(2) a(3,4)] r a k
    unfolding seek_name_seek[OF a(3), symmetric] at_line_def by (auto split: option.splits)
qed

lemma load_steps_apply:
  assumes "at_line ls i x" "\<forall>s \<in> set ss. load_ok s"
  shows "\<exists>y j. load_steps ss (x, p) = Inr (y, load_apply ls ss (trace (map fst ls) i (map load_name ss)) p) \<and> at_line ls j y"
  using assms
proof (induction ss arbitrary: i x p)
  case (Cons s ss)
  have o: "xr_openflag x = CHR ''r''" using Cons.prems by (simp add: at_line_def)
  show ?case
  proof (cases "load_name s")
    case None
    then obtain f where "s = LDo f" by (cases s) auto
    then show ?thesis using Cons by auto
  next
    case (Some n)
    then have n: "name_ok n" using Cons.prems by (simp add: load_ok_def)
    obtain y where y: "at_line ls (case seek_name (map fst ls) i n of Some k \<Rightarrow> Suc k | None \<Rightarrow> max i 1) y"
        "FindVariable x n = Inr (map_option (\<lambda>k. snd (ls ! k)) (seek_name (map fst ls) i n), y)"
      using FindVariable_at_line[OF Cons.prems(1) n] by blast
    show ?thesis
      using Cons.IH[OF y(1)] Cons.prems Some y(2) o
      by (cases s) (auto simp: XinReadInt_def XinReadString_def XinReadHex_def split: option.splits)
  qed
qed auto

text \<open>Writing succeeds when there is room.\<close>

lemma xin_append_fits:
  assumes "wrote ls x" "length (xin_text ls) + length text < XIN_MAXSIZE"
  shows "\<exists>y. xin_append x text = Inr (0, y)"
  using assms wrote_length[OF assms(1)] by (auto simp: xin_append_def wrote_def put_at_def Let_def)

lemma write_hex_loop_fits:
  assumes "p \<le> s" "s + 2 * length bs < XIN_MAXSIZE" "length b = XIN_MAXSIZE + 128"
  shows "\<exists>b' q. write_hex_loop b p s bs = Inr (b', Some q)"
  using assms
proof (induction bs arbitrary: b p s)
  case (Cons h bs)
  have "length (hex2 h) = 2" by (simp add: hex2_def)
  then obtain c where c: "put_at b p (hex2 h @ [CHR 0x00]) = Some c" using Cons.prems by (auto simp: put_at_def)
  then show ?case using Cons.IH[of "p + 2" "s + 2" c] Cons.prems put_at_length[OF c] by simp
qed auto

lemma save_step_wrote:
  assumes w: "wrote ls x" and n: "name_ok (fst (save_line s))" and fit: "length (xin_text (ls @ [save_line s])) < XIN_MAXSIZE"
  shows "\<exists>y. save_step s x = Inr y \<and> wrote (ls @ [save_line s]) y \<and> xr_fs y = xr_fs x \<and> xr_filename y = xr_filename x"
proof -
  obtain n v where l: "save_line s = (n, v)" by fastforce
  have f: "length (xin_text ls) + length (n @ CHR ''='' # v) < XIN_MAXSIZE" using fit l by (simp add: xin_text_snoc)
  have nn: "no_nul n" "xr_openflag x = CHR ''w''" using n l w by (simp_all add: name_ok_def wrote_def)
  obtain y where y: "xin_append x (n @ CHR ''='' # v) = Inr (0, y)" using xin_append_fits[OF w f] by blast
  show ?thesis
  proof (cases s)
    case (SHex m bs)
    then have m: "m = n" "v = concat (map hex2 bs)" using l by simp_all
    have p: "xr_pscan x = xr_len x" "length (xr_buffer x) = XIN_MAXSIZE + 128" using w by (simp_all add: wrote_def)
    obtain b where b: "put_at (xr_buffer x) (xr_pscan x) ((n @ ''='') @ [CHR 0x00]) = Some b"
      using p wrote_length[OF w] f by (auto simp: put_at_def)
    have "\<exists>b' q. write_hex_loop b (xr_pscan x + length (n @ ''='')) (xr_len x + length (n @ ''='')) bs = Inr (b', Some q)"
      by (rule write_hex_loop_fits) (use p wrote_length[OF w] f m length_concat_hex2[of bs] put_at_length[OF b] in simp_all)
    then obtain z where z: "XinWriteHex x n bs = Inr (0, z)"
      using b wrote_length[OF w] f nn by (auto simp: XinWriteHex_def Let_def)
    show ?thesis using XinWriteHex_wrote[OF w z nn(1)] z SHex m l by auto
  next
    case (SInt m i)
    then show ?thesis using xin_append_wrote[OF w y] y l nn by (auto simp: XinWriteInt_def)
  next
    case (SStr m t)
    then show ?thesis using xin_append_wrote[OF w y] y l nn by (auto simp: XinWriteString_def)
  qed
qed

lemma length_xin_text_append: "length (xin_text (ls @ ms)) = length (xin_text ls) + length (xin_text ms)"
  by (simp add: xin_text_append)

lemma save_steps_wrote:
  assumes "wrote ls x" "\<forall>s \<in> set ss. name_ok (fst (save_line s))" "length (xin_text (ls @ map save_line ss)) < XIN_MAXSIZE"
  shows "\<exists>y. save_steps ss x = Inr y \<and> wrote (ls @ map save_line ss) y \<and> xr_fs y = xr_fs x \<and> xr_filename y = xr_filename x"
  using assms
proof (induction ss arbitrary: ls x)
  case (Cons s ss)
  have "length (xin_text (ls @ [save_line s])) < XIN_MAXSIZE"
    using Cons.prems(3) length_xin_text_append[of "ls @ [save_line s]" "map save_line ss"] by simp
  then obtain y where y: "save_step s x = Inr y" "wrote (ls @ [save_line s]) y" "xr_fs y = xr_fs x" "xr_filename y = xr_filename x"
    using save_step_wrote[OF Cons.prems(1), of s] Cons.prems(2) by auto
  then show ?case using Cons.IH[OF y(2)] Cons.prems(2,3) by simp
qed auto

lemma dec_small: "dec_nat 0 = ''0''" "dec_nat 1 = ''1''" "dec_nat 2 = ''2''"
  by code_simp+

lemma upt_ports: "[0..<MAX_485PORT] = [0, 1, 2]"
  by (simp add: MAX_485PORT_def upt_rec)

lemma save_names: "map fst (map save_line (term_saves p)) = term_names"
  unfolding term_names_def term_saves_def port_saves_def upt_ports by (simp add: dec_small Let_def flip: One_nat_def)

lemmas load_defs = chn_step_def ip_step_def port_step_def byte_step_def port_loads_def

lemma read_names_eq: "read_names =
   [Some ''svraddrflag'', Some ''svraddrIp'', Some ''svrport'', Some ''svraddrflag1'', Some ''svraddrIp1'', Some ''svrport1'',
    Some ''svraddrflag2'', Some ''svraddrIp2'', Some ''svrport2'', Some ''gateaddr'', Some ''gateport'', Some ''smsaddr'',
    Some ''apn'', Some ''cdmausr'', Some ''cdmapwd'', Some ''norpwd'', Some ''compwd'', Some ''admpwd'', Some ''search_device'',
    Some ''taskstarthour'', Some ''taskstartdev'', Some ''plcroutetype'', Some ''gatelinewaste'', Some ''hourupimpdata'',
    Some ''hourupdaydata'', Some ''alarmflag'', Some ''cascadeaddr'', None, Some ''AutoFlag'', Some ''RegeCode'', None, None,
    Some ''cascadeflag'', Some ''dayreadmondata'', Some ''hourreadmondata'', Some ''dayupmondata'', Some ''hourupmondata'',
    Some ''peibian_addr'', None, Some ''ct'',
    Some ''baud0'', Some ''databits0'', Some ''stopbits0'', Some ''parity0'', Some ''func0'',
    Some ''baud1'', Some ''databits1'', Some ''stopbits1'', Some ''parity1'', Some ''func1'',
    Some ''baud2'', Some ''databits2'', Some ''stopbits2'', Some ''parity2'', Some ''func2'']"
  unfolding read_names_def term_loads_def load_defs upt_ports by (simp add: dec_small flip: One_nat_def)

lemma trace_read: "trace term_names 0 read_names = read_lines"
  unfolding read_names_eq read_lines_def by code_simp

text \<open>An address survives being printed and read.\<close>

lemma ip_loop_digits:
  "list_all is_digit ds \<Longrightarrow> ip_loop (ds @ str) idx i ip = ip_loop str idx (foldl (\<lambda>n c. n * 10 + int (digit_val c)) i ds) ip"
proof (induction ds arbitrary: i)
  case (Cons d ds)
  have "d \<noteq> CHR ''.''" using Cons.prems by (auto simp: is_digit_def)
  then show ?case using Cons by simp
qed simp

lemma foldl_digits: "foldl (\<lambda>n c. n * 10 + int (digit_val c)) (int k) ds = int (foldl (\<lambda>n c. 10 * n + digit_val c) k ds)"
proof (induction ds arbitrary: k)
  case (Cons d ds)
  have "int k * 10 + int (digit_val d) = int (10 * k + digit_val d)" by simp
  then show ?case by (simp only: foldl.simps Cons)
qed simp

lemma ip_loop_dec: "ip_loop (dec_nat n @ str) idx 0 ip = ip_loop str idx (int n) ip"
proof -
  have "foldl (\<lambda>m c. m * 10 + int (digit_val c)) 0 (dec_nat n) = int n"
    using foldl_digits[of 0 "dec_nat n"] read_dec_dec_nat[of n] by (simp add: read_dec_def)
  then show ?thesis by (simp add: ip_loop_digits[OF dec_nat_digits])
qed

lemma IpToString_no_nul: "no_nul (IpToString ip)"
  using dec_nat_chars by (auto simp: IpToString_def no_nul_def)

lemma StringToIp_IpToString: "length ip = 4 \<Longrightarrow> StringToIp (IpToString ip) = ip"
proof -
  assume "length ip = 4"
  then obtain a b c d where ip: "ip = [a, b, c, d]" by (auto simp: numeral_eq_Suc length_Suc_conv)
  have "ip_loop (dec_nat n) idx 0 q = q[idx := of_nat n]" for n idx q
    using ip_loop_dec[of n "[]"] by simp
  then show ?thesis
    unfolding StringToIp_def cstr_no_nul[OF IpToString_no_nul] by (simp add: IpToString_def ip ip_loop_dec)
qed

lemma dec_nat_length: "n < 10 ^ k \<Longrightarrow> 0 < k \<Longrightarrow> length (dec_nat n) \<le> k"
proof (induction n arbitrary: k rule: dec_nat.induct)
  case (1 n)
  show ?case
  proof (cases "n < 10")
    case True
    then show ?thesis using 1 by (subst dec_nat.simps) simp
  next
    case False
    then obtain j where j: "k = Suc j" "0 < j" using 1(2,3) by (cases k; cases "k - 1") auto
    then have "length (dec_nat (n div 10)) \<le> j" using 1 False by (intro 1(1)) (simp_all add: less_mult_imp_div_less mult.commute)
    then show ?thesis using j False by (subst dec_nat.simps) simp
  qed
qed

lemma dec_u8_length: "length (dec_nat (unat (b :: u8))) \<le> 3"
proof -
  have "unat b < 2 ^ LENGTH(8)" by (rule unsigned_less)
  then have "unat b < 10 ^ 3" by (rule less_le_trans) simp
  then show ?thesis by (rule dec_nat_length) simp
qed

lemma IpToString_length: "length (IpToString ip) \<le> 15"
  using dec_u8_length[of "ip ! 0"] dec_u8_length[of "ip ! 1"] dec_u8_length[of "ip ! 2"] dec_u8_length[of "ip ! 3"]
  by (simp add: IpToString_def)

lemma XinStrToInt_dec: "- 2147483648 \<le> i \<Longrightarrow> i < 2147483648 \<Longrightarrow> XinStrToInt (dec_int i) = i"
  using XinStrToInt_text[of i False] by (simp add: value_text_def value_ok_def)

lemma XinStrToInt_u8: "XinStrToInt (dec_int (uint (b :: u8))) = uint b"
  using uint_range_size[of b] by (intro XinStrToInt_dec) (auto simp: word_size intro: order_trans[OF _ uint_range_size[THEN conjunct1]])

lemma XinStrToInt_u16: "XinStrToInt (dec_int (uint (b :: u16))) = uint b"
  using uint_range_size[of b] by (intro XinStrToInt_dec) (auto simp: word_size intro: order_trans[OF _ uint_range_size[THEN conjunct1]])

lemma XinStrToInt_s32: "XinStrToInt (dec_int (sint (b :: u32))) = sint b"
  using sint_range_size[of b] by (intro XinStrToInt_dec) (auto simp: word_size)

lemma upt_lists: "[0..<8] = [0, 1, 2, 3, 4, 5, 6, 7 :: nat]" "[0..<4] = [0, 1, 2, 3 :: nat]"
    "[0..<16] = [0, 1, 2, 3, 4, 5, 6, 7, 8, 9, 10, 11, 12, 13, 14, 15 :: nat]"
  by code_simp+

lemma length_16E:
  assumes "length xs = 16"
  obtains a b c d e f g h i j k l m n p q where "xs = [a, b, c, d, e, f, g, h, i, j, k, l, m, n, p, q]"
proof -
  have "xs = map ((!) xs) [0..<16]" using map_nth[of xs] assms by simp
  then show thesis using that unfolding upt_lists list.map by blast
qed

lemma sms_restored:
  assumes "length ph = 16" "length d = 16"
  shows "sms_phone_tonormal 8 (sms_phone_tounnor ph) d = put_front (take 8 ph) d"
  by (rule length_16E[OF assms(1)], rule length_16E[OF assms(2)])
    (simp add: sms_phone_tonormal_def sms_phone_tounnor_def put_front_def upt_lists)

lemma cascade_restored:
  assumes "length c = 16" "length t = 16" "length d = 16"
  shows "Cascade_AddrChange (put_front (Cascade_AddrChange c [] 1) t) d 1 = c"
  by (rule length_16E[OF assms(1)], rule length_16E[OF assms(2)], rule length_16E[OF assms(3)])
    (simp add: Cascade_AddrChange_def put_front_def swap23_def upt_lists)

lemma peibian_restored:
  assumes "length c = 4" "length d = 4"
  shows "Cascade_AddrChange (put_front (take 4 (Cascade_AddrChange c [] 0)) t) d 0 = c"
  using assms by (auto simp: Cascade_AddrChange_def put_front_def swap23_def numeral_eq_Suc length_Suc_conv)

lemma length_Cascade: "length c = 16 \<Longrightarrow> length (Cascade_AddrChange c [] 1) = 16"
  "length c = 4 \<Longrightarrow> length (Cascade_AddrChange c [] 0) = 4"
  by (simp_all add: Cascade_AddrChange_def put_front_def swap23_def upt_lists)

lemma term_lines_eq: "term_lines p =
   [(''svraddrflag'', dec_int (uint (sa_chn (pt_svraddr p)))),
    (''svraddrIp'', IpToString (sa_ip (pt_svraddr p))),
    (''svrport'', dec_int (uint (sa_port (pt_svraddr p)))),
    (''svraddrIp2'', IpToString (sa_ip (pt_svraddr_1 p))),
    (''svrport2'', dec_int (uint (sa_port (pt_svraddr_1 p)))),
    (''svraddrIp3'', IpToString (sa_ip (pt_svraddr_2 p))),
    (''svrport3'', dec_int (uint (sa_port (pt_svraddr_2 p)))),
    (''smsaddr'', concat (map hex2 (sms_phone_tounnor (pt_sms_addr p)))),
    (''gateaddr'', IpToString (sa_ip (pt_gate_addr p))),
    (''gateport'', dec_int (uint (sa_port (pt_gate_addr p)))),
    (''apn'', cstr (pt_apn p)),
    (''cdmausr'', cstr (pt_cdma_usr p)),
    (''cdmapwd'', cstr (pt_cdma_pwd p)),
    (''norpwd'', concat (map hex2 (take 3 (pt_nor_pwd p)))),
    (''compwd'', concat (map hex2 (take 3 (pt_com_pwd p)))),
    (''admpwd'', concat (map hex2 (take 3 (pt_adm_pwd p)))),
    (''search_device'', dec_int (uint (pt_search_device p))),
    (''taskstarthour'', dec_int (uint (pt_task_starthour p))),
    (''taskstartdev'', dec_int (uint (pt_task_startdev p))),
    (''plcroutetype'', dec_int (uint (pt_plc_route_type p))),
    (''gatelinewaste'', concat (map hex2 (take 2 (pt_gate_linewaste p)))),
    (''hourupimpdata'', dec_int (uint (pt_hour_upimpdata p))),
    (''hourupdaydata'', dec_int (uint (pt_hour_updaydata p))),
    (''alarmflag'', dec_int (sint (pt_alarm_flag p))),
    (''cascadeaddr'', concat (map hex2 (Cascade_AddrChange (pt_cascade_addr p) [] 1))),
    (''cascadeflag'', dec_int (uint (pt_cascade_flag p))),
    (''dayreadmondata'', dec_int (uint (pt_day_read_mondata p))),
    (''hourreadmondata'', dec_int (uint (pt_hour_read_mondata p))),
    (''dayupmondata'', dec_int (uint (pt_day_up_mondata p))),
    (''hourupmondata'', dec_int (uint (pt_hour_up_mondata p))),
    (''peibian_addr'', concat (map hex2 (take 4 (Cascade_AddrChange (pt_peibian_addr p) [] 0)))),
    (''ct'', concat (map hex2 (take 2 (pt_ct p)))),
    (''baud0'', dec_int (uint (pc_baud (pt_port p ! 0)))), (''databits0'', dec_int (uint (pc_databits (pt_port p ! 0)))),
    (''stopbits0'', dec_int (uint (pc_stopbits (pt_port p ! 0)))), (''parity0'', dec_int (uint (pc_parity (pt_port p ! 0)))),
    (''func0'', dec_int (uint (pc_func (pt_port p ! 0)))),
    (''baud1'', dec_int (uint (pc_baud (pt_port p ! 1)))), (''databits1'', dec_int (uint (pc_databits (pt_port p ! 1)))),
    (''stopbits1'', dec_int (uint (pc_stopbits (pt_port p ! 1)))), (''parity1'', dec_int (uint (pc_parity (pt_port p ! 1)))),
    (''func1'', dec_int (uint (pc_func (pt_port p ! 1)))),
    (''baud2'', dec_int (uint (pc_baud (pt_port p ! 2)))), (''databits2'', dec_int (uint (pc_databits (pt_port p ! 2)))),
    (''stopbits2'', dec_int (uint (pc_stopbits (pt_port p ! 2)))), (''parity2'', dec_int (uint (pc_parity (pt_port p ! 2)))),
    (''func2'', dec_int (uint (pc_func (pt_port p ! 2))))]"
  unfolding term_lines_def term_saves_def port_saves_def upt_ports
  by (simp add: dec_small Let_def IpToString_no_nul flip: One_nat_def)

lemma XinStrToHex_hex2: "length bs = n \<Longrightarrow> XinStrToHex (concat (map hex2 bs)) n = bs"
  using XinStrToHex_text[of bs] by simp

lemma ip_line: "IpToString ip \<noteq> []" "take 23 (IpToString ip) = IpToString ip"
  using IpToString_length[of ip] by (simp_all add: IpToString_def)

lemmas value_simps = XinStrToInt_u8 XinStrToInt_u16 XinStrToInt_s32 XinStrToHex_hex2 ip_line StringToIp_IpToString

lemma cstr_length: "CHR 0x00 \<in> set s \<Longrightarrow> length (cstr s) < length s"
  unfolding cstr_def by (induction s) auto

lemma str_ok_length: "str_ok s \<Longrightarrow> length (cstr s) < length s"
  by (simp add: str_ok_def cstr_length)

lemma take_cstr: "str_ok s \<Longrightarrow> length s \<le> Suc n \<Longrightarrow> take n (cstr s) = cstr s"
  using str_ok_length[of s] by simp

lemma sa_ip_length: "length a = 10 \<Longrightarrow> length (sa_ip a) = 4"
  by (simp add: sa_ip_def)

lemma port_restored:
  "c\<lparr>pc_baud := pc_baud x, pc_databits := pc_databits x, pc_stopbits := pc_stopbits x, pc_parity := pc_parity x, pc_func := pc_func x\<rparr>
    = x\<lparr>pc_valid := pc_valid (c :: portcfg_t)\<rparr>"
  by (rule portcfg_t.equality) simp_all

lemma load_result:
  assumes "para_shape p" "para_shape d" "length tmp = 16" "str_ok (pt_apn p)" "str_ok (pt_cdma_usr p)" "str_ok (pt_cdma_pwd p)"
  shows "fst (load_apply (term_lines p) term_loads read_lines (d, tmp)) = restored p d"
proof -
  have l: "length (pt_svraddr p) = 10" "length (pt_svraddr_1 p) = 10" "length (pt_svraddr_2 p) = 10" "length (pt_gate_addr p) = 10"
     "length (pt_sms_addr p) = 16" "length (pt_apn p) = 16" "length (pt_cdma_usr p) = 32" "length (pt_cdma_pwd p) = 32"
     "length (pt_nor_pwd p) = 3" "length (pt_com_pwd p) = 4" "length (pt_adm_pwd p) = 3" "length (pt_gate_linewaste p) = 2"
     "length (pt_cascade_addr p) = 16" "length (pt_peibian_addr p) = 4" "length (pt_ct p) = 2" "length (pt_port p) = 7"
     "length (pt_nor_pwd d) = 3" "length (pt_adm_pwd d) = 3" "length (pt_gate_linewaste d) = 2" "length (pt_cascade_addr d) = 16"
     "length (pt_peibian_addr d) = 4" "length (pt_ct d) = 2" "length (pt_port d) = 7" "length (pt_sms_addr d) = 16"
    using assms by (simp_all add: para_shape_def)
  have s: "take 15 (cstr (pt_apn p)) = cstr (pt_apn p)" "take 31 (cstr (pt_cdma_usr p)) = cstr (pt_cdma_usr p)"
     "take 31 (cstr (pt_cdma_pwd p)) = cstr (pt_cdma_pwd p)"
    using take_cstr assms(4-6) l(6-8) by simp_all
  have ip: "StringToIp (IpToString (sa_ip a)) = sa_ip a" if "length a = 10" for a
    using StringToIp_IpToString sa_ip_length that by simp
  have sms: "length (sms_phone_tounnor (pt_sms_addr p)) = 8" by (simp add: sms_phone_tounnor_def)
  have cas: "XinStrToHex (concat (map hex2 (Cascade_AddrChange (pt_cascade_addr p) [] 1))) 16 = Cascade_AddrChange (pt_cascade_addr p) [] 1"
     "XinStrToHex (concat (map hex2 (take 4 (Cascade_AddrChange (pt_peibian_addr p) [] 0)))) 4 = take 4 (Cascade_AddrChange (pt_peibian_addr p) [] 0)"
    by (rule XinStrToHex_hex2, use length_Cascade(1)[OF l(13)] length_Cascade(2)[OF l(14)] in simp)+
  have pf: "put_front xs ys = xs" if "length ys \<le> length xs" for xs ys :: bytes
    using that by (simp add: put_front_def)
  note v = XinStrToInt_u8 XinStrToInt_u16 XinStrToInt_s32 ip_line ip XinStrToHex_hex2 sms cas s l
  show ?thesis
    unfolding term_lines_eq term_loads_def load_defs upt_ports read_lines_def restored_def restored_addr_def
    by (simp add: v dec_small restored_port_def upd_port_def flip: One_nat_def, rule para_term_tG.equality)
      (simp_all add: l sms sms_restored cascade_restored[unfolded One_nat_def] peibian_restored pf port_restored assms(3))
qed

lemma xin_text_bound: "\<forall>l \<in> set ls. length (xin_line l) \<le> n \<Longrightarrow> length (xin_text ls) \<le> n * length ls"
  by (induction ls) (auto simp: xin_text_def)

lemma dec_text: "no_nul (dec_int i) \<and> take 1 (dec_int i) \<noteq> ''=''"
proof -
  have "no_nul (dec_nat n)" "take 1 (dec_nat n) \<noteq> ''=''" for n
    using dec_nat_chars[of _ n] unfolding no_nul_def by (blast, cases "dec_nat n") auto
  then show ?thesis by (auto simp: dec_int_def no_nul_def)
qed

lemma hex_text: "no_nul (concat (map hex2 bs)) \<and> take 1 (concat (map hex2 bs)) \<noteq> ''=''"
  using value_text_ok[of "XHex bs"] by (simp add: value_ok_def value_text_def)

lemma ip_text: "no_nul (IpToString ip) \<and> take 1 (IpToString ip) \<noteq> ''=''"
proof -
  obtain c cs where c: "dec_nat (unat (ip ! 0)) = c # cs" using dec_nat_nonempty[of "unat (ip ! 0)"] by (cases "dec_nat (unat (ip ! 0))") auto
  then have "c \<noteq> CHR ''=''" using dec_nat_chars[of c "unat (ip ! 0)"] by simp
  then show ?thesis using IpToString_no_nul[of ip] c by (simp add: IpToString_def)
qed

lemma no_nul_cstr: "no_nul (cstr s)"
  unfolding no_nul_def cstr_def by (auto dest: set_takeWhileD)

lemma str_text: "str_ok s \<Longrightarrow> no_nul (cstr s) \<and> take 1 (cstr s) \<noteq> ''=''"
  using no_nul_cstr unfolding str_ok_def by blast

lemma term_names_ok: "\<forall>n \<in> set term_names. name_ok n \<and> length n \<le> 15"
  by (simp add: term_names_def name_ok_def no_nul_def)

lemma line_okI: "name_ok n \<Longrightarrow> no_nul v \<and> take 1 v \<noteq> ''='' \<Longrightarrow> line_ok (n, v)"
  by (simp add: line_ok_def)

lemma term_line_names: "l \<in> set (term_lines p) \<Longrightarrow> name_ok (fst l) \<and> length (fst l) \<le> 15"
  using term_names_ok save_names[of p] unfolding term_lines_def by (metis image_eqI set_map)

lemma term_values:
  assumes "strs_ok p"
  shows "\<forall>l \<in> set (term_lines p). no_nul (snd l) \<and> take 1 (snd l) \<noteq> ''=''"
  using assms unfolding term_lines_eq strs_ok_def
  by (simp only: list.set ball_simps snd_conv dec_text hex_text ip_text str_text simp_thms)

lemma dec_int_length: "- 2147483648 \<le> i \<Longrightarrow> i < 65536 * 65536 \<Longrightarrow> length (dec_int i) \<le> 11"
proof -
  assume i: "- 2147483648 \<le> i" "i < 65536 * 65536"
  have "nat i < 10000000000" using i by linarith
  moreover have "nat (- i) < 10000000000" using i by linarith
  ultimately have "nat i < 10 ^ 10" "nat (- i) < 10 ^ 10" by simp_all
  then have "length (dec_nat (nat i)) \<le> 10" "length (dec_nat (nat (- i))) \<le> 10" by (intro dec_nat_length; simp)+
  then show ?thesis by (simp add: dec_int_def)
qed

lemma dec_lengths: "length (dec_int (uint (b :: u8))) \<le> 40" "length (dec_int (uint (w :: u16))) \<le> 40" "length (dec_int (sint (v :: u32))) \<le> 40"
proof -
  have "length (dec_int (uint b)) \<le> 11" using uint_range_size[of b] by (intro dec_int_length) (auto simp: word_size intro: order_trans[of _ 0])
  moreover have "length (dec_int (uint w)) \<le> 11" using uint_range_size[of w] by (intro dec_int_length) (auto simp: word_size intro: order_trans[of _ 0])
  moreover have "length (dec_int (sint v)) \<le> 11" using sint_range_size[of v] by (intro dec_int_length) (auto simp: word_size)
  ultimately show "length (dec_int (uint b)) \<le> 40" "length (dec_int (uint w)) \<le> 40" "length (dec_int (sint v)) \<le> 40" by simp_all
qed

lemma hex_lengths: "length bs \<le> 16 \<Longrightarrow> length (concat (map hex2 bs)) \<le> 40"
  by (simp only: length_concat_hex2)

lemma ip_length_40: "length (IpToString ip) \<le> 40"
  using IpToString_length[of ip] by simp

lemma term_value_lengths:
  assumes "strs_ok p" "para_shape p"
  shows "\<forall>l \<in> set (term_lines p). length (snd l) \<le> 40"
proof -
  have h: "length (sms_phone_tounnor (pt_sms_addr p)) \<le> 16" "length (take 3 (pt_nor_pwd p)) \<le> 16" "length (take 3 (pt_com_pwd p)) \<le> 16"
      "length (take 3 (pt_adm_pwd p)) \<le> 16" "length (take 2 (pt_gate_linewaste p)) \<le> 16" "length (take 2 (pt_ct p)) \<le> 16"
      "length (Cascade_AddrChange (pt_cascade_addr p) [] 1) \<le> 16" "length (take 4 (Cascade_AddrChange (pt_peibian_addr p) [] 0)) \<le> 16"
    using length_Cascade(1)[of "pt_cascade_addr p"] assms(2) by (simp_all add: para_shape_def sms_phone_tounnor_def)
  have s: "length (cstr (pt_apn p)) \<le> 40" "length (cstr (pt_cdma_usr p)) \<le> 40" "length (cstr (pt_cdma_pwd p)) \<le> 40"
    using str_ok_length[of "pt_apn p"] str_ok_length[of "pt_cdma_usr p"] str_ok_length[of "pt_cdma_pwd p"] assms
    by (simp_all add: strs_ok_def para_shape_def)
  show ?thesis unfolding term_lines_eq
    by (simp only: list.set ball_simps snd_conv dec_lengths ip_length_40 s hex_lengths[OF h(1)] hex_lengths[OF h(2)] hex_lengths[OF h(3)]
        hex_lengths[OF h(4)] hex_lengths[OF h(5)] hex_lengths[OF h(6)] hex_lengths[OF h(7)] hex_lengths[OF h(8)] simp_thms)
qed

lemma term_text_fits:
  assumes "strs_ok p" "para_shape p"
  shows "length (xin_text (term_lines p)) < XIN_MAXSIZE"
proof -
  have "\<forall>l \<in> set (term_lines p). length (xin_line l) \<le> 60"
    using term_value_lengths[OF assms] term_line_names by (fastforce simp: xin_line_def)
  from xin_text_bound[OF this] show ?thesis by (simp add: term_lines_eq XIN_MAXSIZE_def)
qed

lemma term_lines_ok: "strs_ok p \<Longrightarrow> \<forall>l \<in> set (term_lines p). line_ok l"
  using term_values term_line_names unfolding line_ok_def by blast

lemma term_lines_nonempty: "term_lines p \<noteq> []"
  by (simp add: term_lines_eq)

lemma term_loads_ok: "\<forall>s \<in> set term_loads. load_ok s"
proof -
  have "\<forall>n \<in> set read_names. case n of None \<Rightarrow> True | Some n \<Rightarrow> name_ok n"
    unfolding read_names_eq by (simp add: name_ok_def no_nul_def)
  then show ?thesis unfolding read_names_def load_ok_def by simp
qed

lemma SaveParaTerm_to_ok:
  assumes p: "strs_ok p" "para_shape p" and x: "xin_ready x" and f: "can_write (xr_fs x) file" "length file < XIN_MAXFILENAME"
  shows "\<exists>y. SaveParaTerm_to file p x = Inr (True, y) \<and> xr_fs y = fs_write file (term_file p) (xr_fs x) \<and> xin_ready y"
proof -
  define x1 where "x1 = x\<lparr>xr_openflag := CHR ''w'', xr_filename := file, xr_pscan := 0, xr_len := 0, xr_locked := True\<rparr>"
  have o: "XinOpen file CHR ''w'' x = Inr (True, x1)" using x f by (simp add: XinOpen_def xin_ready_def x1_def)
  have w: "wrote [] x1" using x by (simp add: wrote_def xin_text_def x1_def xin_ready_def)
  have "\<forall>s \<in> set (term_saves p). name_ok (fst (save_line s))" using term_line_names[of _ p] by (auto simp: term_lines_def)
  then obtain y where y: "save_steps (term_saves p) x1 = Inr y" "wrote (term_lines p) y" "xr_fs y = xr_fs x1" "xr_filename y = xr_filename x1"
    using save_steps_wrote[OF w, of "term_saves p"] term_text_fits[OF p] by (auto simp: term_lines_def)
  have c: "can_write (xr_fs y) (xr_filename y)" using y f by (simp add: x1_def)
  have "length (xr_buffer y) = XIN_MAXSIZE + 128" using y(2) by (simp add: wrote_def)
  then show ?thesis
    using XinClose_file[OF y(2) term_lines_nonempty c] o y by (simp add: SaveParaTerm_to_def term_file_def x1_def xin_ready_def)
qed

lemma term_file_lengths: "length TERM_FILE < XIN_MAXFILENAME" "length TERM_BAK < XIN_MAXFILENAME" "TERM_FILE \<noteq> TERM_BAK"
  by (simp_all add: TERM_FILE_def TERM_BAK_def XIN_MAXFILENAME_def)

lemma SaveParaTerm_ok:
  assumes p: "strs_ok p" "para_shape p" and x: "xin_ready x" and w: "can_write (xr_fs x) TERM_FILE" "can_write (xr_fs x) TERM_BAK"
  shows "\<exists>y. SaveParaTerm p x = Inr (0, y) \<and> xin_ready y \<and>
    xr_fs y = fs_write TERM_BAK (term_file p) (fs_write TERM_FILE (term_file p) (xr_fs x))"
proof -
  obtain y where y: "SaveParaTerm_to TERM_FILE p x = Inr (True, y)" "xr_fs y = fs_write TERM_FILE (term_file p) (xr_fs x)" "xin_ready y"
    using SaveParaTerm_to_ok[OF p x w(1) term_file_lengths(1)] by blast
  have "can_write (xr_fs y) TERM_BAK" using w(2) y(2) by (simp add: fs_write_def)
  then obtain z where "SaveParaTerm_to TERM_BAK p y = Inr (True, z)" "xr_fs z = fs_write TERM_BAK (term_file p) (xr_fs y)" "xin_ready z"
    using SaveParaTerm_to_ok[OF p y(3) _ term_file_lengths(2)] by blast
  then show ?thesis using y by (simp add: SaveParaTerm_def)
qed

lemma XinOpen_term:
  assumes p: "strs_ok p" "para_shape p" and z: "xin_ready z" "files (xr_fs z) f = Some (term_file p)" "length f < XIN_MAXFILENAME"
  shows "\<exists>y. XinOpen f CHR ''r'' z = Inr (True, y) \<and> at_line (term_lines p) 0 y"
proof -
  have "\<exists>y rest. XinOpen f CHR ''r'' z = Inr (True, y) \<and> xr_openflag y = CHR ''r'' \<and> xr_pscan y = 0 \<and>
      xr_buffer y = xin_text (term_lines p) @ CHR 0x00 # rest"
    by (rule XinOpen_file) (use z term_text_fits[OF p] xin_text_nonempty[OF term_lines_nonempty] in \<open>simp_all add: xin_ready_def term_file_def\<close>)
  then show ?thesis using term_lines_ok[OF p(1)] term_lines_nonempty by (auto simp: at_line_def)
qed

lemma load_steps_term:
  assumes p: "strs_ok p" "para_shape p" and y: "at_line (term_lines p) 0 y" and d: "para_shape d" "length tmp = 16"
  shows "\<exists>w t. load_steps term_loads (y, d, tmp) = Inr (w, restored p d, t)"
proof -
  have n: "map fst (term_lines p) = term_names" using save_names by (simp add: term_lines_def)
  obtain w where w: "load_steps term_loads (y, d, tmp) = Inr (w, load_apply (term_lines p) term_loads read_lines (d, tmp))"
    using load_steps_apply[OF y term_loads_ok, of "(d, tmp)"] unfolding n read_names_def[symmetric] trace_read by blast
  have "fst (load_apply (term_lines p) term_loads read_lines (d, tmp)) = restored p d"
    using p d by (intro load_result) (simp_all add: strs_ok_def)
  then show ?thesis using w by (metis prod.collapse)
qed

lemma para_shape_default: "para_shape q \<Longrightarrow> para_shape (LoadDefParaTerm q)"
  by (simp add: para_shape_def LoadDefParaTerm_def clear_register_def def_ip_def set_ip_def set_port_def put_str_def put_front_def MAX_485PORT_def upt_rec)

lemma para_shape_updates:
  "para_shape q \<Longrightarrow> para_shape (q\<lparr>pt_deviceid := map f [0..<8]\<rparr>)"
  "para_shape q \<Longrightarrow> para_shape (q\<lparr>pt_first_start := a\<rparr>)"
  "para_shape q \<Longrightarrow> para_shape (q\<lparr>pt_Musicmonth := a\<rparr>)"
  "para_shape q \<Longrightarrow> length ip = 4 \<Longrightarrow> para_shape (q\<lparr>pt_svraddr := set_ip ip (pt_svraddr q)\<rparr>)"
  "para_shape q \<Longrightarrow> para_shape (q\<lparr>pt_svraddr := set_port w (pt_svraddr q)\<rparr>)"
  "para_shape q \<Longrightarrow> para_shape (q\<lparr>pt_music_volume := v\<rparr>)"
  by (simp_all add: para_shape_def set_ip_def set_port_def)

lemma para_shape_branch:
  "(c \<Longrightarrow> para_shape a) \<Longrightarrow> (\<not> c \<Longrightarrow> para_shape b) \<Longrightarrow> para_shape (if c then a else b)"
  "(r = None \<Longrightarrow> para_shape a) \<Longrightarrow> (\<And>ip. r = Some ip \<Longrightarrow> para_shape (f ip)) \<Longrightarrow> para_shape (case r of None \<Rightarrow> a | Some ip \<Rightarrow> f ip)"
  by (simp, cases r) simp_all

lemma para_shape_uci:
  assumes "para_shape q" "\<And>h ip. gh h = Some ip \<Longrightarrow> length ip = 4"
  shows "para_shape (LoadUci uci gh str q)"
  unfolding LoadUci_def Let_def case_prod_beta
  by (intro para_shape_updates para_shape_branch assms(1)) (rule assms(2), assumption)+

lemma LoadParaTerm_restored:
  assumes p: "strs_ok p" "para_shape p" and q: "para_shape q" "\<And>h ip. gethostbyname h = Some ip \<Longrightarrow> length ip = 4" "length tmpbuf = 16"
    and z: "xin_ready z" "files (xr_fs z) TERM_BAK = Some (term_file p)" "files (xr_fs z) TERM_FILE \<in> {None, Some (term_file p)}"
  shows "\<exists>w. LoadParaTerm uci gethostbyname str tmpbuf q z = Inr (True, restored p (LoadUci uci gethostbyname str (LoadDefParaTerm q)), w)"
proof -
  let ?d = "LoadUci uci gethostbyname str (LoadDefParaTerm q)"
  have d: "para_shape ?d" using q(1,2) by (intro para_shape_uci para_shape_default)
  have "XinOpen TERM_FILE CHR ''r'' z = Inr (False, z)" if "files (xr_fs z) TERM_FILE = None"
    using that z(1) by (simp add: XinOpen_def xin_ready_def)
  then obtain v where v: "(case XinOpen TERM_FILE CHR ''r'' z of Inr (False, x) \<Rightarrow> XinOpen TERM_BAK CHR ''r'' x | r \<Rightarrow> r) = Inr (True, v)"
      "at_line (term_lines p) 0 v"
    using XinOpen_term[OF p z(1) _ term_file_lengths(1)] XinOpen_term[OF p z(1) _ term_file_lengths(2)] z by fastforce
  obtain w t where "load_steps term_loads (v, ?d, tmpbuf) = Inr (w, restored p ?d, t)"
    using load_steps_term[OF p v(2) d q(3)] by blast
  then show ?thesis using v(1) by (simp add: LoadParaTerm_def Let_def)
qed

subsection \<open>Properties\<close>

text \<open>C33: saving the parameters of the terminal succeeds, and loading them afterwards (from the file, or from the backup when the file
  is lost) gives every saved field back, over the defaults and the values of the system for the others; the channels of
  the two backup servers, which are not saved, become 4. The addresses of the backup servers are saved as \<open>svraddrIp2\<close>
  and \<open>svraddrIp3\<close> and read as \<open>svraddrIp1\<close> and \<open>svraddrIp2\<close>: they come back only because the search for a
  name starts behind the last line read and does not compare the last character.\<close>

theorem ParaTerm_roundtrip:
  assumes "para_shape p" "strs_ok p" "para_shape q" "\<And>h ip. gethostbyname h = Some ip \<Longrightarrow> length ip = 4" "length tmpbuf = 16"
    and "xin_ready x" "can_write (xr_fs x) TERM_FILE" "can_write (xr_fs x) TERM_BAK"
  shows "\<exists>y. SaveParaTerm p x = Inr (0, y) \<and> xin_ready y \<and>
    (\<forall>z. xin_ready z \<and> files (xr_fs z) TERM_BAK = files (xr_fs y) TERM_BAK \<and> files (xr_fs z) TERM_FILE \<in> {None, files (xr_fs y) TERM_FILE} \<longrightarrow>
      (\<exists>w. LoadParaTerm uci gethostbyname str tmpbuf q z =
        Inr (True, restored p (LoadUci uci gethostbyname str (LoadDefParaTerm q)), w)))"
proof -
  obtain y where y: "SaveParaTerm p x = Inr (0, y)" "xr_fs y = fs_write TERM_BAK (term_file p) (fs_write TERM_FILE (term_file p) (xr_fs x))" "xin_ready y"
    using SaveParaTerm_ok[OF assms(2,1,6-8)] by blast
  have fy: "files (xr_fs y) TERM_FILE = Some (term_file p)" "files (xr_fs y) TERM_BAK = Some (term_file p)"
    using term_file_lengths(3) by (simp_all add: y(2) fs_write_def)
  have "\<exists>w. LoadParaTerm uci gethostbyname str tmpbuf q z =
      Inr (True, restored p (LoadUci uci gethostbyname str (LoadDefParaTerm q)), w)"
    if z: "xin_ready z" "files (xr_fs z) TERM_BAK = files (xr_fs y) TERM_BAK" "files (xr_fs z) TERM_FILE \<in> {None, files (xr_fs y) TERM_FILE}" for z
    by (rule LoadParaTerm_restored[OF assms(2,1,3) _ assms(5) z(1)]) (use z(2,3) fy in \<open>auto elim: assms(4)\<close>)
  then show ?thesis using y(1,3) by blast
qed

theorem ParaTerm_roundtrip_witness:
  "\<exists>y p w. SaveParaTerm example_para xin_idle = Inr (0, y) \<and>
    LoadParaTerm (\<lambda>_. None) (\<lambda>_. None) [] (replicate 16 0) example_para y = Inr (True, p, w) \<and>
    pt_alarm_flag p = 0xffffffff \<and> sa_ip (pt_svraddr_2 p) = [6, 6, 6, 6] \<and> sa_chn (pt_svraddr_2 p) = 4 \<and> cstr (pt_apn p) = ''CMNET''"
proof -
  have s: "para_shape example_para" by (simp add: para_shape_def example_para_def)
  have t: "strs_ok example_para" by (simp add: strs_ok_def str_ok_def example_para_def cstr_def)
  have x: "xin_ready xin_idle" "can_write (xr_fs xin_idle) TERM_FILE" "can_write (xr_fs xin_idle) TERM_BAK"
    by (simp_all add: xin_ready_def xin_idle_def)
  have g: "(\<lambda>_. None) h = Some ip \<Longrightarrow> length ip = 4" for h :: string and ip :: bytes by simp
  let ?p = "restored example_para (LoadUci (\<lambda>_. None) (\<lambda>_. None) [] (LoadDefParaTerm example_para))"
  have p: "pt_alarm_flag ?p = 0xffffffff" "sa_ip (pt_svraddr_2 ?p) = [6, 6, 6, 6]" "sa_chn (pt_svraddr_2 ?p) = 4" "cstr (pt_apn ?p) = ''CMNET''"
    by (simp_all add: restored_def example_para_def restored_addr_def LoadUci_def getuciConfigvar_def Let_def LoadDefParaTerm_def clear_register_def
        sa_ip_def sa_chn_def sa_port_def set_ip_def set_chn_def set_port_def put_str_def cstr_def numeral_eq_Suc)
  show ?thesis
    using ParaTerm_roundtrip[OF s t s g _ x, where tmpbuf = "replicate 16 0" and uci = "\<lambda>_. None" and str = "[]"] p by fastforce
qed

end
