(* ===== verification/Itemop.thy ===== *)
theory Itemop
  imports ParamTerm Timer
begin

text \<open>
  Reading and writing the data items of the terminal (\<open>save/itemop.c\<close>, \<open>save/para_term.c\<close>,
  \<open>save/para_uni.c\<close>) and the flags of what has to be saved (\<open>param/operation.c\<close>). An item is found in
  two tables, by its group and its identifier; it is handled by a function, copied from or to a
  place in memory, or is a block of the items before it. The structures that the items copy as
  a whole (\<open>ParaUniG.termip\<close>, \<open>ParaUniG.userinfo\<close>, a scene, a task) are their bytes. The answers of
  the C library to the successive readings of the time are a function of their number. A buffer
  is what lies at the pointer and behind it.
\<close>

definition ITOFLAG_MASK :: u8 where "ITOFLAG_MASK = 0x0f"
definition ITOFLAG_FUNC :: u8 where "ITOFLAG_FUNC = 0"
definition ITOFLAG_SET00 :: u8 where "ITOFLAG_SET00 = 1"
definition ITOFLAG_COPY :: u8 where "ITOFLAG_COPY = 5"
definition ITOFLAG_SETAA :: u8 where "ITOFLAG_SETAA = 2"
definition ITOFLAG_SETFF :: u8 where "ITOFLAG_SETFF = 3"
definition ITOFLAG_BCD :: u8 where "ITOFLAG_BCD = 4"
definition ITOFLAG_SHORTBCD :: u8 where "ITOFLAG_SHORTBCD = 6"
definition ITOFLAG_LONGBCD :: u8 where "ITOFLAG_LONGBCD = 7"
definition ITOFLAG_RO :: u8 where "ITOFLAG_RO = 0x10"
definition ITOFLAG_WO :: u8 where "ITOFLAG_WO = 0x20"
definition ITOFLAG_HIGHLEVEL :: u8 where "ITOFLAG_HIGHLEVEL = 0x40"
definition ITOFLAG_GROUP :: u8 where "ITOFLAG_GROUP = 0x80"
definition ITEMOP_HIGHLEVEL :: u8 where "ITEMOP_HIGHLEVEL = 0x11"
definition ITORTN_OK :: int where "ITORTN_OK = 0"
definition ITORTN_INVALID :: int where "ITORTN_INVALID = 1"
definition ITORTN_PWDERR :: int where "ITORTN_PWDERR = 2"
definition ITORTN_OPFAIL :: int where "ITORTN_OPFAIL = 3"
definition SAVFLAG_PARATERM :: u8 where "SAVFLAG_PARATERM = 1"
definition SAVFLAG_PARAUNI :: u8 where "SAVFLAG_PARAUNI = 2"
definition SAVFLAG_SCENE :: u8 where "SAVFLAG_SCENE = 8"
definition SAVFLAG_TIMERTASK :: u8 where "SAVFLAG_TIMERTASK = 16"
definition MAX_SCENECLASS :: nat where "MAX_SCENECLASS = 16"
definition MAX_TIMERTASK :: nat where "MAX_TIMERTASK = 10"
definition SCENE_SIZE :: nat where "SCENE_SIZE = 370"
definition TASK_SIZE :: nat where "TASK_SIZE = 374"

record itemop_t =
  io_id :: u16
  io_maxlen :: u16
  io_buf :: bytes
  io_actlen :: u16
  io_mid :: u16
  io_level :: u8

record world =
  w_term :: para_term_tG
  w_termip :: bytes
  w_userinfo :: bytes
  w_mac :: bytes
  w_sceneflag :: u16
  w_scenes :: "bytes list"
  w_tasks :: "bytes list"
  w_hard :: bytes
  w_saveflag :: u32
  w_ctimers :: ctimers
  w_sampling_id :: int
  w_metid :: u16
  w_clock :: clock_state
  w_rtimers :: rtimers
  w_times :: "nat \<Rightarrow> tm \<times> tm"
  w_reads :: nat
  w_ext :: sysclock_t
  w_xin :: xinref_t

text \<open>An access outside an array, a stop of the text files, the restart of the program, and a
  loop over the timers that does not end.\<close>

datatype item_stop = ItemOutOfBounds | ItemXin xin_stop | ItemRestart | ItemStuck

type_synonym item_result = "item_stop + (int \<times> itemop_t \<times> world)"

definition put_buf :: "nat \<Rightarrow> bytes \<Rightarrow> itemop_t \<Rightarrow> itemop_t" where
  "put_buf i bs op = op\<lparr>io_buf := take i (io_buf op) @ bs @ drop (i + length bs) (io_buf op)\<rparr>"

definition buf :: "itemop_t \<Rightarrow> nat \<Rightarrow> u8" where
  "buf op i = io_buf op ! i"

definition ok :: "itemop_t \<Rightarrow> world \<Rightarrow> item_result" where
  "ok op w = Inr (0, op, w)"

subsection \<open>Handlers of the parameters of the terminal\<close>

definition SVRADDR_GPRS :: u8 where "SVRADDR_GPRS = 2"
definition SVRADDR_ETHERNET :: u8 where "SVRADDR_ETHERNET = 4"
definition SVRADDR_RS232 :: u8 where "SVRADDR_RS232 = 6"
definition SVRADDR_SMSWAKE :: u8 where "SVRADDR_SMSWAKE = 9"

definition to_bcd :: "u8 \<Rightarrow> u8" where "to_bcd b = hd (hextobcd [b])"
definition of_bcd :: "u8 \<Rightarrow> u8" where "of_bcd b = hd (bcdtohex [b])"

definition op_short :: "itemop_t \<Rightarrow> nat \<Rightarrow> u16" where
  "op_short op i = u16_of (buf op i) (buf op (i + 1))"

definition rev_buf :: "nat \<Rightarrow> nat \<Rightarrow> itemop_t \<Rightarrow> itemop_t" where
  "rev_buf i n op = put_buf i (rev (take n (drop i (io_buf op)))) op"

definition get_svraddr :: "u16 \<Rightarrow> para_term_tG \<Rightarrow> bytes" where
  "get_svraddr cid p = (if cid = 0x8010 then pt_svraddr p else if cid = 0x8011 then pt_svraddr_1 p else pt_svraddr_2 p)"

definition set_svraddr :: "u16 \<Rightarrow> bytes \<Rightarrow> para_term_tG \<Rightarrow> para_term_tG" where
  "set_svraddr cid a p =
     (if cid = 0x8010 then p\<lparr>pt_svraddr := a\<rparr> else if cid = 0x8011 then p\<lparr>pt_svraddr_1 := a\<rparr> else p\<lparr>pt_svraddr_2 := a\<rparr>)"

text \<open>The callbacks of the timers, by number.\<close>

definition CTimerSysRestart :: u32 where "CTimerSysRestart = 1"
definition CTimerSamplingData :: u32 where "CTimerSamplingData = 2"

definition net_out :: "bytes \<Rightarrow> itemop_t \<Rightarrow> itemop_t" where
  "net_out a op = put_buf 0 ([lo8 (sa_port a), hi8 (sa_port a)] @ rev (sa_ip a) @ [0xaa, 0xaa]) op"

definition paraterm_svraddr :: "nat \<Rightarrow> itemop_t \<Rightarrow> world \<Rightarrow> item_result" where
  "paraterm_svraddr flag op w =
     (let cid = io_id op; paddr = get_svraddr cid (w_term w) in
      if flag = 0 then
        (let op = put_buf 8 [to_bcd (sa_chn paddr)] op in
         if sa_chn paddr = SVRADDR_GPRS \<or> sa_chn paddr = SVRADDR_ETHERNET \<or> (sa_chn paddr = SVRADDR_SMSWAKE \<and> cid = 0x8010)
         then ok (net_out paddr op) w
         else ok (put_buf 0 (sa_phone paddr) (rev_buf 0 8 op)) w)
      else
        (let op = put_buf 8 [of_bcd (buf op 8)] op; oldchn = sa_chn paddr; chn = buf op 8 in
         if chn = SVRADDR_GPRS \<or> chn = SVRADDR_ETHERNET \<or> (chn = SVRADDR_SMSWAKE \<and> cid = 0x8010) then
           (let port = op_short op 0;
                op = rev_buf 2 4 op;
                a = set_ip (take 4 (drop 2 (io_buf op))) (set_port port (set_chn chn paddr));
                w = w\<lparr>w_term := set_svraddr cid a (w_term w)\<rparr>;
                w = (if cid = 0x8010 \<and> oldchn \<noteq> sa_chn a then w\<lparr>w_ctimers := snd (SysAddCTimer 5 CTimerSysRestart 0 (w_ctimers w))\<rparr> else w)
            in ok op w)
         else if chn = SVRADDR_SMSWAKE \<or> chn = SVRADDR_RS232 then
           (let op = rev_buf 0 8 op;
                a = set_chn (buf op 8) (set_phone (take 8 (io_buf op)) paddr);
                w = w\<lparr>w_term := set_svraddr cid a (w_term w)\<rparr>;
                w = (if cid = 0x8010 \<and> oldchn \<noteq> sa_chn a then w\<lparr>w_ctimers := snd (SysAddCTimer 5 CTimerSysRestart 0 (w_ctimers w))\<rparr> else w)
            in ok op w)
         else Inr (ITORTN_OPFAIL, op, w)))"

definition paraterm_gateaddr :: "nat \<Rightarrow> itemop_t \<Rightarrow> world \<Rightarrow> item_result" where
  "paraterm_gateaddr flag op w =
     (let a = pt_gate_addr (w_term w) in
      if flag = 0 then ok (net_out a op) w
      else
        (let port = op_short op 0; op = rev_buf 2 4 op
         in ok op (w\<lparr>w_term := (w_term w)\<lparr>pt_gate_addr := set_ip (take 4 (drop 2 (io_buf op))) (set_port port a)\<rparr>\<rparr>)))"

text \<open>The length of a string that ends at a NUL, at \<open>0xaa\<close>, or after \<open>n\<close> characters.\<close>

definition str_len :: "nat \<Rightarrow> bytes \<Rightarrow> nat" where
  "str_len n bs = length (takeWhile (\<lambda>b. b \<noteq> 0 \<and> b \<noteq> 0xaa) (take n bs))"

definition paraterm_apn :: "nat \<Rightarrow> itemop_t \<Rightarrow> world \<Rightarrow> item_result" where
  "paraterm_apn flag op w =
     (if flag = 0 then
        (let apn = bytes_of (pt_apn (w_term w)); len = str_len 16 apn
         in ok (put_buf 0 (rev (take len apn) @ replicate (16 - len) 0) op) w)
      else
        (let len = str_len 15 (io_buf op)
         in ok op (w\<lparr>w_term := (w_term w)\<lparr>pt_apn := string_of (rev (take len (io_buf op)) @ replicate (16 - len) 0)\<rparr>\<rparr>)))"

text \<open>The name of the user lies at offset 27 of \<open>ParaUniG.termip\<close>, the password at 59.\<close>

definition paraterm_usrname :: "nat \<Rightarrow> itemop_t \<Rightarrow> world \<Rightarrow> item_result" where
  "paraterm_usrname flag op w =
     (let off = (if io_id op = 0x8019 then 27 else 59); pdata = take 32 (drop off (w_termip w)) in
      if flag = 0 then
        (let len = str_len 32 pdata in ok (put_buf 0 (take len pdata @ replicate (32 - len) 0) op) w)
      else
        (let len = str_len 31 (io_buf op)
         in ok op (w\<lparr>w_termip := take off (w_termip w) @ take len (io_buf op) @ replicate (32 - len) 0 @ drop (off + 32) (w_termip w)\<rparr>)))"

text \<open>The ports: item \<open>0x8703\<close> and item \<open>0x8713\<close> both are port 0.\<close>

definition stopbit_idx :: "u16 \<Rightarrow> int" where
  "stopbit_idx cid = (let idx = (uint cid - 0x8700) div 16 in if idx \<noteq> 0 then idx - 1 else idx)"

definition paraterm_port_stopbit :: "nat \<Rightarrow> itemop_t \<Rightarrow> world \<Rightarrow> item_result" where
  "paraterm_port_stopbit flag op w =
     (let idx = stopbit_idx (io_id op) in
      if idx < 0 \<or> idx \<ge> int PORTCFG_NUM then Inr (ITORTN_INVALID, op, w)
      else
        (let i = nat idx; c = pt_port (w_term w) ! i in
         if flag = 0 then
           ok (put_buf 0 [if pc_stopbits c = 3 then 1 else if pc_stopbits c = 1 then 0 else 2] op) w
         else
           ok op (w\<lparr>w_term := upd_port i (\<lambda>c. c\<lparr>pc_stopbits := (if buf op 0 = 1 then 3 else if buf op 0 = 0 then 1 else 2)\<rparr>) (w_term w)\<rparr>)))"

definition paraterm_upreaddev :: "nat \<Rightarrow> itemop_t \<Rightarrow> world \<Rightarrow> item_result" where
  "paraterm_upreaddev flag op w =
     (if flag = 0 then
        ok (put_buf 0 [to_bcd (if io_id op = 0x8815 then pt_task_starthour (w_term w) else pt_task_startdev (w_term w))] op) w
      else
        (let v = of_bcd (buf op 0)
         in ok op (w\<lparr>w_term := (if io_id op = 0x8815 then (w_term w)\<lparr>pt_task_starthour := v\<rparr> else (w_term w)\<lparr>pt_task_startdev := v\<rparr>)\<rparr>)))"

definition paraterm_updaydata :: "nat \<Rightarrow> itemop_t \<Rightarrow> world \<Rightarrow> item_result" where
  "paraterm_updaydata flag op w =
     (if flag = 0 then
        (let v = pt_hour_updaydata (w_term w) in ok (put_buf 0 [if v \<noteq> 0xff then to_bcd v else v] op) w)
      else
        (let v = (if buf op 0 \<noteq> 0xff then of_bcd (buf op 0) else buf op 0)
         in if v = 0xff \<or> v \<le> 23 then ok op (w\<lparr>w_term := (w_term w)\<lparr>pt_hour_updaydata := v\<rparr>\<rparr>)
            else Inr (1, op, w)))"

definition paraterm_monlastread :: "nat \<Rightarrow> itemop_t \<Rightarrow> world \<Rightarrow> item_result" where
  "paraterm_monlastread flag op w =
     (if flag = 0 then ok (put_buf 0 [to_bcd (pt_hour_read_mondata (w_term w)), to_bcd (pt_day_read_mondata (w_term w))] op) w
      else
        (let h = of_bcd (buf op 0); d = of_bcd (buf op 1)
         in if h \<le> 23 \<and> d \<le> 28 then ok op (w\<lparr>w_term := (w_term w)\<lparr>pt_day_read_mondata := d, pt_hour_read_mondata := h\<rparr>\<rparr>)
            else Inr (1, op, w)))"

definition paraterm_monlastup :: "nat \<Rightarrow> itemop_t \<Rightarrow> world \<Rightarrow> item_result" where
  "paraterm_monlastup flag op w =
     (if flag = 0 then
        (let h = pt_hour_up_mondata (w_term w); d = pt_day_up_mondata (w_term w)
         in ok (put_buf 0 (if h \<noteq> 0xff \<and> d \<noteq> 0xff then [to_bcd h, to_bcd d] else [h, d]) op) w)
      else
        (let b0 = buf op 0; b1 = buf op 1;
             (h, d) = (if b0 \<noteq> 0xff \<and> b1 \<noteq> 0xff then (of_bcd b0, of_bcd b1) else (b0, b1))
         in if (h \<le> 23 \<or> h = 0xff) \<and> (d \<le> 28 \<or> d = 0xff)
            then ok op (w\<lparr>w_term := (w_term w)\<lparr>pt_day_up_mondata := d, pt_hour_up_mondata := h\<rparr>\<rparr>)
            else Inr (1, op, w)))"

definition paraterm_peibian_addr :: "nat \<Rightarrow> itemop_t \<Rightarrow> world \<Rightarrow> item_result" where
  "paraterm_peibian_addr flag op w =
     (if flag = 0 then ok (rev_buf 0 4 (put_buf 0 (swap23 (take 4 (pt_peibian_addr (w_term w))) 0) op)) w
      else
        (let op = rev_buf 0 4 op; op = op\<lparr>io_buf := swap23 (io_buf op) 0\<rparr>
         in ok op (w\<lparr>w_term := (w_term w)\<lparr>pt_peibian_addr := take 4 (io_buf op)\<rparr>\<rparr>)))"

subsection \<open>Scenes and timed tasks\<close>

definition scene_id :: "bytes \<Rightarrow> u8" where "scene_id s = s ! 0"

fun find_id :: "u16 \<Rightarrow> bytes list \<Rightarrow> nat \<Rightarrow> nat option" where
  "find_id cid [] i = None"
| "find_id cid (s # ss) i = (if cid = ucast (scene_id s) then Some i else find_id cid ss (i + 1))"

definition set_elem :: "nat \<Rightarrow> nat \<Rightarrow> bytes \<Rightarrow> bytes list \<Rightarrow> item_stop + bytes list" where
  "set_elem sz i bs xs = (if i < length xs then Inr (xs[i := take sz bs]) else Inl ItemOutOfBounds)"

definition set_id :: "nat \<Rightarrow> u8 \<Rightarrow> bytes list \<Rightarrow> item_stop + bytes list" where
  "set_id i cid xs = (if i < length xs then Inr (xs[i := (xs ! i)[0 := cid]]) else Inl ItemOutOfBounds)"

definition paraterm_scenelist :: "nat \<Rightarrow> itemop_t \<Rightarrow> world \<Rightarrow> item_result" where
  "paraterm_scenelist flag op w =
     (if flag \<noteq> 0 then ok op w
      else
        (let sel = filter (\<lambda>i. scene_id (w_scenes w ! i) \<noteq> 0 \<and> bit (w_sceneflag w) i) [0..<MAX_SCENECLASS];
             out = concat (map (\<lambda>i. take 18 (w_scenes w ! i)) sel);
             op = put_buf 0 (of_nat (length sel) # out) op
         in if sel = [] then Inr (- 1, op\<lparr>io_actlen := 0\<rparr>, w)
            else ok (op\<lparr>io_actlen := of_nat (1 + length out)\<rparr>) w))"

text \<open>The list of the tasks clears 340 bytes of the buffer, for an item of 220.\<close>

definition paraterm_timertasklist :: "nat \<Rightarrow> itemop_t \<Rightarrow> world \<Rightarrow> item_result" where
  "paraterm_timertasklist flag op w =
     (if flag \<noteq> 0 then ok op w
      else ok (put_buf 0 (concat (map (take 22) (w_tasks w))) (put_buf 0 (replicate 340 0) op)) w)"

definition paraterm_scene :: "nat \<Rightarrow> itemop_t \<Rightarrow> world \<Rightarrow> item_result" where
  "paraterm_scene flag op w =
     (let cid = (io_id op AND 0x0f) + 1 in
      if cid < 1 \<or> cid > of_nat MAX_SCENECLASS then Inr (- 1, op, w)
      else if flag = 0 then
        (case find_id cid (w_scenes w) 0 of
           None \<Rightarrow> Inr (- 1, op, w)
         | Some i \<Rightarrow> ok (put_buf 0 (w_scenes w ! i) op) w)
      else
        (let sceneid = buf op 0; r =
           (if sceneid > of_nat MAX_SCENECLASS then
              (case find_id 0 (w_scenes w) 0 of
                 None \<Rightarrow> None
               | Some i \<Rightarrow> Some (case set_elem SCENE_SIZE i (io_buf op) (w_scenes w) of
                                  Inl s \<Rightarrow> Inl s | Inr xs \<Rightarrow> set_id (unat cid - 1) (of_nat i) xs))
            else if sceneid = 0 then Some (set_elem SCENE_SIZE (unat cid - 1) (replicate SCENE_SIZE 0) (w_scenes w))
            else Some (set_elem SCENE_SIZE (unat cid) (io_buf op) (w_scenes w)))
         in case r of
              None \<Rightarrow> Inr (- 1, op, w)
            | Some (Inl s) \<Rightarrow> Inl s
            | Some (Inr xs) \<Rightarrow> ok op (w\<lparr>w_scenes := xs\<rparr>)))"

definition paraterm_timertask :: "nat \<Rightarrow> itemop_t \<Rightarrow> world \<Rightarrow> item_result" where
  "paraterm_timertask flag op w =
     (let cid = io_id op AND 0x0f in
      if cid < 1 \<or> cid > of_nat MAX_SCENECLASS then Inr (- 1, op, w)
      else if flag = 0 then
        (case find_id cid (w_tasks w) 0 of
           None \<Rightarrow> Inr (- 1, op, w)
         | Some i \<Rightarrow> ok (put_buf 0 (w_tasks w ! i) op) w)
      else
        (let pu = buf op 0; r =
           (if pu > of_nat MAX_TIMERTASK then
              (case find_id 0 (w_tasks w) 0 of
                 None \<Rightarrow> None
               | Some i \<Rightarrow> Some (case set_elem TASK_SIZE i (io_buf op) (w_tasks w) of
                                  Inl s \<Rightarrow> Inl s | Inr xs \<Rightarrow> set_id i (of_nat i) xs))
            else if pu = 0 then Some (set_elem TASK_SIZE (unat cid - 1) (replicate TASK_SIZE 0) (w_tasks w))
            else Some (set_elem TASK_SIZE (case find_id cid (w_tasks w) 0 of None \<Rightarrow> MAX_TIMERTASK | Some i \<Rightarrow> i) (io_buf op) (w_tasks w)))
         in case r of
              None \<Rightarrow> Inr (- 1, op, w)
            | Some (Inl s) \<Rightarrow> Inl s
            | Some (Inr xs) \<Rightarrow> ok op (w\<lparr>w_tasks := xs\<rparr>)))"

subsection \<open>Commands\<close>

definition save_alarm_flag :: "u32 \<Rightarrow> itemop_t \<Rightarrow> world \<Rightarrow> item_result" where
  "save_alarm_flag v op w =
     (let p = (w_term w)\<lparr>pt_alarm_flag := v\<rparr> in
      case SaveParaTerm p (w_xin w) of
        Inl s \<Rightarrow> Inl (ItemXin s)
      | Inr (_, x) \<Rightarrow> ok op (w\<lparr>w_term := p, w_xin := x\<rparr>))"

definition paraterm_reset :: "nat \<Rightarrow> itemop_t \<Rightarrow> world \<Rightarrow> item_result" where
  "paraterm_reset flag op w =
     (if flag \<noteq> 1 then ok op w
      else if buf op 0 = 1 then Inl ItemRestart
      else if buf op 0 = 6 then save_alarm_flag (pt_alarm_flag (w_term w) OR 8) op w
      else if buf op 0 = 7 then save_alarm_flag (pt_alarm_flag (w_term w) AND NOT 8) op w
      else ok op w)"

definition add_sampling :: "int \<Rightarrow> u32 \<Rightarrow> world \<Rightarrow> world" where
  "add_sampling timespan metid w =
     (let (tid, st) = SysAddCTimer timespan CTimerSamplingData metid (w_ctimers w)
      in w\<lparr>w_ctimers := st, w_sampling_id := tid\<rparr>)"

definition paraterm_sampling :: "nat \<Rightarrow> itemop_t \<Rightarrow> world \<Rightarrow> item_result" where
  "paraterm_sampling flag op w =
     (let cmd = buf op 0;
          timespan = (if buf op 1 < 3 then 3 else buf op 1);
          metid = buf op 2;
          w = (if flag \<noteq> 1 then w
               else if cmd = 0 then
                 add_sampling (uint timespan) (ucast metid)
                   (if w_sampling_id w < 0 then w else w\<lparr>w_ctimers := SysClearCTimer (w_sampling_id w) (w_ctimers w)\<rparr>)
               else if cmd = 1 then
                 (if w_sampling_id w \<ge> 0 then w\<lparr>w_ctimers := SysClearCTimer (w_sampling_id w) (w_ctimers w)\<rparr> else w)
               else w)
      in ok op (w\<lparr>w_metid := ucast metid\<rparr>))"

subsection \<open>The clock\<close>

definition read_clock :: "world \<Rightarrow> sysclock_t \<times> world" where
  "read_clock w =
     (let (t1, t2) = w_times w (w_reads w); (c, st) = SysClockRead t1 t2 (w_clock w)
      in (c, w\<lparr>w_clock := st, w_reads := w_reads w + 1\<rparr>))"

definition set_clock :: "sysclock_t \<Rightarrow> int \<Rightarrow> int \<Rightarrow> itemop_t \<Rightarrow> world \<Rightarrow> item_result" where
  "set_clock clock utimecur utime op w =
     (let w = w\<lparr>w_clock := snd (SysClockSet clock (w_clock w))\<rparr>;
          (c, w) = read_clock w;
          w = w\<lparr>w_ext := c\<rparr>
      in if \<bar>utimecur - utime\<bar> > 300 then
           (case SysRecalAllRTimer (UTimeReadCurrent (w_clock w)) (w_rtimers w) of
              None \<Rightarrow> Inl ItemStuck
            | Some r \<Rightarrow> ok op (w\<lparr>w_rtimers := r\<rparr>))
         else ok op w)"

definition paraterm_time :: "nat \<Rightarrow> itemop_t \<Rightarrow> world \<Rightarrow> item_result" where
  "paraterm_time flag op w =
     (let (c, w) = read_clock w in
      if flag = 0 then
        ok (put_buf 0 (hextobcd [c_second c, c_minute c, c_hour c, c_day c, c_month c, c_year c]) op) w
      else
        (let op = put_buf 0 (bcdtohex (take 6 (io_buf op))) op;
             c = c\<lparr>c_year := buf op 5, c_month := buf op 4, c_day := buf op 3, c_hour := buf op 2, c_minute := buf op 1, c_second := buf op 0\<rparr>
         in set_clock c (UTimeReadCurrent (w_clock w)) (SysClockToUTime c) op w))"

definition paraterm_realtime :: "nat \<Rightarrow> itemop_t \<Rightarrow> world \<Rightarrow> item_result" where
  "paraterm_realtime flag op w =
     (if flag = 0 then Inr (1, op, w)
      else
        (let (_, w) = read_clock w;
             utimecur = UTimeReadCurrent (w_clock w);
             neg = bit (buf op 1) 7;
             op = put_buf 1 [buf op 1 AND 0x7f] op;
             i = uint (op_short op 0);
             utime = (if neg then utimecur - i else utimecur + i)
         in set_clock (UTimeToSysClock utime) utimecur utime op w))"

subsection \<open>Parameters of the network\<close>

definition parauni_termip :: "nat \<Rightarrow> itemop_t \<Rightarrow> world \<Rightarrow> item_result" where
  "parauni_termip flag op w =
     (if flag = 0 then ok (put_buf 0 (take 93 (w_termip w)) op) w
      else ok op (w\<lparr>w_termip := put_front (take 93 (io_buf op)) (w_termip w)\<rparr>))"

definition parauni_userinfo :: "nat \<Rightarrow> itemop_t \<Rightarrow> world \<Rightarrow> item_result" where
  "parauni_userinfo flag op w =
     (if flag = 0 then ok (put_buf 0 (take 198 (w_userinfo w)) op) w
      else ok op (w\<lparr>w_userinfo := put_front (take 198 (io_buf op)) (w_userinfo w)\<rparr>))"

definition parauni_termmac :: "nat \<Rightarrow> itemop_t \<Rightarrow> world \<Rightarrow> item_result" where
  "parauni_termmac flag op w =
     (if flag = 0 then ok (put_buf 0 (take 6 (w_mac w)) op) w
      else ok op (w\<lparr>w_mac := put_front (take 6 (io_buf op)) (w_mac w)\<rparr>))"

subsection \<open>The tables\<close>

text \<open>What the last field of a table entry points to: a handler, a place in memory, or memory
  behind the end of an array.\<close>

datatype item_func = NoFunc | Func "nat \<Rightarrow> itemop_t \<Rightarrow> world \<Rightarrow> item_result" | Mem "world \<Rightarrow> bytes" "bytes \<Rightarrow> world \<Rightarrow> world" | MemOut

record item_ele_t =
  ie_id :: u16
  ie_flag :: u8
  ie_savflag :: u8
  ie_datalen :: u16
  ie_func :: item_func

definition ele :: "u16 \<Rightarrow> u8 \<Rightarrow> u8 \<Rightarrow> u16 \<Rightarrow> item_func \<Rightarrow> item_ele_t" where
  "ele cid flag savflag datalen func = \<lparr>ie_id = cid, ie_flag = flag, ie_savflag = savflag, ie_datalen = datalen, ie_func = func\<rparr>"

definition mem_term :: "(para_term_tG \<Rightarrow> bytes) \<Rightarrow> ((bytes \<Rightarrow> bytes) \<Rightarrow> para_term_tG \<Rightarrow> para_term_tG) \<Rightarrow> item_func" where
  "mem_term sel upd = Mem (\<lambda>w. sel (w_term w)) (\<lambda>bs w. w\<lparr>w_term := upd (put_front bs) (w_term w)\<rparr>)"

definition mem_byte :: "(para_term_tG \<Rightarrow> u8) \<Rightarrow> ((u8 \<Rightarrow> u8) \<Rightarrow> para_term_tG \<Rightarrow> para_term_tG) \<Rightarrow> item_func" where
  "mem_byte sel upd = Mem (\<lambda>w. [sel (w_term w)]) (\<lambda>bs w. w\<lparr>w_term := upd (\<lambda>_. hd bs) (w_term w)\<rparr>)"

definition mem_port :: "nat \<Rightarrow> (portcfg_t \<Rightarrow> u8) \<Rightarrow> (u8 \<Rightarrow> portcfg_t \<Rightarrow> portcfg_t) \<Rightarrow> item_func" where
  "mem_port i sel upd =
     (if i < PORTCFG_NUM
      then Mem (\<lambda>w. [sel (pt_port (w_term w) ! i)]) (\<lambda>bs w. w\<lparr>w_term := upd_port i (upd (hd bs)) (w_term w)\<rparr>)
      else MemOut)"

definition mem_alarm_flag :: item_func where
  "mem_alarm_flag = Mem (\<lambda>w. le32 (pt_alarm_flag (w_term w)))
     (\<lambda>bs w. w\<lparr>w_term := (w_term w)\<lparr>pt_alarm_flag := u32_of (bs ! 0) (bs ! 1) (bs ! 2) (bs ! 3)\<rparr>\<rparr>)"

definition mem_hard :: "nat \<Rightarrow> item_func" where
  "mem_hard off = Mem (\<lambda>w. drop off (w_hard w)) (\<lambda>bs w. w\<lparr>w_hard := take off (w_hard w) @ put_front bs (drop off (w_hard w))\<rparr>)"

definition WR :: u8 where "WR = 0x30"
definition WRH :: u8 where "WRH = 0x70"
definition WRC :: u8 where "WRC = 0x35"
definition GRP :: u8 where "GRP = 0xb0"

definition g_item_uni1 :: "item_ele_t list" where
  "g_item_uni1 =
     [ele 0x7500 WRH SAVFLAG_PARAUNI 93 (Func parauni_termip),
      ele 0x7501 WRH SAVFLAG_PARAUNI 6 (Func parauni_termmac),
      ele 0x7502 WRH SAVFLAG_PARAUNI 1 (Func paraterm_reset),
      ele 0x7503 WRH SAVFLAG_PARAUNI 3 (Func paraterm_sampling),
      ele 0x7504 WRH SAVFLAG_PARAUNI 198 (Func parauni_userinfo)]"

definition g_item_addr :: "item_ele_t list" where
  "g_item_addr =
     [ele 0x8010 WRH SAVFLAG_PARATERM 9 (Func paraterm_svraddr),
      ele 0x8011 WRH SAVFLAG_PARATERM 9 (Func paraterm_svraddr),
      ele 0x8012 WRH SAVFLAG_PARATERM 9 (Func paraterm_svraddr),
      ele 0x8013 0x75 SAVFLAG_PARATERM 8 (mem_term pt_sms_addr pt_sms_addr_update),
      ele 0x8014 WRH SAVFLAG_PARATERM 8 (Func paraterm_gateaddr),
      ele 0x8015 WRH SAVFLAG_PARATERM 16 (Func paraterm_apn),
      ele 0x8019 WRH SAVFLAG_PARATERM 32 (Func paraterm_usrname),
      ele 0x801a WRH SAVFLAG_PARATERM 32 (Func paraterm_usrname),
      ele 0x801f 0xf0 0 0 NoFunc]"

definition g_item_pwd :: "item_ele_t list" where
  "g_item_pwd =
     [ele 0x8020 0x21 0 3 (mem_term pt_com_pwd pt_com_pwd_update),
      ele 0x8021 0x25 SAVFLAG_PARATERM 3 (mem_term pt_com_pwd pt_com_pwd_update),
      ele 0x8022 0x65 SAVFLAG_PARATERM 3 (mem_term pt_adm_pwd pt_adm_pwd_update),
      ele 0x802f 0xe0 0 0 NoFunc]"

definition g_item_time :: "item_ele_t list" where
  "g_item_time = [ele 0x8030 WR 0 6 (Func paraterm_time), ele 0x803e WR 0 2 (Func paraterm_realtime)]"

text \<open>The five items and the block of a port: \<open>base\<close> is the group, \<open>i\<close> the index of the array.\<close>

definition port_items :: "u16 \<Rightarrow> nat \<Rightarrow> item_ele_t list" where
  "port_items base i =
     [ele base WRC SAVFLAG_PARATERM 1 (mem_port i pc_baud (\<lambda>v c. c\<lparr>pc_baud := v\<rparr>)),
      ele (base + 1) WRC SAVFLAG_PARATERM 1 (mem_port i pc_parity (\<lambda>v c. c\<lparr>pc_parity := v\<rparr>)),
      ele (base + 2) WRC SAVFLAG_PARATERM 1 (mem_port i pc_databits (\<lambda>v c. c\<lparr>pc_databits := v\<rparr>)),
      ele (base + 3) WR SAVFLAG_PARATERM 1 (Func paraterm_port_stopbit),
      ele (base + 4) WRC SAVFLAG_PARATERM 1 (mem_port i pc_func (\<lambda>v c. c\<lparr>pc_func := v\<rparr>)),
      ele (base + 15) GRP 0 0 NoFunc]"

definition g_item_ver :: "item_ele_t list" where
  "g_item_ver = [ele 0x8809 0x15 0 8 (mem_hard 8), ele 0x880a 0x15 0 2 (mem_hard 16)]"

definition g_item_cfg :: "item_ele_t list" where
  "g_item_cfg =
     [ele 0x8810 WRC SAVFLAG_PARATERM 1 (mem_byte pt_search_device pt_search_device_update),
      ele 0x8815 WR SAVFLAG_PARATERM 1 (Func paraterm_upreaddev),
      ele 0x8816 WR SAVFLAG_PARATERM 1 (Func paraterm_upreaddev),
      ele 0x8817 WRC SAVFLAG_PARATERM 1 (mem_byte pt_plc_route_type pt_plc_route_type_update),
      ele 0x881a WR SAVFLAG_PARATERM 1 (Func paraterm_updaydata),
      ele 0x881b WRC SAVFLAG_PARATERM 4 mem_alarm_flag,
      ele 0x881c 0x10 0 272 (Func paraterm_scenelist)]"

definition g_item_caspara :: "item_ele_t list" where
  "g_item_caspara =
     [ele 0x8820 WR SAVFLAG_PARATERM 2 (Func paraterm_monlastread),
      ele 0x8821 WR SAVFLAG_PARATERM 2 (Func paraterm_monlastup),
      ele 0x8822 WR SAVFLAG_PARATERM 4 (Func paraterm_peibian_addr),
      ele 0x8823 WRC SAVFLAG_PARATERM 2 (mem_term pt_ct pt_ct_update)]"

text \<open>The scenes \<open>0x8830\<close> to \<open>0x883e\<close>, of which \<open>0x883c\<close> is listed twice.\<close>

definition g_item_sceneinfo :: "item_ele_t list" where
  "g_item_sceneinfo =
     map (\<lambda>cid. ele cid WR SAVFLAG_SCENE 370 (Func paraterm_scene))
       [0x8830, 0x8831, 0x8832, 0x8833, 0x8834, 0x8835, 0x8836, 0x8837, 0x8838, 0x8839, 0x883a, 0x883b, 0x883c, 0x883c, 0x883d, 0x883e]"

definition g_item_timertaskinfo :: "item_ele_t list" where
  "g_item_timertaskinfo =
     ele 0x8840 WR SAVFLAG_TIMERTASK 220 (Func paraterm_timertasklist) #
     map (\<lambda>cid. ele cid WR SAVFLAG_TIMERTASK 374 (Func paraterm_timertask))
       [0x8841, 0x8842, 0x8843, 0x8844, 0x8845, 0x8846, 0x8847, 0x8848, 0x8849, 0x884a]"

definition ITEMGRP_FLAG_TERM :: u16 where "ITEMGRP_FLAG_TERM = 0"
definition ITEMGRP_FLAG_MET :: u16 where "ITEMGRP_FLAG_MET = 0x1000"
definition ITEMGRP_FLAG_SPEC :: u16 where "ITEMGRP_FLAG_SPEC = 0x2000"
definition MAX_METER :: u16 where "MAX_METER = 255"

definition g_item_grp :: "(u16 \<times> u16 \<times> item_ele_t list) list" where
  "g_item_grp =
     [(0x7500, ITEMGRP_FLAG_TERM, g_item_uni1),
      (0x8010, ITEMGRP_FLAG_TERM, g_item_addr),
      (0x8020, ITEMGRP_FLAG_TERM, g_item_pwd),
      (0x8030, ITEMGRP_FLAG_SPEC, g_item_time),
      (0x8700, ITEMGRP_FLAG_TERM, port_items 0x8700 0),
      (0x8710, ITEMGRP_FLAG_TERM, port_items 0x8710 1),
      (0x8720, ITEMGRP_FLAG_TERM, port_items 0x8720 2),
      (0x8730, ITEMGRP_FLAG_TERM, port_items 0x8730 3),
      (0x8780, ITEMGRP_FLAG_TERM, port_items 0x8780 7),
      (0x8800, ITEMGRP_FLAG_TERM, g_item_ver),
      (0x8810, ITEMGRP_FLAG_TERM, g_item_cfg),
      (0x8820, ITEMGRP_FLAG_TERM, g_item_caspara),
      (0x8830, ITEMGRP_FLAG_TERM, g_item_sceneinfo),
      (0x8840, ITEMGRP_FLAG_TERM, g_item_timertaskinfo)]"

fun find_grp :: "u16 \<Rightarrow> (u16 \<times> u16 \<times> item_ele_t list) list \<Rightarrow> (u16 \<times> item_ele_t list) option" where
  "find_grp grp [] = None"
| "find_grp grp ((cid, flag, items) # grps) = (if grp \<noteq> cid then find_grp grp grps else Some (flag, items))"

fun find_item :: "u16 \<Rightarrow> item_ele_t list \<Rightarrow> item_ele_t option" where
  "find_item cid [] = None"
| "find_item cid (e # es) = (if cid \<noteq> ie_id e then find_item cid es else Some e)"

subsection \<open>What has to be saved\<close>

definition SetSaveParamFlag :: "u8 \<Rightarrow> world \<Rightarrow> world" where
  "SetSaveParamFlag flag w = w\<lparr>w_saveflag := w_saveflag w OR ucast flag\<rparr>"

definition ClearSaveParamFlag :: "world \<Rightarrow> world" where
  "ClearSaveParamFlag w = w\<lparr>w_saveflag := 0\<rparr>"

datatype savefunc = SaveTerm | SaveUni | SaveSceneUse | SaveTimerTask

definition FunctionSave :: "savefunc list" where
  "FunctionSave = [SaveTerm, SaveUni, SaveSceneUse, SaveTimerTask]"

text \<open>The functions that \<open>SaveParam\<close> calls, in order.\<close>

definition SaveParam :: "world \<Rightarrow> savefunc list \<times> world" where
  "SaveParam w = (map ((!) FunctionSave) (filter (\<lambda>index. bit (w_saveflag w) index) [0..<4]), w\<lparr>w_saveflag := 0\<rparr>)"

subsection \<open>Writing and reading\<close>

definition grp_mid_ok :: "u16 \<Rightarrow> u16 \<Rightarrow> bool" where
  "grp_mid_ok flag mid =
     (let grpflag = flag AND 0xf000 in
      if grpflag = ITEMGRP_FLAG_MET then mid < MAX_METER
      else if grpflag = ITEMGRP_FLAG_SPEC then mid = 0 \<or> mid = 0xffff
      else mid = 0)"

definition mem_write :: "item_func \<Rightarrow> bytes \<Rightarrow> itemop_t \<Rightarrow> u8 \<Rightarrow> world \<Rightarrow> item_result" where
  "mem_write f bs op savflag w =
     (case f of
        Mem _ upd \<Rightarrow> Inr (ITORTN_OK, op, SetSaveParamFlag savflag (upd bs w))
      | _ \<Rightarrow> Inl ItemOutOfBounds)"

definition write_elem :: "item_ele_t \<Rightarrow> itemop_t \<Rightarrow> world \<Rightarrow> item_result" where
  "write_elem e op w =
     (let kind = ie_flag e AND ITOFLAG_MASK; bs = take (unat (ie_datalen e)) (io_buf op) in
      if kind = ITOFLAG_FUNC then
        (case ie_func e of
           Func f \<Rightarrow> (case f 1 op w of
             Inl s \<Rightarrow> Inl s
           | Inr (rtn, op, w) \<Rightarrow> Inr (rtn, op, if rtn = ITORTN_OK then SetSaveParamFlag (ie_savflag e) w else w))
         | NoFunc \<Rightarrow> Inr (ITORTN_INVALID, op, w)
         | _ \<Rightarrow> Inl ItemOutOfBounds)
      else if kind = ITOFLAG_COPY then mem_write (ie_func e) bs op (ie_savflag e) w
      else if kind = ITOFLAG_BCD then mem_write (ie_func e) (bcdtohex bs) op (ie_savflag e) w
      else if kind = ITOFLAG_SHORTBCD then
        (let us = ucast (bcdtol bs) :: u16 in mem_write (ie_func e) [lo8 us, hi8 us] op (ie_savflag e) w)
      else if kind = ITOFLAG_LONGBCD then mem_write (ie_func e) (le32 (bcdtol bs)) op (ie_savflag e) w
      else Inr (ITORTN_OK, op, w))"

text \<open>The items before the block are written from the buffer, one behind the other; \<open>done\<close> is what
  lies before the pointer of the inner operation.\<close>

fun write_group :: "(itemop_t \<Rightarrow> world \<Rightarrow> item_result) \<Rightarrow> item_ele_t list \<Rightarrow> bytes \<Rightarrow> itemop_t \<Rightarrow> int \<Rightarrow> itemop_t \<Rightarrow> world \<Rightarrow> item_result" where
  "write_group wr [] done bak fail op w = Inr (ITORTN_INVALID, op\<lparr>io_buf := done @ io_buf bak\<rparr>, w)"
| "write_group wr (e # es) done bak fail op w =
     (if ie_id e = io_id op then Inr (fail, op\<lparr>io_buf := done @ io_buf bak\<rparr>, w)
      else
        (case wr (bak\<lparr>io_id := ie_id e\<rparr>) w of
           Inl s \<Rightarrow> Inl s
         | Inr (rtn, bak, w) \<Rightarrow>
             if rtn = ITORTN_INVALID then Inr (ITORTN_INVALID, op\<lparr>io_buf := done @ io_buf bak\<rparr>, w)
             else
               (let fail = (if rtn \<noteq> 0 then rtn else fail);
                    n = io_actlen bak;
                    op = op\<lparr>io_actlen := io_actlen op + n\<rparr>
                in if io_actlen op > io_maxlen op then Inr (ITORTN_INVALID, op\<lparr>io_buf := done @ io_buf bak\<rparr>, w)
                   else write_group wr es (done @ take (unat n) (io_buf bak))
                          (bak\<lparr>io_buf := drop (unat n) (io_buf bak), io_maxlen := io_maxlen bak - n\<rparr>) fail op w)))"

text \<open>A block calls the function again for its items; no item of a block is a block, so that two
  levels are enough.\<close>

fun write_item_n :: "nat \<Rightarrow> itemop_t \<Rightarrow> world \<Rightarrow> item_result" where
  "write_item_n 0 op w = Inl ItemStuck"
| "write_item_n (Suc level) op w =
     (let op = op\<lparr>io_actlen := 0\<rparr> in
      case find_grp (io_id op AND 0xfff0) g_item_grp of
        None \<Rightarrow> Inr (ITORTN_INVALID, op, w)
      | Some (flag, items) \<Rightarrow>
          if \<not> grp_mid_ok flag (io_mid op) then Inr (ITORTN_INVALID, op, w)
          else (case find_item (io_id op) items of
            None \<Rightarrow> Inr (ITORTN_INVALID, op, w)
          | Some e \<Rightarrow>
              if ie_datalen e > io_maxlen op then Inr (ITORTN_INVALID, op, w)
              else
                (let op = op\<lparr>io_actlen := ie_datalen e\<rparr> in
                 if ie_flag e AND ITOFLAG_WO = 0 then Inr (ITORTN_OPFAIL, op, w)
                 else if ie_flag e AND ITOFLAG_HIGHLEVEL \<noteq> 0 \<and> io_level op \<noteq> ITEMOP_HIGHLEVEL then Inr (ITORTN_PWDERR, op, w)
                 else if ie_flag e AND ITOFLAG_GROUP \<noteq> 0 then
                   write_group (write_item_n level) items [] (op\<lparr>io_actlen := 0\<rparr>) 0 (op\<lparr>io_actlen := 0\<rparr>) w
                 else write_elem e op w)))"

definition write_item :: "itemop_t \<Rightarrow> world \<Rightarrow> item_result" where
  "write_item = write_item_n 2"

definition mem_read :: "item_func \<Rightarrow> (bytes \<Rightarrow> bytes) \<Rightarrow> itemop_t \<Rightarrow> world \<Rightarrow> item_result" where
  "mem_read f conv op w =
     (case f of Mem sel _ \<Rightarrow> Inr (ITORTN_OK, put_buf 0 (conv (sel w)) op, w) | _ \<Rightarrow> Inl ItemOutOfBounds)"

definition read_elem :: "item_ele_t \<Rightarrow> itemop_t \<Rightarrow> world \<Rightarrow> item_result" where
  "read_elem e op w =
     (let kind = ie_flag e AND ITOFLAG_MASK; n = unat (ie_datalen e) in
      if kind = ITOFLAG_FUNC then
        (case ie_func e of
           Func f \<Rightarrow> (case f 0 op w of
             Inl s \<Rightarrow> Inl s
           | Inr (rtn, op, w) \<Rightarrow>
               Inr (if rtn \<noteq> 0 then ITORTN_INVALID else if io_maxlen op < io_actlen op then ITORTN_INVALID else ITORTN_OK, op, w))
         | NoFunc \<Rightarrow> Inr (ITORTN_INVALID, op, w)
         | _ \<Rightarrow> Inl ItemOutOfBounds)
      else if kind = ITOFLAG_COPY then mem_read (ie_func e) (take n) op w
      else if kind = ITOFLAG_BCD then mem_read (ie_func e) (\<lambda>bs. hextobcd (take n bs)) op w
      else if kind = ITOFLAG_SET00 then Inr (ITORTN_OK, put_buf 0 (replicate n 0) op, w)
      else if kind = ITOFLAG_SETAA then Inr (ITORTN_OK, put_buf 0 (replicate n 0xaa) op, w)
      else if kind = ITOFLAG_SETFF then Inr (ITORTN_OK, put_buf 0 (replicate n 0xff) op, w)
      else if kind = ITOFLAG_SHORTBCD then
        mem_read (ie_func e) (\<lambda>bs. fst (ltobcd (ucast (u16_of (bs ! 0) (bs ! 1))) n)) op w
      else if kind = ITOFLAG_LONGBCD then
        mem_read (ie_func e) (\<lambda>bs. fst (ltobcd (u32_of (bs ! 0) (bs ! 1) (bs ! 2) (bs ! 3)) n)) op w
      else Inr (ITORTN_INVALID, op, w))"

fun read_group :: "(itemop_t \<Rightarrow> world \<Rightarrow> item_result) \<Rightarrow> item_ele_t list \<Rightarrow> bytes \<Rightarrow> itemop_t \<Rightarrow> itemop_t \<Rightarrow> world \<Rightarrow> item_result" where
  "read_group rd [] done bak op w = Inr (ITORTN_INVALID, op\<lparr>io_buf := done @ io_buf bak\<rparr>, w)"
| "read_group rd (e # es) done bak op w =
     (if ie_id e = io_id op then Inr (ITORTN_OK, op\<lparr>io_buf := done @ io_buf bak\<rparr>, w)
      else
        (case rd (bak\<lparr>io_id := ie_id e, io_actlen := 0\<rparr>) w of
           Inl s \<Rightarrow> Inl s
         | Inr (rtn, bak, w) \<Rightarrow>
             if rtn \<noteq> 0 then Inr (ITORTN_INVALID, op\<lparr>io_buf := done @ io_buf bak, io_actlen := 0\<rparr>, w)
             else
               (let n = io_actlen bak;
                    op = op\<lparr>io_actlen := io_actlen op + n\<rparr>
                in if io_actlen op > io_maxlen op then Inr (ITORTN_INVALID, op\<lparr>io_buf := done @ io_buf bak\<rparr>, w)
                   else read_group rd es (done @ take (unat n) (io_buf bak))
                          (bak\<lparr>io_buf := drop (unat n) (io_buf bak), io_maxlen := io_maxlen bak - n\<rparr>) op w)))"

fun read_item_n :: "nat \<Rightarrow> itemop_t \<Rightarrow> world \<Rightarrow> item_result" where
  "read_item_n 0 op w = Inl ItemStuck"
| "read_item_n (Suc level) op w =
     (let op = op\<lparr>io_actlen := 0\<rparr> in
      case find_grp (io_id op AND 0xfff0) g_item_grp of
        None \<Rightarrow> Inr (ITORTN_INVALID, op, w)
      | Some (flag, items) \<Rightarrow>
          if flag AND 0xf000 = ITEMGRP_FLAG_MET \<or> io_mid op \<noteq> 0 then Inr (ITORTN_INVALID, op, w)
          else (case find_item (io_id op) items of
            None \<Rightarrow> Inr (ITORTN_INVALID, op, w)
          | Some e \<Rightarrow>
              if ie_datalen e > io_maxlen op then Inr (ITORTN_INVALID, op, w)
              else if ie_flag e AND ITOFLAG_RO = 0 then Inr (ITORTN_OPFAIL, op, w)
              else
                (let op = op\<lparr>io_actlen := ie_datalen e\<rparr> in
                 if ie_flag e AND ITOFLAG_GROUP \<noteq> 0 then
                   read_group (read_item_n level) items [] (op\<lparr>io_actlen := 0\<rparr>) (op\<lparr>io_actlen := 0\<rparr>) w
                 else read_elem e op w)))"

definition read_item :: "itemop_t \<Rightarrow> world \<Rightarrow> item_result" where
  "read_item = read_item_n 2"

subsection \<open>Specification\<close>

definition world_shape :: "world \<Rightarrow> bool" where
  "world_shape w \<longleftrightarrow>
     para_shape (w_term w) \<and> length (w_termip w) = 161 \<and> length (w_userinfo w) = 198 \<and> length (w_mac w) = 6 \<and>
     length (w_scenes w) = MAX_SCENECLASS \<and> (\<forall>s\<in>set (w_scenes w). length s = SCENE_SIZE) \<and>
     length (w_tasks w) = MAX_TIMERTASK \<and> (\<forall>s\<in>set (w_tasks w). length s = TASK_SIZE)"

text \<open>What every table entry promises about writing: the buffer keeps its size, an error leaves
  everything as it was, the flags of what has to be saved are left to the caller, and the
  structures keep their sizes.\<close>

definition same_frame :: "itemop_t \<Rightarrow> itemop_t \<Rightarrow> bool" where
  "same_frame op op' \<longleftrightarrow> io_maxlen op' = io_maxlen op \<and> io_actlen op' = io_actlen op \<and> io_level op' = io_level op \<and>
     length (io_buf op') = length (io_buf op)"

definition kept :: "itemop_t \<Rightarrow> world \<Rightarrow> int \<Rightarrow> itemop_t \<Rightarrow> world \<Rightarrow> bool" where
  "kept op w r op' w' \<longleftrightarrow> same_frame op op' \<and> w_saveflag w' = w_saveflag w \<and> (world_shape w \<longrightarrow> world_shape w') \<and> (r \<noteq> 0 \<longrightarrow> w' = w)"

definition writes_ok :: "(nat \<Rightarrow> itemop_t \<Rightarrow> world \<Rightarrow> item_result) \<Rightarrow> nat \<Rightarrow> bool" where
  "writes_ok f n \<longleftrightarrow>
     (\<forall>op w r op' w'. n \<le> length (io_buf op) \<longrightarrow> f 1 op w = Inr (r, op', w') \<longrightarrow> kept op w r op' w')"

definition rows :: "nat \<Rightarrow> nat \<Rightarrow> bytes list \<Rightarrow> bool" where
  "rows k n xs \<longleftrightarrow> length xs = k \<and> (\<forall>s\<in>set xs. length s = n)"

abbreviation writable :: "item_ele_t \<Rightarrow> bool" where "writable e \<equiv> ie_flag e AND ITOFLAG_WO \<noteq> 0"

abbreviation block :: "item_ele_t \<Rightarrow> bool" where "block e \<equiv> ie_flag e AND ITOFLAG_GROUP \<noteq> 0"

definition mem_ok :: "item_func \<Rightarrow> nat \<Rightarrow> bool" where
  "mem_ok f n \<longleftrightarrow> (case f of Mem _ upd \<Rightarrow>
       \<forall>bs w. length bs = n \<longrightarrow> w_saveflag (upd bs w) = w_saveflag w \<and> (world_shape w \<longrightarrow> world_shape (upd bs w))
     | _ \<Rightarrow> True)"

definition func_ok :: "item_func \<Rightarrow> nat \<Rightarrow> bool" where
  "func_ok f n \<longleftrightarrow> (case f of Func h \<Rightarrow> writes_ok h n | _ \<Rightarrow> True)"

definition entry_ok :: "item_ele_t \<Rightarrow> bool" where
  "entry_ok e \<longleftrightarrow>
     (let kind = ie_flag e AND ITOFLAG_MASK; n = unat (ie_datalen e) in
      ie_savflag e \<in> {0, 1, 2, 8, 16} \<and> (block e \<longleftrightarrow> ie_id e AND 0x0f = 0x0f) \<and>
      (writable e \<and> \<not> block e \<longrightarrow>
         kind = ITOFLAG_FUNC \<and> func_ok (ie_func e) n \<or> kind = ITOFLAG_COPY \<and> mem_ok (ie_func e) n \<or> kind = ITOFLAG_SET00))"

text \<open>The buffer of an operation holds as many bytes as it says.\<close>

definition buf_ok :: "itemop_t \<Rightarrow> bool" where
  "buf_ok op \<longleftrightarrow> unat (io_maxlen op) \<le> length (io_buf op)"

definition moved_on :: "itemop_t \<Rightarrow> itemop_t \<Rightarrow> bool" where
  "moved_on op op' \<longleftrightarrow> io_maxlen op' = io_maxlen op \<and> length (io_buf op') = length (io_buf op)"

definition wr_ok :: "(itemop_t \<Rightarrow> world \<Rightarrow> item_result) \<Rightarrow> (world \<Rightarrow> world \<Rightarrow> bool) \<Rightarrow> bool" where
  "wr_ok wr R \<longleftrightarrow> (\<forall>op w r op' w'. buf_ok op \<longrightarrow> wr op w = Inr (r, op', w') \<longrightarrow>
     moved_on op op' \<and> (r \<noteq> ITORTN_INVALID \<longrightarrow> io_actlen op' \<le> io_maxlen op') \<and> R w w')"

text \<open>The flags that a write may add, and the sizes of the structures.\<close>

definition flags_grow :: "world \<Rightarrow> world \<Rightarrow> bool" where
  "flags_grow a b \<longleftrightarrow> (\<forall>i. bit (w_saveflag b) i \<longrightarrow> bit (w_saveflag a) i \<or> i \<in> {0, 1, 3, 4})"

definition shape_kept :: "world \<Rightarrow> world \<Rightarrow> bool" where
  "shape_kept a b \<longleftrightarrow> (world_shape a \<longrightarrow> world_shape b)"

text \<open>A sequence of writes.\<close>

fun write_items :: "itemop_t list \<Rightarrow> world \<Rightarrow> item_stop + world" where
  "write_items [] w = Inr w"
| "write_items (op # ops) w = (case write_item op w of Inl s \<Rightarrow> Inl s | Inr (_, _, w) \<Rightarrow> write_items ops w)"

definition example_tm :: tm where
  "example_tm = \<lparr>tm_sec = 5, tm_min = 4, tm_hour = 3, tm_mday = 1, tm_mon = 5, tm_year = 117, tm_wday = 4\<rparr>"

definition example_world :: world where
  "example_world = \<lparr>w_term = example_para, w_termip = replicate 161 0, w_userinfo = replicate 198 0, w_mac = replicate 6 0,
     w_sceneflag = 0x3f, w_scenes = replicate 16 (replicate 370 0), w_tasks = replicate 10 (replicate 374 0), w_hard = replicate 18 0,
     w_saveflag = 0, w_ctimers = empty_ctimers, w_sampling_id = - 1, w_metid = 0,
     w_clock = \<lparr>UTimeCurrent = 0, ClockCurrent = example_clock 3 4 5, ClockSysStart = example_clock 3 0 0\<rparr>,
     w_rtimers = empty_rtimers, w_times = (\<lambda>_. (example_tm, example_tm)), w_reads = 0, w_ext = example_clock 3 4 5, w_xin = xin_idle\<rparr>"

definition example_op :: "u16 \<Rightarrow> u8 \<Rightarrow> bytes \<Rightarrow> itemop_t" where
  "example_op cid level bs = \<lparr>io_id = cid, io_maxlen = 400, io_buf = bs @ replicate (400 - length bs) 0, io_actlen = 0, io_mid = 0, io_level = level\<rparr>"

text \<open>What an item that is copied reads is what was written.\<close>

definition mem_lens :: "item_func \<Rightarrow> nat \<Rightarrow> bool" where
  "mem_lens f n \<longleftrightarrow> (case f of Mem sel upd \<Rightarrow>
       \<forall>bs w v. length bs = n \<longrightarrow> world_shape w \<longrightarrow> take n (sel ((upd bs w)\<lparr>w_saveflag := v\<rparr>)) = bs
     | _ \<Rightarrow> True)"

definition lens_ok :: "item_ele_t \<Rightarrow> bool" where
  "lens_ok e \<longleftrightarrow> (ie_flag e AND ITOFLAG_MASK = ITOFLAG_COPY \<and> writable e \<longrightarrow> mem_lens (ie_func e) (unat (ie_datalen e)))"

subsection \<open>Lemmas\<close>

lemma writes_okI:
  "(\<And>op w r op' w'. n \<le> length (io_buf op) \<Longrightarrow> f 1 op w = Inr (r, op', w') \<Longrightarrow> kept op w r op' w') \<Longrightarrow> writes_ok f n"
  by (auto simp: writes_ok_def)

lemma kept_refl: "kept op w r op w"
  by (simp add: kept_def same_frame_def)

lemma length_put_buf: "i + length bs \<le> length (io_buf op) \<Longrightarrow> length (io_buf (put_buf i bs op)) = length (io_buf op)"
  by (simp add: put_buf_def)

lemma same_frame_put: "i + length bs \<le> length (io_buf op) \<Longrightarrow> same_frame op (put_buf i bs op)"
  by (simp add: same_frame_def put_buf_def)

lemma same_frame_rev: "i + n \<le> length (io_buf op) \<Longrightarrow> same_frame op (rev_buf i n op)"
  by (simp add: rev_buf_def same_frame_put)

lemma same_frame_refl: "same_frame op op"
  by (simp add: same_frame_def)

lemma same_frame_trans: "same_frame a b \<Longrightarrow> same_frame b c \<Longrightarrow> same_frame a c"
  by (simp add: same_frame_def)

lemma same_frame_len: "same_frame a b \<Longrightarrow> length (io_buf b) = length (io_buf a)"
  by (simp add: same_frame_def)

lemma kept_term:
  assumes "same_frame op op'" "para_shape (w_term w) \<Longrightarrow> para_shape p"
  shows "kept op w 0 op' (w\<lparr>w_term := p\<rparr>)"
  using assms by (simp add: kept_def world_shape_def)

lemmas frame_intros = same_frame_put same_frame_rev same_frame_refl

lemma set_svraddr_shape: "length a = 10 \<Longrightarrow> para_shape p \<Longrightarrow> para_shape (set_svraddr i a p)"
  by (simp add: set_svraddr_def para_shape_def)

lemma get_svraddr_length: "para_shape p \<Longrightarrow> length (get_svraddr i p) = 10"
  by (simp add: get_svraddr_def para_shape_def)

lemma set_length:
  "length (set_chn c a) = length a" "length (set_port p a) = length a"
  "length a = 10 \<Longrightarrow> length ip = 4 \<Longrightarrow> length (set_ip ip a) = 10"
  "length a = 10 \<Longrightarrow> length ph = 8 \<Longrightarrow> length (set_phone ph a) = 10"
  by (simp_all add: set_chn_def set_port_def set_ip_def set_phone_def)

lemma world_shape_others [simp]:
  "world_shape (w\<lparr>w_ctimers := c\<rparr>) = world_shape w" "world_shape (w\<lparr>w_sampling_id := i\<rparr>) = world_shape w"
  "world_shape (w\<lparr>w_metid := m\<rparr>) = world_shape w" "world_shape (w\<lparr>w_clock := k\<rparr>) = world_shape w"
  "world_shape (w\<lparr>w_reads := n\<rparr>) = world_shape w" "world_shape (w\<lparr>w_ext := e\<rparr>) = world_shape w"
  "world_shape (w\<lparr>w_rtimers := rt\<rparr>) = world_shape w" "world_shape (w\<lparr>w_xin := x\<rparr>) = world_shape w"
  "world_shape (w\<lparr>w_saveflag := f\<rparr>) = world_shape w"
  by (simp_all add: world_shape_def)

lemma kept_ctimers: "kept op w 0 op' w' \<Longrightarrow> kept op w 0 op' (w'\<lparr>w_ctimers := c\<rparr>)"
  by (simp add: kept_def)

lemma kept_if: "kept op w r op' w1 \<Longrightarrow> kept op w r op' w2 \<Longrightarrow> kept op w r op' (if b then w1 else w2)"
  by simp

lemma writes_svraddr: "writes_ok paraterm_svraddr 9"
proof (rule writes_okI)
  fix op w r op' w'
  assume n: "9 \<le> length (io_buf op)" and f: "paraterm_svraddr 1 op w = Inr (r, op', w')"
  let ?op = "put_buf 8 [of_bcd (buf op 8)] op"
  have b: "same_frame op ?op" using n by (intro same_frame_put) simp
  have b2: "same_frame op (rev_buf 2 4 ?op)" "same_frame op (rev_buf 0 8 ?op)"
    using b same_frame_rev[of 2 4 ?op] same_frame_rev[of 0 8 ?op] n same_frame_len[OF b] by (auto intro: same_frame_trans)
  have l: "length (take 4 (drop 2 (io_buf (rev_buf 2 4 ?op)))) = 4" "length (take 8 (io_buf (rev_buf 0 8 ?op))) = 8"
    using n same_frame_len[OF b2(1)] same_frame_len[OF b2(2)] by simp_all
  have a: "length (set_ip (take 4 (drop 2 (io_buf (rev_buf 2 4 ?op)))) (set_port q (set_chn c (get_svraddr i (w_term w))))) = 10"
      "length (set_chn c (set_phone (take 8 (io_buf (rev_buf 0 8 ?op))) (get_svraddr i (w_term w)))) = 10"
    if "para_shape (w_term w)" for q c i
    using get_svraddr_length[OF that, of i] l by (simp_all add: set_length)
  have k: "kept op v r ?op v" if "r \<noteq> 0" for r v using b by (simp add: kept_def)
  show "kept op w r op' w'"
    using f by (auto simp: paraterm_svraddr_def Let_def ok_def ITORTN_OPFAIL_def
        intro!: kept_ctimers kept_term b2 set_svraddr_shape a k split: if_splits)
qed

lemma writes_gateaddr: "writes_ok paraterm_gateaddr 8"
proof (rule writes_okI)
  fix op w r op' w'
  assume n: "8 \<le> length (io_buf op)" and f: "paraterm_gateaddr 1 op w = Inr (r, op', w')"
  have b: "same_frame op (rev_buf 2 4 op)" using n by (intro same_frame_rev) simp
  have l: "length (set_ip (take 4 (drop 2 (io_buf (rev_buf 2 4 op)))) (set_port q a)) = 10" if "length a = 10" for a q
    using n same_frame_len[OF b] that by (intro set_length) (simp_all add: set_length)
  show "kept op w r op' w'"
    using f b l by (auto simp: paraterm_gateaddr_def Let_def ok_def para_shape_def intro!: kept_term)
qed

lemma str_len_le: "str_len n bs \<le> n" "str_len n bs \<le> length bs"
proof -
  have "str_len n bs \<le> length (take n bs)" unfolding str_len_def by (rule length_takeWhile_le)
  then show "str_len n bs \<le> n" "str_len n bs \<le> length bs" by simp_all
qed

lemma writes_apn: "writes_ok paraterm_apn 16"
proof (rule writes_okI)
  fix op w r op' w'
  assume n: "16 \<le> length (io_buf op)" and f: "paraterm_apn 1 op w = Inr (r, op', w')"
  show "kept op w r op' w'"
    using f str_len_le[of 15 "io_buf op"] by (auto simp: paraterm_apn_def Let_def ok_def para_shape_def string_of_def intro!: kept_term same_frame_refl)
qed

lemma writes_usrname: "writes_ok paraterm_usrname 32"
proof (rule writes_okI)
  fix op w r op' w'
  assume n: "32 \<le> length (io_buf op)" and f: "paraterm_usrname 1 op w = Inr (r, op', w')"
  show "kept op w r op' w'"
    using f str_len_le[of 31 "io_buf op"] by (auto simp: paraterm_usrname_def Let_def ok_def kept_def same_frame_refl world_shape_def)
qed

lemma upd_port_shape: "para_shape (upd_port i f p) = para_shape p"
  by (simp add: upd_port_def para_shape_def)

lemma writes_port_stopbit: "writes_ok paraterm_port_stopbit 1"
  by (rule writes_okI)
    (auto simp: paraterm_port_stopbit_def Let_def ok_def kept_refl upd_port_shape intro!: kept_term frame_intros split: if_splits)

lemma para_shape_scalars:
  "para_shape (p\<lparr>pt_task_starthour := v\<rparr>) = para_shape p" "para_shape (p\<lparr>pt_task_startdev := v\<rparr>) = para_shape p"
  "para_shape (p\<lparr>pt_hour_updaydata := v\<rparr>) = para_shape p" "para_shape (p\<lparr>pt_day_read_mondata := v\<rparr>) = para_shape p"
  "para_shape (p\<lparr>pt_hour_read_mondata := v\<rparr>) = para_shape p" "para_shape (p\<lparr>pt_day_up_mondata := v\<rparr>) = para_shape p"
  "para_shape (p\<lparr>pt_hour_up_mondata := v\<rparr>) = para_shape p" "para_shape (p\<lparr>pt_alarm_flag := f\<rparr>) = para_shape p"
  "para_shape (p\<lparr>pt_search_device := v\<rparr>) = para_shape p" "para_shape (p\<lparr>pt_plc_route_type := v\<rparr>) = para_shape p"
  by (simp_all add: para_shape_def)

lemma writes_upreaddev: "writes_ok paraterm_upreaddev 1"
  by (rule writes_okI) (auto simp: paraterm_upreaddev_def Let_def ok_def para_shape_scalars intro!: kept_term frame_intros)

lemma writes_updaydata: "writes_ok paraterm_updaydata 1"
  by (rule writes_okI) (auto simp: paraterm_updaydata_def Let_def ok_def kept_refl para_shape_scalars intro!: kept_term frame_intros split: if_splits)

lemma writes_monlastread: "writes_ok paraterm_monlastread 2"
  by (rule writes_okI) (auto simp: paraterm_monlastread_def Let_def ok_def kept_refl para_shape_scalars intro!: kept_term frame_intros split: if_splits)

lemma writes_monlastup: "writes_ok paraterm_monlastup 2"
  by (rule writes_okI) (auto simp: paraterm_monlastup_def Let_def ok_def kept_refl para_shape_scalars intro!: kept_term frame_intros split: if_splits prod.splits)

lemma length_swap23: "length (swap23 a i) = length a"
  by (simp add: swap23_def)

lemma writes_peibian_addr: "writes_ok paraterm_peibian_addr 4"
proof (rule writes_okI)
  fix op w r op' w'
  assume n: "4 \<le> length (io_buf op)" and f: "paraterm_peibian_addr 1 op w = Inr (r, op', w')"
  have b: "same_frame op (rev_buf 0 4 op)" using n by (intro same_frame_rev) simp
  then show "kept op w r op' w'"
    using f n same_frame_len[OF b] unfolding paraterm_peibian_addr_def Let_def ok_def
    by (auto simp: para_shape_def length_swap23 same_frame_def intro!: kept_term)
qed

text \<open>Scenes and tasks.\<close>

lemma set_elem_shape:
  assumes "set_elem n i bs xs = Inr ys" "n \<le> length bs" "\<forall>s\<in>set xs. length s = n"
  shows "length ys = length xs" "\<forall>s\<in>set ys. length s = n"
  using assms by (auto simp: set_elem_def split: if_splits dest: set_update_subset_insert[THEN subsetD])

lemma set_id_shape:
  assumes "set_id i v xs = Inr ys" "\<forall>s\<in>set xs. length s = n"
  shows "length ys = length xs" "\<forall>s\<in>set ys. length s = n"
  using assms by (auto simp: set_id_def split: if_splits dest: set_update_subset_insert[THEN subsetD])

lemma rows_set_elem: "set_elem n i bs xs = Inr ys \<Longrightarrow> n \<le> length bs \<Longrightarrow> rows k n xs \<Longrightarrow> rows k n ys"
  unfolding rows_def using set_elem_shape[of n i bs xs ys] by metis

lemma rows_set_id: "set_id i v xs = Inr ys \<Longrightarrow> rows k n xs \<Longrightarrow> rows k n ys"
  unfolding rows_def using set_id_shape[of i v xs ys n] by metis

lemma kept_scenes:
  assumes "same_frame op op'" "rows MAX_SCENECLASS SCENE_SIZE (w_scenes w) \<Longrightarrow> rows MAX_SCENECLASS SCENE_SIZE xs"
  shows "kept op w 0 op' (w\<lparr>w_scenes := xs\<rparr>)"
  using assms by (simp add: kept_def world_shape_def rows_def)

lemma kept_tasks:
  assumes "same_frame op op'" "rows MAX_TIMERTASK TASK_SIZE (w_tasks w) \<Longrightarrow> rows MAX_TIMERTASK TASK_SIZE xs"
  shows "kept op w 0 op' (w\<lparr>w_tasks := xs\<rparr>)"
  using assms by (simp add: kept_def world_shape_def rows_def)

lemma writes_scenelist: "writes_ok paraterm_scenelist n"
  by (rule writes_okI) (auto simp: paraterm_scenelist_def ok_def kept_refl)

lemma writes_timertasklist: "writes_ok paraterm_timertasklist n"
  by (rule writes_okI) (auto simp: paraterm_timertasklist_def ok_def kept_refl)

lemma writes_scene: "writes_ok paraterm_scene 370"
proof (rule writes_okI)
  fix op w r op' w'
  assume n: "370 \<le> length (io_buf op)" and f: "paraterm_scene 1 op w = Inr (r, op', w')"
  have n': "SCENE_SIZE \<le> length (io_buf op)" using n by (simp add: SCENE_SIZE_def)
  show "kept op w r op' w'"
    using f n' by (auto simp: paraterm_scene_def Let_def ok_def kept_refl split: if_splits option.splits sum.splits
        intro!: kept_scenes same_frame_refl dest!: sum.inject(2)[THEN iffD1] intro: rows_set_elem rows_set_id)
qed

lemma writes_timertask: "writes_ok paraterm_timertask 374"
proof (rule writes_okI)
  fix op w r op' w'
  assume n: "374 \<le> length (io_buf op)" and f: "paraterm_timertask 1 op w = Inr (r, op', w')"
  have n': "TASK_SIZE \<le> length (io_buf op)" using n by (simp add: TASK_SIZE_def)
  show "kept op w r op' w'"
    using f n' by (auto simp: paraterm_timertask_def Let_def ok_def kept_refl split: if_splits option.splits sum.splits
        intro!: kept_tasks same_frame_refl intro: rows_set_elem rows_set_id)
qed

text \<open>Commands, the clock, and the parameters of the network.\<close>

lemma writes_save_alarm:
  assumes "save_alarm_flag v op w = Inr (r, op', w')"
  shows "kept op w r op' w'"
proof -
  have s: "world_shape (w\<lparr>w_term := (w_term w)\<lparr>pt_alarm_flag := v\<rparr>\<rparr>) = world_shape w"
    by (simp add: world_shape_def para_shape_scalars)
  show ?thesis
    using assms by (auto simp: save_alarm_flag_def Let_def ok_def kept_def same_frame_refl s split: sum.splits)
qed

lemma writes_reset: "writes_ok paraterm_reset 1"
  by (rule writes_okI)
    (auto simp: paraterm_reset_def ok_def kept_refl split: if_splits intro: writes_save_alarm)

lemma writes_sampling: "writes_ok paraterm_sampling 3"
proof (rule writes_okI)
  fix op w r op' w'
  assume f: "paraterm_sampling 1 op w = Inr (r, op', w')"
  have a: "world_shape (add_sampling t m v) = world_shape v" "w_saveflag (add_sampling t m v) = w_saveflag v" for t m v
    by (simp_all add: add_sampling_def split: prod.split)
  show "kept op w r op' w'"
    using f by (auto simp: paraterm_sampling_def Let_def ok_def kept_def same_frame_refl a)
qed

lemma read_clock_kept: "world_shape (snd (read_clock w)) = world_shape w" "w_saveflag (snd (read_clock w)) = w_saveflag w"
  by (simp_all add: read_clock_def split: prod.split)

lemma writes_set_clock:
  assumes "set_clock c a b op w = Inr (r, op', w')"
  shows "r = 0 \<and> op' = op \<and> world_shape w' = world_shape w \<and> w_saveflag w' = w_saveflag w"
proof -
  let ?w = "w\<lparr>w_clock := snd (SysClockSet c (w_clock w))\<rparr>"
  show ?thesis
    using assms read_clock_kept[of ?w]
    by (auto simp: set_clock_def Let_def ok_def split: if_splits option.splits prod.splits)
qed

lemma writes_time: "writes_ok paraterm_time 6"
proof (rule writes_okI)
  fix op w r op' w'
  assume n: "6 \<le> length (io_buf op)" and f: "paraterm_time 1 op w = Inr (r, op', w')"
  have "same_frame op (put_buf 0 (bcdtohex (take 6 (io_buf op))) op)"
    using n by (intro same_frame_put) (simp add: bcdtohex_def)
  then show "kept op w r op' w'"
    using f read_clock_kept[of w] by (auto simp: paraterm_time_def Let_def kept_def split: prod.splits dest!: writes_set_clock)
qed

lemma writes_realtime: "writes_ok paraterm_realtime 2"
proof (rule writes_okI)
  fix op w r op' w'
  assume n: "2 \<le> length (io_buf op)" and f: "paraterm_realtime 1 op w = Inr (r, op', w')"
  have "same_frame op (put_buf 1 [buf op 1 AND 0x7f] op)" using n by (intro same_frame_put) simp
  then show "kept op w r op' w'"
    using f read_clock_kept[of w] by (auto simp: paraterm_realtime_def Let_def kept_def split: prod.splits dest!: writes_set_clock)
qed

lemma length_put_front: "length xs \<le> length ys \<Longrightarrow> length (put_front xs ys) = length ys"
  by (simp add: put_front_def)

lemma writes_termip: "writes_ok parauni_termip 93"
  by (rule writes_okI) (auto simp: parauni_termip_def ok_def kept_def same_frame_refl world_shape_def length_put_front)

lemma writes_userinfo: "writes_ok parauni_userinfo 198"
  by (rule writes_okI) (auto simp: parauni_userinfo_def ok_def kept_def same_frame_refl world_shape_def length_put_front)

lemma writes_termmac: "writes_ok parauni_termmac 6"
  by (rule writes_okI) (auto simp: parauni_termmac_def ok_def kept_def same_frame_refl world_shape_def length_put_front)

lemma mem_ok_term:
  assumes "\<And>bs p. length bs = n \<Longrightarrow> para_shape p \<Longrightarrow> para_shape (upd (put_front bs) p)"
  shows "mem_ok (mem_term sel upd) n"
  using assms by (auto simp: mem_ok_def mem_term_def world_shape_def)

lemma mem_ok_byte: "(\<And>f p. para_shape p \<Longrightarrow> para_shape (upd f p)) \<Longrightarrow> mem_ok (mem_byte sel upd) n"
  by (auto simp: mem_ok_def mem_byte_def world_shape_def)

lemma mem_ok_port: "mem_ok (mem_port i sel upd) n"
  by (auto simp: mem_ok_def mem_port_def world_shape_def upd_port_shape)

lemma mem_ok_alarm: "mem_ok mem_alarm_flag n"
  by (auto simp: mem_ok_def mem_alarm_flag_def world_shape_def para_shape_scalars)

lemma mem_ok_hard: "mem_ok (mem_hard off) n"
  by (auto simp: mem_ok_def mem_hard_def world_shape_def)

lemma func_ok_simps: "func_ok (Func h) n = writes_ok h n" "func_ok NoFunc n"
  by (simp_all add: func_ok_def)

lemma ele_sel [simp]:
  "ie_id (ele i fl sf n f) = i" "ie_flag (ele i fl sf n f) = fl" "ie_savflag (ele i fl sf n f) = sf"
  "ie_datalen (ele i fl sf n f) = n" "ie_func (ele i fl sf n f) = f"
  by (simp_all add: ele_def)

lemmas flag_defs = ITOFLAG_MASK_def ITOFLAG_FUNC_def ITOFLAG_COPY_def ITOFLAG_SET00_def ITOFLAG_WO_def ITOFLAG_RO_def
  ITOFLAG_GROUP_def ITOFLAG_HIGHLEVEL_def WR_def WRH_def WRC_def GRP_def SAVFLAG_PARATERM_def SAVFLAG_PARAUNI_def
  SAVFLAG_SCENE_def SAVFLAG_TIMERTASK_def

lemmas writes_lemmas = writes_svraddr writes_gateaddr writes_apn writes_usrname writes_port_stopbit writes_upreaddev
  writes_updaydata writes_monlastread writes_monlastup writes_peibian_addr writes_scenelist writes_timertasklist
  writes_scene writes_timertask writes_reset writes_sampling writes_time writes_realtime writes_termip writes_userinfo writes_termmac

lemmas writes_one = writes_port_stopbit[unfolded One_nat_def] writes_upreaddev[unfolded One_nat_def]
  writes_updaydata[unfolded One_nat_def] writes_reset[unfolded One_nat_def]

lemma entries_uni1: "list_all entry_ok g_item_uni1"
  by (simp add: g_item_uni1_def entry_ok_def Let_def flag_defs func_ok_simps writes_lemmas writes_one)

lemma entries_addr: "list_all entry_ok g_item_addr"
proof -
  have "mem_ok (mem_term pt_sms_addr pt_sms_addr_update) 8"
    by (rule mem_ok_term) (simp add: para_shape_def length_put_front)
  then show ?thesis
    by (simp add: g_item_addr_def entry_ok_def Let_def flag_defs func_ok_simps writes_lemmas writes_one)
qed

lemma entries_pwd: "list_all entry_ok g_item_pwd"
proof -
  have "mem_ok (mem_term pt_com_pwd pt_com_pwd_update) 3" "mem_ok (mem_term pt_adm_pwd pt_adm_pwd_update) 3"
    by (rule mem_ok_term, simp add: para_shape_def length_put_front)+
  then show ?thesis
    by (simp add: g_item_pwd_def entry_ok_def Let_def flag_defs func_ok_simps)
qed

lemma entries_time: "list_all entry_ok g_item_time"
  by (simp add: g_item_time_def entry_ok_def Let_def flag_defs func_ok_simps writes_lemmas writes_one)

lemma entries_port: "base \<in> {0x8700, 0x8710, 0x8720, 0x8730, 0x8780} \<Longrightarrow> list_all entry_ok (port_items base i)"
  by (elim insertE emptyE; simp add: port_items_def entry_ok_def Let_def flag_defs func_ok_simps writes_lemmas writes_one mem_ok_port)

lemma entries_ver: "list_all entry_ok g_item_ver"
  by (simp add: g_item_ver_def entry_ok_def Let_def flag_defs)

lemma entries_cfg: "list_all entry_ok g_item_cfg"
proof -
  have "mem_ok (mem_byte pt_search_device pt_search_device_update) 1" "mem_ok (mem_byte pt_plc_route_type pt_plc_route_type_update) 1"
    by (rule mem_ok_byte, simp add: para_shape_def)+
  then show ?thesis
    by (simp add: g_item_cfg_def entry_ok_def Let_def flag_defs func_ok_simps writes_lemmas writes_one mem_ok_alarm)
qed

lemma entries_caspara: "list_all entry_ok g_item_caspara"
proof -
  have "mem_ok (mem_term pt_ct pt_ct_update) 2"
    by (rule mem_ok_term) (simp add: para_shape_def length_put_front)
  then show ?thesis
    by (simp add: g_item_caspara_def entry_ok_def Let_def flag_defs func_ok_simps writes_lemmas writes_one)
qed

lemma entries_scenes: "list_all entry_ok g_item_sceneinfo"
  by (simp add: g_item_sceneinfo_def entry_ok_def Let_def flag_defs func_ok_simps writes_lemmas writes_one)

lemma entries_tasks: "list_all entry_ok g_item_timertaskinfo"
  by (simp add: g_item_timertaskinfo_def entry_ok_def Let_def flag_defs func_ok_simps writes_lemmas writes_one)

lemma table_ok: "(g, fl, items) \<in> set g_item_grp \<Longrightarrow> list_all entry_ok items"
  using entries_uni1 entries_addr entries_pwd entries_time entries_port entries_ver entries_cfg entries_caspara entries_scenes entries_tasks
  by (auto simp: g_item_grp_def)

lemma entry_in_table: "(g, fl, items) \<in> set g_item_grp \<Longrightarrow> e \<in> set items \<Longrightarrow> entry_ok e"
  using table_ok by (auto simp: list_all_iff)

text \<open>What one element write does.\<close>

lemma write_elem_effect:
  assumes "entry_ok e" "writable e" "\<not> block e" "unat (ie_datalen e) \<le> length (io_buf op)" "write_elem e op w = Inr (r, op', w')"
  shows "same_frame op op'" "world_shape w \<Longrightarrow> world_shape w'" "r \<noteq> 0 \<Longrightarrow> w' = w"
    "w_saveflag w' = w_saveflag w \<or> w_saveflag w' = w_saveflag w OR ucast (ie_savflag e)"
proof -
  let ?kind = "ie_flag e AND ITOFLAG_MASK" and ?n = "unat (ie_datalen e)"
  consider (func) "?kind = ITOFLAG_FUNC" "func_ok (ie_func e) ?n" | (copy) "?kind = ITOFLAG_COPY" "mem_ok (ie_func e) ?n"
    | (set00) "?kind = ITOFLAG_SET00"
    using assms(1-3) by (auto simp: entry_ok_def Let_def)
  then have "same_frame op op' \<and> (world_shape w \<longrightarrow> world_shape w') \<and> (r \<noteq> 0 \<longrightarrow> w' = w) \<and>
      (w_saveflag w' = w_saveflag w \<or> w_saveflag w' = w_saveflag w OR ucast (ie_savflag e))"
  proof cases
    case func
    show ?thesis
    proof (cases "ie_func e")
      case (Func h)
      obtain r1 o1 w1 where h: "h 1 op w = Inr (r1, o1, w1)" and e: "r = r1" "op' = o1"
          "w' = (if r1 = ITORTN_OK then SetSaveParamFlag (ie_savflag e) w1 else w1)"
        using assms(5) func(1) Func by (auto simp: write_elem_def Let_def split: sum.splits prod.splits)
      have "kept op w r1 o1 w1" using func(2) Func h assms(4) by (auto simp: func_ok_def writes_ok_def)
      then show ?thesis using e by (auto simp: kept_def SetSaveParamFlag_def ITORTN_OK_def)
    qed (use assms(5) func(1) in \<open>auto simp: write_elem_def Let_def same_frame_refl\<close>)
  next
    case copy
    have k: "ITOFLAG_COPY \<noteq> ITOFLAG_FUNC" by (simp add: flag_defs)
    show ?thesis
    proof (cases "ie_func e")
      case (Mem sel upd)
      have "length (take ?n (io_buf op)) = ?n" using assms(4) by simp
      then show ?thesis
        using assms(5) copy k Mem by (auto simp: write_elem_def Let_def mem_write_def mem_ok_def SetSaveParamFlag_def same_frame_refl ITORTN_OK_def)
    qed (use assms(5) copy k in \<open>auto simp: write_elem_def Let_def mem_write_def\<close>)
  next
    case set00
    have "ITOFLAG_SET00 \<noteq> ITOFLAG_FUNC" "ITOFLAG_SET00 \<noteq> ITOFLAG_COPY" "ITOFLAG_SET00 \<noteq> ITOFLAG_BCD"
      "ITOFLAG_SET00 \<noteq> ITOFLAG_SHORTBCD" "ITOFLAG_SET00 \<noteq> ITOFLAG_LONGBCD"
      by (simp_all add: flag_defs ITOFLAG_BCD_def ITOFLAG_SHORTBCD_def ITOFLAG_LONGBCD_def)
    then show ?thesis
      using assms(5) set00 by (auto simp: write_elem_def Let_def same_frame_refl)
  qed
  then show "same_frame op op'" "world_shape w \<Longrightarrow> world_shape w'" "r \<noteq> 0 \<Longrightarrow> w' = w"
    "w_saveflag w' = w_saveflag w \<or> w_saveflag w' = w_saveflag w OR ucast (ie_savflag e)" by auto
qed

lemma find_grp_in: "find_grp g grps = Some (fl, items) \<Longrightarrow> (g, fl, items) \<in> set grps"
  by (induction grps) (auto split: if_splits)

lemma find_item_in: "find_item i es = Some e \<Longrightarrow> e \<in> set es \<and> ie_id e = i"
  by (induction es) (auto split: if_splits)

lemma wr_okD:
  assumes "wr_ok wr R" "buf_ok op" "wr op w = Inr (r, op', w')"
  shows "moved_on op op'" "r \<noteq> ITORTN_INVALID \<Longrightarrow> io_actlen op' \<le> io_maxlen op'" "R w w'"
  using assms by (auto simp: wr_ok_def)

text \<open>A relation between the states before and after, kept by every single item, is kept by
  every write.\<close>

locale item_writes =
  fixes R :: "world \<Rightarrow> world \<Rightarrow> bool"
  assumes refl: "R w w"
    and trans: "R a b \<Longrightarrow> R b c \<Longrightarrow> R a c"
    and elem: "(g, fl, items) \<in> set g_item_grp \<Longrightarrow> e \<in> set items \<Longrightarrow> writable e \<Longrightarrow> \<not> block e \<Longrightarrow>
      unat (ie_datalen e) \<le> length (io_buf op) \<Longrightarrow> write_elem e op w = Inr (r, op', w') \<Longrightarrow> R w w'"
begin

lemma group_ok:
  assumes "wr_ok wr R" "buf_ok bak" "io_actlen op \<le> io_maxlen op"
    "write_group wr es done bak fail op w = Inr (r, op', w')"
  shows "io_maxlen op' = io_maxlen op \<and> length (io_buf op') = length done + length (io_buf bak) \<and>
    (r \<noteq> ITORTN_INVALID \<longrightarrow> io_actlen op' \<le> io_maxlen op') \<and> R w w'"
  using assms(2-)
proof (induction es arbitrary: "done" bak fail op w)
  case (Cons e es)
  show ?case
  proof (cases "ie_id e = io_id op")
    case True then show ?thesis using Cons.prems refl by auto
  next
    case False
    obtain r1 b1 w1 where one: "wr (bak\<lparr>io_id := ie_id e\<rparr>) w = Inr (r1, b1, w1)"
      using Cons.prems(3) False by (auto split: sum.splits prod.splits)
    have b: "buf_ok (bak\<lparr>io_id := ie_id e\<rparr>)" using Cons.prems(1) by (simp add: buf_ok_def)
    note w1 = wr_okD[OF assms(1) b one]
    have l1: "io_maxlen b1 = io_maxlen bak" "length (io_buf b1) = length (io_buf bak)"
      using w1(1) by (simp_all add: moved_on_def)
    let ?n = "io_actlen b1"
    let ?op = "op\<lparr>io_actlen := io_actlen op + ?n\<rparr>"
    show ?thesis
    proof (cases "r1 = ITORTN_INVALID \<or> io_actlen ?op > io_maxlen op")
      case True
      then show ?thesis using Cons.prems(3) False one w1(3) l1 by (auto simp: Let_def split: if_splits)
    next
      case again: False
      let ?bak = "b1\<lparr>io_buf := drop (unat ?n) (io_buf b1), io_maxlen := io_maxlen b1 - ?n\<rparr>"
      have n: "?n \<le> io_maxlen bak" using w1(2) again l1 by simp
      have n': "unat ?n \<le> unat (io_maxlen bak)" using n by (simp add: word_le_nat_alt)
      have bk: "buf_ok ?bak"
        using Cons.prems(1) n n' l1 by (simp add: buf_ok_def unat_sub)
      have go: "write_group wr es (done @ take (unat ?n) (io_buf b1)) ?bak (if r1 \<noteq> 0 then r1 else fail) ?op w1 = Inr (r, op', w')"
        using Cons.prems(3) False one again by (auto simp: Let_def)
      have le: "unat ?n \<le> length (io_buf b1)" using n' Cons.prems(1) l1 by (simp add: buf_ok_def)
      have le2: "io_actlen ?op \<le> io_maxlen ?op" using again by auto
      have IH: "io_maxlen op' = io_maxlen ?op \<and> length (io_buf op') = length (done @ take (unat ?n) (io_buf b1)) + length (io_buf ?bak) \<and>
          (r \<noteq> ITORTN_INVALID \<longrightarrow> io_actlen op' \<le> io_maxlen op') \<and> R w1 w'"
        by (rule Cons.IH[OF bk le2 go])
      have "R w w'" using IH trans[OF w1(3)] by blast
      then show ?thesis using IH le l1 by auto
    qed
  qed
qed (auto simp: refl)

lemma write_ok: "wr_ok (write_item_n level) R"
proof (induction level)
  case 0 show ?case by (simp add: wr_ok_def)
next
  case (Suc level)
  show ?case unfolding wr_ok_def
  proof (intro allI impI)
    fix op w r op' w'
    assume b: "buf_ok op" and wr: "write_item_n (Suc level) op w = Inr (r, op', w')"
    let ?op = "op\<lparr>io_actlen := 0\<rparr>"
    consider (early) "moved_on op op'" "io_actlen op' \<le> io_maxlen op'" "w' = w"
      | (grp) g fl items e where "(g, fl, items) \<in> set g_item_grp" "e \<in> set items"
          "write_group (write_item_n level) items [] ?op 0 ?op w = Inr (r, op', w')"
      | (single) g fl items e where "(g, fl, items) \<in> set g_item_grp" "e \<in> set items" "writable e" "\<not> block e"
          "ie_datalen e \<le> io_maxlen op" "write_elem e (op\<lparr>io_actlen := ie_datalen e\<rparr>) w = Inr (r, op', w')"
      using wr by (auto simp: Let_def not_less moved_on_def split: option.splits if_splits dest!: find_grp_in find_item_in)
    then show "moved_on op op' \<and> (r \<noteq> ITORTN_INVALID \<longrightarrow> io_actlen op' \<le> io_maxlen op') \<and> R w w'"
    proof cases
      case early then show ?thesis by (auto simp: refl)
    next
      case grp
      have "buf_ok ?op" using b by (simp add: buf_ok_def)
      then show ?thesis using group_ok[OF Suc.IH _ _ grp(3)] grp(2) by (auto simp: moved_on_def)
    next
      case single
      have n: "unat (ie_datalen e) \<le> length (io_buf (op\<lparr>io_actlen := ie_datalen e\<rparr>))"
        using single(5) b by (simp add: buf_ok_def word_le_nat_alt)
      have "same_frame (op\<lparr>io_actlen := ie_datalen e\<rparr>) op'"
        by (rule write_elem_effect(1)[OF entry_in_table[OF single(1,2)] single(3,4) n single(6)])
      moreover have "R w w'" by (rule elem[OF single(1,2,3,4) n single(6)])
      ultimately show ?thesis using single(5) by (simp add: same_frame_def moved_on_def)
    qed
  qed
qed

lemma write_item_rel: "buf_ok op \<Longrightarrow> write_item op w = Inr (r, op', w') \<Longrightarrow> R w w'"
  unfolding write_item_def by (rule wr_okD(3)[OF write_ok])

end

lemma savflag_bits:
  assumes "f \<in> {0, 1, 2, 8, 16 :: u8}" "bit (ucast f :: u32) i"
  shows "i \<in> {0, 1, 3, 4 :: nat}"
proof -
  have p: "(2::u32) = push_bit 1 1" "(8::u32) = push_bit 3 1" "(16::u32) = push_bit 4 1" by (simp_all add: push_bit_eq_mult)
  have "bit (1::u32) i \<longleftrightarrow> i = 0" "bit (2::u32) i \<longleftrightarrow> i = 1" "bit (8::u32) i \<longleftrightarrow> i = 3" "bit (16::u32) i \<longleftrightarrow> i = 4"
    unfolding p bit_push_bit_iff bit_1_iff by auto
  then show ?thesis using assms by auto
qed

interpretation save_flags: item_writes flags_grow
proof
  fix g fl items and e :: item_ele_t and op w r op' w'
  assume t: "(g, fl, items) \<in> set g_item_grp" "e \<in> set items" "writable e" "\<not> block e"
     "unat (ie_datalen e) \<le> length (io_buf op)" "write_elem e op w = Inr (r, op', w')"
  have e: "entry_ok e" by (rule entry_in_table[OF t(1,2)])
  have f: "ie_savflag e \<in> {0, 1, 2, 8, 16}" using e by (simp add: entry_ok_def Let_def)
  show "flags_grow w w'"
    using write_elem_effect(4)[OF e t(3-6)] savflag_bits[OF f] unfolding flags_grow_def by (metis bit_or_iff)
qed (auto simp: flags_grow_def)

interpretation shapes: item_writes shape_kept
  by unfold_locales (auto simp: shape_kept_def intro: write_elem_effect(2)[OF entry_in_table])

lemma write_items_flags:
  assumes "\<forall>op\<in>set ops. buf_ok op" "write_items ops w = Inr w'"
  shows "flags_grow w w'"
  using assms
proof (induction ops arbitrary: w)
  case Nil then show ?case by (simp add: flags_grow_def)
next
  case (Cons op ops)
  obtain r op' w1 where 1: "write_item op w = Inr (r, op', w1)" and 2: "write_items ops w1 = Inr w'"
    using Cons.prems(2) by (auto split: sum.splits)
  have "flags_grow w w1" using save_flags.write_item_rel[OF _ 1] Cons.prems(1) by simp
  moreover have "flags_grow w1 w'" using Cons.IH[OF _ 2] Cons.prems(1) by simp
  ultimately show ?case by (rule save_flags.trans)
qed

lemma SaveParam_calls:
  "fst (SaveParam w) = (if bit (w_saveflag w) 0 then [SaveTerm] else []) @ (if bit (w_saveflag w) 1 then [SaveUni] else []) @
     (if bit (w_saveflag w) 2 then [SaveSceneUse] else []) @ (if bit (w_saveflag w) 3 then [SaveTimerTask] else [])"
proof -
  have u: "[0..<4] = [0, 1, 2, 3::nat]" by code_simp
  show ?thesis by (simp add: SaveParam_def u FunctionSave_def)
qed

lemma written_saves:
  assumes "w_saveflag w = 0" "\<forall>op\<in>set ops. buf_ok op" "write_items ops w = Inr w'"
  shows "SaveSceneUse \<notin> set (fst (SaveParam w'))" "w_saveflag (snd (SaveParam w')) = 0"
  using write_items_flags[OF assms(2,3)] assms(1) by (auto simp: SaveParam_calls flags_grow_def) (simp add: SaveParam_def)

lemma find_grp_cfg: "find_grp 0x8810 g_item_grp = Some (ITEMGRP_FLAG_TERM, g_item_cfg)"
  by (simp add: g_item_grp_def)

lemma find_item_8817: "find_item 0x8817 g_item_cfg = Some (ele 0x8817 WRC SAVFLAG_PARATERM 1 (mem_byte pt_plc_route_type pt_plc_route_type_update))"
  by (simp add: g_item_cfg_def)

lemma find_grp_caspara: "find_grp 0x8820 g_item_grp = Some (ITEMGRP_FLAG_TERM, g_item_caspara)"
  by (simp add: g_item_grp_def)

lemma find_item_8820: "find_item 0x8820 g_item_caspara = Some (ele 0x8820 WR SAVFLAG_PARATERM 2 (Func paraterm_monlastread))"
  by (simp add: g_item_caspara_def)

lemma write_item_two: "write_item op w = write_item_n (Suc 1) op w"
  by (simp add: write_item_def numeral_2_eq_2)

lemma read_item_two: "read_item op w = read_item_n (Suc 1) op w"
  by (simp add: read_item_def numeral_2_eq_2)

lemmas item_eval = write_item_two read_item_two Let_def flag_defs grp_mid_ok_def ITEMGRP_FLAG_TERM_def
  ITEMGRP_FLAG_MET_def ITEMGRP_FLAG_SPEC_def example_op_def

lemma example_written:
  "write_item (example_op 0x8817 0 [5]) example_world =
     Inr (0, (example_op 0x8817 0 [5])\<lparr>io_actlen := 1\<rparr>, example_world\<lparr>w_term := example_para\<lparr>pt_plc_route_type := 5\<rparr>, w_saveflag := 1\<rparr>)"
  by (simp add: item_eval find_grp_cfg find_item_8817 write_elem_def mem_write_def mem_byte_def ITORTN_OK_def SetSaveParamFlag_def example_world_def)

text \<open>What a single item finds, written or not.\<close>

lemma write_item_elem:
  assumes "buf_ok op" "find_grp (io_id op AND 0xfff0) g_item_grp = Some (fl, items)" "find_item (io_id op) items = Some e"
    "\<not> block e" "write_item op w = Inr (r, op', w')"
  shows "w' = w \<and> r \<noteq> 0 \<or>
     writable e \<and> unat (ie_datalen e) \<le> length (io_buf op) \<and> entry_ok e \<and> ie_datalen e \<le> io_maxlen op \<and>
     write_elem e (op\<lparr>io_actlen := ie_datalen e\<rparr>) w = Inr (r, op', w')"
proof -
  have e: "entry_ok e" using entry_in_table[OF find_grp_in[OF assms(2)]] find_item_in[OF assms(3)] by blast
  have "ie_datalen e \<le> io_maxlen op \<Longrightarrow> unat (ie_datalen e) \<le> length (io_buf op)"
    using assms(1) by (simp add: buf_ok_def word_le_nat_alt)
  then show ?thesis
    using assms(2-5) e by (auto simp: write_item_two Let_def not_less ITORTN_INVALID_def ITORTN_OPFAIL_def ITORTN_PWDERR_def split: if_splits)
qed

lemma write_item_unknown:
  assumes "find_grp (io_id op AND 0xfff0) g_item_grp = None \<or>
     find_grp (io_id op AND 0xfff0) g_item_grp = Some (fl, items) \<and> find_item (io_id op) items = None"
    "write_item op w = Inr (r, op', w')"
  shows "w' = w \<and> r \<noteq> 0"
  using assms by (auto simp: write_item_two Let_def ITORTN_INVALID_def split: if_splits)

lemma single_write_effect:
  assumes "buf_ok op" "io_id op AND 0x0f \<noteq> 0x0f" "write_item op w = Inr (r, op', w')" "r \<noteq> ITORTN_OK"
  shows "w' = w"
proof -
  show ?thesis
  proof (cases "find_grp (io_id op AND 0xfff0) g_item_grp")
    case None then show ?thesis using write_item_unknown assms(3) by blast
  next
    case (Some fi)
    obtain fl items where g: "find_grp (io_id op AND 0xfff0) g_item_grp = Some (fl, items)" using Some by (cases fi) auto
    show ?thesis
    proof (cases "find_item (io_id op) items")
      case None then show ?thesis using write_item_unknown g assms(3) by blast
    next
      case (Some e)
      have e: "entry_ok e" "ie_id e = io_id op"
        using entry_in_table[OF find_grp_in[OF g]] find_item_in[OF Some] by blast+
      have nb: "\<not> block e" using e assms(2) unfolding entry_ok_def Let_def by auto
      show ?thesis
        using write_item_elem[OF assms(1) g Some nb assms(3)] write_elem_effect(3)[of e "op\<lparr>io_actlen := ie_datalen e\<rparr>" w r op' w'] nb assms(4)
        by (auto simp: ITORTN_OK_def)
    qed
  qed
qed

lemma high_level_refused:
  assumes "find_grp (io_id op AND 0xfff0) g_item_grp = Some (fl, items)" "find_item (io_id op) items = Some e"
    "ie_flag e AND ITOFLAG_HIGHLEVEL \<noteq> 0" "io_level op \<noteq> ITEMOP_HIGHLEVEL"
  shows "\<exists>r op'. write_item op w = Inr (r, op', w) \<and> r \<noteq> ITORTN_OK"
  using assms by (auto simp: write_item_two Let_def ITORTN_INVALID_def ITORTN_OPFAIL_def ITORTN_PWDERR_def ITORTN_OK_def)

lemma write_item_shape:
  assumes "world_shape w" "buf_ok op" "write_item op w = Inr (r, op', w')"
  shows "world_shape w'"
  using shapes.write_item_rel[OF assms(2,3)] assms(1) by (simp add: shape_kept_def)

text \<open>Both stop bit items of the first two ports set the stop bits of port 0.\<close>

lemma stopbits_shared: "stopbit_idx 0x8703 = 0" "stopbit_idx 0x8713 = 0" "stopbit_idx 0x8723 = 1" "stopbit_idx 0x8783 = 7"
  by code_simp+

lemma mem_lens_term:
  "(\<And>f p. sel (upd f p) = f (sel p)) \<Longrightarrow> mem_lens (mem_term sel upd) n"
  by (auto simp: mem_lens_def mem_term_def put_front_def)

lemma mem_lens_byte: "(\<And>f p. sel (upd f p) = f (sel p)) \<Longrightarrow> mem_lens (mem_byte sel upd) (Suc 0)"
  by (auto simp: mem_lens_def mem_byte_def length_Suc_conv)

lemma mem_lens_port: "(\<And>v c. sel (upd v c) = v) \<Longrightarrow> mem_lens (mem_port i sel upd) (Suc 0)"
  by (auto simp: mem_lens_def mem_port_def length_Suc_conv upd_port_def world_shape_def para_shape_def PORTCFG_NUM_def)

lemma mem_lens_alarm: "mem_lens mem_alarm_flag 4"
  by (auto simp: mem_lens_def mem_alarm_flag_def length_Suc_conv numeral_eq_Suc)

lemma lenses:
  "list_all lens_ok g_item_uni1" "list_all lens_ok g_item_addr" "list_all lens_ok g_item_pwd" "list_all lens_ok g_item_time"
  "list_all lens_ok (port_items base i)" "list_all lens_ok g_item_ver" "list_all lens_ok g_item_cfg" "list_all lens_ok g_item_caspara"
  "list_all lens_ok g_item_sceneinfo" "list_all lens_ok g_item_timertaskinfo"
  by (simp_all add: g_item_uni1_def g_item_addr_def g_item_pwd_def g_item_time_def port_items_def g_item_ver_def g_item_cfg_def
      g_item_caspara_def g_item_sceneinfo_def g_item_timertaskinfo_def lens_ok_def flag_defs mem_lens_term mem_lens_byte mem_lens_port mem_lens_alarm)

lemma entry_lens: "(g, fl, items) \<in> set g_item_grp \<Longrightarrow> e \<in> set items \<Longrightarrow> lens_ok e"
  using lenses by (auto simp: g_item_grp_def list_all_iff)

lemma table_not_met: "(g, fl, items) \<in> set g_item_grp \<Longrightarrow> fl AND 0xf000 \<noteq> ITEMGRP_FLAG_MET"
  by (auto simp: g_item_grp_def ITEMGRP_FLAG_TERM_def ITEMGRP_FLAG_SPEC_def ITEMGRP_FLAG_MET_def)

lemma copy_readback:
  assumes g: "find_grp (io_id op AND 0xfff0) g_item_grp = Some (fl, items)" "find_item (io_id op) items = Some e"
    and e: "ie_flag e AND ITOFLAG_MASK = ITOFLAG_COPY" "ie_flag e AND ITOFLAG_RO \<noteq> 0" "\<not> block e"
    and wr: "world_shape w" "buf_ok op" "write_item op w = Inr (ITORTN_OK, op', w')"
    and rd: "io_id rd = io_id op" "io_mid rd = 0" "ie_datalen e \<le> io_maxlen rd"
  shows "\<exists>rd'. read_item rd w' = Inr (ITORTN_OK, rd', w') \<and> io_actlen rd' = ie_datalen e \<and>
    take (unat (ie_datalen e)) (io_buf rd') = take (unat (ie_datalen e)) (io_buf op)"
proof -
  let ?n = "unat (ie_datalen e)"
  have t: "(io_id op AND 0xfff0, fl, items) \<in> set g_item_grp" "e \<in> set items"
    using find_grp_in[OF g(1)] find_item_in[OF g(2)] by auto
  have w: "writable e" "?n \<le> length (io_buf op)" "write_elem e (op\<lparr>io_actlen := ie_datalen e\<rparr>) w = Inr (ITORTN_OK, op', w')"
    using write_item_elem[OF wr(2) g e(3) wr(3)] by (auto simp: ITORTN_OK_def)
  have k: "ITOFLAG_COPY \<noteq> ITOFLAG_FUNC" by (simp add: flag_defs)
  obtain sel upd where f: "ie_func e = Mem sel upd" and w': "w' = SetSaveParamFlag (ie_savflag e) (upd (take ?n (io_buf op)) w)"
    using w(3) e(1) k by (auto simp: write_elem_def Let_def mem_write_def split: item_func.splits)
  have "mem_lens (ie_func e) ?n" using entry_lens[OF t] e(1) w(1) by (simp add: lens_ok_def)
  then have s: "take ?n (sel w') = take ?n (io_buf op)"
    using f w' w(2) wr(1) by (simp add: mem_lens_def SetSaveParamFlag_def)
  have l: "length (take ?n (sel w')) = ?n" using s w(2) by (metis length_take min.absorb2)
  have "read_item rd w' = Inr (ITORTN_OK, put_buf 0 (take ?n (sel w')) (rd\<lparr>io_actlen := ie_datalen e\<rparr>), w')"
    using g e rd f k table_not_met[OF t(1)] by (auto simp: read_item_two Let_def read_elem_def mem_read_def not_less)
  then show ?thesis using l s by (simp add: put_buf_def)
qed

section \<open>Properties\<close>

lemma example_world_shape: "world_shape example_world"
  by (simp add: world_shape_def example_world_def para_shape_def example_para_def MAX_SCENECLASS_def MAX_TIMERTASK_def SCENE_SIZE_def TASK_SIZE_def)

text \<open>Two levels are enough: the items of a block are no blocks.\<close>

lemma table_blocks: "(g, fl, items) \<in> set g_item_grp \<Longrightarrow> list_all (\<lambda>e. block e \<longrightarrow> ie_id e = g + 15) items"
  by (auto simp: g_item_grp_def g_item_uni1_def g_item_addr_def g_item_pwd_def g_item_time_def port_items_def g_item_ver_def g_item_cfg_def
      g_item_caspara_def g_item_sceneinfo_def g_item_timertaskinfo_def flag_defs)

lemma nonblock_level:
  assumes "io_id op AND 0x0f \<noteq> 0x0f"
  shows "write_item_n (Suc a) op w = write_item_n (Suc b) op w"
proof -
  have "\<not> block e" if "find_grp (io_id op AND 0xfff0) g_item_grp = Some (fl, items)" "find_item (io_id op) items = Some e" for fl items e
    using entry_in_table[OF find_grp_in[OF that(1)]] find_item_in[OF that(2)] assms unfolding entry_ok_def Let_def by auto
  then show ?thesis by (auto simp: Let_def split: option.split)
qed

lemma write_group_level:
  assumes "\<forall>e\<in>set es. ie_id e = cid \<or> ie_id e AND 0x0f \<noteq> 0x0f" "io_id op = cid"
  shows "write_group (write_item_n (Suc a)) es done bak fail op w = write_group (write_item_n (Suc b)) es done bak fail op w"
  using assms
proof (induction es arbitrary: "done" bak fail op w)
  case (Cons e es)
  show ?case
  proof (cases "ie_id e = io_id op")
    case False
    then have n: "io_id (bak\<lparr>io_id := ie_id e\<rparr>) AND 0x0f \<noteq> 0x0f" using Cons.prems by auto
    have IH: "write_group (write_item_n (Suc a)) es d k f (op\<lparr>io_actlen := x\<rparr>) v = write_group (write_item_n (Suc b)) es d k f (op\<lparr>io_actlen := x\<rparr>) v" for d k f x v
      by (rule Cons.IH) (use Cons.prems in auto)
    show ?thesis
      unfolding write_group.simps nonblock_level[OF n, of a _ b]
      by (simp add: Let_def IH del: write_item_n.simps split: sum.split)
  qed (simp del: write_item_n.simps)
qed simp

lemma write_levels_enough: "write_item_n (Suc (Suc n)) op w = write_item op w"
proof (cases "io_id op AND 0x0f = 0x0f")
  case False then show ?thesis unfolding write_item_two by (rule nonblock_level)
next
  case True
  have g: "write_group (write_item_n (Suc n)) items [] o1 0 o1 w = write_group (write_item_n (Suc 0)) items [] o1 0 o1 w"
    if "find_grp (io_id op AND 0xfff0) g_item_grp = Some (fl, items)" "find_item (io_id op) items = Some e" "block e" "io_id o1 = io_id op"
    for fl items e o1
  proof (rule write_group_level[where cid = "io_id op"])
    note t = table_blocks[OF find_grp_in[OF that(1)], unfolded list_all_iff]
    have i: "io_id op = (io_id op AND 0xfff0) + 15" using t find_item_in[OF that(2)] that(3) by auto
    show "\<forall>e\<in>set items. ie_id e = io_id op \<or> ie_id e AND 0x0f \<noteq> 0x0f"
    proof
      fix e' assume e': "e' \<in> set items"
      have "entry_ok e'" by (rule entry_in_table[OF find_grp_in[OF that(1)] e'])
      then show "ie_id e' = io_id op \<or> ie_id e' AND 0x0f \<noteq> 0x0f"
        using t e' i unfolding entry_ok_def Let_def by auto
    qed
  qed (use that in simp)
  show ?thesis
    unfolding write_item_two One_nat_def write_item_n.simps(2)[of "Suc n"] write_item_n.simps(2)[of "Suc 0"]
    by (auto simp: Let_def g simp del: write_item_n.simps split: option.split)
qed

subsection \<open>Properties\<close>

text \<open>C9: whatever items are written, in any order and with any contents, the saving that follows
  calls exactly the functions of the flags 0, 1 and 3, in this order, and clears the flags: the scenes
  (function 2) are never among them.\<close>

theorem written_items_saved:
  assumes "w_saveflag w = 0" "\<forall>op\<in>set ops. buf_ok op" "write_items ops w = Inr w'"
  shows "fst (SaveParam w') = (if bit (w_saveflag w') 0 then [SaveTerm] else []) @ (if bit (w_saveflag w') 1 then [SaveUni] else []) @
      (if bit (w_saveflag w') 3 then [SaveTimerTask] else []) \<and>
    SaveSceneUse \<notin> set (fst (SaveParam w')) \<and> w_saveflag (snd (SaveParam w')) = 0"
  using written_saves[OF assms] by (auto simp: SaveParam_calls)

theorem written_items_saved_witness:
  "\<exists>w'. write_items [example_op 0x8817 0 [5]] example_world = Inr w' \<and> fst (SaveParam w') = [SaveTerm]"
proof -
  let ?w = "example_world\<lparr>w_term := example_para\<lparr>pt_plc_route_type := 5\<rparr>, w_saveflag := 1\<rparr>"
  have w: "write_items [example_op 0x8817 0 [5]] example_world = Inr ?w" by (simp add: example_written)
  have b: "\<forall>op\<in>set [example_op 0x8817 0 [5]]. buf_ok op" by (simp add: buf_ok_def example_op_def)
  have "w_saveflag example_world = 0" by (simp add: example_world_def)
  from written_items_saved[OF this b w] show ?thesis using w by (auto simp: bit_1_iff)
qed

text \<open>C34: a single item (not a block) that is refused changes nothing: neither a parameter, a scene
  or a task, nor a timer, nor the flags of what has to be saved.\<close>

theorem refused_write_changes_nothing:
  assumes "buf_ok op" "io_id op AND 0x0f \<noteq> 0x0f" "write_item op w = Inr (r, op', w')" "r \<noteq> ITORTN_OK"
  shows "w' = w"
  using assms by (rule single_write_effect)

theorem refused_write_changes_nothing_witness:
  "\<exists>op'. write_item (example_op 0x8820 0 [0x24, 0x01]) example_world = Inr (1, op', example_world)"
proof -
  have "\<exists>op' w'. write_item (example_op 0x8820 0 [0x24, 0x01]) example_world = Inr (1, op', w')"
    by (simp add: item_eval find_grp_caspara find_item_8820 write_elem_def paraterm_monlastread_def of_bcd_def bcdtohex_def bcd_to_hex_byte_def buf_def ITORTN_OK_def)
  then obtain op' w' where w: "write_item (example_op 0x8820 0 [0x24, 0x01]) example_world = Inr (1, op', w')" by blast
  have "w' = example_world"
    by (rule refused_write_changes_nothing[OF _ _ w]) (simp_all add: buf_ok_def example_op_def ITORTN_OK_def)
  then show ?thesis using w by blast
qed

text \<open>An item, or a block, of high authority is refused to an operation without the high level,
  and nothing is changed.\<close>

theorem high_level_needed:
  assumes "find_grp (io_id op AND 0xfff0) g_item_grp = Some (fl, items)" "find_item (io_id op) items = Some e"
    "ie_flag e AND ITOFLAG_HIGHLEVEL \<noteq> 0" "io_level op \<noteq> ITEMOP_HIGHLEVEL"
  shows "\<exists>r op'. write_item op w = Inr (r, op', w) \<and> r \<noteq> ITORTN_OK"
  using assms by (rule high_level_refused)

theorem high_level_needed_witness:
  "\<exists>r op'. write_item (example_op 0x801f 0 []) example_world = Inr (r, op', example_world) \<and> r \<noteq> ITORTN_OK"
  by (rule high_level_needed[where fl = ITEMGRP_FLAG_TERM and items = g_item_addr and e = "ele 0x801f 0xf0 0 0 NoFunc"])
    (simp_all add: example_op_def g_item_grp_def g_item_addr_def flag_defs ITEMOP_HIGHLEVEL_def)

text \<open>C35: every write, of an item or of a block, keeps the sizes of all arrays: of the structures of
  the parameters, of the scenes and of the tasks.\<close>

theorem write_keeps_shape:
  assumes "world_shape w" "buf_ok op" "write_item op w = Inr (r, op', w')"
  shows "world_shape w'"
  using assms by (rule write_item_shape)

theorem write_keeps_shape_witness:
  "world_shape (example_world\<lparr>w_term := example_para\<lparr>pt_plc_route_type := 5\<rparr>, w_saveflag := 1\<rparr>)"
  by (rule write_keeps_shape[OF example_world_shape _ example_written]) (simp add: buf_ok_def example_op_def)

text \<open>An item that is copied reads back what was written to it.\<close>

theorem item_readback:
  assumes "find_grp (io_id op AND 0xfff0) g_item_grp = Some (fl, items)" "find_item (io_id op) items = Some e"
    and "ie_flag e AND ITOFLAG_MASK = ITOFLAG_COPY" "ie_flag e AND ITOFLAG_RO \<noteq> 0" "\<not> block e"
    and "world_shape w" "buf_ok op" "write_item op w = Inr (ITORTN_OK, op', w')"
    and "io_id rd = io_id op" "io_mid rd = 0" "ie_datalen e \<le> io_maxlen rd"
  shows "\<exists>rd'. read_item rd w' = Inr (ITORTN_OK, rd', w') \<and> io_actlen rd' = ie_datalen e \<and>
    take (unat (ie_datalen e)) (io_buf rd') = take (unat (ie_datalen e)) (io_buf op)"
  using assms by (rule copy_readback)

theorem item_readback_witness:
  "\<exists>rd' w'. read_item (example_op 0x8817 0 []) w' = Inr (0, rd', w') \<and> take 1 (io_buf rd') = [5]"
proof -
  have o: "write_item (example_op 0x8817 0 [5]) example_world =
     Inr (ITORTN_OK, (example_op 0x8817 0 [5])\<lparr>io_actlen := 1\<rparr>, example_world\<lparr>w_term := example_para\<lparr>pt_plc_route_type := 5\<rparr>, w_saveflag := 1\<rparr>)"
    by (simp add: example_written ITORTN_OK_def)
  show ?thesis
    using item_readback[where rd = "example_op 0x8817 0 []", OF _ _ _ _ _ example_world_shape _ o,
        where e = "ele 0x8817 WRC SAVFLAG_PARATERM 1 (mem_byte pt_plc_route_type pt_plc_route_type_update)"
          and fl = ITEMGRP_FLAG_TERM and items = g_item_cfg]
    by (auto simp: example_op_def find_grp_cfg find_item_8817 flag_defs buf_ok_def ITORTN_OK_def)
qed

end
