(* ===== verification/Base64.thy ===== *)
theory Base64
  imports Prelude
begin

text \<open>
  The encoding of the addresses of the music in base64 (\<open>monitor/base64.c\<close>; the decoder is also in
  \<open>monitor/monitor_task.c\<close>). The encoder reads up to the first NUL. The decoder takes four characters
  at a time up to a NUL; a text whose length is no multiple of four makes it read behind the NUL
  (\<open>None\<close>).
\<close>

definition base64char :: string where
  "base64char = ''ABCDEFGHIJKLMNOPQRSTUVWXYZabcdefghijklmnopqrstuvwxyz0123456789+/''"

definition padding_char :: char where "padding_char = CHR ''=''"

text \<open>\<open>strchr\<close> finds the terminating NUL too.\<close>

definition num_strchr :: "string \<Rightarrow> char \<Rightarrow> int" where
  "num_strchr str c =
     (let n = length (takeWhile (\<lambda>x. x \<noteq> c) str)
      in if n < length str then int n else if c = CHR 0x00 then int (length str) else - 1)"

definition join1 :: "int \<Rightarrow> int \<Rightarrow> u8" where
  "join1 t0 t1 = word_of_int ((push_bit 2 t0 AND 0xfc) OR (drop_bit 4 t1 AND 0x03))"

definition join2 :: "int \<Rightarrow> int \<Rightarrow> u8" where
  "join2 t1 t2 = word_of_int ((push_bit 4 t1 AND 0xf0) OR (drop_bit 2 t2 AND 0x0f))"

definition join3 :: "int \<Rightarrow> int \<Rightarrow> u8" where
  "join3 t2 t3 = word_of_int ((push_bit 6 t2 AND 0xc0) OR (t3 AND 0x3f))"

fun base64_decode :: "string \<Rightarrow> bytes option" where
  "base64_decode [] = Some []"
| "base64_decode (a # b # c # d # cs) =
     (let t0 = num_strchr base64char a; t1 = num_strchr base64char b;
          out = [join1 t0 t1];
          out = (if c = CHR ''='' then out
                 else
                   (let t2 = num_strchr base64char c; out = out @ [join2 t1 t2] in
                    if d = CHR ''='' then out
                    else out @ [join3 t2 (num_strchr base64char d)]))
      in map_option ((@) out) (base64_decode cs))"
| "base64_decode cs = None"

definition enc_char :: "u8 \<Rightarrow> char" where
  "enc_char trans_index = base64char ! unat trans_index"

definition enc1 :: "u8 \<Rightarrow> u8" where "enc1 a = drop_bit 2 a AND 0x3f"
definition enc2 :: "u8 \<Rightarrow> u8 \<Rightarrow> u8" where "enc2 a b = (push_bit 4 a AND 0x30) OR (drop_bit 4 b AND 0x0f)"
definition enc3 :: "u8 \<Rightarrow> u8 \<Rightarrow> u8" where "enc3 b c = (push_bit 2 b AND 0x3c) OR (drop_bit 6 c AND 0x03)"
definition enc4 :: "u8 \<Rightarrow> u8" where "enc4 c = c AND 0x3f"

fun base64_loop :: "bytes \<Rightarrow> string" where
  "base64_loop [] = []"
| "base64_loop [a] = [enc_char (enc1 a), enc_char (push_bit 4 a AND 0x30), padding_char, padding_char]"
| "base64_loop [a, b] = [enc_char (enc1 a), enc_char (enc2 a b), enc_char (push_bit 2 b AND 0x3c), padding_char]"
| "base64_loop (a # b # c # bs) =
     enc_char (enc1 a) # enc_char (enc2 a b) # enc_char (enc3 b c) # enc_char (enc4 c) # base64_loop bs"

definition base64_encode :: "bytes \<Rightarrow> string" where
  "base64_encode sourcedata = base64_loop (takeWhile (\<lambda>b. b \<noteq> 0) sourcedata)"

subsection \<open>Lemmas\<close>

lemma base64char_index: "k < 64 \<Longrightarrow> num_strchr base64char (base64char ! k) = int k \<and> base64char ! k \<noteq> CHR ''='' \<and> base64char ! k \<noteq> CHR 0x00"
proof -
  have "list_all (\<lambda>k. num_strchr base64char (base64char ! k) = int k \<and> base64char ! k \<noteq> CHR ''='' \<and> base64char ! k \<noteq> CHR 0x00) [0..<64]"
    by code_simp
  then show "k < 64 \<Longrightarrow> ?thesis" by (simp add: list_all_iff)
qed

lemma mask6: "unat (x AND 0x3f :: u8) < 64"
proof -
  have "unat (x AND 0x3f) \<le> unat (0x3f :: u8)" by (metis word_and_le1 word_le_nat_alt)
  then show ?thesis by simp
qed

lemma bit_masks:
  "bit (0x3f :: int) n \<longleftrightarrow> n < 6" "bit (0xfc :: int) n \<longleftrightarrow> 2 \<le> n \<and> n < 8" "bit (0x03 :: int) n \<longleftrightarrow> n < 2"
  "bit (0x30 :: int) n \<longleftrightarrow> 4 \<le> n \<and> n < 6" "bit (0x3c :: int) n \<longleftrightarrow> 2 \<le> n \<and> n < 6" "bit (0xc0 :: int) n \<longleftrightarrow> 6 \<le> n \<and> n < 8"
  using bit_shifted_mask[of 0 6 n] bit_shifted_mask[of 2 6 n] bit_shifted_mask[of 0 2 n] bit_shifted_mask[of 4 2 n]
    bit_shifted_mask[of 2 4 n] bit_shifted_mask[of 6 2 n] by auto

lemma enc_small: "unat (enc1 a) < 64" "unat (enc4 c) < 64"
  by (simp_all add: enc1_def enc4_def mask6)

lemmas bit_step = bit_push_bit_iff bit_drop_bit_eq comp_def bit_and_iff bit_or_iff bit_numeral_word_iff bit_word_of_int_iff
  bit_uint_iff bit_masks bit_consts len_num1 len_num0 len_bit0

lemma u8_eqI:
  assumes "bit x 0 = bit y 0" "bit x 1 = bit y 1" "bit x 2 = bit y 2" "bit x 3 = bit y 3"
    "bit x 4 = bit y 4" "bit x 5 = bit y 5" "bit x 6 = bit y 6" "bit x 7 = bit (y :: u8) 7"
  shows "x = y"
proof (rule bit_word_eqI)
  fix n assume "n < LENGTH(8)"
  then have "n \<in> {0, 1, 2, 3, 4, 5, 6, 7}" by auto
  then show "bit x n = bit y n" using assms by (elim insertE emptyE) simp_all
qed

lemma small6: assumes "x AND 0x3f = (x :: u8)" shows "unat x < 64"
  using mask6[of x] assms by simp

lemma enc_small2: "unat (enc2 a b) < 64" "unat (enc3 b c) < 64" "unat (push_bit 4 a AND 0x30 :: u8) < 64" "unat (push_bit 2 b AND 0x3c :: u8) < 64"
  unfolding enc2_def enc3_def
  by ((rule small6, rule u8_eqI; simp only: bit_step; simp), (rule small6, rule u8_eqI; simp only: bit_step; simp),
      (rule small6, rule u8_eqI; simp only: bit_step; simp), (rule small6, rule u8_eqI; simp only: bit_step; simp))

lemma idx: "unat x < 64 \<Longrightarrow> num_strchr base64char (enc_char x) = uint x \<and> enc_char x \<noteq> CHR ''=''"
  using base64char_index[of "unat x"] by (simp add: enc_char_def)

lemma decoded1: "join1 (uint (enc1 a)) (uint (enc2 a b)) = a"
  unfolding join1_def enc1_def enc2_def by (rule u8_eqI; simp only: bit_step; simp)

lemma decoded1': "join1 (uint (enc1 a)) (uint (push_bit 4 a AND 0x30 :: u8)) = a"
  unfolding join1_def enc1_def by (rule u8_eqI; simp only: bit_step; simp)

lemma decoded2: "join2 (uint (enc2 a b)) (uint (enc3 b c)) = b"
  unfolding join2_def enc2_def enc3_def by (rule u8_eqI; simp only: bit_step; simp)

lemma decoded2': "join2 (uint (enc2 a b)) (uint (push_bit 2 b AND 0x3c :: u8)) = b"
  unfolding join2_def enc2_def by (rule u8_eqI; simp only: bit_step; simp)

lemma decoded3: "join3 (uint (enc3 b c)) (uint (enc4 c)) = c"
  unfolding join3_def enc3_def enc4_def by (rule u8_eqI; simp only: bit_step; simp)

lemma decode_encode: "base64_decode (base64_loop bs) = Some bs"
proof (induction bs rule: base64_loop.induct)
  case (2 a)
  show ?case using idx[OF enc_small(1)[of a]] idx[OF enc_small2(3)[of a]] by (simp add: Let_def padding_char_def decoded1')
next
  case (3 a b)
  show ?case using idx[OF enc_small(1)[of a]] idx[OF enc_small2(1)[of a b]] idx[OF enc_small2(4)[of b]]
    by (simp add: Let_def padding_char_def decoded1 decoded2')
next
  case (4 a b c bs)
  then show ?case using idx[OF enc_small(1)[of a]] idx[OF enc_small2(1)[of a b]] idx[OF enc_small2(2)[of b c]] idx[OF enc_small(2)[of c]]
    by (simp add: Let_def decoded1 decoded2 decoded3)
qed simp

lemma encoded_chars: "\<forall>c\<in>set (base64_loop bs). c \<in> set base64char \<or> c = padding_char"
proof -
  have l: "length base64char = 64" by code_simp
  have e: "enc_char x \<in> set base64char" if "unat x < 64" for x
    using that l by (simp add: enc_char_def)
  show ?thesis
    by (induction bs rule: base64_loop.induct) (auto intro!: e enc_small enc_small2)
qed

lemma encoded_length: "length (base64_loop bs) = 4 * ((length bs + 2) div 3)"
  by (induction bs rule: base64_loop.induct) (simp_all, presburger)

subsection \<open>Properties\<close>

text \<open>C36: what the encoder makes of a text is decoded to the text up to its first NUL; it is of four characters for every
  three begun bytes, all of the alphabet or the padding.\<close>

theorem base64_roundtrip:
  "base64_decode (base64_encode src) = Some (takeWhile (\<lambda>b. b \<noteq> 0) src) \<and>
   length (base64_encode src) = 4 * ((length (takeWhile (\<lambda>b. b \<noteq> 0) src) + 2) div 3) \<and>
   set (base64_encode src) \<subseteq> insert padding_char (set base64char)"
  using encoded_chars by (auto simp: base64_encode_def decode_encode encoded_length)

end
