(* ===== verification/Monitor.thy ===== *)
theory Monitor
  imports Alarm
begin

text \<open>
  The tasks of the device (\<open>monitor/monitor_task.c\<close>): the play key, the volume keys, the search for
  the music, the record of the playing time, and the tasks for the lamps, the download and the
  update that are written but not started. What a task asks of the operating system and of the
  pins is appended to a list. A task that is not started is one function for a round of its loop. The
  threads that are started share the state of the button and the player, so their rounds are lists of single
  operations - one call of the system, one read or one write of the shared variable each -, and a step of the
  device is one operation of one thread (\<open>mon_step\<close>), in any order. The calls of \<open>Alarm\<close>
  are one operation each. Prints are left out, except for the one with a wrong format. The loops
  end on \<open>exitflag\<close>, which is never set.
\<close>

datatype action = Run string | Gpio nat u32 | Wait nat | Export nat | Dir nat u32 | Edge nat string

definition GPIO_PA :: "nat \<Rightarrow> nat" where "GPIO_PA x = x mod 32"
definition GPIO_PB :: "nat \<Rightarrow> nat" where "GPIO_PB x = 32 + x mod 32"
definition GPIO_39 :: nat where "GPIO_39 = GPIO_PB 7"
definition GPIO_42 :: nat where "GPIO_42 = GPIO_PB 10"
definition GPIO_PLAY :: nat where "GPIO_PLAY = GPIO_PB 8"
definition GPIO_KEY_ADD :: nat where "GPIO_KEY_ADD = GPIO_PA 15"
definition GPIO_KEY_SUB :: nat where "GPIO_KEY_SUB = GPIO_PA 14"
definition GPIO_LED_NET :: nat where "GPIO_LED_NET = GPIO_PA 16"
definition GPIO_LED_SYS :: nat where "GPIO_LED_SYS = GPIO_PA 17"
definition LINESTAT_OFF :: int where "LINESTAT_OFF = 0"
definition LINESTAT_ON :: int where "LINESTAT_ON = 1"
definition LOGITF_STDIO :: int where "LOGITF_STDIO = 0"
definition LOGITF_ETHER :: int where "LOGITF_ETHER = 1"
definition LOGITF_PIPE :: int where "LOGITF_PIPE = 2"
definition LOGITF_SVRCOMM :: int where "LOGITF_SVRCOMM = 3"

text \<open>A stop of the events, a number printed as the address of a string, and a command that is too
  long for its buffer.\<close>

datatype mon_stop = MonAlarm alarm_stop | BadPrint | BufferOverflow

record mon =
  m_button :: int
  m_log :: int
  m_alarm :: alarm_state
  m_audio_flag :: u8
  m_audiourl :: string
  m_line :: int
  m_login_update :: u8
  m_first_start :: u8
  m_down_music :: u8
  m_update_system :: u8
  m_out :: "action list"

text \<open>The operations of the threads: a call of the system, a write of \<open>currentButtonState\<close>, a read of it with what follows in both cases, the
  print of it as a string, the count of the playing time, the calls of \<open>Alarm\<close>, and a thread that has returned.\<close>

datatype op = Do action | SetButton int | IfButton int "op list" "op list" | PrintButton
  | CountTimes sysclock_t int | ResetTimes | UpdateEvent sysclock_t int | StartEvent sysclock_t int | Exit

definition emit :: "action list \<Rightarrow> mon \<Rightarrow> mon" where
  "emit acts m = m\<lparr>m_out := m_out m @ acts\<rparr>"

definition SysClockCilibrate :: "sysclock_t option list \<Rightarrow> clock_state \<Rightarrow> clock_state" where
  "SysClockCilibrate ans st = (case ReadExternSysClock ans of None \<Rightarrow> st | Some clock \<Rightarrow> snd (SysClockSet clock st))"

subsection \<open>Playing\<close>

definition VOICE :: string where "VOICE = ''aplay /tmp/mounts/SD-P1/voice/''"

definition play_pins :: "u32 \<Rightarrow> action list" where
  "play_pins v = [Gpio GPIO_39 v, Gpio GPIO_42 v]"

text \<open>Type 1 is music, type 0 a spoken hint; \<open>filestat\<close> is the answer of \<open>getFileDays\<close> and \<open>shock\<close>
  whether the music is there.\<close>

definition PlayVoice :: "string \<Rightarrow> int \<Rightarrow> int \<Rightarrow> bool \<Rightarrow> mon \<Rightarrow> int \<times> mon" where
  "PlayVoice filename type filestat shock m =
     (let m = emit [Run ''killall -9 madplay'', Run ''killall -9 aplay''] m;
          invalid = [Run (VOICE @ ''musicefileInvalid.wav  &''), Wait 1] @ play_pins 1
      in if type = 1 then
           (if filestat \<noteq> 0 then (- 1, emit invalid m)
            else if shock then
              (0, emit ([Run (''madplay /tmp/mounts/SD-P1/play/'' @ filename @ '' -r &''), Wait 1] @ play_pins 0) m)
            else (- 1, emit invalid m))
         else (0, emit ([Run (VOICE @ filename @ ''  &''), Wait 1] @ play_pins 1) m))"

definition hint :: "string \<Rightarrow> mon \<Rightarrow> mon" where
  "hint filename m = snd (PlayVoice filename 0 0 False m)"

text \<open>The operations of the function and its result.\<close>

definition Kaishizhendong :: "op list \<times> int" where
  "Kaishizhendong =
     (map Do ([Run ''madplay /tmp/mounts/SD-P1/play/shock.mp3 -r &'', Wait 50] @ play_pins 0) @ [SetButton 1], 0)"

definition Jilushijian :: "sysclock_t \<Rightarrow> int \<Rightarrow> mon \<Rightarrow> mon" where
  "Jilushijian clock now m = m\<lparr>m_alarm := MakeAlarmG clock now (GetCurrentAlarm (m_alarm m)) (m_alarm m)\<rparr>"

subsection \<open>The record of the playing time\<close>

text \<open>The state of the button is printed as if it were a string; only 0 (the null pointer) survives
  this, unless the interface of the prints drops them.\<close>

definition print_button :: "mon \<Rightarrow> mon_stop + mon" where
  "print_button m =
     (if m_log m \<in> {LOGITF_STDIO, LOGITF_ETHER, LOGITF_PIPE} \<and> m_button m \<noteq> 0 then Inl BadPrint else Inr m)"

definition GengxinBofang :: "sysclock_t \<Rightarrow> int \<Rightarrow> op list" where
  "GengxinBofang clock now =
     [PrintButton, IfButton 1 [CountTimes clock now] [IfButton 0 [ResetTimes] [IfButton (- 1) [ResetTimes] []]], Do (Wait 100)]"

subsection \<open>The lamps\<close>

text \<open>The test of the counter ends in a semicolon, so its block is always done.\<close>

definition NetLedTask_Monitor :: "u32 \<times> int \<times> mon \<Rightarrow> u32 \<times> int \<times> mon" where
  "NetLedTask_Monitor s =
     (case s of (lednet, cnt, m) \<Rightarrow>
       if m_audio_flag m = 1 then (lednet, cnt, emit [Gpio GPIO_LED_NET 1, Wait 10, Gpio GPIO_LED_NET 0, Wait 10, Wait 1000] m)
       else if m_line m = LINESTAT_ON then (lednet, cnt, emit [Gpio GPIO_LED_NET 0, Wait 100, Wait 1000] m)
       else if m_line m = LINESTAT_OFF then
         (if lednet = 0 then 1 else 0, 0, emit [Gpio GPIO_LED_NET lednet, Wait 1000] m)
       else (lednet, cnt, emit [Wait 1000] m))"

definition SysLedTask_Monitor :: "mon \<Rightarrow> mon" where
  "SysLedTask_Monitor m = emit [Gpio GPIO_LED_SYS 1, Wait 100, Gpio GPIO_LED_SYS 0, Wait 100] m"

subsection \<open>Download and update\<close>

definition download :: "mon \<Rightarrow> mon" where
  "download m = (emit [Run ''wifi up'', Run ''sh /opt/work/musicdownload.sh''] (m\<lparr>m_down_music := 1\<rparr>))"

definition DownLoadMusicTask_Monitor :: "int \<times> mon \<Rightarrow> mon_stop + (int \<times> mon)" where
  "DownLoadMusicTask_Monitor s =
     (case s of (firstcheck, m) \<Rightarrow>
       if \<not> (m_audio_flag m \<noteq> 0 \<or> firstcheck = 1 \<or> m_login_update m = 1) then Inr (firstcheck, emit [Wait 10] m)
       else
         (let (firstcheck, m) = (if firstcheck = 1 then (0, (download m)\<lparr>m_down_music := 0\<rparr>) else (firstcheck, m)) in
          if m_login_update m = 1 then
            Inr (firstcheck, emit [Wait 10] ((download m)\<lparr>m_login_update := 0, m_down_music := 0\<rparr>))
          else
            (let m = hint ''startdownload.wav'' (emit [Run ''wifi up''] (m\<lparr>m_down_music := 1\<rparr>));
                 m = m\<lparr>m_button := 0\<rparr>;
                 cmd = ''sh /opt/work/musicdownload.sh '' @ m_audiourl m
             in if length cmd \<ge> 512 then Inl BufferOverflow
                else
                  (let m = hint ''enddownload.wav'' (emit [Run cmd] m);
                       m = emit [Run ''wifi up''] m
                   in Inr (firstcheck, emit [Wait 10] (m\<lparr>m_down_music := 0, m_audio_flag := 0\<rparr>))))))"

definition ftup :: "mon \<Rightarrow> mon" where
  "ftup m = (emit [Run ''sh /opt/work/ftup.sh''] (m\<lparr>m_update_system := 1\<rparr>))\<lparr>m_update_system := 0\<rparr>"

definition UpdateSystemTask_Monitor :: "int \<times> mon \<Rightarrow> int \<times> mon" where
  "UpdateSystemTask_Monitor s =
     (case s of (checktime, m) \<Rightarrow>
       let (checktime, m) = (if checktime > 600 then (0, ftup m) else (checktime, m));
           (checktime, m) = (if m_login_update m = 1 then (0, (ftup m)\<lparr>m_login_update := 0\<rparr>) else (checktime, m))
       in (checktime + 1, emit [Wait 1000] m))"

subsection \<open>The play key\<close>

definition key_setup :: "nat \<Rightarrow> action list" where
  "key_setup pin = [Export pin, Dir pin 0, Edge pin ''rising'']"

definition PlayTask_start :: "mon \<Rightarrow> mon" where
  "PlayTask_start m =
     (let m = (emit (key_setup GPIO_PLAY) m)\<lparr>m_button := 0\<rparr>;
          m = hint (if m_first_start m \<noteq> 0 then ''welcome.wav'' else ''welcome1.wav'') m
      in emit [Run ''sh /opt/work/unzipmusic.sh''] m)"

definition PlayTask_Pressdown :: "u32 \<Rightarrow> int \<Rightarrow> bool \<Rightarrow> sysclock_t \<Rightarrow> int \<Rightarrow> int \<times> mon \<Rightarrow> int \<times> mon" where
  "PlayTask_Pressdown value filestat shock clock now s =
     (case s of (presstimes, m) \<Rightarrow>
       if value = 0 then (presstimes + 1, emit [Wait 1] m)
       else if value = 1 \<and> presstimes > 5 then
         (let m =
            (if m_button m = 0 then
               (if m_audio_flag m = 0 then
                  (let m = emit [Wait 600] (hint ''startplay.wav'' m);
                       (playstate, m) = PlayVoice ''shock.mp3'' 1 filestat shock m
                   in if playstate = 0 then
                        (emit [Run ''wifi up'']
                           (m\<lparr>m_alarm := MakeAlarmG clock now (GetCurrentAlarm (m_alarm m)) (m_alarm m), m_button := 1\<rparr>))
                           \<lparr>m_line := LINESTAT_OFF\<rparr>
                      else m)
                else if m_audio_flag m = 1 then hint ''downloading.wav'' m
                else m)
             else if m_button m = 1 then
               (if m_audio_flag m = 1 then hint ''downloading.wav'' m
                else if m_audio_flag m = 0 then
                  (hint ''stopplay.wav'' (emit [Run ''killall -9 madplay'', Gpio GPIO_42 1, Gpio GPIO_39 0] m))\<lparr>m_button := 0\<rparr>
                else m)
             else m)
          in (0, emit [Wait 1] m))
       else (presstimes, emit [Wait 1] m))"

definition Bofangzanting_start :: "op list" where
  "Bofangzanting_start = map Do (key_setup GPIO_PLAY) @ [SetButton 0]"

text \<open>A round with the value of the key: the counter, which is the thread's own, and the operations.\<close>

definition Bofangzanting :: "u32 \<Rightarrow> int \<Rightarrow> int \<times> op list" where
  "Bofangzanting value presstimes =
     (if value = 0 then (presstimes + 1, [Do (Wait 1)])
      else if value = 1 \<and> presstimes > 5 then
        (0, [IfButton 0
               (let (ops, playstate) = Kaishizhendong in ops @ (if playstate = 0 then [SetButton 1] else []))
               [IfButton 1 [Do (Run ''killall -9 madplay''), SetButton 0] []],
             Do (Wait 1)])
      else (presstimes, [Do (Wait 1)]))"

subsection \<open>The volume keys\<close>

definition VolumeLevel :: "nat list" where
  "VolumeLevel = [0, 40, 70, 80, 90, 100, 110, 120, 124, 127]"

definition volume_cmd :: "nat \<Rightarrow> string" where
  "volume_cmd volume =
     ''amixer cset numid=9,iface=MIXER,name='' @ [CHR 0x27] @ ''Headphone Playback Volume'' @ [CHR 0x27] @ '' '' @ dec_nat (VolumeLevel ! volume)"

record volume_t =
  v_add :: int
  v_sub :: int
  v_current :: nat

definition volume_start :: "op list" where
  "volume_start = map Do (key_setup GPIO_KEY_ADD @ key_setup GPIO_KEY_SUB)"

definition volume_up :: "volume_t \<Rightarrow> volume_t \<times> action list" where
  "volume_up v =
     (let n = (if v_current v < 9 then v_current v + 1 else v_current v)
      in (v\<lparr>v_current := n, v_add := 0\<rparr>, [Run (volume_cmd n)]))"

definition volume_down :: "nat \<Rightarrow> volume_t \<Rightarrow> volume_t \<times> action list" where
  "volume_down low v =
     (let n = (if v_current v > low then v_current v - 1 else v_current v)
      in (v\<lparr>v_current := n, v_sub := 0\<rparr>, [Run (volume_cmd n)]))"

text \<open>A round with the values of both keys; the counters and the volume are the thread's own.\<close>

definition Yinliangzengjian :: "u32 \<Rightarrow> u32 \<Rightarrow> volume_t \<Rightarrow> volume_t \<times> op list" where
  "Yinliangzengjian add sub v =
     (let (v, up) = (if add = 0 then (v\<lparr>v_add := v_add v + 1\<rparr>, [])
                     else if add = 1 \<and> v_add v > 5 then volume_up v else (v, []));
          (v, down) = (if sub = 0 then (v\<lparr>v_sub := v_sub v + 1\<rparr>, [])
                       else if sub = 1 \<and> v_sub v > 5 then volume_down 3 v else (v, []))
      in (v, map Do (up @ down @ [Wait 1])))"

definition with_mon :: "(volume_t \<Rightarrow> volume_t \<times> action list) \<Rightarrow> volume_t \<times> mon \<Rightarrow> volume_t \<times> mon" where
  "with_mon f s = (case f (fst s) of (v, acts) \<Rightarrow> (v, emit acts (snd s)))"

text \<open>The variant that is not started resets the wireless net when both keys were held, and does not
  count the plus key any more.\<close>

definition reset_wifi :: "volume_t \<times> mon \<Rightarrow> volume_t \<times> mon" where
  "reset_wifi s = (case s of (v, m) \<Rightarrow>
     (v\<lparr>v_add := 0, v_sub := 0\<rparr>,
      hint ''resetwifi.wav''
        (emit [Run (''uci set wireless.ap.encryption='' @ [CHR 0x27] @ ''none'' @ [CHR 0x27]), Run ''uci delete wireless.ap.key'', Run ''uci commit'',
               Run ''uci -c/opt/ft set ftconfig.@ftconfig[0].firststart=1'', Run ''wifi up'', Run ''wifi up''] m)))"

definition both_held :: "volume_t \<Rightarrow> bool" where
  "both_held v \<longleftrightarrow> v_sub v > 800 \<and> v_add v > 800"

definition VolumeBtn_Pressdown :: "u32 \<Rightarrow> u32 \<Rightarrow> volume_t \<times> mon \<Rightarrow> volume_t \<times> mon" where
  "VolumeBtn_Pressdown add sub s =
     (let s = (if add = 1 then
                 (let s = (if both_held (fst s) then reset_wifi s else s)
                  in if v_add (fst s) > 5 then with_mon volume_up s else s)
               else s);
          s = (if sub = 0 then
                 (let (v, m) = s; v = v\<lparr>v_sub := v_sub v + 1\<rparr>
                  in if v_sub v > 400 \<and> v_add v < 100 then (v\<lparr>v_sub := 0\<rparr>, emit [Run ''wifi up''] (hint ''disablewifi.wav'' m)) else (v, m))
               else if sub = 1 then
                 (let s = (if both_held (fst s) then reset_wifi s else s)
                  in if v_sub (fst s) > 5 then with_mon (volume_down 0) s else s)
               else s)
      in (fst s, emit [Wait 1] (snd s)))"

subsection \<open>The search for the music\<close>

definition JianceYinpin_start :: "op list" where
  "JianceYinpin_start = map Do (key_setup GPIO_PLAY) @ [SetButton 0]"

definition JianceYinpin :: "bool \<Rightarrow> op list" where
  "JianceYinpin shock =
     (if shock then map Do ([Run (VOICE @ ''2.wav  &''), Wait 600] @ play_pins 1 @ [Wait 600]) @ fst Kaishizhendong @ [Exit]
      else map Do ([Run (VOICE @ ''1.wav  &''), Wait 600] @ play_pins 1 @ [Wait 600]))"

subsection \<open>The tasks that are started\<close>

datatype thread = Event | Search | VolumeKeys | PlayKey | Recorder

text \<open>The variables of the threads, what each still has to do in its round, and the values of the play key that were read so far.\<close>

record tasks =
  t_mon :: mon
  t_volume :: volume_t
  t_press :: int
  t_times :: int
  t_ops :: "thread \<Rightarrow> op list"
  t_keys :: "u32 list"

text \<open>One operation, with what follows it. An update waits while the lock of the events is held.\<close>

fun do_op :: "op \<Rightarrow> tasks \<Rightarrow> mon_stop + (op list \<times> tasks)" where
  "do_op (Do a) t = Inr ([], t\<lparr>t_mon := emit [a] (t_mon t)\<rparr>)"
| "do_op (SetButton b) t = Inr ([], t\<lparr>t_mon := (t_mon t)\<lparr>m_button := b\<rparr>\<rparr>)"
| "do_op (IfButton b yes no) t = Inr (if m_button (t_mon t) = b then yes else no, t)"
| "do_op PrintButton t = (case print_button (t_mon t) of Inl s \<Rightarrow> Inl s | Inr m \<Rightarrow> Inr ([], t\<lparr>t_mon := m\<rparr>))"
| "do_op (CountTimes clock now) t =
     (let times = t_times t + 1 in Inr (if times \<ge> 6 then [UpdateEvent clock now, ResetTimes] else [], t\<lparr>t_times := times\<rparr>))"
| "do_op ResetTimes t = Inr ([], t\<lparr>t_times := 0\<rparr>)"
| "do_op (UpdateEvent clock now) t =
     (case UpdateAlarm clock now (GetCurrentAlarm (m_alarm (t_mon t))) (m_alarm (t_mon t)) of
        Inl s \<Rightarrow> if s = Blocked then Inr ([UpdateEvent clock now], t) else Inl (MonAlarm s)
      | Inr al \<Rightarrow> Inr ([], t\<lparr>t_mon := (t_mon t)\<lparr>m_alarm := al\<rparr>\<rparr>))"
| "do_op (StartEvent clock now) t = Inr ([], t\<lparr>t_mon := Jilushijian clock now (t_mon t)\<rparr>)"
| "do_op Exit t = Inr ([Exit], t)"

text \<open>The thread that goes on, with what it reads if it begins a round of its loop.\<close>

datatype mon_event = StartTask | Find bool | Volume u32 u32 | Play u32 | Record sysclock_t int

fun thread_of :: "mon_event \<Rightarrow> thread" where
  "thread_of StartTask = Event"
| "thread_of (Find shock) = Search"
| "thread_of (Volume add sub) = VolumeKeys"
| "thread_of (Play value) = PlayKey"
| "thread_of (Record clock now) = Recorder"

fun begin_round :: "mon_event \<Rightarrow> tasks \<Rightarrow> op list \<times> tasks" where
  "begin_round StartTask t = ([], t)"
| "begin_round (Find shock) t = (JianceYinpin shock, t)"
| "begin_round (Volume add sub) t = (let (v, ops) = Yinliangzengjian add sub (t_volume t) in (ops, t\<lparr>t_volume := v\<rparr>))"
| "begin_round (Play value) t = (let (p, ops) = Bofangzanting value (t_press t) in (ops, t\<lparr>t_press := p, t_keys := t_keys t @ [value]\<rparr>))"
| "begin_round (Record clock now) t = (GengxinBofang clock now, t)"

definition set_ops :: "thread \<Rightarrow> op list \<Rightarrow> tasks \<Rightarrow> tasks" where
  "set_ops th ops t = t\<lparr>t_ops := (t_ops t)(th := ops)\<rparr>"

definition mon_step :: "mon_event \<Rightarrow> tasks \<Rightarrow> mon_stop + tasks" where
  "mon_step e t =
     (case t_ops t (thread_of e) of
        [] \<Rightarrow> (case begin_round e t of (ops, t) \<Rightarrow> Inr (set_ops (thread_of e) ops t))
      | x # rest \<Rightarrow>
          (case do_op x t of Inl s \<Rightarrow> Inl s | Inr (ops, t) \<Rightarrow> Inr (set_ops (thread_of e) (ops @ rest) t)))"

fun mon_run :: "mon_event list \<Rightarrow> tasks \<Rightarrow> mon_stop + tasks" where
  "mon_run [] t = Inr t"
| "mon_run (e # es) t = (case mon_step e t of Inl s \<Rightarrow> Inl s | Inr t \<Rightarrow> mon_run es t)"

text \<open>The start of the threads: each begins with what stands before its loop, and the first one only starts an event. Nothing is said of
  when a thread first runs.\<close>

definition start_ops :: "sysclock_t \<Rightarrow> int \<Rightarrow> thread \<Rightarrow> op list" where
  "start_ops clock now th =
     (case th of
        Event \<Rightarrow> [StartEvent clock now, Exit]
      | Search \<Rightarrow> JianceYinpin_start
      | VolumeKeys \<Rightarrow> volume_start
      | PlayKey \<Rightarrow> Bofangzanting_start
      | Recorder \<Rightarrow> [])"

definition MonitorTaskInit :: "sysclock_t \<Rightarrow> int \<Rightarrow> mon \<Rightarrow> tasks" where
  "MonitorTaskInit clock now m =
     \<lparr>t_mon = m, t_volume = \<lparr>v_add = 0, v_sub = 0, v_current = 9\<rparr>, t_press = 0, t_times = 0, t_ops = start_ops clock now, t_keys = []\<rparr>"

definition t_found :: "tasks \<Rightarrow> bool" where "t_found t \<longleftrightarrow> t_ops t Search = [Exit]"

subsection \<open>Specification\<close>

definition madplay :: string where "madplay = ''madplay /tmp/mounts/SD-P1/play/shock.mp3 -r &''"

definition killall :: string where "killall = ''killall -9 madplay''"

text \<open>All that the threads ever ask for.\<close>

definition loop_actions :: "action set" where
  "loop_actions =
     {Run madplay, Run killall, Run (VOICE @ ''1.wav  &''), Run (VOICE @ ''2.wav  &''),
      Gpio GPIO_39 0, Gpio GPIO_39 1, Gpio GPIO_42 0, Gpio GPIO_42 1, Wait 1, Wait 50, Wait 100, Wait 600} \<union>
     (\<lambda>n. Run (volume_cmd n)) ` {3..9} \<union> set (key_setup GPIO_PLAY @ key_setup GPIO_KEY_ADD @ key_setup GPIO_KEY_SUB)"

text \<open>Whether the player runs after some actions.\<close>

fun player :: "action list \<Rightarrow> int \<Rightarrow> int" where
  "player [] b = b"
| "player (a # as) b = player as (if a = Run madplay then 1 else if a = Run killall then 0 else b)"

text \<open>The operations that can be reached in a list, and what they may be.\<close>

fun atoms :: "op \<Rightarrow> op list" where
  "atoms (IfButton b yes no) = concat (map atoms yes) @ concat (map atoms no)"
| "atoms x = [x]"

definition only :: "(op \<Rightarrow> bool) \<Rightarrow> op list \<Rightarrow> bool" where
  "only P ops \<longleftrightarrow> list_all (\<lambda>x. list_all P (atoms x)) ops"

fun op_ok :: "op \<Rightarrow> bool" where
  "op_ok (Do a) \<longleftrightarrow> a \<in> loop_actions"
| "op_ok (SetButton b) \<longleftrightarrow> b \<in> {0, 1}"
| "op_ok x \<longleftrightarrow> True"

text \<open>An operation that has nothing to do with the player and its state.\<close>

fun quiet :: "op \<Rightarrow> bool" where
  "quiet (Do a) \<longleftrightarrow> a \<noteq> Run madplay \<and> a \<noteq> Run killall"
| "quiet (SetButton b) \<longleftrightarrow> False"
| "quiet x \<longleftrightarrow> True"

definition tasks_ok :: "tasks \<Rightarrow> bool" where
  "tasks_ok t \<longleftrightarrow> (\<forall>th. only op_ok (t_ops t th)) \<and> (\<forall>th \<in> {Event, VolumeKeys, Recorder}. only quiet (t_ops t th)) \<and> v_current (t_volume t) \<in> {3..9}"

text \<open>The button and the player after a thread has done its operations alone.\<close>

function settle :: "op list \<Rightarrow> int \<times> int \<Rightarrow> int \<times> int" where
  "settle [] s = s"
| "settle (Do a # ops) s = settle ops (fst s, player [a] (snd s))"
| "settle (SetButton b # ops) s = settle ops (b, snd s)"
| "settle (IfButton b yes no # ops) s = settle ((if fst s = b then yes else no) @ ops) s"
| "settle (PrintButton # ops) s = settle ops s"
| "settle (CountTimes clock now # ops) s = settle ops s"
| "settle (ResetTimes # ops) s = settle ops s"
| "settle (UpdateEvent clock now # ops) s = settle ops s"
| "settle (StartEvent clock now # ops) s = settle ops s"
| "settle (Exit # ops) s = settle ops s"
  by pat_completeness auto
termination by (relation "measure (\<lambda>(ops, s). size_list size ops)") auto

text \<open>The button, once the play key has done what it has begun.\<close>

definition button_then :: "tasks \<Rightarrow> int" where
  "button_then t = fst (settle (t_ops t PlayKey) (m_button (t_mon t), 0))"

text \<open>The presses that count among the samples of a key: a sample 1 after more than five samples 0 that no
  press has used up.\<close>

fun presses :: "u32 list \<Rightarrow> int \<Rightarrow> nat \<times> int" where
  "presses [] k = (0, k)"
| "presses (v # vs) k =
     (if v = 0 then presses vs (k + 1)
      else if v = 1 \<and> k > 5 then (case presses vs 0 of (n, k') \<Rightarrow> (Suc n, k'))
      else presses vs k)"

definition toggled :: "nat \<Rightarrow> int \<Rightarrow> int" where
  "toggled n b = (if even n then b else 1 - b)"

text \<open>What the presses make of the button and the player: the first one makes them agree.\<close>

definition pressed :: "nat \<Rightarrow> int \<times> int \<Rightarrow> int \<times> int" where
  "pressed n s = (if n = 0 then s else (toggled n (fst s), toggled n (fst s)))"

definition example_mon :: mon where
  "example_mon = \<lparr>m_button = - 1, m_log = LOGITF_SVRCOMM, m_alarm = full_ring, m_audio_flag = 0, m_audiourl = [], m_line = 0,
     m_login_update = 0, m_first_start = 0, m_down_music = 0, m_update_system = 0, m_out = []\<rparr>"

definition example_tasks :: "int \<Rightarrow> tasks" where
  "example_tasks b = \<lparr>t_mon = example_mon\<lparr>m_button := b\<rparr>, t_volume = \<lparr>v_add = 0, v_sub = 0, v_current = 9\<rparr>, t_press = 0, t_times = 0,
     t_ops = (\<lambda>_. [])(Search := [Exit]), t_keys = []\<rparr>"

subsection \<open>Lemmas\<close>

lemma player_append: "player (as @ bs) b = player bs (player as b)"
  by (induction as arbitrary: b) auto

lemma emit_out [simp]: "m_out (emit acts m) = m_out m @ acts" "m_button (emit acts m) = m_button m" "m_alarm (emit acts m) = m_alarm m"
  "m_log (emit acts m) = m_log m"
  by (simp_all add: emit_def)

lemma commands_differ: "madplay \<noteq> killall" "killall \<noteq> madplay"
  "VOICE @ c \<noteq> madplay" "VOICE @ c \<noteq> killall" "volume_cmd n \<noteq> madplay" "volume_cmd n \<noteq> killall"
  by (simp_all add: madplay_def killall_def VOICE_def volume_cmd_def)

lemma volume_in: "3 \<le> n \<Longrightarrow> n \<le> 9 \<Longrightarrow> Run (volume_cmd n) \<in> loop_actions"
  by (auto simp: loop_actions_def)

lemma fixed_in: "Run madplay \<in> loop_actions" "Run killall \<in> loop_actions" "Run (VOICE @ ''1.wav  &'') \<in> loop_actions"
  "Run (VOICE @ ''2.wav  &'') \<in> loop_actions" "Gpio GPIO_39 0 \<in> loop_actions" "Gpio GPIO_39 1 \<in> loop_actions"
  "Gpio GPIO_42 0 \<in> loop_actions" "Gpio GPIO_42 1 \<in> loop_actions" "Wait 1 \<in> loop_actions" "Wait 50 \<in> loop_actions"
  "Wait 100 \<in> loop_actions" "Wait 600 \<in> loop_actions" "Wait (Suc 0) \<in> loop_actions"
  "Export GPIO_PLAY \<in> loop_actions" "Dir GPIO_PLAY 0 \<in> loop_actions" "Edge GPIO_PLAY ''rising'' \<in> loop_actions"
  "Export GPIO_KEY_ADD \<in> loop_actions" "Dir GPIO_KEY_ADD 0 \<in> loop_actions" "Edge GPIO_KEY_ADD ''rising'' \<in> loop_actions"
  "Export GPIO_KEY_SUB \<in> loop_actions" "Dir GPIO_KEY_SUB 0 \<in> loop_actions" "Edge GPIO_KEY_SUB ''rising'' \<in> loop_actions"
  by (simp_all add: loop_actions_def key_setup_def)

lemma only_simps [simp]:
  "only P []" "only P (x # xs) \<longleftrightarrow> list_all P (atoms x) \<and> only P xs" "only P (xs @ ys) \<longleftrightarrow> only P xs \<and> only P ys"
  by (simp_all add: only_def)

lemma only_atoms [simp]: "list_all P (concat (map atoms xs)) \<longleftrightarrow> only P xs"
  by (induction xs) simp_all

lemma only_Do: "only P (map Do as) \<longleftrightarrow> list_all (\<lambda>a. P (Do a)) as"
  by (induction as) simp_all

text \<open>The written commands are the named ones.\<close>

lemma commands: "''madplay /tmp/mounts/SD-P1/play/shock.mp3 -r &'' = madplay" "''killall -9 madplay'' = killall"
  by (simp_all add: madplay_def killall_def)

lemmas round_defs = JianceYinpin_def Kaishizhendong_def Bofangzanting_def GengxinBofang_def

lemma Kaishizhendong_ok: "only op_ok (fst Kaishizhendong)"
  by (simp add: Kaishizhendong_def only_Do play_pins_def commands fixed_in)

lemma JianceYinpin_ok: "only op_ok (JianceYinpin shock)"
  by (simp add: JianceYinpin_def only_Do Kaishizhendong_ok play_pins_def fixed_in)

lemma Bofangzanting_ok: "only op_ok (snd (Bofangzanting value k))"
  by (simp add: Bofangzanting_def Kaishizhendong_def only_Do play_pins_def commands fixed_in)

lemma GengxinBofang_ok: "only op_ok (GengxinBofang clock now)" "only quiet (GengxinBofang clock now)"
  by (simp_all add: GengxinBofang_def fixed_in)

lemma volume_key:
  assumes "v_current v \<in> {3..9}"
  shows "v_current (fst (volume_up v)) \<in> {3..9}" "v_current (fst (volume_down 3 v)) \<in> {3..9}"
    "list_all (\<lambda>a. a \<in> loop_actions \<and> a \<noteq> Run madplay \<and> a \<noteq> Run killall) (snd (volume_up v))"
    "list_all (\<lambda>a. a \<in> loop_actions \<and> a \<noteq> Run madplay \<and> a \<noteq> Run killall) (snd (volume_down 3 v))"
  using assms by (auto simp: volume_up_def volume_down_def volume_in commands_differ Let_def)

lemma Yinliangzengjian_ok:
  assumes "v_current v \<in> {3..9}"
  shows "v_current (fst (Yinliangzengjian add sub v)) \<in> {3..9}" "only op_ok (snd (Yinliangzengjian add sub v))" "only quiet (snd (Yinliangzengjian add sub v))"
proof -
  define a where "a = (if add = 0 then (v\<lparr>v_add := v_add v + 1\<rparr>, []) else if add = 1 \<and> v_add v > 5 then volume_up v else (v, []))"
  define b where "b = (if sub = 0 then ((fst a)\<lparr>v_sub := v_sub (fst a) + 1\<rparr>, []) else if sub = 1 \<and> v_sub (fst a) > 5 then volume_down 3 (fst a) else (fst a, []))"
  have y: "Yinliangzengjian add sub v = (fst b, map Do (snd a @ snd b @ [Wait 1]))"
    unfolding Yinliangzengjian_def Let_def b_def a_def by (simp split: prod.split)
  have 1: "v_current (fst a) \<in> {3..9}" "list_all (\<lambda>a. a \<in> loop_actions \<and> a \<noteq> Run madplay \<and> a \<noteq> Run killall) (snd a)"
    unfolding a_def using volume_key [OF assms] assms by auto
  have 2: "v_current (fst b) \<in> {3..9}" "list_all (\<lambda>a. a \<in> loop_actions \<and> a \<noteq> Run madplay \<and> a \<noteq> Run killall) (snd b)"
    unfolding b_def using volume_key [OF 1(1)] 1(1) by auto
  show "v_current (fst (Yinliangzengjian add sub v)) \<in> {3..9}" using 2(1) by (simp add: y)
  show "only op_ok (snd (Yinliangzengjian add sub v))" "only quiet (snd (Yinliangzengjian add sub v))"
    using 1(2) 2(2) fixed_in by (auto simp: y only_Do list_all_iff)
qed

lemma begin_round_ok:
  assumes "tasks_ok t" "begin_round e t = (ops, t')"
  shows "only op_ok ops" "thread_of e \<in> {Event, VolumeKeys, Recorder} \<Longrightarrow> only quiet ops" "t_mon t' = t_mon t" "t_ops t' = t_ops t"
    "v_current (t_volume t') \<in> {3..9}"
proof -
  have v: "v_current (t_volume t) \<in> {3..9}" using assms(1) by (simp add: tasks_ok_def)
  show "only op_ok ops" "thread_of e \<in> {Event, VolumeKeys, Recorder} \<Longrightarrow> only quiet ops" "t_mon t' = t_mon t" "t_ops t' = t_ops t"
    "v_current (t_volume t') \<in> {3..9}"
    using assms(2) v Yinliangzengjian_ok [OF v] JianceYinpin_ok Bofangzanting_ok GengxinBofang_ok
    by (cases e; auto simp: split_def Let_def)+
qed

text \<open>One operation: what it does to the output, to the button and to what follows.\<close>

lemma do_op_effect:
  assumes "do_op x t = Inr (ops, t')"
  shows "\<exists>acts. m_out (t_mon t') = m_out (t_mon t) @ acts \<and> (list_all op_ok (atoms x) \<longrightarrow> set acts \<subseteq> loop_actions) \<and>
    (\<forall>rest p. settle (ops @ rest) (m_button (t_mon t'), player acts p) = settle (x # rest) (m_button (t_mon t), p)) \<and>
    (list_all quiet (atoms x) \<longrightarrow> m_button (t_mon t') = m_button (t_mon t) \<and> (\<forall>p. player acts p = p))"
    "t_ops t' = t_ops t" "t_volume t' = t_volume t" "t_press t' = t_press t" "t_keys t' = t_keys t"
    "list_all op_ok (atoms x) \<Longrightarrow> only op_ok ops" "list_all quiet (atoms x) \<Longrightarrow> only quiet ops"
proof -
  show "\<exists>acts. m_out (t_mon t') = m_out (t_mon t) @ acts \<and> (list_all op_ok (atoms x) \<longrightarrow> set acts \<subseteq> loop_actions) \<and>
    (\<forall>rest p. settle (ops @ rest) (m_button (t_mon t'), player acts p) = settle (x # rest) (m_button (t_mon t), p)) \<and>
    (list_all quiet (atoms x) \<longrightarrow> m_button (t_mon t') = m_button (t_mon t) \<and> (\<forall>p. player acts p = p))"
  proof (cases "\<exists>a. x = Do a")
    case True
    then show ?thesis using assms by auto
  next
    case False
    then show ?thesis using assms
      by (intro exI [of _ "[]"]) (cases x; auto simp: print_button_def Jilushijian_def Let_def split: sum.splits if_splits)
  qed
qed (use assms in \<open>cases x; auto simp: print_button_def Jilushijian_def Let_def split: sum.splits if_splits\<close>)+

lemma mon_step_cases:
  assumes "mon_step e t = Inr t'"
  obtains (start) ops u where "t_ops t (thread_of e) = []" "begin_round e t = (ops, u)" "t' = set_ops (thread_of e) ops u"
    | (go_on) x rest ops u where "t_ops t (thread_of e) = x # rest" "do_op x t = Inr (ops, u)" "t' = set_ops (thread_of e) (ops @ rest) u"
  using assms by (auto simp: mon_step_def split: list.splits prod.splits sum.splits)

lemma set_ops_simps [simp]:
  "t_mon (set_ops th ops t) = t_mon t" "t_ops (set_ops th ops t) = (t_ops t)(th := ops)" "t_volume (set_ops th ops t) = t_volume t"
  "t_press (set_ops th ops t) = t_press t" "t_keys (set_ops th ops t) = t_keys t"
  by (simp_all add: set_ops_def)

lemma step_ok:
  assumes "tasks_ok t" "mon_step e t = Inr t'"
  shows "tasks_ok t' \<and> (\<exists>acts. m_out (t_mon t') = m_out (t_mon t) @ acts \<and> set acts \<subseteq> loop_actions)"
  using assms(2)
proof (cases rule: mon_step_cases)
  case (start ops u)
  then show ?thesis using begin_round_ok [OF assms(1) start(2)] assms(1) by (auto simp: tasks_ok_def)
next
  case (go_on x rest ops u)
  note d = do_op_effect [OF go_on(2)]
  have o: "\<forall>th. only op_ok (t_ops t th)" "\<forall>th \<in> {Event, VolumeKeys, Recorder}. only quiet (t_ops t th)" "v_current (t_volume t) \<in> {3..9}"
    using assms(1) by (simp_all add: tasks_ok_def)
  have x: "list_all op_ok (atoms x)" "only op_ok rest" using o(1) go_on(1) by (metis only_simps(2))+
  have q: "list_all quiet (atoms x) \<and> only quiet rest" if "thread_of e \<in> {Event, VolumeKeys, Recorder}" using o(2) that go_on(1) by (metis only_simps(2))
  have "only op_ok (t_ops t' th)" for th using o(1) d(2,6) x by (simp add: go_on(3))
  moreover have "only quiet (t_ops t' th)" if "th \<in> {Event, VolumeKeys, Recorder}" for th using o(2) d(2,7) q that
    by (cases "th = thread_of e") (auto simp: go_on(3))
  moreover have "v_current (t_volume t') \<in> {3..9}" using o(3) d(3) by (simp add: go_on(3))
  ultimately show ?thesis using d(1) x(1) by (auto simp: tasks_ok_def go_on(3))
qed

lemma run_did: "tasks_ok t \<Longrightarrow> mon_run es t = Inr t' \<Longrightarrow>
   tasks_ok t' \<and> (\<exists>acts. m_out (t_mon t') = m_out (t_mon t) @ acts \<and> set acts \<subseteq> loop_actions)"
proof (induction es arbitrary: t)
  case Nil then show ?case by simp
next
  case (Cons e es)
  obtain u where u: "mon_step e t = Inr u" "mon_run es u = Inr t'" using Cons.prems(2) by (auto split: sum.splits)
  from step_ok [OF Cons.prems(1) u(1)] obtain a where a: "tasks_ok u" "m_out (t_mon u) = m_out (t_mon t) @ a" "set a \<subseteq> loop_actions" by blast
  from Cons.IH [OF a(1) u(2)] a show ?case by auto
qed

lemma MonitorTaskInit_ok: "tasks_ok (MonitorTaskInit clock now m)"
proof -
  have "only op_ok (start_ops clock now th)" for th
    by (cases th) (simp_all add: start_ops_def JianceYinpin_start_def Bofangzanting_start_def volume_start_def only_Do key_setup_def fixed_in)
  moreover have "only quiet (start_ops clock now th)" if "th \<in> {Event, VolumeKeys, Recorder}" for th
    using that by (auto simp: start_ops_def volume_start_def only_Do key_setup_def)
  ultimately show ?thesis by (simp add: tasks_ok_def MonitorTaskInit_def)
qed

text \<open>The button is 0 or 1 from the first write on, and the play key writes it before its loop.\<close>

definition button_set :: "tasks \<Rightarrow> bool" where
  "button_set t \<longleftrightarrow> m_button (t_mon t) \<in> {0, 1} \<or> SetButton 0 \<in> set (t_ops t PlayKey)"

lemma button_step:
  assumes "tasks_ok t" "mon_step e t = Inr t'" "m_button (t_mon t) = b \<or> m_button (t_mon t) \<in> {0, 1}"
  shows "(m_button (t_mon t') = b \<or> m_button (t_mon t') \<in> {0, 1}) \<and> (button_set t \<longrightarrow> button_set t')"
  using assms(2)
proof (cases rule: mon_step_cases)
  case (start ops u)
  then show ?thesis using begin_round_ok [OF assms(1) start(2)] assms(3) by (auto simp: button_set_def)
next
  case (go_on x rest ops u)
  note d = do_op_effect [OF go_on(2)]
  have x: "list_all op_ok (atoms x)" using assms(1) go_on(1) by (metis only_simps(2) tasks_ok_def)
  have w: "m_button (t_mon u) = (case x of SetButton c \<Rightarrow> c | _ \<Rightarrow> m_button (t_mon t))"
    using go_on(2) by (cases x) (auto simp: print_button_def Jilushijian_def Let_def split: sum.splits if_splits)
  have "x = SetButton 0 \<Longrightarrow> m_button (t_mon u) = 0" using w by simp
  then show ?thesis using w x assms(3) d(2) go_on(1,3) by (cases x) (auto simp: button_set_def)
qed

lemma button_run:
  assumes "tasks_ok t" "mon_run es t = Inr t'" "m_button (t_mon t) = b \<or> m_button (t_mon t) \<in> {0, 1}" "button_set t"
  shows "(m_button (t_mon t') = b \<or> m_button (t_mon t') \<in> {0, 1}) \<and> button_set t'"
  using assms
proof (induction es arbitrary: t)
  case Nil then show ?case by simp
next
  case (Cons e es)
  obtain u where u: "mon_step e t = Inr u" "mon_run es u = Inr t'" using Cons.prems(2) by (auto split: sum.splits)
  from button_step [OF Cons.prems(1) u(1) Cons.prems(3)] step_ok [OF Cons.prems(1) u(1)] Cons.prems(4) Cons.IH u(2) show ?case by blast
qed

lemma presses_zeros: "presses (replicate n 0 @ vs) k = presses vs (k + int n)"
  by (induction n arbitrary: k) (simp_all add: add.commute add.left_commute)

lemma one_press: "presses (replicate n 0 @ [1]) 0 = (if n > 5 then (1, 0) else (0, int n))"
  by (simp add: presses_zeros)

lemma short_presses_add_up: "presses (replicate 3 0 @ [1] @ replicate 3 0 @ [1]) 0 = (1, 0)"
  by (simp add: presses_zeros)

lemma toggled_range: "b \<in> {0, 1} \<Longrightarrow> toggled n b \<in> {0, 1}"
  by (auto simp: toggled_def)

lemma toggled_add: "b \<in> {0, 1} \<Longrightarrow> toggled m (toggled n b) = toggled (n + m) b"
  by (auto simp: toggled_def)

lemma pressed_facts:
  "fst s \<in> {0, 1} \<Longrightarrow> fst (pressed n s) = toggled n (fst s)" "fst s \<in> {0, 1} \<Longrightarrow> pressed m (pressed n s) = pressed (n + m) s"
  using toggled_add [of "fst s" m n] by (auto simp: pressed_def toggled_def)

text \<open>A round of the play key by itself: nothing, or one press.\<close>

lemma Bofangzanting_settles:
  assumes "b \<in> {0, 1}"
  shows "settle (snd (Bofangzanting value k)) (b, p) = pressed (fst (presses [value] k)) (b, p)"
  using assms
  by (auto simp: Bofangzanting_def Kaishizhendong_def play_pins_def commands commands_differ pressed_def toggled_def split: if_splits)

lemma Bofangzanting_counts: "fst (Bofangzanting value k) = snd (presses [value] k)"
  by (simp add: Bofangzanting_def)

lemma presses_append: "presses (xs @ ys) k = (case presses xs k of (n, k') \<Rightarrow> (case presses ys k' of (m, k'') \<Rightarrow> (n + m, k'')))"
  by (induction xs arbitrary: k) (auto split: prod.split)

text \<open>The search is over: only the play key touches the player and its state, and only by its presses.\<close>

definition key_step :: "tasks \<Rightarrow> action list \<Rightarrow> u32 list \<Rightarrow> tasks \<Rightarrow> bool" where
  "key_step t acts vs t' \<longleftrightarrow> m_out (t_mon t') = m_out (t_mon t) @ acts \<and> t_keys t' = t_keys t @ vs \<and> t_found t' \<and>
     t_press t' = snd (presses vs (t_press t)) \<and>
     (\<forall>p. fst (settle (t_ops t PlayKey) (m_button (t_mon t), p)) \<in> {0, 1} \<longrightarrow>
        settle (t_ops t' PlayKey) (m_button (t_mon t'), player acts p) = pressed (fst (presses vs (t_press t))) (settle (t_ops t PlayKey) (m_button (t_mon t), p)))"

lemma step_keys:
  assumes "tasks_ok t" "t_found t" "mon_step e t = Inr t'"
  shows "\<exists>acts vs. key_step t acts vs t'"
  using assms(3)
proof (cases rule: mon_step_cases)
  case (start ops u)
  have s: "t_ops t Search = [Exit]" using assms(2) by (simp add: t_found_def)
  note b = begin_round_ok [OF assms(1) start(2)]
  show ?thesis
  proof (cases "\<exists>v. e = Play v")
    case True
    then obtain v where v: "e = Play v" by blast
    have u: "u = t\<lparr>t_press := fst (Bofangzanting v (t_press t)), t_keys := t_keys t @ [v]\<rparr>" "ops = snd (Bofangzanting v (t_press t))"
      using start(2) by (auto simp: v split_def Let_def)
    have i: "t_ops t PlayKey = []" using start(1) by (simp add: v)
    show ?thesis
      by (rule exI [of _ "[]"], rule exI [of _ "[v]"])
        (simp add: key_step_def start(3) v u t_found_def s i Bofangzanting_settles Bofangzanting_counts del: presses.simps)
  next
    case False
    have "thread_of e \<noteq> PlayKey" "thread_of e \<noteq> Search" using False start(1) s by (cases e; auto)+
    moreover have "t_press u = t_press t" "t_keys u = t_keys t" using start(2) False by (cases e; auto simp: split_def Let_def)+
    ultimately show ?thesis
      by (intro exI [of _ "[]"]) (use b(3,4) s in \<open>simp add: key_step_def start(3) t_found_def pressed_def\<close>)
  qed
next
  case (go_on x rest ops u)
  have s: "t_ops t Search = [Exit]" using assms(2) by (simp add: t_found_def)
  note d = do_op_effect [OF go_on(2)]
  obtain acts where a: "m_out (t_mon u) = m_out (t_mon t) @ acts"
      "\<And>rest p. settle (ops @ rest) (m_button (t_mon u), player acts p) = settle (x # rest) (m_button (t_mon t), p)"
      "list_all quiet (atoms x) \<Longrightarrow> m_button (t_mon u) = m_button (t_mon t) \<and> (\<forall>p. player acts p = p)"
    using d(1) by blast
  show ?thesis
  proof (cases "thread_of e = PlayKey")
    case True
    then show ?thesis using a(1,2) d(2-5) go_on(1,3) s
      by (intro exI [of _ acts] exI [of _ "[]"]) (simp add: key_step_def t_found_def pressed_def)
  next
    case False
    have q: "list_all quiet (atoms x)"
    proof (cases "thread_of e = Search")
      case True
      then show ?thesis using go_on(1) s by auto
    next
      case f: False
      have "thread_of e \<in> {Event, VolumeKeys, Recorder}" using False f by (cases "thread_of e") auto
      then show ?thesis using assms(1) go_on(1) by (metis only_simps(2) tasks_ok_def)
    qed
    have "t_ops t' Search = [Exit]"
    proof (cases "thread_of e = Search")
      case True
      then show ?thesis using go_on s by auto
    next
      case False
      then show ?thesis using d(2) s by (simp add: go_on(3))
    qed
    then show ?thesis using a(1) a(3) [OF q] d(2-5) go_on(3) False
      by (intro exI [of _ acts] exI [of _ "[]"]) (simp add: key_step_def t_found_def pressed_def)
  qed
qed

lemma key_step_trans:
  assumes "key_step t as vs u" "key_step u bs ws t'"
  shows "key_step t (as @ bs) (vs @ ws) t'"
proof -
  have "settle (t_ops t' PlayKey) (m_button (t_mon t'), player (as @ bs) p) =
      pressed (fst (presses (vs @ ws) (t_press t))) (settle (t_ops t PlayKey) (m_button (t_mon t), p))"
    if r: "fst (settle (t_ops t PlayKey) (m_button (t_mon t), p)) \<in> {0, 1}" for p
  proof -
    have 1: "settle (t_ops u PlayKey) (m_button (t_mon u), player as p) =
        pressed (fst (presses vs (t_press t))) (settle (t_ops t PlayKey) (m_button (t_mon t), p))"
      using assms(1) r unfolding key_step_def by blast
    have "fst (settle (t_ops u PlayKey) (m_button (t_mon u), player as p)) \<in> {0, 1}"
      unfolding 1 pressed_facts(1) [OF r] by (rule toggled_range [OF r])
    then have "settle (t_ops t' PlayKey) (m_button (t_mon t'), player bs (player as p)) =
        pressed (fst (presses ws (t_press u))) (settle (t_ops u PlayKey) (m_button (t_mon u), player as p))"
      using assms(2) unfolding key_step_def by blast
    then show ?thesis using assms(1) unfolding 1 pressed_facts(2) [OF r] player_append key_step_def by (simp add: presses_append split_def)
  qed
  then show ?thesis using assms by (auto simp: key_step_def presses_append split_def)
qed

lemma run_keys:
  assumes "tasks_ok t" "t_found t" "mon_run es t = Inr t'"
  shows "\<exists>acts vs. key_step t acts vs t'"
  using assms
proof (induction es arbitrary: t)
  case Nil
  then show ?case by (intro exI [of _ "[]"]) (simp add: key_step_def pressed_def)
next
  case (Cons e es)
  obtain u where u: "mon_step e t = Inr u" "mon_run es u = Inr t'" using Cons.prems(3) by (auto split: sum.splits)
  obtain as vs where a: "key_step t as vs u" using step_keys [OF Cons.prems(1,2) u(1)] by blast
  obtain bs ws where "key_step u bs ws t'"
    using Cons.IH [OF _ _ u(2)] step_ok [OF Cons.prems(1) u(1)] a by (auto simp: key_step_def)
  then show ?case using key_step_trans [OF a] by blast
qed

lemma mon_run_append: "mon_run (as @ bs) t = (case mon_run as t of Inl s \<Rightarrow> Inl s | Inr t \<Rightarrow> mon_run bs t)"
  by (induction as arbitrary: t) (auto split: sum.split)

text \<open>The search starts a player although the key has started one, and the key may stop it before the search has written the button.\<close>

definition search_race :: "mon_event list" where
  "search_race = replicate 4 (Find True) @ replicate 16 (Play 0) @ [Play 1] @ replicate 8 (Play 0) @
     replicate 7 (Find True) @ replicate 12 (Play 0) @ [Play 1] @ replicate 5 (Play 0) @ replicate 4 (Find True)"

definition press_again :: "mon_event list" where
  "press_again = replicate 12 (Play 0) @ [Play 1] @ replicate 5 (Play 0)"

lemma race_then_press:
  "\<exists>t t'. mon_run search_race (MonitorTaskInit clock now m) = Inr t \<and> t_found t \<and> t_ops t PlayKey = [] \<and> t_press t = 0 \<and>
     m_button (t_mon t) = 1 \<and> length (filter (\<lambda>a. a = Run madplay) (drop (length (m_out m)) (m_out (t_mon t)))) = 2 \<and> player (drop (length (m_out m)) (m_out (t_mon t))) 0 = 0 \<and>
     mon_run press_again t = Inr t' \<and> t_ops t' PlayKey = [] \<and> t_keys t' = t_keys t @ replicate 6 0 @ [1]"
  by (simp add: search_race_def press_again_def numeral_eq_Suc mon_step_def MonitorTaskInit_def start_ops_def set_ops_def JianceYinpin_start_def
      Bofangzanting_start_def volume_start_def key_setup_def JianceYinpin_def Bofangzanting_def Kaishizhendong_def play_pins_def t_found_def commands
      commands_differ emit_def fun_upd_def)

subsection \<open>Properties\<close>

text \<open>C11: after the start of the tasks, whatever the keys, the files and the clock are, and in whatever order the single operations of the
  threads happen, they only ask for a fixed set of commands, keep the volume between the levels 3 and 9 and set the button to 0 or 1. Once the search for
  the music has ended, the state of the button tells, whenever the play key is between two presses, whether the last command to
  the player started or stopped it, from the first such moment at which it does, and in any case from the next press that counts. (Before, it need not:
  in \<open>search_race\<close> the key stops the player between the search's start of it and its write of the button.)\<close>

theorem loops_send_only:
  assumes "mon_run es (MonitorTaskInit clock now m) = Inr t"
  shows "\<exists>acts. m_out (t_mon t) = m_out m @ acts \<and> set acts \<subseteq> loop_actions \<and> v_current (t_volume t) \<in> {3..9} \<and>
    m_button (t_mon t) \<in> {m_button m, 0, 1} \<and>
    (\<forall>es' t'. t_found t \<and> t_ops t PlayKey = [] \<and> mon_run es' t = Inr t' \<and> t_ops t' PlayKey = [] \<longrightarrow>
      (\<exists>acts' keys. m_out (t_mon t') = m_out m @ acts @ acts' \<and> t_keys t' = t_keys t @ keys \<and> m_button (t_mon t') \<in> {0, 1} \<and>
        (m_button (t_mon t) = player acts 0 \<or> fst (presses keys (t_press t)) > 0 \<longrightarrow> m_button (t_mon t') = player (acts @ acts') 0)))"
proof -
  have init: "t_mon (MonitorTaskInit clock now m) = m" by (simp add: MonitorTaskInit_def)
  have set: "button_set (MonitorTaskInit clock now m)" by (simp add: button_set_def MonitorTaskInit_def start_ops_def Bofangzanting_start_def)
  obtain acts where ok: "tasks_ok t" and out: "m_out (t_mon t) = m_out m @ acts" "set acts \<subseteq> loop_actions"
    using run_did [OF MonitorTaskInit_ok assms] init by auto
  have b: "m_button (t_mon t) = m_button m \<or> m_button (t_mon t) \<in> {0, 1}" "button_set t"
    using button_run [OF MonitorTaskInit_ok assms, of "m_button m"] init set by auto
  have "\<exists>acts' keys. m_out (t_mon t') = m_out m @ acts @ acts' \<and> t_keys t' = t_keys t @ keys \<and> m_button (t_mon t') \<in> {0, 1} \<and>
        (m_button (t_mon t) = player acts 0 \<or> fst (presses keys (t_press t)) > 0 \<longrightarrow> m_button (t_mon t') = player (acts @ acts') 0)"
    if h: "t_found t" "t_ops t PlayKey = []" "mon_run es' t = Inr t'" "t_ops t' PlayKey = []" for es' t'
  proof -
    have r: "m_button (t_mon t) \<in> {0, 1}" using b(2) h(2) by (simp add: button_set_def)
    obtain acts' keys where k: "key_step t acts' keys t'" using run_keys [OF ok h(1,3)] by blast
    then have "(m_button (t_mon t'), player acts' (player acts 0)) = pressed (fst (presses keys (t_press t))) (m_button (t_mon t), player acts 0)"
      unfolding key_step_def h(2,4) settle.simps using r by (metis fst_conv)
    then have "m_button (t_mon t') \<in> {0, 1}" "m_button (t_mon t) = player acts 0 \<or> fst (presses keys (t_press t)) > 0 \<Longrightarrow>
        m_button (t_mon t') = player acts' (player acts 0)"
      using r toggled_range [OF r, of "fst (presses keys (t_press t))"] by (auto simp: pressed_def split: if_splits)
    then show ?thesis using k out(1) unfolding key_step_def player_append by (intro exI [of _ acts'] exI [of _ keys]) simp
  qed
  moreover have "v_current (t_volume t) \<in> {3..9}" using ok by (simp add: tasks_ok_def)
  ultimately show ?thesis using out b(1) by (intro exI [of _ acts]) blast
qed

text \<open>The race: the button says 1 and the player is stopped; one more press, and they agree again.\<close>

theorem loops_send_only_witness:
  "\<exists>t t'. mon_run search_race (MonitorTaskInit (example_clock 1 2 3) 7 example_mon) = Inr t \<and>
     m_button (t_mon t) = 1 \<and> player (m_out (t_mon t)) 0 = 0 \<and>
     mon_run press_again t = Inr t' \<and> m_button (t_mon t') = player (m_out (t_mon t')) 0"
proof -
  obtain t t' where r: "mon_run search_race (MonitorTaskInit (example_clock 1 2 3) 7 example_mon) = Inr t" "t_found t" "t_ops t PlayKey = []" "t_press t = 0"
      "m_button (t_mon t) = 1" "player (m_out (t_mon t)) 0 = 0" "mon_run press_again t = Inr t'" "t_ops t' PlayKey = []" "t_keys t' = t_keys t @ replicate 6 0 @ [1]"
    using race_then_press [of "example_clock 1 2 3" 7 example_mon] by (auto simp: example_mon_def)
  have p: "fst (presses (replicate 6 0 @ [1]) 0) = 1" by (simp add: one_press)
  have e: "m_out example_mon = []" by (simp add: example_mon_def)
  obtain acts where a: "m_out (t_mon t) = acts" "\<forall>es' t'. t_found t \<and> t_ops t PlayKey = [] \<and> mon_run es' t = Inr t' \<and> t_ops t' PlayKey = [] \<longrightarrow>
      (\<exists>acts' keys. m_out (t_mon t') = acts @ acts' \<and> t_keys t' = t_keys t @ keys \<and> m_button (t_mon t') \<in> {0, 1} \<and>
        (m_button (t_mon t) = player acts 0 \<or> fst (presses keys (t_press t)) > 0 \<longrightarrow> m_button (t_mon t') = player (acts @ acts') 0))"
    using loops_send_only [OF r(1)] unfolding e append_Nil by (elim exE conjE) (rule that)
  from a(2) [rule_format, OF conjI [OF r(2) conjI [OF r(3) conjI [OF r(7,8)]]]] obtain acts' keys where "m_out (t_mon t') = acts @ acts'" "t_keys t' = t_keys t @ keys"
      "fst (presses keys (t_press t)) > 0 \<longrightarrow> m_button (t_mon t') = player (acts @ acts') 0" by (elim exE conjE) simp
  then have "m_button (t_mon t') = player (m_out (t_mon t')) 0" using r(4,9) p by simp
  then show ?thesis using r(1,5,6,7) by blast
qed

text \<open>C37: once the search is over, the play key alone decides whether the music plays: every press that counts among the values it reads (a release
  after more than five samples, which several short presses can add up to) toggles the state of the button, whatever operations of the other threads
  come in between. Within a press, the state is the one the key will have left when its operations are done.\<close>

theorem play_key_toggles:
  assumes "tasks_ok t" "t_found t" "button_then t \<in> {0, 1}" "mon_run es t = Inr t'"
  shows "\<exists>keys. t_keys t' = t_keys t @ keys \<and> button_then t' = toggled (fst (presses keys (t_press t))) (button_then t) \<and>
    t_press t' = snd (presses keys (t_press t)) \<and>
    (t_ops t PlayKey = [] \<longrightarrow> button_then t = m_button (t_mon t)) \<and> (t_ops t' PlayKey = [] \<longrightarrow> button_then t' = m_button (t_mon t'))"
proof -
  obtain acts keys where k: "key_step t acts keys t'" using run_keys [OF assms(1,2,4)] by blast
  have f: "fst (settle ops (b, p)) = fst (settle ops (b, q))" for ops b p q
    by (induction ops "(b, p)" arbitrary: b p q rule: settle.induct) auto
  have "settle (t_ops t' PlayKey) (m_button (t_mon t'), player acts 0) =
      pressed (fst (presses keys (t_press t))) (settle (t_ops t PlayKey) (m_button (t_mon t), 0))"
    using k assms(3) unfolding key_step_def button_then_def by blast
  then have "button_then t' = fst (pressed (fst (presses keys (t_press t))) (settle (t_ops t PlayKey) (m_button (t_mon t), 0)))"
    using f [of "t_ops t' PlayKey" "m_button (t_mon t')" 0 "player acts 0"] by (simp add: button_then_def)
  also have "\<dots> = toggled (fst (presses keys (t_press t))) (button_then t)"
    using assms(3) pressed_facts(1) unfolding button_then_def by blast
  finally show ?thesis using k by (intro exI [of _ keys]) (simp add: key_step_def button_then_def)
qed

text \<open>A press in six samples, with the other threads in between, starts the music.\<close>

theorem play_key_toggles_witness:
  "\<exists>t'. mon_run (replicate 6 (Play 0) @ [Volume 1 1] @ replicate 6 (Play 0) @ [Find True, Play 1] @ replicate 8 (Play 0)) (example_tasks 0) = Inr t' \<and>
     m_button (t_mon t') = 1"
proof -
  let ?es = "replicate 6 (Play 0) @ [Volume 1 1] @ replicate 6 (Play 0) @ [Find True, Play 1] @ replicate 8 (Play 0)"
  obtain t' where t': "mon_run ?es (example_tasks 0) = Inr t'" "t_keys t' = replicate 6 0 @ [1]" "t_ops t' PlayKey = []"
    by (simp add: example_tasks_def numeral_eq_Suc mon_step_def set_ops_def Bofangzanting_def Kaishizhendong_def play_pins_def Yinliangzengjian_def Let_def emit_def fun_upd_def
        example_mon_def)
  have s: "tasks_ok (example_tasks 0)" "t_found (example_tasks 0)" "button_then (example_tasks 0) \<in> {0, 1}" "t_press (example_tasks 0) = 0"
      "t_keys (example_tasks 0) = []" "button_then (example_tasks 0) = 0"
    by (auto simp: tasks_ok_def example_tasks_def t_found_def button_then_def example_mon_def)
  from play_key_toggles [OF s(1-3) t'(1)] t'(2,3) s(4-6) have "m_button (t_mon t') = toggled (fst (presses (replicate 6 0 @ [1]) 0)) 0" by auto
  then have "m_button (t_mon t') = 1" unfolding one_press by (simp add: toggled_def)
  then show ?thesis using t'(1) by blast
qed

end
