(* ===== verification/Unique.thy ===== *)
theory Unique
  imports ParamTerm
begin

text \<open>
  The parameters of the network, the user and the serial ports (\<open>param/unique.c\<close>): their defaults,
  and loading and saving them as a text file, with the steps of the parameters of the terminal.
  The file has no backup. The times of the day of the reading are loaded but not saved.
\<close>

record cfg_termip_tG =
  ti_autogetip :: u8
  ti_ipterm :: bytes
  ti_maskterm :: bytes
  ti_ipgatew :: bytes
  ti_ipproxy :: bytes
  ti_mac :: bytes
  ti_portproxy :: u16
  ti_proxy_type :: u8
  ti_proxy_connect :: u8
  ti_username :: string
  ti_pwd :: string
  ti_mobile1 :: string
  ti_mobile2 :: string
  ti_mobile3 :: string
  ti_email :: string
  ti_portlisten :: u16

record cfg_userinfo_tG =
  ui_username :: string
  ui_pwd :: string
  ui_isopensms :: u8
  ui_smsmobile1 :: string
  ui_smsmobile2 :: string
  ui_smsmobile3 :: string
  ui_isopenemail :: u8
  ui_recvemail :: string
  ui_emailsender :: string
  ui_emailpwd :: string

record cfg_para_485port_t =
  rs_port :: u8
  rs_baud :: u32
  rs_parity :: u8
  rs_databits :: u8
  rs_stopbits :: u8
  rs_type :: u8

record cfg_cascade_tG =
  ca_cascaMode :: u32
  ca_para_485port :: cfg_para_485port_t
  ca_cascade_addr :: bytes

record cfg_MetConfig_tG =
  mc_para_485port :: cfg_para_485port_t
  mc_usrname :: string
  mc_passwd :: string

record para_uni_tG =
  pu_read_period :: bytes
  pu_cenmet_fenum :: u8
  pu_siphmet_fenum :: u8
  pu_muphmet_fenum :: u8
  pu_watermet_fenum :: u8
  pu_gasmet_fenum :: u8
  pu_daytomonth :: u8
  pu_chktimeday :: bytes
  pu_keepalive_cyc :: u8
  pu_snd_timeout :: u8
  pu_snd_retry :: u8
  pu_proto_cenmet :: u8
  pu_clientmode :: u8
  pu_timedown :: u8
  pu_addr_mac :: bytes
  pu_termip :: cfg_termip_tG
  pu_userinfo :: cfg_userinfo_tG
  pu_cascade_term :: cfg_cascade_tG
  pu_metConfig :: cfg_MetConfig_tG
  pu_para_485bus :: cfg_para_485port_t
  pu_linewasterhour :: u8
  pu_xccode :: string
  pu_drcode :: string
  pu_dxcode :: string
  pu_rskcode :: string
  pu_lkcode :: string
  pu_kncode :: string
  pu_autojudge :: u8
  pu_autoStudy :: u8
  pu_manuno :: string
  pu_manuno_inner :: string
  pu_keepalive_sndretry :: u8
  pu_keepalive_dialtime :: u8
  pu_itemid1 :: u16
  pu_itemid2 :: u16
  pu_serial_databits :: u8
  pu_serial_stopbits :: u8
  pu_serial_checkbit :: char
  pu_serial_baud :: u32
  pu_poll_time :: u8
  pu_serialtoird :: u8
  pu_downlink :: u8
  pu_metmon_dev :: u8
  pu_itemnum :: u8
  pu_checktimeday :: u8
  pu_checktimehour :: u8
  pu_pflag :: u8
  pu_prdcount :: u8
  pu_period :: "(u16 \<times> u16) list"
  pu_cassflag :: u8
  pu_checktime :: u8

definition CENMET_REALPORT :: u8 where "CENMET_REALPORT = 0"
definition CASCADE_REALPORT :: u8 where "CASCADE_REALPORT = 1"
definition RS485BUS_REALPORT :: u8 where "RS485BUS_REALPORT = 2"
definition UNIQUE_FILE :: string where "UNIQUE_FILE = ''/param/unique.xin''"

definition zero_port :: cfg_para_485port_t where
  "zero_port = \<lparr>rs_port = 0, rs_baud = 0, rs_parity = 0, rs_databits = 0, rs_stopbits = 0, rs_type = 0\<rparr>"

definition str0 :: "nat \<Rightarrow> string \<Rightarrow> string" where
  "str0 n s = put_str s (replicate n (CHR 0x00))"

definition LoadDefParaUni :: para_uni_tG where
  "LoadDefParaUni =
     \<lparr>pu_read_period = replicate 12 0xff, pu_cenmet_fenum = 4, pu_siphmet_fenum = 0, pu_muphmet_fenum = 4, pu_watermet_fenum = 0,
      pu_gasmet_fenum = 0, pu_daytomonth = 0, pu_chktimeday = [4, 0, 0, 0], pu_keepalive_cyc = 1, pu_snd_timeout = 30,
      pu_snd_retry = 2, pu_proto_cenmet = 10, pu_clientmode = 0, pu_timedown = 30,
      pu_addr_mac = [0x56, 0x34, 0x12, 0x48, 0x80, 0x00],
      pu_termip = \<lparr>ti_autogetip = 0, ti_ipterm = [192, 168, 62, 223], ti_maskterm = [255, 255, 255, 0], ti_ipgatew = [192, 168, 62, 1],
        ti_ipproxy = replicate 4 0, ti_mac = replicate 6 0, ti_portproxy = 0, ti_proxy_type = 0, ti_proxy_connect = 0,
        ti_username = str0 32 ''admin'', ti_pwd = str0 32 ''12345'', ti_mobile1 = replicate 12 (CHR 0x00), ti_mobile2 = replicate 12 (CHR 0x00),
        ti_mobile3 = replicate 12 (CHR 0x00), ti_email = replicate 32 (CHR 0x00), ti_portlisten = 9999\<rparr>,
      pu_userinfo = \<lparr>ui_username = replicate 32 (CHR 0x00), ui_pwd = replicate 32 (CHR 0x00), ui_isopensms = 0, ui_smsmobile1 = replicate 12 (CHR 0x00),
        ui_smsmobile2 = replicate 12 (CHR 0x00), ui_smsmobile3 = replicate 12 (CHR 0x00), ui_isopenemail = 0, ui_recvemail = replicate 32 (CHR 0x00),
        ui_emailsender = replicate 32 (CHR 0x00), ui_emailpwd = replicate 32 (CHR 0x00)\<rparr>,
      pu_cascade_term = \<lparr>ca_cascaMode = 0, ca_para_485port = zero_port, ca_cascade_addr = replicate 4 0\<rparr>,
      pu_metConfig = \<lparr>mc_para_485port = zero_port\<lparr>rs_port := 2, rs_baud := 2400, rs_databits := 8, rs_stopbits := 1, rs_parity := 1\<rparr>,
        mc_usrname = replicate 6 (CHR 0x00), mc_passwd = replicate 6 (CHR 0x00)\<rparr>,
      pu_para_485bus = zero_port, pu_linewasterhour = 0, pu_xccode = str0 8 ''xc'', pu_drcode = str0 8 ''se'', pu_dxcode = str0 8 ''ct'',
      pu_rskcode = str0 8 ''10'', pu_lkcode = str0 8 ''LK'', pu_kncode = str0 8 ''NT'', pu_autojudge = 0, pu_autoStudy = 0,
      pu_manuno = replicate 14 (CHR 0x00), pu_manuno_inner = replicate 12 (CHR 0x00), pu_keepalive_sndretry = 3, pu_keepalive_dialtime = 0,
      pu_itemid1 = 0x9010, pu_itemid2 = 0x9090, pu_serial_databits = 8, pu_serial_stopbits = 1, pu_serial_checkbit = CHR ''n'',
      pu_serial_baud = 115200, pu_poll_time = 5, pu_serialtoird = 0, pu_downlink = 2, pu_metmon_dev = 5, pu_itemnum = 2,
      pu_checktimeday = 1, pu_checktimehour = 1, pu_pflag = 0, pu_prdcount = 0, pu_period = replicate 8 (0, 0), pu_cassflag = 0,
      pu_checktime = 30\<rparr>"

text \<open>A period of the day is a string \<open>h:m~h:m\<close>; it is cut at its separators, and nothing is changed when
  one is missing or is the last character, or a number is out of range.\<close>

definition cut :: "char \<Rightarrow> string \<Rightarrow> (string \<times> string) option" where
  "cut c s = (let a = takeWhile (\<lambda>x. x \<noteq> c) s; b = drop (length a + 1) s in if b = [] then None else Some (a, b))"

definition in_range :: "int \<Rightarrow> string \<Rightarrow> int option" where
  "in_range hi s = (let i = c_atoi s in if i < 0 \<or> i > hi then None else Some i)"

definition PrdTime :: "string \<Rightarrow> (int \<times> int) option" where
  "PrdTime str =
     Option.bind (cut (CHR '':'') str) (\<lambda>(h1, str).
     Option.bind (in_range 23 h1) (\<lambda>h1.
     Option.bind (cut (CHR ''~'') str) (\<lambda>(m1, str).
     Option.bind (in_range 59 m1) (\<lambda>m1.
     Option.bind (cut (CHR '':'') str) (\<lambda>(h2, m2).
     Option.bind (in_range 23 h2) (\<lambda>h2.
     Option.bind (in_range 59 m2) (\<lambda>m2.
       if h2 * 60 + m2 > 1438 then None else Some (h1 * 60 + m1, h2 * 60 + m2))))))))"

definition StringToPrdTime :: "string \<Rightarrow> nat \<Rightarrow> para_uni_tG \<Rightarrow> para_uni_tG" where
  "StringToPrdTime str prd p =
     (case PrdTime str of
        None \<Rightarrow> p
      | Some (timestart, timeend) \<Rightarrow> p\<lparr>pu_period := (pu_period p)[prd := (word_of_int timestart, word_of_int timeend)]\<rparr>)"

definition copy_str :: "string \<Rightarrow> string \<Rightarrow> string" where
  "copy_str str buf = (if str = [] then buf else put_str str buf)"

definition copy_ip :: "string \<Rightarrow> bytes \<Rightarrow> bytes" where
  "copy_ip str ip = (if str = [] then ip else StringToIp str)"

definition copy_char :: "string \<Rightarrow> char \<Rightarrow> char" where
  "copy_char str c = (if str = [] then c else hd str)"

definition uni_loads :: "para_uni_tG load list" where
  "uni_loads =
     [LInt ''autojudge'' 0 (\<lambda>i. pu_autojudge_update (\<lambda>_. word_of_int i)),
      LInt ''autostudy'' 0 (\<lambda>i. pu_autoStudy_update (\<lambda>_. word_of_int i)),
      LInt ''keepalivecyc'' 15 (\<lambda>i. pu_keepalive_cyc_update (\<lambda>_. word_of_int i)),
      LInt ''sndtimeout'' 30 (\<lambda>i. pu_snd_timeout_update (\<lambda>_. word_of_int i)),
      LInt ''sndretry'' 2 (\<lambda>i. pu_snd_retry_update (\<lambda>_. word_of_int i)),
      LInt ''protocenmet'' 0 (\<lambda>i. pu_proto_cenmet_update (\<lambda>_. word_of_int i)),
      LInt ''autogetip'' 1 (\<lambda>i. pu_termip_update (ti_autogetip_update (\<lambda>_. word_of_int i))),
      LInt ''portlisten'' 9999 (\<lambda>i. pu_termip_update (ti_portlisten_update (\<lambda>_. word_of_int i))),
      LStr ''ipterm'' 24 (\<lambda>str. pu_termip_update (ti_ipterm_update (copy_ip str))),
      LStr ''maskterm'' 24 (\<lambda>str. pu_termip_update (ti_maskterm_update (copy_ip str))),
      LStr ''ipgatew'' 24 (\<lambda>str. pu_termip_update (ti_ipgatew_update (copy_ip str))),
      LStr ''username'' 32 (\<lambda>str. pu_termip_update (ti_username_update (copy_str str))),
      LStr ''pwd'' 32 (\<lambda>str. pu_termip_update (ti_pwd_update (copy_str str))),
      LStr ''username'' 32 (\<lambda>str. pu_userinfo_update (ui_username_update (copy_str str))),
      LStr ''pwd'' 32 (\<lambda>str. pu_userinfo_update (ui_pwd_update (copy_str str))),
      LInt ''opensms'' 0 (\<lambda>i. pu_userinfo_update (ui_isopensms_update (\<lambda>_. word_of_int i))),
      LStr ''mobile1'' 12 (\<lambda>str. pu_userinfo_update (ui_smsmobile1_update (copy_str str))),
      LStr ''mobile2'' 12 (\<lambda>str. pu_userinfo_update (ui_smsmobile2_update (copy_str str))),
      LStr ''mobile3'' 12 (\<lambda>str. pu_userinfo_update (ui_smsmobile3_update (copy_str str))),
      LInt ''openemail'' 0 (\<lambda>i. pu_userinfo_update (ui_isopenemail_update (\<lambda>_. word_of_int i))),
      LStr ''recvemail'' 32 (\<lambda>str. pu_userinfo_update (ui_recvemail_update (copy_str str))),
      LStr ''emailsender'' 32 (\<lambda>str. pu_userinfo_update (ui_emailsender_update (copy_str str))),
      LStr ''emailpwd'' 12 (\<lambda>str. pu_userinfo_update (ui_emailpwd_update (copy_str str))),
      LInt ''cascamode'' 0 (\<lambda>i. pu_cascade_term_update (ca_cascaMode_update (\<lambda>_. word_of_int i))),
      LDo (pu_cascade_term_update (ca_para_485port_update (rs_port_update (\<lambda>_. CASCADE_REALPORT)))),
      LInt ''baud0'' 1200 (\<lambda>i. pu_cascade_term_update (ca_para_485port_update (rs_baud_update (\<lambda>_. word_of_int i)))),
      LInt ''databits0'' 8 (\<lambda>i. pu_cascade_term_update (ca_para_485port_update (rs_databits_update (\<lambda>_. word_of_int i)))),
      LInt ''stopbits0'' 1 (\<lambda>i. pu_cascade_term_update (ca_para_485port_update (rs_stopbits_update (\<lambda>_. word_of_int i)))),
      LInt ''parity0'' 1 (\<lambda>i. pu_cascade_term_update (ca_para_485port_update (rs_parity_update (\<lambda>_. word_of_int i)))),
      LInt ''type0'' 2 (\<lambda>i. pu_cascade_term_update (ca_para_485port_update (rs_type_update (\<lambda>_. word_of_int i)))),
      LHex ''cascadeip'' 4 (\<lambda>bs. pu_cascade_term_update (ca_cascade_addr_update (put_front bs))),
      LDo (pu_cascade_term_update (ca_cascade_addr_update (\<lambda>a. swap23 a 0))),
      LDo (pu_metConfig_update (mc_para_485port_update (rs_port_update (\<lambda>_. CENMET_REALPORT)))),
      LInt ''baud1'' 1200 (\<lambda>i. pu_metConfig_update (mc_para_485port_update (rs_baud_update (\<lambda>_. word_of_int i)))),
      LInt ''databits1'' 8 (\<lambda>i. pu_metConfig_update (mc_para_485port_update (rs_databits_update (\<lambda>_. word_of_int i)))),
      LInt ''stopbits1'' 1 (\<lambda>i. pu_metConfig_update (mc_para_485port_update (rs_stopbits_update (\<lambda>_. word_of_int i)))),
      LInt ''parity1'' 1 (\<lambda>i. pu_metConfig_update (mc_para_485port_update (rs_parity_update (\<lambda>_. word_of_int i)))),
      LInt ''type1'' 0 (\<lambda>i. pu_metConfig_update (mc_para_485port_update (rs_type_update (\<lambda>_. word_of_int i)))),
      LDo (pu_para_485bus_update (rs_port_update (\<lambda>_. RS485BUS_REALPORT))),
      LInt ''baud2'' 1200 (\<lambda>i. pu_para_485bus_update (rs_baud_update (\<lambda>_. word_of_int i))),
      LInt ''databits2'' 8 (\<lambda>i. pu_para_485bus_update (rs_databits_update (\<lambda>_. word_of_int i))),
      LInt ''stopbits2'' 1 (\<lambda>i. pu_para_485bus_update (rs_stopbits_update (\<lambda>_. word_of_int i))),
      LInt ''parity2'' 1 (\<lambda>i. pu_para_485bus_update (rs_parity_update (\<lambda>_. word_of_int i))),
      LInt ''type2'' 1 (\<lambda>i. pu_para_485bus_update (rs_type_update (\<lambda>_. word_of_int i))),
      LInt ''lwhour'' 23 (\<lambda>i. pu_linewasterhour_update (\<lambda>_. word_of_int i)),
      LHex ''mac'' 6 (\<lambda>bs. if length bs = 6 then pu_addr_mac_update (put_front bs) else id),
      LStr ''manuno'' 14 (\<lambda>str. pu_manuno_update (put_str str)),
      LStr ''manuin'' 12 (\<lambda>str. pu_manuno_inner_update (put_str str)),
      LInt ''keepalive_retry'' 3 (\<lambda>i. pu_keepalive_sndretry_update (\<lambda>_. word_of_int i)),
      LInt ''keepalive_time'' 30 (\<lambda>i. pu_keepalive_dialtime_update (\<lambda>_. word_of_int i)),
      LDo (pu_itemid1_update (\<lambda>_. 0x9010)),
      LHex ''itemid1'' 2 (\<lambda>bs. if length bs = 2 then pu_itemid1_update (\<lambda>_. u16_of (bs ! 1) (bs ! 0)) else id),
      LDo (pu_itemid2_update (\<lambda>_. 0x9090)),
      LHex ''itemid2'' 2 (\<lambda>bs. if length bs = 2 then pu_itemid2_update (\<lambda>_. u16_of (bs ! 1) (bs ! 0)) else id),
      LInt ''serial_baud'' 115200 (\<lambda>i. pu_serial_baud_update (\<lambda>_. word_of_int i)),
      LInt ''serial_databits'' 8 (\<lambda>i. pu_serial_databits_update (\<lambda>_. word_of_int i)),
      LInt ''serial_stopbits'' 1 (\<lambda>i. pu_serial_stopbits_update (\<lambda>_. word_of_int i)),
      LDo (pu_serial_checkbit_update (\<lambda>_. CHR ''n'')),
      LStr ''serial_checkbit'' 4 (\<lambda>str. pu_serial_checkbit_update (copy_char str)),
      LInt ''poll_time'' 5 (\<lambda>i. pu_poll_time_update (\<lambda>_. word_of_int i)),
      LInt ''seriatoird'' 0 (\<lambda>i. pu_serialtoird_update (\<lambda>_. word_of_int i)),
      LInt ''downlink'' 2 (\<lambda>i. pu_downlink_update (\<lambda>_. word_of_int i)),
      LInt ''metdev'' 2 (\<lambda>i. pu_metmon_dev_update (\<lambda>_. word_of_int i)),
      LInt ''itemnum'' 1 (\<lambda>i. pu_itemnum_update (\<lambda>_. word_of_int i)),
      LDo (pu_itemnum_update (\<lambda>_. 2)),
      LInt ''checkday'' 1 (\<lambda>i. pu_checktimeday_update (\<lambda>_. word_of_int i)),
      LInt ''checkhour'' 1 (\<lambda>i. pu_checktimehour_update (\<lambda>_. word_of_int i)),
      LInt ''periodflag'' 0 (\<lambda>i. pu_pflag_update (\<lambda>_. word_of_int i)),
      LInt ''count'' 0 (\<lambda>i. pu_prdcount_update (\<lambda>_. word_of_int i)),
      LDo (\<lambda>p. if pu_prdcount p > 8 then p\<lparr>pu_prdcount := 8\<rparr> else p)]"

definition prd_loads :: "nat \<Rightarrow> para_uni_tG load list" where
  "prd_loads count = map (\<lambda>i. LStr (''prd'' @ dec_nat (i + 1)) 64 (\<lambda>str. if str = [] then id else StringToPrdTime str i)) [0..<count]"

definition uni_last :: "para_uni_tG load list" where
  "uni_last =
     [LInt ''cassflag'' 0 (\<lambda>i. pu_cassflag_update (\<lambda>_. word_of_int i)),
      LInt ''checktime'' 30 (\<lambda>i. pu_checktime_update (\<lambda>_. word_of_int i))]"

text \<open>The answer of the C function (0 when the file was read), the parameters and the reader.\<close>

definition LoadParaUni :: "xinref_t \<Rightarrow> xin_stop + (int \<times> para_uni_tG \<times> xinref_t)" where
  "LoadParaUni x =
     (case XinOpen UNIQUE_FILE CHR ''r'' x of
        Inl s \<Rightarrow> Inl s
      | Inr (False, x) \<Rightarrow> Inr (1, LoadDefParaUni, x)
      | Inr (True, x) \<Rightarrow>
          (case load_steps uni_loads (x, LoadDefParaUni) of
             Inl s \<Rightarrow> Inl s
           | Inr (x, p) \<Rightarrow>
               (case load_steps (prd_loads (unat (pu_prdcount p)) @ uni_last) (x, p) of
                  Inl s \<Rightarrow> Inl s
                | Inr (x, p) \<Rightarrow> Inr (0, p, XinClose x))))"

definition uni_saves :: "para_uni_tG \<Rightarrow> save list" where
  "uni_saves p =
     [SInt ''autojudge'' (uint (pu_autojudge p)),
      SInt ''autostudy'' (uint (pu_autoStudy p)),
      SInt ''keepalivecyc'' (uint (pu_keepalive_cyc p)),
      SInt ''sndtimeout'' (uint (pu_snd_timeout p)),
      SInt ''sndretry'' (uint (pu_snd_retry p)),
      SInt ''protocenmet'' (uint (pu_proto_cenmet p)),
      SInt ''portlisten'' (uint (ti_portlisten (pu_termip p))),
      SInt ''autogetip'' (uint (ti_autogetip (pu_termip p))),
      SStr ''ipterm'' (IpToString (ti_ipterm (pu_termip p))),
      SStr ''maskterm'' (IpToString (ti_maskterm (pu_termip p))),
      SStr ''ipgatew'' (IpToString (ti_ipgatew (pu_termip p))),
      SStr ''username'' (ti_username (pu_termip p)),
      SStr ''pwd'' (ti_pwd (pu_termip p)),
      SStr ''username'' (ui_username (pu_userinfo p)),
      SStr ''pwd'' (ui_pwd (pu_userinfo p)),
      SInt ''opensms'' (uint (ui_isopensms (pu_userinfo p))),
      SStr ''mobile1'' (ui_smsmobile1 (pu_userinfo p)),
      SStr ''mobile2'' (ui_smsmobile2 (pu_userinfo p)),
      SStr ''mobile3'' (ui_smsmobile3 (pu_userinfo p)),
      SInt ''openemail'' (uint (ui_isopenemail (pu_userinfo p))),
      SStr ''recvemail'' (ui_recvemail (pu_userinfo p)),
      SStr ''emailsender'' (ui_emailsender (pu_userinfo p)),
      SStr ''emailpwd'' (ui_emailpwd (pu_userinfo p)),
      SInt ''cascamode'' (sint (ca_cascaMode (pu_cascade_term p))),
      SInt ''baud0'' (sint (rs_baud (ca_para_485port (pu_cascade_term p)))),
      SInt ''databits0'' (uint (rs_databits (ca_para_485port (pu_cascade_term p)))),
      SInt ''stopbits0'' (uint (rs_stopbits (ca_para_485port (pu_cascade_term p)))),
      SInt ''parity0'' (uint (rs_parity (ca_para_485port (pu_cascade_term p)))),
      SInt ''type0'' (uint (rs_type (ca_para_485port (pu_cascade_term p)))),
      SHex ''cascadeip'' (swap23 (ca_cascade_addr (pu_cascade_term p)) 0),
      SInt ''baud1'' (sint (rs_baud (mc_para_485port (pu_metConfig p)))),
      SInt ''databits1'' (uint (rs_databits (mc_para_485port (pu_metConfig p)))),
      SInt ''stopbits1'' (uint (rs_stopbits (mc_para_485port (pu_metConfig p)))),
      SInt ''parity1'' (uint (rs_parity (mc_para_485port (pu_metConfig p)))),
      SInt ''type1'' (uint (rs_type (mc_para_485port (pu_metConfig p)))),
      SInt ''baud2'' (sint (rs_baud (pu_para_485bus p))),
      SInt ''databits2'' (uint (rs_databits (pu_para_485bus p))),
      SInt ''stopbits2'' (uint (rs_stopbits (pu_para_485bus p))),
      SInt ''parity2'' (uint (rs_parity (pu_para_485bus p))),
      SInt ''type2'' (uint (rs_type (pu_para_485bus p))),
      SHex ''mac'' (pu_addr_mac p),
      SStr ''manuno'' (pu_manuno p),
      SStr ''manuin'' (pu_manuno_inner p),
      SInt ''keepalive_retry'' (uint (pu_keepalive_sndretry p)),
      SInt ''keepalive_time'' (uint (pu_keepalive_dialtime p)),
      SHex ''itemid1'' [hi8 (pu_itemid1 p), lo8 (pu_itemid1 p)],
      SHex ''itemid2'' [hi8 (pu_itemid2 p), lo8 (pu_itemid2 p)],
      SInt ''serial_baud'' (sint (pu_serial_baud p)),
      SInt ''serial_databits'' (uint (pu_serial_databits p)),
      SInt ''serial_stopbits'' (uint (pu_serial_stopbits p)),
      SStr ''serial_checkbit'' [pu_serial_checkbit p, CHR 0x00],
      SInt ''poll_time'' (uint (pu_poll_time p)),
      SInt ''seriatoird'' (uint (pu_serialtoird p)),
      SInt ''downlink'' (uint (pu_downlink p)),
      SInt ''metdev'' (uint (pu_metmon_dev p)),
      SInt ''itemnum'' (uint (pu_itemnum p)),
      SInt ''checkday'' (uint (pu_checktimeday p)),
      SInt ''checkhour'' (uint (pu_checktimehour p)),
      SInt ''cassflag'' (uint (pu_cassflag p))]"

definition SaveParaUni :: "para_uni_tG \<Rightarrow> xinref_t \<Rightarrow> xin_stop + (int \<times> xinref_t)" where
  "SaveParaUni p x =
     (case XinOpen UNIQUE_FILE CHR ''w'' x of
        Inl s \<Rightarrow> Inl s
      | Inr (False, x) \<Rightarrow> Inr (1, x)
      | Inr (True, x) \<Rightarrow> map_sum id (\<lambda>x. (0, XinClose x)) (save_steps (uni_saves p) x))"

subsection \<open>Specification\<close>

definition uni_names :: "string list" where
  "uni_names =
   [''autojudge'', ''autostudy'', ''keepalivecyc'', ''sndtimeout'', ''sndretry'', ''protocenmet'',
    ''portlisten'', ''autogetip'', ''ipterm'', ''maskterm'', ''ipgatew'', ''username'',
    ''pwd'', ''username'', ''pwd'', ''opensms'', ''mobile1'', ''mobile2'',
    ''mobile3'', ''openemail'', ''recvemail'', ''emailsender'', ''emailpwd'', ''cascamode'',
    ''baud0'', ''databits0'', ''stopbits0'', ''parity0'', ''type0'', ''cascadeip'',
    ''baud1'', ''databits1'', ''stopbits1'', ''parity1'', ''type1'', ''baud2'',
    ''databits2'', ''stopbits2'', ''parity2'', ''type2'', ''mac'', ''manuno'',
    ''manuin'', ''keepalive_retry'', ''keepalive_time'', ''itemid1'', ''itemid2'', ''serial_baud'',
    ''serial_databits'', ''serial_stopbits'', ''serial_checkbit'', ''poll_time'', ''seriatoird'', ''downlink'',
    ''metdev'', ''itemnum'', ''checkday'', ''checkhour'', ''cassflag'']"

definition uni_lines :: "para_uni_tG \<Rightarrow> (string \<times> string) list" where
  "uni_lines p = map save_line (uni_saves p)"

definition uni_reads :: "string option list" where
  "uni_reads = map load_name (uni_loads @ uni_last)"

definition uni_found :: "nat option list" where
  "uni_found =
   [Some 0, Some 1, Some 2, Some 3, Some 4, Some 5, Some 7, Some 6, Some 8, Some 9,
    Some 10, Some 11, Some 12, Some 13, Some 14, Some 15, Some 16, Some 17, Some 18, Some 19,
    Some 20, Some 21, Some 22, Some 23, None, Some 24, Some 25, Some 26, Some 27, Some 28,
    Some 29, None, None, Some 30, Some 31, Some 32, Some 33, Some 34, None, Some 35,
    Some 36, Some 37, Some 38, Some 39, None, Some 40, Some 41, Some 42, Some 43, Some 44,
    None, Some 45, None, Some 46, Some 47, Some 48, Some 49, None, Some 50, Some 51,
    Some 52, Some 53, Some 54, Some 55, None, Some 56, Some 57, None, None, None,
    Some 58, None]"

text \<open>A string that is read replaces the old one unless it is empty.\<close>

definition kept_str :: "nat \<Rightarrow> string \<Rightarrow> string \<Rightarrow> string" where
  "kept_str n s d = copy_str (take n (cstr s)) d"

text \<open>What a load after a save gives: the fields of \<open>p\<close> that are saved, over the defaults. The password of the
  mail is cut after 11 characters, the hour of the line losses becomes 23, the limit of the clock check 30, and the
  periods of the day are lost.\<close>

definition restored_uni :: "para_uni_tG \<Rightarrow> para_uni_tG" where
  "restored_uni p = LoadDefParaUni\<lparr>
     pu_autojudge := pu_autojudge p, pu_autoStudy := pu_autoStudy p, pu_keepalive_cyc := pu_keepalive_cyc p,
     pu_snd_timeout := pu_snd_timeout p, pu_snd_retry := pu_snd_retry p, pu_proto_cenmet := pu_proto_cenmet p,
     pu_termip := (pu_termip LoadDefParaUni)\<lparr>ti_autogetip := ti_autogetip (pu_termip p), ti_portlisten := ti_portlisten (pu_termip p),
       ti_ipterm := ti_ipterm (pu_termip p), ti_maskterm := ti_maskterm (pu_termip p), ti_ipgatew := ti_ipgatew (pu_termip p),
       ti_username := kept_str 31 (ti_username (pu_termip p)) (ti_username (pu_termip LoadDefParaUni)),
       ti_pwd := kept_str 31 (ti_pwd (pu_termip p)) (ti_pwd (pu_termip LoadDefParaUni))\<rparr>,
     pu_userinfo := (pu_userinfo LoadDefParaUni)\<lparr>
       ui_username := kept_str 31 (ui_username (pu_userinfo p)) (ui_username (pu_userinfo LoadDefParaUni)),
       ui_pwd := kept_str 31 (ui_pwd (pu_userinfo p)) (ui_pwd (pu_userinfo LoadDefParaUni)),
       ui_isopensms := ui_isopensms (pu_userinfo p),
       ui_smsmobile1 := kept_str 11 (ui_smsmobile1 (pu_userinfo p)) (ui_smsmobile1 (pu_userinfo LoadDefParaUni)),
       ui_smsmobile2 := kept_str 11 (ui_smsmobile2 (pu_userinfo p)) (ui_smsmobile2 (pu_userinfo LoadDefParaUni)),
       ui_smsmobile3 := kept_str 11 (ui_smsmobile3 (pu_userinfo p)) (ui_smsmobile3 (pu_userinfo LoadDefParaUni)),
       ui_isopenemail := ui_isopenemail (pu_userinfo p),
       ui_recvemail := kept_str 31 (ui_recvemail (pu_userinfo p)) (ui_recvemail (pu_userinfo LoadDefParaUni)),
       ui_emailsender := kept_str 31 (ui_emailsender (pu_userinfo p)) (ui_emailsender (pu_userinfo LoadDefParaUni)),
       ui_emailpwd := kept_str 11 (ui_emailpwd (pu_userinfo p)) (ui_emailpwd (pu_userinfo LoadDefParaUni))\<rparr>,
     pu_cascade_term := \<lparr>ca_cascaMode = ca_cascaMode (pu_cascade_term p),
       ca_para_485port = (ca_para_485port (pu_cascade_term p))\<lparr>rs_port := CASCADE_REALPORT\<rparr>, ca_cascade_addr = ca_cascade_addr (pu_cascade_term p)\<rparr>,
     pu_metConfig := (pu_metConfig LoadDefParaUni)\<lparr>mc_para_485port := (mc_para_485port (pu_metConfig p))\<lparr>rs_port := CENMET_REALPORT\<rparr>\<rparr>,
     pu_para_485bus := (pu_para_485bus p)\<lparr>rs_port := RS485BUS_REALPORT\<rparr>,
     pu_linewasterhour := 23, pu_addr_mac := pu_addr_mac p,
     pu_manuno := put_str (cstr (pu_manuno p)) (pu_manuno LoadDefParaUni),
     pu_manuno_inner := put_str (cstr (pu_manuno_inner p)) (pu_manuno_inner LoadDefParaUni),
     pu_keepalive_sndretry := pu_keepalive_sndretry p, pu_keepalive_dialtime := pu_keepalive_dialtime p,
     pu_itemid1 := pu_itemid1 p, pu_itemid2 := pu_itemid2 p, pu_serial_baud := pu_serial_baud p,
     pu_serial_databits := pu_serial_databits p, pu_serial_stopbits := pu_serial_stopbits p, pu_serial_checkbit := pu_serial_checkbit p,
     pu_poll_time := pu_poll_time p, pu_serialtoird := pu_serialtoird p, pu_downlink := pu_downlink p, pu_metmon_dev := pu_metmon_dev p,
     pu_itemnum := 2, pu_checktimeday := pu_checktimeday p, pu_checktimehour := pu_checktimehour p,
     pu_cassflag := pu_cassflag p, pu_checktime := 30\<rparr>"

definition uni_shape :: "para_uni_tG \<Rightarrow> bool" where
  "uni_shape p \<longleftrightarrow>
     length (ti_ipterm (pu_termip p)) = 4 \<and> length (ti_maskterm (pu_termip p)) = 4 \<and> length (ti_ipgatew (pu_termip p)) = 4 \<and>
     length (ca_cascade_addr (pu_cascade_term p)) = 4 \<and> length (pu_addr_mac p) = 6 \<and>
     length (ti_username (pu_termip p)) = 32 \<and> length (ti_pwd (pu_termip p)) = 32 \<and> length (ui_username (pu_userinfo p)) = 32 \<and>
     length (ui_pwd (pu_userinfo p)) = 32 \<and> length (ui_smsmobile1 (pu_userinfo p)) = 12 \<and> length (ui_smsmobile2 (pu_userinfo p)) = 12 \<and>
     length (ui_smsmobile3 (pu_userinfo p)) = 12 \<and> length (ui_recvemail (pu_userinfo p)) = 32 \<and>
     length (ui_emailsender (pu_userinfo p)) = 32 \<and> length (ui_emailpwd (pu_userinfo p)) = 32 \<and>
     length (pu_manuno p) = 14 \<and> length (pu_manuno_inner p) = 12"

definition uni_strs :: "para_uni_tG \<Rightarrow> string list" where
  "uni_strs p =
     [ti_username (pu_termip p), ti_pwd (pu_termip p), ui_username (pu_userinfo p), ui_pwd (pu_userinfo p), ui_smsmobile1 (pu_userinfo p),
      ui_smsmobile2 (pu_userinfo p), ui_smsmobile3 (pu_userinfo p), ui_recvemail (pu_userinfo p), ui_emailsender (pu_userinfo p),
      ui_emailpwd (pu_userinfo p), pu_manuno p, pu_manuno_inner p]"

definition uni_strs_ok :: "para_uni_tG \<Rightarrow> bool" where
  "uni_strs_ok p \<longleftrightarrow> list_all str_ok (uni_strs p) \<and> pu_serial_checkbit p \<noteq> CHR 0x00 \<and> pu_serial_checkbit p \<noteq> CHR ''=''"

definition uni_file :: "para_uni_tG \<Rightarrow> bytes" where
  "uni_file p = xin_head (xin_text (uni_lines p)) @ bytes_of (xin_text (uni_lines p))"

definition example_uni :: para_uni_tG where
  "example_uni = LoadDefParaUni\<lparr>pu_userinfo := (pu_userinfo LoadDefParaUni)\<lparr>ui_emailpwd := str0 32 ''a-long-password''\<rparr>, pu_linewasterhour := 7\<rparr>"

subsection \<open>Lemmas\<close>

lemma uni_save_names: "map fst (map save_line (uni_saves p)) = uni_names"
  unfolding uni_names_def uni_saves_def by simp

lemma uni_reads_eq: "uni_reads =
   [Some ''autojudge'', Some ''autostudy'', Some ''keepalivecyc'', Some ''sndtimeout'', Some ''sndretry'',
    Some ''protocenmet'', Some ''autogetip'', Some ''portlisten'', Some ''ipterm'', Some ''maskterm'',
    Some ''ipgatew'', Some ''username'', Some ''pwd'', Some ''username'', Some ''pwd'',
    Some ''opensms'', Some ''mobile1'', Some ''mobile2'', Some ''mobile3'', Some ''openemail'',
    Some ''recvemail'', Some ''emailsender'', Some ''emailpwd'', Some ''cascamode'', None,
    Some ''baud0'', Some ''databits0'', Some ''stopbits0'', Some ''parity0'', Some ''type0'',
    Some ''cascadeip'', None, None, Some ''baud1'', Some ''databits1'',
    Some ''stopbits1'', Some ''parity1'', Some ''type1'', None, Some ''baud2'',
    Some ''databits2'', Some ''stopbits2'', Some ''parity2'', Some ''type2'', Some ''lwhour'',
    Some ''mac'', Some ''manuno'', Some ''manuin'', Some ''keepalive_retry'', Some ''keepalive_time'',
    None, Some ''itemid1'', None, Some ''itemid2'', Some ''serial_baud'',
    Some ''serial_databits'', Some ''serial_stopbits'', None, Some ''serial_checkbit'', Some ''poll_time'',
    Some ''seriatoird'', Some ''downlink'', Some ''metdev'', Some ''itemnum'', None,
    Some ''checkday'', Some ''checkhour'', Some ''periodflag'', Some ''count'', None,
    Some ''cassflag'', Some ''checktime'']"
  unfolding uni_reads_def uni_loads_def uni_last_def by simp

lemma uni_trace: "trace uni_names 0 uni_reads = uni_found"
  unfolding uni_reads_eq uni_found_def uni_names_def by code_simp

lemma cstr_one: "c \<noteq> CHR 0x00 \<Longrightarrow> cstr [c, CHR 0x00] = [c]"
  by (simp add: cstr_def)

lemma uni_lines_eq: "pu_serial_checkbit p \<noteq> CHR 0x00 \<Longrightarrow> uni_lines p =
   [(''autojudge'', dec_int (uint (pu_autojudge p))),
    (''autostudy'', dec_int (uint (pu_autoStudy p))),
    (''keepalivecyc'', dec_int (uint (pu_keepalive_cyc p))),
    (''sndtimeout'', dec_int (uint (pu_snd_timeout p))),
    (''sndretry'', dec_int (uint (pu_snd_retry p))),
    (''protocenmet'', dec_int (uint (pu_proto_cenmet p))),
    (''portlisten'', dec_int (uint (ti_portlisten (pu_termip p)))),
    (''autogetip'', dec_int (uint (ti_autogetip (pu_termip p)))),
    (''ipterm'', IpToString (ti_ipterm (pu_termip p))),
    (''maskterm'', IpToString (ti_maskterm (pu_termip p))),
    (''ipgatew'', IpToString (ti_ipgatew (pu_termip p))),
    (''username'', cstr (ti_username (pu_termip p))),
    (''pwd'', cstr (ti_pwd (pu_termip p))),
    (''username'', cstr (ui_username (pu_userinfo p))),
    (''pwd'', cstr (ui_pwd (pu_userinfo p))),
    (''opensms'', dec_int (uint (ui_isopensms (pu_userinfo p)))),
    (''mobile1'', cstr (ui_smsmobile1 (pu_userinfo p))),
    (''mobile2'', cstr (ui_smsmobile2 (pu_userinfo p))),
    (''mobile3'', cstr (ui_smsmobile3 (pu_userinfo p))),
    (''openemail'', dec_int (uint (ui_isopenemail (pu_userinfo p)))),
    (''recvemail'', cstr (ui_recvemail (pu_userinfo p))),
    (''emailsender'', cstr (ui_emailsender (pu_userinfo p))),
    (''emailpwd'', cstr (ui_emailpwd (pu_userinfo p))),
    (''cascamode'', dec_int (sint (ca_cascaMode (pu_cascade_term p)))),
    (''baud0'', dec_int (sint (rs_baud (ca_para_485port (pu_cascade_term p))))),
    (''databits0'', dec_int (uint (rs_databits (ca_para_485port (pu_cascade_term p))))),
    (''stopbits0'', dec_int (uint (rs_stopbits (ca_para_485port (pu_cascade_term p))))),
    (''parity0'', dec_int (uint (rs_parity (ca_para_485port (pu_cascade_term p))))),
    (''type0'', dec_int (uint (rs_type (ca_para_485port (pu_cascade_term p))))),
    (''cascadeip'', concat (map hex2 (swap23 (ca_cascade_addr (pu_cascade_term p)) 0))),
    (''baud1'', dec_int (sint (rs_baud (mc_para_485port (pu_metConfig p))))),
    (''databits1'', dec_int (uint (rs_databits (mc_para_485port (pu_metConfig p))))),
    (''stopbits1'', dec_int (uint (rs_stopbits (mc_para_485port (pu_metConfig p))))),
    (''parity1'', dec_int (uint (rs_parity (mc_para_485port (pu_metConfig p))))),
    (''type1'', dec_int (uint (rs_type (mc_para_485port (pu_metConfig p))))),
    (''baud2'', dec_int (sint (rs_baud (pu_para_485bus p)))),
    (''databits2'', dec_int (uint (rs_databits (pu_para_485bus p)))),
    (''stopbits2'', dec_int (uint (rs_stopbits (pu_para_485bus p)))),
    (''parity2'', dec_int (uint (rs_parity (pu_para_485bus p)))),
    (''type2'', dec_int (uint (rs_type (pu_para_485bus p)))),
    (''mac'', concat (map hex2 (pu_addr_mac p))),
    (''manuno'', cstr (pu_manuno p)),
    (''manuin'', cstr (pu_manuno_inner p)),
    (''keepalive_retry'', dec_int (uint (pu_keepalive_sndretry p))),
    (''keepalive_time'', dec_int (uint (pu_keepalive_dialtime p))),
    (''itemid1'', concat (map hex2 [hi8 (pu_itemid1 p), lo8 (pu_itemid1 p)])),
    (''itemid2'', concat (map hex2 [hi8 (pu_itemid2 p), lo8 (pu_itemid2 p)])),
    (''serial_baud'', dec_int (sint (pu_serial_baud p))),
    (''serial_databits'', dec_int (uint (pu_serial_databits p))),
    (''serial_stopbits'', dec_int (uint (pu_serial_stopbits p))),
    (''serial_checkbit'', [pu_serial_checkbit p]),
    (''poll_time'', dec_int (uint (pu_poll_time p))),
    (''seriatoird'', dec_int (uint (pu_serialtoird p))),
    (''downlink'', dec_int (uint (pu_downlink p))),
    (''metdev'', dec_int (uint (pu_metmon_dev p))),
    (''itemnum'', dec_int (uint (pu_itemnum p))),
    (''checkday'', dec_int (uint (pu_checktimeday p))),
    (''checkhour'', dec_int (uint (pu_checktimehour p))),
    (''cassflag'', dec_int (uint (pu_cassflag p)))]"
  unfolding uni_lines_def uni_saves_def by (simp add: IpToString_no_nul cstr_one)

lemma uni_value:
  assumes c: "pu_serial_checkbit p \<noteq> CHR 0x00"
  shows "snd (uni_lines p ! 0) = dec_int (uint (pu_autojudge p))"
    "snd (uni_lines p ! 1) = dec_int (uint (pu_autoStudy p))"
    "snd (uni_lines p ! 2) = dec_int (uint (pu_keepalive_cyc p))"
    "snd (uni_lines p ! 3) = dec_int (uint (pu_snd_timeout p))"
    "snd (uni_lines p ! 4) = dec_int (uint (pu_snd_retry p))"
    "snd (uni_lines p ! 5) = dec_int (uint (pu_proto_cenmet p))"
    "snd (uni_lines p ! 6) = dec_int (uint (ti_portlisten (pu_termip p)))"
    "snd (uni_lines p ! 7) = dec_int (uint (ti_autogetip (pu_termip p)))"
    "snd (uni_lines p ! 8) = IpToString (ti_ipterm (pu_termip p))"
    "snd (uni_lines p ! 9) = IpToString (ti_maskterm (pu_termip p))"
    "snd (uni_lines p ! 10) = IpToString (ti_ipgatew (pu_termip p))"
    "snd (uni_lines p ! 11) = cstr (ti_username (pu_termip p))"
    "snd (uni_lines p ! 12) = cstr (ti_pwd (pu_termip p))"
    "snd (uni_lines p ! 13) = cstr (ui_username (pu_userinfo p))"
    "snd (uni_lines p ! 14) = cstr (ui_pwd (pu_userinfo p))"
    "snd (uni_lines p ! 15) = dec_int (uint (ui_isopensms (pu_userinfo p)))"
    "snd (uni_lines p ! 16) = cstr (ui_smsmobile1 (pu_userinfo p))"
    "snd (uni_lines p ! 17) = cstr (ui_smsmobile2 (pu_userinfo p))"
    "snd (uni_lines p ! 18) = cstr (ui_smsmobile3 (pu_userinfo p))"
    "snd (uni_lines p ! 19) = dec_int (uint (ui_isopenemail (pu_userinfo p)))"
    "snd (uni_lines p ! 20) = cstr (ui_recvemail (pu_userinfo p))"
    "snd (uni_lines p ! 21) = cstr (ui_emailsender (pu_userinfo p))"
    "snd (uni_lines p ! 22) = cstr (ui_emailpwd (pu_userinfo p))"
    "snd (uni_lines p ! 23) = dec_int (sint (ca_cascaMode (pu_cascade_term p)))"
    "snd (uni_lines p ! 24) = dec_int (sint (rs_baud (ca_para_485port (pu_cascade_term p))))"
    "snd (uni_lines p ! 25) = dec_int (uint (rs_databits (ca_para_485port (pu_cascade_term p))))"
    "snd (uni_lines p ! 26) = dec_int (uint (rs_stopbits (ca_para_485port (pu_cascade_term p))))"
    "snd (uni_lines p ! 27) = dec_int (uint (rs_parity (ca_para_485port (pu_cascade_term p))))"
    "snd (uni_lines p ! 28) = dec_int (uint (rs_type (ca_para_485port (pu_cascade_term p))))"
    "snd (uni_lines p ! 29) = concat (map hex2 (swap23 (ca_cascade_addr (pu_cascade_term p)) 0))"
    "snd (uni_lines p ! 30) = dec_int (sint (rs_baud (mc_para_485port (pu_metConfig p))))"
    "snd (uni_lines p ! 31) = dec_int (uint (rs_databits (mc_para_485port (pu_metConfig p))))"
    "snd (uni_lines p ! 32) = dec_int (uint (rs_stopbits (mc_para_485port (pu_metConfig p))))"
    "snd (uni_lines p ! 33) = dec_int (uint (rs_parity (mc_para_485port (pu_metConfig p))))"
    "snd (uni_lines p ! 34) = dec_int (uint (rs_type (mc_para_485port (pu_metConfig p))))"
    "snd (uni_lines p ! 35) = dec_int (sint (rs_baud (pu_para_485bus p)))"
    "snd (uni_lines p ! 36) = dec_int (uint (rs_databits (pu_para_485bus p)))"
    "snd (uni_lines p ! 37) = dec_int (uint (rs_stopbits (pu_para_485bus p)))"
    "snd (uni_lines p ! 38) = dec_int (uint (rs_parity (pu_para_485bus p)))"
    "snd (uni_lines p ! 39) = dec_int (uint (rs_type (pu_para_485bus p)))"
    "snd (uni_lines p ! 40) = concat (map hex2 (pu_addr_mac p))"
    "snd (uni_lines p ! 41) = cstr (pu_manuno p)"
    "snd (uni_lines p ! 42) = cstr (pu_manuno_inner p)"
    "snd (uni_lines p ! 43) = dec_int (uint (pu_keepalive_sndretry p))"
    "snd (uni_lines p ! 44) = dec_int (uint (pu_keepalive_dialtime p))"
    "snd (uni_lines p ! 45) = concat (map hex2 [hi8 (pu_itemid1 p), lo8 (pu_itemid1 p)])"
    "snd (uni_lines p ! 46) = concat (map hex2 [hi8 (pu_itemid2 p), lo8 (pu_itemid2 p)])"
    "snd (uni_lines p ! 47) = dec_int (sint (pu_serial_baud p))"
    "snd (uni_lines p ! 48) = dec_int (uint (pu_serial_databits p))"
    "snd (uni_lines p ! 49) = dec_int (uint (pu_serial_stopbits p))"
    "snd (uni_lines p ! 50) = [pu_serial_checkbit p]"
    "snd (uni_lines p ! 51) = dec_int (uint (pu_poll_time p))"
    "snd (uni_lines p ! 52) = dec_int (uint (pu_serialtoird p))"
    "snd (uni_lines p ! 53) = dec_int (uint (pu_downlink p))"
    "snd (uni_lines p ! 54) = dec_int (uint (pu_metmon_dev p))"
    "snd (uni_lines p ! 55) = dec_int (uint (pu_itemnum p))"
    "snd (uni_lines p ! 56) = dec_int (uint (pu_checktimeday p))"
    "snd (uni_lines p ! 57) = dec_int (uint (pu_checktimehour p))"
    "snd (uni_lines p ! 58) = dec_int (uint (pu_cassflag p))"
  by (simp_all add: uni_lines_eq[OF c])

lemma load_steps_append: "load_steps (as @ bs) xp = (case load_steps as xp of Inl s \<Rightarrow> Inl s | Inr xp \<Rightarrow> load_steps bs xp)"
  by (induction as arbitrary: xp) (auto split: sum.split)

lemma uni_take:
  assumes "uni_shape p" "uni_strs_ok p"
  shows "take 13 (cstr (pu_manuno p)) = cstr (pu_manuno p)" "take 11 (cstr (pu_manuno_inner p)) = cstr (pu_manuno_inner p)"
  using assms by (simp_all add: uni_shape_def uni_strs_ok_def uni_strs_def take_cstr)

lemma swap23_twice: "length a = 4 \<Longrightarrow> swap23 (swap23 a 0) 0 = a"
  by (auto simp: swap23_def length_Suc_conv numeral_eq_Suc)

lemma length_swap: "length (swap23 a i) = length a"
  by (simp add: swap23_def)

lemma put_front_all: "length ys \<le> length xs \<Longrightarrow> put_front xs ys = xs"
  by (simp add: put_front_def)

lemma uni_default_lengths: "length (ca_cascade_addr (pu_cascade_term LoadDefParaUni)) = 4" "length (pu_addr_mac LoadDefParaUni) = 6"
  by (simp_all add: LoadDefParaUni_def)

lemma u16_hi_lo: "u16_of (lo8 w) (hi8 w) = w" 
  by (simp)

lemma uni_load_result:
  assumes "uni_shape p" "uni_strs_ok p"
  shows "load_apply (uni_lines p) (uni_loads @ uni_last) uni_found LoadDefParaUni = restored_uni p"
proof -
  have l: "length (ti_ipterm (pu_termip p)) = 4" "length (ti_maskterm (pu_termip p)) = 4" "length (ti_ipgatew (pu_termip p)) = 4"
     "length (ca_cascade_addr (pu_cascade_term p)) = 4" "length (pu_addr_mac p) = 6" and c: "pu_serial_checkbit p \<noteq> CHR 0x00"
    using assms by (simp_all add: uni_shape_def uni_strs_ok_def)
  define d where "d = LoadDefParaUni"
  have dl: "length (ca_cascade_addr (pu_cascade_term d)) = 4" "length (pu_addr_mac d) = 6"
    by (simp_all add: d_def uni_default_lengths)
  have h: "XinStrToHex (concat (map hex2 (swap23 (ca_cascade_addr (pu_cascade_term p)) 0))) 4 = swap23 (ca_cascade_addr (pu_cascade_term p)) 0"
     "XinStrToHex (concat (map hex2 (pu_addr_mac p))) 6 = pu_addr_mac p"
     "XinStrToHex (concat (map hex2 [hi8 w, lo8 w])) 2 = [hi8 w, lo8 w]" for w
    using l by (auto intro!: XinStrToHex_hex2 simp: length_swap simp del: list.map)
  have pd: "pu_prdcount d = 0" by (simp add: d_def LoadDefParaUni_def)
  have per: "pu_pflag d = 0" by (simp add: d_def LoadDefParaUni_def)
  have ip: "StringToIp (IpToString (ti_ipterm (pu_termip p))) = ti_ipterm (pu_termip p)"
     "StringToIp (IpToString (ti_maskterm (pu_termip p))) = ti_maskterm (pu_termip p)"
     "StringToIp (IpToString (ti_ipgatew (pu_termip p))) = ti_ipgatew (pu_termip p)"
    using StringToIp_IpToString l by simp_all
  note v = XinStrToInt_u8 XinStrToInt_u16 XinStrToInt_s32 ip_line ip h uni_take[OF assms] l dl pd per
  have wsint: "word_of_int (sint x) = x" for x :: u32 by simp
  have i: "(if 8 < pu_prdcount q then q\<lparr>pu_prdcount := 8\<rparr> else q) = q" if "pu_prdcount q = 0" for q :: para_uni_tG
    using that by simp
  have u: "load_apply (uni_lines p) (uni_loads @ uni_last) uni_found d = restored_uni p" if r: "d = LoadDefParaUni"
    unfolding uni_loads_def uni_last_def uni_found_def
    by (simp only: append.simps load_apply.simps option.case uni_value[OF c] v word_of_int_uint wsint list.size if_True refl, subst i,
        simp, unfold restored_uni_def r[symmetric], rule para_uni_tG.equality)
      (simp_all (no_asm_simp) add: v length_swap swap23_twice put_front_all kept_str_def copy_ip_def copy_char_def split del: if_split)
  then show ?thesis by (simp add: d_def)
qed

lemma uni_prdcount:
  assumes "uni_strs_ok p"
  shows "pu_prdcount (load_apply (uni_lines p) uni_loads (take (length uni_loads) uni_found) LoadDefParaUni) = 0"
proof -
  have c: "pu_serial_checkbit p \<noteq> CHR 0x00" using assms by (simp add: uni_strs_ok_def)
  define ls where "ls = uni_lines p"
  show ?thesis unfolding uni_loads_def uni_found_def ls_def[symmetric]
    by (simp add: LoadDefParaUni_def split del: if_split)
qed

lemma trace_prefix: "trace ns i xs = take (length xs) (trace ns i (xs @ ys))"
  by (induction ns i xs rule: trace.induct) (auto split: option.split)

lemma uni_trace_first: "trace uni_names 0 (map load_name uni_loads) = take (length uni_loads) uni_found"
  using trace_prefix[of uni_names 0 "map load_name uni_loads" "map load_name uni_last"] uni_trace by (simp add: uni_reads_def)

lemma uni_names_ok: "\<forall>n \<in> set uni_names. name_ok n \<and> length n \<le> 15"
  by (simp add: uni_names_def name_ok_def no_nul_def)

lemma uni_line_names: "l \<in> set (uni_lines p) \<Longrightarrow> name_ok (fst l) \<and> length (fst l) \<le> 15"
  using uni_names_ok uni_save_names[of p] unfolding uni_lines_def by (metis image_eqI set_map)

lemma uni_loads_ok: "\<forall>s \<in> set (uni_loads @ uni_last). load_ok s"
proof -
  have "\<forall>n \<in> set uni_reads. case n of None \<Rightarrow> True | Some n \<Rightarrow> name_ok n"
    unfolding uni_reads_eq by (simp add: name_ok_def no_nul_def)
  then show ?thesis unfolding uni_reads_def load_ok_def set_map by (simp only: ball_simps)
qed

lemma one_char_text: "c \<noteq> CHR 0x00 \<Longrightarrow> c \<noteq> CHR ''='' \<Longrightarrow> no_nul [c] \<and> take 1 [c] \<noteq> ''=''"
  by (simp add: no_nul_def)

lemma uni_strs_texts:
  assumes "uni_strs_ok p" "s \<in> set (uni_strs p)"
  shows "no_nul (cstr s) \<and> take 1 (cstr s) \<noteq> ''=''"
  using assms str_text by (auto simp: uni_strs_ok_def list_all_iff)

lemma uni_values:
  assumes "uni_strs_ok p"
  shows "\<forall>l \<in> set (uni_lines p). no_nul (snd l) \<and> take 1 (snd l) \<noteq> ''=''"
proof -
  have c: "pu_serial_checkbit p \<noteq> CHR 0x00" "pu_serial_checkbit p \<noteq> CHR ''=''" using assms by (simp_all add: uni_strs_ok_def)
  have "\<forall>s\<in>set (uni_strs p). no_nul (cstr s) \<and> take 1 (cstr s) \<noteq> ''=''"
    using uni_strs_texts[OF assms] by blast
  note s = this[unfolded uni_strs_def list.set ball_simps]
  show ?thesis unfolding uni_lines_eq[OF c(1)]
    by (simp only: list.set ball_simps snd_conv dec_text hex_text ip_text one_char_text[OF c] s simp_thms)
qed

lemma uni_value_lengths:
  assumes "uni_strs_ok p" "uni_shape p"
  shows "\<forall>l \<in> set (uni_lines p). length (snd l) \<le> 40"
proof -
  have c: "pu_serial_checkbit p \<noteq> CHR 0x00" using assms by (simp add: uni_strs_ok_def)
  have "\<forall>s\<in>set (uni_strs p). length (cstr s) \<le> 40"
  proof
    fix s assume s: "s \<in> set (uni_strs p)"
    then have "length s \<le> 32" using assms(2) by (auto simp: uni_strs_def uni_shape_def)
    moreover have "str_ok s" using assms(1) s by (simp add: uni_strs_ok_def list_all_iff)
    ultimately show "length (cstr s) \<le> 40" using str_ok_length[of s] by simp
  qed
  note s = this[unfolded uni_strs_def list.set ball_simps]
  have h: "length (swap23 (ca_cascade_addr (pu_cascade_term p)) 0) \<le> 16" "length (pu_addr_mac p) \<le> 16" "length [hi8 w, lo8 w] \<le> 16" for w
    using assms(2) by (simp_all add: uni_shape_def length_swap)
  have one: "length [x] \<le> 40" for x :: char by simp
  show ?thesis unfolding uni_lines_eq[OF c]
    by (simp only: list.set ball_simps snd_conv dec_lengths ip_length_40 s hex_lengths[OF h(1)] hex_lengths[OF h(2)] hex_lengths[OF h(3)] one simp_thms)
qed

lemma uni_text_fits:
  assumes "uni_strs_ok p" "uni_shape p"
  shows "length (xin_text (uni_lines p)) < XIN_MAXSIZE"
proof -
  have c: "pu_serial_checkbit p \<noteq> CHR 0x00" using assms by (simp add: uni_strs_ok_def)
  have "\<forall>l \<in> set (uni_lines p). length (xin_line l) \<le> 60"
    using uni_value_lengths[OF assms] uni_line_names by (fastforce simp: xin_line_def)
  from xin_text_bound[OF this] show ?thesis by (simp add: uni_lines_eq[OF c] XIN_MAXSIZE_def)
qed

lemma uni_lines_ok: "uni_strs_ok p \<Longrightarrow> \<forall>l \<in> set (uni_lines p). line_ok l"
  using uni_values uni_line_names unfolding line_ok_def by blast

lemma uni_lines_nonempty: "uni_strs_ok p \<Longrightarrow> uni_lines p \<noteq> []"
  by (simp add: uni_strs_ok_def uni_lines_eq)

lemma SaveParaUni_ok:
  assumes p: "uni_strs_ok p" "uni_shape p" and x: "xin_ready x" and f: "can_write (xr_fs x) UNIQUE_FILE"
  shows "\<exists>y. SaveParaUni p x = Inr (0, y) \<and> xr_fs y = fs_write UNIQUE_FILE (uni_file p) (xr_fs x) \<and> xin_ready y"
proof -
  define x1 where "x1 = x\<lparr>xr_openflag := CHR ''w'', xr_filename := UNIQUE_FILE, xr_pscan := 0, xr_len := 0, xr_locked := True\<rparr>"
  have fl: "length UNIQUE_FILE < XIN_MAXFILENAME" by (simp add: UNIQUE_FILE_def XIN_MAXFILENAME_def)
  have o: "XinOpen UNIQUE_FILE CHR ''w'' x = Inr (True, x1)" using x f fl by (simp add: XinOpen_def xin_ready_def x1_def)
  have w: "wrote [] x1" using x by (simp add: wrote_def xin_text_def x1_def xin_ready_def)
  have "\<forall>s \<in> set (uni_saves p). name_ok (fst (save_line s))" using uni_line_names[of _ p] by (auto simp: uni_lines_def)
  then obtain y where y: "save_steps (uni_saves p) x1 = Inr y" "wrote (uni_lines p) y" "xr_fs y = xr_fs x1" "xr_filename y = xr_filename x1"
    using save_steps_wrote[OF w, of "uni_saves p"] uni_text_fits[OF p] by (auto simp: uni_lines_def)
  have c: "can_write (xr_fs y) (xr_filename y)" using y f by (simp add: x1_def)
  have "length (xr_buffer y) = XIN_MAXSIZE + 128" using y(2) by (simp add: wrote_def)
  then show ?thesis
    using XinClose_file[OF y(2) uni_lines_nonempty[OF p(1)] c] o y by (simp add: SaveParaUni_def uni_file_def x1_def xin_ready_def)
qed

lemma XinOpen_uni:
  assumes p: "uni_strs_ok p" "uni_shape p" and z: "xin_ready z" "files (xr_fs z) UNIQUE_FILE = Some (uni_file p)"
  shows "\<exists>y. XinOpen UNIQUE_FILE CHR ''r'' z = Inr (True, y) \<and> at_line (uni_lines p) 0 y"
proof -
  have fl: "length UNIQUE_FILE < XIN_MAXFILENAME" by (simp add: UNIQUE_FILE_def XIN_MAXFILENAME_def)
  have "\<exists>y rest. XinOpen UNIQUE_FILE CHR ''r'' z = Inr (True, y) \<and> xr_openflag y = CHR ''r'' \<and> xr_pscan y = 0 \<and>
      xr_buffer y = xin_text (uni_lines p) @ CHR 0x00 # rest"
    by (rule XinOpen_file) (use z fl uni_text_fits[OF p] xin_text_nonempty[OF uni_lines_nonempty[OF p(1)]] in \<open>simp_all add: xin_ready_def uni_file_def\<close>)
  then show ?thesis using uni_lines_ok[OF p(1)] uni_lines_nonempty[OF p(1)] by (auto simp: at_line_def)
qed

lemma LoadParaUni_restored:
  assumes p: "uni_strs_ok p" "uni_shape p" and z: "xin_ready z" "files (xr_fs z) UNIQUE_FILE = Some (uni_file p)"
  shows "\<exists>w. LoadParaUni z = Inr (0, restored_uni p, w)"
proof -
  obtain y where y: "XinOpen UNIQUE_FILE CHR ''r'' z = Inr (True, y)" "at_line (uni_lines p) 0 y" using XinOpen_uni[OF p z] by blast
  have n: "map fst (uni_lines p) = uni_names" using uni_save_names by (simp add: uni_lines_def)
  obtain v1 where v1: "load_steps uni_loads (y, LoadDefParaUni) =
      Inr (v1, load_apply (uni_lines p) uni_loads (take (length uni_loads) uni_found) LoadDefParaUni)"
    using load_steps_apply[OF y(2), of uni_loads LoadDefParaUni] uni_loads_ok unfolding n uni_trace_first by auto
  obtain v2 where v2: "load_steps (uni_loads @ uni_last) (y, LoadDefParaUni) = Inr (v2, restored_uni p)"
    using load_steps_apply[OF y(2) uni_loads_ok, of LoadDefParaUni] uni_load_result[OF p(2,1)]
    unfolding n uni_reads_def[symmetric] uni_trace by auto
  have "load_steps uni_last (v1, load_apply (uni_lines p) uni_loads (take (length uni_loads) uni_found) LoadDefParaUni) = Inr (v2, restored_uni p)"
    using v2 unfolding load_steps_append v1 by simp
  then show ?thesis using y(1) v1 uni_prdcount[OF p(1)] by (simp add: LoadParaUni_def prd_loads_def)
qed

subsection \<open>Properties\<close>

text \<open>Saved parameters of a well-formed record, with strings the text file can hold, are loaded from the file
  again, whatever else is saved in between - apart from what the two functions do not agree on: the password of the mail
  is cut to 11 characters, an empty name or password of the user is loaded as the default one of the network, the hour of
  the lines, the periods and the minutes of the check are not stored, and the number of items is always two.\<close>

theorem ParaUni_roundtrip:
  assumes "uni_shape p" "uni_strs_ok p" "xin_ready x" "can_write (xr_fs x) UNIQUE_FILE"
  shows "\<exists>y. SaveParaUni p x = Inr (0, y) \<and> xin_ready y \<and>
    (\<forall>z. xin_ready z \<and> files (xr_fs z) UNIQUE_FILE = files (xr_fs y) UNIQUE_FILE \<longrightarrow> (\<exists>w. LoadParaUni z = Inr (0, restored_uni p, w)))"
proof -
  obtain y where y: "SaveParaUni p x = Inr (0, y)" "xr_fs y = fs_write UNIQUE_FILE (uni_file p) (xr_fs x)" "xin_ready y"
    using SaveParaUni_ok[OF assms(2,1,3,4)] by blast
  have "files (xr_fs y) UNIQUE_FILE = Some (uni_file p)" by (simp add: y(2) fs_write_def)
  then show ?thesis using y LoadParaUni_restored[OF assms(2,1)] by auto
qed

theorem ParaUni_roundtrip_witness:
  "\<exists>y p w. SaveParaUni example_uni xin_idle = Inr (0, y) \<and> LoadParaUni y = Inr (0, p, w) \<and>
    cstr (ui_emailpwd (pu_userinfo p)) = ''a-long-pass'' \<and> pu_linewasterhour p = 23 \<and> pu_keepalive_cyc p = 1"
proof -
  have s: "uni_shape example_uni" by (simp add: uni_shape_def example_uni_def LoadDefParaUni_def str0_def put_str_def)
  have t: "uni_strs_ok example_uni"
    by (simp add: uni_strs_ok_def uni_strs_def str_ok_def example_uni_def LoadDefParaUni_def str0_def put_str_def cstr_def)
  have x: "xin_ready xin_idle" "can_write (xr_fs xin_idle) UNIQUE_FILE" by (simp_all add: xin_ready_def xin_idle_def)
  have r: "cstr (ui_emailpwd (pu_userinfo (restored_uni example_uni))) = ''a-long-pass''" "pu_linewasterhour (restored_uni example_uni) = 23"
      "pu_keepalive_cyc (restored_uni example_uni) = 1"
    by (simp_all add: restored_uni_def example_uni_def LoadDefParaUni_def str0_def put_str_def cstr_def kept_str_def copy_str_def)
  show ?thesis using ParaUni_roundtrip[OF s t x] r by fastforce
qed

end
