(* ===== verification/Sceneuse.thy ===== *)
theory Sceneuse
  imports Itemop
begin

text \<open>
  The scenes and the tasks of the timer as files (\<open>param/sceneuse.c\<close>): their defaults, and loading
  and saving them as checked files with a backup. The scenes and the tasks are the bytes of the
  structures, in the \<open>world\<close> of the items, which also holds the file system. The uninitialised
  variable of the defaults and the byte behind a string literal are arguments.
\<close>

definition SCENEUSE_MAGIC :: u32 where "SCENEUSE_MAGIC = 0x9572acd0"
definition SCENE_FILE :: string where "SCENE_FILE = ''/param/sceneuse.bin''"
definition SCENE_BAK :: string where "SCENE_BAK = ''/bakup/sceneuse.bin''"
definition TASK_FILE :: string where "TASK_FILE = ''/param/timertask.bin''"
definition TASK_BAK :: string where "TASK_BAK = ''/bakup/timertask.bin''"

definition w_fs :: "world \<Rightarrow> fs" where "w_fs w = xr_fs (w_xin w)"

definition set_fs :: "fs \<Rightarrow> world \<Rightarrow> world" where "set_fs s w = w\<lparr>w_xin := (w_xin w)\<lparr>xr_fs := s\<rparr>\<rparr>"

definition write_at :: "nat \<Rightarrow> bytes \<Rightarrow> bytes \<Rightarrow> bytes" where
  "write_at k bs xs = take k xs @ bs @ drop (k + length bs) xs"

text \<open>The two structures in memory: the flag of the scenes and their array, and the array of the tasks.\<close>

definition rows_of :: "nat \<Rightarrow> nat \<Rightarrow> bytes \<Rightarrow> bytes list" where
  "rows_of k n bs = map (\<lambda>i. take n (drop (n * i) bs)) [0..<k]"

definition scene_bytes :: "world \<Rightarrow> bytes" where
  "scene_bytes w = le16 (w_sceneflag w) @ concat (w_scenes w)"

definition set_scene_bytes :: "bytes \<Rightarrow> world \<Rightarrow> world" where
  "set_scene_bytes bs w =
     w\<lparr>w_sceneflag := u16_of (bs ! 0) (bs ! 1), w_scenes := rows_of MAX_SCENECLASS SCENE_SIZE (drop 2 bs)\<rparr>"

definition task_bytes :: "world \<Rightarrow> bytes" where
  "task_bytes w = concat (w_tasks w)"

definition set_task_bytes :: "bytes \<Rightarrow> world \<Rightarrow> world" where
  "set_task_bytes bs w = w\<lparr>w_tasks := rows_of MAX_TIMERTASK TASK_SIZE bs\<rparr>"

text \<open>A file, or its backup when the file is refused.\<close>

definition ReadBacked :: "string \<Rightarrow> string \<Rightarrow> nat \<Rightarrow> fs \<Rightarrow> bytes option" where
  "ReadBacked file bak len s =
     (case ReadBinFile file SCENEUSE_MAGIC (int len) s of
        None \<Rightarrow> ReadBinFile bak SCENEUSE_MAGIC (int len) s
      | Some bs \<Rightarrow> Some bs)"

definition SaveBacked :: "string \<Rightarrow> string \<Rightarrow> bytes \<Rightarrow> fs \<Rightarrow> fs" where
  "SaveBacked file bak bs s =
     snd (SaveBinFile bak SCENEUSE_MAGIC bs (snd (SaveBinFile file SCENEUSE_MAGIC bs s)))"

definition def_scene :: "u8 \<Rightarrow> u8 \<Rightarrow> bytes \<Rightarrow> bytes" where
  "def_scene sid num name = write_at 2 name (write_at 0 [sid, num] (replicate SCENE_SIZE 0))"

definition LoadDefParaDataUse :: "u8 \<Rightarrow> u8 \<Rightarrow> world \<Rightarrow> world" where
  "LoadDefParaDataUse j behind w =
     w\<lparr>w_sceneflag := 0x003f,
       w_scenes :=
         [def_scene 1 j (bytes_of ''All Open'' @ [0, behind]),
          def_scene 2 j (bytes_of ''All Close'' @ [0]),
          def_scene 3 0 (bytes_of ''Scene3'' @ [0]),
          def_scene 4 0 (bytes_of ''Scene4'' @ [0]),
          def_scene 5 0 (bytes_of ''Scene5'' @ [0]),
          def_scene 6 0 (bytes_of ''Scene6'' @ [0])] @ replicate (MAX_SCENECLASS - 6) (replicate SCENE_SIZE 0)\<rparr>"

definition LoadParaDataUse :: "u8 \<Rightarrow> u8 \<Rightarrow> world \<Rightarrow> int \<times> world" where
  "LoadParaDataUse j behind w =
     (let w = LoadDefParaDataUse j behind w in
      case ReadBacked SCENE_FILE SCENE_BAK (2 + MAX_SCENECLASS * SCENE_SIZE) (w_fs w) of
        None \<Rightarrow> (1, SetSaveParamFlag SAVFLAG_SCENE w)
      | Some bs \<Rightarrow> (0, SetSaveParamFlag SAVFLAG_SCENE (set_scene_bytes (put_front bs (scene_bytes w)) w)))"

definition SaveParaSceneUse :: "world \<Rightarrow> int \<times> world" where
  "SaveParaSceneUse w = (0, set_fs (SaveBacked SCENE_FILE SCENE_BAK (scene_bytes w) (w_fs w)) w)"

text \<open>The two default tasks are both written to the first place.\<close>

definition def_task :: "u8 \<Rightarrow> u8 \<Rightarrow> bytes \<Rightarrow> u16 \<Rightarrow> bytes \<Rightarrow> bytes" where
  "def_task tid hour name metid t =
     write_at 23 (le16 metid) (write_at 22 [2] (write_at 2 name (write_at 18 [hour, 0, 0xff, 1] (write_at 0 [tid, 1] t))))"

definition LoadDefParaTimerTask :: "u8 \<Rightarrow> world \<Rightarrow> world" where
  "LoadDefParaTimerTask behind w =
     w\<lparr>w_tasks :=
         def_task 2 12 (bytes_of ''All Close'' @ [0]) 2
           (def_task 1 0 (bytes_of ''All Open'' @ [0, behind]) 1 (replicate TASK_SIZE 0))
         # replicate (MAX_TIMERTASK - 1) (replicate TASK_SIZE 0)\<rparr>"

definition LoadParaTimerTask :: "u8 \<Rightarrow> world \<Rightarrow> int \<times> world" where
  "LoadParaTimerTask behind w =
     (let w = LoadDefParaTimerTask behind w in
      case ReadBacked TASK_FILE TASK_BAK (MAX_TIMERTASK * TASK_SIZE) (w_fs w) of
        None \<Rightarrow> (1, SetSaveParamFlag SAVFLAG_TIMERTASK w)
      | Some bs \<Rightarrow> (0, SetSaveParamFlag SAVFLAG_SCENE (set_task_bytes (put_front bs (task_bytes w)) w)))"

definition SaveParaTimerTask :: "world \<Rightarrow> int \<times> world" where
  "SaveParaTimerTask w = (0, set_fs (SaveBacked TASK_FILE TASK_BAK (task_bytes w) (w_fs w)) w)"

text \<open>A checked record with a backup, over any store of records.\<close>

locale backed_record = record_store save load limit
  for save :: "string \<Rightarrow> u32 \<Rightarrow> bytes \<Rightarrow> 's \<Rightarrow> int \<times> 's" and load limit +
  fixes main bak :: string and magic :: u32
  assumes differ: "main \<noteq> bak"
begin

lemma both_saved:
  assumes "save main magic b s = (0, s1)" "save bak magic b s1 = (0, s2)" "b \<noteq> []" "int (length b) \<le> limit"
  shows "load main magic (int (length b)) s2 = Some b" "load bak magic (int (length b)) s2 = Some b"
proof -
  have "s2 = snd (save bak magic b s1)" using assms(2) by simp
  then show "load main magic (int (length b)) s2 = Some b"
    using load_other[OF differ, of magic "int (length b)" magic b s1] load_whole[OF assms(1,4,3)] by simp
  show "load bak magic (int (length b)) s2 = Some b" by (rule load_whole[OF assms(2,4,3)])
qed

text \<open>The main file as it was saved, or refused with the backup as it was saved.\<close>

lemma restored_from_one:
  assumes "save main magic b s = (0, s1)" "save bak magic b s1 = (0, s2)" "b \<noteq> []" "int (length b) \<le> limit"
    and "load main magic (int (length b)) t = load main magic (int (length b)) s2 \<or>
      load main magic (int (length b)) t = None \<and> load bak magic (int (length b)) t = load bak magic (int (length b)) s2"
  shows "(case load main magic (int (length b)) t of None \<Rightarrow> load bak magic (int (length b)) t | Some d \<Rightarrow> Some d) = Some b"
  using assms(5) both_saved[OF assms(1-4)] by auto

end

interpretation scene_file: backed_record SaveBinFile ReadBinFile MAX_FILELEN SCENE_FILE SCENE_BAK SCENEUSE_MAGIC
  by unfold_locales (simp add: SCENE_FILE_def SCENE_BAK_def)

interpretation task_file: backed_record SaveBinFile ReadBinFile MAX_FILELEN TASK_FILE TASK_BAK SCENEUSE_MAGIC
  by unfold_locales (simp add: TASK_FILE_def TASK_BAK_def)

subsection \<open>Specification\<close>

definition survives :: "string \<Rightarrow> string \<Rightarrow> fs \<Rightarrow> fs \<Rightarrow> bool" where
  "survives main bak s t \<longleftrightarrow>
     files t main = files s main \<or> (\<forall>n. ReadBinFile main SCENEUSE_MAGIC n t = None) \<and> files t bak = files s bak"

subsection \<open>Lemmas\<close>

lemma rows_of_Suc: "rows_of (Suc m) n bs = take n bs # rows_of m n (drop n bs)"
  by (simp add: rows_of_def upt_conv_Cons map_Suc_upt[symmetric] add.commute del: upt_Suc)

lemma rows_of_concat: "rows k n xs \<Longrightarrow> rows_of k n (concat xs) = xs"
proof (induction xs arbitrary: k)
  case Nil then show ?case by (simp add: rows_def rows_of_def)
next
  case (Cons x xs)
  then obtain m where "k = Suc m" "rows m n xs" "length x = n" by (auto simp: rows_def)
  then show ?case using Cons.IH[of m] by (simp add: rows_of_Suc)
qed

lemma length_concat_rows: "rows k n xs \<Longrightarrow> length (concat xs) = k * n"
proof (induction xs arbitrary: k)
  case Nil then show ?case by (simp add: rows_def)
next
  case (Cons x xs)
  then obtain m where "k = Suc m" "rows m n xs" "length x = n" by (auto simp: rows_def)
  then show ?case using Cons.IH[of m] by simp
qed

lemma SaveBacked_saved:
  assumes "can_write s main" "can_write s bak" "b \<noteq> []" "int (length b) \<le> MAX_FILELEN"
  shows "\<exists>s1. SaveBinFile main SCENEUSE_MAGIC b s = (0, s1) \<and> SaveBinFile bak SCENEUSE_MAGIC b s1 = (0, SaveBacked main bak b s)"
  using assms by (auto simp: SaveBacked_def SaveBinFile_def Let_def fs_remove_def fs_write_def)

lemma SaveBacked_other: "f \<noteq> main \<Longrightarrow> f \<noteq> bak \<Longrightarrow> files (SaveBacked main bak b s) f = files s f"
  by (simp add: SaveBacked_def SaveBinFile_other)

lemma SaveBacked_can_write: "can_write (SaveBacked main bak b s) = can_write s"
  by (simp add: SaveBacked_def SaveBinFile_def Let_def fs_remove_def fs_write_def)

lemma files_differ:
  "SCENE_FILE \<noteq> SCENE_BAK" "TASK_FILE \<noteq> TASK_BAK" "SCENE_FILE \<noteq> TASK_FILE" "SCENE_FILE \<noteq> TASK_BAK" "SCENE_BAK \<noteq> TASK_FILE" "SCENE_BAK \<noteq> TASK_BAK"
  "TASK_FILE \<noteq> SCENE_FILE" "TASK_BAK \<noteq> SCENE_FILE" "TASK_FILE \<noteq> SCENE_BAK" "TASK_BAK \<noteq> SCENE_BAK"
  by (simp_all add: SCENE_FILE_def SCENE_BAK_def TASK_FILE_def TASK_BAK_def)

lemma survives_load:
  assumes "survives main bak s t"
  shows "ReadBinFile main SCENEUSE_MAGIC n t = ReadBinFile main SCENEUSE_MAGIC n s \<or>
    ReadBinFile main SCENEUSE_MAGIC n t = None \<and> ReadBinFile bak SCENEUSE_MAGIC n t = ReadBinFile bak SCENEUSE_MAGIC n s"
  using assms ReadBinFile_files unfolding survives_def by metis

lemma scene_file_restored:
  assumes "can_write s SCENE_FILE" "can_write s SCENE_BAK" "b \<noteq> []" "int (length b) \<le> MAX_FILELEN"
    and "survives SCENE_FILE SCENE_BAK (SaveBacked SCENE_FILE SCENE_BAK b s) t"
  shows "ReadBacked SCENE_FILE SCENE_BAK (length b) t = Some b"
proof -
  obtain s1 where s: "SaveBinFile SCENE_FILE SCENEUSE_MAGIC b s = (0, s1)"
      "SaveBinFile SCENE_BAK SCENEUSE_MAGIC b s1 = (0, SaveBacked SCENE_FILE SCENE_BAK b s)"
    using SaveBacked_saved[OF assms(1-4)] by blast
  show ?thesis unfolding ReadBacked_def
    by (rule scene_file.restored_from_one[OF s assms(3,4) survives_load[OF assms(5)]])
qed

lemma task_file_restored:
  assumes "can_write s TASK_FILE" "can_write s TASK_BAK" "b \<noteq> []" "int (length b) \<le> MAX_FILELEN"
    and "survives TASK_FILE TASK_BAK (SaveBacked TASK_FILE TASK_BAK b s) t"
  shows "ReadBacked TASK_FILE TASK_BAK (length b) t = Some b"
proof -
  obtain s1 where s: "SaveBinFile TASK_FILE SCENEUSE_MAGIC b s = (0, s1)"
      "SaveBinFile TASK_BAK SCENEUSE_MAGIC b s1 = (0, SaveBacked TASK_FILE TASK_BAK b s)"
    using SaveBacked_saved[OF assms(1-4)] by blast
  show ?thesis unfolding ReadBacked_def
    by (rule task_file.restored_from_one[OF s assms(3,4) survives_load[OF assms(5)]])
qed

lemma w_fs_set [simp]: "w_fs (set_fs s w) = s" "w_fs (LoadDefParaDataUse j b w) = w_fs w" "w_fs (LoadDefParaTimerTask b w) = w_fs w"
  by (simp_all add: w_fs_def set_fs_def LoadDefParaDataUse_def LoadDefParaTimerTask_def)

lemma length_write_at: "k + length bs \<le> length xs \<Longrightarrow> length (write_at k bs xs) = length xs"
  by (simp add: write_at_def)

lemma default_lengths:
  "length (scene_bytes (LoadDefParaDataUse j b w)) = 2 + MAX_SCENECLASS * SCENE_SIZE"
  "length (task_bytes (LoadDefParaTimerTask b w)) = MAX_TIMERTASK * TASK_SIZE"
proof -
  have s: "rows MAX_SCENECLASS SCENE_SIZE (w_scenes (LoadDefParaDataUse j b w))"
    by (simp add: rows_def LoadDefParaDataUse_def def_scene_def length_write_at MAX_SCENECLASS_def SCENE_SIZE_def)
  show "length (scene_bytes (LoadDefParaDataUse j b w)) = 2 + MAX_SCENECLASS * SCENE_SIZE"
    using length_concat_rows[OF s] by (simp add: scene_bytes_def le16_def)
  have t: "rows MAX_TIMERTASK TASK_SIZE (w_tasks (LoadDefParaTimerTask b w))"
    by (simp add: rows_def LoadDefParaTimerTask_def def_task_def length_write_at MAX_TIMERTASK_def TASK_SIZE_def le16_def)
  show "length (task_bytes (LoadDefParaTimerTask b w)) = MAX_TIMERTASK * TASK_SIZE"
    using length_concat_rows[OF t] by (simp add: task_bytes_def)
qed

lemma put_front_whole: "length xs = length ys \<Longrightarrow> put_front xs ys = xs"
  by (simp add: put_front_def)

lemma scenes_loaded:
  assumes "rows MAX_SCENECLASS SCENE_SIZE (w_scenes w)" "can_write (w_fs w) SCENE_FILE" "can_write (w_fs w) SCENE_BAK"
    and "survives SCENE_FILE SCENE_BAK (w_fs (snd (SaveParaSceneUse w))) (w_fs t)"
  shows "LoadParaDataUse j b t = (0, SetSaveParamFlag SAVFLAG_SCENE (t\<lparr>w_sceneflag := w_sceneflag w, w_scenes := w_scenes w\<rparr>))"
proof -
  let ?b = "scene_bytes w"
  have l: "length ?b = 2 + MAX_SCENECLASS * SCENE_SIZE" using length_concat_rows[OF assms(1)] by (simp add: scene_bytes_def le16_def)
  then have b: "?b \<noteq> []" "int (length ?b) \<le> MAX_FILELEN" by (auto simp: MAX_FILELEN_def MAX_SCENECLASS_def SCENE_SIZE_def)
  have r: "ReadBacked SCENE_FILE SCENE_BAK (2 + MAX_SCENECLASS * SCENE_SIZE) (w_fs t) = Some ?b"
    using scene_file_restored[OF assms(2,3) b] assms(4) l by (simp add: SaveParaSceneUse_def)
  have p: "put_front ?b (scene_bytes (LoadDefParaDataUse j b t)) = ?b" using l default_lengths(1) by (intro put_front_whole) simp
  have s: "set_scene_bytes ?b v = v\<lparr>w_sceneflag := w_sceneflag w, w_scenes := w_scenes w\<rparr>" for v
    using rows_of_concat[OF assms(1)] by (simp add: set_scene_bytes_def scene_bytes_def le16_def)
  show ?thesis using r by (simp add: LoadParaDataUse_def Let_def p s) (simp add: LoadDefParaDataUse_def)
qed

lemma tasks_loaded:
  assumes "rows MAX_TIMERTASK TASK_SIZE (w_tasks w)" "can_write (w_fs w) TASK_FILE" "can_write (w_fs w) TASK_BAK"
    and "survives TASK_FILE TASK_BAK (w_fs (snd (SaveParaTimerTask w))) (w_fs t)"
  shows "LoadParaTimerTask b t = (0, SetSaveParamFlag SAVFLAG_SCENE (t\<lparr>w_tasks := w_tasks w\<rparr>))"
proof -
  let ?b = "task_bytes w"
  have l: "length ?b = MAX_TIMERTASK * TASK_SIZE" using length_concat_rows[OF assms(1)] by (simp add: task_bytes_def)
  then have b: "?b \<noteq> []" "int (length ?b) \<le> MAX_FILELEN" by (auto simp: MAX_FILELEN_def MAX_TIMERTASK_def TASK_SIZE_def)
  have r: "ReadBacked TASK_FILE TASK_BAK (MAX_TIMERTASK * TASK_SIZE) (w_fs t) = Some ?b"
    using task_file_restored[OF assms(2,3) b] assms(4) l by (simp add: SaveParaTimerTask_def)
  have p: "put_front ?b (task_bytes (LoadDefParaTimerTask b t)) = ?b" using l default_lengths(2) by (intro put_front_whole) simp
  have s: "set_task_bytes ?b v = v\<lparr>w_tasks := w_tasks w\<rparr>" for v
    using rows_of_concat[OF assms(1)] by (simp add: set_task_bytes_def task_bytes_def)
  show ?thesis using r by (simp add: LoadParaTimerTask_def Let_def p s) (simp add: LoadDefParaTimerTask_def)
qed

lemma survives_files: "files s main = files u main \<Longrightarrow> files s bak = files u bak \<Longrightarrow> survives main bak s t \<Longrightarrow> survives main bak u t"
  by (auto simp: survives_def)

subsection \<open>Properties\<close>

text \<open>The scenes and the tasks that were saved are loaded again, each from its file or, when the file is refused, from
  its backup, whatever else is in the file system; the order of the two savings does not matter to either. Loading the
  tasks marks the scenes to be saved.\<close>

theorem scenes_restored:
  assumes "rows MAX_SCENECLASS SCENE_SIZE (w_scenes w)" "rows MAX_TIMERTASK TASK_SIZE (w_tasks w)"
    and "\<forall>f \<in> {SCENE_FILE, SCENE_BAK, TASK_FILE, TASK_BAK}. can_write (w_fs w) f"
    and "s = w_fs (snd (SaveParaTimerTask (snd (SaveParaSceneUse w))))"
    and "survives SCENE_FILE SCENE_BAK s (w_fs t)" "survives TASK_FILE TASK_BAK s (w_fs t)"
  shows "LoadParaDataUse j b t = (0, SetSaveParamFlag SAVFLAG_SCENE (t\<lparr>w_sceneflag := w_sceneflag w, w_scenes := w_scenes w\<rparr>)) \<and>
    LoadParaTimerTask b t = (0, SetSaveParamFlag SAVFLAG_SCENE (t\<lparr>w_tasks := w_tasks w\<rparr>))"
proof
  let ?v = "snd (SaveParaSceneUse w)"
  have "files s f = files (w_fs ?v) f" if "f \<noteq> TASK_FILE" "f \<noteq> TASK_BAK" for f
    using that by (simp add: assms(4) SaveParaTimerTask_def SaveBacked_other)
  then have "survives SCENE_FILE SCENE_BAK (w_fs ?v) (w_fs t)" using assms(5) files_differ by (intro survives_files[OF _ _ assms(5)]) auto
  then show "LoadParaDataUse j b t = (0, SetSaveParamFlag SAVFLAG_SCENE (t\<lparr>w_sceneflag := w_sceneflag w, w_scenes := w_scenes w\<rparr>))"
    using assms(1,3) by (intro scenes_loaded) auto
  have "w_tasks ?v = w_tasks w" "can_write (w_fs ?v) = can_write (w_fs w)"
    by (simp_all add: SaveParaSceneUse_def SaveBacked_can_write) (simp add: set_fs_def)
  then show "LoadParaTimerTask b t = (0, SetSaveParamFlag SAVFLAG_SCENE (t\<lparr>w_tasks := w_tasks w\<rparr>))"
    using assms(2,3,4,6) tasks_loaded[of ?v t b] by auto
qed

theorem scenes_restored_witness:
  "\<exists>t. files (w_fs t) SCENE_FILE = None \<and> w_tasks (snd (LoadParaTimerTask 0 t)) = w_tasks (LoadDefParaTimerTask 7 example_world) \<and>
    w_scenes (snd (LoadParaDataUse 0 0 t)) = w_scenes (LoadDefParaDataUse 5 9 example_world) \<and> take 9 (w_tasks t ! 0) = replicate 9 0"
proof -
  let ?w = "LoadDefParaTimerTask 7 (LoadDefParaDataUse 5 9 example_world)"
  let ?s = "w_fs (snd (SaveParaTimerTask (snd (SaveParaSceneUse ?w))))"
  let ?t = "set_fs (fs_remove SCENE_FILE ?s) example_world"
  have w: "\<forall>f \<in> {SCENE_FILE, SCENE_BAK, TASK_FILE, TASK_BAK}. can_write (w_fs ?w) f"
    by (simp add: w_fs_def example_world_def xin_idle_def LoadDefParaTimerTask_def LoadDefParaDataUse_def)
  have n: "ReadBinFile SCENE_FILE SCENEUSE_MAGIC n (fs_remove SCENE_FILE ?s) = None" for n
    by (simp add: ReadBinFile_def fs_remove_def)
  have r: "rows MAX_SCENECLASS SCENE_SIZE (w_scenes ?w)" "rows MAX_TIMERTASK TASK_SIZE (w_tasks ?w)"
    by (simp_all add: rows_def LoadDefParaDataUse_def LoadDefParaTimerTask_def def_scene_def def_task_def length_write_at
        MAX_SCENECLASS_def SCENE_SIZE_def MAX_TIMERTASK_def TASK_SIZE_def le16_def)
  have s: "survives SCENE_FILE SCENE_BAK ?s (w_fs ?t)" "survives TASK_FILE TASK_BAK ?s (w_fs ?t)"
    using n files_differ by (auto simp: survives_def) (simp_all add: fs_remove_def)
  have e: "files (w_fs ?t) SCENE_FILE = None" "take 9 (w_tasks ?t ! 0) = replicate 9 0"
    by (simp add: fs_remove_def) (simp add: set_fs_def example_world_def)
  have d: "w_tasks (LoadDefParaTimerTask 7 (LoadDefParaDataUse 5 9 example_world)) = w_tasks (LoadDefParaTimerTask 7 example_world)"
    "w_scenes (LoadDefParaTimerTask 7 (LoadDefParaDataUse 5 9 example_world)) = w_scenes (LoadDefParaDataUse 5 9 example_world)"
    by (simp_all add: LoadDefParaDataUse_def LoadDefParaTimerTask_def)
  note l = scenes_restored[OF r w refl s, THEN conjunct1] scenes_restored[OF r w refl s, THEN conjunct2]
  show ?thesis using e d l(1)[of 0 0] l(2)[of 0] by (intro exI[of _ ?t]) (simp add: SetSaveParamFlag_def)
qed

end
