(* ===== verification/Restart.thy ===== *)
theory Restart
  imports Unique Sceneuse
begin

text \<open>
  The saving of what was written with the functions it calls (\<open>param/operation.c\<close>), and the start
  of the parameters (\<open>param/param_init.c\<close>). The \<open>world\<close> of the items holds the parameters of the
  network only as the bytes the items access, so their record is an argument; so is whether a lock
  was left at the start. The start loads neither the scenes nor the tasks: those calls are commented out.
\<close>

fun call_save :: "para_uni_tG \<Rightarrow> savefunc \<Rightarrow> world \<Rightarrow> xin_stop + world" where
  "call_save u SaveTerm w = map_sum id (\<lambda>(_, x). w\<lparr>w_xin := x\<rparr>) (SaveParaTerm (w_term w) (w_xin w))"
| "call_save u SaveUni w = map_sum id (\<lambda>(_, x). w\<lparr>w_xin := x\<rparr>) (SaveParaUni u (w_xin w))"
| "call_save u SaveSceneUse w = Inr (snd (SaveParaSceneUse w))"
| "call_save u SaveTimerTask w = Inr (snd (SaveParaTimerTask w))"

fun call_saves :: "para_uni_tG \<Rightarrow> savefunc list \<Rightarrow> world \<Rightarrow> xin_stop + world" where
  "call_saves u [] w = Inr w"
| "call_saves u (f # fs) w = (case call_save u f w of Inl s \<Rightarrow> Inl s | Inr w \<Rightarrow> call_saves u fs w)"

definition SaveParam_files :: "para_uni_tG \<Rightarrow> world \<Rightarrow> xin_stop + world" where
  "SaveParam_files u w = map_sum id (\<lambda>w. w\<lparr>w_saveflag := 0\<rparr>) (call_saves u (fst (SaveParam w)) w)"

definition ParamInit ::
    "(string \<Rightarrow> string option) \<Rightarrow> (string \<Rightarrow> bytes option) \<Rightarrow> string \<Rightarrow> bytes \<Rightarrow> bool \<Rightarrow> para_term_tG \<Rightarrow> xinref_t \<Rightarrow>
     xin_stop + (int \<times> para_uni_tG \<times> para_term_tG \<times> xinref_t)" where
  "ParamInit uci gethostbyname str tmpbuf registered p x =
     (case LoadParaUni x of
        Inl s \<Rightarrow> Inl s
      | Inr (_, u, x) \<Rightarrow>
          (case LoadParaTerm uci gethostbyname str tmpbuf p x of
             Inl s \<Rightarrow> Inl s
           | Inr (_, p, x) \<Rightarrow> Inr (if registered then 0 else 1, u, p, x)))"

subsection \<open>Specification\<close>

definition only_changed :: "string set \<Rightarrow> fs \<Rightarrow> fs \<Rightarrow> bool" where
  "only_changed fs s t \<longleftrightarrow> (\<forall>f. f \<notin> fs \<longrightarrow> files t f = files s f)"

definition term_files :: "string set" where "term_files = {TERM_FILE, TERM_BAK}"

definition files_kept :: "world \<Rightarrow> world \<Rightarrow> bool" where
  "files_kept v w \<longleftrightarrow> only_changed term_files (w_fs v) (w_fs w)"

definition func_local :: "item_func \<Rightarrow> bool" where
  "func_local f \<longleftrightarrow> (case f of
     Func h \<Rightarrow> \<forall>b op w r op' w'. h b op w = Inr (r, op', w') \<longrightarrow> files_kept w w'
   | Mem _ upd \<Rightarrow> \<forall>bs w. w_xin (upd bs w) = w_xin w
   | _ \<Rightarrow> True)"

definition saved_by :: "savefunc \<Rightarrow> string set" where
  "saved_by f = (case f of SaveTerm \<Rightarrow> {TERM_FILE, TERM_BAK} | SaveUni \<Rightarrow> {UNIQUE_FILE}
     | SaveSceneUse \<Rightarrow> {SCENE_FILE, SCENE_BAK} | SaveTimerTask \<Rightarrow> {TASK_FILE, TASK_BAK})"

definition new_task :: itemop_t where "new_task = example_op 0x8841 0x11 [11, 1, 65]"

definition example_task_rows :: "bytes list" where
  "example_task_rows = ([0, 1, 65] @ replicate 371 0) # replicate 9 (replicate 374 0)"

definition savable :: "para_uni_tG \<Rightarrow> world \<Rightarrow> bool" where
  "savable u w \<longleftrightarrow> para_shape (w_term w) \<and> strs_ok (w_term w) \<and> uni_shape u \<and> uni_strs_ok u \<and> xin_ready (w_xin w) \<and>
     (\<forall>f \<in> {TERM_FILE, TERM_BAK, UNIQUE_FILE}. can_write (w_fs w) f)"

definition on_disk :: "para_uni_tG \<Rightarrow> world \<Rightarrow> savefunc \<Rightarrow> bool" where
  "on_disk u w f \<longleftrightarrow> (case f of
      SaveTerm \<Rightarrow> files (w_fs w) TERM_FILE = Some (term_file (w_term w)) \<and> files (w_fs w) TERM_BAK = Some (term_file (w_term w))
    | SaveUni \<Rightarrow> files (w_fs w) UNIQUE_FILE = Some (uni_file u)
    | _ \<Rightarrow> True)"

subsection \<open>Lemmas\<close>

text \<open>What reading and writing a text file leave alone.\<close>

lemma FindVariable_keeps: "FindVariable x n = Inr (r, y) \<Longrightarrow> \<exists>s. y = x\<lparr>xr_pscan := s\<rparr>"
  by (auto simp: FindVariable_def split: sum.splits)

lemma load_step_keeps: "load_step s (x, p) = Inr (y, q) \<Longrightarrow> \<exists>s. y = x\<lparr>xr_pscan := s\<rparr>"
proof (cases s)
  case (LDo f) then show "load_step s (x, p) = Inr (y, q) \<Longrightarrow> \<exists>s. y = x\<lparr>xr_pscan := s\<rparr>"
    using xinref_t.surjective[of x] by (auto intro: exI[of _ "xr_pscan x"])
qed (auto simp: XinReadInt_def XinReadString_def XinReadHex_def split: sum.splits option.splits if_splits
    dest: FindVariable_keeps intro: exI[of _ "xr_pscan x"])

lemma load_steps_keep: "load_steps ss (x, p) = Inr (y, q) \<Longrightarrow> \<exists>s. y = x\<lparr>xr_pscan := s\<rparr>"
proof (induction ss arbitrary: x p)
  case Nil then show ?case by (auto intro: exI[of _ "xr_pscan x"])
next
  case (Cons a ss)
  obtain x1 p1 where 1: "load_step a (x, p) = Inr (x1, p1)" "load_steps ss (x1, p1) = Inr (y, q)"
    using Cons.prems by (auto split: sum.splits)
  show ?case using load_step_keeps[OF 1(1)] Cons.IH[OF 1(2)] by auto
qed

lemma length_put_at: "put_at b i s = Some c \<Longrightarrow> length c = length b"
  by (auto simp: put_at_def split: if_splits)

lemma XinOpen_read_length: "XinOpen_read c b = Some (r, b', n) \<Longrightarrow> length b' = length b"
  by (auto simp: XinOpen_read_def Let_def dest!: length_put_at split: option.splits if_splits prod.splits)

lemma XinOpen_reading:
  assumes "XinOpen f CHR ''r'' x = Inr (r, y)" "xin_ready x"
  shows "xr_fs y = xr_fs x \<and> length (xr_buffer y) = length (xr_buffer x) \<and> (r \<longrightarrow> xr_openflag y = CHR ''r'') \<and> (\<not> r \<longrightarrow> xin_ready y)"
  using assms by (auto simp: XinOpen_def xin_ready_def Let_def dest: XinOpen_read_length split: option.splits if_splits prod.splits bool.splits)

lemma XinClose_reading: "xr_openflag x = CHR ''r'' \<Longrightarrow> XinClose x = x\<lparr>xr_locked := False\<rparr>"
  by (simp add: XinClose_def)

lemma save_step_keeps: "save_step s x = Inr y \<Longrightarrow> xr_fs y = xr_fs x \<and> xr_filename y = xr_filename x"
  by (cases s) (auto simp: XinWriteInt_def XinWriteString_def XinWriteHex_def xin_append_def Let_def map_sum_def
      split: sum.splits option.splits if_splits)

lemma save_steps_keep: "save_steps ss x = Inr y \<Longrightarrow> xr_fs y = xr_fs x \<and> xr_filename y = xr_filename x"
  by (induction ss arbitrary: x) (auto split: sum.splits dest: save_step_keeps)

lemma only_changed_refl [simp]: "only_changed fs s s"
  by (simp add: only_changed_def)

lemma only_changed_trans: "only_changed fs s t \<Longrightarrow> only_changed fs t u \<Longrightarrow> only_changed fs s u"
  by (simp add: only_changed_def)

lemma only_changed_mono: "only_changed fs s t \<Longrightarrow> fs \<subseteq> fs' \<Longrightarrow> only_changed fs' s t"
  by (auto simp: only_changed_def)

lemma XinClose_changes: "only_changed {xr_filename x} (xr_fs x) (xr_fs (XinClose x))"
  by (auto simp: XinClose_def only_changed_def Let_def fs_remove_def fs_write_def)

lemma save_text_changes:
  assumes "XinOpen f CHR ''w'' x = Inr (True, x1)" "save_steps ss x1 = Inr y"
  shows "only_changed {f} (xr_fs x) (xr_fs (XinClose y))"
proof -
  have "xr_fs x1 = xr_fs x" "xr_filename x1 = f" using assms(1) by (auto simp: XinOpen_def split: if_splits)
  then show ?thesis using save_steps_keep[OF assms(2)] XinClose_changes[of y] by simp
qed

lemma XinOpen_failed: "XinOpen f CHR ''w'' x = Inr (False, x1) \<Longrightarrow> x1 = x"
  by (auto simp: XinOpen_def split: if_splits)

lemma SaveParaTerm_to_changes: "SaveParaTerm_to f p x = Inr (r, y) \<Longrightarrow> only_changed {f} (xr_fs x) (xr_fs y)"
  by (auto simp: SaveParaTerm_to_def map_sum_def split: sum.splits prod.splits bool.splits dest: save_text_changes XinOpen_failed)

lemma SaveParaTerm_changes: "SaveParaTerm p x = Inr (r, y) \<Longrightarrow> only_changed {TERM_FILE, TERM_BAK} (xr_fs x) (xr_fs y)"
  by (auto simp: SaveParaTerm_def map_sum_def split: sum.splits prod.splits dest!: SaveParaTerm_to_changes
      elim!: only_changed_trans[OF only_changed_mono] intro: only_changed_mono)

lemma files_kept_xin: "w_xin w' = w_xin w \<Longrightarrow> files_kept w w'"
  by (simp add: files_kept_def w_fs_def)

lemma files_kept_trans: "files_kept u v \<Longrightarrow> files_kept v w \<Longrightarrow> files_kept u w"
  unfolding files_kept_def by (rule only_changed_trans)

lemma func_localI: "(\<And>b op w r op' w'. h b op w = Inr (r, op', w') \<Longrightarrow> files_kept w w') \<Longrightarrow> func_local (Func h)"
  by (auto simp: func_local_def)

lemma save_alarm_local: "save_alarm_flag v op w = Inr (r, op', w') \<Longrightarrow> files_kept w w'"
  by (auto simp: save_alarm_flag_def Let_def ok_def files_kept_def w_fs_def term_files_def split: sum.splits dest: SaveParaTerm_changes)

lemma read_clock_xin: "w_xin (snd (read_clock w)) = w_xin w"
  by (simp add: read_clock_def split: prod.split)

lemma set_clock_xin: "set_clock c a b op w = Inr (r, op', w') \<Longrightarrow> w_xin w' = w_xin w"
  using read_clock_xin[of "w\<lparr>w_clock := snd (SysClockSet c (w_clock w))\<rparr>"]
  by (auto simp: set_clock_def Let_def ok_def split: if_splits option.splits prod.splits)

lemma paraterm_time_xin: "paraterm_time b op w = Inr (r, op', w') \<Longrightarrow> w_xin w' = w_xin w"
  using read_clock_xin[of w] by (auto simp: paraterm_time_def Let_def ok_def split: prod.splits if_splits dest!: set_clock_xin)

lemma paraterm_realtime_xin: "paraterm_realtime b op w = Inr (r, op', w') \<Longrightarrow> w_xin w' = w_xin w"
  using read_clock_xin[of w] by (auto simp: paraterm_realtime_def Let_def ok_def split: prod.splits if_splits dest!: set_clock_xin)

lemma add_sampling_xin: "w_xin (add_sampling t m w) = w_xin w"
  by (simp add: add_sampling_def split: prod.split)

lemma local_addr: "func_local (Func paraterm_svraddr)" "func_local (Func paraterm_gateaddr)" "func_local (Func paraterm_apn)"
  "func_local (Func paraterm_usrname)" "func_local (Func paraterm_port_stopbit)"
  by (auto simp: paraterm_svraddr_def paraterm_gateaddr_def paraterm_apn_def paraterm_usrname_def paraterm_port_stopbit_def
      Let_def ok_def split: if_splits intro!: func_localI files_kept_xin)

lemma local_cfg: "func_local (Func paraterm_upreaddev)" "func_local (Func paraterm_updaydata)" "func_local (Func paraterm_monlastread)"
  "func_local (Func paraterm_monlastup)" "func_local (Func paraterm_peibian_addr)"
  by (auto simp: paraterm_upreaddev_def paraterm_updaydata_def paraterm_monlastread_def paraterm_monlastup_def paraterm_peibian_addr_def
      Let_def ok_def split: if_splits prod.splits intro!: func_localI files_kept_xin)

lemma local_scenes: "func_local (Func paraterm_scenelist)" "func_local (Func paraterm_timertasklist)" "func_local (Func paraterm_scene)"
  "func_local (Func paraterm_timertask)"
  by (auto simp: paraterm_scenelist_def paraterm_timertasklist_def paraterm_scene_def paraterm_timertask_def
      Let_def ok_def split: if_splits option.splits sum.splits intro!: func_localI files_kept_xin)

lemma local_cmds: "func_local (Func paraterm_reset)" "func_local (Func paraterm_sampling)" "func_local (Func paraterm_time)"
  "func_local (Func paraterm_realtime)"
proof -
  show "func_local (Func paraterm_reset)"
    by (rule func_localI) (auto simp: paraterm_reset_def ok_def split: if_splits intro: save_alarm_local files_kept_xin)
  show "func_local (Func paraterm_sampling)"
    by (rule func_localI) (auto simp: paraterm_sampling_def Let_def ok_def add_sampling_xin split: if_splits prod.splits intro!: files_kept_xin)
  show "func_local (Func paraterm_time)" "func_local (Func paraterm_realtime)"
    by (auto intro!: func_localI files_kept_xin dest: paraterm_time_xin paraterm_realtime_xin)
qed

lemma local_uni: "func_local (Func parauni_termip)" "func_local (Func parauni_userinfo)" "func_local (Func parauni_termmac)"
  by (auto simp: parauni_termip_def parauni_userinfo_def parauni_termmac_def ok_def split: if_splits intro!: func_localI files_kept_xin)

lemma local_mem: "func_local (mem_term s1 u1)" "func_local (mem_byte s2 u2)" "func_local (mem_port i s3 u3)" "func_local mem_alarm_flag"
  "func_local (mem_hard off)" "func_local NoFunc"
  by (simp_all add: func_local_def mem_term_def mem_byte_def mem_port_def mem_alarm_flag_def mem_hard_def)

lemmas local_funcs = local_addr local_cfg local_scenes local_cmds local_uni local_mem

lemma table_local: "(g, fl, items) \<in> set g_item_grp \<Longrightarrow> e \<in> set items \<Longrightarrow> func_local (ie_func e)"
  by (auto simp: g_item_grp_def g_item_uni1_def g_item_addr_def g_item_pwd_def g_item_time_def port_items_def g_item_ver_def g_item_cfg_def
      g_item_caspara_def g_item_sceneinfo_def g_item_timertaskinfo_def local_funcs)

lemma write_elem_local:
  assumes "func_local (ie_func e)" "write_elem e op w = Inr (r, op', w')"
  shows "files_kept w w'"
proof (cases "ie_func e")
  case (Func h)
  have s: "files_kept u v \<Longrightarrow> files_kept u (SetSaveParamFlag f v)" for u v f by (simp add: files_kept_def w_fs_def SetSaveParamFlag_def)
  show ?thesis using assms Func
    by (auto simp: write_elem_def mem_write_def Let_def func_local_def ok_def split: sum.splits prod.splits if_splits
        intro: s files_kept_xin)
next
  case (Mem sel upd)
  show ?thesis using assms Mem
    by (auto simp: write_elem_def mem_write_def Let_def func_local_def ok_def SetSaveParamFlag_def split: sum.splits prod.splits if_splits
        intro!: files_kept_xin)
next
  case NoFunc
  show ?thesis using assms NoFunc
    by (auto simp: write_elem_def mem_write_def Let_def ok_def SetSaveParamFlag_def split: sum.splits prod.splits if_splits
        intro!: files_kept_xin)
next
  case MemOut
  show ?thesis using assms MemOut
    by (auto simp: write_elem_def mem_write_def Let_def ok_def SetSaveParamFlag_def split: sum.splits prod.splits if_splits
        intro!: files_kept_xin)
qed

interpretation local_files: item_writes files_kept
  by unfold_locales (auto intro: files_kept_xin files_kept_trans dest: table_local write_elem_local)

lemma write_items_local:
  assumes "\<forall>op\<in>set ops. buf_ok op" "write_items ops w = Inr w'"
  shows "files_kept w w'"
  using assms
proof (induction ops arbitrary: w)
  case Nil then show ?case by (simp add: files_kept_xin)
next
  case (Cons op ops)
  obtain r op' w1 where 1: "write_item op w = Inr (r, op', w1)" and 2: "write_items ops w1 = Inr w'"
    using Cons.prems(2) by (auto split: sum.splits)
  have "files_kept w w1" using local_files.write_item_rel[OF _ 1] Cons.prems(1) by simp
  moreover have "files_kept w1 w'" using Cons.IH[OF _ 2] Cons.prems(1) by simp
  ultimately show ?case by (rule files_kept_trans)
qed

lemma SaveParaUni_changes: "SaveParaUni u x = Inr (r, y) \<Longrightarrow> only_changed {UNIQUE_FILE} (xr_fs x) (xr_fs y)"
  by (auto simp: SaveParaUni_def map_sum_def split: sum.splits prod.splits bool.splits dest: save_text_changes XinOpen_failed)

lemma call_save_changes: "call_save u f w = Inr w' \<Longrightarrow> only_changed (saved_by f) (w_fs w) (w_fs w')"
proof (cases f)
  case SaveTerm
  then show "call_save u f w = Inr w' \<Longrightarrow> only_changed (saved_by f) (w_fs w) (w_fs w')"
    by (auto simp: saved_by_def map_sum_def w_fs_def split: sum.splits dest: SaveParaTerm_changes)
next
  case SaveUni
  then show "call_save u f w = Inr w' \<Longrightarrow> only_changed (saved_by f) (w_fs w) (w_fs w')"
    by (auto simp: saved_by_def map_sum_def w_fs_def split: sum.splits dest: SaveParaUni_changes)
qed (auto simp: saved_by_def only_changed_def SaveParaSceneUse_def SaveParaTimerTask_def SaveBacked_other)

lemma call_saves_changes: "call_saves u fs w = Inr w' \<Longrightarrow> only_changed (\<Union>f \<in> set fs. saved_by f) (w_fs w) (w_fs w')"
proof (induction fs arbitrary: w)
  case (Cons f fs)
  then obtain w1 where 1: "call_save u f w = Inr w1" "call_saves u fs w1 = Inr w'" by (auto split: sum.splits)
  show ?case using Cons.IH[OF 1(2)] call_save_changes[OF 1(1)] by (auto simp: only_changed_def)
qed simp

lemma SaveParam_files_changes:
  assumes "SaveParam_files u w = Inr w'"
  shows "only_changed (\<Union>f \<in> set (fst (SaveParam w)). saved_by f) (w_fs w) (w_fs w')"
proof -
  obtain v where "call_saves u (fst (SaveParam w)) w = Inr v" "w' = v\<lparr>w_saveflag := 0\<rparr>"
    using assms by (auto simp: SaveParam_files_def map_sum_def split: sum.splits)
  then show ?thesis using call_saves_changes by (fastforce simp: w_fs_def)
qed

lemma param_files_differ:
  "TERM_FILE \<notin> {SCENE_FILE, SCENE_BAK, TASK_FILE, TASK_BAK, UNIQUE_FILE}" "TERM_BAK \<notin> {SCENE_FILE, SCENE_BAK, TASK_FILE, TASK_BAK, UNIQUE_FILE}"
  "UNIQUE_FILE \<notin> {SCENE_FILE, SCENE_BAK, TASK_FILE, TASK_BAK}"
  by (simp_all add: TERM_FILE_def TERM_BAK_def UNIQUE_FILE_def SCENE_FILE_def SCENE_BAK_def TASK_FILE_def TASK_BAK_def)

lemma ReadBacked_same: "files s m = files t m \<Longrightarrow> files s b = files t b \<Longrightarrow> ReadBacked m b n s = ReadBacked m b n t"
  using ReadBinFile_files[of s m t] ReadBinFile_files[of s b t] by (simp add: ReadBacked_def split: option.split)

lemma LoadParaDataUse_same:
  assumes "files (w_fs s) SCENE_FILE = files (w_fs t) SCENE_FILE" "files (w_fs s) SCENE_BAK = files (w_fs t) SCENE_BAK"
  shows "w_scenes (snd (LoadParaDataUse j b s)) = w_scenes (snd (LoadParaDataUse j b t))"
    "w_sceneflag (snd (LoadParaDataUse j b s)) = w_sceneflag (snd (LoadParaDataUse j b t))"
  using ReadBacked_same[OF assms]
  by (auto simp: LoadParaDataUse_def Let_def SetSaveParamFlag_def set_scene_bytes_def LoadDefParaDataUse_def scene_bytes_def w_fs_def split: option.split)

text \<open>Written items, saved.\<close>

lemma saved_scene_files:
  assumes "w_saveflag w = 0" "\<forall>op\<in>set ops. buf_ok op" "write_items ops w = Inr w1" "SaveParam_files u w1 = Inr w2"
  shows "f \<in> {SCENE_FILE, SCENE_BAK} \<Longrightarrow> files (w_fs w2) f = files (w_fs w) f"
    "\<not> bit (w_saveflag w1) 3 \<Longrightarrow> f \<in> {TASK_FILE, TASK_BAK} \<Longrightarrow> files (w_fs w2) f = files (w_fs w) f"
proof -
  have k: "files (w_fs w1) f = files (w_fs w) f" if "f \<in> {SCENE_FILE, SCENE_BAK, TASK_FILE, TASK_BAK}" for f
    using write_items_local[OF assms(2,3)] that param_files_differ(1,2) by (auto simp: files_kept_def only_changed_def term_files_def)
  have n: "SaveSceneUse \<notin> set (fst (SaveParam w1))" using written_saves(1)[OF assms(1-3)] .
  have s: "f \<notin> saved_by g \<Longrightarrow> files (w_fs w2) f = files (w_fs w1) f" if "set (fst (SaveParam w1)) \<subseteq> A" "\<forall>g\<in>A. f \<notin> saved_by g" for f g A
    using SaveParam_files_changes[OF assms(4)] that by (auto simp: only_changed_def)
  show "files (w_fs w2) f = files (w_fs w) f" if f: "f \<in> {SCENE_FILE, SCENE_BAK}"
  proof -
    have "f \<notin> saved_by g" if "g \<noteq> SaveSceneUse" for g
      using f that param_files_differ files_differ by (cases g) (auto simp: saved_by_def)
    then have "files (w_fs w2) f = files (w_fs w1) f"
      using SaveParam_files_changes[OF assms(4)] n unfolding only_changed_def by (metis UN_E)
    then show ?thesis using k f by auto
  qed
  show "files (w_fs w2) f = files (w_fs w) f" if b: "\<not> bit (w_saveflag w1) 3" and f: "f \<in> {TASK_FILE, TASK_BAK}"
  proof -
    have m: "SaveTimerTask \<notin> set (fst (SaveParam w1))" using b by (auto simp: SaveParam_calls)
    have "f \<notin> saved_by g" if "g \<noteq> SaveTimerTask" for g
      using f that param_files_differ files_differ by (cases g) (auto simp: saved_by_def)
    then have "files (w_fs w2) f = files (w_fs w1) f"
      using SaveParam_files_changes[OF assms(4)] m unfolding only_changed_def by (metis UN_E)
    then show ?thesis using k f by auto
  qed
qed

lemma find_grp_tasks: "find_grp 0x8840 g_item_grp = Some (ITEMGRP_FLAG_TERM, g_item_timertaskinfo)"
  by (simp add: g_item_grp_def)

lemma find_item_8841: "find_item 0x8841 g_item_timertaskinfo = Some (ele 0x8841 WR SAVFLAG_TIMERTASK 374 (Func paraterm_timertask))"
  by (simp add: g_item_timertaskinfo_def)

lemma example_rows: "replicate 10 t = t # replicate 9 t"
  using replicate_Suc[of 9 t] by simp

lemma new_task_stored:
  "set_elem TASK_SIZE 0 (io_buf new_task) (w_tasks example_world) = Inr (([11, 1, 65] @ replicate 371 0) # replicate 9 (replicate 374 0))"
proof -
  have "take 374 (io_buf new_task) = [11, 1, 65] @ replicate 371 0" by (simp add: new_task_def example_op_def)
  then show ?thesis by (simp add: set_elem_def TASK_SIZE_def example_world_def example_rows)
qed

lemma new_task_handled:
  "paraterm_timertask 1 (new_task\<lparr>io_actlen := n\<rparr>) example_world = Inr (0, new_task\<lparr>io_actlen := n\<rparr>, example_world\<lparr>w_tasks := example_task_rows\<rparr>)"
proof -
  have f: "find_id 0 (w_tasks example_world) 0 = Some 0" by (simp add: example_world_def scene_id_def example_rows numeral_eq_Suc)
  have b: "buf (new_task\<lparr>io_actlen := n\<rparr>) 0 = 11" "io_id new_task AND 0x0f = 1" by (simp_all add: buf_def new_task_def example_op_def)
  show ?thesis
    using new_task_stored b by (simp add: paraterm_timertask_def Let_def f ok_def MAX_TIMERTASK_def MAX_SCENECLASS_def set_id_def example_task_rows_def)
qed

lemma new_task_written:
  "write_items [new_task] example_world = Inr (example_world\<lparr>w_tasks := example_task_rows, w_saveflag := 16\<rparr>)"
proof -
  have i: "io_id new_task = 0x8841" "io_maxlen new_task = 400" "io_mid new_task = 0" "io_level new_task = 0x11"
    by (simp_all add: new_task_def example_op_def)
  have e: "example_world\<lparr>w_tasks := ts, w_saveflag := w_saveflag example_world OR v\<rparr> = example_world\<lparr>w_tasks := ts, w_saveflag := v\<rparr>" for ts v
    by (simp add: example_world_def)
  have "write_item new_task example_world =
      Inr (0, new_task\<lparr>io_actlen := 374\<rparr>, example_world\<lparr>w_tasks := example_task_rows, w_saveflag := 16\<rparr>)"
    by (simp add: write_item_two Let_def flag_defs grp_mid_ok_def ITEMGRP_FLAG_TERM_def ITEMGRP_FLAG_MET_def ITEMGRP_FLAG_SPEC_def i
        find_grp_tasks find_item_8841 write_elem_def new_task_handled[unfolded One_nat_def] ITORTN_OK_def SetSaveParamFlag_def e)
  then show ?thesis by simp
qed

lemma LoadParaUni_keeps:
  assumes "LoadParaUni x = Inr (r, u, y)" "xin_ready x"
  shows "xin_ready y \<and> xr_fs y = xr_fs x"
proof -
  obtain b v where o: "XinOpen UNIQUE_FILE CHR ''r'' x = Inr (b, v)" using assms(1) by (auto simp: LoadParaUni_def split: sum.splits)
  note k = XinOpen_reading[OF o assms(2)]
  show ?thesis
  proof (cases b)
    case False then show ?thesis using assms(1) o k by (auto simp: LoadParaUni_def)
  next
    case True
    then obtain v1 p1 v2 where l: "load_steps uni_loads (v, LoadDefParaUni) = Inr (v1, p1)"
        "load_steps (prd_loads (unat (pu_prdcount p1)) @ uni_last) (v1, p1) = Inr (v2, u)" "y = XinClose v2"
      using assms(1) o by (auto simp: LoadParaUni_def split: sum.splits)
    obtain s where "v2 = v\<lparr>xr_pscan := s\<rparr>" using load_steps_keep[OF l(1)] load_steps_keep[OF l(2)] by auto
    then show ?thesis using k True l(3) assms(2) by (simp add: XinClose_reading xin_ready_def)
  qed
qed

lemma call_save_ok:
  assumes "savable u w"
  shows "\<exists>w'. call_save u f w = Inr w' \<and> savable u w' \<and> w_term w' = w_term w \<and> on_disk u w' f"
proof (cases f)
  case SaveTerm
  obtain y where "SaveParaTerm (w_term w) (w_xin w) = Inr (0, y)" "xin_ready y"
      "xr_fs y = fs_write TERM_BAK (term_file (w_term w)) (fs_write TERM_FILE (term_file (w_term w)) (xr_fs (w_xin w)))"
    using SaveParaTerm_ok[of "w_term w" "w_xin w"] assms by (auto simp: savable_def w_fs_def)
  then show ?thesis using SaveTerm assms term_file_lengths(3) by (auto simp: savable_def on_disk_def w_fs_def fs_write_def)
next
  case SaveUni
  obtain y where "SaveParaUni u (w_xin w) = Inr (0, y)" "xin_ready y" "xr_fs y = fs_write UNIQUE_FILE (uni_file u) (xr_fs (w_xin w))"
    using SaveParaUni_ok[of u "w_xin w"] assms by (auto simp: savable_def w_fs_def)
  then show ?thesis using SaveUni assms by (auto simp: savable_def on_disk_def w_fs_def fs_write_def)
qed (use assms in \<open>auto simp: savable_def on_disk_def SaveParaSceneUse_def SaveParaTimerTask_def SaveBacked_can_write\<close>,
    (simp_all add: set_fs_def xin_ready_def)?)

lemma on_disk_kept:
  assumes "call_save u f w = Inr w'" "w_term w' = w_term w" "on_disk u w' f" "on_disk u w g"
  shows "on_disk u w' g"
proof (cases "g = f")
  case False
  then show ?thesis using assms(2,4) call_save_changes[OF assms(1)] param_files_differ
    by (cases f; cases g; auto simp: only_changed_def saved_by_def on_disk_def)
qed (use assms in simp)

lemma call_saves_ok:
  assumes "savable u w"
  shows "\<exists>w'. call_saves u fs w = Inr w' \<and> savable u w' \<and> w_term w' = w_term w \<and> (\<forall>f. f \<in> set fs \<or> on_disk u w f \<longrightarrow> on_disk u w' f)"
  using assms
proof (induction fs arbitrary: w)
  case (Cons f fs)
  obtain w1 where 1: "call_save u f w = Inr w1" "savable u w1" "w_term w1 = w_term w" "on_disk u w1 f"
    using call_save_ok[OF Cons.prems] by blast
  obtain w' where 2: "call_saves u fs w1 = Inr w'" "savable u w'" "w_term w' = w_term w1" "\<forall>f. f \<in> set fs \<or> on_disk u w1 f \<longrightarrow> on_disk u w' f"
    using Cons.IH[OF 1(2)] by blast
  show ?case using 1 2 on_disk_kept[OF 1(1,3,4)] by auto
qed auto

lemma SaveParam_files_ok:
  assumes "savable u w"
  shows "\<exists>w'. SaveParam_files u w = Inr w' \<and> w_saveflag w' = 0 \<and> w_term w' = w_term w \<and> (\<forall>f \<in> set (fst (SaveParam w)). on_disk u w' f)"
proof -
  obtain w' where w: "call_saves u (fst (SaveParam w)) w = Inr w'" "w_term w' = w_term w" "\<forall>f \<in> set (fst (SaveParam w)). on_disk u w' f"
    using call_saves_ok[OF assms] by blast
  have "on_disk u (w'\<lparr>w_saveflag := 0\<rparr>) f = on_disk u w' f" for f by (simp add: on_disk_def w_fs_def split: savefunc.split)
  then show ?thesis using w by (simp add: SaveParam_files_def)
qed

lemma bits3: "bit (3 :: u32) 0" "bit (3 :: u32) (Suc 0)" by code_simp+

lemma example_savable: "savable example_uni (example_world\<lparr>w_saveflag := n\<rparr>)"
proof -
  have "uni_shape example_uni" by (simp add: uni_shape_def example_uni_def LoadDefParaUni_def str0_def put_str_def)
  moreover have "uni_strs_ok example_uni"
    by (simp add: uni_strs_ok_def uni_strs_def str_ok_def example_uni_def LoadDefParaUni_def str0_def put_str_def cstr_def)
  moreover have "para_shape example_para" by (simp add: para_shape_def example_para_def)
  moreover have "strs_ok example_para" by (simp add: strs_ok_def str_ok_def example_para_def cstr_def)
  ultimately show ?thesis by (simp add: savable_def example_world_def w_fs_def xin_ready_def xin_idle_def)
qed

subsection \<open>Properties\<close>

text \<open>C10: when the parameters of the terminal and of the network are marked, the saving succeeds, clears the marks, and the
  next start of the parameters, on any file system that has kept their files (of the terminal at least the backup),
  restores both, over the defaults of the terminal and the values of the system; the two files do not disturb each other,
  nor does the saving of the tasks that can come with it.\<close>

theorem restart_restores:
  assumes "bit (w_saveflag w) 0" "bit (w_saveflag w) 1" "savable u w"
    and "para_shape q" "\<And>h ip. gethostbyname h = Some ip \<Longrightarrow> length ip = 4" "length tmpbuf = 16"
  shows "\<exists>w'. SaveParam_files u w = Inr w' \<and> w_saveflag w' = 0 \<and>
    (\<forall>z. xin_ready z \<and> (\<forall>f \<in> {TERM_BAK, UNIQUE_FILE}. files (xr_fs z) f = files (w_fs w') f) \<and>
         files (xr_fs z) TERM_FILE \<in> {None, files (w_fs w') TERM_FILE} \<longrightarrow>
      (\<exists>y. ParamInit uci gethostbyname str tmpbuf registered q z =
        Inr (if registered then 0 else 1, restored_uni u, restored (w_term w) (LoadUci uci gethostbyname str (LoadDefParaTerm q)), y)))"
proof -
  obtain w' where w: "SaveParam_files u w = Inr w'" "w_saveflag w' = 0" "w_term w' = w_term w" "\<forall>f \<in> set (fst (SaveParam w)). on_disk u w' f"
    using SaveParam_files_ok[OF assms(3)] by blast
  have d: "on_disk u w' SaveTerm" "on_disk u w' SaveUni" using w(4) assms(1,2) by (simp_all add: SaveParam_calls)
  have s: "strs_ok (w_term w)" "para_shape (w_term w)" "uni_strs_ok u" "uni_shape u" using assms(3) by (simp_all add: savable_def)
  have "\<exists>y. ParamInit uci gethostbyname str tmpbuf registered q z =
        Inr (if registered then 0 else 1, restored_uni u, restored (w_term w) (LoadUci uci gethostbyname str (LoadDefParaTerm q)), y)"
    if z: "xin_ready z" "\<forall>f \<in> {TERM_BAK, UNIQUE_FILE}. files (xr_fs z) f = files (w_fs w') f" "files (xr_fs z) TERM_FILE \<in> {None, files (w_fs w') TERM_FILE}" for z
  proof -
    obtain v where v: "LoadParaUni z = Inr (0, restored_uni u, v)"
      using LoadParaUni_restored[OF s(3,4) z(1)] z(2) d(2) by (auto simp: on_disk_def)
    have k: "xin_ready v" "xr_fs v = xr_fs z" using LoadParaUni_keeps[OF v z(1)] by simp_all
    have f: "files (xr_fs v) TERM_BAK = Some (term_file (w_term w))" "files (xr_fs v) TERM_FILE \<in> {None, Some (term_file (w_term w))}"
      using k(2) z(2,3) d(1) w(3) by (auto simp: on_disk_def)
    have "\<exists>y. LoadParaTerm uci gethostbyname str tmpbuf q v =
        Inr (True, restored (w_term w) (LoadUci uci gethostbyname str (LoadDefParaTerm q)), y)"
      by (rule LoadParaTerm_restored[OF s(1,2) assms(4) _ assms(6) k(1) f]) (erule assms(5))
    then show ?thesis using v by (auto simp: ParamInit_def)
  qed
  then show ?thesis using w(1,2) by blast
qed

theorem restart_restores_witness:
  "\<exists>w' u p y. SaveParam_files example_uni (example_world\<lparr>w_saveflag := 3\<rparr>) = Inr w' \<and>
    ParamInit (\<lambda>_. None) (\<lambda>_. None) [] (replicate 16 0) True example_para (xin_idle\<lparr>xr_fs := w_fs w'\<rparr>) = Inr (0, u, p, y) \<and>
    pt_alarm_flag p = 0xffffffff \<and> cstr (pt_apn p) = ''CMNET'' \<and> cstr (ui_emailpwd (pu_userinfo u)) = ''a-long-pass''"
proof -
  let ?w = "example_world\<lparr>w_saveflag := 3\<rparr>"
  have b: "bit (w_saveflag ?w) 0" "bit (w_saveflag ?w) 1" using bits3 by simp_all
  have s: "para_shape example_para" by (simp add: para_shape_def example_para_def)
  have x: "xin_ready (xin_idle\<lparr>xr_fs := t\<rparr>)" for t by (simp add: xin_ready_def xin_idle_def)
  let ?p = "restored example_para (LoadUci (\<lambda>_. None) (\<lambda>_. None) [] (LoadDefParaTerm example_para))"
  have p: "pt_alarm_flag ?p = 0xffffffff" "cstr (pt_apn ?p) = ''CMNET''"
    by (simp_all add: restored_def example_para_def restored_addr_def LoadUci_def getuciConfigvar_def Let_def LoadDefParaTerm_def clear_register_def
        sa_ip_def sa_chn_def sa_port_def set_ip_def set_chn_def set_port_def put_str_def cstr_def numeral_eq_Suc)
  have u: "cstr (ui_emailpwd (pu_userinfo (restored_uni example_uni))) = ''a-long-pass''"
    by (simp add: restored_uni_def example_uni_def LoadDefParaUni_def str0_def put_str_def cstr_def kept_str_def copy_str_def)
  have t: "w_term ?w = example_para" by (simp add: example_world_def)
  obtain w' where w: "SaveParam_files example_uni ?w = Inr w'" and
    z: "xin_ready z \<and> (\<forall>f \<in> {TERM_BAK, UNIQUE_FILE}. files (xr_fs z) f = files (w_fs w') f) \<and>
         files (xr_fs z) TERM_FILE \<in> {None, files (w_fs w') TERM_FILE} \<Longrightarrow>
      (\<exists>y. ParamInit (\<lambda>_. None) (\<lambda>_. None) [] (replicate 16 0) True example_para z = Inr (0, restored_uni example_uni, ?p, y))" for z
    using restart_restores[OF b example_savable s, where gethostbyname = "\<lambda>_. None" and tmpbuf = "replicate 16 0" and uci = "\<lambda>_. None" and str = "[]" and registered = True] t by auto
  show ?thesis using w z[of "xin_idle\<lparr>xr_fs := w_fs w'\<rparr>"] x p u by fastforce
qed

text \<open>Whatever items are written and whatever the following saving calls: a restart loads the scenes it would have loaded
  before, so a written scene is always lost; and the files of the tasks stay as they were unless a scene was written.\<close>

theorem scenes_never_saved:
  assumes "w_saveflag w = 0" "\<forall>op\<in>set ops. buf_ok op" "write_items ops w = Inr w1" "SaveParam_files u w1 = Inr w2"
    and "w_fs s = w_fs w" "w_fs t = w_fs w2"
  shows "w_scenes (snd (LoadParaDataUse j b t)) = w_scenes (snd (LoadParaDataUse j b s)) \<and>
    w_sceneflag (snd (LoadParaDataUse j b t)) = w_sceneflag (snd (LoadParaDataUse j b s)) \<and>
    (bit (w_saveflag w1) 3 \<or> (\<forall>f \<in> {TASK_FILE, TASK_BAK}. files (w_fs t) f = files (w_fs s) f))"
proof -
  note k = saved_scene_files[OF assms(1-4)]
  show ?thesis using LoadParaDataUse_same[of t s j b] k assms(5,6) by auto
qed

theorem scenes_never_saved_witness:
  "\<exists>w1 w2. write_items [new_task] example_world = Inr w1 \<and> SaveParam_files LoadDefParaUni w1 = Inr w2 \<and>
    w_tasks w2 ! 0 ! 1 = 1 \<and> files (w_fs w2) TASK_FILE = None \<and>
    w_scenes (snd (LoadParaDataUse 0 0 w2)) = w_scenes (snd (LoadParaDataUse 0 0 example_world))"
proof -
  let ?w1 = "example_world\<lparr>w_tasks := example_task_rows, w_saveflag := 16\<rparr>"
  let ?w2 = "?w1\<lparr>w_saveflag := 0\<rparr>"
  have z: "w_saveflag example_world = 0" "files (w_fs example_world) f = None" for f by (simp_all add: example_world_def w_fs_def xin_idle_def)
  have b: "\<forall>op\<in>set [new_task]. buf_ok op" by (simp add: buf_ok_def new_task_def example_op_def)
  have n: "\<not> bit (16 :: u32) 0" "\<not> bit (16 :: u32) 1" "\<not> bit (16 :: u32) 2" "\<not> bit (16 :: u32) 3" by code_simp+
  have c: "fst (SaveParam ?w1) = []" using n by (simp add: SaveParam_calls)
  have s: "SaveParam_files LoadDefParaUni ?w1 = Inr ?w2" by (simp add: SaveParam_files_def c)
  have f: "\<not> bit (w_saveflag ?w1) 3" using n by simp
  show ?thesis using scenes_never_saved[OF z(1) b new_task_written s refl refl, of 0 0] f z(2) new_task_written s
    by (intro exI[of _ ?w1] exI[of _ ?w2]) (simp add: example_task_rows_def)
qed

end
