(* ===== verification/Dbclear.thy ===== *)
theory Dbclear
  imports Clock Storage
begin

text \<open>
  Removing old database files (\<open>downlink/dbclear.c\<close>) and the use of a disk
  (\<open>sys/syscall/diskspace.c\<close>). The shell is not under \<open>src/\<close>: what \<open>ls\<close> writes to the temporary file
  (\<open>None\<close> when the file cannot be opened) and what \<open>rm\<close> does are arguments, and so are the current date, the
  answer of \<open>statfs\<close> and the uninitialised date of the files. The system lock around the loops is left out.
\<close>

definition DBASE_SAVEPATH :: string where "DBASE_SAVEPATH = ''/data/''"

text \<open>The name of the temporary file is put together without a separator.\<close>

definition TMP_FILE :: string where "TMP_FILE = ''/tmp'' @ ''dbclr.tmp''"

subsection \<open>The date of a file\<close>

definition base_name :: "string \<Rightarrow> string" where
  "base_name filename = rev (takeWhile (\<lambda>c. c \<noteq> CHR ''/'') (rev filename))"

definition date_byte :: "char \<Rightarrow> char \<Rightarrow> u8" where
  "date_byte a b = word_of_int ((of_char a - 48) * 10) + word_of_int (of_char b - 48)"

definition DbFileDate :: "string \<Rightarrow> sysclock_t \<Rightarrow> int \<times> sysclock_t" where
  "DbFileDate filename clk =
     (if filename = [] then (0, clk)
      else
        let pe = base_name filename;
            skip = (if take 1 pe = ''m'' then 2 else 3);
            clk = (if take 1 pe = ''m'' then clk\<lparr>c_day := 1\<rparr> else clk)
        in if CHR ''@'' \<notin> set pe then (0, clk)
           else
             let ps = drop 1 (dropWhile (\<lambda>c. c \<noteq> CHR ''@'') pe);
                 date = takeWhile (\<lambda>c. c \<noteq> CHR ''.'') ps
             in if CHR ''.'' \<notin> set ps then (0, clk)
                else if length date \<noteq> skip * 2 then (0, clk)
                else
                  let clk = clk\<lparr>c_year := date_byte (date ! 0) (date ! 1), c_month := date_byte (date ! 2) (date ! 3)\<rparr>
                  in if skip = 2 then (2, clk)
                     else (1, clk\<lparr>c_day := date_byte (date ! 4) (date ! 5)\<rparr>))"

definition idays :: "int list" where
  "idays = [31, 28, 31, 30, 31, 30, 31, 31, 30, 31, 30, 31]"

definition DaysInMonth :: "u8 \<Rightarrow> u8 \<Rightarrow> int" where
  "DaysInMonth year month =
     (let days = idays ! (unat month - 1) in if month = 2 \<and> year AND 0xfc = 0 then days + 1 else days)"

subsection \<open>Which files are removed\<close>

definition month_of :: "sysclock_t \<Rightarrow> int" where
  "month_of c = uint (c_year c) * 12 + uint (c_month c)"

text \<open>The two choices, for a file of a kind (2 for a month, 1 for a day) and a date.\<close>

definition old_normal :: "sysclock_t \<Rightarrow> int \<Rightarrow> sysclock_t \<Rightarrow> bool" where
  "old_normal curclock rtn fileclock =
     (let filemon = month_of fileclock; curmon = month_of curclock in
      if rtn = 2 then filemon > curmon \<or> curmon - filemon > 6
      else if filemon > curmon \<or> curmon - filemon > 2 then True
      else if curmon - filemon = 2 then uint (c_day curclock) - uint (c_day fileclock) \<ge> 1
      else filemon = curmon \<and> c_day fileclock > c_day curclock)"

definition old_emergy :: "sysclock_t \<Rightarrow> int \<Rightarrow> sysclock_t \<Rightarrow> bool" where
  "old_emergy curclock rtn fileclock =
     (let filemon = month_of fileclock; curmon = month_of curclock in
      if rtn = 2 then filemon > curmon \<or> curmon - filemon > 1
      else if filemon > curmon \<or> curmon - filemon > 1 then True
      else if curmon - filemon = 1 then
        (let i = DaysInMonth (c_year fileclock) (c_month fileclock) - uint (c_day fileclock) in
         if i < 0 then True else i + uint (c_day curclock) > 2)
      else
        (let i = uint (c_day curclock) - uint (c_day fileclock) in i < 0 \<or> i > 2))"

subsection \<open>The loops\<close>

text \<open>\<open>fgets\<close> reads a line with its end, but at most one character less than the size.\<close>

definition fgets :: "nat \<Rightarrow> string \<Rightarrow> (string \<times> string) option" where
  "fgets len text =
     (if text = [] then None
      else
        let k = min (len - 1) (length (takeWhile (\<lambda>c. c \<noteq> CHR 0x0a) text) + 1)
        in Some (take k text, drop k text))"

function clear_loop :: "(int \<Rightarrow> sysclock_t \<Rightarrow> bool) \<Rightarrow> string \<Rightarrow> sysclock_t \<Rightarrow> fs \<Rightarrow> sysclock_t \<times> fs" where
  "clear_loop old text fileclock s =
     (case fgets 95 text of
        None \<Rightarrow> (fileclock, s)
      | Some (filename, text) \<Rightarrow>
          if hd filename = CHR 0x00 then clear_loop old text fileclock s
          else
            let filename = takeWhile (\<lambda>c. c \<noteq> CHR 0x00 \<and> c \<noteq> CHR 0x0d \<and> c \<noteq> CHR 0x0a) filename;
                (rtn, fileclock) = DbFileDate filename fileclock;
                s = (if rtn = 0 then fs_remove filename s
                     else if c_month fileclock = 0 \<or> c_month fileclock > 12 then fs_remove filename s
                     else if old rtn fileclock then fs_remove filename s
                     else s)
            in clear_loop old text fileclock s)"
  by pat_completeness auto
termination
  by (relation "measure (\<lambda>(_, text, _). length text)") (auto simp: fgets_def Let_def split: if_splits)

declare clear_loop.simps [simp del]

definition DbaseClear_with :: "(int \<Rightarrow> sysclock_t \<Rightarrow> bool) \<Rightarrow> (fs \<Rightarrow> string option) \<Rightarrow> sysclock_t \<Rightarrow> fs \<Rightarrow> fs" where
  "DbaseClear_with old ls fileclock s =
     (let s = fs_remove TMP_FILE s in
      case ls s of
        None \<Rightarrow> s
      | Some text \<Rightarrow>
          let s = fs_write TMP_FILE (bytes_of text) s;
              fileclock = fileclock\<lparr>c_hour := 0, c_minute := 0, c_second := 0\<rparr>
          in fs_remove TMP_FILE (snd (clear_loop old text fileclock s)))"

definition DbaseClearNormal :: "(fs \<Rightarrow> string option) \<Rightarrow> sysclock_t \<Rightarrow> sysclock_t \<Rightarrow> fs \<Rightarrow> fs" where
  "DbaseClearNormal ls curclock = DbaseClear_with (old_normal curclock) ls"

definition DbaseClearEmergy :: "(fs \<Rightarrow> string option) \<Rightarrow> sysclock_t \<Rightarrow> sysclock_t \<Rightarrow> fs \<Rightarrow> fs" where
  "DbaseClearEmergy ls curclock = DbaseClear_with (old_emergy curclock) ls"

text \<open>The use of a disk in percent, from the numbers of blocks that \<open>statfs\<close> returns.\<close>

definition DiskUsage :: "(u32 \<times> u32) option \<Rightarrow> int" where
  "DiskUsage statfs =
     (case statfs of
        None \<Rightarrow> - 1
      | Some (f_blocks, f_bavail) \<Rightarrow>
          if f_blocks = 0 then - 1 else sint ((f_blocks - f_bavail) * 100 div f_blocks))"

definition DbaseClear :: "(u32 \<times> u32) option \<Rightarrow> (fs \<Rightarrow> string option) \<Rightarrow> sysclock_t \<Rightarrow> sysclock_t \<Rightarrow> fs \<Rightarrow> fs" where
  "DbaseClear statfs ls curclock fileclock s =
     (if DiskUsage statfs > 85 then DbaseClearEmergy ls curclock fileclock s
      else DbaseClearNormal ls curclock fileclock s)"

definition DbaseClearAll :: "(fs \<Rightarrow> fs) \<Rightarrow> fs \<Rightarrow> fs" where
  "DbaseClearAll rm s = rm s"

definition shell_dbclear ::
    "(fs \<Rightarrow> (u32 \<times> u32) option) \<Rightarrow> (fs \<Rightarrow> string option) \<Rightarrow> (fs \<Rightarrow> fs) \<Rightarrow> sysclock_t \<Rightarrow> sysclock_t \<Rightarrow> string list \<Rightarrow> fs \<Rightarrow> int \<times> fs" where
  "shell_dbclear statfs ls rm curclock fileclock argv s =
     (if length argv \<noteq> 2 then (1, s)
      else
        let flag = take 1 (argv ! 1) in
        if flag = ''n'' then (0, DbaseClear (statfs s) ls curclock fileclock s)
        else if flag = ''e'' then (0, DbaseClearEmergy ls curclock fileclock s)
        else if flag = ''a'' then (0, DbaseClearAll rm s)
        else if flag = ''l'' then (0, DbaseClearAll rm s)
        else (1, s))"

subsection \<open>Specification\<close>

definition month_start :: "int \<Rightarrow> int" where
  "month_start k = (let y = k div 12; r = k mod 12 in
     365 * y + (y + 3) div 4 + DaysBeforeMonth ! nat r + (if 2 \<le> r \<and> y mod 4 = 0 then 1 else 0))"

definition month_len :: "int \<Rightarrow> int" where
  "month_len k = (let r = k mod 12 in idays ! nat r + (if r = 1 \<and> k div 12 mod 4 = 0 then 1 else 0))"

text \<open>What is decided for a name alone.\<close>

definition zero_clock :: sysclock_t where
  "zero_clock = \<lparr>c_year = 0, c_month = 0, c_day = 0, c_hour = 0, c_minute = 0, c_second = 0, c_week = 0\<rparr>"

definition old_file :: "(int \<Rightarrow> sysclock_t \<Rightarrow> bool) \<Rightarrow> string \<Rightarrow> bool" where
  "old_file old filename =
     (let (rtn, c) = DbFileDate filename zero_clock in rtn = 0 \<or> c_month c = 0 \<or> c_month c > 12 \<or> old rtn c)"

definition dates_only :: "(int \<Rightarrow> sysclock_t \<Rightarrow> bool) \<Rightarrow> bool" where
  "dates_only old \<longleftrightarrow> (\<forall>r c d. c_year c = c_year d \<and> c_month c = c_month d \<and> c_day c = c_day d \<longrightarrow> old r c = old r d)"

text \<open>A line of the listing.\<close>

definition line_name :: "string \<Rightarrow> bool" where
  "line_name n \<longleftrightarrow> length n < 94 \<and> (\<forall>c \<in> set n. c \<noteq> CHR 0x00 \<and> c \<noteq> CHR 0x0d \<and> c \<noteq> CHR 0x0a)"

definition listing :: "string list \<Rightarrow> string" where
  "listing names = concat (map (\<lambda>n. n @ [CHR 0x0a]) names)"

text \<open>The names of the files of a day.\<close>

definition two_digits :: "u8 \<Rightarrow> string" where
  "two_digits b = [char_of (48 + unat b div 10), char_of (48 + unat b mod 10)]"

definition day_name :: "string \<Rightarrow> string \<Rightarrow> sysclock_t \<Rightarrow> string \<Rightarrow> string" where
  "day_name dir stem d ext = dir @ ''/'' @ stem @ ''@'' @ two_digits (c_year d) @ two_digits (c_month d) @ two_digits (c_day d) @ ''.'' @ ext"

definition name_parts :: "string \<Rightarrow> string \<Rightarrow> bool" where
  "name_parts stem ext \<longleftrightarrow> CHR ''/'' \<notin> set stem \<and> CHR ''@'' \<notin> set stem \<and> take 1 stem \<noteq> ''m'' \<and> CHR ''/'' \<notin> set ext"

definition example_date :: "u8 \<Rightarrow> u8 \<Rightarrow> u8 \<Rightarrow> sysclock_t" where
  "example_date y m d = zero_clock\<lparr>c_year := y, c_month := m, c_day := d\<rparr>"

definition example_names :: "string list" where
  "example_names = [''/data/d@170101.db'', ''/data/d@170530.db'', ''/data/x.db'']"

definition example_db :: fs where
  "example_db = \<lparr>files = (\<lambda>f. if f \<in> set example_names then Some [1] else None), can_write = (\<lambda>_. True)\<rparr>"

subsection \<open>Lemmas\<close>

lemma month_start_split:
  assumes "0 \<le> r" "r < 12"
  shows "month_start (12 * y + r) = 365 * y + (y + 3) div 4 + DaysBeforeMonth ! nat r + (if 2 \<le> r \<and> y mod 4 = 0 then 1 else 0)"
proof -
  have "(12 * y + r) div 12 = y" "(12 * y + r) mod 12 = r" using assms by presburger+
  then show ?thesis by (simp add: month_start_def Let_def)
qed

lemma next_leap: "(y + 4) div 4 = (y + 3) div 4 + (if y mod 4 = 0 then 1 else 0)" for y :: int
  by presburger

lemma month_cases_int:
  fixes k :: int
  obtains y r where "k = 12 * y + r" "0 \<le> r" "r < 12"
  using that[of "k div 12" "k mod 12"] by (simp add: mult.commute[of 12])

lemma twelve: "0 \<le> r \<Longrightarrow> r < 12 \<Longrightarrow> r \<in> {0, 1, 2, 3, 4, 5, 6, 7, 8, 9, 10, 11 :: int}"
  by (simp only: insert_iff empty_iff) presburger

lemma month_len_split:
  assumes "0 \<le> r" "r < 12"
  shows "month_len (12 * y + r) = idays ! nat r + (if r = 1 \<and> y mod 4 = 0 then 1 else 0)"
proof -
  have "(12 * y + r) div 12 = y" "(12 * y + r) mod 12 = r" using assms by presburger+
  then show ?thesis by (simp add: month_len_def Let_def)
qed

lemma month_start_next: "month_start (k + 1) = month_start k + month_len k"
proof -
  obtain y r where k: "k = 12 * y + r" "0 \<le> r" "r < 12" by (rule month_cases_int)
  show ?thesis
  proof (cases "r = 11")
    case True
    have e: "k + 1 = 12 * (y + 1) + 0" using k True by simp
    have "month_start (k + 1) = 365 * (y + 1) + (y + 4) div 4"
      unfolding e by (subst month_start_split) (simp_all add: DaysBeforeMonth_def)
    moreover have "month_start k = 365 * y + (y + 3) div 4 + 334 + (if y mod 4 = 0 then 1 else 0)"
      unfolding k(1) True by (subst month_start_split) (simp_all add: DaysBeforeMonth_def numeral_eq_Suc)
    moreover have "month_len k = 31" unfolding k(1) True by (subst month_len_split) (simp_all add: idays_def numeral_eq_Suc)
    ultimately show ?thesis using next_leap[of y] by simp
  next
    case False
    have n: "month_start (k + 1) = month_start (12 * y + (r + 1))" using k(1) by (simp add: add.assoc)
    have a: "month_start (12 * y + (r + 1)) = 365 * y + (y + 3) div 4 + DaysBeforeMonth ! nat (r + 1) + (if 2 \<le> r + 1 \<and> y mod 4 = 0 then 1 else 0)"
      using k False by (intro month_start_split) auto
    have d: "DaysBeforeMonth ! nat (r + 1) = DaysBeforeMonth ! nat r + idays ! nat r"
      using twelve[OF k(2,3)] False by (auto simp: DaysBeforeMonth_def idays_def nat_add_distrib)
    show ?thesis unfolding n a unfolding k(1) using d k(2,3) by (subst month_start_split, simp, simp, subst month_len_split) auto
  qed
qed

lemma month_len_bounds: "28 \<le> month_len k" "month_len k \<le> 31" "59 \<le> month_len k + month_len (k + 1)" "month_len k + month_len (k + 1) \<le> 62"
proof -
  obtain y r where k: "k = 12 * y + r" "0 \<le> r" "r < 12" by (rule month_cases_int)
  show 1: "28 \<le> month_len k" "month_len k \<le> 31"
    using twelve[OF k(2,3)] month_len_split[OF k(2,3), of y] by (auto simp: k(1)[symmetric] idays_def)
  show "month_len k + month_len (k + 1) \<le> 62"
  proof -
    have "month_len k \<le> 31" for k
    proof -
      obtain y r where k: "k = 12 * y + r" "0 \<le> r" "r < 12" by (rule month_cases_int)
      then show ?thesis using twelve[OF k(2,3)] month_len_split[OF k(2,3), of y] by (auto simp: idays_def)
    qed
    from this[of k] this[of "k + 1"] show ?thesis by simp
  qed
  show "59 \<le> month_len k + month_len (k + 1)"
  proof (cases "r = 11")
    case True
    have e: "k + 1 = 12 * (y + 1) + 0" using k True by simp
    have "month_len (k + 1) = 31" unfolding e by (subst month_len_split) (simp_all add: idays_def)
    then show ?thesis using 1 by simp
  next
    case False
    then have "month_len (k + 1) = idays ! nat (r + 1) + (if r + 1 = 1 \<and> y mod 4 = 0 then 1 else 0)"
      using month_len_split[of "r + 1" y] k by (simp add: add.assoc)
    then show ?thesis using twelve[OF k(2,3)] month_len_split[OF k(2,3), of y] False by (auto simp: k(1)[symmetric] idays_def nat_add_distrib)
  qed
qed

lemma month_number_mono: "k \<le> l \<Longrightarrow> month_start k \<le> month_start l"
proof -
  have "month_start k \<le> month_start (k + int n)" for n
  proof (induction n)
    case (Suc n)
    have "month_start (k + int (Suc n)) = month_start (k + int n) + month_len (k + int n)"
      using month_start_next[of "k + int n"] by (simp add: algebra_simps)
    then show ?case using Suc month_len_bounds(1)[of "k + int n"] by linarith
  qed simp
  from this[of "nat (l - k)"] show "k \<le> l \<Longrightarrow> month_start k \<le> month_start l" by simp
qed

lemma clock_month:
  assumes "valid_clock c"
  shows "clock_days c = month_start (month_of c - 1) + uint (c_day c) - 1" "1 \<le> uint (c_day c)"
    "uint (c_day c) \<le> month_len (month_of c - 1)"
proof -
  have m: "0 < c_month c" "c_month c \<le> 12" "0 < uint (c_day c)" "uint (c_day c) \<le> month_max (c_year c) (c_month c)"
    using assms by (auto simp: valid_clock_def word_less_def)
  have u: "0 \<le> uint (c_month c) - 1" "uint (c_month c) - 1 < 12" using m(1,2) by (auto simp: word_less_def word_le_def)
  have k: "month_of c - 1 = 12 * uint (c_year c) + (uint (c_month c) - 1)" by (simp add: month_of_def)
  show "1 \<le> uint (c_day c)" using m by simp
  show "clock_days c = month_start (month_of c - 1) + uint (c_day c) - 1"
    unfolding k month_start_split[OF u] clock_days_def year_start_def days_of_def leap_iff
    using m(1,2) by (cases rule: month_cases) (simp_all add: DaysBeforeMonth_def)
  have "month_max (c_year c) (c_month c) = month_len (month_of c - 1)"
    unfolding k month_len_split[OF u] month_max_def leap_iff
    using m(1,2) by (cases rule: month_cases) (simp_all add: idays_def)
  then show "uint (c_day c) \<le> month_len (month_of c - 1)" using m by simp
qed

lemma old_normal_day:
  assumes "valid_clock cur" "valid_clock file" "rtn \<noteq> 2"
  defines "age \<equiv> clock_days cur - clock_days file"
  shows "0 \<le> age \<Longrightarrow> age < 60 \<Longrightarrow> \<not> old_normal cur rtn file" "\<not> old_normal cur rtn file \<Longrightarrow> 0 \<le> age \<and> age \<le> 62"
proof -
  let ?a = "month_of cur - 1" and ?b = "month_of file - 1" and ?c = "uint (c_day cur)" and ?f = "uint (c_day file)"
  note c = clock_month[OF assms(1)] and f = clock_month[OF assms(2)]
  have age: "age = month_start ?a - month_start ?b + ?c - ?f" using c(1) f(1) by (simp add: age_def)
  have d: "c_day file > c_day cur \<longleftrightarrow> ?f > ?c" by (simp add: word_less_def)
  have n1: "month_start (?b + 1) = month_start ?b + month_len ?b" by (rule month_start_next)
  have n2: "month_start (?b + 1 + 1) = month_start ?b + month_len ?b + month_len (?b + 1)"
    using month_start_next[of "?b + 1"] n1 by simp
  have n3: "month_start (?b + 1 + 1 + 1) = month_start ?b + month_len ?b + month_len (?b + 1) + month_len (?b + 1 + 1)"
    using month_start_next[of "?b + 1 + 1"] n2 by simp
  note L = month_len_bounds[of ?b] month_len_bounds[of "?b + 1"] month_len_bounds[of ?a]
  show "\<not> old_normal cur rtn file" if a: "0 \<le> age" "age < 60"
  proof
    assume o: "old_normal cur rtn file"
    consider "?b > ?a" | "?a - ?b > 2" | "?a = ?b + 1 + 1" "?c - ?f \<ge> 1" | "?a = ?b" "?f > ?c"
      using o assms(3) d by (auto simp: old_normal_def Let_def split: if_splits)
    then show False
    proof cases
      case 1
      then have "month_start (?a + 1) \<le> month_start ?b" by (intro month_number_mono) simp
      then show False using age a(1) month_start_next[of ?a] c(3) f(2) by linarith
    next
      case 2
      then have "month_start (?b + 1 + 1 + 1) \<le> month_start ?a" by (intro month_number_mono) simp
      then show False using age a(2) n3 L f(3) c(2) by linarith
    next
      case 3
      have "month_start ?a = month_start (?b + 1 + 1)" by (simp only: 3(1))
      then show False using age a(2) n2 L 3(2) by linarith
    next
      case 4 then show False using age a(1) by simp
    qed
  qed
  show "0 \<le> age \<and> age \<le> 62" if o: "\<not> old_normal cur rtn file"
  proof -
    consider "?a = ?b" "?f \<le> ?c" | "?a = ?b + 1" | "?a = ?b + 1 + 1" "?c \<le> ?f"
      using o assms(3) d by (fastforce simp: old_normal_def Let_def split: if_splits)
    then show ?thesis
    proof cases
      case 1 then show ?thesis using age c(3) f(2) L by simp
    next
      case 2
      have "month_start ?a = month_start (?b + 1)" by (simp only: 2)
      moreover have "month_len ?a = month_len (?b + 1)" by (simp only: 2)
      ultimately show ?thesis using age n1 f(2,3) c(2,3) L by linarith
    next
      case 3
      have "month_start ?a = month_start (?b + 1 + 1)" by (simp only: 3(1))
      then show ?thesis using age n2 f(2,3) c(2,3) L 3(2) by linarith
    qed
  qed
qed

lemma DaysInMonth_len:
  assumes "valid_clock f" "\<not> (c_month f = 2 \<and> (c_year f AND 0xfc = 0) \<noteq> (c_year f AND 0x03 = 0))"
  shows "DaysInMonth (c_year f) (c_month f) = month_len (month_of f - 1)"
proof -
  have m: "0 < c_month f" "c_month f \<le> 12" using assms by (auto simp: valid_clock_def)
  have u: "0 \<le> uint (c_month f) - 1" "uint (c_month f) - 1 < 12" using m(1,2) by (auto simp: word_less_def word_le_def)
  have k: "month_of f - 1 = 12 * uint (c_year f) + (uint (c_month f) - 1)" by (simp add: month_of_def)
  show ?thesis
    unfolding k month_len_split[OF u] DaysInMonth_def Let_def
    using m assms(2) by (cases rule: month_cases) (simp_all add: idays_def leap_iff)
qed

lemma old_emergy_day:
  assumes "valid_clock cur" "valid_clock file" "rtn \<noteq> 2"
    and "\<not> (c_month file = 2 \<and> (c_year file AND 0xfc = 0) \<noteq> (c_year file AND 0x03 = 0))"
  shows "old_emergy cur rtn file \<longleftrightarrow> clock_days cur - clock_days file \<notin> {0..2}"
proof -
  let ?a = "month_of cur - 1" and ?b = "month_of file - 1" and ?c = "uint (c_day cur)" and ?f = "uint (c_day file)"
  note c = clock_month[OF assms(1)] and f = clock_month[OF assms(2)]
  have age: "clock_days cur - clock_days file = month_start ?a - month_start ?b + ?c - ?f" using c(1) f(1) by simp
  have n1: "month_start (?b + 1) = month_start ?b + month_len ?b" by (rule month_start_next)
  have n2: "month_start (?b + 1 + 1) = month_start ?b + month_len ?b + month_len (?b + 1)"
    using month_start_next[of "?b + 1"] n1 by simp
  note L = month_len_bounds[of ?b] month_len_bounds[of "?b + 1"] month_len_bounds[of ?a]
  consider "?b > ?a" | "?a - ?b > 1" | "?a = ?b + 1" | "?a = ?b" by linarith
  then show ?thesis
  proof cases
    case 1
    then have "month_start (?a + 1) \<le> month_start ?b" by (intro month_number_mono) simp
    then have "clock_days cur - clock_days file < 0" using age month_start_next[of ?a] c(3) f(2) by linarith
    then show ?thesis using 1 assms(3) by (simp add: old_emergy_def Let_def)
  next
    case 2
    then have "month_start (?b + 1 + 1) \<le> month_start ?a" by (intro month_number_mono) simp
    then have "clock_days cur - clock_days file > 2" using age n2 L f(3) c(2) by linarith
    then show ?thesis using 2 assms(3) by (simp add: old_emergy_def Let_def)
  next
    case 3
    have "month_start ?a = month_start (?b + 1)" by (simp only: 3)
    then have g: "clock_days cur - clock_days file = month_len ?b - ?f + ?c" using age n1 by linarith
    show ?thesis using 3 assms(3) g f(3) c(2) DaysInMonth_len[OF assms(2,4)]
      by (auto simp: old_emergy_def Let_def)
  next
    case 4
    then have "clock_days cur - clock_days file = ?c - ?f" using age by simp
    then show ?thesis using 4 assms(3) by (auto simp: old_emergy_def Let_def)
  qed
qed

lemma old_emergy_leap_day:
  assumes "c_month file = 2" "c_day file = 29" "c_year file AND 0xfc \<noteq> 0" "rtn \<noteq> 2" "month_of cur = month_of file + 1"
  shows "old_emergy cur rtn file"
  using assms by (simp add: old_emergy_def Let_def DaysInMonth_def idays_def)

lemma dates_only_old: "dates_only (old_normal cur)" "dates_only (old_emergy cur)"
  by (auto simp: dates_only_def old_normal_def old_emergy_def month_of_def Let_def)

lemma DbFileDate_any:
  "fst (DbFileDate n c) = fst (DbFileDate n d) \<and>
   (fst (DbFileDate n d) \<noteq> 0 \<longrightarrow>
     c_year (snd (DbFileDate n c)) = c_year (snd (DbFileDate n d)) \<and> c_month (snd (DbFileDate n c)) = c_month (snd (DbFileDate n d)) \<and>
     c_day (snd (DbFileDate n c)) = c_day (snd (DbFileDate n d)))"
  by (simp add: DbFileDate_def Let_def)

lemma old_file_any:
  assumes "dates_only old"
  shows "old_file old n \<longleftrightarrow> (let (rtn, c) = DbFileDate n d in rtn = 0 \<or> c_month c = 0 \<or> c_month c > 12 \<or> old rtn c)"
proof (cases "fst (DbFileDate n d) = 0")
  case True
  then show ?thesis using DbFileDate_any[of n zero_clock d] by (simp add: old_file_def Let_def case_prod_beta)
next
  case False
  then show ?thesis using DbFileDate_any[of n zero_clock d] assms unfolding old_file_def Let_def case_prod_beta dates_only_def by metis
qed

lemma fgets_line:
  assumes "line_name n"
  shows "fgets 95 ((n @ [CHR 0x0a]) @ rest) = Some (n @ [CHR 0x0a], rest)"
proof -
  have "takeWhile (\<lambda>c. c \<noteq> CHR 0x0a) (n @ CHR 0x0a # rest) = n"
    using assms by (subst takeWhile_append2) (auto simp: line_name_def)
  then show ?thesis using assms by (simp add: fgets_def Let_def line_name_def)
qed

lemma line_cut:
  "line_name n \<Longrightarrow> takeWhile (\<lambda>c. c \<noteq> CHR 0x00 \<and> c \<noteq> CHR 0x0d \<and> c \<noteq> CHR 0x0a) (n @ [CHR 0x0a]) = n"
  by (subst takeWhile_append2) (auto simp: line_name_def)

lemma line_hd: "line_name n \<Longrightarrow> hd (n @ [CHR 0x0a]) \<noteq> CHR 0x00"
  by (cases n) (auto simp: line_name_def)

lemma files_remove: "files (fs_remove f s) g = (if g = f then None else files s g)"
  by (simp add: fs_remove_def)

lemma clear_loop_files:
  assumes "dates_only old" "\<forall>n \<in> set names. line_name n"
  shows "files (snd (clear_loop old (listing names) c s)) f = (if f \<in> set names \<and> old_file old f then None else files s f)"
  using assms(2)
proof (induction names arbitrary: c s)
  case Nil then show ?case by (subst clear_loop.simps) (simp add: listing_def fgets_def)
next
  case (Cons n names)
  have n: "line_name n" using Cons.prems by simp
  have f: "fgets 95 (listing (n # names)) = Some (n @ [CHR 0x0a], listing names)"
    using fgets_line[OF n, of "listing names"] by (simp add: listing_def)
  obtain r d where d: "DbFileDate n c = (r, d)" by fastforce
  have o: "old_file old n \<longleftrightarrow> r = 0 \<or> c_month d = 0 \<or> c_month d > 12 \<or> old r d"
    using old_file_any[OF assms(1), of n c] d by simp
  have "clear_loop old (listing (n # names)) c s = clear_loop old (listing names) d (if old_file old n then fs_remove n s else s)"
    by (subst clear_loop.simps) (simp add: f line_hd[OF n] line_cut[OF n] d o)
  then show ?case using Cons by (simp add: files_remove)
qed

lemma DbaseClear_with_files:
  assumes "dates_only old" "\<forall>n \<in> set names. line_name n" "ls (fs_remove TMP_FILE s) = Some (listing names)"
  shows "files (DbaseClear_with old ls c s) f = (if f = TMP_FILE \<or> f \<in> set names \<and> old_file old f then None else files s f)"
  using assms(3) by (auto simp: DbaseClear_with_def Let_def files_remove clear_loop_files[OF assms(1,2)] fs_write_def)

lemma of_char_small: "k < 256 \<Longrightarrow> (of_char (char_of (k :: nat) :: char) :: int) = int k"
  by (subst of_nat_of_char[symmetric]) simp

lemma date_byte_nat:
  assumes "n < 100"
  shows "date_byte (char_of (48 + n div 10)) (char_of (48 + n mod 10)) = of_nat n"
proof -
  have t: "n div 10 < 10" "n mod 10 < 10" using assms by auto
  have "of_char (char_of (48 + n div 10) :: char) = (48 + int (n div 10))" "of_char (char_of (48 + n mod 10) :: char) = (48 + int (n mod 10))"
    using t by (simp_all only: of_char_small)
  then have "date_byte (char_of (48 + n div 10)) (char_of (48 + n mod 10)) = (word_of_int (int (n div 10) * 10 + int (n mod 10)) :: u8)"
    by (simp add: date_byte_def)
  also have "int (n div 10) * 10 + int (n mod 10) = int n" by presburger
  finally show ?thesis by simp
qed

lemma u8_below: "uint (b :: u8) < 100 \<Longrightarrow> unat b < 100"
proof -
  have "uint b = int (unat b)" by simp
  then show "uint b < 100 \<Longrightarrow> unat b < 100" by linarith
qed

lemma date_byte_digits: "uint b < 100 \<Longrightarrow> date_byte (char_of (48 + unat b div 10)) (char_of (48 + unat b mod 10)) = b"
  using date_byte_nat[OF u8_below] by simp

lemma digit_plain: "k < 10 \<Longrightarrow> char_of (48 + k :: nat) \<notin> {CHR ''.'', CHR ''/'', CHR ''@''}"
proof -
  assume k: "k < 10"
  define c :: char where "c = char_of (48 + k)"
  have n: "of_char c = 48 + k" using k by (simp add: c_def)
  have "c \<notin> {CHR ''.'', CHR ''/'', CHR ''@''}"
  proof
    assume "c \<in> {CHR ''.'', CHR ''/'', CHR ''@''}"
    then have "(of_char c :: nat) \<in> {46, 47, 64}" by auto
    then show False using n k by auto
  qed
  then show ?thesis by (simp add: c_def)
qed

lemma two_digits_chars: "uint b < 100 \<Longrightarrow> c \<in> set (two_digits b) \<Longrightarrow> c \<notin> {CHR ''.'', CHR ''/'', CHR ''@''}"
proof -
  assume "uint b < 100"
  then have "unat b < 100" by (rule u8_below)
  then have "unat b div 10 < 10" "unat b mod 10 < 10" by auto
  then show "c \<in> set (two_digits b) \<Longrightarrow> c \<notin> {CHR ''.'', CHR ''/'', CHR ''@''}" using digit_plain by (auto simp: two_digits_def)
qed

lemma base_name_slash: "CHR ''/'' \<notin> set b \<Longrightarrow> base_name (dir @ CHR ''/'' # b) = b"
proof -
  assume "CHR ''/'' \<notin> set b"
  then have "takeWhile (\<lambda>c. c \<noteq> CHR ''/'') (rev b @ CHR ''/'' # rev dir) = rev b" by (subst takeWhile_append2) auto
  then show ?thesis by (simp add: base_name_def)
qed

lemma day_name_date:
  assumes "name_parts stem ext" "uint (c_year d) < 100" "uint (c_month d) < 100" "uint (c_day d) < 100"
  shows "\<exists>c. DbFileDate (day_name dir stem d ext) clk = (1, c) \<and> c_year c = c_year d \<and> c_month c = c_month d \<and> c_day c = c_day d"
proof -
  let ?y = "two_digits (c_year d)" and ?m = "two_digits (c_month d)" and ?d = "two_digits (c_day d)"
  let ?date = "?y @ ?m @ ?d"
  let ?base = "stem @ CHR ''@'' # ?date @ CHR ''.'' # ext"
  have g: "c \<notin> {CHR ''.'', CHR ''/'', CHR ''@''}" if "c \<in> set ?date" for c
    using that two_digits_chars[OF assms(2)] two_digits_chars[OF assms(3)] two_digits_chars[OF assms(4)] by auto
  have n: "day_name dir stem d ext = dir @ CHR ''/'' # ?base" by (simp add: day_name_def)
  have "CHR ''/'' \<notin> set ?base" using g assms(1) by (auto simp: name_parts_def)
  then have b: "base_name (day_name dir stem d ext) = ?base" unfolding n by (rule base_name_slash)
  have m: "take 1 ?base \<noteq> ''m''" using assms(1) by (cases stem) (auto simp: name_parts_def)
  have a: "drop 1 (dropWhile (\<lambda>c. c \<noteq> CHR ''@'') ?base) = ?date @ CHR ''.'' # ext"
    using assms(1) by (subst dropWhile_append2) (auto simp: name_parts_def)
  have t: "takeWhile (\<lambda>c. c \<noteq> CHR ''.'') (?date @ CHR ''.'' # ext) = ?date"
    using g by (subst takeWhile_append2) auto
  have l: "length ?date = 6" by (simp add: two_digits_def)
  have "DbFileDate (day_name dir stem d ext) clk = (1, clk\<lparr>c_year := c_year d, c_month := c_month d, c_day := c_day d\<rparr>)"
    unfolding DbFileDate_def Let_def b a t using m l
    by (simp add: n two_digits_def date_byte_digits assms)
  then show ?thesis by simp
qed

lemma valid_fields: "valid_clock c \<Longrightarrow> uint (c_month c) < 100 \<and> uint (c_day c) < 100 \<and> 0 < c_month c \<and> c_month c \<le> 12"
proof -
  assume v: "valid_clock c"
  then have "uint (c_month c) \<le> 12" by (simp add: valid_clock_def word_le_def)
  moreover have "uint (c_day c) < 100" using clock_month(3)[OF v] month_len_bounds(2)[of "month_of c - 1"] by linarith
  ultimately show ?thesis using v by (simp add: valid_clock_def)
qed

lemma old_day_file:
  assumes "valid_clock d" "uint (c_year d) < 100" "name_parts stem ext" "dates_only old"
  shows "old_file old (day_name dir stem d ext) = old 1 d"
proof -
  have v: "uint (c_month d) < 100" "uint (c_day d) < 100" "0 < c_month d" "c_month d \<le> 12" using valid_fields[OF assms(1)] by simp_all
  obtain c where c: "DbFileDate (day_name dir stem d ext) zero_clock = (1, c)" "c_year c = c_year d" "c_month c = c_month d" "c_day c = c_day d"
    using day_name_date[OF assms(3,2) v(1,2)] by blast
  have "old 1 c = old 1 d" using assms(4) c(2-4) unfolding dates_only_def by blast
  moreover have "c_month d \<noteq> 0" using v(3) by (simp only: word_gt_0 not_False_eq_True)
  moreover have "\<not> c_month d > 12" using v(4) by (simp only: not_less)
  ultimately show ?thesis unfolding old_file_def c(1) Let_def prod.case c(3) by (simp only: one_neq_zero simp_thms)
qed

lemma year_bits: "(y :: u8) AND 0xfc = 0 \<Longrightarrow> y AND 0x03 = 0 \<Longrightarrow> y = 0"
proof -
  have "(0xfc OR 0x03 :: u8) = - 1" by code_simp
  then have "y = (y AND 0xfc) OR (y AND 0x03)" by (metis and.right_neutral bit.conj_disj_distrib)
  then show "y AND 0xfc = 0 \<Longrightarrow> y AND 0x03 = 0 \<Longrightarrow> y = 0" by (metis or.right_neutral)
qed

lemma example_old:
  "old_file (old_normal (example_date 17 6 1)) ''/data/d@170101.db''" "\<not> old_file (old_normal (example_date 17 6 1)) ''/data/d@170530.db''"
  "old_file (old_normal (example_date 17 6 1)) ''/data/x.db''"
  by (simp_all add: old_file_def DbFileDate_def base_name_def Let_def date_byte_def old_normal_def month_of_def example_date_def zero_clock_def)

lemma example_valid: "valid_clock (example_date 17 6 1)" "valid_clock (example_date 17 4 3)" "valid_clock (example_date 16 3 1)" "valid_clock (example_date 16 2 29)"
  by (simp_all add: valid_clock_def example_date_def zero_clock_def month_max_def)

subsection \<open>Properties\<close>

text \<open>C20: when the listing holds names of less than 94 characters, the clearing removes exactly the temporary file and the
  listed files that are old by their own name - no date of one file is taken for the next - with the strict choice when the
  disk is used for more than 85 percent.\<close>

theorem DbaseClear_exact:
  assumes "ls (fs_remove TMP_FILE s) = Some (listing names)" "\<forall>n \<in> set names. line_name n"
  shows "files (DbaseClear statfs ls cur c s) f =
    (if f = TMP_FILE \<or> f \<in> set names \<and> old_file (if DiskUsage statfs > 85 then old_emergy cur else old_normal cur) f then None
     else files s f)"
  using DbaseClear_with_files[where ls = ls, OF _ assms(2,1)] dates_only_old
  by (simp add: DbaseClear_def DbaseClearEmergy_def DbaseClearNormal_def)

theorem DbaseClear_exact_witness:
  "map (\<lambda>f. files (DbaseClear (Some (100, 50)) (\<lambda>_. Some (listing example_names)) (example_date 17 6 1) zero_clock example_db) f) example_names =
    [None, Some [1], None]"
proof -
  have n: "\<forall>n \<in> set example_names. line_name n" by (simp add: example_names_def line_name_def)
  have u: "DiskUsage (Some (100, 50)) = 50" by (simp add: DiskUsage_def)
  show ?thesis
    using DbaseClear_exact[where ls = "\<lambda>_. Some (listing example_names)" and names = example_names and s = example_db, OF refl n,
        of "Some (100, 50)" "example_date 17 6 1" zero_clock] example_old
    by (simp add: u example_names_def example_db_def TMP_FILE_def)
qed

text \<open>C38: the normal clearing keeps every file of the last 60 days, today included, and no file that is older than 62 days or of the
  future. In an emergency exactly the files of at most two days are kept, apart from those of February in a leap year: the length
  of the month is looked up with a wrong test for leap years, and the file of 29 February is removed as soon as March begins.\<close>

theorem day_files_kept:
  assumes "valid_clock cur" "valid_clock d" "uint (c_year d) < 100" "name_parts stem ext"
    and "n = day_name dir stem d ext" "age = clock_days cur - clock_days d"
  shows "(age \<in> {0..<60} \<longrightarrow> \<not> old_file (old_normal cur) n) \<and> (\<not> old_file (old_normal cur) n \<longrightarrow> age \<in> {0..62}) \<and>
    (c_month d \<noteq> 2 \<or> (c_year d AND 0xfc = 0) = (c_year d AND 0x03 = 0) \<longrightarrow> (old_file (old_emergy cur) n \<longleftrightarrow> age \<notin> {0..2})) \<and>
    (c_month d = 2 \<and> c_day d = 29 \<and> c_year d \<noteq> 0 \<and> month_of cur = month_of d + 1 \<longrightarrow> old_file (old_emergy cur) n)"
proof -
  note o = old_day_file[OF assms(2-4) dates_only_old(1), of cur dir] old_day_file[OF assms(2-4) dates_only_old(2), of cur dir]
  have l: "c_year d AND 0xfc \<noteq> 0" if "c_month d = 2" "c_day d = 29" "c_year d \<noteq> 0"
  proof
    assume "c_year d AND 0xfc = 0"
    moreover have "c_year d AND 0x03 = 0"
      using assms(1,2) that by (auto simp: valid_clock_def month_max_def split: if_splits)
    ultimately show False using year_bits that(3) by blast
  qed
  show ?thesis unfolding assms(5,6) o
    using old_normal_day[OF assms(1,2), of 1] old_emergy_day[OF assms(1,2), of 1] old_emergy_leap_day[of d 1 cur] l by auto
qed

theorem day_files_kept_witness:
  "\<not> old_file (old_normal (example_date 17 6 1)) (day_name ''/data'' ''d'' (example_date 17 4 3) ''db'') \<and>
   clock_days (example_date 17 6 1) - clock_days (example_date 17 4 3) = 59 \<and>
   old_file (old_emergy (example_date 16 3 1)) (day_name ''/data'' ''d'' (example_date 16 2 29) ''db'')"
proof -
  have p: "name_parts ''d'' ''db''" by (simp add: name_parts_def)
  have y: "uint (c_year (example_date 17 4 3)) < 100" "uint (c_year (example_date 16 2 29)) < 100" by (simp_all add: example_date_def)
  have a: "clock_days (example_date 17 6 1) - clock_days (example_date 17 4 3) = 59"
    by (simp add: clock_days_def year_start_def days_of_def DaysBeforeMonth_def example_date_def zero_clock_def)
  have l: "c_month (example_date 16 2 29) = 2 \<and> c_day (example_date 16 2 29) = 29 \<and> c_year (example_date 16 2 29) \<noteq> 0 \<and>
      month_of (example_date 16 3 1) = month_of (example_date 16 2 29) + 1"
    by (simp add: example_date_def month_of_def)
  show ?thesis
    using day_files_kept[OF example_valid(1,2) y(1) p refl refl, of "''/data''"] a
      day_files_kept[OF example_valid(3,4) y(2) p refl refl, of "''/data''"] l by simp
qed

end
