(* ===== verification/Downlink.thy ===== *)
theory Downlink
  imports Xin Timer
begin

text \<open>
  The devices on the serial bus: the ports with their receive cache (\<open>sys/driver/uart.c\<close>,
  \<open>sys/driver/rs485.c\<close>), the receiver of answers (\<open>downlink/downlink_dl.c\<close>) and their processing
  (\<open>downlink/downlink645.c\<close>), the data of the devices (\<open>downlink/plmdb.c\<close>), the frames of the requests
  (\<open>downlink/module/rfmet.c\<close>, \<open>downlink/plcomm.c\<close>) and the tasks that make them (\<open>downlink/pltask.c\<close>).
  A port is what its next reads return and what was written to it. A round of a task is a
  definition of its own; locks, pauses and prints are left out.
\<close>

subsection \<open>Ports\<close>

definition UART_PORTNUM :: nat where "UART_PORTNUM = 2"
definition RS485_PORTNUM :: nat where "RS485_PORTNUM = 2"
definition UART_RCVBUF_SIZE :: nat where "UART_RCVBUF_SIZE = 2048"

text \<open>The cache is the part of the buffer behind its head. A read of the device that returns nothing is an empty piece.\<close>

record uart =
  ua_fid :: int
  ua_cache :: bytes
  ua_reads :: "bytes list"
  ua_sent :: "bytes list"

definition UartSend :: "nat \<Rightarrow> bytes \<Rightarrow> uart \<Rightarrow> int \<times> uart" where
  "UartSend port buf u =
     (if port \<ge> UART_PORTNUM then (1, u)
      else if ua_fid u = - 1 then (1, u)
      else (0, u\<lparr>ua_sent := ua_sent u @ [buf]\<rparr>))"

definition UartFill :: "uart \<Rightarrow> uart" where
  "UartFill u =
     (if ua_cache u \<noteq> [] then u
      else case ua_reads u of
        [] \<Rightarrow> u
      | r # rs \<Rightarrow> u\<lparr>ua_reads := rs, ua_cache := (if length r > UART_RCVBUF_SIZE then [] else r)\<rparr>)"

definition UartRecv :: "nat \<Rightarrow> nat \<Rightarrow> uart \<Rightarrow> int \<times> bytes \<times> uart" where
  "UartRecv port len u =
     (if port \<ge> UART_PORTNUM then (- 1, [], u)
      else if ua_fid u = - 1 then (- 1, [], u)
      else
        let u = UartFill u
        in if ua_cache u = [] then (0, [], u)
           else
             let rtn = (if length (ua_cache u) > len then len else length (ua_cache u))
             in (int rtn, take rtn (ua_cache u), u\<lparr>ua_cache := drop rtn (ua_cache u)\<rparr>))"

definition UartGetFid :: "nat \<Rightarrow> uart \<Rightarrow> int" where
  "UartGetFid port u = (if port \<ge> UART_PORTNUM then - 1 else ua_fid u)"

definition Rs485Send :: "nat \<Rightarrow> bytes \<Rightarrow> uart \<Rightarrow> int \<times> uart" where
  "Rs485Send port buf u = (if port \<ge> RS485_PORTNUM then (1, u) else (0, snd (UartSend port buf u)))"

definition Rs485Recv :: "nat \<Rightarrow> nat \<Rightarrow> uart \<Rightarrow> int \<times> bytes \<times> uart" where
  "Rs485Recv port len u = (if port \<ge> RS485_PORTNUM then (- 1, [], u) else UartRecv port len u)"

definition RS485I :: nat where "RS485I = 1"

text \<open>The bytes that are still to be received; every byte read is one less.\<close>

definition waiting_bytes :: "uart \<Rightarrow> nat" where
  "waiting_bytes u = length (ua_cache u) + sum_list (map length (ua_reads u))"

definition imet645_getchar :: "uart \<Rightarrow> u8 option \<times> uart" where
  "imet645_getchar u = (case Rs485Recv RS485I 1 u of (rtn, buf, u) \<Rightarrow> (if rtn > 0 then Some (hd buf) else None, u))"

definition imet645_rawsend :: "bytes \<Rightarrow> uart \<Rightarrow> int \<times> uart" where
  "imet645_rawsend buf u = Rs485Send RS485I buf u"

lemma UartFill_waiting: "waiting_bytes (UartFill u) \<le> waiting_bytes u"
  by (auto simp: UartFill_def waiting_bytes_def split: list.split)

lemma Rs485Recv_waiting: "Rs485Recv port (Suc n) u = (rtn, bs, v) \<Longrightarrow> rtn > 0 \<Longrightarrow> waiting_bytes v < waiting_bytes u"
proof -
  assume g: "Rs485Recv port (Suc n) u = (rtn, bs, v)" "rtn > 0"
  then have c: "ua_cache (UartFill u) \<noteq> []" "v = (UartFill u)\<lparr>ua_cache := drop (nat rtn) (ua_cache (UartFill u))\<rparr>"
    by (auto simp: Rs485Recv_def UartRecv_def Let_def nat_add_distrib split: if_splits)
  then have "waiting_bytes v < waiting_bytes (UartFill u)" using g(2) by (simp add: waiting_bytes_def)
  then show ?thesis using UartFill_waiting[of u] by simp
qed

lemma getchar_waiting: "imet645_getchar u = (Some c, v) \<Longrightarrow> waiting_bytes v < waiting_bytes u"
  using Rs485Recv_waiting[of RS485I 0 u] by (auto simp: imet645_getchar_def split: prod.splits if_splits)

subsection \<open>The receiver of answers\<close>

text \<open>The buffer of the interface with the offset of the pointer, and the timer.\<close>

record downlink =
  df_buf :: bytes
  df_pos :: nat
  df_cnt :: u16
  df_maxlen :: u16
  df_stat :: u8
  dt_cnt :: int
  dt_max :: int
  dt_flag :: bool

definition MAXLEN_DOWNSERIALITF_BUF :: nat where "MAXLEN_DOWNSERIALITF_BUF = 1152"

definition downlink_timeout :: int where "downlink_timeout = 20"

definition SetDownTimer :: "int \<Rightarrow> downlink \<Rightarrow> downlink" where
  "SetDownTimer timeout d = d\<lparr>dt_cnt := 0, dt_max := timeout, dt_flag := True\<rparr>"

definition StopDownTimer :: "downlink \<Rightarrow> downlink" where
  "StopDownTimer d = d\<lparr>dt_flag := False\<rparr>"

definition DownlinkClearState :: "downlink \<Rightarrow> downlink" where
  "DownlinkClearState d = SetDownTimer 5 (d\<lparr>df_pos := 0, df_stat := 0, df_cnt := 0, df_maxlen := 0\<rparr>)"

definition DownTimerProc :: "downlink \<Rightarrow> downlink" where
  "DownTimerProc d =
     (if \<not> dt_flag d then d\<lparr>df_pos := 0, df_stat := 0, df_cnt := 0, df_maxlen := 0\<rparr>
      else
        let d = d\<lparr>dt_cnt := dt_cnt d + 1\<rparr>
        in if dt_cnt d \<ge> dt_max d then DownlinkClearState d else d)"

text \<open>A frame is its address, command, four bytes of data and the checksum, which the structure does not name.\<close>

definition faal645_checkpkt :: "bytes \<Rightarrow> int" where
  "faal645_checkpkt pkt =
     (let crc = GetCRC16 (take 6 pkt);
          crc2 = (if pkt ! 2 = 0xf0 \<or> pkt ! 2 = 0xf1 then u16_of (pkt ! 7) (pkt ! 6) else u16_of (pkt ! 6) (pkt ! 7))
      in if crc \<noteq> crc2 then 0 else 0)"

definition put_uc :: "u8 \<Rightarrow> downlink \<Rightarrow> downlink" where
  "put_uc uc d = d\<lparr>df_buf := (df_buf d)[df_pos d := uc], df_pos := df_pos d + 1\<rparr>"

text \<open>One character; the answer is whether the loop returns 0.\<close>

definition recv_uc :: "u8 \<Rightarrow> downlink \<Rightarrow> bool \<times> downlink" where
  "recv_uc uc d =
     (if df_stat d = 0 then
        (False, SetDownTimer downlink_timeout ((put_uc uc (DownlinkClearState d))\<lparr>df_stat := 1, df_maxlen := 7, df_cnt := 0\<rparr>))
      else if df_stat d = 1 then
        (let d = put_uc uc d; d = d\<lparr>df_cnt := df_cnt d + 1\<rparr>
         in if df_cnt d \<ge> df_maxlen d then
              (let d = DownlinkClearState (StopDownTimer d); rtn = faal645_checkpkt (take 8 (df_buf d))
               in if rtn = 0 then (True, d) else (False, d))
            else (False, d))
      else (False, DownlinkClearState d))"

function DownlinkRecv_loop :: "uart \<Rightarrow> downlink \<Rightarrow> int \<times> uart \<times> downlink" where
  "DownlinkRecv_loop u d =
     (case imet645_getchar u of
        (None, u) \<Rightarrow> (1, u, d)
      | (Some uc, u) \<Rightarrow>
          (case recv_uc uc d of
             (True, d) \<Rightarrow> (0, u, d)
           | (False, d) \<Rightarrow> DownlinkRecv_loop u d))"
  by pat_completeness auto
termination
  by (relation "measure (\<lambda>(u, _). waiting_bytes u)") (auto dest: getchar_waiting[OF sym])

declare DownlinkRecv_loop.simps [simp del]

definition DownlinkRecvPkt645 :: "uart \<Rightarrow> downlink \<Rightarrow> int \<times> uart \<times> downlink" where
  "DownlinkRecvPkt645 u d = DownlinkRecv_loop u (DownTimerProc d)"

subsection \<open>The data of the devices\<close>

definition MAX_RUNSTATE :: nat where "MAX_RUNSTATE = 8"
definition MDBCUR_SIZE :: nat where "MDBCUR_SIZE = 9"
definition MAX_METER_dl :: nat where "MAX_METER_dl = 255"

text \<open>The array of the devices is its memory: the address of a device and eight bytes of state.
  An index behind or before \<open>runstate\<close> is another place in the array.\<close>

definition mdb_addr :: "nat \<Rightarrow> nat" where "mdb_addr i = MDBCUR_SIZE * i"

definition mdb_runstate :: "nat \<Rightarrow> int \<Rightarrow> nat" where "mdb_runstate i k = nat (int (MDBCUR_SIZE * i) + 1 + k)"

record devices =
  MdbCurData :: bytes
  UpdateSensorId :: int
  SvrCommNoteId :: u32

definition SVRNOTEID_UPSENSOR :: u32 where "SVRNOTEID_UPSENSOR = 4"

definition SvrCommNote :: "u32 \<Rightarrow> devices \<Rightarrow> devices" where
  "SvrCommNote nid v =
     (if sint nid < 2 \<or> sint nid > 0x40 then v else v\<lparr>SvrCommNoteId := SvrCommNoteId v OR nid\<rparr>)"

definition mdb_put :: "nat \<Rightarrow> u8 \<Rightarrow> devices \<Rightarrow> devices" where
  "mdb_put k b v = v\<lparr>MdbCurData := (MdbCurData v)[k := b]\<rparr>"

definition ModBusLocksState :: "bytes \<Rightarrow> devices \<Rightarrow> devices" where
  "ModBusLocksState pkt v =
     (let imet = unat (pkt ! 0);
          v = mdb_put (mdb_addr imet) (pkt ! 0) v;
          v = mdb_put (mdb_runstate imet 1) (pkt ! 2) v;
          v = mdb_put (mdb_runstate imet 3) (pkt ! 3) v;
          v = mdb_put (mdb_runstate imet 5) (pkt ! 4) v;
          v = mdb_put (mdb_runstate imet 7) (pkt ! 5) v
      in SvrCommNote SVRNOTEID_UPSENSOR (v\<lparr>UpdateSensorId := int imet\<rparr>))"

text \<open>For the second sensor the data are copied to the address that is the value of a byte.\<close>

definition ModBusTempHum :: "bytes \<Rightarrow> devices \<Rightarrow> devices option" where
  "ModBusTempHum pkt v =
     (let imet = unat (pkt ! 0) in
      if imet = 0xf1 then None
      else
        let v = (if imet = 0xf0 then
                   fold (\<lambda>k. mdb_put (mdb_runstate imet (int k)) (pkt ! (2 + k))) [0, 1, 2, 3] (mdb_put (mdb_addr imet) (pkt ! 0) v)
                 else v)
        in Some (SvrCommNote SVRNOTEID_UPSENSOR (v\<lparr>UpdateSensorId := 240\<rparr>)))"

definition SvrMessageProcModBus :: "bytes \<Rightarrow> devices \<Rightarrow> devices option" where
  "SvrMessageProcModBus pkt v =
     (if pkt ! 1 = 0x83 then ModBusTempHum pkt v
      else if pkt ! 1 = 0x85 then Some (ModBusLocksState pkt v)
      else Some v)"

text \<open>One round of the task that receives; \<open>None\<close> is the access to a wrong address.\<close>

definition UplinkModBusTask :: "bool \<Rightarrow> uart \<times> downlink \<times> devices \<Rightarrow> (uart \<times> downlink \<times> devices) option" where
  "UplinkModBusTask PlcMetReading st =
     (case st of (u, d, v) \<Rightarrow>
        if PlcMetReading then Some (u, d, v)
        else
          case DownlinkRecvPkt645 u d of
            (rtn, u, d) \<Rightarrow>
              if rtn = 0 then map_option (\<lambda>v. (u, d, v)) (SvrMessageProcModBus (take 8 (df_buf d)) v)
              else Some (u, d, v))"

definition PlMdbInit :: "devices \<Rightarrow> devices" where
  "PlMdbInit v =
     fold (\<lambda>i v.
         let v = mdb_put (mdb_addr i) (of_nat (i div 4 + 1)) v
         in if i < 240 then mdb_put (mdb_runstate i ((int (i mod 4) - 1) * 2)) (of_nat i) v else v)
       [1..<255] (v\<lparr>MdbCurData := replicate (MDBCUR_SIZE * (MAX_METER_dl + 1)) 0\<rparr>)"

definition READMETERR_MAGIC :: u32 where "READMETERR_MAGIC = 0x761212f3"
definition READMETERR_FILE :: string where "READMETERR_FILE = ''/data/'' @ ''rdmeter.db''"

definition ReadMetErrAlarmInit :: "fs \<Rightarrow> bytes \<Rightarrow> bytes" where
  "ReadMetErrAlarmInit s alarm =
     (case ReadBinFile READMETERR_FILE READMETERR_MAGIC (int MAX_METER_dl) s of
        Some bs \<Rightarrow> bs @ drop (length bs) alarm
      | None \<Rightarrow> replicate MAX_METER_dl 0)"

definition PlFileName :: "string list" where
  "PlFileName = [''daypl'', ''monpl'', ''dayimp'', ''Lday'', ''Lmon'', ''Limp'']"

definition PlMdbFileName :: "nat \<Rightarrow> dbtime_t \<Rightarrow> string option" where
  "PlMdbFileName dbid dbtime =
     (if dbid > 5 then None
      else if hd (PlFileName ! dbid) = CHR ''m'' then
        Some (''/data/'' @ PlFileName ! dbid @ ''@'' @ dec2 (unat (d_year dbtime)) @ dec2 (unat (d_month dbtime)) @ ''.db'')
      else if hd (PlFileName ! dbid) = CHR ''L'' then Some (''/data/'' @ PlFileName ! dbid)
      else
        Some (''/data/'' @ PlFileName ! dbid @ ''@'' @ dec2 (unat (d_year dbtime)) @ dec2 (unat (d_month dbtime)) @
          dec2 (unat (d_day dbtime)) @ ''.db''))"

definition ClockToReadTime :: "sysclock_t \<Rightarrow> bool \<Rightarrow> u16" where
  "ClockToReadTime clk flag =
     (let us = ucast (c_hour clk) * 60 + ucast (c_minute clk);
          us2 = ucast (c_day clk);
          us2 = (if us2 = 0 \<or> us2 > 31 then 1 else us2)
      in if flag then us + (us2 - 1) * 1440 else us)"

definition ReadTimeToClock :: "sysclock_t \<Rightarrow> u16 \<Rightarrow> bool \<Rightarrow> sysclock_t \<Rightarrow> sysclock_t" where
  "ReadTimeToClock fileclock readtime flag clk =
     (let clk = clk\<lparr>c_second := 0, c_minute := ucast (readtime mod 60)\<rparr>;
          readtime = readtime div 60;
          clk = clk\<lparr>c_month := c_month fileclock, c_year := c_year fileclock\<rparr>
      in if flag then clk\<lparr>c_hour := ucast (readtime mod 24), c_day := ucast (readtime div 24 + 1)\<rparr>
         else clk\<lparr>c_hour := ucast readtime, c_day := c_day fileclock\<rparr>)"

subsection \<open>Requests\<close>

record plc_dest_t =
  pd_metid :: u16
  pd_portcfg :: u8

record ctrlcabinet_t =
  cc_addr :: u16
  cc_runstate :: bytes

record plc =
  TempHumsensor1 :: u16
  TempHumsensor2 :: u16
  TempHumsensorTimerId1 :: int
  TempHumsensorTimerId2 :: int
  ctrlnum :: int
  ctrlstate :: "ctrlcabinet_t list"
  PlcModuleNo :: int
  PlcMetRegisting :: bool
  PlcMetReading :: bool
  plcreading :: bool
  SceneOnId :: u8
  SceneOffId :: u8
  MusicPause :: bool
  MusicPauseTmeout :: u8
  musicstart :: bool
  musicname :: string
  musicid :: int
  plc_system :: "string list"

datatype plc_stop = PlcOutOfBounds

definition MakePlcDest :: "u16 \<Rightarrow> plc_dest_t" where
  "MakePlcDest metid = \<lparr>pd_metid = metid, pd_portcfg = 1\<rparr>"

text \<open>The bytes that wait are read one by one into the first byte of the caller's buffer.\<close>

function drain_bus :: "nat \<Rightarrow> bytes \<Rightarrow> uart \<Rightarrow> bytes \<times> uart" where
  "drain_bus port buf u =
     (case Rs485Recv port 1 u of
        (rtn, bs, v) \<Rightarrow> if rtn > 0 then drain_bus port (buf[0 := hd bs]) v else (buf, v))"
  by pat_completeness auto
termination
  by (relation "measure (\<lambda>(_, _, u). waiting_bytes u)") (auto dest: Rs485Recv_waiting[of _ 0, OF sym])

declare drain_bus.simps [simp del]

definition modbus_frame :: "u16 \<Rightarrow> u32 \<Rightarrow> bytes \<Rightarrow> bytes" where
  "modbus_frame metid itemid bs =
     (let pkt = [ucast metid, ucast itemid] @ bs;
          crc = GetCRC16 pkt
      in pkt @ (if metid = 240 \<or> metid = 241 then [hi8 crc, lo8 crc] else [lo8 crc, hi8 crc]))"

definition RFMetRead :: "plc_dest_t \<Rightarrow> u32 \<Rightarrow> bytes \<Rightarrow> uart \<Rightarrow> int \<times> bytes \<times> uart" where
  "RFMetRead dest itemid buf u =
     (if unat (pd_metid dest) > MAX_METER_dl then (- 1, buf, u)
      else
        let modbusbuf = modbus_frame (pd_metid dest) itemid [0, 0, 0, 2];
            port = unat (pd_portcfg dest);
            (buf, u) = drain_bus port buf u;
            (rtn, u) = Rs485Send port modbusbuf u
        in (rtn, buf, u))"

definition RFMetCtrl :: "plc_dest_t \<Rightarrow> u32 \<Rightarrow> bytes \<Rightarrow> uart \<Rightarrow> int \<times> bytes \<times> uart" where
  "RFMetCtrl dest itemid buf u =
     (if unat (pd_metid dest) > MAX_METER_dl then (- 1, buf, u)
      else
        let modbusbuf = modbus_frame (pd_metid dest) itemid [buf ! 0, buf ! 1, buf ! 2, buf ! 3];
            port = unat (pd_portcfg dest);
            (buf, u) = drain_bus port buf u;
            (rtn, u) = Rs485Send port modbusbuf u
        in (rtn, buf, u))"

text \<open>There is one module; the stored number is used as an index as it is.\<close>

definition NUM_MODULES :: int where "NUM_MODULES = 1"

definition GetPlcModeuleNo :: "plc \<Rightarrow> int" where "GetPlcModeuleNo p = PlcModuleNo p"

definition PlcRead :: "plc_dest_t \<Rightarrow> u32 \<Rightarrow> bytes \<Rightarrow> plc \<Rightarrow> uart \<Rightarrow> plc_stop + (int \<times> bytes \<times> plc \<times> uart)" where
  "PlcRead dest itemid buf p u =
     (if PlcMetRegisting p then Inr (- 1, buf, p, u)
      else if PlcModuleNo p < 0 \<or> PlcModuleNo p \<ge> NUM_MODULES then Inl PlcOutOfBounds
      else case RFMetRead dest itemid buf u of (rtn, buf, u) \<Rightarrow> Inr (rtn, buf, p\<lparr>PlcMetReading := False\<rparr>, u))"

definition PlcCtrlMet :: "plc_dest_t \<Rightarrow> u32 \<Rightarrow> bytes \<Rightarrow> plc \<Rightarrow> uart \<Rightarrow> plc_stop + (int \<times> bytes \<times> plc \<times> uart)" where
  "PlcCtrlMet dest itemid buf p u =
     (if PlcModuleNo p < 0 \<or> PlcModuleNo p \<ge> NUM_MODULES then Inl PlcOutOfBounds
      else case RFMetCtrl dest itemid buf u of (rtn, buf, u) \<Rightarrow> Inr (rtn, buf, p\<lparr>PlcMetReading := False\<rparr>, u))"

subsection \<open>The tasks\<close>

text \<open>The request of a sensor, when its number is set, and the requests of the doors.\<close>

definition read_sensor :: "u16 \<Rightarrow> u16 \<Rightarrow> (u16 \<Rightarrow> plc \<Rightarrow> plc) \<Rightarrow> bytes \<times> plc \<times> uart \<Rightarrow> plc_stop + (bytes \<times> plc \<times> uart)" where
  "read_sensor sensor no upd st =
     (case st of (rbuf, p, u) \<Rightarrow>
        if sensor \<noteq> no then Inr (rbuf, p, u)
        else map_sum id (\<lambda>(rtn, rbuf, p, u). (rbuf, if rtn \<ge> 0 then upd 0 p else p, u))
               (PlcRead (MakePlcDest sensor) 0x0003 rbuf p u))"

fun ctrl_doors :: "nat \<Rightarrow> nat \<Rightarrow> plc \<Rightarrow> uart \<Rightarrow> plc_stop + (plc \<times> uart)" where
  "ctrl_doors i 0 p u = Inr (p, u)"
| "ctrl_doors i (Suc n) p u =
     (if i \<ge> length (ctrlstate p) then Inl PlcOutOfBounds
      else
        let c = ctrlstate p ! i in
        case PlcCtrlMet (MakePlcDest (cc_addr c)) 0x0005 (cc_runstate c) p u of
          Inl s \<Rightarrow> Inl s
        | Inr (rtn, buf, p, u) \<Rightarrow>
            ctrl_doors (Suc i) n (p\<lparr>ctrlstate := (ctrlstate p)[i := c\<lparr>cc_runstate := buf\<rparr>]\<rparr>) u)"

definition PlcTask_round :: "bytes \<Rightarrow> plc \<Rightarrow> uart \<Rightarrow> plc_stop + (bytes \<times> plc \<times> uart)" where
  "PlcTask_round rbuf p u =
     (if plcreading p then Inr (rbuf, p, u)
      else case read_sensor (TempHumsensor1 p) 0xf0 (\<lambda>v. TempHumsensor1_update (\<lambda>_. v)) (rbuf, p, u) of
        Inl s \<Rightarrow> Inl s
      | Inr (rbuf, p, u) \<Rightarrow>
          (case read_sensor (TempHumsensor2 p) 0xf1 (\<lambda>v. TempHumsensor2_update (\<lambda>_. v)) (rbuf, p, u) of
             Inl s \<Rightarrow> Inl s
           | Inr (rbuf, p, u) \<Rightarrow>
               if ctrlnum p > 0 then
                 map_sum id (\<lambda>(p, u). (rbuf, p\<lparr>ctrlnum := 0\<rparr>, u)) (ctrl_doors 0 (nat (ctrlnum p)) p u)
               else Inr (rbuf, p, u)))"

text \<open>The callbacks of the timers, with their numbers.\<close>

definition RTimeUpdateTemperature1 :: "plc \<Rightarrow> plc" where "RTimeUpdateTemperature1 p = p\<lparr>TempHumsensor1 := 0xf0\<rparr>"
definition RTimeUpdateTemperature2 :: "plc \<Rightarrow> plc" where "RTimeUpdateTemperature2 p = p\<lparr>TempHumsensor2 := 0xf1\<rparr>"
definition RTimerTimerTask :: "u32 \<Rightarrow> plc \<Rightarrow> plc" where "RTimerTimerTask arg p = p\<lparr>SceneOnId := ucast arg\<rparr>"

definition proc_Temperature1 :: u32 where "proc_Temperature1 = 11"
definition proc_Temperature2 :: u32 where "proc_Temperature2 = 12"
definition proc_TimerTask :: u32 where "proc_TimerTask = 13"

definition zero_basetime :: sysclock_t where
  "zero_basetime = \<lparr>c_year = 0, c_month = 0, c_day = 0, c_hour = 0, c_minute = 0, c_second = 0, c_week = 0\<rparr>"

definition start_timer :: "int \<Rightarrow> rtimer_conf_t \<Rightarrow> u32 \<Rightarrow> u32 \<Rightarrow> rtimers \<Rightarrow> (int \<times> rtimers) option" where
  "start_timer tid conf proc arg rt = SysAddRTimer conf proc arg (if tid \<ge> 0 then SysStopRTimer tid rt else rt)"

definition PlcTask_start :: "int \<Rightarrow> plc \<Rightarrow> rtimers \<Rightarrow> (plc \<times> rtimers) option" where
  "PlcTask_start now p rt =
     (let conf1 = \<lparr>rc_curtime = now, rc_bonce = 0, rc_tdev = 5, rc_tmod = word_of_int UTIMEDEV_MINUTE, rc_basetime = zero_basetime\<rparr>;
          conf2 = \<lparr>rc_curtime = now, rc_bonce = 0, rc_tdev = 6, rc_tmod = word_of_int UTIMEDEV_MINUTE, rc_basetime = zero_basetime\<rparr>
      in Option.bind (start_timer (TempHumsensorTimerId1 p) conf1 proc_Temperature1 0 rt) (\<lambda>(id1, rt).
         map_option (\<lambda>(id2, rt). (p\<lparr>TempHumsensorTimerId1 := id1, TempHumsensorTimerId2 := id2\<rparr>, rt))
           (start_timer (TempHumsensorTimerId2 p) conf2 proc_Temperature2 0 rt)))"

definition setvolume :: "int \<Rightarrow> plc \<Rightarrow> plc" where
  "setvolume volume p =
     p\<lparr>plc_system := plc_system p @ [''numid=5,iface=MIXER,name='' @ [CHR 0x27] @ ''Headphone Playback Volume'' @ [CHR 0x27] @ '' '' @ dec_int volume]\<rparr>"

definition SceneOnTask :: "u8 \<Rightarrow> plc \<Rightarrow> plc" where
  "SceneOnTask sceneid p =
     (if sceneid \<noteq> 0 then
        let m = musicid p + 1; m = (if m > 3 then 1 else m)
        in p\<lparr>plc_system := plc_system p @ [''killall -9 madplay''], musicid := m,
             musicname := ''madplay /work/back'' @ dec_int m @ ''.mp3 &'', musicstart := True\<rparr>
      else p)"

definition SceneTask :: "plc \<Rightarrow> plc" where
  "SceneTask p =
     (let p = (if SceneOnId p \<noteq> 0 then (SceneOnTask (SceneOnId p) p)\<lparr>SceneOnId := 0\<rparr> else p)
      in if SceneOffId p \<noteq> 0 then (SceneOnTask 0 p)\<lparr>SceneOffId := 0\<rparr> else p)"

definition MusicTask :: "int \<Rightarrow> plc \<Rightarrow> plc" where
  "MusicTask music_volume p =
     (let p = (if musicstart p then p\<lparr>musicstart := False, plc_system := plc_system p @ [musicname p]\<rparr> else p)
      in if MusicPause p \<and> MusicPauseTmeout p > 0 then
           let p = p\<lparr>MusicPauseTmeout := MusicPauseTmeout p - 1\<rparr>
           in if MusicPauseTmeout p = 0 then (setvolume music_volume p)\<lparr>MusicPause := False\<rparr> else p
         else p)"

definition shell_TimerTask :: "int \<Rightarrow> sysclock_t \<Rightarrow> string list \<Rightarrow> int \<Rightarrow> rtimers \<Rightarrow> (int \<times> int \<times> rtimers) option" where
  "shell_TimerTask now clk argv TimerIdTask rt =
     (if length argv \<noteq> 4 \<and> length argv \<noteq> 5 then Some (1, TimerIdTask, rt)
      else
        let sceneid = c_atoi (argv ! 1);
            sec = (if length argv = 5 then c_atoi (argv ! 4) else 0);
            conf = \<lparr>rc_curtime = now, rc_bonce = 0, rc_tdev = 1, rc_tmod = word_of_int UTIMEDEV_DAY,
              rc_basetime = clk\<lparr>c_hour := word_of_int (c_atoi (argv ! 2)), c_minute := word_of_int (c_atoi (argv ! 3)), c_second := word_of_int sec\<rparr>\<rparr>
        in map_option (\<lambda>(tid, rt). (0, tid, rt)) (start_timer TimerIdTask conf proc_TimerTask (word_of_int sceneid) rt))"

subsection \<open>Specification\<close>

subsection \<open>Requests\<close>

text \<open>What the bus is, apart from the bytes that wait, changes by a request only in what was sent.\<close>

definition bus_ready :: "nat \<Rightarrow> uart \<Rightarrow> bool" where
  "bus_ready port u \<longleftrightarrow> port < RS485_PORTNUM \<and> ua_fid u \<noteq> - 1"

text \<open>The frame of a request: address, function, four bytes and the checksum.\<close>

definition request :: "u16 \<Rightarrow> u32 \<Rightarrow> bytes \<Rightarrow> bytes" where
  "request metid itemid bs = modbus_frame metid itemid (take 4 bs)"

text \<open>The requests of the doors of a list of cabinets.\<close>

definition door_requests :: "ctrlcabinet_t list \<Rightarrow> bytes list" where
  "door_requests cs = map (\<lambda>c. request (cc_addr c) 5 (cc_runstate c)) (filter (\<lambda>c. unat (cc_addr c) \<le> MAX_METER_dl) cs)"

text \<open>One round: the sensors that are asked for, then the doors.\<close>

definition sensor_requests :: "plc \<Rightarrow> bytes list" where
  "sensor_requests p =
     (if PlcMetRegisting p then []
      else (if TempHumsensor1 p = 0xf0 then [request 0xf0 3 [0, 0, 0, 2]] else []) @
        (if TempHumsensor2 p = 0xf1 then [request 0xf1 3 [0, 0, 0, 2]] else []))"

subsection \<open>Answers\<close>

definition incoming :: "uart \<Rightarrow> bytes" where "incoming u = ua_cache u @ concat (ua_reads u)"

definition pieces :: "bytes list \<Rightarrow> bool" where
  "pieces rs \<longleftrightarrow> (\<forall>r\<in>set rs. r \<noteq> [] \<and> length r \<le> UART_RCVBUF_SIZE)"

definition bus_in :: "uart \<Rightarrow> bool" where "bus_in u \<longleftrightarrow> bus_ready RS485I u \<and> pieces (ua_reads u)"

text \<open>The rounds of the task, each with the pieces that came since the one before.\<close>

fun modbus_rounds :: "bytes list list \<Rightarrow> uart \<times> downlink \<times> devices \<Rightarrow> (uart \<times> downlink \<times> devices) option" where
  "modbus_rounds [] st = Some st"
| "modbus_rounds (rs # rss) st =
     (case st of (u, d, v) \<Rightarrow> Option.bind (UplinkModBusTask False (u\<lparr>ua_reads := rs\<rparr>, d, v)) (modbus_rounds rss))"

text \<open>The receiver has the first bytes of a frame, and that many rounds have passed since the first of them.\<close>

definition receiving :: "bytes \<Rightarrow> int \<Rightarrow> downlink \<Rightarrow> bool" where
  "receiving got t d \<longleftrightarrow> length (df_buf d) \<ge> 8 \<and>
     (if got = [] then df_stat d = 0
      else df_stat d = 1 \<and> df_pos d = length got \<and> df_cnt d = of_nat (length got - 1) \<and> df_maxlen d = 7 \<and> dt_flag d \<and>
        dt_max d = downlink_timeout \<and> dt_cnt d = t \<and> take (length got) (df_buf d) = got)"

text \<open>One round: nothing new, a part of a frame, or its end.\<close>

definition idle :: "downlink \<Rightarrow> bool" where "idle d \<longleftrightarrow> df_stat d = 0 \<and> length (df_buf d) \<ge> 8"

subsection \<open>Lemmas\<close>

lemma UartFill_same [simp]: "ua_fid (UartFill u) = ua_fid u" "ua_sent (UartFill u) = ua_sent u"
  by (auto simp: UartFill_def split: list.split)

lemma Rs485Recv_same: "Rs485Recv port n u = (rtn, bs, v) \<Longrightarrow> ua_fid v = ua_fid u \<and> ua_sent v = ua_sent u"
  by (auto simp: Rs485Recv_def UartRecv_def Let_def split: if_splits)

lemma Rs485Recv_hd: "Rs485Recv port (Suc n) u = (rtn, bs, v) \<Longrightarrow> rtn > 0 \<Longrightarrow> bs \<noteq> []"
  by (auto simp: Rs485Recv_def UartRecv_def Let_def split: if_splits)

lemma drain_bus_same: "drain_bus port buf u = (buf', v) \<Longrightarrow>
    ua_fid v = ua_fid u \<and> ua_sent v = ua_sent u \<and> length buf' = length buf \<and> drop 1 buf' = drop 1 buf"
proof (induction port buf u arbitrary: buf' v rule: drain_bus.induct)
  case (1 port buf u)
  obtain rtn bs w where r: "Rs485Recv port 1 u = (rtn, bs, w)" by (cases "Rs485Recv port 1 u")
  show ?case
  proof (cases "rtn > 0")
    case True
    then show ?thesis using 1(1)[OF r[symmetric] refl True, of buf' v] 1(2) Rs485Recv_same[OF r]
      by (simp add: drain_bus.simps[of port buf u] r[simplified])
  next
    case False
    then show ?thesis using 1(2) Rs485Recv_same[OF r] by (simp add: drain_bus.simps[of port buf u] r[simplified])
  qed
qed

lemma Rs485Send_ready: "bus_ready port u \<Longrightarrow> Rs485Send port bs u = (0, u\<lparr>ua_sent := ua_sent u @ [bs]\<rparr>)"
  by (auto simp: bus_ready_def Rs485Send_def UartSend_def RS485_PORTNUM_def UART_PORTNUM_def)

lemma take4: "length bs \<ge> 4 \<Longrightarrow> [bs ! 0, bs ! 1, bs ! 2, bs ! 3] = take 4 bs"
  by (auto simp: numeral_eq_Suc Suc_le_length_iff)

lemma RFMetCtrl_sends:
  assumes "bus_ready 1 u" "length buf \<ge> 4"
  shows "\<exists>rtn buf' v. RFMetCtrl (MakePlcDest metid) itemid buf u = (rtn, buf', v) \<and> bus_ready 1 v \<and> length buf' = length buf \<and>
    ua_sent v = ua_sent u @ (if unat metid \<le> MAX_METER_dl then [request metid itemid buf] else [])"
proof (cases "unat metid \<le> MAX_METER_dl")
  case True
  obtain buf' w where d: "drain_bus 1 buf u = (buf', w)" by (cases "drain_bus 1 buf u")
  have "bus_ready 1 w" using drain_bus_same[OF d] assms(1) by (simp add: bus_ready_def)
  then show ?thesis using True d drain_bus_same[OF d] take4[OF assms(2)]
    by (simp add: RFMetCtrl_def MakePlcDest_def Let_def Rs485Send_ready request_def) (simp add: bus_ready_def)
qed (use assms in \<open>simp add: RFMetCtrl_def MakePlcDest_def\<close>)

lemma RFMetRead_sends:
  assumes "bus_ready 1 u" "unat metid \<le> MAX_METER_dl"
  shows "\<exists>buf' v. RFMetRead (MakePlcDest metid) itemid buf u = (0, buf', v) \<and> bus_ready 1 v \<and> length buf' = length buf \<and>
    ua_sent v = ua_sent u @ [request metid itemid [0, 0, 0, 2]]"
proof -
  obtain buf' w where d: "drain_bus 1 buf u = (buf', w)" by (cases "drain_bus 1 buf u")
  have "bus_ready 1 w" using drain_bus_same[OF d] assms(1) by (simp add: bus_ready_def)
  then show ?thesis using assms(2) d drain_bus_same[OF d]
    by (simp add: RFMetRead_def MakePlcDest_def Let_def Rs485Send_ready request_def) (simp add: bus_ready_def)
qed

lemma ctrl_doors_sends:
  assumes "bus_ready 1 u" "PlcModuleNo p = 0" "i + n \<le> length (ctrlstate p)" "\<forall>c\<in>set (ctrlstate p). length (cc_runstate c) \<ge> 4"
  shows "\<exists>cs v. ctrl_doors i n p u = Inr (p\<lparr>ctrlstate := cs, PlcMetReading := n = 0 \<and> PlcMetReading p\<rparr>, v) \<and> bus_ready 1 v \<and>
    ua_sent v = ua_sent u @ door_requests (take n (drop i (ctrlstate p))) \<and> map cc_addr cs = map cc_addr (ctrlstate p) \<and>
    (\<forall>c\<in>set cs. length (cc_runstate c) \<ge> 4)"
  using assms
proof (induction n arbitrary: i p u)
  case 0
  then show ?case by (intro exI[of _ "ctrlstate p"] exI[of _ u]) (simp add: door_requests_def)
next
  case (Suc n)
  define c where "c = ctrlstate p ! i"
  have i: "i < length (ctrlstate p)" using Suc.prems(3) by simp
  then have lc: "length (cc_runstate c) \<ge> 4" using Suc.prems(4) by (simp add: c_def)
  obtain rtn buf w where r: "RFMetCtrl (MakePlcDest (cc_addr c)) 5 (cc_runstate c) u = (rtn, buf, w)" "bus_ready 1 w"
      "length buf = length (cc_runstate c)"
      "ua_sent w = ua_sent u @ (if unat (cc_addr c) \<le> MAX_METER_dl then [request (cc_addr c) 5 (cc_runstate c)] else [])"
    using RFMetCtrl_sends[OF Suc.prems(1) lc, of "cc_addr c" 5] by auto
  define q where "q = p\<lparr>PlcMetReading := False, ctrlstate := (ctrlstate p)[i := c\<lparr>cc_runstate := buf\<rparr>]\<rparr>"
  have s: "ctrl_doors i (Suc n) p u = ctrl_doors (Suc i) n q w"
    using i r(1) Suc.prems(2) by (simp add: PlcCtrlMet_def NUM_MODULES_def c_def[symmetric] Let_def q_def)
  have q: "PlcModuleNo q = 0" "Suc i + n \<le> length (ctrlstate q)" "\<forall>c\<in>set (ctrlstate q). length (cc_runstate c) \<ge> 4"
      "drop (Suc i) (ctrlstate q) = drop (Suc i) (ctrlstate p)" "map cc_addr (ctrlstate q) = map cc_addr (ctrlstate p)"
    using Suc.prems r(3) lc i by (auto simp: q_def dest: set_update_subset_insert[THEN subsetD])
       (auto simp: c_def intro: nth_equalityI simp: nth_list_update)
  obtain cs v where v: "ctrl_doors (Suc i) n q w = Inr (q\<lparr>ctrlstate := cs, PlcMetReading := n = 0 \<and> PlcMetReading q\<rparr>, v)" "bus_ready 1 v"
      "ua_sent v = ua_sent w @ door_requests (take n (drop (Suc i) (ctrlstate q)))" "map cc_addr cs = map cc_addr (ctrlstate q)"
      "\<forall>c\<in>set cs. length (cc_runstate c) \<ge> 4"
    using Suc.IH[OF r(2) q(1-3)] by blast
  have d: "take (Suc n) (drop i (ctrlstate p)) = c # take n (drop (Suc i) (ctrlstate p))"
    using i by (simp add: c_def Cons_nth_drop_Suc[symmetric])
  have e: "q\<lparr>ctrlstate := cs, PlcMetReading := n = 0 \<and> PlcMetReading q\<rparr> = p\<lparr>ctrlstate := cs, PlcMetReading := Suc n = 0 \<and> PlcMetReading p\<rparr>"
    by (simp add: q_def)
  show ?case unfolding s v(1) e
    using v q(4,5) r(4) by (intro exI[of _ cs] exI[of _ v]) (simp add: d door_requests_def)
qed

lemma read_sensor_sends:
  assumes "bus_ready 1 u" "PlcModuleNo p = 0" "unat no \<le> MAX_METER_dl"
  shows "\<exists>rbuf' v. read_sensor s no upd (rbuf, p, u) =
      Inr (rbuf', if s = no \<and> \<not> PlcMetRegisting p then upd 0 (p\<lparr>PlcMetReading := False\<rparr>) else p, v) \<and> bus_ready 1 v \<and>
    ua_sent v = ua_sent u @ (if s = no \<and> \<not> PlcMetRegisting p then [request no 3 [0, 0, 0, 2]] else [])"
  using assms(2) RFMetRead_sends[OF assms(1,3), of 3 rbuf] assms(1)
  by (auto simp: read_sensor_def PlcRead_def NUM_MODULES_def)

lemma PlcTask_round_sends:
  assumes "bus_ready 1 u" "PlcModuleNo p = 0" "\<not> plcreading p" "ctrlnum p \<le> int (length (ctrlstate p))"
    "\<forall>c\<in>set (ctrlstate p). length (cc_runstate c) \<ge> 4"
  shows "\<exists>rbuf' p' v. PlcTask_round rbuf p u = Inr (rbuf', p', v) \<and> bus_ready 1 v \<and>
    ua_sent v = ua_sent u @ sensor_requests p @ door_requests (take (nat (ctrlnum p)) (ctrlstate p)) \<and>
    ctrlnum p' = min 0 (ctrlnum p) \<and> map cc_addr (ctrlstate p') = map cc_addr (ctrlstate p) \<and>
    (\<not> PlcMetRegisting p \<longrightarrow> TempHumsensor1 p' \<noteq> 0xf0 \<and> TempHumsensor2 p' \<noteq> 0xf1)"
proof -
  define r where "r = (\<lambda>s (no::u16). s = no \<and> \<not> PlcMetRegisting p)"
  have m: "unat (0xf0::u16) \<le> MAX_METER_dl" "unat (0xf1::u16) \<le> MAX_METER_dl" by (simp_all add: MAX_METER_dl_def)
  define p1 where "p1 = (if r (TempHumsensor1 p) 0xf0 then p\<lparr>PlcMetReading := False, TempHumsensor1 := 0\<rparr> else p)"
  define p2 where "p2 = (if r (TempHumsensor2 p) 0xf1 then p1\<lparr>PlcMetReading := False, TempHumsensor2 := 0\<rparr> else p1)"
  have p: "PlcModuleNo p2 = 0" "PlcModuleNo p1 = 0" "ctrlnum p2 = ctrlnum p" "ctrlstate p2 = ctrlstate p" "PlcMetRegisting p1 = PlcMetRegisting p"
      "TempHumsensor2 p1 = TempHumsensor2 p" "\<not> PlcMetRegisting p \<longrightarrow> TempHumsensor1 p2 \<noteq> 0xf0 \<and> TempHumsensor2 p2 \<noteq> 0xf1"
    using assms(2) by (auto simp: p1_def p2_def r_def)
  obtain b1 u1 where 1: "read_sensor (TempHumsensor1 p) 0xf0 (\<lambda>v. TempHumsensor1_update (\<lambda>_. v)) (rbuf, p, u) = Inr (b1, p1, u1)"
      "bus_ready 1 u1" "ua_sent u1 = ua_sent u @ (if r (TempHumsensor1 p) 0xf0 then [request 0xf0 3 [0, 0, 0, 2]] else [])"
    using read_sensor_sends[OF assms(1,2) m(1), of "TempHumsensor1 p" "\<lambda>v. TempHumsensor1_update (\<lambda>_. v)" rbuf]
    by (auto simp: p1_def r_def)
  obtain b2 u2 where 2: "read_sensor (TempHumsensor2 p) 0xf1 (\<lambda>v. TempHumsensor2_update (\<lambda>_. v)) (b1, p1, u1) = Inr (b2, p2, u2)"
      "bus_ready 1 u2" "ua_sent u2 = ua_sent u1 @ (if r (TempHumsensor2 p) 0xf1 then [request 0xf1 3 [0, 0, 0, 2]] else [])"
    using read_sensor_sends[OF 1(2) p(2) m(2), of "TempHumsensor2 p" "\<lambda>v. TempHumsensor2_update (\<lambda>_. v)" b1] p(5)
    by (auto simp: p2_def r_def)
  have s: "ua_sent u2 = ua_sent u @ sensor_requests p" by (simp add: 1(3) 2(3) sensor_requests_def r_def)
  show ?thesis
  proof (cases "ctrlnum p > 0")
    case True
    then have n: "0 + nat (ctrlnum p) \<le> length (ctrlstate p2)" using assms(4) p by simp
    obtain cs v where v: "ctrl_doors 0 (nat (ctrlnum p)) p2 u2 =
          Inr (p2\<lparr>ctrlstate := cs, PlcMetReading := nat (ctrlnum p) = 0 \<and> PlcMetReading p2\<rparr>, v)" "bus_ready 1 v"
        "ua_sent v = ua_sent u2 @ door_requests (take (nat (ctrlnum p)) (ctrlstate p))" "map cc_addr cs = map cc_addr (ctrlstate p)"
      using ctrl_doors_sends[OF 2(2) p(1) n] assms(5) p by auto
    show ?thesis using True assms(3) p v by (simp add: PlcTask_round_def 1(1) 2(1)[unfolded p(6)] p(6) s)
  next
    case False
    then show ?thesis using assms(3) p 2(2) s by (simp add: PlcTask_round_def 1(1) 2(1)[unfolded p(6)] p(6) door_requests_def)
  qed
qed

lemma getchar_incoming:
  assumes "bus_in u"
  shows "case incoming u of
      [] \<Rightarrow> \<exists>v. imet645_getchar u = (None, v) \<and> bus_in v \<and> incoming v = []
    | c # cs \<Rightarrow> \<exists>v. imet645_getchar u = (Some c, v) \<and> bus_in v \<and> incoming v = cs"
proof -
  have p: "\<not> RS485I \<ge> UART_PORTNUM" "\<not> RS485I \<ge> RS485_PORTNUM" "ua_fid u \<noteq> - 1"
    using assms by (auto simp: bus_in_def bus_ready_def RS485I_def UART_PORTNUM_def RS485_PORTNUM_def)
  show ?thesis
  proof (cases "ua_cache u")
    case (Cons c cs)
    then have "UartFill u = u" by (simp add: UartFill_def)
    then show ?thesis using Cons p assms
      by (simp add: imet645_getchar_def Rs485Recv_def UartRecv_def Let_def incoming_def bus_in_def bus_ready_def)
  next
    case Nil
    show ?thesis
    proof (cases "ua_reads u")
      case Nil': Nil
      then have "UartFill u = u" using Nil by (simp add: UartFill_def)
      then show ?thesis using Nil Nil' p assms
        by (simp add: imet645_getchar_def Rs485Recv_def UartRecv_def Let_def incoming_def)
    next
      case (Cons r rs)
      then have r: "r \<noteq> []" "length r \<le> UART_RCVBUF_SIZE" "pieces rs" using assms by (auto simp: bus_in_def pieces_def)
      then obtain c cs where c: "r = c # cs" by (cases r) auto
      have "UartFill u = u\<lparr>ua_reads := rs, ua_cache := r\<rparr>" using Nil Cons r by (simp add: UartFill_def)
      then show ?thesis using Nil Cons r p assms
        by (simp add: imet645_getchar_def Rs485Recv_def UartRecv_def Let_def incoming_def bus_in_def bus_ready_def c)
    qed
  qed
qed

lemma checkpkt_0 [simp]: "faal645_checkpkt pkt = 0" by (simp add: faal645_checkpkt_def Let_def)

lemma recv_uc_next:
  assumes "receiving got t d" "length got < 7"
  shows "\<exists>d'. recv_uc c d = (False, d') \<and> receiving (got @ [c]) (if got = [] then 0 else t) d'"
proof (cases "got = []")
  case True
  then show ?thesis using assms
    by (cases "df_buf d") (auto simp: receiving_def recv_uc_def put_uc_def DownlinkClearState_def SetDownTimer_def)
next
  case False
  have n: "(1::u16) + of_nat (length got - Suc 0) = of_nat (length got)" "\<not> (7::u16) \<le> of_nat (length got)"
    using False assms(2) by (simp_all add: of_nat_diff Suc_le_eq word_less_nat_alt not_le unat_of_nat)
  show ?thesis using False assms n
    by (simp add: receiving_def recv_uc_def put_uc_def Let_def take_Suc_conv_app_nth add.commute)
qed

lemma recv_uc_last:
  assumes "receiving got t d" "length got = 7"
  shows "\<exists>d'. recv_uc c d = (True, d') \<and> receiving [] 0 d' \<and> take 8 (df_buf d') = got @ [c]"
proof -
  have "take (Suc 7) ((df_buf d)[7 := c]) = take 7 (df_buf d) @ [c]"
    using assms by (subst take_Suc_conv_app_nth) (auto simp: receiving_def)
  moreover have "got \<noteq> []" using assms(2) by auto
  ultimately show ?thesis using assms
    by (auto simp: receiving_def recv_uc_def put_uc_def Let_def DownlinkClearState_def SetDownTimer_def StopDownTimer_def)
qed

lemma DownlinkRecv_loop_part:
  assumes "bus_in u" "incoming u = xs" "receiving got t d" "length got + length xs < 8"
  shows "\<exists>u' d'. DownlinkRecv_loop u d = (1, u', d') \<and> bus_in u' \<and> incoming u' = [] \<and> receiving (got @ xs) (if got = [] then 0 else t) d'"
  using assms
proof (induction xs arbitrary: u got t d)
  case Nil
  then obtain v where "imet645_getchar u = (None, v)" "bus_in v" "incoming v = []" using getchar_incoming[of u] by auto
  then show ?case using Nil by (auto simp: DownlinkRecv_loop.simps[of u] receiving_def)
next
  case (Cons c xs)
  obtain v where v: "imet645_getchar u = (Some c, v)" "bus_in v" "incoming v = xs" using getchar_incoming[OF Cons.prems(1)] Cons.prems(2) by auto
  obtain d' where d: "recv_uc c d = (False, d')" "receiving (got @ [c]) (if got = [] then 0 else t) d'"
    using recv_uc_next[OF Cons.prems(3), of c] Cons.prems(4) by auto
  show ?case using Cons.IH[OF v(2,3) d(2)] Cons.prems(4) by (simp add: DownlinkRecv_loop.simps[of u] v(1) d(1))
qed

lemma DownlinkRecv_loop_whole:
  assumes "bus_in u" "incoming u = xs @ [c]" "receiving got t d" "length got + length xs = 7"
  shows "\<exists>u' d'. DownlinkRecv_loop u d = (0, u', d') \<and> bus_in u' \<and> incoming u' = [] \<and> receiving [] 0 d' \<and>
    take 8 (df_buf d') = got @ xs @ [c]"
  using assms
proof (induction xs arbitrary: u got t d)
  case Nil
  then obtain v where v: "imet645_getchar u = (Some c, v)" "bus_in v" "incoming v = []" using getchar_incoming[of u] by auto
  then show ?case using recv_uc_last[OF Nil.prems(3), of c] Nil.prems(4) by (auto simp: DownlinkRecv_loop.simps[of u])
next
  case (Cons b xs)
  obtain v where v: "imet645_getchar u = (Some b, v)" "bus_in v" "incoming v = xs @ [c]" using getchar_incoming[OF Cons.prems(1)] Cons.prems(2) by auto
  obtain d' where d: "recv_uc b d = (False, d')" "receiving (got @ [b]) (if got = [] then 0 else t) d'"
    using recv_uc_next[OF Cons.prems(3), of b] Cons.prems(4) by auto
  show ?case using Cons.IH[OF v(2,3) d(2)] Cons.prems(4) by (simp add: DownlinkRecv_loop.simps[of u] v(1) d(1))
qed

lemma DownTimerProc_receiving:
  assumes "receiving got t d" "t + 1 < downlink_timeout"
  shows "receiving got (t + 1) (DownTimerProc d)"
  using assms by (auto simp: receiving_def DownTimerProc_def Let_def DownlinkClearState_def SetDownTimer_def)

lemma DownTimerProc_idle: "receiving [] t d \<Longrightarrow> receiving [] t' (DownTimerProc d)"
  by (auto simp: receiving_def DownTimerProc_def Let_def DownlinkClearState_def SetDownTimer_def)

lemma DownTimerProc_timeout: "receiving got t d \<Longrightarrow> downlink_timeout \<le> t + 1 \<Longrightarrow> receiving [] t' (DownTimerProc d)"
  by (auto simp: receiving_def DownTimerProc_def Let_def DownlinkClearState_def SetDownTimer_def split: if_splits)

lemma UplinkModBusTask_recv:
  "DownlinkRecv_loop u (DownTimerProc d) = (rtn, u', d') \<Longrightarrow> UplinkModBusTask False (u, d, v) =
    (if rtn = 0 then map_option (\<lambda>v. (u', d', v)) (SvrMessageProcModBus (take 8 (df_buf d')) v) else Some (u', d', v))"
  by (simp add: UplinkModBusTask_def DownlinkRecvPkt645_def)

lemma receiving_Nil: "receiving [] t d \<longleftrightarrow> idle d" by (auto simp: receiving_def idle_def)

lemma round_part:
  assumes "bus_ready RS485I u" "ua_cache u = []" "pieces rs" "receiving got t (DownTimerProc d)" "length got + length (concat rs) < 8"
  shows "\<exists>u' d'. UplinkModBusTask False (u\<lparr>ua_reads := rs\<rparr>, d, v) = Some (u', d', v) \<and> bus_ready RS485I u' \<and> ua_cache u' = [] \<and>
    receiving (got @ concat rs) (if got = [] then 0 else t) d'"
proof -
  have "bus_in (u\<lparr>ua_reads := rs\<rparr>)" "incoming (u\<lparr>ua_reads := rs\<rparr>) = concat rs"
    using assms(1-3) by (auto simp: bus_in_def bus_ready_def incoming_def)
  from DownlinkRecv_loop_part[OF this assms(4,5)] obtain u' d' where
    r: "DownlinkRecv_loop (u\<lparr>ua_reads := rs\<rparr>) (DownTimerProc d) = (1, u', d')" "bus_in u'" "incoming u' = []"
      "receiving (got @ concat rs) (if got = [] then 0 else t) d'" by blast
  then show ?thesis using UplinkModBusTask_recv[OF r(1), of v] by (auto simp: bus_in_def incoming_def)
qed

lemma round_whole:
  assumes "bus_ready RS485I u" "ua_cache u = []" "pieces rs" "receiving got t (DownTimerProc d)" "length got + length (concat rs) = 8"
    "concat rs \<noteq> []"
  shows "\<exists>u' d'. UplinkModBusTask False (u\<lparr>ua_reads := rs\<rparr>, d, v) = map_option (\<lambda>v. (u', d', v)) (SvrMessageProcModBus (got @ concat rs) v) \<and>
    bus_ready RS485I u' \<and> ua_cache u' = [] \<and> idle d'"
proof -
  define xs where "xs = butlast (concat rs)"
  define c where "c = last (concat rs)"
  have x: "concat rs = xs @ [c]" using assms(6) by (simp add: xs_def c_def)
  have "bus_in (u\<lparr>ua_reads := rs\<rparr>)" "incoming (u\<lparr>ua_reads := rs\<rparr>) = xs @ [c]"
    using assms(1-3) x by (auto simp: bus_in_def bus_ready_def incoming_def)
  from DownlinkRecv_loop_whole[OF this assms(4)] assms(5) x obtain u' d' where
    r: "DownlinkRecv_loop (u\<lparr>ua_reads := rs\<rparr>) (DownTimerProc d) = (0, u', d')" "bus_in u'" "incoming u' = []"
      "receiving [] 0 d'" "take 8 (df_buf d') = got @ concat rs" by auto
  then show ?thesis using UplinkModBusTask_recv[OF r(1), of v] by (auto simp: bus_in_def incoming_def receiving_Nil)
qed

lemma modbus_rounds_idle:
  assumes "bus_ready RS485I u" "ua_cache u = []" "idle d" "concat (concat rss) = []" "\<forall>rs\<in>set rss. pieces rs"
  shows "\<exists>u' d'. modbus_rounds rss (u, d, v) = Some (u', d', v) \<and> bus_ready RS485I u' \<and> ua_cache u' = [] \<and> idle d'"
  using assms
proof (induction rss arbitrary: u d)
  case (Cons rs rss)
  then have "concat rs = []" "pieces rs" "receiving [] 0 (DownTimerProc d)"
    using DownTimerProc_idle[of 0 d 0] by (auto simp: receiving_Nil)
  with Cons.prems round_part[of u rs "[]" 0 d v] obtain u' d' where
    "UplinkModBusTask False (u\<lparr>ua_reads := rs\<rparr>, d, v) = Some (u', d', v)" "bus_ready RS485I u'" "ua_cache u' = []" "idle d'"
    by (auto simp: receiving_Nil)
  with Cons show ?case by simp
qed simp

lemma modbus_rounds_answer:
  assumes "bus_ready RS485I u" "ua_cache u = []" "receiving got t d" "concat (concat rss) \<noteq> []"
    "length got + length (concat (concat rss)) = 8" "\<forall>rs\<in>set rss. pieces rs"
    "if got = [] then int (length (dropWhile ((=) []) rss)) \<le> downlink_timeout else t + int (length rss) < downlink_timeout"
  shows "\<exists>u' d'. modbus_rounds rss (u, d, v) = map_option (\<lambda>v. (u', d', v)) (SvrMessageProcModBus (got @ concat (concat rss)) v) \<and>
    bus_ready RS485I u' \<and> ua_cache u' = [] \<and> idle d'"
  using assms
proof (induction rss arbitrary: u d got t)
  case (Cons rs rss)
  have p: "pieces rs" "\<forall>rs\<in>set rss. pieces rs" using Cons.prems(6) by auto
  have d: "receiving got (if got = [] then 0 else t + 1) (DownTimerProc d)"
    using DownTimerProc_receiving[OF Cons.prems(3)] DownTimerProc_idle[of t d 0] Cons.prems(3,7) by (auto split: if_splits)
  show ?case
  proof (cases "concat (concat rss) = []")
    case True
    have c: "concat rs \<noteq> []" "length got + length (concat rs) = 8"
      using Cons.prems(4,5) unfolding concat.simps(2) concat_append True by simp_all
    obtain u' d' where r: "UplinkModBusTask False (u\<lparr>ua_reads := rs\<rparr>, d, v) =
          map_option (\<lambda>v. (u', d', v)) (SvrMessageProcModBus (got @ concat rs) v)" "bus_ready RS485I u'" "ua_cache u' = []" "idle d'"
      using round_whole[OF Cons.prems(1,2) p(1) d c(2,1), of v] by blast
    have g: "concat (concat (rs # rss)) = concat rs" unfolding concat.simps(2) concat_append True by simp
    show ?thesis
    proof (cases "SvrMessageProcModBus (got @ concat rs) v")
      case None
      then show ?thesis unfolding g using r by auto
    next
      case (Some w)
      then show ?thesis unfolding g using r modbus_rounds_idle[OF r(2-4) True p(2), of w] by auto
    qed
  next
    case False
    have l: "length got + length (concat rs) < 8" 
      using Cons.prems(5) False length_greater_0_conv[THEN iffD2, OF False] by (simp only: concat.simps(2) concat_append length_append)
    obtain u' d' where r: "UplinkModBusTask False (u\<lparr>ua_reads := rs\<rparr>, d, v) = Some (u', d', v)" "bus_ready RS485I u'" "ua_cache u' = []"
        "receiving (got @ concat rs) (if got = [] then 0 else if got = [] then 0 else t + 1) d'"
      using round_part[OF Cons.prems(1,2) p(1) d l, of v] by blast
    have n: "concat rs = [] \<longleftrightarrow> rs = []" using p(1) by (cases rs) (auto simp: pieces_def)
    have t: "if got @ concat rs = [] then int (length (dropWhile ((=) []) rss)) \<le> downlink_timeout
        else (if got = [] then 0 else if got = [] then 0 else t + 1) + int (length rss) < downlink_timeout"
      using Cons.prems(7) by (simp only: append_is_Nil_conv n dropWhile.simps) (auto split: if_splits)
    show ?thesis using Cons.IH[OF r(2,3,4) False _ p(2) t] Cons.prems(5) r(1) by auto
  qed
qed simp

text \<open>A part of a frame is dropped when the time is over.\<close>

lemma modbus_rounds_timeout:
  assumes "bus_ready RS485I u" "ua_cache u = []" "receiving got t d" "length got < 8" "t + int n \<ge> downlink_timeout"
  shows "\<exists>u' d'. modbus_rounds (replicate n []) (u, d, v) = Some (u', d', v) \<and> (n > 0 \<longrightarrow> idle d')"
  using assms
proof (induction n arbitrary: u d t)
  case (Suc n)
  have p: "pieces []" "length got + length (concat ([]::bytes list)) < 8" using Suc.prems(4) by (auto simp: pieces_def)
  show ?case
  proof (cases "got = [] \<or> downlink_timeout \<le> t + 1")
    case True
    then have d: "receiving [] 0 (DownTimerProc d)"
      using DownTimerProc_timeout[OF Suc.prems(3)] DownTimerProc_idle Suc.prems(3) by blast
    then obtain u' d' where "UplinkModBusTask False (u\<lparr>ua_reads := []\<rparr>, d, v) = Some (u', d', v)" "bus_ready RS485I u'" "ua_cache u' = []" "idle d'"
      using round_part[OF Suc.prems(1,2) p(1) d, of v] by (auto simp: receiving_Nil)
    then show ?thesis using modbus_rounds_idle[of u' d' "replicate n []" v] by (auto simp: pieces_def)
  next
    case False
    then have d: "receiving got (t + 1) (DownTimerProc d)" using DownTimerProc_receiving[OF Suc.prems(3)] by simp
    obtain u' d' where "UplinkModBusTask False (u\<lparr>ua_reads := []\<rparr>, d, v) = Some (u', d', v)" "bus_ready RS485I u'" "ua_cache u' = []"
        "receiving got (t + 1) d'"
      using round_part[OF Suc.prems(1,2) p(1) d p(2), of v] False by auto
    moreover have "n > 0" "t + 1 + int n \<ge> downlink_timeout" using False Suc.prems(5) by auto
    ultimately show ?thesis using Suc.IH[of u' "t + 1" d'] Suc.prems(4) by auto
  qed
qed simp

text \<open>The answer of a lock.\<close>

lemma length_mdb_put [simp]: "length (MdbCurData (mdb_put k b v)) = length (MdbCurData v)" by (simp add: mdb_put_def)

lemma SvrCommNote_data [simp]: "MdbCurData (SvrCommNote nid v) = MdbCurData v" by (simp add: SvrCommNote_def)

lemma ModBusLocksState_exact:
  fixes pkt v
  defines "i \<equiv> unat (pkt ! 0)" and "w \<equiv> ModBusLocksState pkt v"
  assumes "length (MdbCurData v) = MDBCUR_SIZE * (MAX_METER_dl + 1)"
  shows "MdbCurData w = (MdbCurData v)[9 * i := pkt ! 0, 9 * i + 2 := pkt ! 2, 9 * i + 4 := pkt ! 3, 9 * i + 6 := pkt ! 4, 9 * i + 8 := pkt ! 5]"
    "UpdateSensorId w = int i" "SvrCommNoteId w = SvrCommNoteId v OR SVRNOTEID_UPSENSOR"
proof -
  have n: "mdb_runstate i 1 = 9 * i + 2" "mdb_runstate i 3 = 9 * i + 4" "mdb_runstate i 5 = 9 * i + 6" "mdb_runstate i 7 = 9 * i + 8" "mdb_addr i = 9 * i"
    by (simp_all add: mdb_runstate_def mdb_addr_def MDBCUR_SIZE_def nat_add_distrib nat_mult_distrib)
  have s: "\<not> (sint SVRNOTEID_UPSENSOR < 2 \<or> sint SVRNOTEID_UPSENSOR > 0x40)" by code_simp
  show "MdbCurData w = (MdbCurData v)[9 * i := pkt ! 0, 9 * i + 2 := pkt ! 2, 9 * i + 4 := pkt ! 3, 9 * i + 6 := pkt ! 4, 9 * i + 8 := pkt ! 5]"
    by (simp add: w_def ModBusLocksState_def Let_def i_def[symmetric] n mdb_put_def)
  show "UpdateSensorId w = int i" "SvrCommNoteId w = SvrCommNoteId v OR SVRNOTEID_UPSENSOR"
    using s by (simp_all add: w_def ModBusLocksState_def Let_def i_def[symmetric] SvrCommNote_def mdb_put_def)
qed

subsection \<open>Properties\<close>

text \<open>C14: an answer of 8 bytes is received whatever the pieces and the rounds it comes in, when at most 20 rounds pass from its first
  piece to its last; it is processed although its checksum is never looked at. The answer of a lock changes exactly its address and
  its four bytes of state, one from the second sensor makes an access to a wrong address, and a part of a frame is dropped within
  20 rounds.\<close>

theorem answers_received:
  assumes "bus_ready RS485I u" "ua_cache u = []" "idle d" "length (MdbCurData v) = MDBCUR_SIZE * (MAX_METER_dl + 1)"
  shows
    "(\<forall>rss pkt. (\<forall>rs\<in>set rss. pieces rs) \<and> concat (concat rss) = pkt \<and> length pkt = 8 \<and>
        int (length (dropWhile ((=) []) rss)) \<le> downlink_timeout \<longrightarrow>
      (\<exists>u' d'. modbus_rounds rss (u, d, v) = map_option (\<lambda>v'. (u', d', v')) (SvrMessageProcModBus pkt v) \<and> idle d') \<and>
      (pkt ! 1 = 0x85 \<longrightarrow> (\<exists>u' d' v' i. modbus_rounds rss (u, d, v) = Some (u', d', v') \<and> i = unat (pkt ! 0) \<and> UpdateSensorId v' = int i \<and>
        MdbCurData v' = (MdbCurData v)[9 * i := pkt ! 0, 9 * i + 2 := pkt ! 2, 9 * i + 4 := pkt ! 3, 9 * i + 6 := pkt ! 4, 9 * i + 8 := pkt ! 5])) \<and>
      (pkt ! 1 = 0x83 \<and> pkt ! 0 = 0xf1 \<longrightarrow> modbus_rounds rss (u, d, v) = None)) \<and>
     (\<forall>rs n. pieces rs \<and> length (concat rs) < 8 \<and> int n \<ge> downlink_timeout \<longrightarrow>
      (\<exists>u' d'. modbus_rounds (rs # replicate n []) (u, d, v) = Some (u', d', v) \<and> idle d'))"
proof -
  have r: "receiving [] 0 d" using assms(3) by (simp add: receiving_Nil)
  have f: "\<exists>u' d'. modbus_rounds rss (u, d, v) = map_option (\<lambda>v'. (u', d', v')) (SvrMessageProcModBus (concat (concat rss)) v) \<and> idle d'"
    if "\<forall>rs\<in>set rss. pieces rs" "length (concat (concat rss)) = 8" "int (length (dropWhile ((=) []) rss)) \<le> downlink_timeout" for rss
    using modbus_rounds_answer[OF assms(1,2) r _ _ that(1), of v] that(2,3) by (cases "concat (concat rss) = []") auto
  have lock: "SvrMessageProcModBus pkt v = Some (ModBusLocksState pkt v)" if "pkt ! 1 = 0x85" for pkt
    using that by (simp add: SvrMessageProcModBus_def)
  have s2: "SvrMessageProcModBus pkt v = None" if "pkt ! 1 = 0x83" "pkt ! 0 = 0xf1" for pkt
    using that by (simp add: SvrMessageProcModBus_def ModBusTempHum_def Let_def)
  have t: "\<exists>u' d'. modbus_rounds (rs # replicate n []) (u, d, v) = Some (u', d', v) \<and> idle d'"
    if "pieces rs" "length (concat rs) < 8" "int n \<ge> downlink_timeout" for rs n
  proof -
    have "receiving [] 0 (DownTimerProc d)" using DownTimerProc_idle[OF r] .
    from round_part[OF assms(1,2) that(1) this, of v] that(2) obtain u' d' where
      1: "UplinkModBusTask False (u\<lparr>ua_reads := rs\<rparr>, d, v) = Some (u', d', v)" "bus_ready RS485I u'" "ua_cache u' = []" "receiving (concat rs) 0 d'"
      by auto
    have "n > 0" using that(3) by (auto simp: downlink_timeout_def)
    then show ?thesis using modbus_rounds_timeout[OF 1(2-4) that(2), of n v] that(3) 1(1) by auto
  qed
  show ?thesis
  proof (intro conjI allI impI)
    fix rss pkt
    assume a: "(\<forall>rs\<in>set rss. pieces rs) \<and> concat (concat rss) = pkt \<and> length pkt = 8 \<and> int (length (dropWhile ((=) []) rss)) \<le> downlink_timeout"
    then obtain u' d' where g: "modbus_rounds rss (u, d, v) = map_option (\<lambda>v'. (u', d', v')) (SvrMessageProcModBus pkt v)" "idle d'"
      using f by blast
    show "\<exists>u' d'. modbus_rounds rss (u, d, v) = map_option (\<lambda>v'. (u', d', v')) (SvrMessageProcModBus pkt v) \<and> idle d'" using g by blast
    show "\<exists>u' d' v' i. modbus_rounds rss (u, d, v) = Some (u', d', v') \<and> i = unat (pkt ! 0) \<and> UpdateSensorId v' = int i \<and>
        MdbCurData v' = (MdbCurData v)[9 * i := pkt ! 0, 9 * i + 2 := pkt ! 2, 9 * i + 4 := pkt ! 3, 9 * i + 6 := pkt ! 4, 9 * i + 8 := pkt ! 5]"
      if "pkt ! 1 = 0x85" using g lock[OF that] ModBusLocksState_exact[OF assms(4), of pkt] by auto
    show "modbus_rounds rss (u, d, v) = None" if "pkt ! 1 = 0x83 \<and> pkt ! 0 = 0xf1" using g s2 that by simp
  next
    fix rs n
    assume "pieces rs \<and> length (concat rs) < 8 \<and> downlink_timeout \<le> int n"
    then show "\<exists>u' d'. modbus_rounds (rs # replicate n []) (u, d, v) = Some (u', d', v) \<and> idle d'" using t by blast
  qed
qed

theorem answers_received_witness:
  "\<exists>u' d' v'. modbus_rounds [[], [[5, 0x85, 1], [0]], [], [[1, 0, 9, 9]]]
      (\<lparr>ua_fid = 3, ua_cache = [], ua_reads = [], ua_sent = []\<rparr>,
       \<lparr>df_buf = replicate 1152 0, df_pos = 0, df_cnt = 0, df_maxlen = 0, df_stat = 0, dt_cnt = 0, dt_max = 0, dt_flag = False\<rparr>,
       \<lparr>MdbCurData = replicate (MDBCUR_SIZE * (MAX_METER_dl + 1)) 0, UpdateSensorId = 0, SvrCommNoteId = 0\<rparr>) = Some (u', d', v') \<and> UpdateSensorId v' = 5"
proof -
  define rss :: "bytes list list" where "rss = [[], [[5, 0x85, 1], [0]], [], [[1, 0, 9, 9]]]"
  define u where "u = \<lparr>ua_fid = 3, ua_cache = [], ua_reads = [], ua_sent = []\<rparr>"
  define d where "d = \<lparr>df_buf = replicate 1152 0, df_pos = 0, df_cnt = 0, df_maxlen = 0, df_stat = 0, dt_cnt = 0, dt_max = 0, dt_flag = False\<rparr>"
  define v where "v = \<lparr>MdbCurData = replicate (MDBCUR_SIZE * (MAX_METER_dl + 1)) 0, UpdateSensorId = 0, SvrCommNoteId = 0\<rparr>"
  have h: "bus_ready RS485I u" "ua_cache u = []" "idle d" "length (MdbCurData v) = MDBCUR_SIZE * (MAX_METER_dl + 1)"
    by (simp_all add: bus_ready_def u_def RS485I_def RS485_PORTNUM_def idle_def d_def v_def)
  have c: "(\<forall>rs\<in>set rss. pieces rs) \<and> concat (concat rss) = [5, 0x85, 1, 0, 1, 0, 9, 9] \<and> length ([5, 0x85, 1, 0, 1, 0, 9, 9]::bytes) = 8 \<and>
      int (length (dropWhile ((=) []) rss)) \<le> downlink_timeout"
    by (simp add: rss_def pieces_def UART_RCVBUF_SIZE_def downlink_timeout_def)
  show ?thesis using answers_received[OF h, THEN conjunct1, rule_format, OF c, THEN conjunct2, THEN conjunct1]
    unfolding rss_def u_def d_def v_def by auto
qed

end
