(* ===== verification/Qrcode.thy ===== *)
theory Qrcode
  imports Downlink
begin

text \<open>
  The reader of codes at the doors (\<open>downlink/qrcode.c\<close>): decrypting a code, checking it against the
  device and the time, opening the doors, and one round of the task. The doors of the lockers are
  opened by the requests of \<open>pltask.c\<close>; the state of \<open>Downlink\<close> is shared with it. The current date and the
  device id of \<open>ParaTermG\<close> are arguments. An access outside an array is \<open>None\<close>.
\<close>

definition ERROR_QRCODETIMEOUT :: int where "ERROR_QRCODETIMEOUT = 1"
definition ERROR_QRCODEUNKNOWN :: int where "ERROR_QRCODEUNKNOWN = 2"

record qrcode_pkt_t =
  qp_reader :: bytes
  qp_usercode :: bytes
  qp_starttime :: sysclock_t
  qp_endtime :: sysclock_t
  qp_code :: bytes
  qp_door :: "int list"

record qrstate =
  SanMessageOut :: bytes
  qrcodedata :: qrcode_pkt_t
  qr_plc :: plc
  qr_uart :: uart
  GPIO_DOOR :: "bool list"

definition ShiftMM :: "nat list" where
  "ShiftMM = [3, 14, 20, 50, 30, 2, 44, 1, 32, 38, 3, 46, 37, 8, 41, 45, 33, 31, 43, 44]"

subsection \<open>Decrypting\<close>

text \<open>The state of the loops is \<open>e\<close>, \<open>f\<close> and the buffer that is written.\<close>

definition shift_less :: "nat \<Rightarrow> nat \<Rightarrow> u8 \<Rightarrow> bytes \<Rightarrow> nat \<Rightarrow> nat \<times> nat \<times> bytes \<Rightarrow> nat \<times> nat \<times> bytes" where
  "shift_less a b n TempMessage j st =
     (case st of (e, f, San) \<Rightarrow>
        let f = (if j = a then f + 1 else f)
        in if j = b then (e + 1, f, San[e := n]) else (e + 1, f + 1, San[e := TempMessage ! f]))"

definition shift_greater :: "nat \<Rightarrow> nat \<Rightarrow> u8 \<Rightarrow> bytes \<Rightarrow> nat \<Rightarrow> nat \<times> nat \<times> bytes \<Rightarrow> nat \<times> nat \<times> bytes" where
  "shift_greater a b n TempMessage j st =
     (case st of (e, f, San) \<Rightarrow>
        if j = b then (e + 1, f, San[e := n])
        else let f = (if j = a then f + 1 else f) in (e + 1, f + 1, San[e := TempMessage ! f]))"

text \<open>The last case would copy 67 bytes of buffers of 66.\<close>

definition Decrypt_step :: "nat \<Rightarrow> bytes \<times> bytes \<Rightarrow> (bytes \<times> bytes) option" where
  "Decrypt_step i st =
     (case st of (TempMessage, San) \<Rightarrow>
        let TempMessage = take 58 San @ drop 58 TempMessage;
            b = i - 1;
            a = ShiftMM ! b
        in if a < b then
             (case fold (shift_less a b (TempMessage ! a) TempMessage) [0..<65] (0, 0, San) of (_, _, San) \<Rightarrow> Some (TempMessage, San))
           else if a > b then
             (case fold (shift_greater a b (TempMessage ! (a - 1)) TempMessage) [0..<65] (0, 0, San) of (_, _, San) \<Rightarrow> Some (TempMessage, San))
           else None)"

fun Decrypt_loop :: "nat \<Rightarrow> bytes \<times> bytes \<Rightarrow> (bytes \<times> bytes) option" where
  "Decrypt_loop 0 st = Some st"
| "Decrypt_loop (Suc i) st = Option.bind (Decrypt_step (Suc i) st) (Decrypt_loop i)"

definition Decrypt :: "bytes \<Rightarrow> nat \<Rightarrow> bytes \<Rightarrow> (int \<times> bytes) option" where
  "Decrypt bufSrc Len San =
     (case find (\<lambda>i. bufSrc ! i = of_char (CHR ''U'')) [0..<Len] of
        None \<Rightarrow> Some (- 1, San)
      | Some i \<Rightarrow>
          map_option (\<lambda>(_, San). (0, San))
            (Decrypt_loop 20 (replicate 66 0, take 58 (drop (i + 1) bufSrc) @ drop 58 San)))"

subsection \<open>Checking\<close>

definition qr_byte :: "bytes \<Rightarrow> nat \<Rightarrow> u8" where "qr_byte San k = San ! k * 10 + San ! (k + 1)"

definition qr_clock :: "bytes \<Rightarrow> nat \<Rightarrow> sysclock_t" where
  "qr_clock San k =
     \<lparr>c_year = qr_byte San k, c_month = qr_byte San (k + 2), c_day = qr_byte San (k + 4), c_hour = qr_byte San (k + 6),
      c_minute = qr_byte San (k + 8), c_second = qr_byte San (k + 10), c_week = 0\<rparr>"

definition qr_door :: "bytes \<Rightarrow> nat \<Rightarrow> int" where
  "qr_door San k = uint (San ! k) * 100 + uint (San ! (k + 1)) * 10 + uint (San ! (k + 2))"

definition checkqrcodedata :: "sysclock_t \<Rightarrow> bytes \<Rightarrow> qrstate \<Rightarrow> int \<times> qrstate" where
  "checkqrcodedata currenttime deviceid q =
     (let San = SanMessageOut q;
          usercode = of_char (CHR ''U'') # take 11 San;
          San = take 11 San @ map (\<lambda>c. c - 0x30) (take 47 (drop 11 San)) @ drop 58 San;
          data = \<lparr>qp_reader = [0, 0], qp_usercode = usercode, qp_starttime = qr_clock San 13, qp_endtime = qr_clock San 27,
            qp_code = take 7 (drop 39 San), qp_door = [qr_door San 46, qr_door San 49, qr_door San 52, qr_door San 55]\<rparr>;
          timespan = SysClockDifference currenttime (qp_endtime data);
          spanyear = uint (c_year currenttime) - uint (c_year (qp_endtime data));
          p = (if spanyear > 2 \<or> spanyear < - 2 then (qr_plc q)\<lparr>plc_system := plc_system (qr_plc q) @ [''hwclock -s'']\<rparr> else qr_plc q);
          q = q\<lparr>SanMessageOut := San, qrcodedata := data, qr_plc := p\<rparr>
      in if qp_code data \<noteq> take 7 deviceid then (ERROR_QRCODEUNKNOWN, q)
         else if timespan > 0 then (ERROR_QRCODETIMEOUT, q)
         else (0, q))"

definition qrcodeValidity :: "sysclock_t \<Rightarrow> bytes \<Rightarrow> bytes \<Rightarrow> qrstate \<Rightarrow> (int \<times> qrstate) option" where
  "qrcodeValidity currenttime deviceid qrcode q =
     (case Decrypt qrcode 66 (SanMessageOut q) of
        None \<Rightarrow> None
      | Some (rtn, San) \<Rightarrow>
          let q = q\<lparr>SanMessageOut := San\<rparr>
          in if rtn = 0 then Some (checkqrcodedata currenttime deviceid q) else Some (- 1, q))"

subsection \<open>Opening\<close>

definition is_reader :: "string \<Rightarrow> bytes \<Rightarrow> bool" where
  "is_reader name bs \<longleftrightarrow> take 2 bs = bytes_of name"

definition open_close :: "qrstate \<Rightarrow> qrstate" where
  "open_close q = q\<lparr>GPIO_DOOR := GPIO_DOOR q @ [True, False]\<rparr>"

definition set_scene :: "qrstate \<Rightarrow> qrstate" where
  "set_scene q = q\<lparr>qr_plc := (qr_plc q)\<lparr>SceneOnId := 1\<rparr>\<rparr>"

definition add_door :: "int \<Rightarrow> nat \<times> ctrlcabinet_t list \<Rightarrow> nat \<times> ctrlcabinet_t list" where
  "add_door door st =
     (case st of (devnum, cs) \<Rightarrow>
        if door \<noteq> 0 then
          (devnum + 1, cs[devnum := (cs ! devnum)\<lparr>cc_addr := word_of_int door, cc_runstate := (cc_runstate (cs ! devnum))[0 := 0x88]\<rparr>])
        else (devnum, cs))"

definition OpenDoor :: "qrstate \<Rightarrow> qrstate" where
  "OpenDoor q =
     (let reader = qp_reader (qrcodedata q) in
      if is_reader ''GM'' reader then
        (case fold add_door (qp_door (qrcodedata q)) (0, ctrlstate (qr_plc q)) of
           (devnum, cs) \<Rightarrow> q\<lparr>qr_plc := (qr_plc q)\<lparr>ctrlstate := cs, ctrlnum := int devnum\<rparr>\<rparr>)
      else if is_reader ''JM'' reader then open_close (set_scene q)
      else if is_reader ''CM'' reader then open_close q
      else q)"

definition PlayVoice_qr :: "int \<Rightarrow> qrstate \<Rightarrow> qrstate" where
  "PlayVoice_qr code q =
     (let reader = qp_reader (qrcodedata q);
          (cmd, timeout) =
            (if code = ERROR_QRCODETIMEOUT then (reader @ bytes_of ''speek timeout'', 10)
             else if code = ERROR_QRCODEUNKNOWN then (reader @ bytes_of ''speek failed'', 6)
             else if code = 0 then (reader @ bytes_of ''speek resultok'', 6)
             else ([], MusicPauseTmeout (qr_plc q)))
      in q\<lparr>qr_plc := (qr_plc q)\<lparr>MusicPauseTmeout := timeout\<rparr>, qr_uart := snd (Rs485Send 0 cmd (qr_uart q))\<rparr>)"

subsection \<open>The task\<close>

definition QRBUF_SIZE :: nat where "QRBUF_SIZE = 512"

text \<open>The reads of a round go behind one another into the buffer, each for up to 512 bytes.\<close>

function qr_recv :: "bytes \<Rightarrow> uart \<Rightarrow> (bytes \<times> uart) option" where
  "qr_recv got u =
     (case Rs485Recv 0 512 u of
        (rtn, bs, u) \<Rightarrow>
          if rtn > 0 then (if length got + length bs > QRBUF_SIZE then None else qr_recv (got @ bs) u)
          else Some (got, u))"
  by pat_completeness auto
termination
  by (relation "measure (\<lambda>(_, u). waiting_bytes u)") (auto dest: Rs485Recv_waiting[of _ 511, simplified, OF sym])

declare qr_recv.simps [simp del]

definition set_reader :: "string \<Rightarrow> qrstate \<Rightarrow> qrstate" where
  "set_reader name q = q\<lparr>qrcodedata := (qrcodedata q)\<lparr>qp_reader := bytes_of name\<rparr>\<rparr>"

definition pause_music :: "qrstate \<Rightarrow> qrstate" where
  "pause_music q = q\<lparr>qr_plc := setvolume 0 ((qr_plc q)\<lparr>MusicPause := True\<rparr>)\<rparr>"

definition scanned :: "sysclock_t \<Rightarrow> bytes \<Rightarrow> bytes \<Rightarrow> qrstate \<Rightarrow> qrstate option" where
  "scanned currenttime deviceid buf q =
     (if is_reader ''GM'' buf then
        map_option (\<lambda>(ret, q).
            let q = PlayVoice_qr ret (pause_music (set_reader ''GM'' q)) in if ret = 0 then OpenDoor q else q)
          (qrcodeValidity currenttime deviceid buf q)
      else if is_reader ''JM'' buf then
        map_option (\<lambda>(ret, q).
            let q = set_reader ''JM'' q; q = (if ret = 0 then OpenDoor q else q) in PlayVoice_qr ret q)
          (qrcodeValidity currenttime deviceid buf q)
      else if is_reader ''CM'' buf then
        map_option (\<lambda>(ret, q).
            let q = pause_music (set_reader ''CM'' q); q = (if ret = 0 then OpenDoor q else q) in PlayVoice_qr ret q)
          (qrcodeValidity currenttime deviceid buf q)
      else Some q)"

definition QrCodeTask :: "sysclock_t \<Rightarrow> bytes \<Rightarrow> qrstate \<Rightarrow> qrstate option" where
  "QrCodeTask currenttime deviceid q =
     (case qr_recv [] (qr_uart q) of
        None \<Rightarrow> None
      | Some (got, u) \<Rightarrow>
          let q = q\<lparr>qr_uart := u\<rparr>;
              qrcodebuf = got @ replicate (QRBUF_SIZE - length got) 0
          in if length got > 50 then scanned currenttime deviceid qrcodebuf q
             else if length got > 0 then
               (let str = cstr (string_of qrcodebuf) in
                if str = ''JMTAOTAOADMIN2350'' then Some (open_close (set_scene q))
                else if str = ''CMTAOTAOADMIN2350'' then Some (open_close q)
                else Some q)
             else Some q)"

subsection \<open>Specification\<close>

text \<open>The reference: the element at one place is taken out and put in at another.\<close>

definition move :: "nat \<Rightarrow> nat \<Rightarrow> 'a list \<Rightarrow> 'a list" where
  "move p q xs = (let ys = take p xs @ drop (Suc p) xs in take q ys @ xs ! p # drop q ys)"

definition shift_src :: "nat \<Rightarrow> nat" where
  "shift_src b = (if ShiftMM ! b < b then ShiftMM ! b else ShiftMM ! b - 1)"

text \<open>The moves of the decryption, from the last table entry to the first, and those of the encryption.\<close>

fun decrypt_ref :: "nat \<Rightarrow> bytes \<Rightarrow> bytes" where
  "decrypt_ref 0 xs = xs"
| "decrypt_ref (Suc b) xs = decrypt_ref b (move (shift_src b) b xs)"

fun encrypt_ref :: "nat \<Rightarrow> bytes \<Rightarrow> bytes" where
  "encrypt_ref 0 xs = xs"
| "encrypt_ref (Suc b) xs = move b (shift_src b) (encrypt_ref b xs)"

definition uc_U :: u8 where "uc_U = of_char (CHR ''U'')"

subsection \<open>What a code says\<close>

text \<open>The plain text of a scanned code, its fields with the digits as numbers, and when it opens.\<close>

definition scanned_code :: "bytes \<Rightarrow> bytes option" where
  "scanned_code buf =
     map_option (\<lambda>i. decrypt_ref 20 (take 58 (drop (i + 1) buf))) (find (\<lambda>i. buf ! i = uc_U) [0..<66])"

definition qr_fields :: "bytes \<Rightarrow> bytes" where
  "qr_fields plain = take 11 plain @ map (\<lambda>c. c - 0x30) (drop 11 plain)"

definition qr_doors :: "bytes \<Rightarrow> int list" where
  "qr_doors plain = map (qr_door (qr_fields plain)) [46, 49, 52, 55]"

definition granted :: "sysclock_t \<Rightarrow> bytes \<Rightarrow> bytes \<Rightarrow> bool" where
  "granted now deviceid plain \<longleftrightarrow>
     take 7 (drop 39 (qr_fields plain)) = take 7 deviceid \<and> SysClockDifference now (qr_clock (qr_fields plain) 27) \<le> 0"

definition code_opens :: "sysclock_t \<Rightarrow> bytes \<Rightarrow> bytes \<Rightarrow> bool" where
  "code_opens now deviceid buf \<longleftrightarrow> (case scanned_code buf of None \<Rightarrow> False | Some plain \<Rightarrow> granted now deviceid plain)"

definition admin_code :: "bytes \<Rightarrow> bool" where
  "admin_code buf \<longleftrightarrow> cstr (string_of buf) \<in> {''JMTAOTAOADMIN2350'', ''CMTAOTAOADMIN2350''}"

definition qr_buf :: "bytes \<Rightarrow> bytes" where "qr_buf got = got @ replicate (QRBUF_SIZE - length got) 0"

subsection \<open>The requests of a code\<close>

definition open_request :: "int \<Rightarrow> ctrlcabinet_t \<Rightarrow> ctrlcabinet_t" where
  "open_request d c = c\<lparr>cc_addr := word_of_int d, cc_runstate := (cc_runstate c)[0 := 0x88]\<rparr>"

definition open_requests :: "int list \<Rightarrow> ctrlcabinet_t list \<Rightarrow> ctrlcabinet_t list" where
  "open_requests ds cs = map2 open_request ds cs @ drop (length ds) cs"

definition same_bus :: "plc \<Rightarrow> plc \<Rightarrow> bool" where
  "same_bus p p' \<longleftrightarrow> PlcModuleNo p' = PlcModuleNo p \<and> plcreading p' = plcreading p \<and> PlcMetRegisting p' = PlcMetRegisting p \<and>
     TempHumsensor1 p' = TempHumsensor1 p \<and> TempHumsensor2 p' = TempHumsensor2 p"

definition qr_result :: "bool \<Rightarrow> int list option \<Rightarrow> qrstate \<Rightarrow> qrstate \<Rightarrow> bool" where
  "qr_result door cabinets q q' \<longleftrightarrow> length (SanMessageOut q') = 66 \<and> same_bus (qr_plc q) (qr_plc q') \<and>
     GPIO_DOOR q' = GPIO_DOOR q @ (if door then [True, False] else []) \<and>
     (case cabinets of
        None \<Rightarrow> ctrlnum (qr_plc q') = ctrlnum (qr_plc q) \<and> ctrlstate (qr_plc q') = ctrlstate (qr_plc q)
      | Some ds \<Rightarrow> ctrlnum (qr_plc q') = int (length ds) \<and> ctrlstate (qr_plc q') = open_requests ds (ctrlstate (qr_plc q)))"

text \<open>The frames of a code, apart from those of the cabinets with an address above 255.\<close>

definition open_frames :: "int list \<Rightarrow> ctrlcabinet_t list \<Rightarrow> bytes list" where
  "open_frames ds cs =
     map (\<lambda>(d, c). request (word_of_int d) 5 (0x88 # take 3 (tl (cc_runstate c)))) (filter (\<lambda>(d, c). d \<le> 255) (zip ds cs))"

text \<open>A code of the device 1234567 that ends with the year 2030, for the cabinets 5 and 12.\<close>

definition sample_plain :: bytes where
  "sample_plain = bytes_of (''1234567890120'' @ ''200101000000'' @ ''20'' @ ''301231235959'' @ ''1234567'' @ ''005012000000'')"

definition sample_code :: "string \<Rightarrow> bytes" where
  "sample_code reader = bytes_of reader @ uc_U # encrypt_ref 20 sample_plain"

definition sample_now :: sysclock_t where
  "sample_now = \<lparr>c_year = 26, c_month = 1, c_day = 1, c_hour = 12, c_minute = 0, c_second = 0, c_week = 4\<rparr>"

definition sample_cabinets :: "ctrlcabinet_t list" where
  "sample_cabinets = replicate 4 \<lparr>cc_addr = 0, cc_runstate = [0, 0, 0, 0]\<rparr>"

definition sample_plc :: plc where
  "sample_plc = \<lparr>TempHumsensor1 = 0, TempHumsensor2 = 0, TempHumsensorTimerId1 = - 1, TempHumsensorTimerId2 = - 1, ctrlnum = 0,
     ctrlstate = sample_cabinets, PlcModuleNo = 0, PlcMetRegisting = False, PlcMetReading = False, plcreading = False, SceneOnId = 0,
     SceneOffId = 0, MusicPause = False, MusicPauseTmeout = 0, musicstart = False, musicname = [], musicid = 0, plc_system = []\<rparr>"

definition sample_qr :: "string \<Rightarrow> qrstate" where
  "sample_qr reader =
     \<lparr>SanMessageOut = replicate 66 0,
      qrcodedata = \<lparr>qp_reader = [0, 0], qp_usercode = [], qp_starttime = zero_basetime, qp_endtime = zero_basetime, qp_code = [], qp_door = []\<rparr>,
      qr_plc = sample_plc, qr_uart = \<lparr>ua_fid = 3, ua_cache = [], ua_reads = [sample_code reader], ua_sent = []\<rparr>, GPIO_DOOR = []\<rparr>"

subsection \<open>Lemmas\<close>

lemma length_move [simp]: "p < length xs \<Longrightarrow> q < length xs \<Longrightarrow> length (move p q xs) = length xs"
  by (simp add: move_def Let_def)

lemma nth_move:
  assumes "p < length xs" "q < length xs" "j < length xs"
  shows "move p q xs ! j =
    (if j = q then xs ! p
     else if p < q then (if p \<le> j \<and> j < q then xs ! Suc j else xs ! j)
     else (if q < j \<and> j \<le> p then xs ! (j - 1) else xs ! j))"
  using assms by (auto simp: move_def Let_def nth_append nth_Cons' min_def)

lemma move_move: "p < length xs \<Longrightarrow> q < length xs \<Longrightarrow> move p q (move q p xs) = xs"
  by (rule nth_equalityI) (auto simp: nth_move)

lemma ShiftMM_table: "b < 20 \<Longrightarrow> ShiftMM ! b \<noteq> b \<and> 0 < ShiftMM ! b \<and> ShiftMM ! b < 58"
proof -
  have "\<forall>b\<in>set [0..<20]. ShiftMM ! b \<noteq> b \<and> 0 < ShiftMM ! b \<and> ShiftMM ! b < 58" by code_simp
  then show "b < 20 \<Longrightarrow> ?thesis" by simp
qed

lemma shift_src_lt: "b < 20 \<Longrightarrow> shift_src b < 58" using ShiftMM_table[of b] by (auto simp: shift_src_def)

lemma length_decrypt_ref [simp]: "b \<le> 20 \<Longrightarrow> length xs = 58 \<Longrightarrow> length (decrypt_ref b xs) = 58"
  by (induction b arbitrary: xs) (auto simp: shift_src_lt)

lemma length_encrypt_ref [simp]: "b \<le> 20 \<Longrightarrow> length xs = 58 \<Longrightarrow> length (encrypt_ref b xs) = 58"
  by (induction b) (auto simp: shift_src_lt)

lemma decrypt_encrypt_ref: "b \<le> 20 \<Longrightarrow> length xs = 58 \<Longrightarrow> decrypt_ref b (encrypt_ref b xs) = xs"
  by (induction b) (auto simp: shift_src_lt move_move)

lemma encrypt_decrypt_ref: "b \<le> 20 \<Longrightarrow> length xs = 58 \<Longrightarrow> encrypt_ref b (decrypt_ref b xs) = xs"
  by (induction b arbitrary: xs) (auto simp: shift_src_lt move_move)

text \<open>The loops of a step.\<close>

lemma map_upt_update: "e < length xs \<Longrightarrow> (map g [0..<e] @ drop e xs)[e := x] = map g [0..<e] @ x # drop (Suc e) xs"
  by (simp add: list_update_append Cons_nth_drop_Suc[symmetric])

lemma shift_less_fold:
  assumes "a < b" "m \<le> length San"
  shows "fold (shift_less a b n T) [0..<m] (0, 0, San) =
    (m, if m \<le> a then m else if m \<le> b then m + 1 else m,
     map (\<lambda>j. if j = b then n else if a \<le> j \<and> j < b then T ! Suc j else T ! j) [0..<m] @ drop m San)"
  using assms(2)
proof (induction m)
  case 0
  then show ?case using assms(1) by simp
next
  case (Suc m)
  then show ?case using assms(1)
    by (auto simp: shift_less_def map_upt_update)
qed

lemma shift_greater_fold:
  assumes "b < a" "m \<le> length San"
  shows "fold (shift_greater a b n T) [0..<m] (0, 0, San) =
    (m, if m \<le> b then m else if m \<le> a then m - 1 else m,
     map (\<lambda>j. if j = b then n else if b < j \<and> j < a then T ! (j - 1) else T ! j) [0..<m] @ drop m San)"
  using assms(2)
proof (induction m)
  case 0
  then show ?case using assms(1) by simp
next
  case (Suc m)
  then show ?case using assms(1)
    by (auto simp: shift_greater_def map_upt_update)
qed

lemma Decrypt_step_move:
  assumes "b < 20" "length T = 66" "drop 58 T = replicate 8 0" "length San = 66"
  shows "\<exists>T'. length T' = 66 \<and> drop 58 T' = replicate 8 0 \<and>
    Decrypt_step (Suc b) (T, San) = Some (T', move (shift_src b) b (take 58 San) @ replicate 7 0 @ drop 65 San)"
proof -
  define T' where "T' = take 58 San @ drop 58 T"
  have l: "length T' = 66" "drop 58 T' = replicate 8 0" using assms by (auto simp: T'_def)
  have n: "T' ! j = (if j < 58 then San ! j else 0)" if "j < 65" for j
    using that assms by (simp add: T'_def nth_append)
  have m: "map g [0..<65] = move (shift_src b) b (take 58 San) @ replicate 7 (0::u8)"
    if "\<And>j. j < 65 \<Longrightarrow> g j = (if j < 58 then move (shift_src b) b (take 58 San) ! j else 0)" for g
    using assms that by (intro nth_equalityI) (auto simp: nth_append shift_src_lt)
  note t = ShiftMM_table[OF assms(1)] shift_src_lt[OF assms(1)]
  show ?thesis
  proof (cases "ShiftMM ! b < b")
    case True
    have "map (\<lambda>j. if j = b then T' ! (ShiftMM ! b) else if ShiftMM ! b \<le> j \<and> j < b then T' ! Suc j else T' ! j) [0..<65]
      = move (shift_src b) b (take 58 San) @ replicate 7 0"
      using assms t True by (intro m) (auto simp: n nth_move shift_src_def)
    then show ?thesis using True assms(4) l
      by (intro exI[of _ T']) (simp add: Decrypt_step_def Let_def T'_def[symmetric] shift_less_fold)
  next
    case False
    have "map (\<lambda>j. if j = b then T' ! (ShiftMM ! b - 1) else if b < j \<and> j < ShiftMM ! b then T' ! (j - 1) else T' ! j) [0..<65]
      = move (shift_src b) b (take 58 San) @ replicate 7 0"
      using assms t False by (intro m) (auto simp: n nth_move shift_src_def)
    then show ?thesis using False t assms(4) l
      by (intro exI[of _ T']) (simp add: Decrypt_step_def Let_def T'_def[symmetric] shift_greater_fold del: One_nat_def)
  qed
qed

lemma Decrypt_loop_ref:
  assumes "b \<le> 20" "length T = 66" "drop 58 T = replicate 8 0" "length xs = 58" "length ys = 8" "take 7 ys = replicate 7 0"
  shows "\<exists>T'. Decrypt_loop b (T, xs @ ys) = Some (T', decrypt_ref b xs @ ys)"
  using assms
proof (induction b arbitrary: T xs)
  case (Suc b)
  then obtain T' where T': "length T' = 66" "drop 58 T' = replicate 8 0"
      "Decrypt_step (Suc b) (T, xs @ ys) = Some (T', move (shift_src b) b xs @ replicate 7 0 @ drop 7 ys)"
    using Decrypt_step_move[of b T "xs @ ys"] by auto
  have "replicate 7 0 @ drop 7 ys = ys" using append_take_drop_id[of 7 ys] Suc.prems(6) by simp
  then show ?case using Suc.IH[of T' "move (shift_src b) b xs"] Suc.prems T' by (simp add: shift_src_lt)
qed simp

text \<open>Twenty steps on the buffer as it is found.\<close>

lemma Decrypt_loop_20:
  assumes "length xs = 58" "length ys = 8"
  shows "\<exists>T'. Decrypt_loop 20 (replicate 66 0, xs @ ys) = Some (T', decrypt_ref 20 xs @ replicate 7 0 @ drop 7 ys)"
proof -
  obtain T' where T': "length T' = 66" "drop 58 T' = replicate 8 0"
      "Decrypt_step (Suc 19) (replicate 66 0, xs @ ys) = Some (T', move (shift_src 19) 19 xs @ replicate 7 0 @ drop 7 ys)"
    using Decrypt_step_move[of 19 "replicate 66 0" "xs @ ys"] assms by auto
  obtain T'' where "Decrypt_loop 19 (T', move (shift_src 19) 19 xs @ replicate 7 0 @ drop 7 ys)
      = Some (T'', decrypt_ref 19 (move (shift_src 19) 19 xs) @ replicate 7 0 @ drop 7 ys)"
    using Decrypt_loop_ref[of 19 T' "move (shift_src 19) 19 xs" "replicate 7 0 @ drop 7 ys"] T' assms
    by (auto simp: shift_src_lt)
  then have "Decrypt_loop (Suc 19) (replicate 66 0, xs @ ys) = Some (T'', decrypt_ref (Suc 19) xs @ replicate 7 0 @ drop 7 ys)"
    using T' by (simp only: Decrypt_loop.simps decrypt_ref.simps bind.simps)
  moreover have "(20::nat) = Suc 19" by simp
  ultimately show ?thesis by metis
qed

lemma find_upt_first: "i < n \<Longrightarrow> (\<And>j. j < i \<Longrightarrow> \<not> P j) \<Longrightarrow> P i \<Longrightarrow> find P [0..<n] = Some i"
  by (auto simp: find_Some_iff)

lemma Decrypt_first:
  assumes "pre @ uc_U # cs = src" "uc_U \<notin> set pre" "length pre < n" "length cs \<ge> 58" "length San = 66"
  shows "Decrypt src n San = Some (0, decrypt_ref 20 (take 58 cs) @ replicate 7 0 @ drop 65 San)"
proof -
  have f: "find (\<lambda>i. src ! i = of_char (CHR ''U'')) [0..<n] = Some (length pre)"
  proof (rule find_upt_first)
    show "\<not> src ! j = of_char (CHR ''U'')" if "j < length pre" for j
      using that assms(1,2) by (auto simp: nth_append uc_U_def in_set_conv_nth)
  qed (use assms in \<open>auto simp: nth_append uc_U_def\<close>)
  have d: "take 58 (drop (length pre + 1) src) = take 58 cs" using assms(1) by auto
  have l: "length (take 58 cs) = 58" "length (drop 58 San) = 8" using assms by auto
  show ?thesis using Decrypt_loop_20[OF l] unfolding Decrypt_def f option.case d by auto
qed

lemma Decrypt_scanned:
  assumes "length buf = QRBUF_SIZE" "length San = 66"
  shows "Decrypt buf 66 San = Some (case scanned_code buf of None \<Rightarrow> (- 1, San) | Some plain \<Rightarrow> (0, plain @ replicate 7 0 @ drop 65 San))"
proof (cases "find (\<lambda>i. buf ! i = uc_U) [0..<66]")
  case None
  then show ?thesis by (simp add: Decrypt_def scanned_code_def uc_U_def)
next
  case (Some i)
  then have i: "i < 66" by (auto simp: find_Some_iff)
  have l: "length (take 58 (drop (i + 1) buf)) = 58" "length (drop 58 San) = 8" using assms i by (auto simp: QRBUF_SIZE_def)
  show ?thesis using Decrypt_loop_20[OF l] unfolding Decrypt_def scanned_code_def uc_U_def[symmetric] Some option.case option.map by auto
qed

lemma scanned_code_length: "length buf = QRBUF_SIZE \<Longrightarrow> scanned_code buf = Some plain \<Longrightarrow> length plain = 58"
  by (auto simp: scanned_code_def QRBUF_SIZE_def find_Some_iff intro!: length_decrypt_ref)

lemma qr_byte_append: "k + 1 < length xs \<Longrightarrow> qr_byte (xs @ ys) k = qr_byte xs k"
  by (simp add: qr_byte_def nth_append)

lemma qr_clock_append: "k + 11 < length xs \<Longrightarrow> qr_clock (xs @ ys) k = qr_clock xs k"
  by (simp add: qr_clock_def qr_byte_append)

lemma qr_door_append: "k + 2 < length xs \<Longrightarrow> qr_door (xs @ ys) k = qr_door xs k"
  by (simp add: qr_door_def nth_append)

lemma length_qr_fields [simp]: "length (qr_fields plain) = length plain" by (simp add: qr_fields_def)

lemma checkqrcodedata_granted:
  assumes "SanMessageOut q = plain @ rest" "length plain = 58"
  shows "\<exists>ret q' sys. checkqrcodedata now deviceid q = (ret, q') \<and> (ret = 0 \<longleftrightarrow> granted now deviceid plain) \<and>
    length (SanMessageOut q') = length (SanMessageOut q) \<and> qr_uart q' = qr_uart q \<and> GPIO_DOOR q' = GPIO_DOOR q \<and>
    qr_plc q' = (qr_plc q)\<lparr>plc_system := sys\<rparr> \<and> qp_door (qrcodedata q') = qr_doors plain"
proof -
  have f: "take 11 (plain @ rest) @ map (\<lambda>c. c - 0x30) (take 47 (drop 11 (plain @ rest))) @ drop 58 (plain @ rest) = qr_fields plain @ rest"
    using assms(2) by (simp add: qr_fields_def)
  have c: "take 7 (drop 39 (qr_fields plain @ rest)) = take 7 (drop 39 (qr_fields plain))" using assms(2) by simp
  have d: "qr_clock (qr_fields plain @ rest) 27 = qr_clock (qr_fields plain) 27"
      "[qr_door (qr_fields plain @ rest) 46, qr_door (qr_fields plain @ rest) 49, qr_door (qr_fields plain @ rest) 52, qr_door (qr_fields plain @ rest) 55]
       = qr_doors plain"
    using assms(2) by (simp_all add: qr_clock_append qr_door_append qr_doors_def)
  have s: "(if b then p\<lparr>plc_system := x\<rparr> else p) = p\<lparr>plc_system := (if b then x else plc_system p)\<rparr>" for b p x by simp
  have e: "ERROR_QRCODEUNKNOWN \<noteq> 0" "ERROR_QRCODETIMEOUT \<noteq> 0" by (simp_all add: ERROR_QRCODEUNKNOWN_def ERROR_QRCODETIMEOUT_def)
  show ?thesis unfolding checkqrcodedata_def assms(1) Let_def f qrcode_pkt_t.select_convs c d s granted_def
    using assms(2) e by (auto split: if_splits intro: exI[of _ "plc_system (qr_plc q)"])
qed

lemma qrcodeValidity_exact:
  assumes "length buf = QRBUF_SIZE" "length (SanMessageOut q) = 66"
  shows "\<exists>ret q' sys. qrcodeValidity now deviceid buf q = Some (ret, q') \<and> (ret = 0 \<longleftrightarrow> code_opens now deviceid buf) \<and>
    length (SanMessageOut q') = 66 \<and> qr_uart q' = qr_uart q \<and> GPIO_DOOR q' = GPIO_DOOR q \<and>
    qr_plc q' = (qr_plc q)\<lparr>plc_system := sys\<rparr> \<and> (ret = 0 \<longrightarrow> qp_door (qrcodedata q') = qr_doors (the (scanned_code buf)))"
proof (cases "scanned_code buf")
  case None
  then show ?thesis using assms
    by (auto simp: qrcodeValidity_def Decrypt_scanned code_opens_def intro: exI[of _ "plc_system (qr_plc q)"])
next
  case (Some plain)
  define q1 where "q1 = q\<lparr>SanMessageOut := plain @ replicate 7 0 @ drop 65 (SanMessageOut q)\<rparr>"
  have l: "length plain = 58" using scanned_code_length[OF assms(1) Some] .
  obtain ret q' sys where c: "checkqrcodedata now deviceid q1 = (ret, q')" "ret = 0 \<longleftrightarrow> granted now deviceid plain"
      "length (SanMessageOut q') = length (SanMessageOut q1)" "qr_uart q' = qr_uart q1" "GPIO_DOOR q' = GPIO_DOOR q1"
      "qr_plc q' = (qr_plc q1)\<lparr>plc_system := sys\<rparr>" "qp_door (qrcodedata q') = qr_doors plain"
    using checkqrcodedata_granted[of q1 plain "replicate 7 0 @ drop 65 (SanMessageOut q)" now deviceid] l by (auto simp: q1_def)
  have "qrcodeValidity now deviceid buf q = Some (ret, q')"
    using Some c(1) by (simp add: qrcodeValidity_def Decrypt_scanned[OF assms] q1_def)
  then show ?thesis using c Some l assms(2) by (auto simp: code_opens_def q1_def)
qed

lemma fold_add_door:
  "n + length (filter (\<lambda>d. d \<noteq> 0) ds) \<le> length cs \<Longrightarrow>
   fold add_door ds (n, cs) = (n + length (filter (\<lambda>d. d \<noteq> 0) ds), take n cs @ open_requests (filter (\<lambda>d. d \<noteq> 0) ds) (drop n cs))"
proof (induction ds arbitrary: n cs)
  case Nil
  then show ?case by (simp add: open_requests_def)
next
  case (Cons d ds)
  show ?case
  proof (cases "d = 0")
    case True
    then show ?thesis using Cons by (simp add: add_door_def)
  next
    case False
    then have n: "n < length cs" "Suc n + length (filter (\<lambda>d. d \<noteq> 0) ds) \<le> length (cs[n := open_request d (cs ! n)])"
      using Cons.prems by auto
    have "take (Suc n) (cs[n := open_request d (cs ! n)]) = take n cs @ [open_request d (cs ! n)]"
      using n(1) by (simp add: take_Suc_conv_app_nth)
    then show ?thesis using Cons.IH[OF n(2)] False n(1)
      by (simp add: add_door_def open_request_def[symmetric] open_requests_def Cons_nth_drop_Suc[symmetric])
  qed
qed

lemma fold_add_door_start:
  "length ds \<le> length cs \<Longrightarrow> fold add_door ds (0, cs) = (length (filter (\<lambda>d. d \<noteq> 0) ds), open_requests (filter (\<lambda>d. d \<noteq> 0) ds) cs)"
  using fold_add_door[of 0 ds cs] length_filter_le[of "\<lambda>d. d \<noteq> 0" ds] by simp

subsection \<open>One round\<close>

lemma qr_recv_bound: "qr_recv got u = Some (g, v) \<Longrightarrow> length got \<le> QRBUF_SIZE \<Longrightarrow> length g \<le> QRBUF_SIZE"
proof (induction got u rule: qr_recv.induct)
  case (1 got u)
  obtain rtn bs w where r: "Rs485Recv 0 512 u = (rtn, bs, w)" by (cases "Rs485Recv 0 512 u")
  show ?case using 1 r by (simp add: qr_recv.simps[of got u] split: if_splits)
qed

lemma length_qr_buf: "length got \<le> QRBUF_SIZE \<Longrightarrow> length (qr_buf got) = QRBUF_SIZE" by (simp add: qr_buf_def)

text \<open>What the round does to the door, the cabinets and the rest that the tasks of the bus read.\<close>

lemma is_reader_unique: "is_reader a bs \<Longrightarrow> is_reader b bs \<Longrightarrow> length a = length b \<Longrightarrow> a = b"
  unfolding is_reader_def by (metis string_of_bytes_of)

lemma readers_differ: "is_reader a bs \<Longrightarrow> length a = length b \<Longrightarrow> a \<noteq> b \<Longrightarrow> \<not> is_reader b bs"
  using is_reader_unique by blast

lemma is_reader_bytes_of [simp]: "length b = 2 \<Longrightarrow> is_reader a (bytes_of b) \<longleftrightarrow> a = b"
  unfolding is_reader_def by (metis length_bytes_of order_refl string_of_bytes_of take_all)

lemma scanned_exact:
  assumes "length buf = QRBUF_SIZE" "length (SanMessageOut q) = 66" "length (ctrlstate (qr_plc q)) = 4"
  shows "\<exists>q'. scanned now deviceid buf q = Some q' \<and>
    qr_result (code_opens now deviceid buf \<and> (is_reader ''JM'' buf \<or> is_reader ''CM'' buf))
      (if code_opens now deviceid buf \<and> is_reader ''GM'' buf then Some (filter (\<lambda>d. d \<noteq> 0) (qr_doors (the (scanned_code buf)))) else None) q q'"
proof -
  obtain ret q1 sys where v: "qrcodeValidity now deviceid buf q = Some (ret, q1)" "ret = 0 \<longleftrightarrow> code_opens now deviceid buf"
      "length (SanMessageOut q1) = 66" "qr_uart q1 = qr_uart q" "GPIO_DOOR q1 = GPIO_DOOR q"
      "qr_plc q1 = (qr_plc q)\<lparr>plc_system := sys\<rparr>" "ret = 0 \<longrightarrow> qp_door (qrcodedata q1) = qr_doors (the (scanned_code buf))"
    using qrcodeValidity_exact[OF assms(1,2), of now deviceid] by blast
  have l: "length (qr_doors (the (scanned_code buf))) \<le> length (ctrlstate (qr_plc q))" using assms(3) by (simp add: qr_doors_def)
  note defs = qr_result_def same_bus_def set_reader_def pause_music_def setvolume_def PlayVoice_qr_def OpenDoor_def open_close_def set_scene_def Let_def
  consider "is_reader ''GM'' buf" | "is_reader ''JM'' buf" | "is_reader ''CM'' buf"
    | "\<not> is_reader ''GM'' buf" "\<not> is_reader ''JM'' buf" "\<not> is_reader ''CM'' buf" by blast
  then show ?thesis
  proof cases
    case 1
    then have "\<not> is_reader ''JM'' buf" "\<not> is_reader ''CM'' buf" using readers_differ[OF 1] by simp_all
    then show ?thesis using 1 v fold_add_door_start[OF l] by (cases "ret = 0") (simp_all add: scanned_def defs split: prod.splits)
  next
    case 2
    then have "\<not> is_reader ''GM'' buf" "\<not> is_reader ''CM'' buf" using readers_differ[OF 2] by simp_all
    then show ?thesis using 2 v by (cases "ret = 0") (simp_all add: scanned_def defs split: prod.splits)
  next
    case 3
    then have "\<not> is_reader ''GM'' buf" "\<not> is_reader ''JM'' buf" using readers_differ[OF 3] by simp_all
    then show ?thesis using 3 v by (cases "ret = 0") (simp_all add: scanned_def defs split: prod.splits)
  next
    case 4
    then show ?thesis using assms by (simp add: scanned_def defs)
  qed
qed

lemma QrCodeTask_exact:
  assumes "qr_recv [] (qr_uart q) = Some (got, u)" "length (SanMessageOut q) = 66" "length (ctrlstate (qr_plc q)) = 4"
  shows "\<exists>q'. QrCodeTask now deviceid q = Some q' \<and>
    qr_result (if length got > 50 then code_opens now deviceid (qr_buf got) \<and> (is_reader ''JM'' got \<or> is_reader ''CM'' got)
        else got \<noteq> [] \<and> admin_code (qr_buf got))
      (if length got > 50 \<and> code_opens now deviceid (qr_buf got) \<and> is_reader ''GM'' got
       then Some (filter (\<lambda>d. d \<noteq> 0) (qr_doors (the (scanned_code (qr_buf got))))) else None) q q'"
proof -
  have b: "length got \<le> QRBUF_SIZE" using qr_recv_bound[OF assms(1)] by simp
  have r: "is_reader name (qr_buf got) \<longleftrightarrow> is_reader name got" if "length got > 50" for name
    using that by (simp add: is_reader_def qr_buf_def)
  show ?thesis
  proof (cases "length got > 50")
    case True
    define q1 where "q1 = q\<lparr>qr_uart := u\<rparr>"
    have l: "length (SanMessageOut q1) = 66" "length (ctrlstate (qr_plc q1)) = 4" using assms by (simp_all add: q1_def)
    have t: "QrCodeTask now deviceid q = scanned now deviceid (qr_buf got) q1"
      using True by (simp add: QrCodeTask_def assms(1) Let_def qr_buf_def q1_def)
    have e: "qr_result d c q1 q' = qr_result d c q q'" for d c q' by (cases c) (simp_all add: qr_result_def same_bus_def q1_def)
    show ?thesis unfolding t
      using True scanned_exact[OF length_qr_buf[OF b] l, of now deviceid] by (simp add: r[OF True] e)
  next
    case False
    then show ?thesis using assms
      by (simp add: QrCodeTask_def Let_def qr_buf_def[symmetric] admin_code_def qr_result_def same_bus_def open_close_def set_scene_def)
  qed
qed

lemma door_requests_open:
  assumes "length ds \<le> length cs" "\<forall>c\<in>set cs. length (cc_runstate c) \<ge> 4" "\<forall>d\<in>set ds. 0 \<le> d \<and> d < 65536"
  shows "door_requests (take (length ds) (open_requests ds cs)) = open_frames ds cs"
  using assms
proof (induction ds arbitrary: cs)
  case Nil
  then show ?case by (simp add: door_requests_def open_frames_def)
next
  case (Cons d ds)
  then obtain c cs' where c: "cs = c # cs'" by (cases cs) auto
  have u: "unat (word_of_int d :: u16) \<le> MAX_METER_dl \<longleftrightarrow> d \<le> 255"
    using Cons.prems(3) by (simp add: MAX_METER_dl_def unsigned_of_int take_bit_eq_mod nat_le_iff)
  have l: "length (cc_runstate c) \<ge> 4" using Cons.prems(2) c by simp
  then have t: "take 4 ((cc_runstate c)[0 := 0x88]) = take 4 (0x88 # take 3 (tl (cc_runstate c)))"
    by (cases "cc_runstate c") (simp_all add: numeral_eq_Suc)
  have "door_requests (take (length ds) (open_requests ds cs')) = open_frames ds cs'"
    using Cons.IH[of cs'] Cons.prems by (simp add: c)
  then show ?case using u t by (auto simp: c open_requests_def door_requests_def open_frames_def open_request_def request_def)
qed

lemma qr_doors_range: "d \<in> set (qr_doors plain) \<Longrightarrow> 0 \<le> d \<and> d < 65536"
proof -
  have "0 \<le> qr_door xs k \<and> qr_door xs k < 65536" for xs k
    using uint_bounded[of "xs ! k"] uint_bounded[of "xs ! (k + 1)"] uint_bounded[of "xs ! (k + 2)"] by (simp add: qr_door_def)
  then show "d \<in> set (qr_doors plain) \<Longrightarrow> 0 \<le> d \<and> d < 65536" by (auto simp: qr_doors_def)
qed

lemma scanned_code_encrypt:
  assumes "uc_U \<notin> set pre" "length pre < 66" "length msg = 58"
  shows "scanned_code (pre @ uc_U # encrypt_ref 20 msg @ rest) = Some msg"
proof -
  have f: "find (\<lambda>i. (pre @ uc_U # encrypt_ref 20 msg @ rest) ! i = uc_U) [0..<66] = Some (length pre)"
    using assms by (intro find_upt_first) (auto simp: nth_append in_set_conv_nth)
  show ?thesis unfolding scanned_code_def f using assms by (simp add: decrypt_encrypt_ref)
qed

lemma qr_recv_one:
  assumes "got \<noteq> []" "length got \<le> 512" "fid \<noteq> - 1"
  shows "\<exists>v. qr_recv [] \<lparr>ua_fid = fid, ua_cache = [], ua_reads = [got], ua_sent = out\<rparr> = Some (got, v)"
proof -
  have 1: "Rs485Recv 0 512 \<lparr>ua_fid = fid, ua_cache = [], ua_reads = [got], ua_sent = out\<rparr> =
      (int (length got), got, \<lparr>ua_fid = fid, ua_cache = [], ua_reads = [], ua_sent = out\<rparr>)"
    using assms by (simp add: Rs485Recv_def UartRecv_def UartFill_def Let_def UART_PORTNUM_def RS485_PORTNUM_def UART_RCVBUF_SIZE_def)
  have 2: "Rs485Recv 0 512 \<lparr>ua_fid = fid, ua_cache = [], ua_reads = [], ua_sent = out\<rparr> =
      (0, [], \<lparr>ua_fid = fid, ua_cache = [], ua_reads = [], ua_sent = out\<rparr>)"
    using assms by (simp add: Rs485Recv_def UartRecv_def UartFill_def Let_def UART_PORTNUM_def RS485_PORTNUM_def)
  show ?thesis using assms by (simp add: qr_recv.simps[of "[]"] qr_recv.simps[of got] 1 2 QRBUF_SIZE_def)
qed

lemma sample_facts:
  assumes "reader = ''GM'' \<or> reader = ''JM''"
  shows "length (SanMessageOut (sample_qr reader)) = 66" "length (ctrlstate (qr_plc (sample_qr reader))) = 4"
    "length (sample_code reader) = 61" "is_reader reader (sample_code reader)"
    "scanned_code (qr_buf (sample_code reader)) = Some sample_plain"
    "\<exists>u. qr_recv [] (qr_uart (sample_qr reader)) = Some (sample_code reader, u)"
proof -
  have l: "length sample_plain = 58" by (simp add: sample_plain_def)
  have r: "length reader = 2" "uc_U \<notin> set (bytes_of reader)" using assms by (auto simp: uc_U_def bytes_of_def)
  show "length (SanMessageOut (sample_qr reader)) = 66" "length (ctrlstate (qr_plc (sample_qr reader))) = 4"
    by (simp_all add: sample_qr_def sample_plc_def sample_cabinets_def)
  show n: "length (sample_code reader) = 61" using l r by (simp add: sample_code_def)
  show "is_reader reader (sample_code reader)" using r by (simp add: sample_code_def is_reader_def)
  show "scanned_code (qr_buf (sample_code reader)) = Some sample_plain"
    using scanned_code_encrypt[OF r(2) _ l] r(1) by (simp add: sample_code_def qr_buf_def)
  have "sample_code reader \<noteq> []" by (simp add: sample_code_def)
  then show "\<exists>u. qr_recv [] (qr_uart (sample_qr reader)) = Some (sample_code reader, u)"
    using qr_recv_one[of "sample_code reader" 3 "[]"] n by (simp add: sample_qr_def)
qed

lemma sample_granted:
  "map (\<lambda>k. sample_plain ! k - 0x30) [39..<46] = take 7 [1, 2, 3, 4, 5, 6, 7]"
  "SysClockDifference sample_now (qr_clock (qr_fields sample_plain) 27) \<le> 0"
  "granted sample_now [1, 2, 3, 4, 5, 6, 7] sample_plain"
  "filter (\<lambda>d. d \<noteq> 0) (qr_doors sample_plain) = [5, 12]"
  by code_simp+

subsection \<open>Properties\<close>

text \<open>C39: the decryption takes the 58 bytes behind the first U back to the text they were made from by the moves in reverse, with any
  bytes before and behind, and every code is the encryption of what it decrypts to. No step leaves the buffers.\<close>

theorem Decrypt_roundtrip:
  assumes "uc_U \<notin> set pre" "length pre < 66" "length msg = 58" "length San = 66"
  shows "Decrypt (pre @ uc_U # encrypt_ref 20 msg @ rest) 66 San = Some (0, msg @ replicate 7 0 @ drop 65 San) \<and>
    (\<forall>cs San. length cs = 58 \<and> length San = 66 \<longrightarrow>
       (\<exists>t. Decrypt (pre @ uc_U # cs @ rest) 66 San = Some (0, t) \<and> encrypt_ref 20 (take 58 t) = cs))"
proof -
  have "Decrypt (pre @ uc_U # cs @ rest) 66 San = Some (0, decrypt_ref 20 cs @ replicate 7 0 @ drop 65 San)"
    if "length cs = 58" "length San = 66" for cs San
    using Decrypt_first[OF refl assms(1,2), of "cs @ rest"] that by simp
  then show ?thesis using assms by (auto simp: decrypt_encrypt_ref encrypt_decrypt_ref)
qed

theorem Decrypt_roundtrip_witness:
  "Decrypt ([71, 77] @ uc_U # encrypt_ref 20 (map of_nat [0..<58]) @ [13]) 66 (replicate 66 1) =
     Some (0, map of_nat [0..<58] @ replicate 7 0 @ [1])"
proof -
  have "uc_U \<notin> set [71, 77]" by code_simp
  then show ?thesis using Decrypt_roundtrip[of "[71, 77]" "map of_nat [0..<58]" "replicate 66 1" "[13]"] by simp
qed

text \<open>C1: a round of the task opens the door exactly for one of the two fixed administrator texts, or for more than 50 bytes from a
  reader of the door with a code whose plain text names this device and has an end that is not past; the requests for the cabinets
  change exactly for such a code from the reader of the cabinets. The start of the code plays no part.\<close>

theorem door_opens_exactly:
  assumes "qr_recv [] (qr_uart q) = Some (got, u)" "length (SanMessageOut q) = 66" "length (ctrlstate (qr_plc q)) = 4"
  shows "\<exists>q' authorised.
    QrCodeTask now deviceid q = Some q' \<and>
    authorised = (length got > 50 \<and>
      (case scanned_code (qr_buf got) of
         None \<Rightarrow> False
       | Some plain \<Rightarrow>
           map (\<lambda>k. plain ! k - 0x30) [39..<46] = take 7 deviceid \<and> SysClockDifference now (qr_clock (qr_fields plain) 27) \<le> 0)) \<and>
    GPIO_DOOR q' = GPIO_DOOR q @
      (if authorised \<and> (take 2 got = bytes_of ''JM'' \<or> take 2 got = bytes_of ''CM'') \<or>
          0 < length got \<and> length got \<le> 50 \<and> cstr (string_of (qr_buf got)) \<in> {''JMTAOTAOADMIN2350'', ''CMTAOTAOADMIN2350''}
       then [True, False] else []) \<and>
    (if authorised \<and> take 2 got = bytes_of ''GM''
     then ctrlnum (qr_plc q') = int (length (filter (\<lambda>d. d \<noteq> 0) (qr_doors (the (scanned_code (qr_buf got)))))) \<and>
       ctrlstate (qr_plc q') = open_requests (filter (\<lambda>d. d \<noteq> 0) (qr_doors (the (scanned_code (qr_buf got))))) (ctrlstate (qr_plc q))
     else ctrlnum (qr_plc q') = ctrlnum (qr_plc q) \<and> ctrlstate (qr_plc q') = ctrlstate (qr_plc q))"
proof -
  have b: "length (qr_buf got) = QRBUF_SIZE" using qr_recv_bound[OF assms(1)] length_qr_buf by simp
  have m: "map (\<lambda>k. plain ! k - 0x30) [39..<46] = take 7 (drop 39 (qr_fields plain))" if "length plain = 58" for plain
    using that by (intro nth_equalityI) (auto simp: qr_fields_def nth_append simp del: upt_rec_numeral)
  have g: "code_opens now deviceid (qr_buf got) \<longleftrightarrow>
      (case scanned_code (qr_buf got) of
         None \<Rightarrow> False
       | Some plain \<Rightarrow> map (\<lambda>k. plain ! k - 0x30) [39..<46] = take 7 deviceid \<and> SysClockDifference now (qr_clock (qr_fields plain) 27) \<le> 0)"
    using scanned_code_length[OF b] by (auto simp: code_opens_def granted_def m simp del: upt_rec_numeral split: option.split)
  show ?thesis using QrCodeTask_exact[OF assms, of now deviceid]
    unfolding g[symmetric] qr_result_def is_reader_def admin_code_def
    by (auto split: if_splits)
qed

theorem door_opens_exactly_witness:
  "\<exists>q'. QrCodeTask sample_now [1, 2, 3, 4, 5, 6, 7] (sample_qr ''JM'') = Some q' \<and> GPIO_DOOR q' = [True, False]"
proof -
  note f = sample_facts[of "''JM''", simplified]
  obtain u where u: "qr_recv [] (qr_uart (sample_qr ''JM'')) = Some (sample_code ''JM'', u)" using f(6) by blast
  show ?thesis using door_opens_exactly[OF u f(1,2), of sample_now "[1, 2, 3, 4, 5, 6, 7]"]
    unfolding f(3,5) option.case sample_granted(1) using sample_granted(2) f(4) by (auto simp: is_reader_def sample_qr_def)
qed

text \<open>C2: after a valid code at the reader of the cabinets, the next round of the bus task sends the opening frame of every cabinet the
  code names, in its order, behind the requests of the sensors and apart from the addresses above 255, which are dropped
  silently; then no request is left.\<close>

theorem code_opens_doors:
  assumes "qr_recv [] (qr_uart q) = Some (got, u)" "length (SanMessageOut q) = 66" "length (ctrlstate (qr_plc q)) = 4"
    "length got > 50" "code_opens now deviceid (qr_buf got)" "is_reader ''GM'' got"
    "bus_ready 1 bus" "PlcModuleNo (qr_plc q) = 0" "\<not> plcreading (qr_plc q)" "\<forall>c\<in>set (ctrlstate (qr_plc q)). length (cc_runstate c) \<ge> 4"
  shows "\<exists>q' rbuf' p' v. QrCodeTask now deviceid q = Some q' \<and> GPIO_DOOR q' = GPIO_DOOR q \<and>
    PlcTask_round rbuf (qr_plc q') bus = Inr (rbuf', p', v) \<and>
    ua_sent v = ua_sent bus @ sensor_requests (qr_plc q) @
      open_frames (filter (\<lambda>d. d \<noteq> 0) (qr_doors (the (scanned_code (qr_buf got))))) (ctrlstate (qr_plc q)) \<and>
    ctrlnum p' = 0"
proof -
  define ds where "ds = filter (\<lambda>d. d \<noteq> 0) (qr_doors (the (scanned_code (qr_buf got))))"
  obtain q' where q: "QrCodeTask now deviceid q = Some q'" "qr_result False (Some ds) q q'"
    using QrCodeTask_exact[OF assms(1-3), of now deviceid] assms(4-6) readers_differ[OF assms(6)] by (auto simp: ds_def)
  have n: "length ds \<le> length (ctrlstate (qr_plc q))"
    using assms(3) length_filter_le[of "\<lambda>d. d \<noteq> 0" "qr_doors (the (scanned_code (qr_buf got)))"] by (simp add: ds_def qr_doors_def)
  have p: "ctrlnum (qr_plc q') = int (length ds)" "ctrlstate (qr_plc q') = open_requests ds (ctrlstate (qr_plc q))"
      "PlcModuleNo (qr_plc q') = 0" "\<not> plcreading (qr_plc q')" "sensor_requests (qr_plc q') = sensor_requests (qr_plc q)" "GPIO_DOOR q' = GPIO_DOOR q"
    using q(2) assms(8,9) by (simp_all add: qr_result_def same_bus_def sensor_requests_def)
  have c: "\<forall>c\<in>set (open_requests ds (ctrlstate (qr_plc q))). length (cc_runstate c) \<ge> 4"
    using assms(10) by (auto simp: open_requests_def open_request_def dest: set_zip_rightD in_set_dropD)
  have d: "\<forall>d\<in>set ds. 0 \<le> d \<and> d < 65536" using qr_doors_range by (auto simp: ds_def)
  have k: "ctrlnum (qr_plc q') \<le> int (length (ctrlstate (qr_plc q')))" using n p by (simp add: open_requests_def)
  show ?thesis unfolding ds_def[symmetric]
    using PlcTask_round_sends[OF assms(7) p(3,4) k, of rbuf] c p q(1) door_requests_open[OF n assms(10) d] by auto
qed

theorem code_opens_doors_witness:
  "\<exists>q' rbuf' p' v. QrCodeTask sample_now [1, 2, 3, 4, 5, 6, 7] (sample_qr ''GM'') = Some q' \<and>
     PlcTask_round [] (qr_plc q') \<lparr>ua_fid = 4, ua_cache = [9], ua_reads = [], ua_sent = []\<rparr> = Inr (rbuf', p', v) \<and>
     ua_sent v = [request 5 5 [0x88, 0, 0, 0], request 12 5 [0x88, 0, 0, 0]]"
proof -
  note f = sample_facts[of "''GM''", simplified]
  obtain u where u: "qr_recv [] (qr_uart (sample_qr ''GM'')) = Some (sample_code ''GM'', u)" using f(6) by blast
  have o: "code_opens sample_now [1, 2, 3, 4, 5, 6, 7] (qr_buf (sample_code ''GM''))" by (simp add: code_opens_def f(5) sample_granted(3))
  have p: "PlcModuleNo (qr_plc (sample_qr ''GM'')) = 0" "\<not> plcreading (qr_plc (sample_qr ''GM''))"
      "\<forall>c\<in>set (ctrlstate (qr_plc (sample_qr ''GM''))). length (cc_runstate c) \<ge> 4" "sensor_requests (qr_plc (sample_qr ''GM'')) = []"
      "ctrlstate (qr_plc (sample_qr ''GM'')) = sample_cabinets"
    by (simp_all add: sample_qr_def sample_plc_def sample_cabinets_def sensor_requests_def)
  have b: "bus_ready 1 \<lparr>ua_fid = 4, ua_cache = [9], ua_reads = [], ua_sent = []\<rparr>" by (simp add: bus_ready_def RS485_PORTNUM_def)
  have e: "open_frames [5, 12] sample_cabinets = [request 5 5 [0x88, 0, 0, 0], request 12 5 [0x88, 0, 0, 0]]"
    by (simp add: open_frames_def sample_cabinets_def numeral_eq_Suc)
  have l: "50 < length (sample_code ''GM'')" using f(3) by simp
  show ?thesis using code_opens_doors[OF u f(1,2) l o f(4) b p(1-3), of "[]"]
    unfolding f(5) option.sel sample_granted(4) p(4,5) e by auto
qed

end
