(* ===== verification/Svrcomm.thy ===== *)
theory Svrcomm
  imports Uplink Alarm Downlink
begin

text \<open>
  The task that keeps the connection to the server: the times of the tests (\<open>uplink/keepalive.c\<close>), the notes of
  what is to be sent and their sending (\<open>uplink/svrcomm.c\<close>), the commands of the server (\<open>uplink/svrmsg.c\<close>), the
  connection and the rounds of the task (\<open>uplink/ether.c\<close>), and the events that wake it (\<open>sys/syscall/event.c\<close>). The link
  itself is \<open>Uplink\<close>, the stored events are \<open>Alarm\<close> and the notes and the states of the devices are those of \<open>Downlink\<close>.
  The answers of \<open>connect\<close> are an input of the model: the list the state consumes.
\<close>

definition bind_run :: "'a run \<Rightarrow> ('a \<Rightarrow> 'b run) \<Rightarrow> 'b run" where
  "bind_run r f = (case r of Inl s \<Rightarrow> Inl s | Inr x \<Rightarrow> f x)"

lemma bind_run_simps [simp]: "bind_run (Inl s) f = Inl s" "bind_run (Inr x) f = f x"
  by (simp_all add: bind_run_def)

subsection \<open>Events of the system\<close>

definition SysSendEvent :: "u32 \<Rightarrow> u32 \<Rightarrow> u32" where "SysSendEvent ev pctrl = pctrl OR ev"

text \<open>\<open>None\<close> is a task that goes on waiting.\<close>

definition SysWaitEvent :: "bool \<Rightarrow> u32 \<Rightarrow> u32 \<Rightarrow> (u32 \<times> u32) option" where
  "SysWaitEvent bwait waitmask pctrl =
     (if pctrl AND waitmask \<noteq> 0 then Some (pctrl AND waitmask, pctrl AND NOT waitmask)
      else if bwait then None else Some (0, pctrl))"

subsection \<open>The times of the tests\<close>

record keepalive_stat_t =
  ka_cnt :: int
  ka_cnt_max :: int
  ka_cnt_getcyc :: int
  ka_cnt_retry :: int

text \<open>What the task uses of the parameters, of the music file and of the flags of the wireless network.\<close>

record svr_para =
  sp_link :: link_para
  sp_keepalive_cyc :: u8
  sp_keepalive_sndretry :: u8
  sp_keepalive_dialtime :: u8
  sp_termip_pwd :: bytes
  sp_filedays :: int
  sp_wifi_idle :: bool

definition GetCycKeepAlive :: "svr_para \<Rightarrow> int" where "GetCycKeepAlive p = 10 * 60 * uint (sp_keepalive_cyc p)"

definition TIMEOUT_KEEPALIVE :: int where "TIMEOUT_KEEPALIVE = 600"
definition TIMEOUT_GNOWAIT :: int where "TIMEOUT_GNOWAIT = 600"

definition ClearKeepAlive :: "svr_para \<Rightarrow> keepalive_stat_t" where
  "ClearKeepAlive p = \<lparr>ka_cnt = 0, ka_cnt_max = GetCycKeepAlive p, ka_cnt_getcyc = 0, ka_cnt_retry = 0\<rparr>"

definition keep_again :: "svr_para \<Rightarrow> keepalive_stat_t \<Rightarrow> keepalive_stat_t" where
  "keep_again p k = k\<lparr>ka_cnt := 0, ka_cnt_getcyc := 0, ka_cnt_max := GetCycKeepAlive p\<rparr>"

definition KeepAliveProc :: "svr_para \<Rightarrow> bool \<Rightarrow> keepalive_stat_t \<Rightarrow> int \<times> keepalive_stat_t" where
  "KeepAliveProc p online k =
     (let cnt_maxretry = uint (sp_keepalive_sndretry p AND 0xff);
          cnt_maxretry = (if cnt_maxretry = 0 then 3 else cnt_maxretry)
      in if \<not> online \<and> ka_cnt_max k > 1800 \<and> ka_cnt_retry k < cnt_maxretry then
           (let cnt_timedail = uint (sp_keepalive_dialtime p AND 0xff) * 10;
                cnt_timedail = (if cnt_timedail = 0 then 600 else cnt_timedail);
                k = k\<lparr>ka_cnt := ka_cnt k + 1\<rparr>
            in if ka_cnt k > cnt_timedail then (0, keep_again p k) else (1, k))
         else if ka_cnt_max k \<ge> 100 then
           (let k = k\<lparr>ka_cnt := ka_cnt k + 1\<rparr> in if ka_cnt k > ka_cnt_max k then (0, keep_again p k) else (1, k))
         else
           (let k = k\<lparr>ka_cnt_getcyc := ka_cnt_getcyc k + 1\<rparr>
            in if ka_cnt_getcyc k > TIMEOUT_KEEPALIVE then (0, k\<lparr>ka_cnt_getcyc := 0, ka_cnt_max := GetCycKeepAlive p\<rparr>) else (1, k)))"

definition RefreshKeepAlive :: "svr_para \<Rightarrow> bool \<Rightarrow> bool \<Rightarrow> keepalive_stat_t \<Rightarrow> int \<times> keepalive_stat_t" where
  "RefreshKeepAlive p online havetask k =
     (if online \<and> ka_cnt k \<ge> TIMEOUT_GNOWAIT \<and> havetask then (0, keep_again p k) else (1, k))"

definition KEEPALIVE_FLAG_LOGONFAIL :: u8 where "KEEPALIVE_FLAG_LOGONFAIL = 0"
definition KEEPALIVE_FLAG_LOGONOK :: u8 where "KEEPALIVE_FLAG_LOGONOK = 1"
definition KEEPALIVE_FLAG_TIMEOUT :: u8 where "KEEPALIVE_FLAG_TIMEOUT = 2"

definition SetKeepAlive :: "u8 \<Rightarrow> keepalive_stat_t \<Rightarrow> keepalive_stat_t" where
  "SetKeepAlive flag k =
     (if flag = KEEPALIVE_FLAG_LOGONFAIL then k
      else if flag = KEEPALIVE_FLAG_LOGONOK then k\<lparr>ka_cnt_retry := 0\<rparr>
      else if flag = KEEPALIVE_FLAG_TIMEOUT then k\<lparr>ka_cnt := ka_cnt_max k + 1\<rparr>
      else k)"

subsection \<open>The state of the task\<close>

datatype conn_result = NoSocket | Refused | Connected

record 'e server =
  sv_sock :: 'e
  sv_fsm :: uplink_fsm_t
  sv_snd :: bytes
  sv_keep :: keepalive_stat_t
  sv_event :: u32
  sv_dev :: devices
  sv_alarm :: alarm_state
  sv_connect :: "conn_result list"
  sv_leaked :: nat
  CountFail :: int
  sv_system :: "string list"
  audiourl :: bytes
  UpdateAudiourlFlag :: u8
  DeviceCheckResultFlag :: u8
  login_update_system :: u8
  login_down_musice :: u8
  sv_led_net :: "bool list"

definition SVREV_NOTE :: u32 where "SVREV_NOTE = 1"
definition SVRNOTEID_ALARM :: u32 where "SVRNOTEID_ALARM = 2"

text \<open>\<open>SvrCommNote\<close> with the event that it sends; an invalid number sends none.\<close>

definition SvrCommNote_event :: "u32 \<Rightarrow> sock server \<Rightarrow> sock server" where
  "SvrCommNote_event nid v =
     (if sint nid < 2 \<or> sint nid > 0x40 then v
      else v\<lparr>sv_dev := SvrCommNote nid (sv_dev v), sv_event := SysSendEvent SVREV_NOTE (sv_event v)\<rparr>)"

definition svrcomm_havetask :: "sock server \<Rightarrow> bool" where "svrcomm_havetask v \<longleftrightarrow> SvrCommNoteId (sv_dev v) \<noteq> 0"

definition SvrCommPeekEvent :: "u32 \<Rightarrow> sock server \<Rightarrow> u32 \<times> sock server" where
  "SvrCommPeekEvent waitmask v =
     (case SysWaitEvent False waitmask (sv_event v) of
        Some (ev, ctrl) \<Rightarrow> (ev, v\<lparr>sv_event := ctrl\<rparr>)
      | None \<Rightarrow> (0, v))"

text \<open>A call of the link on the buffers of the interface.\<close>

definition on_link :: "(uplink_fsm_t \<Rightarrow> bytes \<Rightarrow> sock \<Rightarrow> (int \<times> uplink_fsm_t \<times> bytes \<times> sock) run) \<Rightarrow> sock server \<Rightarrow> (int \<times> sock server) run" where
  "on_link f v =
     bind_run (f (sv_fsm v) (sv_snd v) (sv_sock v)) (\<lambda>(rtn, c, pkt, e). Inr (rtn, v\<lparr>sv_fsm := c, sv_snd := pkt, sv_sock := e\<rparr>))"

subsection \<open>Sending what was noted\<close>

text \<open>Frames of eight bytes of data in a local buffer, sent without waiting.\<close>

definition note_pkt :: "u8 \<Rightarrow> bytes \<Rightarrow> bytes \<Rightarrow> bytes" where
  "note_pkt cmd bs buf =
     (let pkt = (FAAL_SETLEN buf 8)[7 := cmd, 0 := 0x68, 6 := 0x68] in take 10 pkt @ bs @ drop 18 pkt)"

definition send_note :: "svr_para \<Rightarrow> bytes \<Rightarrow> sock server \<Rightarrow> (bytes \<times> sock server) run" where
  "send_note p pkt v =
     bind_run (UplinkSendPktG (itf_rawsend ether_itf) (lp_deviceid (sp_link p)) pkt (sv_sock v))
       (\<lambda>(rtn, pkt, e). Inr (pkt, v\<lparr>sv_sock := e\<rparr>))"

fun AlarmProc_sending :: "svr_para \<Rightarrow> nat \<Rightarrow> bytes \<Rightarrow> sock server \<Rightarrow> sock server run" where
  "AlarmProc_sending p 0 buf v = Inl OutOfFuel"
| "AlarmProc_sending p (Suc fuel) buf v =
     (case ActiveSendAlarm (sv_alarm v) of
        (None, al) \<Rightarrow> Inr (v\<lparr>sv_alarm := al\<rparr>)
      | (Some alarmData, al) \<Rightarrow>
          bind_run (send_note p (take 10 buf @ alarmData @ drop 18 buf) (v\<lparr>sv_alarm := al\<rparr>))
            (\<lambda>(buf, v). AlarmProc_sending p fuel buf v))"

definition AlarmProc :: "svr_para \<Rightarrow> nat \<Rightarrow> sock server \<Rightarrow> (int \<times> sock server) run" where
  "AlarmProc p fuel v =
     bind_run (AlarmProc_sending p fuel (note_pkt 0x02 (replicate 8 0) (replicate 256 0)) v)
       (\<lambda>v. Inr (0, if sp_filedays p = 0 \<and> sp_wifi_idle p then v\<lparr>sv_system := sv_system v @ [''wifi up'']\<rparr> else v))"

definition SensorDataProc :: "svr_para \<Rightarrow> sock server \<Rightarrow> (int \<times> sock server) run" where
  "SensorDataProc p v =
     (let sid = UpdateSensorId (sv_dev v);
          runstate = take MAX_RUNSTATE (drop (mdb_runstate (nat sid) 0) (MdbCurData (sv_dev v)))
      in bind_run (send_note p (note_pkt (if sid = 240 then 0x8B else 0x88) runstate (replicate 256 0)) v)
           (\<lambda>(pkt, v). Inr (0, v)))"

definition clear_note :: "u32 \<Rightarrow> sock server \<Rightarrow> sock server" where
  "clear_note bits v = v\<lparr>sv_dev := (sv_dev v)\<lparr>SvrCommNoteId := SvrCommNoteId (sv_dev v) AND NOT bits\<rparr>\<rparr>"

definition has_note :: "u32 \<Rightarrow> sock server \<Rightarrow> bool" where
  "has_note bits v \<longleftrightarrow> bits AND SvrCommNoteId (sv_dev v) \<noteq> 0"

definition SvrNoteProc :: "svr_para \<Rightarrow> nat \<Rightarrow> sock server \<Rightarrow> (int \<times> sock server) run" where
  "SvrNoteProc p fuel v =
     bind_run
       (if has_note SVRNOTEID_ALARM v
        then bind_run (AlarmProc p fuel v) (\<lambda>(rtn, v). Inr (if rtn \<noteq> 0 then (True, v) else (False, clear_note SVRNOTEID_ALARM v)))
        else Inr (False, v))
       (\<lambda>(stopped, v).
          if stopped then Inr (1, v)
          else
            bind_run
              (if has_note SVRNOTEID_UPSENSOR v
               then bind_run (SensorDataProc p (clear_note SVRNOTEID_UPSENSOR v)) (\<lambda>(_, v). Inr v)
               else Inr v)
              (\<lambda>v. Inr (1, clear_note SVREV_NOTE v)))"

subsection \<open>The commands of the server\<close>

definition FAALCMD_LOGIN :: u8 where "FAALCMD_LOGIN = 0x25"
definition FAALCMD_ECHO_LOGIN :: u8 where "FAALCMD_ECHO_LOGIN = 0xa5"
definition FAALCMD_HEARTBEAT :: u8 where "FAALCMD_HEARTBEAT = 0x23"
definition FAALCMD_ECHO_HEARTBEAT :: u8 where "FAALCMD_ECHO_HEARTBEAT = 0xa3"
definition FAALCMD_UPDATEAUDIOSTR :: u8 where "FAALCMD_UPDATEAUDIOSTR = 0x03"
definition FAALCMD_DEVICECHECK :: u8 where "FAALCMD_DEVICECHECK = 0x01"
definition FAALERR_OK :: u8 where "FAALERR_OK = 0"
definition FAALERR_PWERR :: u8 where "FAALERR_PWERR = 3"
definition FAAL_RCVMAX :: nat where "FAAL_RCVMAX = 1024"
definition FAAL_SNDMAX :: nat where "FAAL_SNDMAX = 1024"

definition reply :: "'e uplinkitf_t \<Rightarrow> svr_para \<Rightarrow> bytes \<Rightarrow> 'e server \<Rightarrow> 'e server" where
  "reply pitf p pkt v =
     (case faal_sendpkt (itf_rawsend pitf) FAAL_SNDMAX (lp_deviceid (sp_link p)) pkt (sv_sock v) of
        (_, pkt, e) \<Rightarrow> v\<lparr>sv_snd := pkt, sv_sock := e\<rparr>)"

definition svr_login_terminal :: "'e uplinkitf_t \<Rightarrow> svr_para \<Rightarrow> 'e server \<Rightarrow> (int \<times> 'e server) run" where
  "svr_login_terminal pitf p v =
     (let pu = drop 10 (rcvbuf (sv_fsm v));
          psend = (sv_snd v)[7 := FAALCMD_ECHO_LOGIN]
      in if take 32 (drop 32 pu) = take 32 (sp_termip_pwd p)
         then Inr (0, reply pitf p ((FAAL_SETLEN psend 1)[10 := FAALERR_OK]) v)
         else Inr (0, reply pitf p ((FAAL_SETLEN psend 1)[10 := FAALERR_PWERR]) v))"

definition svr_heart_beat :: "'e uplinkitf_t \<Rightarrow> svr_para \<Rightarrow> 'e server \<Rightarrow> (int \<times> 'e server) run" where
  "svr_heart_beat pitf p v = Inr (0, reply pitf p (FAAL_SETLEN ((sv_snd v)[7 := FAALCMD_ECHO_HEARTBEAT]) 0) v)"

definition svr_update_audio_url :: "'e uplinkitf_t \<Rightarrow> svr_para \<Rightarrow> 'e server \<Rightarrow> (int \<times> 'e server) run" where
  "svr_update_audio_url pitf p v =
     (let precv = rcvbuf (sv_fsm v); datalen = pkt_len precv in
      case put_at (audiourl v) 0 (take datalen (drop 10 precv)) of
        None \<Rightarrow> Inl OutOfBounds
      | Some url \<Rightarrow> Inr (1, v\<lparr>audiourl := url, UpdateAudiourlFlag := 1\<rparr>))"

definition svr_device_check_result :: "'e uplinkitf_t \<Rightarrow> svr_para \<Rightarrow> 'e server \<Rightarrow> (int \<times> 'e server) run" where
  "svr_device_check_result pitf p v = Inr (0, v\<lparr>DeviceCheckResultFlag := rcvbuf (sv_fsm v) ! 10\<rparr>)"

definition g_srvmsg_flist :: "'e uplinkitf_t \<Rightarrow> (u8 \<times> (svr_para \<Rightarrow> 'e server \<Rightarrow> (int \<times> 'e server) run)) list" where
  "g_srvmsg_flist pitf =
     [(FAALCMD_LOGIN, svr_login_terminal pitf), (FAALCMD_HEARTBEAT, svr_heart_beat pitf),
      (FAALCMD_UPDATEAUDIOSTR, svr_update_audio_url pitf), (FAALCMD_DEVICECHECK, svr_device_check_result pitf)]"

definition SvrMessageProc :: "'e uplinkitf_t \<Rightarrow> svr_para \<Rightarrow> 'e server \<Rightarrow> 'e server run" where
  "SvrMessageProc pitf p v =
     (let precv = rcvbuf (sv_fsm v);
          v = v\<lparr>sv_snd := (sv_snd v)[7 := pkt_cmd precv]\<rparr>
      in if pkt_len precv + LEN_FAAL_HEAD > FAAL_RCVMAX then Inr v
         else case map_of (g_srvmsg_flist pitf) (pkt_cmd precv AND FAALMASK_CMD) of
           None \<Rightarrow> Inr v
         | Some pf \<Rightarrow>
             bind_run (pf p v) (\<lambda>(rtn, v).
               Inr (if rtn \<noteq> 0 then
                      let psend = (sv_snd v)[8 := 0, 9 := 0] in reply pitf p (psend[7 := psend ! 7 OR FAALMASK_DIR]) v
                    else v)))"

subsection \<open>The connection\<close>

definition CLOSE_SOCKET :: "sock server \<Rightarrow> sock server" where
  "CLOSE_SOCKET v = v\<lparr>sv_sock := (sv_sock v)\<lparr>sk_open := False\<rparr>\<rparr>"

definition set_line :: "bool \<Rightarrow> sock server \<Rightarrow> sock server" where
  "set_line b v = v\<lparr>sv_sock := (sv_sock v)\<lparr>sk_line := b\<rparr>\<rparr>"

text \<open>The socket is made twice; the first one is lost.\<close>

definition EtherConnect :: "sock server \<Rightarrow> int \<times> sock server" where
  "EtherConnect v =
     (let v = CLOSE_SOCKET v;
          (r, v) = (case sv_connect v of [] \<Rightarrow> (NoSocket, v) | r # rs \<Rightarrow> (r, v\<lparr>sv_connect := rs\<rparr>))
      in if r = NoSocket then (1, v)
         else
           let v = v\<lparr>sv_leaked := sv_leaked v + 1\<rparr> in
           if r = Connected then (0, v\<lparr>sv_sock := (sv_sock v)\<lparr>sk_open := True\<rparr>\<rparr>)
           else
             let v = v\<lparr>CountFail := CountFail v + 1\<rparr>
             in (1, if CountFail v = 2 then v\<lparr>sv_system := sv_system v @ [''wifi up'']\<rparr> else v))"

definition EtherDisconnect :: "sock server \<Rightarrow> sock server" where "EtherDisconnect v = CLOSE_SOCKET v"

definition EtherLogon :: "svr_para \<Rightarrow> nat \<Rightarrow> sock server \<Rightarrow> (int \<times> sock server) run" where
  "EtherLogon p fuel v =
     (let v = set_line False (v\<lparr>sv_keep := SetKeepAlive KEEPALIVE_FLAG_LOGONFAIL (sv_keep v)\<rparr>) in
      bind_run (on_link (UplinkLogon ether_itf (sp_link p) fuel) v) (\<lambda>(rtn, v).
        if rtn \<noteq> 0 then Inr (1, EtherDisconnect v)
        else
          bind_run (on_link (UplinkDeviceCheck ether_itf (sp_link p) (sp_filedays p) fuel)
              (v\<lparr>login_update_system := 1, login_down_musice := 1\<rparr>)) (\<lambda>(_, v).
          bind_run (on_link (UplinkCheckVer ether_itf (sp_link p) fuel) v) (\<lambda>(_, v).
            let v = set_line True v
            in Inr (0, SvrCommNote_event SVRNOTEID_ALARM (v\<lparr>sv_keep := SetKeepAlive KEEPALIVE_FLAG_LOGONOK (sv_keep v)\<rparr>))))))"

definition reconnect :: "svr_para \<Rightarrow> nat \<Rightarrow> sock server \<Rightarrow> (int \<times> sock server) run" where
  "reconnect p fuel v =
     (case EtherConnect v of
        (rtn, v) \<Rightarrow> if rtn = 0 then EtherLogon p fuel v else Inr (1, set_line False (EtherDisconnect v)))"

definition EtherKeepAlive :: "svr_para \<Rightarrow> nat \<Rightarrow> sock server \<Rightarrow> (int \<times> sock server) run" where
  "EtherKeepAlive p fuel v =
     (if sk_line (sv_sock v) then
        bind_run (on_link (UplinkLinkTest ether_itf (sp_link p) fuel) v) (\<lambda>(rtn, v).
          if UPRTN_FAIL = rtn \<or> UPRTN_TIMEOUT = rtn then
            (let v = EtherDisconnect (set_line False v) in reconnect p fuel (v\<lparr>sv_led_net := sv_led_net v @ [False]\<rparr>))
          else if UPRTN_OK = rtn then Inr (0, v\<lparr>sv_keep := ClearKeepAlive p\<rparr>)
          else bind_run (SvrMessageProc ether_itf p v) (\<lambda>v. Inr (0, v)))
      else reconnect p fuel v)"

subsection \<open>The task\<close>

definition recv_command :: "svr_para \<Rightarrow> nat \<Rightarrow> sock server \<Rightarrow> sock server run" where
  "recv_command p fuel v =
     bind_run (UplinkRecvPkt EtherGetChar (itf_timeout ether_itf) fuel (sv_fsm v) (sv_sock v)) (\<lambda>(rtn, c, e).
       let v = v\<lparr>sv_fsm := c, sv_sock := e\<rparr> in if rtn = 0 then SvrMessageProc ether_itf p v else Inr v)"

definition note_phase :: "svr_para \<Rightarrow> nat \<Rightarrow> sock server \<Rightarrow> sock server run" where
  "note_phase p fuel v =
     (case SvrCommPeekEvent SVREV_NOTE v of
        (ev, v) \<Rightarrow>
          if ev AND SVREV_NOTE \<noteq> 0 then
            (case RefreshKeepAlive p (sk_line (sv_sock v)) (svrcomm_havetask v) (sv_keep v) of
               (r, k) \<Rightarrow>
                 let v = v\<lparr>sv_keep := k\<rparr> in
                 bind_run (if r = 0 then bind_run (EtherKeepAlive p fuel v) (\<lambda>(_, v). Inr v) else Inr v) (\<lambda>v.
                   if sk_line (sv_sock v) then bind_run (SvrNoteProc p fuel v) (\<lambda>(_, v). Inr v) else Inr v))
          else Inr v)"

definition keep_phase :: "svr_para \<Rightarrow> nat \<Rightarrow> sock server \<Rightarrow> sock server run" where
  "keep_phase p fuel v =
     (case KeepAliveProc p (sk_line (sv_sock v)) (sv_keep v) of
        (r, k) \<Rightarrow>
          let v = v\<lparr>sv_keep := k\<rparr> in if r = 0 then bind_run (EtherKeepAlive p fuel v) (\<lambda>(_, v). Inr v) else Inr v)"

definition EtherTask_round :: "svr_para \<Rightarrow> nat \<Rightarrow> sock server \<Rightarrow> sock server run" where
  "EtherTask_round p fuel v =
     bind_run (note_phase p fuel v) (\<lambda>v.
     bind_run (if sk_line (sv_sock v) then recv_command p fuel v else Inr v) (\<lambda>v.
       keep_phase p fuel v))"

definition EtherTask_start :: "svr_para \<Rightarrow> nat \<Rightarrow> sock server \<Rightarrow> sock server run" where
  "EtherTask_start p fuel v =
     bind_run (EtherKeepAlive p fuel (set_line False (v\<lparr>sv_fsm := UplinkClearState (sv_fsm v)\<rparr>))) (\<lambda>(_, v). Inr v)"

text \<open>Whatever channel is set, the task uses the same interface.\<close>

definition UPLINKITF_ETHER :: u8 where "UPLINKITF_ETHER = 2"

definition LoadSvrCommItf :: "u8 \<Rightarrow> u8" where
  "LoadSvrCommItf chn =
     (let itf = (if chn = 0xff then UPLINKITF_ETHER else if chn = 2 then UPLINKITF_ETHER else if chn = 3 then UPLINKITF_ETHER
        else if chn = 4 then UPLINKITF_ETHER else if chn = 5 then UPLINKITF_ETHER else UPLINKITF_ETHER)
      in if itf = UPLINKITF_ETHER then itf else UPLINKITF_ETHER)"

subsection \<open>Specification\<close>

text \<open>How far the counter of a state goes, and where it stands. While the line is off the time between two
  trials counts, when the period is above three minutes; a period of 0 is looked up again every minute.\<close>

definition keep_dials :: "svr_para \<Rightarrow> bool \<Rightarrow> keepalive_stat_t \<Rightarrow> bool" where
  "keep_dials p online k \<longleftrightarrow> \<not> online \<and> ka_cnt_max k > 1800 \<and>
     ka_cnt_retry k < (if sp_keepalive_sndretry p = 0 then 3 else uint (sp_keepalive_sndretry p))"

definition keep_limit :: "svr_para \<Rightarrow> bool \<Rightarrow> keepalive_stat_t \<Rightarrow> int" where
  "keep_limit p online k =
     (if keep_dials p online k then (if sp_keepalive_dialtime p = 0 then 600 else 10 * uint (sp_keepalive_dialtime p))
      else if ka_cnt_max k \<ge> 100 then ka_cnt_max k else 600)"

definition keep_count :: "svr_para \<Rightarrow> bool \<Rightarrow> keepalive_stat_t \<Rightarrow> int" where
  "keep_count p online k = (if keep_dials p online k \<or> ka_cnt_max k \<ge> 100 then ka_cnt k else ka_cnt_getcyc k)"

definition keep_step :: "svr_para \<Rightarrow> bool \<Rightarrow> keepalive_stat_t \<Rightarrow> keepalive_stat_t" where
  "keep_step p online k = snd (KeepAliveProc p online k)"

text \<open>The same without a limit of the trials: what the times say when no failed logon was counted.\<close>

definition due_limit :: "svr_para \<Rightarrow> bool \<Rightarrow> keepalive_stat_t \<Rightarrow> int" where
  "due_limit p online k =
     (if \<not> online \<and> ka_cnt_max k > 1800 then (if sp_keepalive_dialtime p = 0 then 600 else 10 * uint (sp_keepalive_dialtime p))
      else if ka_cnt_max k \<ge> 100 then ka_cnt_max k else 600)"

definition due_count :: "keepalive_stat_t \<Rightarrow> int" where
  "due_count k = (if ka_cnt_max k \<ge> 100 then ka_cnt k else ka_cnt_getcyc k)"

text \<open>All that is ever done to the counters after they are cleared at the start.\<close>

datatype keep_op = DoProc bool | DoRefresh bool bool | DoSet u8 | DoClear

fun keep_do :: "svr_para \<times> keep_op \<Rightarrow> keepalive_stat_t \<Rightarrow> keepalive_stat_t" where
  "keep_do (p, DoProc online) k = snd (KeepAliveProc p online k)"
| "keep_do (p, DoRefresh online havetask) k = snd (RefreshKeepAlive p online havetask k)"
| "keep_do (p, DoSet flag) k = SetKeepAlive flag k"
| "keep_do (p, DoClear) k = ClearKeepAlive p"

text \<open>What a call of the link leaves alone.\<close>

definition same_but_link :: "sock server \<Rightarrow> sock server \<Rightarrow> bool" where
  "same_but_link v w \<longleftrightarrow> (\<exists>c pkt e. w = v\<lparr>sv_fsm := c, sv_snd := pkt, sv_sock := e\<rparr>)"

text \<open>The state after a logon that was answered, apart from the link.\<close>

definition logged_on :: "sock server \<Rightarrow> sock server \<Rightarrow> bool" where
  "logged_on v w \<longleftrightarrow> sk_line (sv_sock w) \<and> SvrCommNoteId (sv_dev w) = SvrCommNoteId (sv_dev v) OR SVRNOTEID_ALARM \<and>
     sv_event w = sv_event v OR SVREV_NOTE \<and> ka_cnt_retry (sv_keep w) = 0 \<and> sv_alarm w = sv_alarm v \<and> sv_connect w = sv_connect v \<and>
     sv_leaked w = sv_leaked v \<and> login_update_system w = 1 \<and> login_down_musice w = 1"

text \<open>A trial to connect off line: nothing for a socket that was not made or not connected but the count of the failures, the exact
  answer of the logon when it was; the line is on after a logon that was answered only.\<close>

definition trial :: "svr_para \<Rightarrow> nat \<Rightarrow> sock server \<Rightarrow> sock server \<Rightarrow> bool" where
  "trial p fuel u w \<longleftrightarrow>
     (let closed = (sv_sock u)\<lparr>sk_open := False, sk_line := False\<rparr> in
      case sv_connect u of
        [] \<Rightarrow> w = u\<lparr>sv_sock := closed\<rparr>
      | NoSocket # rs \<Rightarrow> w = u\<lparr>sv_sock := closed, sv_connect := rs\<rparr>
      | Refused # rs \<Rightarrow>
          w = u\<lparr>sv_sock := closed, sv_connect := rs, sv_leaked := sv_leaked u + 1, CountFail := CountFail u + 1,
                sv_system := sv_system u @ (if CountFail u = 1 then [''wifi up''] else [])\<rparr>
      | Connected # rs \<Rightarrow>
          (\<exists>rtn c pkt e.
             UplinkLogon ether_itf (sp_link p) fuel (sv_fsm u) (sv_snd u) ((sv_sock u)\<lparr>sk_open := True, sk_line := False\<rparr>) = Inr (rtn, c, pkt, e) \<and>
             (if rtn \<noteq> 0
              then w = u\<lparr>sv_fsm := c, sv_snd := pkt, sv_sock := e\<lparr>sk_open := False, sk_line := False\<rparr>, sv_connect := rs, sv_leaked := sv_leaked u + 1\<rparr>
              else \<exists>pkt' e'. w = u\<lparr>sv_fsm := sv_fsm w, sv_snd := pkt', sv_sock := e'\<lparr>sk_line := True\<rparr>, sv_connect := rs, sv_leaked := sv_leaked u + 1,
                     sv_keep := (sv_keep u)\<lparr>ka_cnt_retry := 0\<rparr>, sv_event := sv_event u OR SVREV_NOTE, sv_dev := SvrCommNote SVRNOTEID_ALARM (sv_dev u),
                     login_update_system := 1, login_down_musice := 1\<rparr>)))"

subsection \<open>What was noted\<close>

definition note_frame :: "svr_para \<Rightarrow> u8 \<Rightarrow> bytes \<Rightarrow> bytes" where
  "note_frame p cmd bs = framed (set_addr (lp_deviceid (sp_link p)) (note_pkt cmd bs (replicate 256 0)))"

text \<open>The buffer keeps its head from one event to the next.\<close>

definition alarm_head :: "svr_para \<Rightarrow> bytes \<Rightarrow> bool" where
  "alarm_head p buf \<longleftrightarrow> length buf = 256 \<and> pkt_len buf = 8 \<and>
     set_addr (lp_deviceid (sp_link p)) (take 10 buf) = take 10 (set_addr (lp_deviceid (sp_link p)) (note_pkt 0x02 (replicate 8 0) (replicate 256 0)))"

definition sensor_states :: "sock server \<Rightarrow> bytes" where
  "sensor_states v = map (\<lambda>k. MdbCurData (sv_dev v) ! (9 * nat (UpdateSensorId (sv_dev v)) + 1 + k)) [0..<8]"

definition note_frames :: "svr_para \<Rightarrow> sock server \<Rightarrow> bytes list" where
  "note_frames p v =
     (if has_note SVRNOTEID_ALARM v
      then map (\<lambda>i. note_frame p 0x02 (FormatAlarm (al_cache (sv_alarm v) ! i))) (unsent (al_run (sv_alarm v))) else []) @
     (if has_note SVRNOTEID_UPSENSOR v
      then [note_frame p (if UpdateSensorId (sv_dev v) = 240 then 0x8B else 0x88) (sensor_states v)] else [])"

text \<open>What all later steps of a round may do: send more, and note the events again after a logon.\<close>

definition goes_on :: "sock server \<Rightarrow> sock server \<Rightarrow> bool" where
  "goes_on v w \<longleftrightarrow> (\<exists>more. sk_sent (sv_sock w) = sk_sent (sv_sock v) @ more) \<and> sv_alarm w = sv_alarm v \<and>
     SvrCommNoteId (sv_dev w) \<in> {SvrCommNoteId (sv_dev v), SvrCommNoteId (sv_dev v) OR SVRNOTEID_ALARM}"

definition devices_ok :: "devices \<Rightarrow> bool" where
  "devices_ok d \<longleftrightarrow> length (MdbCurData d) = MDBCUR_SIZE * (MAX_METER_dl + 1) \<and> 0 \<le> UpdateSensorId d \<and> UpdateSensorId d \<le> 255"

subsection \<open>Commands\<close>

text \<open>What goes out for a reply.\<close>

definition reply_frame :: "svr_para \<Rightarrow> bytes \<Rightarrow> bytes" where
  "reply_frame p pkt = take (pkt_len pkt + 13) (snd (faal_makepkt FAAL_SNDMAX (lp_deviceid (sp_link p)) pkt))"

definition svr_cmd :: "'e server \<Rightarrow> u8" where "svr_cmd v = pkt_cmd (rcvbuf (sv_fsm v)) AND FAALMASK_CMD"

text \<open>What the state is apart from the buffer of what is sent, and what was sent.\<close>

definition answers :: "sock server \<Rightarrow> bytes list \<Rightarrow> sock server \<Rightarrow> bool" where
  "answers v bs w \<longleftrightarrow> (\<exists>q. w = v\<lparr>sv_snd := q, sv_sock := (sv_sock v)\<lparr>sk_sent := sk_sent (sv_sock v) @ bs\<rparr>\<rparr>)"

text \<open>The same for any interface: the frames go to its \<open>rawsend\<close>.\<close>

definition answered :: "'e uplinkitf_t \<Rightarrow> 'e server \<Rightarrow> bytes list \<Rightarrow> 'e server \<Rightarrow> bool" where
  "answered pitf v bs w \<longleftrightarrow>
     (\<exists>q. length q = 1152 \<and> w = v\<lparr>sv_snd := q, sv_sock := fold (\<lambda>b e. snd (itf_rawsend pitf b e)) bs (sv_sock v)\<rparr>)"

subsection \<open>Sample states\<close>

text \<open>A task that is off line, with parameters that allow two tries of two rounds.\<close>

definition sample_para :: svr_para where
  "sample_para = \<lparr>sp_link = \<lparr>lp_deviceid = replicate 8 1, lp_com_pwd = replicate 4 0, lp_snd_timeout = 1, lp_snd_retry = 2\<rparr>, sp_keepalive_cyc = 15,
    sp_keepalive_sndretry = 3, sp_keepalive_dialtime = 20, sp_termip_pwd = replicate 32 7, sp_filedays = 0, sp_wifi_idle = True\<rparr>"

definition sample_server :: "sock server" where
  "sample_server = \<lparr>sv_sock = idle_sock\<lparr>sk_open := False\<rparr>, sv_fsm = idle_fsm, sv_snd = replicate 1152 0, sv_keep = ClearKeepAlive sample_para,
    sv_event = 0, sv_dev = \<lparr>MdbCurData = replicate 2304 0, UpdateSensorId = 5, SvrCommNoteId = 0\<rparr>,
    sv_alarm = full_ring\<lparr>al_run := zero_runstate\<lparr>rs_cur := 1, rs_head := 0, rs_snd := 0\<rparr>\<rparr>, sv_connect = [Connected], sv_leaked = 0, CountFail = 0,
    sv_system = [], audiourl = replicate 512 0, UpdateAudiourlFlag = 0, DeviceCheckResultFlag = 0, login_update_system = 0, login_down_musice = 0,
    sv_led_net = []\<rparr>"

subsection \<open>Lemmas\<close>

lemma u8_mask_ff [simp]: "(w :: u8) AND 0xff = w"
proof -
  have "(0xff :: u8) = - 1" by simp
  then show ?thesis by (simp only: and.right_neutral)
qed

lemma keep_step_eq:
  "keep_dials p online k \<or> ka_cnt_max k \<ge> 100 \<Longrightarrow> KeepAliveProc p online k =
     (if ka_cnt k \<ge> keep_limit p online k then (0, keep_again p k) else (1, k\<lparr>ka_cnt := ka_cnt k + 1\<rparr>))"
  "\<not> (keep_dials p online k \<or> ka_cnt_max k \<ge> 100) \<Longrightarrow> KeepAliveProc p online k =
     (if ka_cnt_getcyc k \<ge> keep_limit p online k then (0, k\<lparr>ka_cnt_getcyc := 0, ka_cnt_max := GetCycKeepAlive p\<rparr>)
      else (1, k\<lparr>ka_cnt_getcyc := ka_cnt_getcyc k + 1\<rparr>))"
proof -
  have r: "(uint (sp_keepalive_sndretry p) = 0) = (sp_keepalive_sndretry p = 0)" by (simp add: unsigned_eq_0_iff)
  have t: "(uint (sp_keepalive_dialtime p) * 10 = 0) = (sp_keepalive_dialtime p = 0)" by (simp add: unsigned_eq_0_iff)
  have d: "\<not> online \<and> ka_cnt_max k > 1800 \<and>
     ka_cnt_retry k < (if uint (sp_keepalive_sndretry p) = 0 then 3 else uint (sp_keepalive_sndretry p)) \<longleftrightarrow> keep_dials p online k"
    unfolding keep_dials_def r by simp
  note e = KeepAliveProc_def Let_def u8_mask_ff d t
  show "keep_dials p online k \<or> ka_cnt_max k \<ge> 100 \<Longrightarrow> KeepAliveProc p online k =
     (if ka_cnt k \<ge> keep_limit p online k then (0, keep_again p k) else (1, k\<lparr>ka_cnt := ka_cnt k + 1\<rparr>))"
    unfolding e by (cases "keep_dials p online k"; cases "sp_keepalive_dialtime p = 0") (simp_all add: keep_limit_def keep_again_def)
  show "\<not> (keep_dials p online k \<or> ka_cnt_max k \<ge> 100) \<Longrightarrow> KeepAliveProc p online k =
     (if ka_cnt_getcyc k \<ge> keep_limit p online k then (0, k\<lparr>ka_cnt_getcyc := 0, ka_cnt_max := GetCycKeepAlive p\<rparr>)
      else (1, k\<lparr>ka_cnt_getcyc := ka_cnt_getcyc k + 1\<rparr>))"
    unfolding e by (simp add: keep_limit_def TIMEOUT_KEEPALIVE_def)
qed

lemma keep_counters [simp]:
  "keep_dials p online (k\<lparr>ka_cnt := i\<rparr>) = keep_dials p online k" "keep_dials p online (k\<lparr>ka_cnt_getcyc := i\<rparr>) = keep_dials p online k"
  "keep_limit p online (k\<lparr>ka_cnt := i\<rparr>) = keep_limit p online k" "keep_limit p online (k\<lparr>ka_cnt_getcyc := i\<rparr>) = keep_limit p online k"
  by (simp_all add: keep_dials_def keep_limit_def)

text \<open>A call before the time only counts.\<close>

lemma keep_step_wait:
  assumes "keep_count p online k < keep_limit p online k"
  shows "fst (KeepAliveProc p online k) = 1" "keep_limit p online (keep_step p online k) = keep_limit p online k"
    "keep_count p online (keep_step p online k) = keep_count p online k + 1"
    "ka_cnt_max (keep_step p online k) = ka_cnt_max k"
    "ka_cnt (keep_step p online k) = (if keep_dials p online k \<or> ka_cnt_max k \<ge> 100 then ka_cnt k + 1 else ka_cnt k)"
  using assms
  by (cases "keep_dials p online k \<or> ka_cnt_max k \<ge> 100"; simp add: keep_step_def keep_step_eq keep_count_def)+

lemma keep_step_due:
  assumes "keep_count p online k \<ge> keep_limit p online k"
  shows "fst (KeepAliveProc p online k) = 0" "ka_cnt_max (keep_step p online k) = GetCycKeepAlive p"
    "ka_cnt (keep_step p online k) = (if keep_dials p online k \<or> ka_cnt_max k \<ge> 100 then 0 else ka_cnt k)" "ka_cnt_getcyc (keep_step p online k) = 0"
  using assms
  by (cases "keep_dials p online k \<or> ka_cnt_max k \<ge> 100"; simp add: keep_step_def keep_step_eq keep_count_def keep_again_def)+

lemma keep_step_retry: "ka_cnt_retry (keep_step p online k) = ka_cnt_retry k"
  by (cases "keep_dials p online k \<or> ka_cnt_max k \<ge> 100") (simp_all add: keep_step_def keep_step_eq keep_again_def)

lemma keep_do_retry: "ka_cnt_retry k = 0 \<Longrightarrow> ka_cnt_retry (keep_do x k) = 0"
proof (cases x)
  case (Pair p o')
  assume "ka_cnt_retry k = 0"
  then show ?thesis using keep_step_retry [of p _ k]
    by (cases o') (auto simp: Pair RefreshKeepAlive_def keep_again_def SetKeepAlive_def ClearKeepAlive_def keep_step_def)
qed

lemma keep_ops_retry: "ka_cnt_retry (fold keep_do ops (ClearKeepAlive p)) = 0"
proof -
  have "ka_cnt_retry k = 0 \<Longrightarrow> ka_cnt_retry (fold keep_do ops k) = 0" for k
    by (induction ops arbitrary: k) (simp_all add: keep_do_retry)
  then show ?thesis by (simp add: ClearKeepAlive_def)
qed

lemma u8_positive: "(w :: u8) \<noteq> 0 \<Longrightarrow> uint w > 0"
  using uint_ge_0[of w] by (metis order_le_less uint_0_iff)

lemma due_facts:
  assumes "ka_cnt_retry k = 0"
  shows "keep_dials p online k \<longleftrightarrow> \<not> online \<and> ka_cnt_max k > 1800" "keep_limit p online k = due_limit p online k" "keep_count p online k = due_count k"
proof -
  show d: "keep_dials p online k \<longleftrightarrow> \<not> online \<and> ka_cnt_max k > 1800"
    using assms u8_positive[of "sp_keepalive_sndretry p"] by (auto simp: keep_dials_def)
  show "keep_limit p online k = due_limit p online k" "keep_count p online k = due_count k"
    by (auto simp: keep_limit_def due_limit_def keep_count_def due_count_def d)
qed

lemma keep_steps_wait:
  "keep_count p online k + int n \<le> keep_limit p online k \<Longrightarrow>
   keep_limit p online ((keep_step p online ^^ n) k) = keep_limit p online k \<and>
   keep_count p online ((keep_step p online ^^ n) k) = keep_count p online k + int n"
  by (induction n) (simp_all add: keep_step_wait(2,3))

lemma ClearKeepAlive_limit:
  "keep_count p online (ClearKeepAlive p) = 0"
  "keep_limit p online (ClearKeepAlive p) =
     (if sp_keepalive_cyc p = 0 then 600
      else if \<not> online \<and> uint (sp_keepalive_cyc p) > 3 then (if sp_keepalive_dialtime p = 0 then 600 else 10 * uint (sp_keepalive_dialtime p))
      else 600 * uint (sp_keepalive_cyc p))"
proof -
  have u: "w \<noteq> 0 \<Longrightarrow> uint w \<ge> 1" for w :: u8
  proof -
    have "w \<noteq> 0 \<Longrightarrow> uint w \<noteq> 0" by (simp only: uint_0_iff not_False_eq_True)
    then show "w \<noteq> 0 \<Longrightarrow> uint w \<ge> 1" using uint_ge_0[of w] by linarith
  qed
  have "sp_keepalive_cyc p \<noteq> 0 \<Longrightarrow> uint (sp_keepalive_cyc p) \<ge> 1" by (rule u)
  moreover have "sp_keepalive_sndretry p \<noteq> 0 \<Longrightarrow> uint (sp_keepalive_sndretry p) > 0" using u[of "sp_keepalive_sndretry p"] by simp
  ultimately show "keep_count p online (ClearKeepAlive p) = 0"
    "keep_limit p online (ClearKeepAlive p) =
     (if sp_keepalive_cyc p = 0 then 600
      else if \<not> online \<and> uint (sp_keepalive_cyc p) > 3 then (if sp_keepalive_dialtime p = 0 then 600 else 10 * uint (sp_keepalive_dialtime p))
      else 600 * uint (sp_keepalive_cyc p))"
    by (cases "sp_keepalive_cyc p = 0"; auto simp: keep_count_def keep_limit_def keep_dials_def ClearKeepAlive_def GetCycKeepAlive_def)+
qed

subsection \<open>The connection\<close>

lemma UplinkSendPktG_length: "UplinkSendPktG rawsend d pkt e = Inr (r, pkt', e') \<Longrightarrow> length pkt' = length pkt"
  by (auto simp: UplinkSendPktG_def MakePacketG_def Let_def dest: put_at_length split: option.splits prod.splits)

lemma send_loop_length:
  "send_loop getchar rawsend linestat timeout fuel d tmo i c pkt e = Inr (r, c', pkt', e') \<Longrightarrow> length pkt' = length pkt"
  by (induction i arbitrary: c pkt e)
    (auto dest: UplinkSendPktG_length split: if_splits sum.splits prod.splits option.splits)

lemma UplinkLogon_length: "UplinkLogon pitf para fuel c pkt e = Inr (r, c', pkt', e') \<Longrightarrow> length pkt' = length pkt"
  by (auto simp: UplinkLogon_def UplinkActiveSend_def UplinkSendWait_def GetTimeout_def Let_def dest!: send_loop_length split: sum.splits)

text \<open>A frame that is sent without waiting always leaves the task with a result.\<close>

lemma UplinkActiveSend_no_wait:
  assumes "pkt_len pkt + 13 \<le> length pkt"
  shows "\<exists>r pkt' e'. UplinkActiveSend pitf para fuel False c pkt e = Inr (r, c, pkt', e') \<and> length pkt' = length pkt"
proof -
  obtain failed e' where s: "itf_rawsend pitf (framed (set_addr (lp_deviceid para) pkt)) e = (failed, e')"
    by (cases "itf_rawsend pitf (framed (set_addr (lp_deviceid para) pkt)) e")
  obtain r pkt' where p: "UplinkSendPktG (itf_rawsend pitf) (lp_deviceid para) pkt e = Inr (r, pkt', e')"
    using UplinkSendPktG_framed[OF assms, of "itf_rawsend pitf" "lp_deviceid para" e] s by simp
  show ?thesis using UplinkSendPktG_length[OF p] by (simp add: UplinkActiveSend_def p)
qed

lemma on_link_same: "on_link f v = Inr (r, w) \<Longrightarrow> same_but_link v w"
  by (auto simp: on_link_def same_but_link_def bind_run_def split: sum.splits prod.splits)

lemma on_link_check:
  assumes "length (sv_snd v) = 1152"
  shows "\<exists>r w. on_link (UplinkDeviceCheck ether_itf para days fuel) v = Inr (r, w) \<and> same_but_link v w \<and> length (sv_snd w) = 1152"
    "\<exists>r w. on_link (UplinkCheckVer ether_itf para fuel) v = Inr (r, w) \<and> same_but_link v w \<and> length (sv_snd w) = 1152"
proof -
  let ?p = "(set_head 0x81 1 (sv_snd v))[10 := (if days = 0 then 0x08 else 0x0F)]"
  have "pkt_len ?p + 13 \<le> length ?p" using assms by simp
  from UplinkActiveSend_no_wait[OF this, of ether_itf para fuel "sv_fsm v" "sv_sock v"]
  obtain r pkt e where 1: "UplinkDeviceCheck ether_itf para days fuel (sv_fsm v) (sv_snd v) (sv_sock v) = Inr (r, sv_fsm v, pkt, e)" "length pkt = 1152"
    using assms by (auto simp: UplinkDeviceCheck_def)
  then have o: "on_link (UplinkDeviceCheck ether_itf para days fuel) v = Inr (r, v\<lparr>sv_snd := pkt, sv_sock := e\<rparr>)" by (simp add: on_link_def)
  show "\<exists>r w. on_link (UplinkDeviceCheck ether_itf para days fuel) v = Inr (r, w) \<and> same_but_link v w \<and> length (sv_snd w) = 1152"
    using o on_link_same[OF o] 1(2) by simp
  let ?q = "set_head 0x84 0 (sv_snd v)"
  have "pkt_len ?q + 13 \<le> length ?q" using assms by simp
  from UplinkActiveSend_no_wait[OF this, of ether_itf para fuel "sv_fsm v" "sv_sock v"]
  obtain r pkt e where 2: "UplinkCheckVer ether_itf para fuel (sv_fsm v) (sv_snd v) (sv_sock v) = Inr (r, sv_fsm v, pkt, e)" "length pkt = 1152"
    using assms by (auto simp: UplinkCheckVer_def)
  then have o: "on_link (UplinkCheckVer ether_itf para fuel) v = Inr (r, v\<lparr>sv_snd := pkt, sv_sock := e\<rparr>)" by (simp add: on_link_def)
  show "\<exists>r w. on_link (UplinkCheckVer ether_itf para fuel) v = Inr (r, w) \<and> same_but_link v w \<and> length (sv_snd w) = 1152"
    using o on_link_same[OF o] 2(2) by simp
qed

lemma EtherLogon_answer:
  assumes "on_link (UplinkLogon ether_itf (sp_link p) fuel) (set_line False v) = Inr (r, w)" "length (sv_snd v) = 1152"
  shows "if r = 0 then \<exists>w'. EtherLogon p fuel v = Inr (0, w') \<and> logged_on v w'
    else EtherLogon p fuel v = Inr (1, EtherDisconnect w)"
proof -
  have k: "v\<lparr>sv_keep := SetKeepAlive KEEPALIVE_FLAG_LOGONFAIL (sv_keep v)\<rparr> = v" by (simp add: SetKeepAlive_def)
  have l: "length (sv_snd w) = 1152"
    using assms by (auto simp: on_link_def bind_run_def set_line_def dest!: UplinkLogon_length split: sum.splits prod.splits)
  have sw: "same_but_link (set_line False v) w" using on_link_same[OF assms(1)] .
  let ?w = "w\<lparr>login_update_system := 1, login_down_musice := 1\<rparr>"
  obtain r1 w1 where 1: "on_link (UplinkDeviceCheck ether_itf (sp_link p) (sp_filedays p) fuel) ?w = Inr (r1, w1)" "same_but_link ?w w1" "length (sv_snd w1) = 1152"
    using on_link_check(1)[of ?w] l by fastforce
  obtain r2 w2 where 2: "on_link (UplinkCheckVer ether_itf (sp_link p) fuel) w1 = Inr (r2, w2)" "same_but_link w1 w2"
    using on_link_check(2)[OF 1(3)] by blast
  have f: "KEEPALIVE_FLAG_LOGONOK \<noteq> KEEPALIVE_FLAG_LOGONFAIL" "\<not> (sint SVRNOTEID_ALARM < 2 \<or> sint SVRNOTEID_ALARM > 0x40)" by code_simp+
  show ?thesis
  proof (cases "r = 0")
    case True
    let ?r = "set_line True w2"
    have e: "EtherLogon p fuel v = Inr (0, SvrCommNote_event SVRNOTEID_ALARM (?r\<lparr>sv_keep := SetKeepAlive KEEPALIVE_FLAG_LOGONOK (sv_keep ?r)\<rparr>))"
      using True unfolding EtherLogon_def Let_def k assms(1) by (simp add: 1(1) 2(1))
    have "logged_on v (SvrCommNote_event SVRNOTEID_ALARM (?r\<lparr>sv_keep := SetKeepAlive KEEPALIVE_FLAG_LOGONOK (sv_keep ?r)\<rparr>))"
      using sw 1(2) 2(2) f
      by (auto simp: logged_on_def same_but_link_def set_line_def SvrCommNote_event_def SvrCommNote_def SysSendEvent_def SetKeepAlive_def)
    then show ?thesis using True e by simp
  next
    case False
    then show ?thesis unfolding EtherLogon_def Let_def k assms(1) by simp
  qed
qed

lemma sock_line_polls [simp]: "ether_polls (e\<lparr>sk_line := b\<rparr>) = ether_polls e" "sock_ok (e\<lparr>sk_line := b\<rparr>) = sock_ok e"
  by (simp_all add: ether_polls_def sock_waiting_def sock_ok_def)

lemma sock_open_ok [simp]: "sock_ok (e\<lparr>sk_open := b\<rparr>) = sock_ok e"
  by (simp add: sock_ok_def)

text \<open>What both calls of an interface keep is kept by everything that is built of them.\<close>

locale link_invariant =
  fixes pitf :: "'e uplinkitf_t" and inv :: "'e \<Rightarrow> bool"
  assumes get_keeps: "inv e \<Longrightarrow> itf_getchar pitf e = Inr (x, e') \<Longrightarrow> inv e'"
    and send_keeps: "inv e \<Longrightarrow> itf_rawsend pitf b e = (failed, e') \<Longrightarrow> inv e'"
begin

lemma recv_loop_keeps: "inv e \<Longrightarrow> UplinkRecv_loop (itf_getchar pitf) t fuel c e = Inr (r, c', e') \<Longrightarrow> inv e'"
  by (induction fuel arbitrary: c e) (auto dest: get_keeps split: sum.splits prod.splits option.splits bool.splits)

lemma wait_loop_keeps: "inv e \<Longrightarrow> wait_loop (itf_getchar pitf) t fuel j cmd c e = Inr (r, c', e') \<Longrightarrow> inv e'"
  by (induction j arbitrary: c e) (auto simp: UplinkRecvPkt_def dest: recv_loop_keeps split: sum.splits prod.splits if_splits)

lemma SendPktG_keeps: "inv e \<Longrightarrow> UplinkSendPktG (itf_rawsend pitf) d pkt e = Inr (r, pkt', e') \<Longrightarrow> inv e'"
  by (auto simp: UplinkSendPktG_def Let_def dest: send_keeps split: sum.splits prod.splits)

lemma send_loop_keeps:
  "inv e \<Longrightarrow> send_loop (itf_getchar pitf) (itf_rawsend pitf) linestat t fuel d tmo i c pkt e = Inr (r, c', pkt', e') \<Longrightarrow> inv e'"
proof (induction i arbitrary: c pkt e)
  case (Suc i)
  show ?case
  proof (cases "linestat e")
    case True
    obtain rtn pkt1 e1 where s: "UplinkSendPktG (itf_rawsend pitf) d pkt e = Inr (rtn, pkt1, e1)"
      using Suc.prems(2) True by (auto split: sum.splits)
    have 1: "inv e1" using SendPktG_keeps[OF Suc.prems(1) s] .
    show ?thesis
    proof (cases "rtn = 0")
      case True
      obtain r1 c1 e2 where w: "wait_loop (itf_getchar pitf) t fuel tmo (pkt_cmd pkt1) c e1 = Inr (r1, c1, e2)"
        using Suc.prems(2) s True \<open>linestat e\<close> by (auto split: sum.splits)
      have 2: "inv e2" using wait_loop_keeps[OF 1 w] .
      show ?thesis using Suc.prems(2) s True \<open>linestat e\<close> w 2 Suc.IH[OF 2] by (auto split: option.splits)
    next
      case False
      then show ?thesis using Suc.prems(2) s 1 \<open>linestat e\<close> by simp
    qed
  qed (use Suc.prems in simp)
qed simp

lemma ActiveSend_keeps: "inv e \<Longrightarrow> UplinkActiveSend pitf para fuel flag c pkt e = Inr (r, c', pkt', e') \<Longrightarrow> inv e'"
  by (auto simp: UplinkActiveSend_def UplinkSendWait_def GetTimeout_def dest: SendPktG_keeps send_loop_keeps split: if_splits sum.splits)

lemma Logon_keeps: "inv e \<Longrightarrow> UplinkLogon pitf para fuel c pkt e = Inr (r, c', pkt', e') \<Longrightarrow> inv e'"
  by (auto simp: UplinkLogon_def Let_def dest: ActiveSend_keeps split: sum.splits)

end

text \<open>No call of the socket puts the line on.\<close>

interpretation ether_off: link_invariant ether_itf "\<lambda>e. \<not> sk_line e"
  by unfold_locales
    (auto simp: ether_itf_def EtherGetChar_def EtherRawSend_def take_char_def recv_next_def send_next_def
      split: if_splits prod.splits recv_result.splits option.splits list.splits)

lemma EtherConnect_fields:
  "EtherConnect v = (r, w) \<Longrightarrow> sv_dev w = sv_dev v \<and> sv_snd w = sv_snd v \<and> sv_fsm w = sv_fsm v \<and> sv_event w = sv_event v \<and>
     sv_alarm w = sv_alarm v \<and> (r \<noteq> 0 \<longrightarrow> \<not> sk_open (sv_sock w)) \<and>
     (r = 0 \<longrightarrow> (\<exists>rs. sv_connect v = Connected # rs) \<and> sv_sock w = (sv_sock v)\<lparr>sk_open := True\<rparr>)"
  by (auto simp: EtherConnect_def CLOSE_SOCKET_def Let_def split: list.splits if_splits)

text \<open>A trial to connect while the line is off.\<close>

lemma EtherLogon_state:
  assumes "on_link (UplinkLogon ether_itf (sp_link p) fuel) (set_line False v) = Inr (0, w)" "length (sv_snd v) = 1152" "EtherLogon p fuel v = Inr (r, w')"
  shows "r = 0 \<and> (\<exists>pkt e. w' = v\<lparr>sv_fsm := sv_fsm w', sv_snd := pkt, sv_sock := e\<lparr>sk_line := True\<rparr>, sv_keep := (sv_keep v)\<lparr>ka_cnt_retry := 0\<rparr>,
    sv_event := sv_event v OR SVREV_NOTE, sv_dev := SvrCommNote SVRNOTEID_ALARM (sv_dev v), login_update_system := 1, login_down_musice := 1\<rparr>)"
proof -
  have k: "v\<lparr>sv_keep := SetKeepAlive KEEPALIVE_FLAG_LOGONFAIL (sv_keep v)\<rparr> = v" by (simp add: SetKeepAlive_def)
  have sw: "same_but_link (set_line False v) w" using on_link_same[OF assms(1)] .
  have l: "length (sv_snd w) = 1152"
    using assms by (auto simp: on_link_def bind_run_def set_line_def dest!: UplinkLogon_length split: sum.splits prod.splits)
  let ?w = "w\<lparr>login_update_system := 1, login_down_musice := 1\<rparr>"
  obtain r1 w1 where 1: "on_link (UplinkDeviceCheck ether_itf (sp_link p) (sp_filedays p) fuel) ?w = Inr (r1, w1)" "same_but_link ?w w1" "length (sv_snd w1) = 1152"
    using on_link_check(1)[of ?w] l by fastforce
  obtain r2 w2 where 2: "on_link (UplinkCheckVer ether_itf (sp_link p) fuel) w1 = Inr (r2, w2)" "same_but_link w1 w2"
    using on_link_check(2)[OF 1(3)] by blast
  have f: "KEEPALIVE_FLAG_LOGONOK \<noteq> KEEPALIVE_FLAG_LOGONFAIL" "\<not> (sint SVRNOTEID_ALARM < 2 \<or> sint SVRNOTEID_ALARM > 0x40)" by code_simp+
  show ?thesis
    using assms(3) sw 1(2) 2(2) f unfolding EtherLogon_def Let_def k assms(1)
    by (cases v) (auto simp: 1(1) 2(1) same_but_link_def set_line_def SvrCommNote_event_def SysSendEvent_def SetKeepAlive_def)
qed

lemma reconnect_trial:
  assumes "reconnect p fuel v = Inr (r, w)" "\<not> sk_line (sv_sock v)" "length (sv_snd v) = 1152"
  shows "trial p fuel v w"
proof (cases "sv_connect v")
  case Nil
  then show ?thesis using assms(1)
    by (simp add: trial_def reconnect_def EtherConnect_def CLOSE_SOCKET_def set_line_def EtherDisconnect_def)
next
  case (Cons x rs)
  show ?thesis
  proof (cases x)
    case NoSocket
    then show ?thesis using assms(1) Cons
      by (cases v) (simp add: trial_def reconnect_def EtherConnect_def CLOSE_SOCKET_def set_line_def EtherDisconnect_def)
  next
    case Refused
    then show ?thesis using assms(1) Cons
      by (cases v) (auto simp: trial_def reconnect_def EtherConnect_def CLOSE_SOCKET_def set_line_def EtherDisconnect_def Let_def split: if_splits)
  next
    case Connected
    define v1 where "v1 = v\<lparr>sv_sock := (sv_sock v)\<lparr>sk_open := True\<rparr>, sv_connect := rs, sv_leaked := sv_leaked v + 1\<rparr>"
    have c: "EtherConnect v = (0, v1)" using Cons Connected by (cases v) (simp add: EtherConnect_def CLOSE_SOCKET_def v1_def)
    have e: "EtherLogon p fuel v1 = Inr (r, w)" using assms(1) by (simp add: reconnect_def c)
    have n: "length (sv_snd v1) = 1152" using assms(3) by (simp add: v1_def)
    have k: "v1\<lparr>sv_keep := SetKeepAlive KEEPALIVE_FLAG_LOGONFAIL (sv_keep v1)\<rparr> = v1" by (simp add: SetKeepAlive_def)
    obtain rl w1 where l: "on_link (UplinkLogon ether_itf (sp_link p) fuel) (set_line False v1) = Inr (rl, w1)"
      using e unfolding EtherLogon_def Let_def k
      by (cases "on_link (UplinkLogon ether_itf (sp_link p) fuel) (set_line False v1)") auto
    obtain c' pkt' e' where u: "UplinkLogon ether_itf (sp_link p) fuel (sv_fsm v1) (sv_snd v1) ((sv_sock v1)\<lparr>sk_line := False\<rparr>) = Inr (rl, c', pkt', e')"
        "w1 = (set_line False v1)\<lparr>sv_fsm := c', sv_snd := pkt', sv_sock := e'\<rparr>"
      using l by (auto simp: on_link_def bind_run_def set_line_def split: sum.splits prod.splits)
    have off: "\<not> sk_line e'" using ether_off.Logon_keeps[OF _ u(1)] by simp
    have u': "UplinkLogon ether_itf (sp_link p) fuel (sv_fsm v) (sv_snd v) ((sv_sock v)\<lparr>sk_open := True, sk_line := False\<rparr>) = Inr (rl, c', pkt', e')"
      using u(1) by (simp add: v1_def)
    show ?thesis
    proof (cases "rl = 0")
      case True
      from EtherLogon_state[OF l[unfolded True] n e] obtain pk e2 where w: "w = v1\<lparr>sv_fsm := sv_fsm w, sv_snd := pk, sv_sock := e2\<lparr>sk_line := True\<rparr>,
        sv_keep := (sv_keep v1)\<lparr>ka_cnt_retry := 0\<rparr>, sv_event := sv_event v1 OR SVREV_NOTE, sv_dev := SvrCommNote SVRNOTEID_ALARM (sv_dev v1),
        login_update_system := 1, login_down_musice := 1\<rparr>" by blast
      have eq: "v1\<lparr>sv_fsm := x, sv_snd := pk, sv_sock := e2\<lparr>sk_line := True\<rparr>,
        sv_keep := (sv_keep v1)\<lparr>ka_cnt_retry := 0\<rparr>, sv_event := sv_event v1 OR SVREV_NOTE, sv_dev := SvrCommNote SVRNOTEID_ALARM (sv_dev v1),
        login_update_system := 1, login_down_musice := 1\<rparr> =
        v\<lparr>sv_fsm := x, sv_snd := pk, sv_sock := e2\<lparr>sk_line := True\<rparr>, sv_connect := rs, sv_leaked := sv_leaked v + 1,
                     sv_keep := (sv_keep v)\<lparr>ka_cnt_retry := 0\<rparr>, sv_event := sv_event v OR SVREV_NOTE, sv_dev := SvrCommNote SVRNOTEID_ALARM (sv_dev v),
                     login_update_system := 1, login_down_musice := 1\<rparr>" for x by (cases v) (simp add: v1_def)
      have "\<exists>pkt' e'. w = v\<lparr>sv_fsm := sv_fsm w, sv_snd := pkt', sv_sock := e'\<lparr>sk_line := True\<rparr>, sv_connect := rs, sv_leaked := sv_leaked v + 1,
                     sv_keep := (sv_keep v)\<lparr>ka_cnt_retry := 0\<rparr>, sv_event := sv_event v OR SVREV_NOTE, sv_dev := SvrCommNote SVRNOTEID_ALARM (sv_dev v),
                     login_update_system := 1, login_down_musice := 1\<rparr>"
        using w[unfolded eq] by blast
      then show ?thesis using u' True by (simp add: trial_def Cons Connected)
    next
      case False
      then have "w = EtherDisconnect w1" using EtherLogon_answer[OF l n] e by simp
      moreover have "e'\<lparr>sk_open := False, sk_line := False\<rparr> = e'\<lparr>sk_open := False\<rparr>" using off by (cases e') simp
      ultimately have "w = v\<lparr>sv_fsm := c', sv_snd := pkt', sv_sock := e'\<lparr>sk_open := False, sk_line := False\<rparr>, sv_connect := rs, sv_leaked := sv_leaked v + 1\<rparr>"
        using u(2) by (cases v) (simp add: EtherDisconnect_def CLOSE_SOCKET_def set_line_def v1_def)
      then show ?thesis using u' False by (simp add: trial_def Cons Connected)
    qed
  qed
qed

lemma reconnect_off:
  assumes "reconnect p fuel v = Inr (r, w)" "\<not> sk_line (sv_sock v)" "length (sv_snd v) = 1152"
  shows "sv_alarm w = sv_alarm v \<and> (sk_line (sv_sock w) \<longleftrightarrow> r = 0) \<and> (r \<noteq> 0 \<longrightarrow> \<not> sk_open (sv_sock w) \<and> sv_dev w = sv_dev v \<and> sv_event w = sv_event v) \<and>
    (r = 0 \<longrightarrow> SvrCommNoteId (sv_dev w) = SvrCommNoteId (sv_dev v) OR SVRNOTEID_ALARM \<and> sv_event w = sv_event v OR SVREV_NOTE \<and>
       (\<exists>rs c pkt e. sv_connect v = Connected # rs \<and>
          UplinkLogon ether_itf (sp_link p) fuel (sv_fsm v) (sv_snd v) ((sv_sock v)\<lparr>sk_open := True, sk_line := False\<rparr>) = Inr (0, c, pkt, e)))"
proof -
  obtain rc v1 where c: "EtherConnect v = (rc, v1)" by (cases "EtherConnect v")
  note f = EtherConnect_fields[OF c]
  show ?thesis
  proof (cases "rc = 0")
    case False
    then show ?thesis using assms(1) f by (auto simp: reconnect_def c set_line_def EtherDisconnect_def CLOSE_SOCKET_def)
  next
    case True
    then have e: "EtherLogon p fuel v1 = Inr (r, w)" using assms(1) by (simp add: reconnect_def c)
    have n: "length (sv_snd v1) = 1152" using f assms(3) by simp
    have k: "v1\<lparr>sv_keep := SetKeepAlive KEEPALIVE_FLAG_LOGONFAIL (sv_keep v1)\<rparr> = v1" by (simp add: SetKeepAlive_def)
    obtain rl w1 where l: "on_link (UplinkLogon ether_itf (sp_link p) fuel) (set_line False v1) = Inr (rl, w1)"
      using e unfolding EtherLogon_def Let_def k
      by (cases "on_link (UplinkLogon ether_itf (sp_link p) fuel) (set_line False v1)") auto
    obtain c' pkt' e' where u: "UplinkLogon ether_itf (sp_link p) fuel (sv_fsm v1) (sv_snd v1) ((sv_sock v1)\<lparr>sk_line := False\<rparr>) = Inr (rl, c', pkt', e')"
        "w1 = (set_line False v1)\<lparr>sv_fsm := c', sv_snd := pkt', sv_sock := e'\<rparr>"
      using l by (auto simp: on_link_def bind_run_def set_line_def split: sum.splits prod.splits)
    have off: "\<not> sk_line e'" using ether_off.Logon_keeps[OF _ u(1)] by simp
    show ?thesis
    proof (cases "rl = 0")
      case True
      then have "r = 0" "logged_on v1 w" using EtherLogon_answer[OF l n] e by auto
      then show ?thesis using f u(1) True \<open>rc = 0\<close> by (auto simp: logged_on_def)
    next
      case False
      then have "r = 1" "w = EtherDisconnect w1" using EtherLogon_answer[OF l n] e by auto
      then show ?thesis using f u(2) off by (simp add: EtherDisconnect_def CLOSE_SOCKET_def set_line_def)
    qed
  qed
qed

lemma and_not_none: "(m :: u32) AND x = 0 \<Longrightarrow> x AND NOT m = x"
proof -
  assume a: "m AND x = 0"
  have "x = (x AND m) OR (x AND NOT m)" by (metis and.right_neutral bit.conj_disj_distrib bit.disj_cancel_right)
  then show "x AND NOT m = x" using a by (simp add: and.commute)
qed

lemma note_bit_set: "SVREV_NOTE \<noteq> 0"
  by (simp add: SVREV_NOTE_def)

lemma note_phase_off:
  assumes "\<not> sk_line (sv_sock v)"
  shows "note_phase p fuel v = Inr (v\<lparr>sv_event := sv_event v AND NOT SVREV_NOTE\<rparr>)"
proof -
  obtain ev v1 where p: "SvrCommPeekEvent SVREV_NOTE v = (ev, v1)" by (cases "SvrCommPeekEvent SVREV_NOTE v")
  have v1: "v1 = v\<lparr>sv_event := sv_event v AND NOT SVREV_NOTE\<rparr>"
  proof (cases "SVREV_NOTE AND sv_event v = 0")
    case True
    then have "sv_event v AND SVREV_NOTE = 0" by (metis and.commute)
    then show ?thesis using p and_not_none[OF True] True by (cases v) (simp add: SvrCommPeekEvent_def SysWaitEvent_def)
  next
    case False
    then have "sv_event v AND SVREV_NOTE \<noteq> 0" by (metis and.commute)
    then show ?thesis using p False by (simp add: SvrCommPeekEvent_def SysWaitEvent_def)
  qed
  have k: "v1\<lparr>sv_keep := sv_keep v\<rparr> = v1" by (simp add: v1)
  show ?thesis using assms by (simp add: note_phase_def p RefreshKeepAlive_def k v1)
qed

lemma set_addr_append: "6 \<le> length xs \<Longrightarrow> set_addr d (xs @ ys) = set_addr d xs @ ys"
  by (simp add: set_addr_def list_update_append)

lemma framed_cong: "take 18 a = take 18 b \<Longrightarrow> pkt_len a = 8 \<Longrightarrow> framed a = framed b"
proof -
  assume t: "take 18 a = take 18 b" and l: "pkt_len a = 8"
  have "pkt_len b = 8" using pkt_len_take[of 18 a] pkt_len_take[of 18 b] t l by simp
  then show "framed a = framed b" using t l by (simp add: framed_def)
qed

lemma note_pkt_facts:
  "length bs = 8 \<Longrightarrow> length (note_pkt cmd bs (replicate 256 0)) = 256" "pkt_len (note_pkt cmd bs (replicate 256 0)) = 8"
  "note_pkt cmd bs (replicate 256 0) ! 0 = UPLINK_HEAD" "note_pkt cmd bs (replicate 256 0) ! 6 = UPLINK_HEAD"
proof -
  show "length bs = 8 \<Longrightarrow> length (note_pkt cmd bs (replicate 256 0)) = 256" by (simp add: note_pkt_def FAAL_SETLEN_def Let_def)
  have e: "hi8 (8::u16) = 0" "lo8 (8::u16) = 8" by code_simp+
  have "take 10 (note_pkt cmd bs (replicate 256 0)) = [0x68, 0, 0, 0, 0, 0, 0x68, cmd, 0, 8]"
    by (simp add: note_pkt_def FAAL_SETLEN_def Let_def e) (simp add: numeral_eq_Suc)
  then have n: "note_pkt cmd bs (replicate 256 0) ! i = [0x68, 0, 0, 0, 0, 0, 0x68, cmd, 0, 8] ! i" if "i < 10" for i
    using that by (metis nth_take)
  show "pkt_len (note_pkt cmd bs (replicate 256 0)) = 8" by (simp add: pkt_len_def n makepkt_short_def unat_u16_of)
  show "note_pkt cmd bs (replicate 256 0) ! 0 = UPLINK_HEAD" "note_pkt cmd bs (replicate 256 0) ! 6 = UPLINK_HEAD"
    by (simp_all add: n UPLINK_HEAD_def)
qed

lemma note_frame_valid: "length bs = 8 \<Longrightarrow> valid_frame (note_frame p cmd bs)"
  unfolding note_frame_def by (rule valid_framed) (simp_all add: note_pkt_facts set_addr_nth MAXLEN_GPRSITF_BUF_def)

lemma send_note_frame:
  assumes "sk_open (sv_sock v)" "sk_fail (sv_sock v) = []" "pkt_len buf = 8" "length buf = 256"
  shows "send_note p buf v = Inr (framed (set_addr (lp_deviceid (sp_link p)) buf) @ drop 21 (set_addr (lp_deviceid (sp_link p)) buf),
    v\<lparr>sv_sock := (sv_sock v)\<lparr>sk_sent := sk_sent (sv_sock v) @ [framed (set_addr (lp_deviceid (sp_link p)) buf)]\<rparr>\<rparr>)"
  using assms UplinkSendPktG_framed[of buf "itf_rawsend ether_itf" "lp_deviceid (sp_link p)" "sv_sock v"]
  by (simp add: send_note_def ether_itf_def EtherRawSend_def send_next_def)

lemma take_set_addr: "10 \<le> length xs \<Longrightarrow> take 10 (set_addr d xs) = set_addr d (take 10 xs)"
  using set_addr_append[of "take 10 xs" d "drop 10 xs"] by simp

lemma alarm_head_start: "alarm_head p (note_pkt 0x02 (replicate 8 0) (replicate 256 0))"
  by (simp add: alarm_head_def note_pkt_facts take_set_addr)

lemma alarm_head_next:
  assumes "alarm_head p buf" "length bs = 8"
  defines "b \<equiv> set_addr (lp_deviceid (sp_link p)) (take 10 buf @ bs @ drop 18 buf)"
  shows "framed b = note_frame p 0x02 bs" "alarm_head p (framed b @ drop 21 b)" "pkt_len (take 10 buf @ bs @ drop 18 buf) = 8"
    "length (take 10 buf @ bs @ drop 18 buf) = 256"
proof -
  let ?d = "lp_deviceid (sp_link p)"
  have h: "length buf = 256" "pkt_len buf = 8" using assms(1) by (simp_all add: alarm_head_def)
  show l: "pkt_len (take 10 buf @ bs @ drop 18 buf) = 8"
    using h pkt_len_take[of 10 "take 10 buf @ bs @ drop 18 buf"] pkt_len_take[of 10 buf] by simp
  show n: "length (take 10 buf @ bs @ drop 18 buf) = 256" using h assms(2) by simp
  have b: "b = set_addr ?d (take 10 buf) @ bs @ drop 18 buf" using h by (simp add: b_def set_addr_append)
  have "take 18 b = set_addr ?d (take 10 buf) @ bs" using h assms(2) by (simp add: b)
  moreover have "take 18 (set_addr ?d (note_pkt 0x02 bs (replicate 256 0))) =
      take 10 (set_addr ?d (note_pkt 0x02 (replicate 8 0) (replicate 256 0))) @ bs"
    using assms(2) by (simp add: note_pkt_def Let_def FAAL_SETLEN_def set_addr_append)
  ultimately have t: "take 18 b = take 18 (set_addr ?d (note_pkt 0x02 bs (replicate 256 0)))" using assms(1) by (simp add: alarm_head_def)
  have pb: "pkt_len b = 8" using l by (simp add: b_def)
  show "framed b = note_frame p 0x02 bs" unfolding note_frame_def by (rule framed_cong[OF t pb])
  have lb: "length b = 256" using n by (simp add: b_def)
  have "take 10 (framed b @ drop 21 b) = take 10 b"
    using lb pb by (simp add: framed_def Let_def)
  moreover have "set_addr ?d (take 10 b) = take 10 b"
    using take_set_addr[of b ?d] lb by (simp add: b_def set_addr_twice)
  moreover have "take 10 b = set_addr ?d (take 10 buf)" using h by (simp add: b)
  ultimately show "alarm_head p (framed b @ drop 21 b)"
    using assms(1) lb pb pkt_len_framed[of b "drop 21 b"] by (simp add: alarm_head_def length_framed)
qed

lemma ActiveSendAlarm_bytes: "ActiveSendAlarm al = (Some bs, al') \<Longrightarrow> length bs = 8"
  by (auto simp: ActiveSendAlarm_def FormatAlarm_def Let_def split: if_splits)

lemma AlarmProc_sending_all:
  assumes "AlarmProc_loop fuel (sv_alarm v) = Some (out, al)" "sk_open (sv_sock v)" "sk_fail (sv_sock v) = []" "alarm_head p buf"
  shows "AlarmProc_sending p fuel buf v =
    Inr (v\<lparr>sv_alarm := al, sv_sock := (sv_sock v)\<lparr>sk_sent := sk_sent (sv_sock v) @ map (note_frame p 0x02) out\<rparr>\<rparr>)"
  using assms unfolding AlarmProc_loop_def
proof (induction fuel arbitrary: v out buf)
  case (Suc fuel)
  obtain x al1 where a: "ActiveSendAlarm (sv_alarm v) = (x, al1)" by (cases "ActiveSendAlarm (sv_alarm v)")
  show ?case
  proof (cases x)
    case None
    then show ?thesis using Suc.prems(1) a by simp
  next
    case (Some bs)
    obtain out1 where o: "drain ActiveSendAlarm fuel al1 = Some (out1, al)" "out = bs # out1"
      using Suc.prems(1) a Some by (auto split: option.splits)
    have l: "length bs = 8" using ActiveSendAlarm_bytes a Some by simp
    note h = alarm_head_next[OF Suc.prems(4) l]
    let ?v = "v\<lparr>sv_alarm := al1\<rparr>"
    have s: "send_note p (take 10 buf @ bs @ drop 18 buf) ?v = Inr (framed (set_addr (lp_deviceid (sp_link p)) (take 10 buf @ bs @ drop 18 buf)) @
        drop 21 (set_addr (lp_deviceid (sp_link p)) (take 10 buf @ bs @ drop 18 buf)),
        ?v\<lparr>sv_sock := (sv_sock v)\<lparr>sk_sent := sk_sent (sv_sock v) @ [note_frame p 0x02 bs]\<rparr>\<rparr>)"
      using send_note_frame[OF _ _ h(3,4), of ?v p] Suc.prems(2,3) h(1) by simp
    show ?thesis using a Some s o Suc.IH[of "?v\<lparr>sv_sock := (sv_sock v)\<lparr>sk_sent := sk_sent (sv_sock v) @ [note_frame p 0x02 bs]\<rparr>\<rparr>" out1, OF _ _ _ h(2)] Suc.prems(2,3)
      by simp
  qed
qed simp

lemma sensor_data:
  assumes "devices_ok (sv_dev v)"
  shows "take MAX_RUNSTATE (drop (mdb_runstate (nat (UpdateSensorId (sv_dev v))) 0) (MdbCurData (sv_dev v))) = sensor_states v"
proof -
  have n: "mdb_runstate (nat (UpdateSensorId (sv_dev v))) 0 = 9 * nat (UpdateSensorId (sv_dev v)) + 1"
    by (simp add: mdb_runstate_def MDBCUR_SIZE_def nat_add_distrib nat_mult_distrib)
  have l: "length (MdbCurData (sv_dev v)) = 2304" using assms by (simp add: devices_ok_def MDBCUR_SIZE_def MAX_METER_dl_def)
  have "nat (UpdateSensorId (sv_dev v)) \<le> 255" using assms unfolding devices_ok_def by linarith
  then show ?thesis unfolding n using l by (intro nth_equalityI) (auto simp: sensor_states_def MAX_RUNSTATE_def simp del: upt_rec_numeral)
qed

lemma length_sensor_states [simp]: "length (sensor_states v) = 8" by (simp add: sensor_states_def)

lemma SensorDataProc_sends:
  assumes "devices_ok (sv_dev v)" "sk_open (sv_sock v)" "sk_fail (sv_sock v) = []"
  shows "SensorDataProc p v = Inr (0, v\<lparr>sv_sock := (sv_sock v)\<lparr>sk_sent := sk_sent (sv_sock v) @
    [note_frame p (if UpdateSensorId (sv_dev v) = 240 then 0x8B else 0x88) (sensor_states v)]\<rparr>\<rparr>)"
  using assms by (simp add: SensorDataProc_def Let_def sensor_data send_note_frame note_pkt_facts note_frame_def)

lemma AlarmProc_all:
  assumes "ring_ok (al_run (sv_alarm v))" "length (al_cache (sv_alarm v)) = MAX_ALARM" "1024 \<le> fuel" "sk_open (sv_sock v)" "sk_fail (sv_sock v) = []"
  shows "\<exists>al sys. AlarmProc p fuel v = Inr (0, v\<lparr>sv_alarm := al, sv_system := sys, sv_sock := (sv_sock v)\<lparr>sk_sent := sk_sent (sv_sock v) @
      map (\<lambda>i. note_frame p 0x02 (FormatAlarm (al_cache (sv_alarm v) ! i))) (unsent (al_run (sv_alarm v)))\<rparr>\<rparr>) \<and>
    unsent (al_run al) = [] \<and> ring_ok (al_run al)"
proof -
  obtain al where al: "AlarmProc_loop fuel (sv_alarm v) = Some (map (\<lambda>i. FormatAlarm (al_cache (sv_alarm v) ! i)) (unsent (al_run (sv_alarm v))), al)"
      "unsent (al_run al) = []" "ring_ok (al_run al)"
    using AlarmProc_sends[OF assms(1-3)] by blast
  show ?thesis unfolding AlarmProc_def AlarmProc_sending_all[OF al(1) assms(4,5) alarm_head_start]
    using al(2,3) by (intro exI[of _ al] exI[of _ "if sp_filedays p = 0 \<and> sp_wifi_idle p then sv_system v @ [''wifi up''] else sv_system v"])
      (simp add: comp_def)
qed

text \<open>The notes that a round finds are sent and cleared.\<close>

lemma SvrNoteProc_sends:
  assumes "ring_ok (al_run (sv_alarm v))" "length (al_cache (sv_alarm v)) = MAX_ALARM" "1024 \<le> fuel" "sk_open (sv_sock v)" "sk_fail (sv_sock v) = []"
    "devices_ok (sv_dev v)"
  shows "\<exists>w. SvrNoteProc p fuel v = Inr (1, w) \<and> sk_sent (sv_sock w) = sk_sent (sv_sock v) @ note_frames p v \<and>
    SvrCommNoteId (sv_dev w) = SvrCommNoteId (sv_dev v) AND NOT SVRNOTEID_ALARM AND NOT SVRNOTEID_UPSENSOR AND NOT SVREV_NOTE \<and>
    sv_event w = sv_event v \<and> sk_line (sv_sock w) = sk_line (sv_sock v) \<and> sk_open (sv_sock w) \<and>
    (has_note SVRNOTEID_ALARM v \<longrightarrow> unsent (al_run (sv_alarm w)) = [])"
proof -
  obtain al sys where a: "AlarmProc p fuel v = Inr (0, v\<lparr>sv_alarm := al, sv_system := sys, sv_sock := (sv_sock v)\<lparr>sk_sent := sk_sent (sv_sock v) @
      map (\<lambda>i. note_frame p 0x02 (FormatAlarm (al_cache (sv_alarm v) ! i))) (unsent (al_run (sv_alarm v)))\<rparr>\<rparr>)" "unsent (al_run al) = []"
    using AlarmProc_all[OF assms(1-5), of p] by blast
  define v1 where "v1 = (if has_note SVRNOTEID_ALARM v then clear_note SVRNOTEID_ALARM (v\<lparr>sv_alarm := al, sv_system := sys,
      sv_sock := (sv_sock v)\<lparr>sk_sent := sk_sent (sv_sock v) @
      map (\<lambda>i. note_frame p 0x02 (FormatAlarm (al_cache (sv_alarm v) ! i))) (unsent (al_run (sv_alarm v)))\<rparr>\<rparr>) else v)"
  have p1: "(if has_note SVRNOTEID_ALARM v
        then bind_run (AlarmProc p fuel v) (\<lambda>(rtn, v). Inr (if rtn \<noteq> 0 then (True, v) else (False, clear_note SVRNOTEID_ALARM v)))
        else Inr (False, v)) = Inr (False, v1)"
    by (simp add: a(1) v1_def)
  have d1: "MdbCurData (sv_dev v1) = MdbCurData (sv_dev v)" "UpdateSensorId (sv_dev v1) = UpdateSensorId (sv_dev v)"
      "SvrCommNoteId (sv_dev v1) = SvrCommNoteId (sv_dev v) AND NOT SVRNOTEID_ALARM"
      "sk_open (sv_sock v1)" "sk_fail (sv_sock v1) = []" "sv_event v1 = sv_event v" "sk_line (sv_sock v1) = sk_line (sv_sock v)"
      "has_note SVRNOTEID_ALARM v \<longrightarrow> sv_alarm v1 = al"
    using assms(4,5) by (simp_all add: v1_def clear_note_def has_note_def and_not_none)
  have h: "has_note SVRNOTEID_UPSENSOR v1 = has_note SVRNOTEID_UPSENSOR v"
  proof -
    have "SVRNOTEID_UPSENSOR AND NOT SVRNOTEID_ALARM = SVRNOTEID_UPSENSOR" by code_simp
    moreover have "SVRNOTEID_UPSENSOR AND (x AND NOT SVRNOTEID_ALARM) = (SVRNOTEID_UPSENSOR AND NOT SVRNOTEID_ALARM) AND x" for x
      by (simp only: ac_simps)
    ultimately show ?thesis by (simp only: has_note_def d1(3))
  qed
  have s1: "sensor_states (clear_note b v1) = sensor_states v" for b by (simp add: sensor_states_def clear_note_def d1(1,2))
  define v2 where "v2 = (if has_note SVRNOTEID_UPSENSOR v then (clear_note SVRNOTEID_UPSENSOR v1)\<lparr>sv_sock := (sv_sock v1)\<lparr>sk_sent := sk_sent (sv_sock v1) @
      [note_frame p (if UpdateSensorId (sv_dev v) = 240 then 0x8B else 0x88) (sensor_states v)]\<rparr>\<rparr> else v1)"
  have do2: "devices_ok (sv_dev (clear_note b v1))" for b using assms(6) by (simp add: devices_ok_def clear_note_def d1(1,2))
  have p2: "(if has_note SVRNOTEID_UPSENSOR v1
       then bind_run (SensorDataProc p (clear_note SVRNOTEID_UPSENSOR v1)) (\<lambda>(_, v). Inr v) else Inr v1) = Inr v2"
    using SensorDataProc_sends[OF do2, of SVRNOTEID_UPSENSOR p] d1
    by (simp add: h v2_def s1) (simp add: clear_note_def)
  have u: "SvrCommNoteId (sv_dev v2) = SvrCommNoteId (sv_dev v) AND NOT SVRNOTEID_ALARM AND NOT SVRNOTEID_UPSENSOR"
  proof (cases "has_note SVRNOTEID_UPSENSOR v1")
    case True
    then show ?thesis using d1(3) by (simp add: v2_def clear_note_def h and.assoc)
  next
    case False
    then have "SVRNOTEID_UPSENSOR AND SvrCommNoteId (sv_dev v1) = 0" "v2 = v1" by (simp add: has_note_def, simp add: v2_def h)
    then show ?thesis using and_not_none[of SVRNOTEID_UPSENSOR "SvrCommNoteId (sv_dev v1)"] d1(3) by (simp add: and.assoc)
  qed
  have n: "SvrNoteProc p fuel v = Inr (1, clear_note SVREV_NOTE v2)"
    unfolding SvrNoteProc_def p1 by (simp add: p2)
  have snt: "sk_sent (sv_sock v2) = sk_sent (sv_sock v) @ note_frames p v"
    by (simp add: v2_def v1_def note_frames_def clear_note_def)
  have al2: "sv_alarm v2 = sv_alarm v1" by (simp add: v2_def clear_note_def)
  show ?thesis
    using n u snt d1 al2 a(2) by (intro exI[of _ "clear_note SVREV_NOTE v2"]) (simp add: clear_note_def v2_def and.assoc)
qed

subsection \<open>The rest of a round\<close>

text \<open>No call of the socket takes back what was sent.\<close>

interpretation ether_sent: link_invariant ether_itf "\<lambda>e. \<exists>more. sk_sent e = sent @ more" for sent
  by unfold_locales
    (auto simp: ether_itf_def EtherGetChar_def EtherRawSend_def take_char_def recv_next_def send_next_def
      split: if_splits prod.splits recv_result.splits option.splits list.splits)

lemma goes_on_refl: "goes_on v v"
  by (simp add: goes_on_def)

lemma goes_on_trans: "goes_on u v \<Longrightarrow> goes_on v w \<Longrightarrow> goes_on u w"
  by (auto simp: goes_on_def or.assoc)

lemma goes_on_keeps:
  "sk_sent (sv_sock w) = sk_sent (sv_sock v) \<Longrightarrow> sv_alarm w = sv_alarm v \<Longrightarrow> sv_dev w = sv_dev v \<Longrightarrow> goes_on v w"
  by (simp add: goes_on_def)

lemma on_link_goes_on:
  assumes "on_link f v = Inr (r, w)"
    and "\<And>r c pkt e. f (sv_fsm v) (sv_snd v) (sv_sock v) = Inr (r, c, pkt, e) \<Longrightarrow> \<exists>more. sk_sent e = sk_sent (sv_sock v) @ more"
  shows "goes_on v w"
  using assms(1) assms(2) by (auto simp: on_link_def goes_on_def bind_run_def split: sum.splits prod.splits)

lemma calls_go_on:
  "on_link (UplinkLogon ether_itf q fuel) v = Inr (r, w) \<Longrightarrow> goes_on v w"
  "on_link (UplinkLinkTest ether_itf q fuel) v = Inr (r, w) \<Longrightarrow> goes_on v w"
  "on_link (UplinkCheckVer ether_itf q fuel) v = Inr (r, w) \<Longrightarrow> goes_on v w"
  "on_link (UplinkDeviceCheck ether_itf q days fuel) v = Inr (r, w) \<Longrightarrow> goes_on v w"
     apply (erule on_link_goes_on, rule ether_sent.Logon_keeps[rotated], assumption, simp)
    apply (erule on_link_goes_on, unfold UplinkLinkTest_def, rule ether_sent.ActiveSend_keeps[rotated], assumption, simp)
   apply (erule on_link_goes_on, unfold UplinkCheckVer_def, rule ether_sent.ActiveSend_keeps[rotated], assumption, simp)
  apply (erule on_link_goes_on, unfold UplinkDeviceCheck_def Let_def, rule ether_sent.ActiveSend_keeps[rotated], assumption, simp)
  done

lemma reply_goes_on: "goes_on v (reply ether_itf p pkt v)"
proof -
  obtain r pkt' e where s: "faal_sendpkt (itf_rawsend ether_itf) FAAL_SNDMAX (lp_deviceid (sp_link p)) pkt (sv_sock v) = (r, pkt', e)"
    by (cases "faal_sendpkt (itf_rawsend ether_itf) FAAL_SNDMAX (lp_deviceid (sp_link p)) pkt (sv_sock v)")
  have "\<exists>more. sk_sent e = sk_sent (sv_sock v) @ more"
    using s ether_sent.send_keeps[of "sv_sock v" "sk_sent (sv_sock v)"]
    by (auto simp: faal_sendpkt_def Let_def split: prod.splits if_splits) 
  then show ?thesis by (simp add: reply_def s goes_on_def)
qed

lemma message_goes_on: "SvrMessageProc ether_itf p v = Inr w \<Longrightarrow> goes_on v w"
proof -
  assume a: "SvrMessageProc ether_itf p v = Inr w"
  define v1 where "v1 = v\<lparr>sv_snd := (sv_snd v)[7 := pkt_cmd (rcvbuf (sv_fsm v))]\<rparr>"
  have 1: "goes_on v v1" by (simp add: v1_def goes_on_keeps)
  have r: "pf p v1 = Inr (r, u) \<Longrightarrow> goes_on v1 u" if "map_of (g_srvmsg_flist ether_itf) c = Some pf" for pf r u c
    using map_of_SomeD[OF that]
    by (auto simp: g_srvmsg_flist_def svr_login_terminal_def svr_heart_beat_def svr_update_audio_url_def svr_device_check_result_def Let_def
        intro: reply_goes_on intro!: goes_on_keeps[of "_\<lparr>DeviceCheckResultFlag := _\<rparr>"] goes_on_keeps[of "_\<lparr>audiourl := _, UpdateAudiourlFlag := _\<rparr>"]
        split: if_splits option.splits)
  show ?thesis
    using a 1 unfolding SvrMessageProc_def Let_def v1_def[symmetric]
    by (auto simp: bind_run_def split: if_splits option.splits sum.splits prod.splits dest: r intro: goes_on_trans reply_goes_on)
qed

lemma EtherConnect_goes_on: "EtherConnect v = (r, w) \<Longrightarrow> goes_on v w"
  by (auto simp: EtherConnect_def CLOSE_SOCKET_def Let_def intro!: goes_on_keeps split: list.splits if_splits)

lemma set_line_goes_on: "goes_on v (set_line b v)" "goes_on v (EtherDisconnect v)"
  by (simp_all add: set_line_def EtherDisconnect_def CLOSE_SOCKET_def goes_on_keeps)

lemma bind_run_Inr: "bind_run x f = Inr y \<longleftrightarrow> (\<exists>a. x = Inr a \<and> f a = Inr y)"
  by (cases x) simp_all

lemma EtherLogon_goes_on:
  assumes "EtherLogon p fuel v = Inr (r, w)" shows "goes_on v w"
proof -
  define v0 where "v0 = set_line False (v\<lparr>sv_keep := SetKeepAlive KEEPALIVE_FLAG_LOGONFAIL (sv_keep v)\<rparr>)"
  have 0: "goes_on v v0" by (simp add: v0_def set_line_def goes_on_keeps)
  obtain rl w1 where l: "on_link (UplinkLogon ether_itf (sp_link p) fuel) v0 = Inr (rl, w1)"
    using assms unfolding EtherLogon_def Let_def v0_def[symmetric] by (auto simp: bind_run_Inr)
  note 1 = goes_on_trans[OF 0 calls_go_on(1)[OF l]]
  show ?thesis
  proof (cases "rl = 0")
    case False
    then show ?thesis using assms 1 unfolding EtherLogon_def Let_def v0_def[symmetric] l
      by (auto intro: goes_on_trans set_line_goes_on)
  next
    case True
    let ?w = "w1\<lparr>login_update_system := 1, login_down_musice := 1\<rparr>"
    have 2: "goes_on v ?w" by (rule goes_on_trans[OF 1]) (simp add: goes_on_keeps)
    obtain r2 w2 r3 w3 where d: "on_link (UplinkDeviceCheck ether_itf (sp_link p) (sp_filedays p) fuel) ?w = Inr (r2, w2)"
        "on_link (UplinkCheckVer ether_itf (sp_link p) fuel) w2 = Inr (r3, w3)"
        "w = SvrCommNote_event SVRNOTEID_ALARM ((set_line True w3)\<lparr>sv_keep := SetKeepAlive KEEPALIVE_FLAG_LOGONOK (sv_keep (set_line True w3))\<rparr>)"
      using assms True unfolding EtherLogon_def Let_def v0_def[symmetric] l by (auto simp: bind_run_Inr)
    have 3: "goes_on v w3" by (rule goes_on_trans[OF goes_on_trans[OF 2 calls_go_on(4)[OF d(1)]] calls_go_on(3)[OF d(2)]])
    have "goes_on w3 w" by (simp add: d(3) goes_on_def SvrCommNote_event_def SvrCommNote_def set_line_def)
    then show ?thesis by (rule goes_on_trans[OF 3])
  qed
qed

lemma reconnect_goes_on: "reconnect p fuel v = Inr (r, w) \<Longrightarrow> goes_on v w"
  by (auto simp: reconnect_def split: prod.splits if_splits dest!: EtherConnect_goes_on EtherLogon_goes_on
      intro: goes_on_trans goes_on_trans[OF goes_on_trans[OF _ set_line_goes_on(2)] set_line_goes_on(1)])

lemma EtherKeepAlive_goes_on:
  assumes "EtherKeepAlive p fuel v = Inr (r, w)" shows "goes_on v w"
proof (cases "sk_line (sv_sock v)")
  case False
  then show ?thesis using assms by (simp add: EtherKeepAlive_def reconnect_goes_on)
next
  case True
  then obtain rt v1 where t: "on_link (UplinkLinkTest ether_itf (sp_link p) fuel) v = Inr (rt, v1)"
    using assms by (auto simp: EtherKeepAlive_def bind_run_Inr)
  note 1 = calls_go_on(2)[OF t]
  let ?d = "EtherDisconnect (set_line False v1)"
  have 2: "goes_on v (?d\<lparr>sv_led_net := sv_led_net ?d @ [False]\<rparr>)" "goes_on v (v1\<lparr>sv_keep := ClearKeepAlive p\<rparr>)"
    by (rule goes_on_trans[OF 1], simp add: goes_on_keeps EtherDisconnect_def set_line_def CLOSE_SOCKET_def)+
  have "UPRTN_FAIL = rt \<or> UPRTN_TIMEOUT = rt \<Longrightarrow> reconnect p fuel (?d\<lparr>sv_led_net := sv_led_net ?d @ [False]\<rparr>) = Inr (r, w)"
    using assms True t by (simp add: EtherKeepAlive_def Let_def)
  moreover have "\<not> (UPRTN_FAIL = rt \<or> UPRTN_TIMEOUT = rt) \<Longrightarrow> UPRTN_OK = rt \<Longrightarrow> w = v1\<lparr>sv_keep := ClearKeepAlive p\<rparr>"
    "\<not> (UPRTN_FAIL = rt \<or> UPRTN_TIMEOUT = rt) \<Longrightarrow> UPRTN_OK \<noteq> rt \<Longrightarrow> SvrMessageProc ether_itf p v1 = Inr w"
    using assms True t by (auto simp: EtherKeepAlive_def bind_run_Inr)
  ultimately show ?thesis using 2 goes_on_trans[OF 2(1) reconnect_goes_on] goes_on_trans[OF 1 message_goes_on] by metis
qed

lemma round_goes_on:
  assumes "note_phase p fuel v = Inr u" "EtherTask_round p fuel v = Inr w"
  shows "goes_on u w"
proof -
  obtain u1 where 1: "(if sk_line (sv_sock u) then recv_command p fuel u else Inr u) = Inr u1" "keep_phase p fuel u1 = Inr w"
    using assms by (auto simp: EtherTask_round_def bind_run_Inr)
  have "recv_command p fuel u = Inr u1 \<Longrightarrow> goes_on u u1"
  proof -
    assume a: "recv_command p fuel u = Inr u1"
    then obtain rt c e where r: "UplinkRecvPkt EtherGetChar (itf_timeout ether_itf) fuel (sv_fsm u) (sv_sock u) = Inr (rt, c, e)"
        "(if rt = 0 then SvrMessageProc ether_itf p (u\<lparr>sv_fsm := c, sv_sock := e\<rparr>) else Inr (u\<lparr>sv_fsm := c, sv_sock := e\<rparr>)) = Inr u1"
      by (auto simp: recv_command_def bind_run_Inr Let_def)
    have g: "itf_getchar ether_itf = EtherGetChar" by (simp add: ether_itf_def)
    have "\<exists>more. sk_sent e = sk_sent (sv_sock u) @ more"
      using ether_sent.recv_loop_keeps[of "sv_sock u" "sk_sent (sv_sock u)", unfolded g] r(1) by (simp add: UplinkRecvPkt_def) 
    then have "goes_on u (u\<lparr>sv_fsm := c, sv_sock := e\<rparr>)" by (simp add: goes_on_def)
    then show "goes_on u u1" using r(2) message_goes_on goes_on_trans by (metis sum.inject(2))
  qed
  then have 2: "goes_on u u1" using 1(1) goes_on_refl by (auto split: if_splits)
  obtain r k where k: "KeepAliveProc p (sk_line (sv_sock u1)) (sv_keep u1) = (r, k)" by (cases "KeepAliveProc p (sk_line (sv_sock u1)) (sv_keep u1)")
  have 3: "goes_on u (u1\<lparr>sv_keep := k\<rparr>)" by (rule goes_on_trans[OF 2]) (simp add: goes_on_keeps)
  show ?thesis using 1(2) k 3 by (auto simp: keep_phase_def bind_run_Inr Let_def split: if_splits intro: goes_on_trans EtherKeepAlive_goes_on)
qed

lemma faal_makepkt_bytes:
  assumes "pkt_len pkt \<le> FAAL_SNDMAX" "10 \<le> length pkt"
  shows "fst (faal_makepkt FAAL_SNDMAX d pkt) = int (pkt_len pkt) + 13" "length (snd (faal_makepkt FAAL_SNDMAX d pkt)) = length pkt"
    "8 \<le> i \<Longrightarrow> snd (faal_makepkt FAAL_SNDMAX d pkt) ! i = pkt ! i" "snd (faal_makepkt FAAL_SNDMAX d pkt) ! 7 = pkt ! 7 OR FAALMASK_DIR"
  using assms by (auto simp: faal_makepkt_def Let_def set_addr_nth LEN_FAAL_HEAD_def)

lemma reply_sends:
  assumes "pkt_len pkt \<le> FAAL_SNDMAX" "10 \<le> length pkt"
  shows "reply pitf p pkt v = v\<lparr>sv_snd := snd (faal_makepkt FAAL_SNDMAX (lp_deviceid (sp_link p)) pkt),
    sv_sock := snd (itf_rawsend pitf (reply_frame p pkt) (sv_sock v))\<rparr>"
proof -
  obtain n q where f: "faal_makepkt FAAL_SNDMAX (lp_deviceid (sp_link p)) pkt = (n, q)" by (cases "faal_makepkt FAAL_SNDMAX (lp_deviceid (sp_link p)) pkt")
  have "n = int (pkt_len pkt) + 13" using faal_makepkt_bytes(1)[OF assms, of "lp_deviceid (sp_link p)"] f by simp
  then have "n \<noteq> - 1" "nat n = pkt_len pkt + 13" by simp_all
  then show ?thesis by (simp add: reply_def faal_sendpkt_def f reply_frame_def split: prod.split)
qed

lemma reply_frame_facts:
  assumes "pkt_len pkt \<le> FAAL_SNDMAX" "pkt_len pkt + 13 \<le> length pkt"
  shows "length (reply_frame p pkt) = pkt_len pkt + 13" "reply_frame p pkt ! 7 = pkt ! 7 OR FAALMASK_DIR"
    "8 \<le> i \<Longrightarrow> i < pkt_len pkt + 13 \<Longrightarrow> reply_frame p pkt ! i = pkt ! i"
  using assms faal_makepkt_bytes[where pkt = pkt and d = "lp_deviceid (sp_link p)"] by (auto simp: reply_frame_def)

lemma SETLEN_facts:
  assumes "10 \<le> length pkt"
  shows "pkt_len (FAAL_SETLEN pkt n) = unat n" "length (FAAL_SETLEN pkt n) = length pkt" "i < 8 \<Longrightarrow> FAAL_SETLEN pkt n ! i = pkt ! i"
    "10 \<le> i \<Longrightarrow> FAAL_SETLEN pkt n ! i = pkt ! i"
  using assms by (auto simp: FAAL_SETLEN_def pkt_len_def makepkt_short_def)

lemma cmd_cases:
  "map_of (g_srvmsg_flist pitf) c = (if c = 0x25 then Some (svr_login_terminal pitf) else if c = 0x23 then Some (svr_heart_beat pitf)
     else if c = 3 then Some (svr_update_audio_url pitf) else if c = 1 then Some (svr_device_check_result pitf) else None)"
  by (auto simp: g_srvmsg_flist_def FAALCMD_LOGIN_def FAALCMD_HEARTBEAT_def FAALCMD_UPDATEAUDIOSTR_def FAALCMD_DEVICECHECK_def)

lemma answered_reply:
  assumes "pkt_len pkt \<le> FAAL_SNDMAX" "length pkt = 1152"
  shows "answered pitf v [reply_frame p pkt] (reply pitf p pkt (v\<lparr>sv_snd := x\<rparr>))"
  using assms faal_makepkt_bytes(2)[of pkt "lp_deviceid (sp_link p)"] by (auto simp: reply_sends answered_def)

lemma answered_none: "length s = 1152 \<Longrightarrow> answered pitf v [] (v\<lparr>sv_snd := s\<rparr>)"
  by (auto simp: answered_def)

lemma sample_server_facts:
  "length (sv_snd sample_server) = 1152" "fsm_ok (sv_fsm sample_server)" "stat (sv_fsm sample_server) = 0" "length (audiourl sample_server) = 512"
  "\<not> sk_line (sv_sock sample_server)" "sk_fail (sv_sock sample_server) = []" "devices_ok (sv_dev sample_server)"
  "ring_ok (al_run (sv_alarm sample_server))" "length (al_cache (sv_alarm sample_server)) = MAX_ALARM" "unsent (al_run (sv_alarm sample_server)) = [0]"
  by (simp_all add: sample_server_def idle_sock_def devices_ok_def MDBCUR_SIZE_def MAX_METER_dl_def full_ring_def ring_ok_def MAX_ALARM_def unsent_def snd_index_def)

lemma message_answered:
  assumes "length (rcvbuf (sv_fsm v)) = 1152" "pkt_len (rcvbuf (sv_fsm v)) \<le> 1014" "length (sv_snd v) = 1152" "length (audiourl v) = 512"
  shows "let n = pkt_len (rcvbuf (sv_fsm v)); data = drop 10 (rcvbuf (sv_fsm v)); r = SvrMessageProc pitf p v in
    (svr_cmd v = 0x25 \<longrightarrow> (\<exists>w b. r = Inr w \<and> answered pitf v [b] w \<and> length b = 14 \<and> b ! 7 = 0xa5 \<and>
       b ! 10 = (if take 32 (drop 32 data) = take 32 (sp_termip_pwd p) then FAALERR_OK else FAALERR_PWERR))) \<and>
    (svr_cmd v = 0x23 \<longrightarrow> (\<exists>w b. r = Inr w \<and> answered pitf v [b] w \<and> length b = 13 \<and> b ! 7 = 0xa3)) \<and>
    (svr_cmd v = 3 \<and> n \<le> 512 \<longrightarrow> (\<exists>w b. r = Inr w \<and> length b = 13 \<and> b ! 7 = pkt_cmd (rcvbuf (sv_fsm v)) OR 0x80 \<and>
       answered pitf (v\<lparr>audiourl := take n data @ drop n (audiourl v), UpdateAudiourlFlag := 1\<rparr>) [b] w)) \<and>
    (svr_cmd v = 3 \<and> n > 512 \<longrightarrow> r = Inl OutOfBounds) \<and>
    (svr_cmd v = 1 \<longrightarrow> (\<exists>w. r = Inr w \<and> answered pitf (v\<lparr>DeviceCheckResultFlag := data ! 0\<rparr>) [] w)) \<and>
    (svr_cmd v \<notin> {0x25, 0x23, 3, 1} \<longrightarrow> (\<exists>w. r = Inr w \<and> answered pitf v [] w))"
proof -
  define s where "s = (sv_snd v)[7 := pkt_cmd (rcvbuf (sv_fsm v))]"
  define f where "f = map_of (g_srvmsg_flist pitf) (svr_cmd v)"
  have ls: "length s = 1152" using assms(3) by (simp add: s_def)
  have sm: "FAAL_SNDMAX = 1024" by (simp add: FAAL_SNDMAX_def)
  have r: "SvrMessageProc pitf p v = (case f of None \<Rightarrow> Inr (v\<lparr>sv_snd := s\<rparr>)
     | Some pf \<Rightarrow> bind_run (pf p (v\<lparr>sv_snd := s\<rparr>)) (\<lambda>(rtn, v).
         Inr (if rtn \<noteq> 0 then let psend = (sv_snd v)[8 := 0, 9 := 0] in reply pitf p (psend[7 := psend ! 7 OR FAALMASK_DIR]) v else v)))"
    unfolding SvrMessageProc_def Let_def f_def svr_cmd_def s_def using assms(2) by (simp add: FAAL_RCVMAX_def LEN_FAAL_HEAD_def)
  have login: "\<exists>w b. SvrMessageProc pitf p v = Inr w \<and> answered pitf v [b] w \<and> length b = 14 \<and> b ! 7 = 0xa5 \<and>
      b ! 10 = (if take 32 (drop 32 (drop 10 (rcvbuf (sv_fsm v)))) = take 32 (sp_termip_pwd p) then FAALERR_OK else FAALERR_PWERR)"
    if "svr_cmd v = 0x25"
  proof -
    define e where "e = (if take 32 (drop 32 (drop 10 (rcvbuf (sv_fsm v)))) = take 32 (sp_termip_pwd p) then FAALERR_OK else FAALERR_PWERR)"
    define q where "q = (FAAL_SETLEN (s[7 := FAALCMD_ECHO_LOGIN]) 1)[10 := e]"
    have q: "pkt_len q = 1" "length q = 1152" "q ! 7 = FAALCMD_ECHO_LOGIN" "q ! 10 = e"
      using ls by (simp_all add: q_def SETLEN_facts)
    have "SvrMessageProc pitf p v = Inr (reply pitf p q (v\<lparr>sv_snd := s\<rparr>))"
      using that unfolding r f_def cmd_cases by (simp add: svr_login_terminal_def Let_def q_def e_def)
    moreover have "FAALCMD_ECHO_LOGIN OR FAALMASK_DIR = 0xa5" by code_simp
    ultimately show ?thesis unfolding e_def[symmetric]
      using answered_reply[of q pitf v p s] reply_frame_facts[where pkt = q and p = p] q by (auto simp: sm)
  qed
  have beat: "\<exists>w b. SvrMessageProc pitf p v = Inr w \<and> answered pitf v [b] w \<and> length b = 13 \<and> b ! 7 = 0xa3" if "svr_cmd v = 0x23"
  proof -
    define q where "q = FAAL_SETLEN (s[7 := FAALCMD_ECHO_HEARTBEAT]) 0"
    have q: "pkt_len q = 0" "length q = 1152" "q ! 7 = FAALCMD_ECHO_HEARTBEAT"
      using ls by (simp_all add: q_def SETLEN_facts)
    have "SvrMessageProc pitf p v = Inr (reply pitf p q (v\<lparr>sv_snd := s\<rparr>))"
      using that unfolding r f_def cmd_cases by (simp add: svr_heart_beat_def Let_def q_def)
    moreover have "FAALCMD_ECHO_HEARTBEAT OR FAALMASK_DIR = 0xa3" by code_simp
    ultimately show ?thesis
      using answered_reply[of q pitf v p s] reply_frame_facts[where pkt = q and p = p] q by (auto simp: sm)
  qed
  have url: "\<exists>w b. SvrMessageProc pitf p v = Inr w \<and> length b = 13 \<and> b ! 7 = pkt_cmd (rcvbuf (sv_fsm v)) OR 0x80 \<and>
      answered pitf (v\<lparr>audiourl := take (pkt_len (rcvbuf (sv_fsm v))) (drop 10 (rcvbuf (sv_fsm v))) @ drop (pkt_len (rcvbuf (sv_fsm v))) (audiourl v),
        UpdateAudiourlFlag := 1\<rparr>) [b] w" if "svr_cmd v = 3" "pkt_len (rcvbuf (sv_fsm v)) \<le> 512"
  proof -
    let ?v = "v\<lparr>audiourl := take (pkt_len (rcvbuf (sv_fsm v))) (drop 10 (rcvbuf (sv_fsm v))) @ drop (pkt_len (rcvbuf (sv_fsm v))) (audiourl v),
        UpdateAudiourlFlag := 1\<rparr>"
    define q where "q = s[8 := 0, 9 := 0, 7 := s ! 7 OR FAALMASK_DIR]"
    have q: "pkt_len q = 0" "length q = 1152" "q ! 7 = pkt_cmd (rcvbuf (sv_fsm v)) OR FAALMASK_DIR"
      using ls assms(3) by (simp_all add: q_def pkt_len_def makepkt_short_def unat_u16_of) (simp add: s_def)
    have c: "v\<lparr>sv_snd := s, audiourl := a, UpdateAudiourlFlag := 1\<rparr> = v\<lparr>audiourl := a, UpdateAudiourlFlag := 1, sv_snd := s\<rparr>" for a
      by (cases v) simp
    have "SvrMessageProc pitf p v = Inr (reply pitf p q (?v\<lparr>sv_snd := s\<rparr>))"
      using that assms(1,4) unfolding r f_def cmd_cases by (simp add: svr_update_audio_url_def put_at_def Let_def q_def min_def c)
    moreover have "(x OR FAALMASK_DIR) OR FAALMASK_DIR = x OR 0x80" for x by (simp add: or.assoc FAALMASK_DIR_def)
    ultimately show ?thesis
      using answered_reply[of q pitf ?v p s] reply_frame_facts[where pkt = q and p = p] q by (auto simp: sm)
  qed
  have long: "SvrMessageProc pitf p v = Inl OutOfBounds" if "svr_cmd v = 3" "pkt_len (rcvbuf (sv_fsm v)) > 512"
    using that assms(1,2,4) unfolding r f_def cmd_cases by (simp add: svr_update_audio_url_def put_at_def Let_def)
  have check: "\<exists>w. SvrMessageProc pitf p v = Inr w \<and> answered pitf (v\<lparr>DeviceCheckResultFlag := drop 10 (rcvbuf (sv_fsm v)) ! 0\<rparr>) [] w" if "svr_cmd v = 1"
    using that assms(1) unfolding r f_def cmd_cases by (auto simp: svr_device_check_result_def answered_def ls intro!: exI[of _ s])
  have other: "\<exists>w. SvrMessageProc pitf p v = Inr w \<and> answered pitf v [] w" if "svr_cmd v \<notin> {0x25, 0x23, 3, 1}"
    using that unfolding r f_def cmd_cases by (auto intro: answered_none[OF ls])
  show ?thesis unfolding Let_def using login beat url long check other by blast
qed

subsection \<open>Properties\<close>

text \<open>C18: whatever was done to the counters since the start (calls of the task, refreshes, logons that failed or succeeded, tests that were
  answered, with any parameters), while the line stays as it is a test of the link or a trial to connect is due at exactly the call that the times
  say, never later: the counter of the trials is 0, so that the limit of the trials never holds one back. From a cleared state that is the
  period in minutes on line, the time between two trials off line when the period is above three minutes, and a minute when the period is 0.\<close>

theorem keepalive_due:
  fixes ops :: "(svr_para \<times> keep_op) list" and p0 p :: svr_para and online :: bool
  defines "k \<equiv> fold keep_do ops (ClearKeepAlive p0)"
  defines "n \<equiv> nat (due_limit p online k - due_count k)"
  shows "(\<forall>i < n. fst (KeepAliveProc p online ((keep_step p online ^^ i) k)) = 1) \<and>
    fst (KeepAliveProc p online ((keep_step p online ^^ n) k)) = 0 \<and>
    (\<forall>i. ka_cnt_retry ((keep_step p online ^^ i) k) = 0) \<and>
    (let k' = (keep_step p online ^^ Suc n) k in
       ka_cnt_max k' = GetCycKeepAlive p \<and> ka_cnt_getcyc k' = 0 \<and> (ka_cnt k = 0 \<longrightarrow> ka_cnt k' = 0)) \<and>
    due_limit p online (ClearKeepAlive p) - due_count (ClearKeepAlive p) =
      (if sp_keepalive_cyc p = 0 then 600
       else if \<not> online \<and> uint (sp_keepalive_cyc p) > 3 then (if sp_keepalive_dialtime p = 0 then 600 else 10 * uint (sp_keepalive_dialtime p))
       else 600 * uint (sp_keepalive_cyc p))"
proof (intro conjI allI impI)
  have r0: "ka_cnt_retry k = 0" unfolding k_def by (rule keep_ops_retry)
  note e = due_facts[OF r0, of p online]
  have n: "n = 0 \<and> keep_limit p online k \<le> keep_count p online k \<or> keep_count p online k + int n = keep_limit p online k"
    by (auto simp: n_def e)
  have le: "keep_count p online k + int i < keep_limit p online k" if "i < n" for i using n that by auto
  show "fst (KeepAliveProc p online ((keep_step p online ^^ i) k)) = 1" if "i < n" for i
    using keep_steps_wait[of p online k i] le[OF that] by (intro keep_step_wait(1)) simp
  have d: "keep_count p online ((keep_step p online ^^ n) k) \<ge> keep_limit p online ((keep_step p online ^^ n) k)"
    using keep_steps_wait[of p online k n] n by auto
  show "fst (KeepAliveProc p online ((keep_step p online ^^ n) k)) = 0" by (rule keep_step_due(1)[OF d])
  show r: "ka_cnt_retry ((keep_step p online ^^ i) k) = 0" for i by (induction i) (simp_all add: keep_step_retry r0)
  have c: "ka_cnt_max ((keep_step p online ^^ i) k) = ka_cnt_max k \<and>
      ka_cnt ((keep_step p online ^^ i) k) = (if keep_dials p online k \<or> ka_cnt_max k \<ge> 100 then ka_cnt k + int i else ka_cnt k)" if "i \<le> n" for i
    using that
  proof (induction i)
    case (Suc i)
    let ?k = "(keep_step p online ^^ i) k"
    have w: "keep_count p online ?k < keep_limit p online ?k" using keep_steps_wait[of p online k i] le[of i] Suc.prems by simp
    have "ka_cnt_max (keep_step p online ?k) = ka_cnt_max ?k \<and>
      ka_cnt (keep_step p online ?k) = (if keep_dials p online ?k \<or> ka_cnt_max ?k \<ge> 100 then ka_cnt ?k + 1 else ka_cnt ?k)"
      using keep_step_wait(4,5)[OF w] by simp
    moreover have "keep_dials p online ?k = keep_dials p online k" using Suc r[of i] r0 by (simp add: keep_dials_def)
    ultimately show ?case using Suc by simp
  qed simp
  have "keep_dials p online ((keep_step p online ^^ n) k) = keep_dials p online k" using c[of n] r[of n] r0 by (simp add: keep_dials_def)
  then show "let k' = (keep_step p online ^^ Suc n) k in
       ka_cnt_max k' = GetCycKeepAlive p \<and> ka_cnt_getcyc k' = 0 \<and> (ka_cnt k = 0 \<longrightarrow> ka_cnt k' = 0)"
    using keep_step_due(2-4)[OF d] c[of n] by (auto simp: Let_def)
  have "ka_cnt_retry (ClearKeepAlive p) = 0" by (simp add: ClearKeepAlive_def)
  from due_facts(2,3)[OF this, of p online, symmetric]
  show "due_limit p online (ClearKeepAlive p) - due_count (ClearKeepAlive p) =
      (if sp_keepalive_cyc p = 0 then 600
       else if \<not> online \<and> uint (sp_keepalive_cyc p) > 3 then (if sp_keepalive_dialtime p = 0 then 600 else 10 * uint (sp_keepalive_dialtime p))
       else 600 * uint (sp_keepalive_cyc p))" by (simp add: ClearKeepAlive_limit)
qed

text \<open>After three logons that failed a trial is still due after 200 calls.\<close>

theorem keepalive_due_witness:
  "\<exists>p k. k = fold keep_do (replicate 3 (p, DoSet KEEPALIVE_FLAG_LOGONFAIL)) (ClearKeepAlive p) \<and>
     fst (KeepAliveProc p False ((keep_step p False ^^ 199) k)) = 1 \<and> fst (KeepAliveProc p False ((keep_step p False ^^ 200) k)) = 0"
proof -
  define p where "p = \<lparr>sp_link = \<lparr>lp_deviceid = [], lp_com_pwd = [], lp_snd_timeout = 1, lp_snd_retry = 1\<rparr>, sp_keepalive_cyc = 15,
    sp_keepalive_sndretry = 3, sp_keepalive_dialtime = 20, sp_termip_pwd = [], sp_filedays = 0, sp_wifi_idle = True\<rparr>"
  define k where "k = fold keep_do (replicate 3 (p, DoSet KEEPALIVE_FLAG_LOGONFAIL)) (ClearKeepAlive p)"
  have "k = ClearKeepAlive p" by (simp add: k_def SetKeepAlive_def numeral_3_eq_3)
  then have "due_limit p False k = 200" "due_count k = 0" by (simp_all add: due_limit_def due_count_def ClearKeepAlive_def GetCycKeepAlive_def p_def)
  then show ?thesis using keepalive_due[of p False "replicate 3 (p, DoSet KEEPALIVE_FLAG_LOGONFAIL)" p]
    unfolding k_def[symmetric] by (intro exI[of _ p] exI[of _ k]) (auto simp: k_def simp del: fold_replicate)
qed

text \<open>C5: a connection that is made while the line is off logs on when the next bytes the receiver finds are a well-formed frame, in at most
  six pieces, with the echo of the logon: the line is on and the events are noted to be sent. Any other frame closes it. The bytes
  may be what the old connection left unread, then the server has not answered at all; every connection loses one descriptor.\<close>

theorem reconnect_logon:
  assumes v: "\<not> sk_line (sv_sock v)" "sv_connect v = Connected # rs" "sock_ok (sv_sock v)" "sk_fail (sv_sock v) = []" "fsm_ok (sv_fsm v)"
      "stat (sv_fsm v) = 0" "length (sv_snd v) = 1152"
    and f: "valid_frame f"
    and ch: "chunks \<noteq> []" "last chunks \<noteq> []" "concat chunks = f"
      "\<forall>i < length chunks. ether_polls ((sv_sock v)\<lparr>sk_open := True\<rparr>) i = chunks ! i \<and> length (chunks ! i) < fuel"
      "length chunks \<le> 6" "length chunks \<le> unat (lp_snd_timeout (sp_link p)) * 10" "lp_snd_retry (sp_link p) \<noteq> 0"
  shows "if pkt_cmd f = 0x21
    then \<exists>w. EtherKeepAlive p fuel v = Inr (0, w) \<and> logged_on (v\<lparr>sv_connect := rs, sv_leaked := sv_leaked v + 1\<rparr>) w
    else \<exists>w. EtherKeepAlive p fuel v = Inr (1, w) \<and> \<not> sk_open (sv_sock w) \<and> sv_leaked w = sv_leaked v + 1"
proof -
  define v1 where "v1 = v\<lparr>sv_connect := rs, sv_leaked := sv_leaked v + 1, sv_sock := (sv_sock v)\<lparr>sk_open := True\<rparr>\<rparr>"
  have c: "EtherConnect v = (0, v1)" using v(2) by (simp add: EtherConnect_def CLOSE_SOCKET_def Let_def v1_def)
  have e: "EtherKeepAlive p fuel v = EtherLogon p fuel v1" using v(1) by (simp add: EtherKeepAlive_def reconnect_def c)
  let ?e = "sv_sock (set_line False v1)"
  have s: "sock_ok ?e" "sk_open ?e" "sk_fail ?e = []" "fsm_ok (sv_fsm (set_line False v1))" "stat (sv_fsm (set_line False v1)) = 0"
      "length (sv_snd (set_line False v1)) = 1152"
    using v by (simp_all add: set_line_def v1_def)
  have "ether_polls ?e = ether_polls ((sv_sock v)\<lparr>sk_open := True\<rparr>)" by (simp add: set_line_def v1_def)
  then have "\<forall>i < length chunks. ether_polls ?e i = chunks ! i \<and> length (ether_polls ?e i) < fuel" using ch(4) by simp
  from UplinkLogon_answered[OF s f ch(1-3) this ch(5-7)] obtain c' pkt' e' where
    "UplinkLogon ether_itf (sp_link p) fuel (sv_fsm (set_line False v1)) (sv_snd (set_line False v1)) ?e
      = Inr (if pkt_cmd f = 0x21 then 0 else 1, c', pkt', e')" by blast
  then have l: "on_link (UplinkLogon ether_itf (sp_link p) fuel) (set_line False v1) =
      Inr (if pkt_cmd f = 0x21 then 0 else 1, (set_line False v1)\<lparr>sv_fsm := c', sv_snd := pkt', sv_sock := e'\<rparr>)"
    by (simp add: on_link_def)
  have n: "length (sv_snd v1) = 1152" using v by (simp add: v1_def)
  show ?thesis unfolding e using EtherLogon_answer[OF l n]
    by (auto simp: logged_on_def v1_def EtherDisconnect_def CLOSE_SOCKET_def set_line_def split: if_splits)
qed

theorem reconnect_logon_witness:
  "\<exists>f w. pkt_cmd f = 0x21 \<and>
     EtherKeepAlive sample_para 2000 (sample_server\<lparr>sv_sock := idle_sock\<lparr>sk_open := False, sk_buf := f @ replicate (2048 - length f) 0, sk_len := int (length f)\<rparr>\<rparr>) = Inr (0, w) \<and>
     sk_line (sv_sock w)"
proof -
  let ?q = "set_head 0x21 0 (replicate 13 0) :: bytes"
  define f where "f = framed ?q"
  have q: "pkt_len ?q + 13 \<le> length ?q" "?q ! 0 = UPLINK_HEAD" "?q ! 6 = UPLINK_HEAD" "pkt_len ?q + 13 \<le> MAXLEN_GPRSITF_BUF"
    by (simp_all add: MAXLEN_GPRSITF_BUF_def)
  have v: "valid_frame f" unfolding f_def by (rule valid_framed[OF q])
  have cmd: "pkt_cmd f = 0x21" using framed_nth[OF q(1), of 7] set_head_simps(2)[of "replicate 13 0"] by (simp add: f_def pkt_cmd_def)
  have len: "length f = 13" using length_framed[OF q(1)] by (simp add: f_def)
  let ?s = "idle_sock\<lparr>sk_open := False, sk_buf := f @ replicate (2048 - length f) 0, sk_len := int (length f)\<rparr>"
  let ?v = "sample_server\<lparr>sv_sock := ?s\<rparr>"
  have s: "\<not> sk_line (sv_sock ?v)" "sv_connect ?v = Connected # []" "sock_ok (sv_sock ?v)" "sk_fail (sv_sock ?v) = []" "fsm_ok (sv_fsm ?v)"
      "stat (sv_fsm ?v) = 0" "length (sv_snd ?v) = 1152"
    using sample_server_facts len by (simp_all add: idle_sock_def sock_ok_def) (simp add: sample_server_def)
  have ch: "\<forall>i < length [f]. ether_polls ((sv_sock ?v)\<lparr>sk_open := True\<rparr>) i = [f] ! i \<and> length ([f] ! i) < 2000"
    using len by (simp add: ether_polls_def sock_waiting_def idle_sock_def)
  have "[f] \<noteq> []" "last [f] \<noteq> []" "concat [f] = f" "length [f] \<le> 6" "length [f] \<le> unat (lp_snd_timeout (sp_link sample_para)) * 10"
      "lp_snd_retry (sp_link sample_para) \<noteq> 0"
    using len by (auto simp: sample_para_def)
  from reconnect_logon[OF s v this(1-3) ch this(4-6)] cmd show ?thesis
    by (intro exI[of _ f]) (auto simp: logged_on_def)
qed

text \<open>C4: a round that begins off line consumes the event that woke it and counts the time, and until the next trial is due that is
  all it does, to the last field of the state. When it is due, one trial is made: it is exactly one result of the next connection, a socket that is
  closed again unless the logon on it was answered, and then the line is on, the events are noted and the next round is woken. Notes and
  events that wait survive every such round.\<close>

theorem offline_round:
  assumes "\<not> sk_line (sv_sock v)" "length (sv_snd v) = 1152" "EtherTask_round p fuel v = Inr w"
  shows "let (r, k) = KeepAliveProc p False (sv_keep v);
             u = v\<lparr>sv_event := sv_event v AND NOT SVREV_NOTE, sv_keep := k\<rparr>
         in (if r \<noteq> 0 then w = u else trial p fuel u w) \<and>
            sv_alarm w = sv_alarm v \<and> (\<not> sk_line (sv_sock w) \<longrightarrow> sv_dev w = sv_dev v \<and> (r = 0 \<longrightarrow> \<not> sk_open (sv_sock w))) \<and>
            (sk_line (sv_sock w) \<longrightarrow> SvrCommNoteId (sv_dev w) = SvrCommNoteId (sv_dev v) OR SVRNOTEID_ALARM \<and> sv_event w AND SVREV_NOTE \<noteq> 0 \<and>
               r = 0 \<and> (\<exists>rs c pkt e. sv_connect v = Connected # rs \<and>
                 UplinkLogon ether_itf (sp_link p) fuel (sv_fsm v) (sv_snd v) ((sv_sock v)\<lparr>sk_open := True, sk_line := False\<rparr>) = Inr (0, c, pkt, e)))"
proof -
  define v1 where "v1 = v\<lparr>sv_event := sv_event v AND NOT SVREV_NOTE\<rparr>"
  have n: "note_phase p fuel v = Inr v1"
    using note_phase_off[OF assms(1)] by (simp add: v1_def)
  obtain r kk where kp: "KeepAliveProc p False (sv_keep v) = (r, kk)" by (cases "KeepAliveProc p False (sv_keep v)")
  define u where "u = v1\<lparr>sv_keep := kk\<rparr>"
  have off: "\<not> sk_line (sv_sock u)" "length (sv_snd u) = 1152" using assms by (simp_all add: u_def v1_def)
  have e: "EtherTask_round p fuel v = (if r = 0 then bind_run (EtherKeepAlive p fuel u) (\<lambda>(_, v). Inr v) else Inr u)"
    using assms(1) kp by (simp add: EtherTask_round_def n keep_phase_def u_def v1_def)
  have u: "u = v\<lparr>sv_event := sv_event v AND NOT SVREV_NOTE, sv_keep := kk\<rparr>" by (simp add: u_def v1_def)
  show ?thesis
  proof (cases "r = 0")
    case False
    then have "w = u" using e assms(3) by simp
    then show ?thesis using False assms(1) off by (simp add: kp u)
  next
    case True
    have ka: "EtherKeepAlive p fuel u = reconnect p fuel u" using off by (simp add: EtherKeepAlive_def)
    obtain r' where r': "reconnect p fuel u = Inr (r', w)"
      using assms(3) True unfolding e ka by (cases "reconnect p fuel u") auto
    have t: "trial p fuel u w" by (rule reconnect_trial[OF r' off])
    have f: "sv_alarm u = sv_alarm v" "sv_dev u = sv_dev v" "sv_connect u = sv_connect v" "sv_fsm u = sv_fsm v" "sv_snd u = sv_snd v" "sv_sock u = sv_sock v"
      by (simp_all add: u)
    note o = reconnect_off[OF r' off, unfolded f]
    show ?thesis
    proof (cases "r' = 0")
      case True
      then show ?thesis using o t \<open>r = 0\<close> by (simp add: kp u[symmetric] note_bit_set)
    next
      case False
      then show ?thesis using o t \<open>r = 0\<close> by (simp add: kp u[symmetric])
    qed
  qed
qed

theorem offline_round_witness:
  "\<exists>w. EtherTask_round sample_para 2000 sample_server = Inr w \<and> \<not> sk_line (sv_sock w) \<and> sv_dev w = sv_dev sample_server"
proof -
  have k: "fst (KeepAliveProc sample_para False (sv_keep sample_server)) = 1"
    by (rule keep_step_wait(1)) (simp add: sample_server_def ClearKeepAlive_limit, simp add: sample_para_def)
  have l: "\<not> sk_line (sv_sock sample_server)" using sample_server_facts by simp
  obtain k' where k': "KeepAliveProc sample_para False (sv_keep sample_server) = (1, k')" using k by (cases "KeepAliveProc sample_para False (sv_keep sample_server)") auto
  have e: "SvrCommPeekEvent SVREV_NOTE sample_server = (0, sample_server)"
    by (simp add: SvrCommPeekEvent_def SysWaitEvent_def sample_server_def)
  have r: "EtherTask_round sample_para 2000 sample_server = Inr (sample_server\<lparr>sv_keep := k'\<rparr>)"
    using l k' by (simp add: EtherTask_round_def note_phase_def e keep_phase_def)
  from offline_round[OF l sample_server_facts(1) r]
  have "sv_dev (sample_server\<lparr>sv_keep := k'\<rparr>) = sv_dev sample_server" using l by (simp add: k' Let_def)
  then show ?thesis using l by (intro exI[of _ "sample_server\<lparr>sv_keep := k'\<rparr>"]) (simp add: r)
qed

text \<open>C6: on line, with less than a minute counted since the last test of the link, an open socket and no send that fails, a round that is
  woken first sends exactly the waiting events in their order, each as a well-formed frame, and then the states of the device that reported
  last; the notes it found are cleared and no event is left. Whatever the rest of the round does (a command, a test of the link, another logon), it only
  sends behind this, takes no event back and notes nothing but the events after a logon.\<close>

theorem notes_sent:
  assumes "sk_line (sv_sock v)" "sv_event v AND SVREV_NOTE \<noteq> 0" "ka_cnt (sv_keep v) < TIMEOUT_GNOWAIT"
    "ring_ok (al_run (sv_alarm v))" "length (al_cache (sv_alarm v)) = MAX_ALARM" "1024 \<le> fuel" "sk_open (sv_sock v)" "sk_fail (sv_sock v) = []"
    "devices_ok (sv_dev v)"
  shows "\<exists>w. note_phase p fuel v = Inr w \<and> sk_sent (sv_sock w) = sk_sent (sv_sock v) @ note_frames p v \<and> list_all valid_frame (note_frames p v) \<and>
    SvrCommNoteId (sv_dev w) = SvrCommNoteId (sv_dev v) AND NOT SVRNOTEID_ALARM AND NOT SVRNOTEID_UPSENSOR AND NOT SVREV_NOTE \<and>
    sv_event w = sv_event v AND NOT SVREV_NOTE \<and> sk_line (sv_sock w) \<and>
    (has_note SVRNOTEID_ALARM v \<longrightarrow> unsent (al_run (sv_alarm w)) = []) \<and>
    (\<forall>w'. EtherTask_round p fuel v = Inr w' \<longrightarrow>
       (\<exists>more. sk_sent (sv_sock w') = sk_sent (sv_sock v) @ note_frames p v @ more) \<and> sv_alarm w' = sv_alarm w \<and>
       SvrCommNoteId (sv_dev w') \<in> {SvrCommNoteId (sv_dev w), SvrCommNoteId (sv_dev w) OR SVRNOTEID_ALARM})"
proof -
  define v1 where "v1 = v\<lparr>sv_event := sv_event v AND NOT SVREV_NOTE\<rparr>"
  have e: "SvrCommPeekEvent SVREV_NOTE v = (sv_event v AND SVREV_NOTE, v1)"
    using assms(2) by (simp add: SvrCommPeekEvent_def SysWaitEvent_def v1_def)
  have r: "RefreshKeepAlive p (sk_line (sv_sock v1)) (svrcomm_havetask v1) (sv_keep v1) = (1, sv_keep v1)"
    using assms(3) by (simp add: RefreshKeepAlive_def v1_def)
  have m: "(sv_event v AND SVREV_NOTE) AND SVREV_NOTE \<noteq> 0" using assms(2) by (simp add: and.assoc)
  have k: "v1\<lparr>sv_keep := sv_keep v1\<rparr> = v1" by simp
  have f: "note_frames p v1 = note_frames p v" "has_note b v1 = has_note b v" for b
    by (simp_all add: note_frames_def has_note_def sensor_states_def v1_def)
  have g: "ring_ok (al_run (sv_alarm v1))" "length (al_cache (sv_alarm v1)) = MAX_ALARM" "sk_open (sv_sock v1)" "sk_fail (sv_sock v1) = []"
      "devices_ok (sv_dev v1)" "sk_line (sv_sock v1)"
    using assms by (simp_all add: v1_def)
  have n: "note_phase p fuel v = bind_run (SvrNoteProc p fuel v1) (\<lambda>(_, v). Inr v)"
    unfolding note_phase_def e prod.case r Let_def k using m g(6) by simp
  have a: "length (FormatAlarm x) = 8" for x by (simp add: FormatAlarm_def)
  have "list_all valid_frame (note_frames p v)" by (auto simp: note_frames_def list_all_iff a note_frame_valid)
  then obtain w where w: "note_phase p fuel v = Inr w \<and> sk_sent (sv_sock w) = sk_sent (sv_sock v) @ note_frames p v \<and> list_all valid_frame (note_frames p v) \<and>
    SvrCommNoteId (sv_dev w) = SvrCommNoteId (sv_dev v) AND NOT SVRNOTEID_ALARM AND NOT SVRNOTEID_UPSENSOR AND NOT SVREV_NOTE \<and>
    sv_event w = sv_event v AND NOT SVREV_NOTE \<and> sk_line (sv_sock w) \<and>
    (has_note SVRNOTEID_ALARM v \<longrightarrow> unsent (al_run (sv_alarm w)) = [])"
    using SvrNoteProc_sends[OF g(1,2) assms(6) g(3-5), of p] n g(6) by (auto simp: f) (auto simp: v1_def)
  then have "EtherTask_round p fuel v = Inr w' \<Longrightarrow> goes_on w w'" for w' using round_goes_on by blast
  with w show ?thesis by (intro exI[of _ w]) (simp add: goes_on_def)
qed

theorem notes_sent_witness:
  "\<exists>w. note_phase sample_para 1024 (sample_server\<lparr>sv_sock := idle_sock\<lparr>sk_line := True\<rparr>, sv_event := 1, sv_dev := (sv_dev sample_server)\<lparr>SvrCommNoteId := 6\<rparr>\<rparr>) = Inr w \<and>
     sk_sent (sv_sock w) = [note_frame sample_para 0x02 (replicate 8 0), note_frame sample_para 0x88 (replicate 8 0)]"
proof -
  let ?v = "sample_server\<lparr>sv_sock := idle_sock\<lparr>sk_line := True\<rparr>, sv_event := 1, sv_dev := (sv_dev sample_server)\<lparr>SvrCommNoteId := 6\<rparr>\<rparr>"
  have h: "sk_line (sv_sock ?v)" "sv_event ?v AND SVREV_NOTE \<noteq> 0" "ka_cnt (sv_keep ?v) < TIMEOUT_GNOWAIT"
      "ring_ok (al_run (sv_alarm ?v))" "length (al_cache (sv_alarm ?v)) = MAX_ALARM" "sk_open (sv_sock ?v)" "sk_fail (sv_sock ?v) = []" "devices_ok (sv_dev ?v)"
    using sample_server_facts by (simp_all add: SVREV_NOTE_def TIMEOUT_GNOWAIT_def devices_ok_def) (simp add: sample_server_def ClearKeepAlive_def)
  have n: "has_note SVRNOTEID_ALARM ?v" "has_note SVRNOTEID_UPSENSOR ?v" by (simp_all add: has_note_def SVRNOTEID_ALARM_def SVRNOTEID_UPSENSOR_def)
  have s: "sensor_states ?v = replicate 8 0" by (simp add: sensor_states_def sample_server_def) (simp add: numeral_eq_Suc)
  have a: "FormatAlarm (al_cache (sv_alarm sample_server) ! 0) = replicate 8 0"
    by (simp add: sample_server_def full_ring_def FormatAlarm_def le32_def) (simp add: numeral_eq_Suc)
  have "note_frames sample_para ?v = [note_frame sample_para 0x02 (replicate 8 0), note_frame sample_para 0x88 (replicate 8 0)]"
    using n s a sample_server_facts(10) by (simp add: note_frames_def) (simp add: sample_server_def)
  then show ?thesis using notes_sent[OF h(1-5) _ h(6-8), of 1024 sample_para] by (auto simp: idle_sock_def)
qed

text \<open>C17: a command of the server is answered by exactly one frame with its echo - the login with the result of comparing 32 bytes of
  password, the heartbeat, the address of the music -, the result of the check is only stored, any other command only changes the
  buffer. An address of more than 512 bytes is written behind its array.\<close>

theorem commands_answered:
  assumes "length (rcvbuf (sv_fsm v)) = 1152" "pkt_len (rcvbuf (sv_fsm v)) \<le> 1014" "length (sv_snd v) = 1152" "length (audiourl v) = 512"
    "sk_open (sv_sock v)" "sk_fail (sv_sock v) = []"
  shows "let n = pkt_len (rcvbuf (sv_fsm v)); data = drop 10 (rcvbuf (sv_fsm v)); r = SvrMessageProc ether_itf p v in
    (svr_cmd v = 0x25 \<longrightarrow> (\<exists>w b. r = Inr w \<and> answers v [b] w \<and> length b = 14 \<and> b ! 7 = 0xa5 \<and>
       b ! 10 = (if take 32 (drop 32 data) = take 32 (sp_termip_pwd p) then FAALERR_OK else FAALERR_PWERR))) \<and>
    (svr_cmd v = 0x23 \<longrightarrow> (\<exists>w b. r = Inr w \<and> answers v [b] w \<and> length b = 13 \<and> b ! 7 = 0xa3)) \<and>
    (svr_cmd v = 3 \<and> n \<le> 512 \<longrightarrow> (\<exists>w b. r = Inr w \<and> length b = 13 \<and> b ! 7 = pkt_cmd (rcvbuf (sv_fsm v)) OR 0x80 \<and>
       answers (v\<lparr>audiourl := take n data @ drop n (audiourl v), UpdateAudiourlFlag := 1\<rparr>) [b] w)) \<and>
    (svr_cmd v = 3 \<and> n > 512 \<longrightarrow> r = Inl OutOfBounds) \<and>
    (svr_cmd v = 1 \<longrightarrow> (\<exists>w. r = Inr w \<and> answers (v\<lparr>DeviceCheckResultFlag := data ! 0\<rparr>) [] w)) \<and>
    (svr_cmd v \<notin> {0x25, 0x23, 3, 1} \<longrightarrow> (\<exists>w. r = Inr w \<and> answers v [] w))"
proof -
  have one: "answered ether_itf u bs w \<Longrightarrow> sv_sock u = sv_sock v \<Longrightarrow> bs = [] \<or> (\<exists>b. bs = [b]) \<Longrightarrow> answers u bs w" for u bs w
    using assms(5,6) by (auto simp: answered_def answers_def ether_itf_def EtherRawSend_def send_next_def)
  note m = message_answered[OF assms(1-4), of ether_itf p, unfolded Let_def]
  have two: "(\<exists>w b. r = Inr w \<and> answered ether_itf u [b] w \<and> P b) \<Longrightarrow> sv_sock u = sv_sock v \<Longrightarrow> \<exists>w b. r = Inr w \<and> answers u [b] w \<and> P b"
    "(\<exists>w. r = Inr w \<and> answered ether_itf u [] w) \<Longrightarrow> sv_sock u = sv_sock v \<Longrightarrow> \<exists>w. r = Inr w \<and> answers u [] w" for r u P
    using one by blast+
  have url: "(\<exists>w b. r = Inr w \<and> Q b \<and> P b \<and> answered ether_itf u [b] w) \<Longrightarrow> sv_sock u = sv_sock v \<Longrightarrow> \<exists>w b. r = Inr w \<and> Q b \<and> P b \<and> answers u [b] w" for r u P Q
    using one by blast
  note c = m[THEN conjunct1, THEN mp] m[THEN conjunct2, THEN conjunct1, THEN mp] m[THEN conjunct2, THEN conjunct2, THEN conjunct1, THEN mp]
    m[THEN conjunct2, THEN conjunct2, THEN conjunct2, THEN conjunct1, THEN mp]
    m[THEN conjunct2, THEN conjunct2, THEN conjunct2, THEN conjunct2, THEN conjunct1, THEN mp]
    m[THEN conjunct2, THEN conjunct2, THEN conjunct2, THEN conjunct2, THEN conjunct2, THEN mp]
  show ?thesis unfolding Let_def
    using two(1)[OF c(1)] two(1)[OF c(2)] url[OF c(3)] c(4) two(2)[OF c(5)] two(2)[OF c(6)]
    by (intro conjI impI) simp_all
qed

theorem commands_answered_witness:
  "\<exists>w b. SvrMessageProc ether_itf sample_para (sample_server\<lparr>sv_sock := idle_sock, sv_fsm := idle_fsm\<lparr>rcvbuf := (replicate 1152 0)[7 := 0x23]\<rparr>\<rparr>) = Inr w \<and>
     sk_sent (sv_sock w) = [b] \<and> b ! 7 = 0xa3"
proof -
  let ?v = "sample_server\<lparr>sv_sock := idle_sock, sv_fsm := idle_fsm\<lparr>rcvbuf := (replicate 1152 0)[7 := 0x23]\<rparr>\<rparr>"
  have c: "svr_cmd ?v = 0x23" by (simp add: svr_cmd_def pkt_cmd_def FAALMASK_CMD_def)
  have h: "length (rcvbuf (sv_fsm ?v)) = 1152" "pkt_len (rcvbuf (sv_fsm ?v)) \<le> 1014" "length (sv_snd ?v) = 1152" "length (audiourl ?v) = 512"
      "sk_open (sv_sock ?v)" "sk_fail (sv_sock ?v) = []"
    using sample_server_facts by (simp_all add: pkt_len_def makepkt_short_def unat_u16_of)
  show ?thesis using commands_answered[OF h, of sample_para, unfolded Let_def, THEN conjunct2, THEN conjunct1, rule_format, OF c]
    by (auto simp: answers_def idle_sock_def)
qed

end
