(* ===== verification/Ethsvr.thy ===== *)
theory Ethsvr
  imports Svrcomm
begin

text \<open>
  The server for datagrams (\<open>uplink/ethsvr.c\<close>): the start of its socket, its bytes and replies, and its task, which gives every
  frame to the commands of \<open>Svrcomm\<close> (\<open>uplink/svrmsg.c\<close>) without a logon. The answers of \<open>recvfrom\<close>, each with the
  address of the sender, are an input: the list the state consumes. The address stays the one of the datagram that was read last,
  and every reply goes there.
\<close>

record 'a udp =
  us_open :: bool
  us_addr :: "'a option"
  us_buf :: bytes
  us_len :: int
  us_head :: nat
  us_net :: "('a \<times> bytes) option list"
  us_sent :: "('a option \<times> bytes) list"

text \<open>What \<open>socket\<close> and \<open>bind\<close> answer.\<close>

datatype bind_result = SocketError | BindError | Bound

definition EthSvrNetInit :: "bind_result \<Rightarrow> 'a udp \<Rightarrow> int \<times> 'a udp" where
  "EthSvrNetInit r e =
     (if r = SocketError then (1, e\<lparr>us_open := False\<rparr>)
      else if r = BindError then (1, e\<lparr>us_open := False\<rparr>)
      else (0, e\<lparr>us_open := True\<rparr>))"

definition EthSvrDisconnect :: "'a udp \<Rightarrow> 'a udp" where "EthSvrDisconnect e = e\<lparr>us_open := False\<rparr>"

definition udp_char :: "'a udp \<Rightarrow> (u8 option \<times> 'a udp) run" where
  "udp_char e =
     (if us_head e < length (us_buf e)
      then Inr (Some (us_buf e ! us_head e), e\<lparr>us_head := us_head e + 1, us_len := us_len e - 1\<rparr>)
      else Inl OutOfBounds)"

text \<open>At most 2048 bytes of a datagram are taken; the answer to an empty one is 0, which ends the reading as an error does.\<close>

definition EthSvrGetChar :: "'a udp \<Rightarrow> (u8 option \<times> 'a udp) run" where
  "EthSvrGetChar e =
     (if \<not> us_open e then Inr (None, e)
      else if us_len e \<le> 0 then
        (case us_net e of
           [] \<Rightarrow> Inr (None, e\<lparr>us_len := - 1\<rparr>)
         | None # net \<Rightarrow> Inr (None, e\<lparr>us_net := net, us_len := - 1\<rparr>)
         | Some (addr, data) # net \<Rightarrow>
             let bs = take 2048 data; e = e\<lparr>us_net := net, us_addr := Some addr, us_len := int (length bs)\<rparr> in
             if bs = [] then Inr (None, e)
             else case put_at (us_buf e) 0 bs of
               None \<Rightarrow> Inl OutOfBounds
             | Some buf \<Rightarrow> udp_char (e\<lparr>us_buf := buf, us_head := 0\<rparr>))
      else udp_char e)"

text \<open>The answer of \<open>sendto\<close> is not looked at, and the port that is set in a copy of the address is not used.\<close>

definition EthSvrRawSend :: "bytes \<Rightarrow> 'a udp \<Rightarrow> bool \<times> 'a udp" where
  "EthSvrRawSend buf e = (if \<not> us_open e then (True, e) else (False, e\<lparr>us_sent := us_sent e @ [(us_addr e, buf)]\<rparr>))"

definition ethsvr_itf :: "'a udp uplinkitf_t" where
  "ethsvr_itf = \<lparr>itf_getchar = EthSvrGetChar, itf_rawsend = EthSvrRawSend, itf_linestat = linestat_empty, itf_timeout = 5\<rparr>"

text \<open>The inner loop of the task; the fuel bounds the bytes of one call of the receiver.\<close>

fun EthSvrTask_loop :: "svr_para \<Rightarrow> nat \<Rightarrow> nat \<Rightarrow> 'a udp server \<Rightarrow> 'a udp server run" where
  "EthSvrTask_loop p fuel 0 v = Inl OutOfFuel"
| "EthSvrTask_loop p fuel (Suc n) v =
     bind_run (UplinkRecvPkt (itf_getchar ethsvr_itf) (itf_timeout (ethsvr_itf :: 'a udp uplinkitf_t)) fuel (sv_fsm v) (sv_sock v)) (\<lambda>(rtn, c, e).
       let v = v\<lparr>sv_fsm := c, sv_sock := e\<rparr> in
       if rtn = 0 then bind_run (SvrMessageProc ethsvr_itf p v) (EthSvrTask_loop p fuel n) else Inr v)"

definition EthSvrTask_start :: "bind_result \<Rightarrow> 'a udp server \<Rightarrow> 'a udp server" where
  "EthSvrTask_start r v = v\<lparr>sv_fsm := UplinkClearState (sv_fsm v), sv_sock := snd (EthSvrNetInit r (sv_sock v))\<rparr>"

definition EthSvrTask_round :: "svr_para \<Rightarrow> nat \<Rightarrow> nat \<Rightarrow> bool \<Rightarrow> 'a udp server \<Rightarrow> (bool \<times> 'a udp server) run" where
  "EthSvrTask_round p fuel n exitflag v =
     bind_run (EthSvrTask_loop p fuel n v) (\<lambda>v.
       Inr (if exitflag then (True, v\<lparr>sv_sock := EthSvrDisconnect (sv_sock v)\<rparr>) else (False, v)))"

subsection \<open>The bytes of the datagrams\<close>

fun udp_net :: "('a \<times> bytes) option list \<Rightarrow> nat \<Rightarrow> bytes" where
  "udp_net [] = (\<lambda>_. [])"
| "udp_net (None # rs) = (\<lambda>n. case n of 0 \<Rightarrow> [] | Suc m \<Rightarrow> udp_net rs m)"
| "udp_net (Some (addr, data) # rs) =
     (if data = [] then (\<lambda>n. case n of 0 \<Rightarrow> [] | Suc m \<Rightarrow> udp_net rs m) else (udp_net rs)(0 := take 2048 data @ udp_net rs 0))"

definition udp_ok :: "'a udp \<Rightarrow> bool" where
  "udp_ok e \<longleftrightarrow> length (us_buf e) = 2048 \<and> (0 < us_len e \<longrightarrow> us_head e + nat (us_len e) \<le> 2048)"

definition udp_waiting :: "'a udp \<Rightarrow> bytes" where
  "udp_waiting e = (if 0 < us_len e then take (nat (us_len e)) (drop (us_head e) (us_buf e)) else [])"

definition udp_polls :: "'a udp \<Rightarrow> nat \<Rightarrow> bytes" where
  "udp_polls e = (if us_open e then (udp_net (us_net e))(0 := udp_waiting e @ udp_net (us_net e) 0) else (\<lambda>_. []))"

lemma udp_char_waiting:
  assumes "udp_ok e" "0 < us_len e"
  shows "\<exists>b bs. udp_char e = Inr (Some b, e\<lparr>us_head := us_head e + 1, us_len := us_len e - 1\<rparr>) \<and> udp_waiting e = b # bs \<and>
    udp_ok (e\<lparr>us_head := us_head e + 1, us_len := us_len e - 1\<rparr>) \<and> udp_waiting (e\<lparr>us_head := us_head e + 1, us_len := us_len e - 1\<rparr>) = bs"
proof -
  have h: "us_head e < length (us_buf e)" using assms by (auto simp: udp_ok_def)
  obtain n where n: "us_len e = int n + 1" using assms(2) by (metis zero_less_imp_eq_int of_nat_Suc gr0_conv_Suc add.commute)
  then have "nat (us_len e) = Suc n" by simp
  then have "take (nat (us_len e)) (drop (us_head e) (us_buf e)) = us_buf e ! us_head e # take n (drop (us_head e + 1) (us_buf e))"
    using h by (simp add: Cons_nth_drop_Suc [symmetric])
  then show ?thesis using assms h n by (auto simp: udp_char_def udp_waiting_def udp_ok_def)
qed

text \<open>A datagram that is not empty is read into the buffer.\<close>

definition udp_load :: "'a \<Rightarrow> bytes \<Rightarrow> ('a \<times> bytes) option list \<Rightarrow> 'a udp \<Rightarrow> 'a udp" where
  "udp_load addr bs net e = e\<lparr>us_net := net, us_addr := Some addr, us_len := int (length bs), us_buf := bs @ drop (length bs) (us_buf e), us_head := 0\<rparr>"

lemma udp_load_facts:
  assumes "udp_ok e" "length bs \<le> 2048" "bs \<noteq> []"
  shows "udp_ok (udp_load addr bs net e)" "udp_waiting (udp_load addr bs net e) = bs" "0 < us_len (udp_load addr bs net e)"
  using assms by (auto simp: udp_ok_def udp_waiting_def udp_load_def)

lemma EthSvrGetChar_load:
  assumes "us_open e" "us_len e \<le> 0" "us_net e = Some (addr, data) # net" "data \<noteq> []" "udp_ok e"
  shows "EthSvrGetChar e = EthSvrGetChar (udp_load addr (take 2048 data) net e)"
  using assms by (cases data) (auto simp: EthSvrGetChar_def udp_load_def put_at_def udp_ok_def Let_def)

lemma EthSvrGetChar_buffered:
  assumes "us_open e" "0 < us_len e" "udp_ok e"
  shows "\<exists>b bs. EthSvrGetChar e = Inr (Some b, e\<lparr>us_head := us_head e + 1, us_len := us_len e - 1\<rparr>) \<and> udp_waiting e = b # bs \<and>
    udp_ok (e\<lparr>us_head := us_head e + 1, us_len := us_len e - 1\<rparr>) \<and> udp_waiting (e\<lparr>us_head := us_head e + 1, us_len := us_len e - 1\<rparr>) = bs"
  using udp_char_waiting [OF assms(3,2)] assms by (auto simp: EthSvrGetChar_def)

lemma EthSvrGetChar_some:
  assumes "udp_ok e" "udp_polls e 0 = b # bs"
  shows "\<exists>e'. EthSvrGetChar e = Inr (Some b, e') \<and> udp_ok e' \<and> udp_polls e' = (udp_polls e)(0 := bs)"
proof -
  have op: "us_open e" using assms(2) by (auto simp: udp_polls_def split: if_splits)
  have buffered: "\<exists>e'. EthSvrGetChar u = Inr (Some b, e') \<and> udp_ok e' \<and> udp_polls e' = (udp_polls e)(0 := bs)"
    if u: "udp_ok u" "us_open u" "0 < us_len u" "udp_polls u = udp_polls e" for u
  proof -
    obtain c cs where c: "EthSvrGetChar u = Inr (Some c, u\<lparr>us_head := us_head u + 1, us_len := us_len u - 1\<rparr>)" "udp_waiting u = c # cs"
      "udp_ok (u\<lparr>us_head := us_head u + 1, us_len := us_len u - 1\<rparr>)" "udp_waiting (u\<lparr>us_head := us_head u + 1, us_len := us_len u - 1\<rparr>) = cs"
      using EthSvrGetChar_buffered [OF u(2,3,1)] by blast
    have "udp_polls u 0 = c # cs @ udp_net (us_net u) 0" using c(2) u(2) by (simp add: udp_polls_def)
    then have "c = b" "bs = cs @ udp_net (us_net u) 0" using assms(2) u(4) by simp_all
    then show ?thesis unfolding u(4) [symmetric] using c u(2)
      by (intro exI [of _ "u\<lparr>us_head := us_head u + 1, us_len := us_len u - 1\<rparr>"]) (simp add: udp_polls_def)
  qed
  show ?thesis
  proof (cases "0 < us_len e")
    case True
    then show ?thesis using buffered [of e] assms(1) op by simp
  next
    case False
    then have w: "udp_waiting e = []" by (simp add: udp_waiting_def)
    then have "udp_net (us_net e) 0 = b # bs" using assms(2) op by (simp add: udp_polls_def)
    then obtain addr data net where n: "us_net e = Some (addr, data) # net" "data \<noteq> []"
      by (cases "us_net e" rule: udp_net.cases) (auto split: if_splits)
    let ?u = "udp_load addr (take 2048 data) net e"
    note l = udp_load_facts [OF assms(1), of "take 2048 data" addr net]
    have "udp_polls ?u = udp_polls e" using op n w l(2) by (auto simp: udp_polls_def udp_load_def)
    then show ?thesis using buffered [of ?u] l n op False EthSvrGetChar_load [OF op _ n assms(1)] by (auto simp: udp_load_def)
  qed
qed

lemma EthSvrGetChar_none:
  assumes "udp_ok e" "udp_polls e 0 = []"
  shows "\<exists>e'. EthSvrGetChar e = Inr (None, e') \<and> udp_ok e' \<and> udp_polls e' = (\<lambda>n. udp_polls e (Suc n))"
proof (cases "us_open e")
  case False
  then show ?thesis using assms(1) by (auto simp: EthSvrGetChar_def udp_polls_def)
next
  case True
  then have w: "udp_waiting e = []" "udp_net (us_net e) 0 = []" using assms(2) by (simp_all add: udp_polls_def)
  then have "us_len e \<le> 0" using udp_char_waiting [OF assms(1)] by fastforce
  then show ?thesis using True w assms(1)
    by (cases "us_net e" rule: udp_net.cases)
      (auto simp: EthSvrGetChar_def udp_polls_def udp_ok_def udp_waiting_def Let_def fun_eq_iff split: if_splits nat.splits)
qed

lemma EthSvrGetChar_sent: "EthSvrGetChar e = Inr (x, e') \<Longrightarrow> us_sent e' = us_sent e"
  by (cases "us_net e" rule: udp_net.cases)
    (auto simp: EthSvrGetChar_def udp_char_def Let_def split: if_splits option.splits)

lemma EthSvrRawSend_laws:
  "EthSvrRawSend b e = (False, e') \<Longrightarrow> udp_ok e' = udp_ok e \<and> udp_polls e' = udp_polls e \<and> us_sent e' = us_sent e @ [(us_addr e, b)]"
  "EthSvrRawSend b e = (True, e') \<Longrightarrow> us_sent e' = us_sent e"
  by (auto simp: EthSvrRawSend_def udp_ok_def udp_polls_def udp_waiting_def split: if_splits)

interpretation ethsvr: uplink_itf ethsvr_itf udp_polls udp_ok "\<lambda>e. map snd (us_sent e)"
  apply unfold_locales
       apply (simp add: ethsvr_itf_def EthSvrGetChar_some)
      apply (simp add: ethsvr_itf_def EthSvrGetChar_none)
     apply (simp add: ethsvr_itf_def linestat_empty_def)
    apply (simp add: ethsvr_itf_def) using EthSvrGetChar_sent apply metis
   apply (auto simp: ethsvr_itf_def dest: EthSvrRawSend_laws)
  done

subsection \<open>One frame in one datagram\<close>

text \<open>The buffered bytes of a frame are read up to its end.\<close>

definition udp_done :: "nat \<Rightarrow> 'a udp \<Rightarrow> 'a udp" where
  "udp_done n e = e\<lparr>us_head := us_head e + n, us_len := us_len e - int n\<rparr>"

lemma udp_loop_buffered:
  "us_open e \<Longrightarrow> udp_ok e \<Longrightarrow> udp_waiting e = bs \<Longrightarrow> fsm_feed t bs c = Inr (True, c', []) \<Longrightarrow> length bs < fuel \<Longrightarrow>
   UplinkRecv_loop EthSvrGetChar t fuel c e = Inr (0, c', udp_done (length bs) e)"
proof (induction bs arbitrary: e c fuel)
  case (Cons b bs)
  obtain fuel' where fuel: "fuel = Suc fuel'" using Cons.prems(5) by (cases fuel) auto
  have pos: "0 < us_len e" using Cons.prems(3) by (auto simp: udp_waiting_def split: if_splits)
  let ?e = "e\<lparr>us_head := us_head e + 1, us_len := us_len e - 1\<rparr>"
  have g: "EthSvrGetChar e = Inr (Some b, ?e)" "udp_ok ?e" "udp_waiting ?e = bs"
    using EthSvrGetChar_buffered [OF Cons.prems(1) pos Cons.prems(2)] Cons.prems(3) by auto
  have d: "udp_done (length bs) ?e = udp_done (Suc (length bs)) e" by (simp add: udp_done_def)
  obtain a c1 where st: "fsm_step t b c = Inr (a, c1)" using Cons.prems(4) by (auto split: sum.splits)
  show ?case
  proof (cases a)
    case True
    then have "bs = []" "c1 = c'" using Cons.prems(4) st by simp_all
    then show ?thesis using g(1) st True d by (simp add: fuel udp_done_def)
  next
    case False
    then have "fsm_feed t bs c1 = Inr (True, c', [])" using Cons.prems(4) st by simp
    then have "UplinkRecv_loop EthSvrGetChar t fuel' c1 ?e = Inr (0, c', udp_done (length bs) ?e)"
      using Cons.IH [of ?e c1 fuel'] Cons.prems g by (simp add: fuel)
    then show ?thesis using g(1) st False d by (simp add: fuel)
  qed
qed simp

text \<open>What is behind the frame stays in the buffer of the receiver.\<close>

lemma fsm_step_rest: "fsm_step t b c = Inr (a, c') \<Longrightarrow> pbuf c < n \<Longrightarrow> drop n (rcvbuf c') = drop n (rcvbuf c) \<and> pbuf c' \<le> Suc (pbuf c)"
  by (auto simp: fsm_step_def fsm_put_def UplinkClearState_def StopUpTimer_def SetUpTimer_def Let_def split: if_splits)

lemma fsm_feed_keeps: "fsm_feed t bs c = Inr (a, c', r) \<Longrightarrow> pbuf c + length bs \<le> n \<Longrightarrow> drop n (rcvbuf c') = drop n (rcvbuf c)"
proof (induction bs arbitrary: c)
  case (Cons b bs)
  obtain a1 c1 where st: "fsm_step t b c = Inr (a1, c1)" using Cons.prems(1) by (auto split: sum.splits)
  have "drop n (rcvbuf c1) = drop n (rcvbuf c)" "pbuf c1 \<le> Suc (pbuf c)" using fsm_step_rest [OF st, of n] Cons.prems(2) by simp_all
  then show ?case using Cons st by (cases a1) auto
qed simp

lemma udp_recv_frame:
  assumes f: "valid_frame f" and c: "fsm_ok c" "stat c = 0"
    and e: "us_open e" "udp_ok e" "us_len e \<le> 0" "us_net e = Some (addr, f) # net" and fuel: "1152 < fuel"
  shows "\<exists>c' buf n. UplinkRecvPkt EthSvrGetChar t fuel c e =
      Inr (0, c', e\<lparr>us_net := net, us_addr := Some addr, us_buf := buf, us_head := n, us_len := 0\<rparr>) \<and>
    fsm_ok c' \<and> stat c' = 0 \<and> take (length f) (rcvbuf c') = f \<and> length buf = 2048 \<and>
    drop (length f) (rcvbuf c') = drop (length f) (rcvbuf c)"
proof -
  note v = valid_frameD [OF f]
  have len: "length f \<le> 1152" "f \<noteq> []" using v(1,2) by (auto simp: MAXLEN_GPRSITF_BUF_def)
  have "at_frame f 0 (UpTimerProc c)"
    by (rule at_frame_timer) (use c in \<open>auto simp: at_frame_def fsm_ok_def stage_ok_def\<close>)
  from at_frame_complete [OF f this, of t] obtain c' where c': "fsm_feed t f (UpTimerProc c) = Inr (True, c', [])" "fsm_ok c'"
    "take (length f) (rcvbuf c') = f" by auto
  have "stat c' = 0" using fsm_feed_ok [OF fsm_ok_timer [OF c(1)] c'(1)] by simp
  have "pbuf (UpTimerProc c) = 0" "rcvbuf (UpTimerProc c) = rcvbuf c"
    using c by (auto simp: UpTimerProc_def UplinkClearState_def StopUpTimer_def Let_def fsm_ok_def stage_ok_def)
  then have rest: "drop (length f) (rcvbuf c') = drop (length f) (rcvbuf c)" using fsm_feed_keeps [OF c'(1), of "length f"] by simp
  let ?u = "udp_load addr f net e"
  have l: "udp_ok ?u" "udp_waiting ?u = f" using udp_load_facts [OF e(2), of f addr net] len by simp_all
  have "EthSvrGetChar e = EthSvrGetChar ?u" using EthSvrGetChar_load [OF e(1,3,4) len(2) e(2)] len(1) by simp
  moreover obtain fuel' where "fuel = Suc fuel'" using fuel by (cases fuel) auto
  ultimately have "UplinkRecvPkt EthSvrGetChar t fuel c e = UplinkRecv_loop EthSvrGetChar t fuel (UpTimerProc c) ?u"
    by (simp add: UplinkRecvPkt_def)
  also have "\<dots> = Inr (0, c', udp_done (length f) ?u)"
    by (rule udp_loop_buffered [OF _ l c'(1)]) (use e(1) fuel len in \<open>auto simp: udp_load_def\<close>)
  finally have "UplinkRecvPkt EthSvrGetChar t fuel c e =
      Inr (0, c', e\<lparr>us_net := net, us_addr := Some addr, us_buf := f @ drop (length f) (us_buf e), us_head := length f, us_len := 0\<rparr>)"
    by (simp add: udp_done_def udp_load_def)
  moreover have "length (f @ drop (length f) (us_buf e)) = 2048" using e(2) len(1) by (simp add: udp_ok_def)
  ultimately show ?thesis using c'(2,3) \<open>stat c' = 0\<close> rest by blast
qed

subsection \<open>Answers\<close>

text \<open>What is promised for a frame: the length and the echo of the reply, and the result of a login.\<close>

definition reply_kind :: "bytes \<Rightarrow> nat \<times> u8 \<times> u8 option" where
  "reply_kind b = (length b, b ! 7, if length b = 14 then Some (b ! 10) else None)"

definition frame_cmd :: "bytes \<Rightarrow> u8" where "frame_cmd f = pkt_cmd f AND FAALMASK_CMD"

definition promised :: "svr_para \<Rightarrow> bytes \<Rightarrow> (nat \<times> u8 \<times> u8 option) list" where
  "promised p f =
     (if frame_cmd f = 0x25 then [(14, 0xa5, Some (if take 32 (drop 42 f) = take 32 (sp_termip_pwd p) then FAALERR_OK else FAALERR_PWERR))]
      else if frame_cmd f = 0x23 then [(13, 0xa3, None)]
      else if frame_cmd f = 3 then [(13, pkt_cmd f OR 0x80, None)]
      else [])"

definition new_url :: "bytes \<Rightarrow> bytes \<Rightarrow> bytes" where
  "new_url f url = (if frame_cmd f = 3 then take (pkt_len f) (drop 10 f) @ drop (pkt_len f) url else url)"

text \<open>Frames the server takes: a login holds its 64 bytes and an address fits.\<close>

definition plain_frame :: "bytes \<Rightarrow> bool" where
  "plain_frame f \<longleftrightarrow> valid_frame f \<and> pkt_len f \<le> 1014 \<and> (frame_cmd f = 0x25 \<longrightarrow> 64 \<le> pkt_len f) \<and> (frame_cmd f = 3 \<longrightarrow> pkt_len f \<le> 512)"

definition ready :: "'a udp server \<Rightarrow> bool" where
  "ready v \<longleftrightarrow> us_open (sv_sock v) \<and> udp_ok (sv_sock v) \<and> us_len (sv_sock v) \<le> 0 \<and> fsm_ok (sv_fsm v) \<and> stat (sv_fsm v) = 0 \<and>
     length (sv_snd v) = 1152 \<and> length (audiourl v) = 512"

lemma answered_udp:
  assumes "answered ethsvr_itf v bs w" "us_open (sv_sock v)" "length bs \<le> 1"
  shows "\<exists>q. length q = 1152 \<and> w = v\<lparr>sv_snd := q, sv_sock := (sv_sock v)\<lparr>us_sent := us_sent (sv_sock v) @ map (Pair (us_addr (sv_sock v))) bs\<rparr>\<rparr>"
proof -
  have "fold (\<lambda>b e. snd (itf_rawsend ethsvr_itf b e)) bs (sv_sock v) = (sv_sock v)\<lparr>us_sent := us_sent (sv_sock v) @ map (Pair (us_addr (sv_sock v))) bs\<rparr>"
    using assms(2,3) by (cases bs) (auto simp: ethsvr_itf_def EthSvrRawSend_def)
  then show ?thesis using assms(1) by (auto simp: answered_def)
qed

lemma frame_in_buffer:
  assumes "valid_frame f" "take (length f) b = f"
  shows "pkt_len b = pkt_len f" "pkt_cmd b = pkt_cmd f" "i + n \<le> length f \<Longrightarrow> take n (drop i b) = take n (drop i f)"
proof -
  have l: "length f = pkt_len f + 13" using valid_frameD(1) [OF assms(1)] .
  have n: "i < length f \<Longrightarrow> b ! i = f ! i" for i using assms(2) by (metis nth_take)
  show "pkt_len b = pkt_len f" "pkt_cmd b = pkt_cmd f" using n [of 7] n [of 8] n [of 9] l by (simp_all add: pkt_len_def pkt_cmd_def)
  show "i + n \<le> length f \<Longrightarrow> take n (drop i b) = take n (drop i f)"
    using assms(2) by (metis take_drop take_take min.absorb1 add.commute)
qed

lemma answer_frame:
  assumes f: "plain_frame f" and b: "length (rcvbuf (sv_fsm v)) = 1152" "take (length f) (rcvbuf (sv_fsm v)) = f"
    and v: "us_open (sv_sock v)" "length (sv_snd v) = 1152" "length (audiourl v) = 512"
  shows "\<exists>w bs. SvrMessageProc ethsvr_itf p v = Inr w \<and> map reply_kind bs = promised p f \<and> sv_fsm w = sv_fsm v \<and> length (sv_snd w) = 1152 \<and>
    audiourl w = new_url f (audiourl v) \<and>
    sv_sock w = (sv_sock v)\<lparr>us_sent := us_sent (sv_sock v) @ map (Pair (us_addr (sv_sock v))) bs\<rparr>"
proof -
  have vf: "valid_frame f" and len: "pkt_len f \<le> 1014" using f by (auto simp: plain_frame_def)
  note fb = frame_in_buffer [OF vf b(2)]
  have l: "length f = pkt_len f + 13" using valid_frameD(1) [OF vf] .
  have c: "svr_cmd v = frame_cmd f" by (simp add: svr_cmd_def frame_cmd_def fb)
  have n: "pkt_len (rcvbuf (sv_fsm v)) \<le> 1014" using len fb by simp
  note m = message_answered [OF b(1) n v(2,3), of ethsvr_itf p, unfolded Let_def c fb(1,2)]
  have done1: "\<exists>w bs. SvrMessageProc ethsvr_itf p v = Inr w \<and> map reply_kind bs = promised p f \<and> sv_fsm w = sv_fsm v \<and> length (sv_snd w) = 1152 \<and>
      audiourl w = new_url f (audiourl v) \<and> sv_sock w = (sv_sock v)\<lparr>us_sent := us_sent (sv_sock v) @ map (Pair (us_addr (sv_sock v))) bs\<rparr>"
    if r: "SvrMessageProc ethsvr_itf p v = Inr w" "answered ethsvr_itf u bs w" "map reply_kind bs = promised p f" "length bs \<le> 1"
      and u: "sv_sock u = sv_sock v" "sv_fsm u = sv_fsm v" "audiourl u = new_url f (audiourl v)" for w u bs
    using answered_udp [OF r(2) _ r(4)] r(1,3) u v(1) by (intro exI [of _ w] exI [of _ bs]) auto
  consider (login) "frame_cmd f = 0x25" | (beat) "frame_cmd f = 0x23" | (url) "frame_cmd f = 3" | (check) "frame_cmd f = 1" | (other) "frame_cmd f \<notin> {0x25, 0x23, 3, 1}"
    by auto
  then show ?thesis
  proof cases
    case login
    have pw: "take 32 (drop 32 (drop 10 (rcvbuf (sv_fsm v)))) = take 32 (drop 42 f)"
      using fb(3) [of 42 32] l f login by (simp add: plain_frame_def)
    obtain w b where w: "SvrMessageProc ethsvr_itf p v = Inr w" "answered ethsvr_itf v [b] w" "length b = 14" "b ! 7 = 0xa5"
      "b ! 10 = (if take 32 (drop 42 f) = take 32 (sp_termip_pwd p) then FAALERR_OK else FAALERR_PWERR)"
      using m [THEN conjunct1, THEN mp, OF login, unfolded pw] by blast
    show ?thesis by (rule done1 [OF w(1,2)]) (use w login in \<open>simp_all add: reply_kind_def promised_def new_url_def\<close>)
  next
    case beat
    obtain w b where w: "SvrMessageProc ethsvr_itf p v = Inr w" "answered ethsvr_itf v [b] w" "length b = 13" "b ! 7 = 0xa3"
      using m [THEN conjunct2, THEN conjunct1, THEN mp, OF beat] by blast
    show ?thesis by (rule done1 [OF w(1,2)]) (use w beat in \<open>simp_all add: reply_kind_def promised_def new_url_def\<close>)
  next
    case url
    have n: "pkt_len f \<le> 512" using f url by (simp add: plain_frame_def)
    have t: "take (pkt_len f) (drop 10 (rcvbuf (sv_fsm v))) = take (pkt_len f) (drop 10 f)" using fb(3) [of 10 "pkt_len f"] l by simp
    let ?u = "v\<lparr>audiourl := take (pkt_len f) (drop 10 f) @ drop (pkt_len f) (audiourl v), UpdateAudiourlFlag := 1\<rparr>"
    obtain w b where w: "SvrMessageProc ethsvr_itf p v = Inr w" "length b = 13" "b ! 7 = pkt_cmd f OR 0x80" "answered ethsvr_itf ?u [b] w"
      using m [THEN conjunct2, THEN conjunct2, THEN conjunct1, THEN mp, OF conjI [OF url n], unfolded t] by blast
    show ?thesis by (rule done1 [OF w(1,4)]) (use w url in \<open>simp_all add: reply_kind_def promised_def new_url_def\<close>)
  next
    case check
    obtain w where w: "SvrMessageProc ethsvr_itf p v = Inr w" "answered ethsvr_itf (v\<lparr>DeviceCheckResultFlag := drop 10 (rcvbuf (sv_fsm v)) ! 0\<rparr>) [] w"
      using m [THEN conjunct2, THEN conjunct2, THEN conjunct2, THEN conjunct2, THEN conjunct1, THEN mp, OF check] by blast
    show ?thesis by (rule done1 [OF w]) (use check in \<open>simp_all add: promised_def new_url_def\<close>)
  next
    case other
    obtain w where w: "SvrMessageProc ethsvr_itf p v = Inr w" "answered ethsvr_itf v [] w"
      using m [THEN conjunct2, THEN conjunct2, THEN conjunct2, THEN conjunct2, THEN conjunct2, THEN mp, OF other] by blast
    show ?thesis by (rule done1 [OF w]) (use other in \<open>simp_all add: promised_def new_url_def\<close>)
  qed
qed

text \<open>The loop over datagrams with one frame each.\<close>

lemma EthSvrTask_loop_frames:
  assumes "list_all (\<lambda>(a, f). plain_frame f) ds" "1152 < fuel"
  shows "ready v \<Longrightarrow> us_net (sv_sock v) = map (\<lambda>(a, f). Some (a, f)) ds @ None # net \<Longrightarrow> length ds < n \<Longrightarrow>
    \<exists>w. EthSvrTask_loop p fuel n v = Inr w \<and> ready w \<and> audiourl w = fold (\<lambda>(a, f). new_url f) ds (audiourl v) \<and> us_net (sv_sock w) = net \<and>
      map (\<lambda>(a, b). (a, reply_kind b)) (us_sent (sv_sock w)) =
        map (\<lambda>(a, b). (a, reply_kind b)) (us_sent (sv_sock v)) @ concat (map (\<lambda>(a, f). map (Pair (Some a)) (promised p f)) ds)"
  using assms(1)
proof (induction ds arbitrary: v n)
  case Nil
  obtain n' where n: "n = Suc n'" using Nil.prems(3) by (cases n) auto
  have o: "us_open (sv_sock v)" "us_len (sv_sock v) \<le> 0" using Nil.prems(1) by (auto simp: ready_def)
  have r: "UplinkRecvPkt EthSvrGetChar 5 fuel (sv_fsm v) (sv_sock v) = Inr (1, UpTimerProc (sv_fsm v), (sv_sock v)\<lparr>us_net := net, us_len := - 1\<rparr>)"
    using assms(2) o Nil.prems(2) by (cases fuel) (auto simp: UplinkRecvPkt_def EthSvrGetChar_def)
  have "fsm_ok (UpTimerProc (sv_fsm v))" "stat (UpTimerProc (sv_fsm v)) = 0"
    using Nil.prems(1) fsm_ok_timer [of "sv_fsm v"] by (auto simp: ready_def UpTimerProc_def Let_def UplinkClearState_def StopUpTimer_def)
  then show ?case using r Nil.prems(1) by (simp add: n ethsvr_itf_def ready_def udp_ok_def)
next
  case (Cons d ds)
  obtain a f where d: "d = (a, f)" by (cases d)
  obtain n' where n: "n = Suc n'" "length ds < n'" using Cons.prems(3) by (cases n) auto
  have f: "plain_frame f" "valid_frame f" using Cons.prems(4) by (auto simp: d plain_frame_def)
  have v: "us_open (sv_sock v)" "udp_ok (sv_sock v)" "us_len (sv_sock v) \<le> 0" "fsm_ok (sv_fsm v)" "stat (sv_fsm v) = 0"
    "length (sv_snd v) = 1152" "length (audiourl v) = 512" using Cons.prems(1) by (auto simp: ready_def)
  define rest where "rest = map (\<lambda>(a, f). Some (a, f)) ds @ None # net"
  have "us_net (sv_sock v) = Some (a, f) # rest" using Cons.prems(2) by (simp add: d rest_def)
  from udp_recv_frame [OF f(2) v(4,5,1,2,3) this assms(2), of 5] obtain c' buf h where
    r: "UplinkRecvPkt EthSvrGetChar 5 fuel (sv_fsm v) (sv_sock v) =
        Inr (0, c', (sv_sock v)\<lparr>us_net := rest, us_addr := Some a, us_buf := buf, us_head := h, us_len := 0\<rparr>)"
    and c': "fsm_ok c'" "stat c' = 0" "take (length f) (rcvbuf c') = f" and buf: "length buf = 2048" by blast
  let ?e = "(sv_sock v)\<lparr>us_net := rest, us_addr := Some a, us_buf := buf, us_head := h, us_len := 0\<rparr>"
  let ?v = "v\<lparr>sv_fsm := c', sv_sock := ?e\<rparr>"
  have "length (rcvbuf c') = 1152" using c'(1) by (simp add: fsm_ok_def MAXLEN_GPRSITF_BUF_def)
  then obtain w bs where w: "SvrMessageProc ethsvr_itf p ?v = Inr w" "map reply_kind bs = promised p f" "sv_fsm w = c'" "length (sv_snd w) = 1152"
    "audiourl w = new_url f (audiourl v)" "sv_sock w = ?e\<lparr>us_sent := us_sent (sv_sock v) @ map (Pair (Some a)) bs\<rparr>"
    using answer_frame [OF f(1), of ?v p] c'(3) v by auto
  have step: "EthSvrTask_loop p fuel n v = EthSvrTask_loop p fuel n' w" using r w(1) by (simp add: n(1) ethsvr_itf_def)
  have "length (audiourl w) = 512" using w(5) v(7) f(1) valid_frameD(1) [OF f(2)] by (auto simp: new_url_def plain_frame_def)
  then have "ready w" using w(3,4,6) c' v buf by (simp add: ready_def udp_ok_def)
  moreover have "us_net (sv_sock w) = map (\<lambda>(a, f). Some (a, f)) ds @ None # net" using w(6) by (simp add: rest_def)
  ultimately obtain w' where w': "EthSvrTask_loop p fuel n' w = Inr w'" "ready w'" "audiourl w' = fold (\<lambda>(a, f). new_url f) ds (audiourl w)"
    "us_net (sv_sock w') = net"
    "map (\<lambda>(a, b). (a, reply_kind b)) (us_sent (sv_sock w')) =
        map (\<lambda>(a, b). (a, reply_kind b)) (us_sent (sv_sock w)) @ concat (map (\<lambda>(a, f). map (Pair (Some a)) (promised p f)) ds)"
    using Cons.IH [of w n'] n(2) Cons.prems(4) by auto
  have "map (\<lambda>(a, b). (a, reply_kind b)) (map (Pair (Some a)) bs) = map (Pair (Some a)) (promised p f)"
    by (simp add: comp_def flip: w(2))
  then show ?case using step w' w(5,6) by (simp add: d)
qed

subsection \<open>Properties\<close>

text \<open>C15: datagrams with one frame each are all served in one round, in their order and whoever sent them: a login, a heartbeat and an address
  of the music are answered by one frame with their echo to the sender of their datagram, everything else by none; the address of the music
  is the last one that was sent, by anyone.\<close>

theorem datagrams_served:
  assumes "ready v" "list_all (\<lambda>(a, f). plain_frame f) ds" "us_net (sv_sock v) = map (\<lambda>(a, f). Some (a, f)) ds @ None # net"
    "length ds < n" "1152 < fuel"
  shows "\<exists>w. EthSvrTask_round p fuel n False v = Inr (False, w) \<and> ready w \<and> us_net (sv_sock w) = net \<and>
    audiourl w = fold (\<lambda>(a, f). new_url f) ds (audiourl v) \<and>
    map (\<lambda>(a, b). (a, reply_kind b)) (us_sent (sv_sock w)) =
      map (\<lambda>(a, b). (a, reply_kind b)) (us_sent (sv_sock v)) @ concat (map (\<lambda>(a, f). map (Pair (Some a)) (promised p f)) ds)"
proof -
  obtain w where "EthSvrTask_loop p fuel n v = Inr w" "ready w" "audiourl w = fold (\<lambda>(a, f). new_url f) ds (audiourl v)" "us_net (sv_sock w) = net"
    "map (\<lambda>(a, b). (a, reply_kind b)) (us_sent (sv_sock w)) =
      map (\<lambda>(a, b). (a, reply_kind b)) (us_sent (sv_sock v)) @ concat (map (\<lambda>(a, f). map (Pair (Some a)) (promised p f)) ds)"
    using EthSvrTask_loop_frames [OF assms(2,5,1,3,4)] by blast
  then show ?thesis by (simp add: EthSvrTask_round_def)
qed

text \<open>Two addresses ask for the heartbeat of a server that has heard nobody.\<close>

definition sample_udp :: "(nat \<times> bytes) option list \<Rightarrow> nat udp server" where
  "sample_udp net = \<lparr>sv_sock = \<lparr>us_open = True, us_addr = None, us_buf = replicate 2048 0, us_len = 0, us_head = 0, us_net = net, us_sent = []\<rparr>,
     sv_fsm = idle_fsm, sv_snd = replicate 1152 0, sv_keep = sv_keep sample_server, sv_event = 0, sv_dev = sv_dev sample_server,
     sv_alarm = sv_alarm sample_server, sv_connect = [], sv_leaked = 0, CountFail = 0, sv_system = [], audiourl = replicate 512 0, UpdateAudiourlFlag = 0,
     DeviceCheckResultFlag = 0, login_update_system = 0, login_down_musice = 0, sv_led_net = []\<rparr>"

theorem datagrams_served_witness:
  "\<exists>f w. EthSvrTask_round sample_para 2000 3 False (sample_udp [Some (7, f), Some (8, f), None]) = Inr (False, w) \<and>
     map (\<lambda>(a, b). (a, reply_kind b)) (us_sent (sv_sock w)) = [(Some 7, (13, 0xa3, None)), (Some 8, (13, 0xa3, None))]"
proof -
  let ?q = "set_head 0x23 0 (replicate 13 0) :: bytes"
  define f where "f = framed ?q"
  have q: "pkt_len ?q + 13 \<le> length ?q" "?q ! 0 = UPLINK_HEAD" "?q ! 6 = UPLINK_HEAD" "pkt_len ?q + 13 \<le> MAXLEN_GPRSITF_BUF"
    by (simp_all add: MAXLEN_GPRSITF_BUF_def)
  have v: "valid_frame f" unfolding f_def by (rule valid_framed [OF q])
  have "pkt_cmd f = 0x23" using framed_nth [OF q(1), of 7] set_head_simps(2) [of "replicate 13 0"] by (simp add: f_def pkt_cmd_def)
  then have cmd: "frame_cmd f = 0x23" by (simp add: frame_cmd_def FAALMASK_CMD_def)
  have "length f = 13" using length_framed [OF q(1)] by (simp add: f_def)
  then have f: "plain_frame f" using v cmd valid_frameD(1) [OF v] by (simp add: plain_frame_def)
  have r: "ready (sample_udp net)" for net
    using sample_server_facts by (simp add: ready_def sample_udp_def udp_ok_def idle_fsm_def fsm_ok_def stage_ok_def MAXLEN_GPRSITF_BUF_def)
  have "list_all (\<lambda>(a, f). plain_frame f) [(7::nat, f), (8, f)]" using f by simp
  from datagrams_served [OF r this, of "[Some (7, f), Some (8, f), None]" "[]" 3 2000 sample_para] show ?thesis
    using cmd by (intro exI [of _ f]) (auto simp: sample_udp_def promised_def)
qed

text \<open>A login without data is answered by what an earlier login left in the buffer.\<close>

lemma stale_login:
  assumes v: "ready v" and f: "valid_frame f" "frame_cmd f = 0x25" "length f \<le> 42"
    and old: "take 32 (drop 42 (rcvbuf (sv_fsm v))) = take 32 (sp_termip_pwd p)"
    and net: "us_net (sv_sock v) = Some (a, f) # None # net" and fuel: "1152 < fuel"
  shows "\<exists>w b. EthSvrTask_loop p fuel 2 v = Inr w \<and> us_sent (sv_sock w) = us_sent (sv_sock v) @ [(Some a, b)] \<and> b ! 7 = 0xa5 \<and> b ! 10 = FAALERR_OK"
proof -
  have r: "us_open (sv_sock v)" "udp_ok (sv_sock v)" "us_len (sv_sock v) \<le> 0" "fsm_ok (sv_fsm v)" "stat (sv_fsm v) = 0"
    "length (sv_snd v) = 1152" "length (audiourl v) = 512" using v by (auto simp: ready_def)
  obtain c' buf h where c: "UplinkRecvPkt EthSvrGetChar 5 fuel (sv_fsm v) (sv_sock v) =
      Inr (0, c', (sv_sock v)\<lparr>us_net := None # net, us_addr := Some a, us_buf := buf, us_head := h, us_len := 0\<rparr>)"
    and c': "fsm_ok c'" "take (length f) (rcvbuf c') = f" "drop (length f) (rcvbuf c') = drop (length f) (rcvbuf (sv_fsm v))"
    using udp_recv_frame [OF f(1) r(4,5,1,2,3) net fuel, of 5] by blast
  let ?v = "v\<lparr>sv_fsm := c', sv_sock := (sv_sock v)\<lparr>us_net := None # net, us_addr := Some a, us_buf := buf, us_head := h, us_len := 0\<rparr>\<rparr>"
  note fb = frame_in_buffer [OF f(1) c'(2)]
  have "drop 42 (rcvbuf c') = drop 42 (rcvbuf (sv_fsm v))"
    using c'(3) f(3) by (metis drop_drop le_add_diff_inverse2)
  then have pw: "take 32 (drop 32 (drop 10 (rcvbuf (sv_fsm ?v)))) = take 32 (sp_termip_pwd p)" using old by simp
  have h: "length (rcvbuf (sv_fsm ?v)) = 1152" "pkt_len (rcvbuf (sv_fsm ?v)) \<le> 1014" "length (sv_snd ?v) = 1152" "length (audiourl ?v) = 512" "svr_cmd ?v = 0x25"
    using c'(1) r fb(1,2) f valid_frameD(1) [OF f(1)] by (simp_all add: fsm_ok_def MAXLEN_GPRSITF_BUF_def svr_cmd_def frame_cmd_def)
  obtain w b where w: "SvrMessageProc ethsvr_itf p ?v = Inr w" "answered ethsvr_itf ?v [b] w" "b ! 7 = 0xa5" "b ! 10 = FAALERR_OK"
    using message_answered [OF h(1-4), of ethsvr_itf p, unfolded Let_def, THEN conjunct1, THEN mp, OF h(5), unfolded pw] by auto
  from answered_udp [OF w(2)] r(1) have e: "us_len (sv_sock w) = 0" "us_open (sv_sock w)" "us_net (sv_sock w) = None # net"
    "us_sent (sv_sock w) = us_sent (sv_sock v) @ [(Some a, b)]" by auto
  then have "UplinkRecvPkt EthSvrGetChar 5 fuel (sv_fsm w) (sv_sock w) = Inr (1, UpTimerProc (sv_fsm w), (sv_sock w)\<lparr>us_net := net, us_len := - 1\<rparr>)"
    using fuel by (cases fuel) (auto simp: UplinkRecvPkt_def EthSvrGetChar_def)
  then show ?thesis using c w(1,3,4) e by (simp add: numeral_2_eq_2 ethsvr_itf_def)
qed

end
