(* ===== verification/Datachg.thy ===== *)
theory Datachg
  imports Xin
begin

text \<open>
  The other conversions of \<open>lib/datachg.c\<close>: the order of the bytes of a word, the absolute difference and the
  share of a number, and text: bytes in hexadecimal, numbers in decimal, addresses of the network. The dump of
  a buffer is also in \<open>debug/log.c\<close> (\<open>PrintHexLog\<close>) with another width. \<open>unsigned long\<close> has 32 bits on the
  target. The powers and angles of \<open>cal_pwrf\<close> and \<open>cal_amppola\<close> are computed in floating point and not modelled.
\<close>

subsection \<open>The order of bytes\<close>

definition htons :: "u16 \<Rightarrow> u16" where
  "htons us = u16_of (hi8 us) (lo8 us)"

definition htonl :: "u32 \<Rightarrow> u32" where
  "htonl ul = u32_of (ucast (drop_bit 24 ul)) (ucast (drop_bit 16 ul)) (ucast (drop_bit 8 ul)) (ucast ul)"

definition make_short :: "u8 \<Rightarrow> u8 \<Rightarrow> u16" where "make_short s0 s1 = u16_of s0 s1"
definition depart_short :: "u16 \<Rightarrow> bytes" where "depart_short us = [lo8 us, hi8 us]"

definition make_long :: "u8 \<Rightarrow> u8 \<Rightarrow> u8 \<Rightarrow> u8 \<Rightarrow> u32" where "make_long s0 s1 s2 s3 = u32_of s0 s1 s2 s3"
definition make_shortlong :: "u8 \<Rightarrow> u8 \<Rightarrow> u8 \<Rightarrow> u32" where "make_shortlong s0 s1 s2 = u32_of s0 s1 s2 0"
definition depart_long :: "u32 \<Rightarrow> bytes" where
  "depart_long ul = [ucast ul, ucast (drop_bit 8 ul), ucast (drop_bit 16 ul), ucast (drop_bit 24 ul)]"
definition depart_shortlong :: "u32 \<Rightarrow> bytes" where
  "depart_shortlong ul = [ucast ul, ucast (drop_bit 8 ul), ucast (drop_bit 16 ul)]"

definition uldel :: "u32 \<Rightarrow> u32 \<Rightarrow> int \<times> u32" where
  "uldel ul1 ul2 = (if ul1 < ul2 then (-1, ul2 - ul1) else if ul1 > ul2 then (1, ul1 - ul2) else (0, 0))"

text \<open>The product is computed in 64 bits and the quotient cut to 32.\<close>

definition ulxrate :: "u32 \<Rightarrow> u16 \<Rightarrow> u32" where
  "ulxrate ul rate = word_of_int (uint ul * uint rate div 10000)"

text \<open>The bytes are swapped in place, from the outside in.\<close>

definition swap_at :: "nat \<Rightarrow> nat \<Rightarrow> bytes \<Rightarrow> bytes" where
  "swap_at i j str = str[i := str ! j, j := str ! i]"

definition highttolowtime :: "bytes \<Rightarrow> bytes" where
  "highttolowtime str = fold (\<lambda>i str. swap_at i (length str - i - 1) str) [0..<length str div 2] str"

subsection \<open>Bytes in hexadecimal\<close>

definition g_strlib_digits :: string where "g_strlib_digits = ''0123456789ABCDEF'' @ [CHR 0x00]"

definition hex2toa :: "u8 \<Rightarrow> string" where
  "hex2toa uc = [g_strlib_digits ! unat (drop_bit 4 uc AND 0x0f), g_strlib_digits ! unat (uc AND 0x0f)]"

text \<open>The loop of both dumps over a line buffer of \<open>cap\<close> bytes: \<open>i\<close> is the number of the byte, counted from
  1, and \<open>str\<close> the line so far, whose terminator takes one byte more. A line is printed when it holds \<open>row\<close>
  bytes; \<open>None\<close> is a write out of the buffer.\<close>

fun dump_loop :: "nat \<Rightarrow> nat \<Rightarrow> nat \<Rightarrow> string \<Rightarrow> bytes \<Rightarrow> (string list \<times> string) option" where
  "dump_loop cap row i str [] = Some ([], str)"
| "dump_loop cap row i str (uc # buf) =
     (let str = str @ hex2toa uc @ '' '' in
      if cap \<le> length str then None
      else if i mod row = 0 then map_option (apfst ((#) str)) (dump_loop cap row (Suc i) [] buf)
      else if i mod 8 = 0 then
        let str = str @ '': '' in
        if cap \<le> length str then None else dump_loop cap row (Suc i) str buf
      else dump_loop cap row (Suc i) str buf)"

definition dump :: "nat \<Rightarrow> nat \<Rightarrow> string \<Rightarrow> bytes \<Rightarrow> string list option" where
  "dump cap row nl buf =
     (case dump_loop cap row 1 [] buf of
        None \<Rightarrow> None
      | Some (out, str) \<Rightarrow> Some (map (\<lambda>l. l @ nl) (if str \<noteq> [] then out @ [str] else out)))"

definition print_charbuf :: "bytes \<Rightarrow> string list option" where
  "print_charbuf buf = dump 128 16 [CHR 0x0D, CHR 0x0A] buf"

definition PrintHexLog :: "int \<Rightarrow> int \<Rightarrow> bytes \<Rightarrow> string list option" where
  "PrintHexLog LogType type buf = (if LogType \<noteq> type \<and> 0 \<noteq> type then Some [] else dump 256 32 [CHR 0x0A] buf)"

subsection \<open>Numbers in decimal\<close>

text \<open>The largest power of ten is found by a comparison of \<open>unsigned long\<close>. After 32 rounds the product is 0 and
  stays so: a loop that runs out of its 33 rounds would never end.\<close>

fun itoa_scale :: "nat \<Rightarrow> u32 \<Rightarrow> u32 \<Rightarrow> u32 option" where
  "itoa_scale 0 q tens = None"
| "itoa_scale (Suc fuel) q tens = (if q \<ge> tens then itoa_scale fuel q (tens * 10) else Some tens)"

function itoa_digits :: "u32 \<Rightarrow> u32 \<Rightarrow> string option" where
  "itoa_digits tens i =
     (if tens = 0 then Some []
      else let digit = i div tens in
        if length g_strlib_digits \<le> unat digit then None
        else map_option ((#) (g_strlib_digits ! unat digit)) (itoa_digits (tens div 10) (i - digit * tens)))"
  by auto
termination
proof (relation "measure (\<lambda>(tens, i). unat tens)")
  show "wf (measure (\<lambda>(tens, i). unat tens))" by simp
  show "((tens div 10, i - x * tens), (tens, i)) \<in> measure (\<lambda>(tens, i). unat tens)"
    if "tens \<noteq> 0" for tens i x :: u32
    using that by (simp add: unat_div_distrib unat_gt_0)
qed

declare itoa_digits.simps [simp del]

definition itoa :: "int \<Rightarrow> string option" where
  "itoa i =
     (if i = 0 then Some ''0''
      else let (sign, i) = (if i < 0 then (''-'', s32 (i * -1)) else ([], i)) in
        case itoa_scale 33 (word_of_int (cdiv i 10)) 1 of
          None \<Rightarrow> None
        | Some tens \<Rightarrow> map_option ((@) sign) (itoa_digits tens (word_of_int i)))"

text \<open>The bytes of the address are taken from the highest address down.\<close>

definition iptoa :: "u32 \<Rightarrow> string option" where
  "iptoa ip =
     foldl (\<lambda>str i. case (str, itoa (uint (le32 ip ! i))) of
         (Some str, Some s) \<Rightarrow> Some (str @ s @ (if i > 0 then ''.'' else [])) | _ \<Rightarrow> None)
       (Some []) [3, 2, 1, 0]"

lemma unat_div10: "unat (w div 10 :: u32) = unat w div 10"
  by (simp add: unat_div_distrib)


subsection \<open>Decimal text\<close>

fun top_digits :: "nat \<Rightarrow> nat \<Rightarrow> string" where
  "top_digits 0 n = [char_of (48 + n)]"
| "top_digits (Suc m) n = char_of (48 + n div 10 ^ Suc m) # top_digits m (n mod 10 ^ Suc m)"

lemma top_digits_last: "top_digits (Suc m) n = top_digits m (n div 10) @ [char_of (48 + n mod 10)]"
proof (induction m arbitrary: n)
  case (Suc m)
  have shift: "(10 * x + n mod 10) div 10 = x" for x by simp
  have "n mod (10 * 10 ^ Suc m) div 10 = n div 10 mod 10 ^ Suc m" 
    by (simp only: mod_mult2_eq [of n 10 "10 ^ Suc m"] shift)
  moreover have "n mod (10 * 10 ^ Suc m) mod 10 = n mod 10" by (simp add: mod_mod_cancel)
  moreover have "n div 10 div 10 ^ Suc m = n div 10 ^ Suc (Suc m)" by (simp flip: div_mult2_eq)
  ultimately show ?case
    using Suc.IH [of "n mod 10 ^ Suc (Suc m)"] by simp
qed simp

lemma dec_nat_top: "n < 10 ^ Suc m \<Longrightarrow> m = 0 \<or> 10 ^ m \<le> n \<Longrightarrow> dec_nat n = top_digits m n"
proof (induction m arbitrary: n)
  case 0
  then show ?case by (subst dec_nat.simps) simp
next
  case (Suc m)
  then have "10 \<le> n" "n div 10 < 10 ^ Suc m" "m = 0 \<or> 10 ^ m \<le> n div 10"
    by (auto simp: less_eq_div_iff_mult_less_eq less_mult_imp_div_less mult.commute order_trans [OF _ Suc.prems(2) [simplified]])
  then show ?case using Suc.IH [of "n div 10"] by (subst dec_nat.simps) (simp only: top_digits_last, simp)
qed

lemma strlib_digit: "d < 10 \<Longrightarrow> g_strlib_digits ! d = char_of (48 + d)"
proof -
  assume d: "d < 10"
  have "take 10 g_strlib_digits = map (\<lambda>d. char_of (48 + d)) [0..<10]" by code_simp
  then have "take 10 g_strlib_digits ! d = char_of (48 + d)" using d by simp
  then show ?thesis using d by simp
qed

lemma itoa_digits_top:
  "unat tens = 10 ^ m \<Longrightarrow> unat i < 10 ^ Suc m \<Longrightarrow> itoa_digits tens i = Some (top_digits m (unat i))"
proof (induction m arbitrary: tens i)
  case 0
  then have t: "tens = 1" by (metis power_0 unat_1 word_unat_eq_iff)
  have "unat i < 10" using 0 by simp
  then show ?case using itoa_digits.simps [of tens i] itoa_digits.simps [of 0 "i - i"]
    by (simp add: t strlib_digit) (simp add: g_strlib_digits_def)
next
  case (Suc m)
  have d: "unat (i div tens) = unat i div 10 ^ Suc m" using Suc.prems(1) by (simp add: unat_div_distrib)
  have lt: "unat i div 10 ^ Suc m < 10" using Suc.prems(2) by (simp add: less_mult_imp_div_less)
  have t: "unat (tens div 10) = 10 ^ m" using Suc.prems(1) by (simp add: unat_div_distrib)
  have r: "i - i div tens * tens = i mod tens" by (simp add: minus_div_mult_eq_mod)
  have i: "unat (i mod tens) = unat i mod 10 ^ Suc m" using Suc.prems(1) by (simp add: unat_mod_distrib)
  have "unat (i mod tens) < 10 ^ Suc m" unfolding i by (rule mod_less_divisor) simp
  note IH = Suc.IH [OF t this]
  have "tens \<noteq> 0" using Suc.prems(1) by auto
  then show ?case
    using d lt by (subst itoa_digits.simps) (simp add: Let_def r IH i strlib_digit g_strlib_digits_def [THEN arg_cong [of _ _ length]])
qed

lemma itoa_scale_stops:
  assumes "unat tens = 10 ^ k" "k \<le> 9" "unat q < 10 ^ 9" "9 - k < fuel" "k = 0 \<or> 10 ^ (k - 1) \<le> unat q"
  shows "\<exists>t m. itoa_scale fuel q tens = Some t \<and> unat t = 10 ^ m \<and> unat q < 10 ^ m \<and> (m = 0 \<or> 10 ^ (m - 1) \<le> unat q)"
  using assms
proof (induction fuel arbitrary: tens k)
  case (Suc fuel)
  show ?case
  proof (cases "q \<ge> tens")
    case False
    then show ?thesis using Suc.prems by (auto simp: word_le_nat_alt not_le intro!: exI [of _ k])
  next
    case True
    then have le: "10 ^ k \<le> unat q" using Suc.prems(1) by (simp add: word_le_nat_alt)
    then have k: "k < 9" using Suc.prems(2,3) by (metis le_neq_implies_less not_le)
    then have "(10::nat) ^ Suc k \<le> 10 ^ 9" by (intro power_increasing) auto
    then have "unat (tens * 10) = 10 ^ Suc k"
      using Suc.prems(1) by (simp add: unat_word_ariths)
    from Suc.IH [OF this] show ?thesis using k le Suc.prems True by simp
  qed
qed simp

lemma itoa_pos: "0 < i \<Longrightarrow> i < 2147483648 \<Longrightarrow>
   (case itoa_scale 33 (word_of_int (cdiv i 10)) 1 of None \<Rightarrow> None | Some tens \<Rightarrow> itoa_digits tens (word_of_int i)) = Some (dec_nat (nat i))"
proof -
  assume i: "0 < i" "i < 2147483648"
  define n where "n = nat i"
  have n: "0 < n" "n < 2147483648" "i = int n" using i by (auto simp: n_def)
  have c: "cdiv i 10 = int (n div 10)" by (simp add: n(3) zdiv_int)
  have w: "word_of_int i = (of_nat n :: u32)" "word_of_int (cdiv i 10) = (of_nat (n div 10) :: u32)"
    by (simp add: n(3), simp only: c of_int_of_nat_eq)
  have u: "unat (word_of_int i :: u32) = n" "unat (word_of_int (cdiv i 10) :: u32) = n div 10"
    unfolding w using n(2) by (simp_all add: unat_of_nat take_bit_eq_mod)
  have n9: "n div 10 < 1000000000" using n(2) by linarith
  obtain t m where t: "itoa_scale 33 (word_of_int (cdiv i 10)) 1 = Some t" "unat t = 10 ^ m" "n div 10 < 10 ^ m"
    "m = 0 \<or> 10 ^ (m - 1) \<le> n div 10"
    using itoa_scale_stops [of 1 0 "word_of_int (cdiv i 10)" 33] n9 by (auto simp: u)
  have "n < 10 ^ Suc m" using t(3) by (simp add: div_less_iff_less_mult mult.commute)
  moreover have "m = 0 \<or> 10 ^ m \<le> n"
    using t(4) by (cases m) (auto simp: less_eq_div_iff_mult_less_eq mult.commute)
  ultimately have "itoa_digits t (word_of_int i) = Some (dec_nat n)"
    using itoa_digits_top [OF t(2), of "word_of_int i"] by (simp add: u(1) dec_nat_top)
  then show ?thesis using t(1) by (simp add: n_def)
qed

lemma s32_neg: "- 2147483648 < i \<Longrightarrow> i < 0 \<Longrightarrow> s32 (i * -1) = - i" by (simp add: s32_small)

lemma chr_zero: "char_of (48 :: nat) = CHR ''0''" by code_simp

lemma itoa_dec: "- 2147483648 < i \<Longrightarrow> i < 2147483648 \<Longrightarrow> itoa i = Some (dec_int i)"
  using itoa_pos [of i] itoa_pos [of "- i"] s32_neg [of i]
  by (cases "i = 0"; cases "i < 0") (auto simp: itoa_def dec_int_def dec_nat.simps [of 0] chr_zero split: option.splits)

lemma scale_numeral: "itoa_scale (numeral k) q tens = (if q \<ge> tens then itoa_scale (pred_numeral k) q (tens * 10) else Some tens)"
  by (simp add: numeral_eq_Suc)

lemma itoa_smallest: "itoa (- 2147483648) = Some ''-0519269783''" 
  by (simp add: itoa_def s32_def cdiv_def scale_numeral itoa_digits.simps word_le_def g_strlib_digits_def)

lemma itoa_byte: "itoa (uint (b :: u8)) = Some (dec_nat (unat b))"
proof -
  have "uint b < 256" using uint_bounded [of b] by simp
  moreover have "- 2147483648 < uint b" using uint_ge_0 [of b] by linarith
  ultimately show ?thesis using itoa_dec [of "uint b"] by (simp add: dec_int_def)
qed

lemma iptoa_dotted: "iptoa ip = Some (dec_nat (unat (ucast (drop_bit 24 ip) :: u8)) @ ''.'' @ dec_nat (unat (ucast (drop_bit 16 ip) :: u8)) @ ''.'' @
     dec_nat (unat (ucast (drop_bit 8 ip) :: u8)) @ ''.'' @ dec_nat (unat (ucast ip :: u8)))"
  by (simp add: iptoa_def itoa_byte le32_def)


text \<open>\<open>itoa\<close> writes every number of the type \<open>int\<close> in decimal but the smallest, of which it writes other digits,
  and \<open>iptoa\<close> writes an address as the decimal numbers of its four bytes from the highest down.\<close>

theorem itoa_decimal:
  "(\<forall>i. int_ok i \<longrightarrow> (itoa i = Some (dec_int i) \<longleftrightarrow> i \<noteq> - 2147483648)) \<and>
   iptoa ip = Some (dec_nat (unat (ucast (drop_bit 24 ip) :: u8)) @ ''.'' @ dec_nat (unat (ucast (drop_bit 16 ip) :: u8)) @ ''.'' @
     dec_nat (unat (ucast (drop_bit 8 ip) :: u8)) @ ''.'' @ dec_nat (unat (ucast ip :: u8)))"
proof -
  have "dec_int (- 2147483648) \<noteq> ''-0519269783''"
    by (simp add: dec_int_def dec_nat.simps)
  then have "itoa i = Some (dec_int i) \<longleftrightarrow> i \<noteq> - 2147483648" if "int_ok i" for i
    using itoa_dec [of i] itoa_smallest that by (auto simp: int_ok_def)
  then show ?thesis using iptoa_dotted by blast
qed

theorem itoa_decimal_witness: "itoa (- 305) = Some ''-305''"
proof -
  have "int_ok (- 305)" by (simp add: int_ok_def)
  from itoa_decimal [of 0, THEN conjunct1, rule_format, OF this] have "itoa (- 305) = Some (dec_int (- 305))" by simp
  moreover have "dec_int (- 305) = ''-305''" by (simp add: dec_int_def dec_nat.simps) code_simp
  ultimately show ?thesis by simp
qed

subsection \<open>Dumps\<close>

lemma hex2toa_hex2: "hex2toa b = hex2 b"
proof -
  have d: "n < 16 \<Longrightarrow> g_strlib_digits ! n = hex_digit n" for n
  proof -
    assume n: "n < 16"
    have "take 16 g_strlib_digits = map hex_digit [0..<16]" by code_simp
    then have "take 16 g_strlib_digits ! n = hex_digit n" using n by simp
    then show ?thesis using n by simp
  qed
  have "unat b div 16 < 16" using unat_u8_lt [of b] by (simp add: less_mult_imp_div_less del: unat_u8_lt)
  moreover have "drop_bit 4 b AND 0x0f = drop_bit 4 b"
    unfolding u8_low_nibble by (rule bit_word_eqI) (auto simp: bit_simps dest: bit_imp_le_length)
  moreover have "unat (drop_bit 4 b) = unat b div 16" by (simp only: unat_drop_bit_eq) (simp add: drop_bit_eq_div)
  ultimately show ?thesis by (simp add: hex2toa_def hex2_def d unat_low_nibble)
qed

definition hex_chars :: "string \<Rightarrow> string" where
  "hex_chars s = filter (\<lambda>c. hex_val c \<noteq> None) s"

lemma hex_chars_simps [simp]:
  "hex_chars (s @ t) = hex_chars s @ hex_chars t" "hex_chars (hex2 b) = hex2 b"
  "hex_chars (CHR '' '' # s) = hex_chars s" "hex_chars (CHR '':'' # s) = hex_chars s"
  "hex_chars '' '' = []" "hex_chars '': '' = []" "hex_chars [CHR 0x0D, CHR 0x0A] = []" "hex_chars [CHR 0x0A] = []" "hex_chars [] = []"
proof -
  have "unat b div 16 < 16" using unat_u8_lt [of b] by (simp add: less_mult_imp_div_less del: unat_u8_lt)
  then show "hex_chars (hex2 b) = hex2 b" by (simp add: hex_chars_def hex2_def)
qed (simp_all add: hex_chars_def hex_val_def)

text \<open>\<open>k\<close> bytes are on the line; after every eighth but the last there are two characters more.\<close>

lemma dump_loop_ok:
  assumes "row = 8 * r" "0 < r" "3 * row + 2 * r < cap"
  shows "i = row * q + k + 1 \<Longrightarrow> k < row \<Longrightarrow> length str = 3 * k + 2 * (k div 8) \<Longrightarrow>
    \<exists>out rest. dump_loop cap row i str buf = Some (out, rest) \<and> length rest < 3 * row + 2 * r \<and>
      (\<forall>l \<in> set out. length l < 3 * row + 2 * r) \<and>
      hex_chars (concat out) @ hex_chars rest = hex_chars str @ concat (map hex2 buf)"
proof (induction buf arbitrary: i q k str)
  case Nil
  have "k div 8 < r" using Nil(2) assms(1) by (simp add: div_less_iff_less_mult mult.commute)
  then show ?case using Nil(2,3) by simp
next
  case (Cons b buf)
  have k8: "k div 8 < r" using Cons.prems(2) assms(1) by (simp add: div_less_iff_less_mult mult.commute)
  have len: "length (str @ hex2 b @ '' '') = 3 * Suc k + 2 * (k div 8)" using Cons.prems(3) by (simp add: hex2_def)
  have i: "i mod row = Suc k mod row" "i mod 8 = Suc k mod 8"
    using mod_mult_self2 [of "Suc k" row q] mod_mult_self2 [of "Suc k" 8 "r * q"] Cons.prems(1) assms(1)
    by (simp_all add: ac_simps)
  have fits: "length (str @ hex2 b @ '' '') < 3 * row + 2 * r" "length (str @ hex2 b @ '' '') + 2 < cap"
    using len k8 Cons.prems(2) assms(3) by simp_all
  show ?case
  proof (cases "Suc k = row")
    case True
    have "Suc i = row * Suc q + 0 + 1" using Cons.prems(1) True by simp
    from Cons.IH [OF this, of "[]"] assms show ?thesis
      using fits i True by (auto simp: hex2toa_hex2 Let_def apfst_def)
  next
    case False
    then have k: "Suc k < row" using Cons.prems(2) by simp
    have n: "Suc i = row * q + Suc k + 1" using Cons.prems(1) by simp
    show ?thesis
    proof (cases "Suc k mod 8 = 0")
      case True
      then have "Suc k div 8 = Suc (k div 8)" by (simp add: div_Suc)
      then have "length (str @ hex2 b @ '' : '') = 3 * Suc k + 2 * (Suc k div 8)" using len by simp
      from Cons.IH [OF n k this] show ?thesis
        using fits i k True by (auto simp: hex2toa_hex2 Let_def)
    next
      case False
      then have "Suc k div 8 = k div 8" by (simp add: div_Suc)
      then have "length (str @ hex2 b @ '' '') = 3 * Suc k + 2 * (Suc k div 8)" using len by simp
      from Cons.IH [OF n k this] show ?thesis
        using fits i k False by (auto simp: hex2toa_hex2 Let_def)
    qed
  qed
qed

lemma dump_ok:
  assumes "row = 8 * r" "0 < r" "3 * row + 2 * r < cap" "hex_chars nl = []"
  shows "\<exists>out. dump cap row nl buf = Some out \<and> (\<forall>l \<in> set out. length l < 3 * row + 2 * r + length nl) \<and>
    hex_chars (concat out) = concat (map hex2 buf)"
proof -
  have m: "hex_chars (concat (map (\<lambda>l. l @ nl) ls)) = hex_chars (concat ls)" for ls
    using assms(4) by (induction ls) auto
  from dump_loop_ok [OF assms(1-3), of 1 0 0 "[]" buf] assms(1,2) obtain out rest where
    d: "dump_loop cap row 1 [] buf = Some (out, rest)" "length rest < 3 * row + 2 * r"
    "\<forall>l \<in> set out. length l < 3 * row + 2 * r" "hex_chars (concat out) @ hex_chars rest = concat (map hex2 buf)"
    by auto
  then show ?thesis by (auto simp: dump_def m assms(4))
qed

text \<open>The dumps of a buffer never write out of their line, a line has at most 53 or 104 characters, and the digits of
  the lines, read as hexadecimal, are the buffer.\<close>

theorem dumps_read_back:
  "(\<exists>out. print_charbuf buf = Some out \<and> list_all (\<lambda>l. length l \<le> 53) out \<and>
     XinStrToHex (hex_chars (concat out)) (length buf) = buf) \<and>
   (\<exists>out. PrintHexLog typ 0 buf = Some out \<and> list_all (\<lambda>l. length l \<le> 104) out \<and>
     XinStrToHex (hex_chars (concat out)) (length buf) = buf)"
  using dump_ok [of 16 2 128 "[CHR 0x0D, CHR 0x0A]" buf] dump_ok [of 32 4 256 "[CHR 0x0A]" buf] XinStrToHex_text [of buf]
  by (fastforce simp: print_charbuf_def PrintHexLog_def list_all_iff)


lemma swaps_nth:
  "n \<le> length str div 2 \<Longrightarrow>
   (let s = fold (\<lambda>i s. swap_at i (length s - i - 1) s) [0..<n] str in
    length s = length str \<and> (\<forall>i < length str. s ! i = str ! (if i < n \<or> length str - n \<le> i then length str - 1 - i else i)))"
proof (induction n)
  case (Suc n)
  define s where "s = fold (\<lambda>i s. swap_at i (length s - i - 1) s) [0..<n] str"
  have s: "length s = length str" "i < length str \<Longrightarrow> s ! i = str ! (if i < n \<or> length str - n \<le> i then length str - 1 - i else i)" for i
    using Suc by (simp_all add: s_def Let_def)
  have n: "2 * n + 2 \<le> length str" using Suc.prems by linarith
  have "swap_at n (length s - n - 1) s ! i = str ! (if i < Suc n \<or> length str - Suc n \<le> i then length str - 1 - i else i)"
    if i: "i < length str" for i
  proof -
    consider "i = n" | "i = length str - n - 1" | "i \<noteq> n" "i \<noteq> length str - n - 1" by blast
    then show ?thesis
    proof cases
      case 1
      have "length str - n - 1 < length str" "\<not> (length str - n - 1 < n \<or> length str - n \<le> length str - n - 1)" using n by linarith+
      then have "s ! (length str - n - 1) = str ! (length str - n - 1)" using s(2) by presburger
      then show ?thesis using 1 n s(1) by (simp add: swap_at_def nth_list_update)
    next
      case 2
      have "n < length str" "\<not> (n < n \<or> length str - n \<le> n)" using n by linarith+
      then have "s ! n = str ! n" using s(2) by presburger
      then show ?thesis using 2 n s(1) by (simp add: swap_at_def nth_list_update)
    next
      case 3
      then have "(i < Suc n \<or> length str - Suc n \<le> i) = (i < n \<or> length str - n \<le> i)" using n i by linarith
      then show ?thesis using 3 i s by (simp add: swap_at_def nth_list_update)
    qed
  qed
  moreover have "fold (\<lambda>i s. swap_at i (length s - i - 1) s) [0..<Suc n] str = swap_at n (length s - n - 1) s" by (simp add: s_def)
  moreover have "length (swap_at n (length s - n - 1) s) = length str" using s(1) by (simp add: swap_at_def)
  ultimately show ?case by (simp only: Let_def) blast
qed simp

text \<open>The swaps turn the bytes around.\<close>

lemma highttolowtime_rev: "highttolowtime str = rev str"
proof (rule nth_equalityI)
  note s = swaps_nth [of "length str div 2" str, simplified Let_def, OF order_refl]
  then show l: "length (highttolowtime str) = length (rev str)" by (simp add: highttolowtime_def)
  show "highttolowtime str ! i = rev str ! i" if "i < length (highttolowtime str)" for i
  proof -
    have i: "i < length str" using that l by simp
    then have "i < length str div 2 \<or> length str - length str div 2 \<le> i \<or> length str - 1 - i = i" by linarith
    then show ?thesis using s i by (auto simp: highttolowtime_def rev_nth)
  qed
qed

text \<open>Words read from bytes are what their bytes were written from, and the two orders are inverse.\<close>

lemma words_roundtrip:
  "make_short (depart_short us ! 0) (depart_short us ! 1) = us"
  "make_long (depart_long ul ! 0) (depart_long ul ! 1) (depart_long ul ! 2) (depart_long ul ! 3) = ul"
  "htons (htons us) = us" "htonl (htonl ul) = ul"
  subgoal by (simp add: make_short_def depart_short_def)
  subgoal by (simp add: make_long_def depart_long_def)
  subgoal by (simp add: htons_def)
  subgoal
  proof -
    have high: "\<not> bit (w :: u8) (8 + n)" "\<not> bit (w :: u8) (16 + n)" "\<not> bit (w :: u8) (24 + n)" for w n
      using bit_imp_le_length [of w] by fastforce+
    have le: "le32 (u32_of a b c d) = [a, b, c, d]" for a b c d
      unfolding le32_def u32_of_def by (auto intro!: bit_word_eqI simp: bit_simps high)
    show ?thesis using le [of "ucast (drop_bit 24 ul)" "ucast (drop_bit 16 ul)" "ucast (drop_bit 8 ul)" "ucast ul"]
      by (simp add: htonl_def le32_def)
  qed
  done

lemma shortlong_roundtrip:
  "ul < 2 ^ 24 \<Longrightarrow> make_shortlong (depart_shortlong ul ! 0) (depart_shortlong ul ! 1) (depart_shortlong ul ! 2) = ul"
proof -
  assume "ul < 2 ^ 24"
  then have "unat (drop_bit 24 ul) = 0" by (simp only: unat_drop_bit_eq) (simp add: drop_bit_eq_div word_less_nat_alt)
  then have "drop_bit 24 ul = 0" by (simp only: unat_eq_zero)
  then show ?thesis using u32_of_le32 [of ul] by (simp add: make_shortlong_def depart_shortlong_def)
qed

text \<open>A share of at most 100 percent is not cut.\<close>

lemma ulxrate_exact: "unat rate \<le> 10000 \<Longrightarrow> unat (ulxrate ul rate) = unat ul * unat rate div 10000"
proof -
  assume r: "unat rate \<le> 10000"
  have "unat ul * unat rate div 10000 \<le> unat ul * 10000 div 10000" by (intro div_le_mono mult_le_mono2 r)
  also have "\<dots> < 4294967296" by simp
  finally have "unat ul * unat rate div 10000 < 4294967296" .
  moreover have "ulxrate ul rate = of_nat (unat ul * unat rate div 10000)"
  proof -
    have "uint ul * uint rate div 10000 = int (unat ul * unat rate div 10000)" by (simp add: zdiv_int)
    then show ?thesis by (simp only: ulxrate_def of_int_of_nat_eq)
  qed
  ultimately show ?thesis by (simp add: unat_of_nat take_bit_eq_mod)
qed

lemma uldel_abs: "unat (snd (uldel a b)) = (if a < b then unat b - unat a else unat a - unat b) \<and> fst (uldel a b) = sgn (uint a - uint b)"
proof -
  consider "a < b" "unat a < unat b" | "b < a" "unat b < unat a" | "a = b" by (metis linorder_less_linear word_less_nat_alt)
  then show ?thesis
  proof cases
    case 1
    have "unat (b - a) = unat b - unat a" using 1(1) by (intro unat_sub) simp
    moreover have "uint a - uint b < 0" using 1(1) by (simp add: word_less_def)
    ultimately show ?thesis by (simp only: uldel_def 1(1) if_True fst_conv snd_conv sgn_neg)
  next
    case 2
    have "unat (a - b) = unat a - unat b" using 2(1) by (intro unat_sub) simp
    moreover have "0 < uint a - uint b" "\<not> a < b" using 2(1) by (simp add: word_less_def, simp)
    ultimately show ?thesis by (simp only: uldel_def 2(1) if_True if_False fst_conv snd_conv sgn_pos)
  qed (simp add: uldel_def)
qed

end
