(* ===== verification/Rmfiles.thy ===== *)
theory Rmfiles
  imports Storage "HOL-Library.Sublist"
begin

text \<open>
  Removing the files of a directory whose names match a pattern with one star (\<open>sys/syscall/file.c\<close>). A text is the
  characters before its NUL; the arrays for the path and the two parts of the pattern have 64, 16 and 16 bytes, and a
  write behind one of them is \<open>Inl FilterOutOfBounds\<close>. What \<open>opendir\<close> and \<open>readdir\<close> answer is an argument.
\<close>

datatype filter_stop = FilterOutOfBounds

definition MAXLEN_PATH :: nat where "MAXLEN_PATH = 64"
definition MAXLEN_HEAD :: nat where "MAXLEN_HEAD = 16"
definition MAXLEN_TAIL :: nat where "MAXLEN_TAIL = 16"

definition SysGetFileSize :: "bytes \<Rightarrow> int" where
  "SysGetFileSize content = int (length content) - 0"

text \<open>The position of the last slash, or -1.\<close>

fun last_slash :: "string \<Rightarrow> nat \<Rightarrow> int" where
  "last_slash src 0 = - 1"
| "last_slash src (Suc pos) = (if src ! pos = CHR ''/'' then int pos else last_slash src pos)"

text \<open>The loop over the pattern: whether a star was seen, the count of the characters since then, and the two parts
  so far. The answer is \<open>None\<close> when a part is too long.\<close>

fun filter_loop :: "bool \<Rightarrow> nat \<Rightarrow> string \<Rightarrow> string \<Rightarrow> string \<Rightarrow> filter_stop + (string \<times> string) option" where
  "filter_loop star pos filterhead filtertail [] =
     (if MAXLEN_HEAD \<le> length filterhead \<or> MAXLEN_TAIL \<le> length filtertail then Inl FilterOutOfBounds
      else Inr (Some (filterhead, filtertail)))"
| "filter_loop star pos filterhead filtertail (c # src) =
     (if c = CHR ''*'' then filter_loop True 0 filterhead filtertail src
      else if \<not> star then
        if MAXLEN_HEAD \<le> length filterhead then Inl FilterOutOfBounds
        else if MAXLEN_HEAD \<le> pos + 1 then Inr None
        else filter_loop star (pos + 1) (filterhead @ [c]) filtertail src
      else
        if MAXLEN_TAIL \<le> length filtertail then Inl FilterOutOfBounds
        else if MAXLEN_TAIL \<le> pos + 1 then Inr None
        else filter_loop star (pos + 1) filterhead (filtertail @ [c]) src)"

definition parseFilter :: "string \<Rightarrow> filter_stop + (string \<times> string \<times> string) option" where
  "parseFilter src =
     (if MAXLEN_PATH \<le> length src then Inr None
      else
        let pos = last_slash src (length src);
            (path, src) = (if pos \<le> 0 then (''./'', src) else (take (nat pos + 1) src, drop (nat pos + 1) src))
        in map_sum id (map_option (Pair path)) (filter_loop False 0 [] [] src))"

fun cmp_head :: "string \<Rightarrow> string \<Rightarrow> bool" where
  "cmp_head file [] = True"
| "cmp_head [] (c # filterhead) = False"
| "cmp_head (f # file) (c # filterhead) = (if f \<noteq> c then False else cmp_head file filterhead)"

text \<open>The tail is compared from its last character on; \<open>i\<close> of its characters are left.\<close>

fun cmp_tail :: "string \<Rightarrow> string \<Rightarrow> nat \<Rightarrow> bool" where
  "cmp_tail file filtertail 0 = True"
| "cmp_tail file filtertail (Suc i) =
     (if filtertail ! i \<noteq> file ! (length file - length filtertail + i) then False else cmp_tail file filtertail i)"

definition compareFilter :: "string \<Rightarrow> string \<Rightarrow> string \<Rightarrow> bool" where
  "compareFilter file filterhead filtertail =
     (if filterhead \<noteq> [] \<and> \<not> cmp_head file filterhead then False
      else if filtertail \<noteq> [] then
        if length filtertail > length file then False
        else cmp_tail file filtertail (length filtertail)
      else True)"

definition SysRemoveOneFile :: "string \<Rightarrow> fs \<Rightarrow> fs" where
  "SysRemoveOneFile file s = fs_remove file s"

text \<open>An entry of the directory is whether it is a regular file, with its name. The name is put behind the path in
  the array when it fits, and in memory of its own when it does not.\<close>

definition remove_entry :: "string \<Rightarrow> string \<Rightarrow> string \<Rightarrow> bool \<times> string \<Rightarrow> fs \<Rightarrow> fs" where
  "remove_entry path filterhead filtertail ptr s =
     (if \<not> fst ptr then s
      else if compareFilter (snd ptr) filterhead filtertail then
        if length path + length (snd ptr) \<ge> MAXLEN_PATH then
          let tmppath = path @ snd ptr in fs_remove tmppath s
        else fs_remove (take (length path) path @ snd ptr) s
      else s)"

definition SysRemoveFiles :: "(string \<Rightarrow> (bool \<times> string) list option) \<Rightarrow> string \<Rightarrow> fs \<Rightarrow> filter_stop + (int \<times> fs)" where
  "SysRemoveFiles opendir pattern s =
     (case parseFilter pattern of
        Inl e \<Rightarrow> Inl e
      | Inr None \<Rightarrow> Inr (1, s)
      | Inr (Some (path, filterhead, filtertail)) \<Rightarrow>
          (case opendir path of
             None \<Rightarrow> Inr (1, s)
           | Some ptrs \<Rightarrow> Inr (0, fold (remove_entry path filterhead filtertail) ptrs s)))"

subsection \<open>Matching\<close>

lemma cmp_head_prefix: "cmp_head g h \<longleftrightarrow> prefix h g"
  by (induction g h rule: cmp_head.induct) auto

lemma cmp_tail_nth: "cmp_tail g t i \<longleftrightarrow> (\<forall>j < i. t ! j = g ! (length g - length t + j))"
  by (induction i) (auto simp: less_Suc_eq)

lemma cmp_tail_suffix: "length t \<le> length g \<Longrightarrow> cmp_tail g t (length t) \<longleftrightarrow> suffix t g"
proof -
  assume l: "length t \<le> length g"
  have "suffix t g \<longleftrightarrow> drop (length g - length t) g = t"
    by (metis suffix_def append_eq_conv_conj append_take_drop_id diff_diff_cancel l length_append length_drop add_diff_cancel_right')
  then show ?thesis using l by (auto simp: cmp_tail_nth list_eq_iff_nth_eq)
qed

lemma compareFilter_iff: "compareFilter g h t \<longleftrightarrow> prefix h g \<and> suffix t g"
  using suffix_length_le [of t g] by (auto simp: compareFilter_def cmp_head_prefix cmp_tail_suffix)

subsection \<open>Patterns\<close>

definition no_star :: "string \<Rightarrow> bool" where "no_star s \<longleftrightarrow> CHR ''*'' \<notin> set s"

lemma filter_loop_tail:
  "no_star t \<Longrightarrow> length hh < 16 \<Longrightarrow> length tt < 16 \<Longrightarrow>
   filter_loop True (length tt) hh tt t = Inr (if length tt + length t < 16 then Some (hh, tt @ t) else None)"
proof (induction t arbitrary: tt)
  case (Cons c t)
  then show ?case using Cons.IH [of "tt @ [c]"] by (auto simp: no_star_def MAXLEN_TAIL_def)
qed (simp add: MAXLEN_TAIL_def MAXLEN_HEAD_def)

lemma filter_loop_head:
  "no_star h \<Longrightarrow> length hh < 16 \<Longrightarrow>
   filter_loop False (length hh) hh [] (h @ rest) =
     (if length hh + length h < 16 then filter_loop False (length hh + length h) (hh @ h) [] rest else Inr None)"
proof (induction h arbitrary: hh)
  case (Cons c h)
  then show ?case using Cons.IH [of "hh @ [c]"] by (auto simp: no_star_def MAXLEN_HEAD_def)
qed simp

lemma filter_loop_one_star:
  "no_star h \<Longrightarrow> no_star t \<Longrightarrow> filter_loop False 0 [] [] (h @ CHR ''*'' # t) = Inr (if length h < 16 \<and> length t < 16 then Some (h, t) else None)"
  "no_star h \<Longrightarrow> filter_loop False 0 [] [] h = Inr (if length h < 16 then Some (h, []) else None)"
  using filter_loop_head [of h "[]" "CHR ''*'' # t"] filter_loop_head [of h "[]" "[]"] filter_loop_tail [of t h "[]"]
  by (auto simp: MAXLEN_HEAD_def MAXLEN_TAIL_def)

lemma last_slash_at:
  "i < n \<Longrightarrow> src ! i = CHR ''/'' \<Longrightarrow> (\<And>j. i < j \<Longrightarrow> j < n \<Longrightarrow> src ! j \<noteq> CHR ''/'') \<Longrightarrow> last_slash src n = int i"
  by (induction n) (auto simp: less_Suc_eq)

lemma last_slash_dir: "CHR ''/'' \<notin> set p \<Longrightarrow> last_slash (dir @ CHR ''/'' # p) (length (dir @ CHR ''/'' # p)) = int (length dir)"
proof (rule last_slash_at)
  fix j assume "CHR ''/'' \<notin> set p" "length dir < j" "j < length (dir @ CHR ''/'' # p)"
  then show "(dir @ CHR ''/'' # p) ! j \<noteq> CHR ''/''"
  proof -
    obtain k where "j = Suc (length dir + k)" using \<open>length dir < j\<close> less_imp_Suc_add by blast
    moreover from this have "p ! k \<in> set p" using \<open>j < length (dir @ CHR ''/'' # p)\<close> by simp
    ultimately show ?thesis using \<open>CHR ''/'' \<notin> set p\<close> by (metis add_Suc_right nth_append_length_plus nth_Cons_Suc)
  qed
qed simp_all

text \<open>What is removed: the regular entries of the directory that match.\<close>

lemma remove_entry_files:
  "files (remove_entry path h t ptr s) = (if fst ptr \<and> prefix h (snd ptr) \<and> suffix t (snd ptr) then (files s)(path @ snd ptr := None) else files s)"
  by (simp add: remove_entry_def compareFilter_iff fs_remove_def)

lemma fold_remove_entry:
  "files (fold (remove_entry path h t) ptrs s) f =
     (if \<exists>name. f = path @ name \<and> (True, name) \<in> set ptrs \<and> prefix h name \<and> suffix t name then None else files s f)"
  by (induction ptrs arbitrary: s) (auto simp: remove_entry_files split: if_splits)

lemma parseFilter_dir:
  assumes "dir \<noteq> []" "CHR ''/'' \<notin> set p" "length dir + length p + 1 < 64"
  shows "parseFilter (dir @ CHR ''/'' # p) = map_sum id (map_option (Pair (dir @ ''/''))) (filter_loop False 0 [] [] p)"
  using assms last_slash_dir [OF assms(2), of dir] by (simp add: parseFilter_def MAXLEN_PATH_def Let_def nat_add_distrib)


text \<open>A pattern with two stars that is short enough for the path can be too long for the array of the tail.\<close>

lemma two_stars_overflow:
  assumes "no_star t" "length t = 15" "no_star u" "u \<noteq> []"
  shows "filter_loop False 0 [] [] (CHR ''*'' # t @ CHR ''*'' # u) = Inl FilterOutOfBounds"
proof -
  have star: "no_star v \<Longrightarrow> length tt + length v < 16 \<Longrightarrow> filter_loop True (length tt) hh tt (v @ CHR ''*'' # u) = filter_loop True 0 hh (tt @ v) u"
    for hh tt v
  proof (induction v arbitrary: tt)
    case (Cons c v)
    then show ?case using Cons.IH [of "tt @ [c]"] by (auto simp: no_star_def MAXLEN_TAIL_def)
  qed simp
  from star [of t "[]" "[]"] assms(1,2) have "filter_loop False 0 [] [] (CHR ''*'' # t @ CHR ''*'' # u) = filter_loop True 0 [] t u"
    by simp
  moreover have "filter_loop True pos [] tt u = Inl FilterOutOfBounds" if "u \<noteq> []" "no_star u" "length tt = 15" "pos = 0" for pos tt u
  proof (cases u)
    case (Cons c v)
    have "filter_loop True 1 [] tt' v = Inl FilterOutOfBounds" if "length tt' = 16" for tt'
      using that \<open>no_star u\<close> Cons by (cases v) (auto simp: no_star_def MAXLEN_TAIL_def MAXLEN_HEAD_def)
    then show ?thesis using that Cons by (auto simp: no_star_def MAXLEN_TAIL_def)
  qed (use that in simp)
  ultimately show ?thesis using assms by simp
qed

subsection \<open>Properties\<close>

definition pattern_parts :: "string \<Rightarrow> string \<Rightarrow> string \<Rightarrow> bool" where
  "pattern_parts p h t \<longleftrightarrow> (p = h @ CHR ''*'' # t \<or> p = h \<and> t = []) \<and> no_star h \<and> no_star t \<and> CHR ''/'' \<notin> set h \<and> CHR ''/'' \<notin> set t"

text \<open>C21: with a pattern of a directory, a head, at most one star and a tail, exactly the regular files of the directory whose
  names begin with the head and end with the tail are removed, when the parts fit in their arrays; otherwise nothing is
  removed and the answer is an error. A name without a star therefore removes every file that begins with it.\<close>

theorem SysRemoveFiles_exact:
  assumes "pattern_parts p h t" "dir \<noteq> []"
  shows "\<exists>r s'. SysRemoveFiles opendir (dir @ CHR ''/'' # p) s = Inr (r, s') \<and>
    (if length dir + length p + 1 < 64 \<and> length h < 16 \<and> length t < 16 \<and> opendir (dir @ ''/'') \<noteq> None
     then r = 0 \<and> (\<forall>f. files s' f =
       (if \<exists>name. f = dir @ ''/'' @ name \<and> (True, name) \<in> set (the (opendir (dir @ ''/''))) \<and> prefix h name \<and> suffix t name
        then None else files s f))
     else r = 1 \<and> s' = s)"
proof (cases "length dir + length p + 1 < 64")
  case True
  have "CHR ''/'' \<notin> set p" using assms(1) by (auto simp: pattern_parts_def)
  then have "parseFilter (dir @ CHR ''/'' # p) = Inr (if length h < 16 \<and> length t < 16 then Some (dir @ ''/'', h, t) else None)"
    using assms filter_loop_one_star(1) [of h t] filter_loop_one_star(2) [of h] True
    by (auto simp: parseFilter_dir pattern_parts_def)
  then show ?thesis using True
    by (auto simp: SysRemoveFiles_def fold_remove_entry [where path = "dir @ ''/''", simplified] split: option.splits)
next
  case False
  then show ?thesis by (simp add: SysRemoveFiles_def parseFilter_def MAXLEN_PATH_def)
qed

definition some_files :: fs where
  "some_files = \<lparr>files = (\<lambda>f. if f \<in> {''/d/a.dat'', ''/d/a.dat2'', ''/d/b.c''} then Some [] else None), can_write = (\<lambda>f. True)\<rparr>"

theorem SysRemoveFiles_exact_witness:
  "\<exists>s'. SysRemoveFiles (\<lambda>d. Some [(True, ''a.dat''), (True, ''b.c''), (True, ''a.dat2'')]) ''/d/a.dat'' some_files = Inr (0, s') \<and>
     files s' ''/d/a.dat2'' = None \<and> files s' ''/d/b.c'' = Some []"
proof -
  have "pattern_parts ''a.dat'' ''a.dat'' []" by (simp add: pattern_parts_def no_star_def)
  from SysRemoveFiles_exact [OF this, where dir = "''/d''" and opendir = "\<lambda>d :: string. Some [(True, ''a.dat''), (True, ''b.c''), (True, ''a.dat2'')]" and s = some_files]
  show ?thesis by (auto simp: some_files_def)
qed

end
