(* ===== verification/Shell.thy ===== *)
theory Shell
  imports Timer Xin
begin

text \<open>
  The shells (\<open>debug/shell.c\<close>, \<open>ethshell.c\<close>, \<open>pipeshell.c\<close>, \<open>ttyshell.c\<close>, \<open>shellcmd.c\<close>, \<open>log.c\<close>) and the arguments of
  the program (\<open>startarg.c\<close>, \<open>main.c\<close>): the index of the commands, the words of a line, and the sessions that a
  logon opens and that \<open>exit\<close> closes - or a timer of \<open>Timer\<close> would, if the task of the timers served it. A command is a name with the function it calls; the table of the commands, which the linker collects,
  is an argument. Functions are told apart where they change the state of a shell; the call of another one is
  only recorded. A session is \<open>shell_session\<close>, interpreted for the two shells that need a logon.
\<close>

subsection \<open>Arguments of the program\<close>

text \<open>Each of the 52 letters has a text of at most 15 characters.\<close>

definition arg_index :: "char \<Rightarrow> nat option" where
  "arg_index c = (let n = of_char c :: nat in
     if 97 \<le> n \<and> n \<le> 122 then Some (n - 97) else if 65 \<le> n \<and> n \<le> 90 then Some (n - 65 + 26) else None)"

definition SetStartArg :: "string \<Rightarrow> string list \<Rightarrow> int \<times> string list" where
  "SetStartArg arg StartArgs =
     (if length arg + 1 > 16 then (1, StartArgs)
      else case arg of
        [] \<Rightarrow> (1, StartArgs)
      | c # _ \<Rightarrow> (case arg_index c of
          None \<Rightarrow> (1, StartArgs)
        | Some i \<Rightarrow> (0, StartArgs[i := arg])))"

text \<open>The buffer is \<open>None\<close> for a null pointer; what it holds afterwards is part of the answer.\<close>

definition GetStartArg :: "char \<Rightarrow> string option \<Rightarrow> nat \<Rightarrow> string list \<Rightarrow> int \<times> string option" where
  "GetStartArg name buf maxlen StartArgs =
     (case arg_index name of
        None \<Rightarrow> (1, buf)
      | Some i \<Rightarrow>
          if take 1 (StartArgs ! i) \<noteq> [name] then (1, buf)
          else if buf = None \<or> maxlen = 0 then (0, buf)
          else if drop 1 (StartArgs ! i) = [] then (0, Some [])
          else if length (drop 1 (StartArgs ! i)) + 1 > maxlen then (1, Some [])
          else (0, Some (drop 1 (StartArgs ! i))))"

definition ParseArgs :: "string list \<Rightarrow> string list \<Rightarrow> string list" where
  "ParseArgs argv StartArgs =
     fold (\<lambda>arg args. if take 1 arg \<noteq> ''-'' \<or> length arg < 2 then args else snd (SetStartArg (drop 1 arg) args))
       (drop 1 argv) StartArgs"

subsection \<open>The index of the commands\<close>

definition INODE_NUM :: nat where "INODE_NUM = 5"
definition INDEX_SIZE :: nat where "INDEX_SIZE = 26 * INODE_NUM + INODE_NUM"

type_synonym 'f shell_cmd = "string \<times> 'f"

text \<open>Where the search for a name starts; \<open>None\<close> for a name that does not begin with a small letter.\<close>

definition index_start :: "string \<Rightarrow> nat option" where
  "index_start name = (case name of [] \<Rightarrow> None | c # _ \<Rightarrow>
     let n = of_char c :: nat in if n < 97 \<or> 122 < n then None else Some ((n - 97) * INODE_NUM))"

text \<open>The answer is the index with the commands that found no place.\<close>

definition index_cmd :: "'f shell_cmd \<Rightarrow> 'f shell_cmd option list \<times> 'f shell_cmd list \<Rightarrow> 'f shell_cmd option list \<times> 'f shell_cmd list" where
  "index_cmd plist st =
     (case index_start (fst plist) of
        None \<Rightarrow> st
      | Some i \<Rightarrow>
          (case find (\<lambda>i. fst st ! i = None) [i..<INDEX_SIZE] of
             None \<Rightarrow> (fst st, snd st @ [plist])
           | Some i \<Rightarrow> ((fst st)[i := Some plist], snd st)))"

definition ShellCmdInit :: "'f shell_cmd list \<Rightarrow> 'f shell_cmd option list \<times> 'f shell_cmd list" where
  "ShellCmdInit cmds = fold index_cmd cmds (replicate INDEX_SIZE None, [])"

definition FindShellFunc :: "'f shell_cmd option list \<Rightarrow> string \<Rightarrow> 'f option" where
  "FindShellFunc cmd_index command =
     (case index_start command of
        None \<Rightarrow> None
      | Some i \<Rightarrow>
          (case find (\<lambda>i. case cmd_index ! i of None \<Rightarrow> True | Some c \<Rightarrow> fst c = command) [i..<INDEX_SIZE] of
             None \<Rightarrow> None
           | Some i \<Rightarrow> map_option snd (cmd_index ! i)))"

subsection \<open>The words of a line\<close>

text \<open>The words that are complete and the one that is read, whose terminator is written behind it in an array
  of 128 bytes.\<close>

fun parse_arg :: "nat \<Rightarrow> string list \<Rightarrow> string \<Rightarrow> string \<Rightarrow> string list" where
  "parse_arg argmax argv p [] = (if p \<noteq> [] then argv @ [p] else argv)"
| "parse_arg argmax argv p (c # line) =
     (if c = CHR '' '' then
        if p \<noteq> [] then
          let argv = argv @ [p] in if length argv \<ge> argmax then argv else parse_arg argmax argv [] line
        else parse_arg argmax argv p line
      else if c = CHR 0x0D \<or> c = CHR 0x0A then (if p \<noteq> [] then argv @ [p] else argv)
      else
        let p = p @ [c] in if length p \<ge> 128 then parse_arg argmax argv [] line else parse_arg argmax argv p line)"

definition ShellParseArg :: "string \<Rightarrow> nat \<Rightarrow> string list" where
  "ShellParseArg line argmax = parse_arg argmax [] [] line"

definition SHELLARG_NUM :: nat where "SHELLARG_NUM = 12"

subsection \<open>Sessions\<close>

datatype shell_func = shell_exit | shell_debug | shell_other nat

text \<open>The two shells with a logon differ in its text, the interface of the log, the seconds a session lasts, the
  callback of the timer, and what is printed.\<close>

record shell_conf =
  LogonString :: string
  sc_itf :: int
  sc_period :: int
  sc_period2 :: int
  sc_timer :: u32
  sc_hello :: string
  sc_after :: string

record 'a shell_state =
  LogType :: int
  LogInterface :: int
  LogonOk :: bool
  TimerIdShell :: int
  AddrShell :: "'a option"
  sh_timers :: ctimers
  sh_calls :: "(shell_func \<times> string list) list"
  sh_prints :: "('a option \<times> string) list"

definition SetLogType :: "int \<Rightarrow> 'a shell_state \<Rightarrow> 'a shell_state" where "SetLogType typ s = s\<lparr>LogType := typ\<rparr>"
definition SetLogInterface :: "int \<Rightarrow> 'a shell_state \<Rightarrow> 'a shell_state" where "SetLogInterface itf s = s\<lparr>LogInterface := itf\<rparr>"

text \<open>What is printed on the interface of the shell goes to the address that was heard last.\<close>

definition shell_print :: "shell_conf \<Rightarrow> string \<Rightarrow> 'a shell_state \<Rightarrow> 'a shell_state" where
  "shell_print cf text s = (if LogInterface s = sc_itf cf then s\<lparr>sh_prints := sh_prints s @ [(AddrShell s, text)]\<rparr> else s)"

definition CTimerShell :: "'a shell_state \<Rightarrow> int \<times> 'a shell_state" where
  "CTimerShell s = (1, SetLogInterface 0 (SetLogType 0 (s\<lparr>TimerIdShell := -1\<rparr>))\<lparr>LogonOk := False\<rparr>)"

definition ShellQuit :: "'a shell_state \<Rightarrow> 'a shell_state" where
  "ShellQuit s =
     (let s = (if TimerIdShell s \<ge> 0 then s\<lparr>sh_timers := SysStopCTimer (TimerIdShell s) (sh_timers s), TimerIdShell := -1\<rparr> else s)
      in s\<lparr>LogonOk := False\<rparr>)"

definition keep_session :: "shell_conf \<Rightarrow> int \<Rightarrow> 'a shell_state \<Rightarrow> 'a shell_state" where
  "keep_session cf period s =
     (if TimerIdShell s < 0 then
        let (cid, ts) = SysAddCTimer period (sc_timer cf) 0 (sh_timers s) in s\<lparr>TimerIdShell := cid, sh_timers := ts\<rparr>
      else s\<lparr>sh_timers := SysClearCTimer (TimerIdShell s) (sh_timers s)\<rparr>)"

text \<open>The functions of the table that change the state of the shell.\<close>

definition exec_func :: "shell_conf \<Rightarrow> shell_func \<Rightarrow> string list \<Rightarrow> 'a shell_state \<Rightarrow> 'a shell_state" where
  "exec_func cf pfunc argv s =
     (let s = s\<lparr>sh_calls := sh_calls s @ [(pfunc, argv)]\<rparr> in
      case pfunc of
        shell_exit \<Rightarrow>
          let s = (if LogInterface s = sc_itf cf then ShellQuit s else s) in s\<lparr>LogInterface := 0, LogType := 0\<rparr>
      | shell_debug \<Rightarrow>
          if length argv \<noteq> 2 then s
          else
            let typ = c_atoi (argv ! 1); s = SetLogType typ s in
            if typ \<noteq> 0 then shell_print cf (''open debug '' @ dec_int typ @ '' ok'' @ [CHR 0x0A]) s
            else SetLogInterface 0 (shell_print cf (''close debug ok'' @ [CHR 0x0A]) s)
      | shell_other n \<Rightarrow> s)"

definition shell_round :: "shell_conf \<Rightarrow> shell_func shell_cmd option list \<Rightarrow> string \<Rightarrow> 'a shell_state \<Rightarrow> 'a shell_state" where
  "shell_round cf cmd_index command s =
     (if \<not> LogonOk s then
        if command = LogonString cf then
          shell_print cf (sc_hello cf) (keep_session cf (sc_period cf) (SetLogInterface (sc_itf cf) (s\<lparr>LogonOk := True\<rparr>)))
        else s
      else
        case ShellParseArg command SHELLARG_NUM of
          [] \<Rightarrow> s
        | name # args \<Rightarrow>
            (case FindShellFunc cmd_index name of
               None \<Rightarrow> s
             | Some pfunc \<Rightarrow>
                 let s = keep_session cf (sc_period2 cf) (SetLogInterface (sc_itf cf) s);
                     s = exec_func cf pfunc (name # args) s
                 in if sc_after cf \<noteq> [] then shell_print cf (sc_after cf) s else s))"

definition eth_conf :: "u32 \<Rightarrow> shell_conf" where
  "eth_conf CTimerEthShell = \<lparr>LogonString = ''logon 7865ae31'', sc_itf = 1, sc_period = 60 * 30, sc_period2 = 60,
     sc_timer = CTimerEthShell, sc_hello = ''logon OK'' @ [CHR 0x0A], sc_after = [CHR 0x0A]\<rparr>"

definition pipe_conf :: "u32 \<Rightarrow> shell_conf" where
  "pipe_conf CTimerPipeShell = \<lparr>LogonString = ''logon 7865ae31'' @ [CHR 0x0A], sc_itf = 2, sc_period = 3600, sc_period2 = 3600,
     sc_timer = CTimerPipeShell, sc_hello = ''Logon OK'' @ [CHR 0x0A], sc_after = []\<rparr>"

text \<open>A datagram is cut to the 255 bytes the array takes, and its sender is kept even when it is empty.\<close>

definition EthShellTask_round :: "u32 \<Rightarrow> shell_func shell_cmd option list \<Rightarrow> 'a \<Rightarrow> string \<Rightarrow> 'a shell_state \<Rightarrow> 'a shell_state" where
  "EthShellTask_round proc cmd_index addr data s =
     (let s = s\<lparr>AddrShell := Some addr\<rparr>; data = take 255 data in
      if data = [] then s else shell_round (eth_conf proc) cmd_index (cstr data) s)"

definition PipeShellTask_round :: "u32 \<Rightarrow> shell_func shell_cmd option list \<Rightarrow> string \<Rightarrow> 'a shell_state \<Rightarrow> 'a shell_state" where
  "PipeShellTask_round proc cmd_index data s =
     (let data = take 255 data in if data = [] then s else shell_round (pipe_conf proc) cmd_index (cstr data) s)"

text \<open>The shell of the terminal needs no logon.\<close>

definition TtyShellTask_round :: "shell_conf \<Rightarrow> shell_func shell_cmd option list \<Rightarrow> string \<Rightarrow> 'a shell_state \<Rightarrow> 'a shell_state" where
  "TtyShellTask_round cf cmd_index line s =
     (case ShellParseArg line SHELLARG_NUM of
        [] \<Rightarrow> s
      | name # args \<Rightarrow>
          (case FindShellFunc cmd_index name of
             None \<Rightarrow> s
           | Some pfunc \<Rightarrow> exec_func cf pfunc (name # args) (SetLogInterface 0 s)))"

text \<open>A second of the task of the timers: the callback of the shell answers 1, the other ones what they answer.\<close>

definition shell_second :: "shell_conf \<Rightarrow> (u32 \<Rightarrow> u32 \<Rightarrow> int) \<Rightarrow> 'a shell_state \<Rightarrow> 'a shell_state option" where
  "shell_second cf run s =
     (case CTimerProc (\<lambda>p a. if p = sc_timer cf then fst (CTimerShell s) else run p a) (sh_timers s) of
        None \<Rightarrow> None
      | Some ts \<Rightarrow>
          let s' = s\<lparr>sh_timers := ts\<rparr> in
          if sc_timer cf \<in> fst ` set (drop (length (CTimerCalls (sh_timers s))) (CTimerCalls ts))
          then Some (snd (CTimerShell s')) else Some s')"

text \<open>The shell beside the task of the timers: one round of the task's loop (\<open>SysTimerTask_round\<close>) on the timers of the shell.\<close>

definition timer_round :: "shell_conf \<Rightarrow> (u32 \<Rightarrow> u32 \<Rightarrow> int) \<Rightarrow> tm \<Rightarrow> tm \<Rightarrow> 'a shell_state \<times> timer_task \<Rightarrow> ('a shell_state \<times> timer_task) option" where
  "timer_round cf run tm1 tm2 st =
     (case st of (s, t) \<Rightarrow>
       case SysTimerTask_round (\<lambda>p a. if p = sc_timer cf then fst (CTimerShell s) else run p a) tm1 tm2 (t\<lparr>ctimers := sh_timers s\<rparr>) of
         None \<Rightarrow> None
       | Some t' \<Rightarrow>
           let s' = s\<lparr>sh_timers := ctimers t'\<rparr> in
           Some (if sc_timer cf \<in> fst ` set (drop (length (CTimerCalls (sh_timers s))) (CTimerCalls (ctimers t'))) then snd (CTimerShell s') else s', t'))"

text \<open>The device with its shell: datagrams from any address, and rounds of the task with the answers of \<open>localtime\<close>.\<close>

datatype 'a device_event = Datagram 'a string | TimerRound tm tm

fun device_run :: "u32 \<Rightarrow> shell_func shell_cmd option list \<Rightarrow> (u32 \<Rightarrow> u32 \<Rightarrow> int) \<Rightarrow> 'a device_event list \<Rightarrow> 'a shell_state \<times> timer_task \<Rightarrow>
    ('a shell_state \<times> timer_task) option" where
  "device_run proc idx run [] st = Some st"
| "device_run proc idx run (Datagram addr data # es) st =
     device_run proc idx run es (EthShellTask_round proc idx addr data (fst st), snd st)"
| "device_run proc idx run (TimerRound tm1 tm2 # es) st =
     (case timer_round (eth_conf proc) run tm1 tm2 st of None \<Rightarrow> None | Some st \<Rightarrow> device_run proc idx run es st)"

subsection \<open>Setting the time\<close>

text \<open>The six numbers are checked one by one; the day of the week is what the stack held, and the
  external clock is written after the clock of the system. Times further apart than 300
  seconds start the timers of the clock again.\<close>

definition settime_clock :: "u8 \<Rightarrow> string list \<Rightarrow> sysclock_t option" where
  "settime_clock week argv =
     (let n = (\<lambda>i. c_atoi (argv ! i)) in
      if length argv \<noteq> 7 then None
      else if n 1 < 0 \<or> n 1 > 99 then None
      else if n 2 < 1 \<or> n 2 > 12 then None
      else if n 3 < 1 \<or> n 3 > 31 then None
      else if n 4 < 0 \<or> n 4 > 23 then None
      else if n 5 < 0 \<or> n 5 > 59 then None
      else if n 6 < 0 \<or> n 6 > 59 then None
      else Some \<lparr>c_year = word_of_int (n 1), c_month = word_of_int (n 2), c_day = word_of_int (n 3),
        c_hour = word_of_int (n 4), c_minute = word_of_int (n 5), c_second = word_of_int (n 6), c_week = week\<rparr>)"

definition shell_settime :: "u8 \<Rightarrow> string list \<Rightarrow> clock_state \<Rightarrow> rtimers \<Rightarrow> (int \<times> clock_state \<times> rtimers) option" where
  "shell_settime week argv cs rt =
     (case settime_clock week argv of
        None \<Rightarrow> Some (1, cs, rt)
      | Some clock \<Rightarrow>
          let utimecur = UTimeReadCurrent cs; utime = SysClockToUTime clock;
              cs = snd (SysClockSet clock cs);
              i = (if utimecur > utime then s32 (utimecur - utime) else s32 (utime - utimecur))
          in if i > 300 then map_option (\<lambda>rt. (0, cs, rt)) (SysRecalAllRTimer (UTimeReadCurrent cs) rt) else Some (0, cs, rt))"

subsection \<open>The index\<close>

lemma length_index_cmd: "length (fst (index_cmd c st)) = length (fst st)"
  by (auto simp: index_cmd_def split: option.splits)

text \<open>Every command of the index can be reached: no slot between its start and its place is free.\<close>

definition reachable_slots :: "'f shell_cmd option list \<Rightarrow> bool" where
  "reachable_slots idx \<longleftrightarrow> length idx = INDEX_SIZE \<and>
     (\<forall>j < INDEX_SIZE. \<forall>c. idx ! j = Some c \<longrightarrow> (\<exists>i. index_start (fst c) = Some i \<and> i \<le> j \<and> (\<forall>k. i \<le> k \<and> k \<le> j \<longrightarrow> idx ! k \<noteq> None)))"

lemma find_upt_Some:
  "find P [i..<n] = Some p \<longleftrightarrow> i \<le> p \<and> p < n \<and> P p \<and> (\<forall>k. i \<le> k \<and> k < p \<longrightarrow> \<not> P k)"
proof (induction n)
  case (Suc n)
  have app: "find P (xs @ ys) = (case find P xs of None \<Rightarrow> find P ys | Some x \<Rightarrow> Some x)" for xs ys
    by (induction xs) auto
  show ?case
  proof (cases "i \<le> n")
    case True
    then show ?thesis using Suc find_None_iff [of P "[i..<n]"]
      by (auto simp: app less_Suc_eq split: option.splits)
  qed auto
qed simp

lemma find_upt_None: "find P [i..<n] = None \<longleftrightarrow> (\<forall>k. i \<le> k \<and> k < n \<longrightarrow> \<not> P k)"
  by (auto simp: find_None_iff)

lemma reachable_slots_step:
  assumes "reachable_slots idx" "index_cmd c (idx, lost) = (idx', lost')"
  shows "reachable_slots idx'"
proof (cases "index_start (fst c)")
  case None
  then show ?thesis using assms by (simp add: index_cmd_def)
next
  case (Some i)
  show ?thesis
  proof (cases "find (\<lambda>i. idx ! i = None) [i..<INDEX_SIZE]")
    case None
    then show ?thesis using assms Some by (simp add: index_cmd_def)
  next
    case free: (Some p)
    then have p: "i \<le> p" "p < INDEX_SIZE" "\<forall>k. i \<le> k \<and> k < p \<longrightarrow> idx ! k \<noteq> None" by (auto simp: find_upt_Some)
    have idx': "idx' = idx[p := Some c]" using assms(2) Some free by (simp add: index_cmd_def)
    show ?thesis unfolding reachable_slots_def idx'
    proof (intro conjI allI impI)
      fix j d assume j: "j < INDEX_SIZE" "idx[p := Some c] ! j = Some d"
      show "\<exists>i. index_start (fst d) = Some i \<and> i \<le> j \<and> (\<forall>k. i \<le> k \<and> k \<le> j \<longrightarrow> idx[p := Some c] ! k \<noteq> None)"
      proof (cases "j = p")
        case True
        then have "d = c" using j p assms(1) by (auto simp: reachable_slots_def)
        then show ?thesis using Some p True assms(1) by (auto simp: nth_list_update le_less reachable_slots_def)
      next
        case False
        then have "idx ! j = Some d" using j by simp
        then obtain i' where "index_start (fst d) = Some i'" "i' \<le> j" "\<forall>k. i' \<le> k \<and> k \<le> j \<longrightarrow> idx ! k \<noteq> None"
          using assms(1) j(1) unfolding reachable_slots_def by blast
        moreover have "length idx = INDEX_SIZE" using assms(1) by (simp add: reachable_slots_def)
        ultimately show ?thesis using p(2) by (intro exI [of _ i']) (simp add: nth_list_update)
      qed
    qed (use assms(1) in \<open>simp add: reachable_slots_def\<close>)
  qed
qed

text \<open>Looking a name up after a command was put into the index.\<close>

lemma FindShellFunc_step:
  assumes r: "reachable_slots idx" and s: "index_cmd c (idx, lost) = (idx', lost)" and n: "index_start name \<noteq> None"
  shows "FindShellFunc idx' name =
    (case FindShellFunc idx name of Some f \<Rightarrow> Some f | None \<Rightarrow> if fst c = name then Some (snd c) else None)"
proof -
  obtain s where s0: "index_start name = Some s" using n by auto
  let ?P = "\<lambda>idx i. case idx ! i of None \<Rightarrow> True | Some c \<Rightarrow> fst c = name"
  have len: "length idx = INDEX_SIZE" using r by (simp add: reachable_slots_def)
  have "idx' = idx \<and> index_start (fst c) = None \<or>
      (\<exists>i p. index_start (fst c) = Some i \<and> idx' = idx[p := Some c] \<and> i \<le> p \<and> p < INDEX_SIZE \<and> idx ! p = None \<and> (\<forall>k. i \<le> k \<and> k < p \<longrightarrow> idx ! k \<noteq> None))"
    using s by (auto simp: index_cmd_def find_upt_Some split: option.splits)
  then consider (inv) "idx' = idx" "index_start (fst c) = None"
    | (put) i p where "index_start (fst c) = Some i" "idx' = idx[p := Some c]" "i \<le> p" "p < INDEX_SIZE" "idx ! p = None"
        "\<forall>k. i \<le> k \<and> k < p \<longrightarrow> idx ! k \<noteq> None"
    by (elim disjE exE conjE) (simp_all only:)
  then show ?thesis
  proof cases
    case inv
    then show ?thesis using n by (auto split: option.splits)
  next
    case put
    have other: "idx' ! k = idx ! k" if "k \<noteq> p" for k using that put(2) by simp
    have at_p: "idx' ! p = Some c" using put(2,4) len by simp
    show ?thesis
    proof (cases "find (?P idx) [s..<INDEX_SIZE]")
      case None
      then have full: "\<forall>k. s \<le> k \<and> k < INDEX_SIZE \<longrightarrow> idx ! k \<noteq> None \<and> (\<forall>d. idx ! k = Some d \<longrightarrow> fst d \<noteq> name)"
        by (fastforce simp: find_upt_None split: option.splits)
      then have "p < s" using put(4,5) by (meson not_le)
      then have "find (?P idx') [s..<INDEX_SIZE] = None" using None other by (simp add: find_upt_None)
      moreover have "fst c \<noteq> name" using \<open>p < s\<close> put(1,3) s0 by auto
      ultimately show ?thesis using None s0 by (simp add: FindShellFunc_def)
    next
      case (Some q)
      then have q: "s \<le> q" "q < INDEX_SIZE" "?P idx q" "\<forall>k. s \<le> k \<and> k < q \<longrightarrow> \<not> ?P idx k" by (auto simp: find_upt_Some)
      have before: "idx ! k \<noteq> None" if "s \<le> k" "k < q" for k using q(4) that by (auto split: option.splits)
      show ?thesis
      proof (cases "p = q")
        case False
        have "p < s \<or> q < p" using before [of p] put(5) False by (meson linorder_neqE_nat not_le)
        then have "find (?P idx') [s..<INDEX_SIZE] = Some q" using q other by (auto simp: find_upt_Some)
        moreover have "fst c = name \<Longrightarrow> idx ! q \<noteq> None"
          using put(1,3,6) s0 \<open>p < s \<or> q < p\<close> q(1) by (auto simp: not_less)
        ultimately have "FindShellFunc idx' name = FindShellFunc idx name" "fst c = name \<Longrightarrow> FindShellFunc idx name \<noteq> None"
          using Some s0 other [of q] False by (simp_all add: FindShellFunc_def)
        then show ?thesis by (cases "FindShellFunc idx name") auto
      next
        case True
        have old: "FindShellFunc idx name = None" using Some s0 put(5) True by (simp add: FindShellFunc_def)
        show ?thesis
        proof (cases "fst c = name")
          case True
          have "find (?P idx') [s..<INDEX_SIZE] = Some q" using q other at_p \<open>p = q\<close> True by (auto simp: find_upt_Some)
          then show ?thesis using s0 at_p \<open>p = q\<close> True old by (simp add: FindShellFunc_def)
        next
          case False
          have gone: "idx ! k = Some d \<Longrightarrow> s \<le> k \<Longrightarrow> q < k \<Longrightarrow> k < INDEX_SIZE \<Longrightarrow> fst d \<noteq> name" for k d
          proof
            assume d: "idx ! k = Some d" "s \<le> k" "q < k" "k < INDEX_SIZE" "fst d = name"
            then have "\<forall>j. s \<le> j \<and> j \<le> k \<longrightarrow> idx ! j \<noteq> None"
              using r s0 unfolding reachable_slots_def by fastforce
            then show False using q(1) d(3) put(5) True by auto
          qed
          have "map_option snd (idx' ! t) = None" if "find (?P idx') [s..<INDEX_SIZE] = Some t" for t
          proof -
            have t: "s \<le> t" "t < INDEX_SIZE" "?P idx' t" "\<forall>k. s \<le> k \<and> k < t \<longrightarrow> \<not> ?P idx' k" using that by (auto simp: find_upt_Some)
            have "\<not> t < q" using t q(4) other True by auto
            moreover have "t \<noteq> q" using t(3) at_p True False by auto
            ultimately have "q < t" "idx' ! t = idx ! t" using other True by auto
            then show ?thesis using t gone [of t] by (cases "idx ! t") auto
          qed
          then have "FindShellFunc idx' name = None"
            by (cases "find (?P idx') [s..<INDEX_SIZE]") (simp_all add: FindShellFunc_def s0)
          then show ?thesis using old False by simp
        qed
      qed
    qed
  qed
qed

lemma index_cmd_lost: "\<exists>ys. snd (index_cmd c st) = snd st @ ys"
  by (auto simp: index_cmd_def split: option.splits)

lemma fold_index_cmd_lost: "\<exists>ys. snd (fold index_cmd cs st) = snd st @ ys"
proof (induction cs arbitrary: st)
  case (Cons c cs)
  obtain xs where "snd (index_cmd c st) = snd st @ xs" using index_cmd_lost by blast
  moreover obtain ys where "snd (fold index_cmd cs (index_cmd c st)) = snd (index_cmd c st) @ ys" using Cons by blast
  ultimately show ?case by simp
qed simp

lemma fold_index_cmd:
  assumes "reachable_slots idx" "fold index_cmd cmds (idx, []) = (idx', [])" "index_start name \<noteq> None"
  shows "FindShellFunc idx' name = (case FindShellFunc idx name of Some f \<Rightarrow> Some f | None \<Rightarrow> map_of cmds name)"
  using assms(1,2)
proof (induction cmds arbitrary: idx)
  case (Cons c cmds)
  obtain idx1 lost1 where c: "index_cmd c (idx, []) = (idx1, lost1)" by fastforce
  then have "lost1 = []" using Cons.prems(2) fold_index_cmd_lost [of cmds "(idx1, lost1)"] by auto
  then have c: "index_cmd c (idx, []) = (idx1, [])" using c by simp
  then show ?case
    using Cons.IH [OF reachable_slots_step [OF Cons.prems(1) c]] Cons.prems(2) FindShellFunc_step [OF Cons.prems(1) c assms(3)]
    by (cases c) (auto split: option.splits)
qed (auto split: option.splits)

lemma FindShellFunc_empty: "FindShellFunc (replicate INDEX_SIZE None) name = None"
  by (auto simp: FindShellFunc_def find_upt_Some split: option.splits)

lemma FindShellFunc_all:
  assumes "ShellCmdInit cmds = (idx, [])"
  shows "FindShellFunc idx name = (if index_start name = None then None else map_of cmds name)"
proof (cases "index_start name")
  case None
  then show ?thesis by (simp add: FindShellFunc_def)
next
  case (Some s)
  have "reachable_slots (replicate INDEX_SIZE (None :: 'a shell_cmd option))" by (simp add: reachable_slots_def)
  from fold_index_cmd [OF this, of cmds idx name] assms Some show ?thesis
    by (simp add: ShellCmdInit_def FindShellFunc_empty)
qed

lemma occupied_step:
  "length idx = INDEX_SIZE \<Longrightarrow> index_cmd c (idx, lost) = (idx', lost') \<Longrightarrow>
   card {j. j < INDEX_SIZE \<and> idx' ! j \<noteq> None} \<le> Suc (card {j. j < INDEX_SIZE \<and> idx ! j \<noteq> None})"
proof -
  assume l: "length idx = INDEX_SIZE" and s: "index_cmd c (idx, lost) = (idx', lost')"
  have "idx' = idx \<or> (\<exists>p. idx' = idx[p := Some c])" using s by (auto simp: index_cmd_def split: option.splits)
  then have "\<exists>p. {j. j < INDEX_SIZE \<and> idx' ! j \<noteq> None} \<subseteq> insert p {j. j < INDEX_SIZE \<and> idx ! j \<noteq> None}"
  proof
    assume "\<exists>p. idx' = idx[p := Some c]"
    then obtain p where "idx' = idx[p := Some c]" ..
    then show ?thesis using l by (intro exI [of _ p]) (auto simp: nth_list_update)
  qed auto
  then obtain p where "{j. j < INDEX_SIZE \<and> idx' ! j \<noteq> None} \<subseteq> insert p {j. j < INDEX_SIZE \<and> idx ! j \<noteq> None}" ..
  from card_mono [OF _ this] show ?thesis by (simp add: card_insert_if split: if_splits)
qed

text \<open>No command is lost while more slots follow its start than there are commands.\<close>

lemma none_lost:
  assumes "length idx = INDEX_SIZE" "card {j. j < INDEX_SIZE \<and> idx ! j \<noteq> None} + length cmds \<le> n"
    "\<forall>c \<in> set cmds. \<forall>i. index_start (fst c) = Some i \<longrightarrow> i + n \<le> INDEX_SIZE"
  shows "snd (fold index_cmd cmds (idx, [])) = []"
  using assms
proof (induction cmds arbitrary: idx)
  case (Cons c cmds)
  obtain idx1 lost1 where c: "index_cmd c (idx, []) = (idx1, lost1)" by fastforce
  have "find (\<lambda>i. idx ! i = None) [i..<INDEX_SIZE] \<noteq> None" if i: "index_start (fst c) = Some i" for i
  proof
    assume "find (\<lambda>i. idx ! i = None) [i..<INDEX_SIZE] = None"
    then have "{i..<INDEX_SIZE} \<subseteq> {j. j < INDEX_SIZE \<and> idx ! j \<noteq> None}" by (auto simp: find_upt_None)
    from card_mono [OF _ this] have "INDEX_SIZE - i \<le> card {j. j < INDEX_SIZE \<and> idx ! j \<noteq> None}" by simp
    moreover have "i + n \<le> INDEX_SIZE" using Cons.prems(3) i by simp
    ultimately show False using Cons.prems(2) by simp
  qed
  then have l: "lost1 = []" using c by (auto simp: index_cmd_def split: option.splits)
  have "length idx1 = INDEX_SIZE" using length_index_cmd [of c "(idx, [])"] c Cons.prems(1) by simp
  moreover have "card {j. j < INDEX_SIZE \<and> idx1 ! j \<noteq> None} + length cmds \<le> n"
    using occupied_step [OF Cons.prems(1) c] Cons.prems(2) by simp
  ultimately show ?case using Cons.IH [of idx1] Cons.prems(3) c l by simp
qed simp

subsection \<open>Words\<close>

definition word_char :: "char \<Rightarrow> bool" where "word_char c \<longleftrightarrow> c \<noteq> CHR '' '' \<and> c \<noteq> CHR 0x0D \<and> c \<noteq> CHR 0x0A"

definition shell_word :: "string \<Rightarrow> bool" where "shell_word w \<longleftrightarrow> w \<noteq> [] \<and> length w < 128 \<and> list_all word_char w"

lemma parse_arg_bounds:
  "length argv < argmax \<Longrightarrow> list_all shell_word argv \<Longrightarrow> length p < 128 \<Longrightarrow> list_all word_char p \<Longrightarrow>
   length (parse_arg argmax argv p line) \<le> argmax \<and> list_all shell_word (parse_arg argmax argv p line)"
  by (induction argmax argv p line rule: parse_arg.induct) (auto simp: shell_word_def word_char_def Let_def)

lemma parse_arg_word:
  "list_all word_char w \<Longrightarrow> length p + length w < 128 \<Longrightarrow> parse_arg argmax argv p (w @ line) = parse_arg argmax argv (p @ w) line"
  by (induction w arbitrary: p) (auto simp: word_char_def Let_def)

lemma parse_words:
  "list_all shell_word ws \<Longrightarrow> length argv + length ws \<le> argmax \<Longrightarrow>
   parse_arg argmax argv [] (concat (map (\<lambda>w. w @ '' '') ws)) = argv @ ws"
proof (induction ws arbitrary: argv)
  case (Cons w ws)
  have "parse_arg argmax argv [] (w @ '' '' @ concat (map (\<lambda>w. w @ '' '') ws)) =
      parse_arg argmax argv w ('' '' @ concat (map (\<lambda>w. w @ '' '') ws))"
    using Cons.prems parse_arg_word [of w "[]"] by (simp add: shell_word_def)
  then show ?case using Cons by (cases ws) (auto simp: shell_word_def Let_def)
qed simp

text \<open>Of a word that does not fit, the first 128 characters are forgotten.\<close>

lemma parse_long_word:
  assumes "length w = 128" "list_all word_char w"
  shows "ShellParseArg (w @ line) argmax = ShellParseArg line argmax"
proof -
  obtain v c where w: "w = v @ [c]" "length v = 127" using assms(1) by (cases w rule: rev_cases) auto
  have "parse_arg argmax [] [] (v @ c # line) = parse_arg argmax [] v (c # line)"
    using parse_arg_word [of v "[]" argmax "[]" "c # line"] assms(2) w by simp
  then show ?thesis using assms(2) w by (simp add: ShellParseArg_def word_char_def)
qed

subsection \<open>Sessions\<close>

text \<open>A session as the seconds since its last line, and what a line and a second do to it.\<close>

fun session_line :: "shell_conf \<Rightarrow> shell_func shell_cmd option list \<Rightarrow> string \<Rightarrow> nat option \<Rightarrow> nat option \<times> (shell_func \<times> string list) list" where
  "session_line cf idx text None = (if text = LogonString cf then Some 0 else None, [])"
| "session_line cf idx text (Some n) =
     (case ShellParseArg text SHELLARG_NUM of [] \<Rightarrow> (Some n, [])
      | name # args \<Rightarrow> (case FindShellFunc idx name of None \<Rightarrow> (Some n, [])
        | Some f \<Rightarrow> (if f = shell_exit then None else Some 0, [(f, name # args)])))"

fun session_second :: "shell_conf \<Rightarrow> nat option \<Rightarrow> nat option" where
  "session_second cf None = None"
| "session_second cf (Some n) = (if Suc n \<ge> nat (sc_period cf) then None else Some (Suc n))"

definition session_ok :: "shell_conf \<Rightarrow> nat option \<Rightarrow> bool \<Rightarrow> int \<Rightarrow> ctimers \<Rightarrow> bool" where
  "session_ok cf k logon cid ts \<longleftrightarrow> (\<exists>xs. ct_ok ts xs \<and>
     (case k of
        None \<Rightarrow> \<not> logon \<and> cid = -1 \<and> length xs < MAX_CTIMER \<and> (\<forall>j \<in> set xs. ct_proc (CTimerBuffer ts ! j) \<noteq> sc_timer cf)
      | Some n \<Rightarrow> logon \<and> n < nat (sc_period cf) \<and>
          (\<exists>i \<in> set xs. drop_bit 16 cid = int i \<and> ct_id (CTimerBuffer ts ! i) = cid \<and> ct_proc (CTimerBuffer ts ! i) = sc_timer cf \<and>
            ct_dev (CTimerBuffer ts ! i) = word_of_int (sc_period cf) \<and> ct_cnt (CTimerBuffer ts ! i) = of_nat n \<and>
            (\<forall>j \<in> set xs. j \<noteq> i \<longrightarrow> ct_proc (CTimerBuffer ts ! j) \<noteq> sc_timer cf))))"

definition in_session :: "shell_conf \<Rightarrow> nat option \<Rightarrow> 'a shell_state \<Rightarrow> bool" where
  "in_session cf k s \<longleftrightarrow> session_ok cf k (LogonOk s) (TimerIdShell s) (sh_timers s)"

lemma in_session_log [simp]:
  "in_session cf k (s\<lparr>AddrShell := a\<rparr>) = in_session cf k s" "in_session cf k (s\<lparr>sh_prints := ps\<rparr>) = in_session cf k s"
  "in_session cf k (s\<lparr>LogInterface := itf\<rparr>) = in_session cf k s" "in_session cf k (s\<lparr>LogType := typ\<rparr>) = in_session cf k s"
  "in_session cf k (s\<lparr>sh_calls := cs\<rparr>) = in_session cf k s"
  "in_session cf k (shell_print cf' text s) = in_session cf k s"
  by (simp_all add: in_session_def shell_print_def)

lemma print_fields [simp]:
  "sh_calls (shell_print cf text s) = sh_calls s" "LogInterface (shell_print cf text s) = LogInterface s"
  "sh_timers (shell_print cf text s) = sh_timers s" "LogonOk (shell_print cf text s) = LogonOk s" "TimerIdShell (shell_print cf text s) = TimerIdShell s"
  by (simp_all add: shell_print_def)

lemma SysAddCTimer_entry:
  assumes ok: "ct_ok ts xs" and dev: "0 < dev" "dev \<le> 2147483647" and room: "length xs < MAX_CTIMER"
  shows "\<exists>i cid ts'. SysAddCTimer dev proc arg ts = (cid, ts') \<and> i \<notin> set xs \<and> ct_ok ts' (xs @ [i]) \<and> drop_bit 16 cid = int i \<and>
    ct_id (CTimerBuffer ts' ! i) = cid \<and> ct_proc (CTimerBuffer ts' ! i) = proc \<and>
    ct_dev (CTimerBuffer ts' ! i) = word_of_int dev \<and> ct_cnt (CTimerBuffer ts' ! i) = 0 \<and> (\<forall>j. j \<noteq> i \<longrightarrow> CTimerBuffer ts' ! j = CTimerBuffer ts ! j)"
proof -
  obtain i ts' where a: "SysAddCTimer dev proc arg ts = ((CTimerIdAddup ts AND 0xffff) OR push_bit 16 (int i), ts')"
    "i \<notin> set xs" "ct_ok ts' (xs @ [i])" "ct_id (CTimerBuffer ts' ! i) = fst (SysAddCTimer dev proc arg ts)"
    "ct_dev (CTimerBuffer ts' ! i) = word_of_int dev" "ct_cnt (CTimerBuffer ts' ! i) = 0" "\<forall>j. j \<noteq> i \<longrightarrow> CTimerBuffer ts' ! j = CTimerBuffer ts ! j"
    using SysAddCTimer_ok [OF ok dev, of proc arg] room by auto
  obtain i' where i': "find_empty ct_flag (CTimerBuffer ts) 0 = Some i'"
      "i' < length (CTimerBuffer ts)" "ct_flag (CTimerBuffer ts ! i') = TMAN_EMPTY"
  proof (cases "find_empty ct_flag (CTimerBuffer ts) 0")
    case None
    then have "(CTimerIdAddup ts AND 0xffff) OR push_bit 16 (int i) = - 1" using a(1) by (simp add: SysAddCTimer_def split: if_splits)
    then show ?thesis using timer_id_slot [of "CTimerIdAddup ts" i] by simp
  next
    case (Some j)
    then show ?thesis using find_empty_Some [OF Some] that by simp
  qed
  have new: "ct_flag (CTimerBuffer ts' ! i') = TMAN_VALID" "ct_proc (CTimerBuffer ts' ! i') = proc"
    using a(1) i' dev by (auto simp: SysAddCTimer_def Let_def)
  have "i = i'" using a(7) i'(3) new(1) by (metis TMAN_VALID_nonempty)
  then show ?thesis using a new(2) timer_id_slot [of "CTimerIdAddup ts" i] by auto
qed

lemma session_SomeI:
  "ct_ok ts xs \<Longrightarrow> i \<in> set xs \<Longrightarrow> n < nat (sc_period cf) \<Longrightarrow> drop_bit 16 cid = int i \<Longrightarrow> ct_id (CTimerBuffer ts ! i) = cid \<Longrightarrow>
   ct_proc (CTimerBuffer ts ! i) = sc_timer cf \<Longrightarrow> ct_dev (CTimerBuffer ts ! i) = word_of_int (sc_period cf) \<Longrightarrow>
   ct_cnt (CTimerBuffer ts ! i) = of_nat n \<Longrightarrow> (\<And>j. j \<in> set xs \<Longrightarrow> j \<noteq> i \<Longrightarrow> ct_proc (CTimerBuffer ts ! j) \<noteq> sc_timer cf) \<Longrightarrow>
   session_ok cf (Some n) True cid ts"
  by (auto simp: session_ok_def)

lemma session_NoneI:
  "ct_ok ts xs \<Longrightarrow> length xs < MAX_CTIMER \<Longrightarrow> (\<And>j. j \<in> set xs \<Longrightarrow> ct_proc (CTimerBuffer ts ! j) \<noteq> sc_timer cf) \<Longrightarrow>
   session_ok cf None False (-1) ts"
  by (auto simp: session_ok_def)

lemma session_SomeE:
  assumes "session_ok cf (Some n) logon cid ts"
  obtains xs i where "ct_ok ts xs" "i \<in> set xs" "n < nat (sc_period cf)" "drop_bit 16 cid = int i" "ct_id (CTimerBuffer ts ! i) = cid"
    "ct_proc (CTimerBuffer ts ! i) = sc_timer cf" "ct_dev (CTimerBuffer ts ! i) = word_of_int (sc_period cf)"
    "ct_cnt (CTimerBuffer ts ! i) = of_nat n" "\<And>j. j \<in> set xs \<Longrightarrow> j \<noteq> i \<Longrightarrow> ct_proc (CTimerBuffer ts ! j) \<noteq> sc_timer cf"
    "logon" "0 \<le> cid" "i < length (CTimerBuffer ts)" "i < MAX_CTIMER" "ct_flag (CTimerBuffer ts ! i) \<noteq> TMAN_EMPTY"
proof -
  obtain xs i where h: "ct_ok ts xs" "i \<in> set xs" "n < nat (sc_period cf)" "drop_bit 16 cid = int i" "ct_id (CTimerBuffer ts ! i) = cid"
    "ct_proc (CTimerBuffer ts ! i) = sc_timer cf" "ct_dev (CTimerBuffer ts ! i) = word_of_int (sc_period cf)"
    "ct_cnt (CTimerBuffer ts ! i) = of_nat n" "\<forall>j \<in> set xs. j \<noteq> i \<longrightarrow> ct_proc (CTimerBuffer ts ! j) \<noteq> sc_timer cf" "logon"
    using assms by (auto simp: session_ok_def)
  have "0 \<le> cid" using h(4) by (metis drop_bit_nonnegative_int_iff of_nat_0_le_iff)
  moreover have "i < length (CTimerBuffer ts)" "i < MAX_CTIMER" "ct_flag (CTimerBuffer ts ! i) \<noteq> TMAN_EMPTY"
    using h(1,2) by (auto simp: ct_ok_def slots_def)
  ultimately show ?thesis using that h by blast
qed

locale shell_session =
  fixes cf :: shell_conf
  assumes period: "0 < sc_period cf" "sc_period cf \<le> 2147483647"
begin

lemma begun:
  assumes "session_ok cf None logon cid ts"
  shows "\<exists>cid' ts'. SysAddCTimer (sc_period cf) (sc_timer cf) 0 ts = (cid', ts') \<and> session_ok cf (Some 0) True cid' ts'"
proof -
  obtain xs where xs: "ct_ok ts xs" "length xs < MAX_CTIMER" "\<forall>j \<in> set xs. ct_proc (CTimerBuffer ts ! j) \<noteq> sc_timer cf"
    using assms by (auto simp: session_ok_def)
  from SysAddCTimer_entry [OF xs(1) period xs(2), of "sc_timer cf" 0] obtain i cid' ts' where
    a: "SysAddCTimer (sc_period cf) (sc_timer cf) 0 ts = (cid', ts')" "i \<notin> set xs" "ct_ok ts' (xs @ [i])" "drop_bit 16 cid' = int i"
      "ct_id (CTimerBuffer ts' ! i) = cid'" "ct_proc (CTimerBuffer ts' ! i) = sc_timer cf"
      "ct_dev (CTimerBuffer ts' ! i) = word_of_int (sc_period cf)" "ct_cnt (CTimerBuffer ts' ! i) = 0" "\<forall>j. j \<noteq> i \<longrightarrow> CTimerBuffer ts' ! j = CTimerBuffer ts ! j"
    by blast
  have "session_ok cf (Some 0) True cid' ts'"
    by (rule session_SomeI [OF a(3) _ _ a(4-7)]) (use a xs(3) period in auto)
  then show ?thesis using a(1) by blast
qed

lemma lasting:
  assumes "session_ok cf (Some n) logon cid ts"
  shows "session_ok cf (Some 0) True cid (SysClearCTimer cid ts)"
proof -
  obtain xs i where h: "ct_ok ts xs" "i \<in> set xs" "n < nat (sc_period cf)" "drop_bit 16 cid = int i" "ct_id (CTimerBuffer ts ! i) = cid"
    "ct_proc (CTimerBuffer ts ! i) = sc_timer cf" "ct_dev (CTimerBuffer ts ! i) = word_of_int (sc_period cf)"
    "\<And>j. j \<in> set xs \<Longrightarrow> j \<noteq> i \<Longrightarrow> ct_proc (CTimerBuffer ts ! j) \<noteq> sc_timer cf"
    "i < length (CTimerBuffer ts)" "i < MAX_CTIMER" "ct_flag (CTimerBuffer ts ! i) \<noteq> TMAN_EMPTY"
    using session_SomeE [OF assms] by metis
  have c: "SysClearCTimer cid ts = ts\<lparr>CTimerBuffer := (CTimerBuffer ts)[i := (CTimerBuffer ts ! i)\<lparr>ct_cnt := 0\<rparr>]\<rparr>"
    using h(4,5,10,11) by (simp add: SysClearCTimer_def Let_def)
  show ?thesis
    by (rule session_SomeI [OF SysClearCTimer_ok [OF h(1)] h(2) _ h(4)])
      (use h(3,5-9) in \<open>auto simp: c nth_list_update\<close>)
qed

lemma closed:
  assumes "session_ok cf (Some n) logon cid ts"
  shows "session_ok cf None False (-1) (SysStopCTimer cid ts)"
proof -
  obtain xs i where h: "ct_ok ts xs" "i \<in> set xs" "drop_bit 16 cid = int i" "ct_id (CTimerBuffer ts ! i) = cid"
    "\<And>j. j \<in> set xs \<Longrightarrow> j \<noteq> i \<Longrightarrow> ct_proc (CTimerBuffer ts ! j) \<noteq> sc_timer cf"
    "i < length (CTimerBuffer ts)" "i < MAX_CTIMER" "ct_flag (CTimerBuffer ts ! i) \<noteq> TMAN_EMPTY"
    using session_SomeE [OF assms] by metis
  have c: "SysStopCTimer cid ts = ts\<lparr>CTimerBuffer := (CTimerBuffer ts)[i := (CTimerBuffer ts ! i)\<lparr>ct_flag := TMAN_EMPTY\<rparr>],
      CTimerLinks := dl_unlink i (CTimerLinks ts)\<rparr>"
    using h(3,4,7,8) by (simp add: SysStopCTimer_def Let_def)
  have "length (filter (\<lambda>x. x \<noteq> i) xs) < MAX_CTIMER"
    using length_filter_less [of i xs "\<lambda>x. x \<noteq> i"] h(2) ct_ok_length [OF h(1)] by simp
  then show ?thesis unfolding c
    by (rule session_NoneI [OF ct_unlink_ok [OF h(1,2)]]) (use h(5) in auto)
qed

text \<open>A second: the timer counts on, and in the last one it calls the shell and is gone.\<close>

lemma second:
  assumes "session_ok cf k logon cid ts" "\<And>a. run' (sc_timer cf) a \<noteq> 0"
  shows "\<exists>ts'. CTimerProc run' ts = Some ts' \<and>
    (let fired = (sc_timer cf \<in> fst ` set (drop (length (CTimerCalls ts)) (CTimerCalls ts'))) in
     fired = (k \<noteq> None \<and> session_second cf k = None) \<and>
     (if fired then session_ok cf None False (-1) ts' else session_ok cf (session_second cf k) logon cid ts'))"
proof (cases k)
  case None
  then obtain xs where xs: "ct_ok ts xs" "length xs < MAX_CTIMER" "\<forall>j \<in> set xs. ct_proc (CTimerBuffer ts ! j) \<noteq> sc_timer cf" "\<not> logon" "cid = - 1"
    using assms(1) by (auto simp: session_ok_def)
  obtain ts' where t: "CTimerProc run' ts = Some ts'" "ct_ok ts' (filter (\<lambda>i. \<not> ct_stops run' (CTimerBuffer ts ! i)) xs)"
     "\<forall>i \<in> set xs. CTimerBuffer ts' ! i = ct_tick run' (CTimerBuffer ts ! i)"
     "CTimerCalls ts' = CTimerCalls ts @ map (\<lambda>i. (ct_proc (CTimerBuffer ts ! i), ct_arg (CTimerBuffer ts ! i))) (filter (\<lambda>i. ct_fires (CTimerBuffer ts ! i)) xs)"
    using CTimerProc_correct [OF xs(1), of run'] by blast
  have "session_ok cf None False (-1) ts'"
    by (rule session_NoneI [OF t(2)]) (use xs(2,3) t(3) in \<open>auto simp: ct_tick_def intro: le_less_trans [OF length_filter_le]\<close>)
  then show ?thesis using t(1,4) xs(3,4,5) None by (auto simp: Let_def)
next
  case (Some n)
  obtain xs i where h: "ct_ok ts xs" "i \<in> set xs" "n < nat (sc_period cf)" "drop_bit 16 cid = int i" "ct_id (CTimerBuffer ts ! i) = cid"
    "ct_proc (CTimerBuffer ts ! i) = sc_timer cf" "ct_dev (CTimerBuffer ts ! i) = word_of_int (sc_period cf)"
    "ct_cnt (CTimerBuffer ts ! i) = of_nat n"
    "\<And>j. j \<in> set xs \<Longrightarrow> j \<noteq> i \<Longrightarrow> ct_proc (CTimerBuffer ts ! j) \<noteq> sc_timer cf" "logon"
    using session_SomeE [OF assms(1) [unfolded Some]] by metis
  obtain ts' where t: "CTimerProc run' ts = Some ts'" "ct_ok ts' (filter (\<lambda>i. \<not> ct_stops run' (CTimerBuffer ts ! i)) xs)"
     "\<forall>i \<in> set xs. CTimerBuffer ts' ! i = ct_tick run' (CTimerBuffer ts ! i)"
     "CTimerCalls ts' = CTimerCalls ts @ map (\<lambda>i. (ct_proc (CTimerBuffer ts ! i), ct_arg (CTimerBuffer ts ! i))) (filter (\<lambda>i. ct_fires (CTimerBuffer ts ! i)) xs)"
    using CTimerProc_correct [OF h(1), of run'] by blast
  let ?p = "CTimerBuffer ts ! i"
  have fires: "ct_fires ?p \<longleftrightarrow> Suc n \<ge> nat (sc_period cf)"
  proof -
    have "unat (ct_dev ?p) = nat (sc_period cf)" using h(7) period by (simp add: unsigned_of_int take_bit_eq_mod)
    moreover have "unat (ct_cnt ?p + 1) = Suc n"
    proof -
      have "ct_cnt ?p + 1 = of_nat (Suc n)" using h(8) by simp
      moreover have "Suc n < 4294967296" using h(3) period by linarith
      ultimately show ?thesis by (simp only: unat_of_nat) (simp add: take_bit_eq_mod)
    qed
    ultimately show ?thesis by (simp add: ct_fires_def word_le_nat_alt)
  qed
  have stops: "ct_stops run' ?p = ct_fires ?p" using h(6) assms(2) by (simp add: ct_stops_def)
  have fired: "(sc_timer cf \<in> fst ` set (drop (length (CTimerCalls ts)) (CTimerCalls ts'))) = ct_fires ?p"
  proof -
    have "fst ` set (drop (length (CTimerCalls ts)) (CTimerCalls ts')) = {ct_proc (CTimerBuffer ts ! j) |j. j \<in> set xs \<and> ct_fires (CTimerBuffer ts ! j)}"
      unfolding t(4) by (auto simp: image_image)
    then show ?thesis using h(2,6) h(9) by (auto) metis
  qed
  show ?thesis
  proof (cases "ct_fires ?p")
    case True
    have "session_ok cf None False (-1) ts'"
    proof (rule session_NoneI [OF t(2)])
      show "length (filter (\<lambda>i. \<not> ct_stops run' (CTimerBuffer ts ! i)) xs) < MAX_CTIMER"
        using length_filter_less [of i xs "\<lambda>i. \<not> ct_stops run' (CTimerBuffer ts ! i)"] h(2) stops True ct_ok_length [OF h(1)] by simp
      show "ct_proc (CTimerBuffer ts' ! j) \<noteq> sc_timer cf" if "j \<in> set (filter (\<lambda>i. \<not> ct_stops run' (CTimerBuffer ts ! i)) xs)" for j
        using that h(9) [of j] t(3) stops True by (cases "j = i") (auto simp: ct_tick_def)
    qed
    then show ?thesis using t(1) fired fires True Some by (simp add: Let_def)
  next
    case False
    have tick: "CTimerBuffer ts' ! i = ?p\<lparr>ct_cnt := ct_cnt ?p + 1\<rparr>" using t(3) h(2) stops False by (simp add: ct_tick_def)
    have "session_ok cf (Some (Suc n)) True cid ts'"
    proof (rule session_SomeI [OF t(2)])
      show "i \<in> set (filter (\<lambda>i. \<not> ct_stops run' (CTimerBuffer ts ! i)) xs)" using h(2) stops False by simp
      show "ct_proc (CTimerBuffer ts' ! j) \<noteq> sc_timer cf" if "j \<in> set (filter (\<lambda>i. \<not> ct_stops run' (CTimerBuffer ts ! i)) xs)" "j \<noteq> i" for j
        using that h(9) [of j] t(3) by (auto simp: ct_tick_def)
    qed (use h tick fires False in auto)
    then show ?thesis using t(1) fired fires False Some h(10) by (simp add: Let_def)
  qed
qed

text \<open>One line of the shell.\<close>

lemma keep_some:
  assumes "in_session cf (Some n) s"
  shows "in_session cf (Some 0) (keep_session cf p s)" "sh_calls (keep_session cf p s) = sh_calls s"
    "LogInterface (keep_session cf p s) = LogInterface s"
proof -
  have s: "session_ok cf (Some n) (LogonOk s) (TimerIdShell s) (sh_timers s)" using assms by (simp add: in_session_def)
  have "0 \<le> TimerIdShell s" "LogonOk s" using session_SomeE [OF s] by metis+
  then have k: "keep_session cf p s = s\<lparr>sh_timers := SysClearCTimer (TimerIdShell s) (sh_timers s)\<rparr>" by (simp add: keep_session_def)
  show "in_session cf (Some 0) (keep_session cf p s)" using lasting [OF s] \<open>LogonOk s\<close> by (simp add: k in_session_def)
  show "sh_calls (keep_session cf p s) = sh_calls s" "LogInterface (keep_session cf p s) = LogInterface s" by (simp_all add: k)
qed

lemma quit:
  assumes "in_session cf (Some n) s"
  shows "in_session cf None (ShellQuit s)" "sh_calls (ShellQuit s) = sh_calls s"
proof -
  have s: "session_ok cf (Some n) (LogonOk s) (TimerIdShell s) (sh_timers s)" using assms by (simp add: in_session_def)
  have "0 \<le> TimerIdShell s" using session_SomeE [OF s] by metis
  then show "in_session cf None (ShellQuit s)" "sh_calls (ShellQuit s) = sh_calls s"
    using closed [OF s] by (simp_all add: ShellQuit_def in_session_def)
qed

lemma exec:
  assumes "in_session cf (Some n) s" "LogInterface s = sc_itf cf"
  shows "in_session cf (if f = shell_exit then None else Some n) (exec_func cf f argv s)"
    "sh_calls (exec_func cf f argv s) = sh_calls s @ [(f, argv)]"
proof -
  have "in_session cf (Some n) (s\<lparr>sh_calls := sh_calls s @ [(f, argv)]\<rparr>)" using assms(1) by simp
  note q = quit [OF this] this
  show "in_session cf (if f = shell_exit then None else Some n) (exec_func cf f argv s)"
    using q assms by (cases f) (simp_all add: exec_func_def Let_def SetLogType_def SetLogInterface_def)
  show "sh_calls (exec_func cf f argv s) = sh_calls s @ [(f, argv)]"
    using q assms(2) by (cases f) (simp_all add: exec_func_def Let_def SetLogType_def SetLogInterface_def)
qed

lemma line:
  assumes "in_session cf k s"
  shows "in_session cf (fst (session_line cf idx text k)) (shell_round cf idx text s)"
    "sh_calls (shell_round cf idx text s) = sh_calls s @ snd (session_line cf idx text k)"
proof -
  have "in_session cf (fst (session_line cf idx text k)) (shell_round cf idx text s) \<and>
    sh_calls (shell_round cf idx text s) = sh_calls s @ snd (session_line cf idx text k)"
  proof (cases k)
    case None
    then have n: "session_ok cf None (LogonOk s) (TimerIdShell s) (sh_timers s)" "\<not> LogonOk s" "TimerIdShell s < 0"
      using assms by (auto simp: in_session_def session_ok_def)
    then show ?thesis using begun [OF n(1)] None assms
      by (auto simp: shell_round_def keep_session_def SetLogInterface_def in_session_def)
  next
    case (Some n)
    then have l: "LogonOk s" using assms by (auto simp: in_session_def session_ok_def)
    show ?thesis
    proof (cases "ShellParseArg text SHELLARG_NUM")
      case Nil
      then show ?thesis using Some l assms by (simp add: shell_round_def)
    next
      case (Cons name args)
      show ?thesis
      proof (cases "FindShellFunc idx name")
        case None
        then show ?thesis using Some Cons l assms by (simp add: shell_round_def)
      next
        case f: (Some f)
        have "in_session cf (Some n) (SetLogInterface (sc_itf cf) s)" using assms Some by (simp add: SetLogInterface_def)
        note k = keep_some [OF this, of "sc_period2 cf"]
        have i: "LogInterface (keep_session cf (sc_period2 cf) (SetLogInterface (sc_itf cf) s)) = sc_itf cf" using k(3) by (simp add: SetLogInterface_def)
        note e = exec [OF k(1) i, of f "name # args"]
        show ?thesis using e k(2) f Cons Some l by (simp add: shell_round_def Let_def SetLogInterface_def)
      qed
    qed
  qed
  then show "in_session cf (fst (session_line cf idx text k)) (shell_round cf idx text s)"
    "sh_calls (shell_round cf idx text s) = sh_calls s @ snd (session_line cf idx text k)" by blast+
qed

lemma tick:
  assumes "in_session cf k s"
  shows "\<exists>s'. shell_second cf run s = Some s' \<and> in_session cf (session_second cf k) s' \<and> sh_calls s' = sh_calls s"
proof -
  have s: "session_ok cf k (LogonOk s) (TimerIdShell s) (sh_timers s)" using assms by (simp add: in_session_def)
  have fst: "fst (CTimerShell s) = 1" by (simp add: CTimerShell_def)
  let ?run = "\<lambda>p a. if p = sc_timer cf then fst (CTimerShell s) else run p a"
  obtain ts' where t: "CTimerProc ?run (sh_timers s) = Some ts'"
    "let fired = (sc_timer cf \<in> fst ` set (drop (length (CTimerCalls (sh_timers s))) (CTimerCalls ts'))) in
     fired = (k \<noteq> None \<and> session_second cf k = None) \<and>
     (if fired then session_ok cf None False (-1) ts' else session_ok cf (session_second cf k) (LogonOk s) (TimerIdShell s) ts')"
  proof -
    have "?run (sc_timer cf) a \<noteq> 0" for a by (simp add: fst)
    from second [where run' = ?run, OF s this] show ?thesis using that by blast
  qed
  then show ?thesis
    by (auto simp: shell_second_def Let_def CTimerShell_def SetLogInterface_def SetLogType_def in_session_def split: if_splits)
qed

end

interpretation eth_shell: shell_session "eth_conf proc" for proc
  by unfold_locales (simp_all add: eth_conf_def)

interpretation pipe_shell: shell_session "pipe_conf proc" for proc
  by unfold_locales (simp_all add: pipe_conf_def)

subsection \<open>Properties\<close>

text \<open>What a session is: it begins with the logon, ends with \<open>exit\<close> and with nothing else, and commands run only while it lasts.\<close>

fun sessions :: "shell_func shell_cmd option list \<Rightarrow> 'a device_event list \<Rightarrow> bool \<Rightarrow> bool \<times> (shell_func \<times> string list) list" where
  "sessions idx [] open = (open, [])"
| "sessions idx (TimerRound tm1 tm2 # es) open = sessions idx es open"
| "sessions idx (Datagram addr data # es) open =
     (let text = cstr (take 255 data) in
      if data = [] then sessions idx es open
      else if \<not> open then sessions idx es (text = ''logon 7865ae31'')
      else
        case ShellParseArg text SHELLARG_NUM of
          [] \<Rightarrow> sessions idx es open
        | name # args \<Rightarrow>
            (case FindShellFunc idx name of
               None \<Rightarrow> sessions idx es open
             | Some f \<Rightarrow> (let (open', calls) = sessions idx es (f \<noteq> shell_exit) in (open', (f, name # args) # calls))))"

definition shell_idle :: "u32 \<Rightarrow> 'a shell_state \<Rightarrow> bool" where
  "shell_idle proc s \<longleftrightarrow> \<not> LogonOk s \<and> TimerIdShell s = -1 \<and> sh_calls s = [] \<and>
     (\<exists>xs. ct_ok (sh_timers s) xs \<and> length xs < MAX_CTIMER \<and> (\<forall>j \<in> set xs. ct_proc (CTimerBuffer (sh_timers s) ! j) \<noteq> proc))"

text \<open>The seconds that the clock of the system has in a round, up to the year 2044.\<close>

definition round_seconds :: "tm \<Rightarrow> tm \<Rightarrow> int" where
  "round_seconds tm1 tm2 = SysClockToUTime (clock_of_tm (if tm_year tm1 \<noteq> 117 then tm2 else tm1))"

fun clock_served :: "'a device_event \<Rightarrow> bool" where
  "clock_served (Datagram addr data) \<longleftrightarrow> True"
| "clock_served (TimerRound tm1 tm2) \<longleftrightarrow> 0 \<le> round_seconds tm1 tm2 \<and> round_seconds tm1 tm2 \<le> 1400000000"

text \<open>The task serves the cyclic timers at most once, so no session of the shell is ever older than one second.\<close>

definition young :: "nat option \<Rightarrow> timer_task \<Rightarrow> bool" where
  "young k t \<longleftrightarrow> (case k of None \<Rightarrow> True | Some n \<Rightarrow> n \<le> (if SysJiffies t = bakJiffies t then 1 else 0)) \<and> (\<exists>xs. rt_ok (rtimers t) xs)"

lemma shell_idle_session: "shell_idle proc s \<Longrightarrow> in_session (eth_conf proc) None s"
  by (auto simp: shell_idle_def in_session_def session_ok_def eth_conf_def)

lemma rest_of_round:
  assumes "rt_ok (rtimers t) xs" "0 \<le> round_seconds tm1 tm2" "round_seconds tm1 tm2 \<le> 1400000000" "CTimerProc run (ctimers t) = Some c"
  shows "\<exists>t' ys. SysTimerTask_round run tm1 tm2 t = Some t' \<and> rt_ok (rtimers t') ys \<and> SysJiffies t' = SysJiffies t \<and> bakJiffies t' = SysJiffies t \<and>
    ctimers t' = (if SysJiffies t \<noteq> bakJiffies t then c else ctimers t)"
proof -
  have u: "UTimeReadCurrent (snd (SysClockRead tm1 tm2 cs')) = round_seconds tm1 tm2" for cs'
    by (simp add: UTimeReadCurrent_def SysClockRead_def round_seconds_def Let_def)
  obtain r ys where r: "RTimerProc (round_seconds tm1 tm2) (rtimers t) = Some r" "rt_ok r ys"
    using RTimerProc_correct [OF assms(1-3)] by blast
  show ?thesis using assms(1,4) r u by (auto simp: SysTimerTask_round_def Let_def split_def)
qed

lemma round_device:
  assumes "in_session (eth_conf proc) k s" "young k t" "0 \<le> round_seconds tm1 tm2" "round_seconds tm1 tm2 \<le> 1400000000"
  shows "\<exists>s' t' k'. timer_round (eth_conf proc) run tm1 tm2 (s, t) = Some (s', t') \<and> in_session (eth_conf proc) k' s' \<and> young k' t' \<and>
    sh_calls s' = sh_calls s \<and> (k' = None \<longleftrightarrow> k = None)"
proof -
  obtain xs where rt: "rt_ok (rtimers t) xs" using assms(2) by (auto simp: young_def)
  note tm = assms(3,4)
  let ?t = "t\<lparr>ctimers := sh_timers s\<rparr>"
  let ?run = "\<lambda>p a. if p = sc_timer (eth_conf proc) then fst (CTimerShell s) else run p a"
  obtain s2 where s2: "shell_second (eth_conf proc) run s = Some s2" "in_session (eth_conf proc) (session_second (eth_conf proc) k) s2" "sh_calls s2 = sh_calls s"
    using eth_shell.tick [OF assms(1), of run] by blast
  obtain c where c: "CTimerProc ?run (sh_timers s) = Some c" using s2(1) by (auto simp: shell_second_def split: option.splits)
  have "rt_ok (rtimers ?t) xs" using rt by simp
  from rest_of_round [where run = ?run and c = c, OF this tm] c
  obtain t' ys where t': "SysTimerTask_round ?run tm1 tm2 ?t = Some t'" "rt_ok (rtimers t') ys" "SysJiffies t' = SysJiffies t" "bakJiffies t' = SysJiffies t"
     "ctimers t' = (if SysJiffies t \<noteq> bakJiffies t then c else sh_timers s)"
    by auto
  show ?thesis
  proof (cases "SysJiffies t = bakJiffies t")
    case True
    then have "timer_round (eth_conf proc) run tm1 tm2 (s, t) = Some (s, t')"
      by (simp add: timer_round_def t'(1,5) Let_def)
    moreover have "young k t'" using assms(2) t'(2-4) True by (auto simp: young_def split: option.splits)
    ultimately show ?thesis using assms(1) by blast
  next
    case False
    then have "timer_round (eth_conf proc) run tm1 tm2 (s, t) = Some (s2, t')"
      using s2(1) c by (auto simp: timer_round_def t'(1,5) shell_second_def Let_def split: if_splits)
    moreover have "session_second (eth_conf proc) k = map_option Suc k" using assms(2) False by (cases k) (auto simp: young_def eth_conf_def)
    moreover have "young (map_option Suc k) t'" using assms(2) t'(2-4) False by (auto simp: young_def split: option.splits)
    ultimately show ?thesis using s2(2,3) by (intro exI [of _ s2] exI [of _ t'] exI [of _ "map_option Suc k"]) simp
  qed
qed

lemma datagram_device:
  fixes data :: string and addr :: 'a and idx :: "shell_func shell_cmd option list"
  assumes "in_session (eth_conf proc) k s" "young k t"
  defines "s' \<equiv> EthShellTask_round proc idx addr data s"
  shows "\<exists>k' calls. in_session (eth_conf proc) k' s' \<and> young k' t \<and> sh_calls s' = sh_calls s @ calls \<and>
    sessions idx (Datagram addr data # es) (k \<noteq> None) = (let (open, cs) = sessions idx es (k' \<noteq> None) in (open, calls @ cs))"
proof (cases "data = []")
  case True
  then show ?thesis using assms by (intro exI [of _ k]) (simp add: EthShellTask_round_def)
next
  case False
  let ?l = "session_line (eth_conf proc) idx (cstr (take 255 data)) k"
  have "in_session (eth_conf proc) (fst ?l) s'" "sh_calls s' = sh_calls s @ snd ?l"
    using False assms(1) eth_shell.line [of proc k "s\<lparr>AddrShell := Some addr\<rparr>" idx "cstr (take 255 data)"]
    by (simp_all add: s'_def EthShellTask_round_def Let_def)
  moreover have "young (fst ?l) t" using assms(2) by (cases k) (auto simp: young_def split: list.splits option.splits)
  moreover have "LogonString (eth_conf proc) = ''logon 7865ae31''" by (simp add: eth_conf_def)
  then have "sessions idx (Datagram addr data # es) (k \<noteq> None) = (let (open, cs) = sessions idx es (fst ?l \<noteq> None) in (open, snd ?l @ cs))"
    using False by (cases k) (auto simp: Let_def split: list.split option.split prod.split)
  ultimately show ?thesis by blast
qed

lemma device_run_sessions:
  "in_session (eth_conf proc) k s \<Longrightarrow> young k t \<Longrightarrow> list_all clock_served es \<Longrightarrow>
   \<exists>s' t' k'. device_run proc idx run es (s, t) = Some (s', t') \<and> in_session (eth_conf proc) k' s' \<and> young k' t' \<and>
     sessions idx es (k \<noteq> None) = (k' \<noteq> None, drop (length (sh_calls s)) (sh_calls s')) \<and> take (length (sh_calls s)) (sh_calls s') = sh_calls s"
proof (induction es arbitrary: s t k)
  case Nil then show ?case by auto
next
  case (Cons e es)
  show ?case
  proof (cases e)
    case (TimerRound tm1 tm2)
    from Cons.prems(3) TimerRound have c: "0 \<le> round_seconds tm1 tm2" "round_seconds tm1 tm2 \<le> 1400000000" "list_all clock_served es"
      by simp_all
    obtain s1 t1 k1 where 1: "timer_round (eth_conf proc) run tm1 tm2 (s, t) = Some (s1, t1)" "in_session (eth_conf proc) k1 s1" "young k1 t1"
        "sh_calls s1 = sh_calls s" "k1 = None \<longleftrightarrow> k = None"
      using round_device [OF Cons.prems(1,2) c(1,2), of run] by blast
    show ?thesis using Cons.IH [OF 1(2,3) c(3)] 1 by (simp add: TimerRound)
  next
    case (Datagram addr data)
    from Cons.prems(3) Datagram have c: "list_all clock_served es" by simp
    obtain k1 calls where 1: "in_session (eth_conf proc) k1 (EthShellTask_round proc idx addr data s)" "young k1 t"
        "sh_calls (EthShellTask_round proc idx addr data s) = sh_calls s @ calls"
        "sessions idx (Datagram addr data # es) (k \<noteq> None) = (let (open, cs) = sessions idx es (k1 \<noteq> None) in (open, calls @ cs))"
      using datagram_device [OF Cons.prems(1,2)] by blast
    obtain s2 t2 k2 where 2: "device_run proc idx run es (EthShellTask_round proc idx addr data s, t) = Some (s2, t2)" "in_session (eth_conf proc) k2 s2" "young k2 t2"
        "sessions idx es (k1 \<noteq> None) = (k2 \<noteq> None, drop (length (sh_calls s @ calls)) (sh_calls s2))" "take (length (sh_calls s @ calls)) (sh_calls s2) = sh_calls s @ calls"
      using Cons.IH [OF 1(1,2) c] unfolding 1(3) by blast
    define rest where "rest = drop (length (sh_calls s @ calls)) (sh_calls s2)"
    have "sh_calls s2 = sh_calls s @ calls @ rest" using 2(5) unfolding rest_def by (metis append_assoc append_take_drop_id)
    then show ?thesis using 1(4) 2 unfolding Datagram by (auto simp: rest_def[symmetric])
  qed
qed

text \<open>C13: from a shell that is not logged on, with one of the 63 timers free, any sequence of datagrams and of rounds of the task of the timers (with
  any time before 2044) is served to its end, and a session begins with the logon and ends with \<open>exit\<close> only: the shell is logged on at the end exactly
  while such a session lasts, and the functions that were called are those of the commands of the sessions, with their words, in
  order. No number of rounds closes a session, although its timer is set: the task serves the timers once at most.\<close>

theorem shell_sessions:
  assumes "shell_idle proc s" "rt_reach (rtimers t)" "list_all clock_served es"
  shows "\<exists>s' t'. device_run proc idx run es (s, t) = Some (s', t') \<and> (LogonOk s', sh_calls s') = sessions idx es False"
proof -
  have i: "in_session (eth_conf proc) None s" "sh_calls s = []" using shell_idle_session [OF assms(1)] assms(1) by (simp_all add: shell_idle_def)
  have y: "young None t" using rt_reach_ok [OF assms(2)] by (simp add: young_def)
  obtain s' t' k' where r: "device_run proc idx run es (s, t) = Some (s', t')" "in_session (eth_conf proc) k' s'"
      "sessions idx es (None \<noteq> (None :: nat option)) = (k' \<noteq> None, drop (length (sh_calls s)) (sh_calls s'))"
    using device_run_sessions [OF i(1) y assms(3)] by blast
  have "LogonOk s' = (k' \<noteq> None)" using r(2) by (cases k') (auto simp: in_session_def session_ok_def)
  then show ?thesis using r(1,3) i(2) by auto
qed

definition shell_start :: "nat shell_state" where
  "shell_start = \<lparr>LogType = 0, LogInterface = 0, LogonOk = False, TimerIdShell = -1, AddrShell = None, sh_timers = empty_ctimers,
     sh_calls = [], sh_prints = []\<rparr>"

lemma shell_start_idle: "shell_idle proc shell_start"
  using empty_ctimers_ok by (auto simp: shell_idle_def shell_start_def MAX_CTIMER_def intro!: exI [of _ "[]"])

definition two_cmds :: "shell_func shell_cmd list" where
  "two_cmds = [(''help'', shell_other 0), (''exit'', shell_exit)]"

definition noon :: tm where
  "noon = \<lparr>tm_sec = 0, tm_min = 0, tm_hour = 12, tm_mday = 1, tm_mon = 5, tm_year = 117, tm_wday = 4\<rparr>"

lemma noon_seconds: "0 \<le> round_seconds noon noon \<and> round_seconds noon noon \<le> 1400000000"
  by code_simp

text \<open>A session that 2000 rounds of the task do not close; a line from the address 2 runs in the session that the address 1 opened.\<close>

theorem shell_sessions_witness:
  "shell_idle 7 shell_start \<and>
   (\<exists>s' t'. device_run 7 (fst (ShellCmdInit two_cmds)) (\<lambda>_ _. 0)
       ([Datagram 1 ''help'', Datagram 1 ''logon 7865ae31''] @ replicate 2000 (TimerRound noon noon) @ [Datagram 2 ''help me'']) (shell_start, example_task) = Some (s', t') \<and>
     LogonOk s' \<and> sh_calls s' = [(shell_other 0, [''help'', ''me''])]) \<and>
   (\<exists>s' t'. device_run 7 (fst (ShellCmdInit two_cmds)) (\<lambda>_ _. 0)
       [Datagram 1 ''logon 7865ae31'', Datagram 2 ''exit'', Datagram 1 ''help''] (shell_start, example_task) = Some (s', t') \<and>
     \<not> LogonOk s' \<and> sh_calls s' = [(shell_exit, [''exit''])])"
proof -
  have n: "snd (ShellCmdInit two_cmds) = []"
    unfolding ShellCmdInit_def
    by (rule none_lost [where n = 2]) (auto simp: two_cmds_def index_start_def INDEX_SIZE_def INODE_NUM_def Let_def)
  define idx where "idx = fst (ShellCmdInit two_cmds)"
  have f: "FindShellFunc idx name = (if index_start name = None then None else map_of two_cmds name)" for name
    unfolding idx_def using n by (metis FindShellFunc_all prod.collapse)
  have h: "FindShellFunc idx ''help'' = Some (shell_other 0)" "FindShellFunc idx ''exit'' = Some shell_exit"
    unfolding f by (simp_all add: index_start_def two_cmds_def Let_def)
  let ?a = "[Datagram (1 :: nat) ''help'', Datagram 1 ''logon 7865ae31''] @ replicate 2000 (TimerRound noon noon) @ [Datagram 2 ''help me'']"
  let ?b = "[Datagram (1 :: nat) ''logon 7865ae31'', Datagram 2 ''exit'', Datagram 1 ''help'']"
  have rounds: "sessions idx (replicate m (TimerRound noon noon) @ es) b = sessions idx es b" for m es b by (induction m) simp_all
  have e: "sessions idx ?a False = (True, [(shell_other 0, [''help'', ''me''])])" "sessions idx ?b False = (False, [(shell_exit, [''exit''])])"
    using h by (simp_all add: rounds cstr_def ShellParseArg_def SHELLARG_NUM_def Let_def del: replicate_Suc)
  have lr: "list_all clock_served (replicate m (TimerRound noon noon))" for m using noon_seconds by (induction m) simp_all
  have la: "list_all clock_served ?a" using noon_seconds lr [of 2000] by simp
  have lb: "list_all clock_served ?b" by simp
  have rt: "rt_reach (rtimers example_task)" using empty_rtimers_reach by (simp add: example_task_def)
  obtain s1 t1 where 1: "device_run 7 idx (\<lambda>_ _. 0) ?a (shell_start, example_task) = Some (s1, t1)" "(LogonOk s1, sh_calls s1) = sessions idx ?a False"
    using shell_sessions [OF shell_start_idle rt la] by blast
  obtain s2 t2 where 2: "device_run 7 idx (\<lambda>_ _. 0) ?b (shell_start, example_task) = Some (s2, t2)" "(LogonOk s2, sh_calls s2) = sessions idx ?b False"
    using shell_sessions [OF shell_start_idle rt lb] by blast
  have c: "LogonOk s1" "sh_calls s1 = [(shell_other 0, [''help'', ''me''])]" "\<not> LogonOk s2" "sh_calls s2 = [(shell_exit, [''exit''])]"
    using 1(2) 2(2) unfolding e by blast+
  show ?thesis unfolding idx_def [symmetric]
    by (intro conjI exI) (rule shell_start_idle 1(1) 2(1) c)+
qed

text \<open>C22: when more slots of the index follow the start of every command than there are commands, none is lost, and looking a
  name up answers the function of the first command of that name, if the name begins with a small letter.\<close>

theorem FindShellFunc_exact:
  assumes "\<forall>c \<in> set cmds. \<forall>i. index_start (fst c) = Some i \<longrightarrow> i + length cmds \<le> INDEX_SIZE"
  shows "snd (ShellCmdInit cmds) = [] \<and>
    FindShellFunc (fst (ShellCmdInit cmds)) name = (if index_start name = None then None else map_of cmds name)"
proof -
  have "snd (ShellCmdInit cmds) = []"
    unfolding ShellCmdInit_def by (rule none_lost [where n = "length cmds"]) (use assms in auto)
  then show ?thesis by (metis FindShellFunc_all prod.collapse)
qed

theorem FindShellFunc_exact_witness:
  "FindShellFunc (fst (ShellCmdInit two_cmds)) ''exit'' = Some shell_exit"
  using FindShellFunc_exact [of two_cmds "''exit''"] by (simp add: two_cmds_def index_start_def INDEX_SIZE_def INODE_NUM_def Let_def)

text \<open>C40: the words of a line are at most \<open>argmax\<close>, each has at least one and less than 128 characters and none of them a blank or
  the end of a line, so that they fit in the arrays; and words that fit are read back as they were written.\<close>

theorem ShellParseArg_words:
  assumes "0 < argmax"
  shows "length (ShellParseArg line argmax) \<le> argmax \<and> list_all shell_word (ShellParseArg line argmax) \<and>
    (list_all shell_word ws \<and> length ws \<le> argmax \<longrightarrow> ShellParseArg (concat (map (\<lambda>w. w @ '' '') ws)) argmax = ws)"
  using parse_arg_bounds [of "[]" argmax "[]" line] parse_words [of ws "[]" argmax] assms by (simp add: ShellParseArg_def)

theorem ShellParseArg_words_witness:
  "ShellParseArg ''settime 24 2 30 '' 12 = [''settime'', ''24'', ''2'', ''30'']"
  using ShellParseArg_words [of 12 "[]" "[''settime'', ''24'', ''2'', ''30'']"] by (simp add: shell_word_def word_char_def)

subsection \<open>Arguments\<close>

lemma arg_index_less: "arg_index c = Some i \<Longrightarrow> i < 52"
  by (auto simp: arg_index_def Let_def split: if_splits)

lemma arg_index_val: "arg_index c = Some i \<Longrightarrow> (of_char c :: nat) = (if i < 26 then i + 97 else i + 39)"
  by (auto simp: arg_index_def Let_def split: if_splits)

lemma arg_index_inj: "arg_index c = Some i \<Longrightarrow> arg_index d = Some i \<Longrightarrow> c = d"
  using arg_index_val [of c i] arg_index_val [of d i] by (metis of_char_eq_iff)

text \<open>The last argument of a letter is the one that counts.\<close>

lemma GetStartArg_SetStartArg:
  assumes "length args = 52" "arg_index c = Some i" "length v < 15" "length v < maxlen"
  shows "GetStartArg c (Some buf) maxlen (snd (SetStartArg (c # v) args)) = (0, Some v)"
    "arg_index d \<noteq> None \<Longrightarrow> d \<noteq> c \<Longrightarrow> GetStartArg d b m (snd (SetStartArg (c # v) args)) = GetStartArg d b m args"
proof -
  show "GetStartArg c (Some buf) maxlen (snd (SetStartArg (c # v) args)) = (0, Some v)"
    using assms arg_index_less [OF assms(2)] by (simp add: GetStartArg_def SetStartArg_def)
  assume d: "arg_index d \<noteq> None" "d \<noteq> c"
  then obtain j where "arg_index d = Some j" "j \<noteq> i" using assms(2) arg_index_inj by blast
  then show "GetStartArg d b m (snd (SetStartArg (c # v) args)) = GetStartArg d b m args"
    using assms by (simp add: GetStartArg_def SetStartArg_def)
qed

text \<open>The days of the months are not told apart: the 30th of February is taken, and the clock shows the 1st of March.\<close>

lemma settime_february:
  "\<exists>cs'. shell_settime 0 [''settime'', ''24'', ''2'', ''30'', ''0'', ''0'', ''0''] \<lparr>UTimeCurrent = 762566400, ClockCurrent = c, ClockSysStart = c\<rparr> rt = Some (0, cs', rt) \<and>
     c_month (ClockCurrent cs') = 3 \<and> c_day (ClockCurrent cs') = 1"
proof -
  have "settime_clock 0 [''settime'', ''24'', ''2'', ''30'', ''0'', ''0'', ''0''] =
      Some \<lparr>c_year = 24, c_month = 2, c_day = 30, c_hour = 0, c_minute = 0, c_second = 0, c_week = 0\<rparr>" by code_simp
  moreover have "SysClockToUTime \<lparr>c_year = 24, c_month = 2, c_day = 30, c_hour = 0, c_minute = 0, c_second = 0, c_week = 0\<rparr> = 762566400"
    by code_simp
  moreover have "c_month (UTimeToSysClock 762566400) = 3 \<and> c_day (UTimeToSysClock 762566400) = 1" by code_simp
  ultimately show ?thesis by (simp add: shell_settime_def Let_def UTimeReadCurrent_def SysClockSet_def s32_def)
qed

end
