(* ===== verification/Gpio.thy ===== *)
theory Gpio
  imports Monitor
begin

text \<open>
  The pins (\<open>sys/driver/gpio.c\<close>, \<open>include/sys/gpio.h\<close>): every operation opens a file of the system, writes a text to it or reads one
  character, and closes it. The state is the list of what was written; whether a file can be opened and what it shows is the
  answer of the system to these writes and a part of the input. \<open>GPIO_DOOR\<close> is the pin that \<open>Qrcode\<close> sets to open a
  door; it has the number of the lamp of the system. The edge and the values the keys read are used by \<open>Monitor\<close>.
\<close>

record sysfs =
  sf_open :: "(string \<times> string) list \<Rightarrow> string \<Rightarrow> bool"
  sf_read :: "(string \<times> string) list \<Rightarrow> string \<Rightarrow> string"
  sf_writes :: "(string \<times> string) list"

definition SYSFS_GPIO_DIR :: string where "SYSFS_GPIO_DIR = ''/sys/class/gpio''"
definition GPIO_DOOR_pin :: nat where "GPIO_DOOR_pin = GPIO_PA 17"

definition open_write :: "string \<Rightarrow> string \<Rightarrow> sysfs \<Rightarrow> int \<times> sysfs" where
  "open_write path text s =
     (if \<not> sf_open s (sf_writes s) path then (- 1, s) else (0, s\<lparr>sf_writes := sf_writes s @ [(path, text)]\<rparr>))"

definition gpio_file :: "nat \<Rightarrow> string \<Rightarrow> string" where
  "gpio_file gpio name = SYSFS_GPIO_DIR @ ''/gpio'' @ dec_nat gpio @ name"

definition gpio_export :: "nat \<Rightarrow> sysfs \<Rightarrow> int \<times> sysfs" where
  "gpio_export gpio s = open_write (SYSFS_GPIO_DIR @ ''/export'') (dec_nat gpio) s"

definition gpio_unexport :: "nat \<Rightarrow> sysfs \<Rightarrow> int \<times> sysfs" where
  "gpio_unexport gpio s = open_write (SYSFS_GPIO_DIR @ ''/unexport'') (dec_nat gpio) s"

definition gpio_set_dir :: "nat \<Rightarrow> u32 \<Rightarrow> sysfs \<Rightarrow> int \<times> sysfs" where
  "gpio_set_dir gpio out_flag s = open_write (gpio_file gpio ''/direction'') (if out_flag \<noteq> 0 then ''out'' @ [CHR 0x00] else ''in'' @ [CHR 0x00]) s"

definition gpio_set_value :: "nat \<Rightarrow> u32 \<Rightarrow> sysfs \<Rightarrow> int \<times> sysfs" where
  "gpio_set_value gpio value s = open_write (gpio_file gpio ''/value'') (if value \<noteq> 0 then ''1'' @ [CHR 0x00] else ''0'' @ [CHR 0x00]) s"

definition gpio_set_edge :: "nat \<Rightarrow> string \<Rightarrow> sysfs \<Rightarrow> int \<times> sysfs" where
  "gpio_set_edge gpio edge s = open_write (gpio_file gpio ''/edge'') (edge @ [CHR 0x00]) s"

text \<open>When nothing can be read, \<open>ch\<close> is what the stack held.\<close>

definition gpio_get_value :: "nat \<Rightarrow> char \<Rightarrow> sysfs \<Rightarrow> u32 \<Rightarrow> int \<times> u32" where
  "gpio_get_value gpio ch s value =
     (let buf = gpio_file gpio ''/value'' in
      if \<not> sf_open s (sf_writes s) buf then (- 1, value)
      else
        let ch = (case sf_read s (sf_writes s) buf of [] \<Rightarrow> ch | c # _ \<Rightarrow> c)
        in (0, if ch \<noteq> CHR ''0'' then 1 else 0))"

definition pin_out :: "nat \<Rightarrow> u32 \<Rightarrow> sysfs \<Rightarrow> sysfs" where
  "pin_out gpio value s = snd (gpio_set_value gpio value (snd (gpio_set_dir gpio 1 (snd (gpio_export gpio s)))))"

definition GpioInit :: "sysfs \<Rightarrow> int \<times> sysfs" where
  "GpioInit s = (0, pin_out GPIO_LED_SYS 1 (pin_out GPIO_LED_NET 0 (pin_out GPIO_39 0 (pin_out GPIO_42 1 s))))"

definition ReadDriverVersion :: "bytes \<Rightarrow> int \<times> bytes" where
  "ReadDriverVersion buf = (6, replicate 6 0 @ drop 6 buf)"

subsection \<open>The pins under the tasks\<close>

text \<open>What the tasks of \<open>Monitor\<close> ask for, and what \<open>Qrcode\<close> does to the door: the values it sets, in order.\<close>

fun do_action :: "action \<Rightarrow> sysfs \<Rightarrow> sysfs" where
  "do_action (Gpio gpio value) s = snd (gpio_set_value gpio value s)"
| "do_action (Export gpio) s = snd (gpio_export gpio s)"
| "do_action (Dir gpio out_flag) s = snd (gpio_set_dir gpio out_flag s)"
| "do_action (Edge gpio edge) s = snd (gpio_set_edge gpio edge s)"
| "do_action (Run cmd) s = s"
| "do_action (Wait n) s = s"

definition set_door :: "bool list \<Rightarrow> sysfs \<Rightarrow> sysfs" where
  "set_door vs = fold (\<lambda>v s. snd (gpio_set_value GPIO_DOOR_pin (if v then 1 else 0) s)) vs"

text \<open>The character that was written last to the value of a pin.\<close>

definition last_value :: "nat \<Rightarrow> sysfs \<Rightarrow> char option" where
  "last_value gpio s = map_option (\<lambda>w. hd (snd w)) (find (\<lambda>w. fst w = gpio_file gpio ''/value'') (rev (sf_writes s)))"

lemma dec_nat_inj: "dec_nat m = dec_nat n \<longleftrightarrow> m = n"
  using read_dec_dec_nat by metis

lemma value_file: "gpio_file m ''/value'' = gpio_file n ''/value'' \<longleftrightarrow> m = n"
  by (simp add: gpio_file_def dec_nat_inj)

lemma tail_differs: "take 4 (rev x) \<noteq> take 4 (rev y) \<Longrightarrow> x \<noteq> y" by auto

lemma other_file:
  "gpio_file m ''/direction'' \<noteq> gpio_file n ''/value''" "gpio_file m ''/edge'' \<noteq> gpio_file n ''/value''"
  "SYSFS_GPIO_DIR @ ''/export'' \<noteq> gpio_file n ''/value''" "SYSFS_GPIO_DIR @ ''/unexport'' \<noteq> gpio_file n ''/value''"
  by (rule tail_differs, simp add: gpio_file_def SYSFS_GPIO_DIR_def)+

lemma open_write_facts:
  "sf_open (snd (open_write path text s)) = sf_open s"
  "last_value n (snd (open_write path text s)) =
     (if path = gpio_file n ''/value'' \<and> sf_open s (sf_writes s) path then Some (hd text) else last_value n s)"
  by (simp_all add: open_write_def last_value_def)

lemma last_value_other:
  "last_value n (snd (gpio_export m s)) = last_value n s" "last_value n (snd (gpio_set_dir m v s)) = last_value n s"
  "last_value n (snd (gpio_set_edge m e s)) = last_value n s" "m \<noteq> n \<Longrightarrow> last_value n (snd (gpio_set_value m w s)) = last_value n s"
  by (simp_all add: gpio_export_def gpio_set_dir_def gpio_set_edge_def gpio_set_value_def open_write_facts other_file value_file)

lemma last_value_set:
  "sf_open s (sf_writes s) (gpio_file n ''/value'') \<Longrightarrow> last_value n (snd (gpio_set_value n v s)) = Some (if v \<noteq> 0 then CHR ''1'' else CHR ''0'')"
  by (simp add: gpio_set_value_def open_write_facts)

lemma sf_open_kept [simp]:
  "sf_open (snd (gpio_export m s)) = sf_open s" "sf_open (snd (gpio_set_dir m v s)) = sf_open s"
  "sf_open (snd (gpio_set_edge m e s)) = sf_open s" "sf_open (snd (gpio_set_value m v s)) = sf_open s" "sf_open (pin_out m v s) = sf_open s"
  by (simp_all add: gpio_export_def gpio_set_dir_def gpio_set_edge_def gpio_set_value_def pin_out_def open_write_facts)

lemma do_action_open [simp]: "sf_open (do_action a s) = sf_open s"
  by (cases a) simp_all

lemma fold_do_action_open [simp]: "sf_open (fold do_action acts s) = sf_open s"
  by (induction acts arbitrary: s) simp_all

lemma fold_do_action_other:
  "(\<forall>v. Gpio n v \<notin> set acts) \<Longrightarrow> last_value n (fold do_action acts s) = last_value n s"
proof (induction acts arbitrary: s)
  case (Cons a acts)
  have "last_value n (do_action a s) = last_value n s"
    using Cons.prems by (cases a) (auto simp: last_value_other)
  then show ?case using Cons by simp
qed simp

lemma GpioInit_door:
  assumes "\<And>h. sf_open s h (gpio_file GPIO_DOOR_pin ''/value'')"
  shows "last_value GPIO_DOOR_pin (snd (GpioInit s)) = Some CHR ''1''" "sf_open (snd (GpioInit s)) = sf_open s"
proof -
  have "GPIO_LED_SYS = GPIO_DOOR_pin" by (simp add: GPIO_LED_SYS_def GPIO_DOOR_pin_def)
  then show "last_value GPIO_DOOR_pin (snd (GpioInit s)) = Some CHR ''1''"
    using assms by (simp add: GpioInit_def pin_out_def last_value_set)
qed (simp add: GpioInit_def)

lemma set_door_last:
  assumes "\<And>h. sf_open s h (gpio_file GPIO_DOOR_pin ''/value'')" "vs \<noteq> []"
  shows "last_value GPIO_DOOR_pin (set_door vs s) = Some (if last vs then CHR ''1'' else CHR ''0'')"
proof -
  have open_kept: "sf_open (set_door us s) = sf_open s" for us
    unfolding set_door_def by (induction us arbitrary: s) simp_all
  have "set_door vs s = snd (gpio_set_value GPIO_DOOR_pin (if last vs then 1 else 0) (set_door (butlast vs) s))"
    using assms(2) by (cases vs rule: rev_cases) (simp_all add: set_door_def)
  then show ?thesis using assms(1) by (simp add: last_value_set open_kept)
qed

subsection \<open>Properties\<close>

text \<open>C16: the pin of the door is the pin of the lamp of the system, so the start of the pins sets it to the value that opens the door. It
  keeps this value under all that the tasks of the music ever do, until a code has opened and closed the door for the first
  time; and a round of the lamp, if it were started, would end with the door closed.\<close>

theorem door_open_from_start:
  assumes "\<And>h. sf_open s h (gpio_file GPIO_DOOR_pin ''/value'')" "mon_run es (MonitorTaskInit clock now m) = Inr t"
  shows "\<exists>acts. m_out (t_mon t) = m_out m @ acts \<and>
    (let s1 = fold do_action acts (snd (GpioInit s)) in
       last_value GPIO_DOOR_pin s1 = Some CHR ''1'' \<and>
       last_value GPIO_DOOR_pin (set_door [True, False] s1) = Some CHR ''0'' \<and>
       (\<exists>lamp. m_out (SysLedTask_Monitor (t_mon t)) = m_out (t_mon t) @ lamp \<and>
          last_value GPIO_DOOR_pin (fold do_action lamp s1) = Some CHR ''0''))"
proof -
  obtain a where a: "m_out (t_mon t) = m_out m @ a" "set a \<subseteq> loop_actions"
    using run_did [OF MonitorTaskInit_ok assms(2)] by (auto simp: MonitorTaskInit_def)
  have "Gpio GPIO_DOOR_pin v \<notin> loop_actions" for v
    by (auto simp: loop_actions_def key_setup_def GPIO_DOOR_pin_def GPIO_39_def GPIO_42_def GPIO_PA_def GPIO_PB_def)
  then have n: "\<forall>v. Gpio GPIO_DOOR_pin v \<notin> set a" using a(2) by auto
  define s1 where "s1 = fold do_action a (snd (GpioInit s))"
  have v: "last_value GPIO_DOOR_pin s1 = Some CHR ''1''"
    unfolding s1_def by (simp only: fold_do_action_other [OF n]) (rule GpioInit_door(1) [OF assms(1)])
  have o: "sf_open s1 h (gpio_file GPIO_DOOR_pin ''/value'')" for h
    using assms(1) GpioInit_door(2) [OF assms(1)] by (simp add: s1_def)
  have lamp: "m_out (SysLedTask_Monitor (t_mon t)) = m_out (t_mon t) @ [Gpio GPIO_LED_SYS 1, Wait 100, Gpio GPIO_LED_SYS 0, Wait 100]"
    by (simp add: SysLedTask_Monitor_def)
  have "GPIO_LED_SYS = GPIO_DOOR_pin" by (simp add: GPIO_LED_SYS_def GPIO_DOOR_pin_def)
  then have "last_value GPIO_DOOR_pin (fold do_action [Gpio GPIO_LED_SYS 1, Wait 100, Gpio GPIO_LED_SYS 0, Wait 100] s1) = Some CHR ''0''"
    using o by (simp add: last_value_set)
  moreover have "last_value GPIO_DOOR_pin (set_door [True, False] s1) = Some CHR ''0''" using set_door_last [OF o, of "[True, False]"] by simp
  ultimately show ?thesis using a(1) v lamp unfolding Let_def
    by (intro exI [of _ a]) (auto simp: s1_def)
qed

theorem door_open_from_start_witness:
  "\<exists>t acts. mon_run [Play 1, Volume 1 1, Find True] (MonitorTaskInit (example_clock 1 2 3) 7 example_mon) = Inr t \<and> m_out (t_mon t) = m_out example_mon @ acts \<and>
    last_value GPIO_DOOR_pin (fold do_action acts (snd (GpioInit \<lparr>sf_open = \<lambda>_ _. True, sf_read = \<lambda>_ _. [], sf_writes = []\<rparr>))) = Some CHR ''1''"
proof -
  obtain t where t: "mon_run [Play 1, Volume 1 1, Find True] (MonitorTaskInit (example_clock 1 2 3) 7 example_mon) = Inr t"
    by (simp add: MonitorTaskInit_def mon_step_def start_ops_def set_ops_def Bofangzanting_start_def volume_start_def JianceYinpin_start_def key_setup_def)
  let ?s = "\<lparr>sf_open = \<lambda>_ _. True, sf_read = \<lambda>_ _. [], sf_writes = []\<rparr> :: sysfs"
  have "sf_open ?s h (gpio_file GPIO_DOOR_pin ''/value'')" for h by simp
  from door_open_from_start [OF this t] t show ?thesis by (auto simp: Let_def)
qed

end
