(* ===== verification/Statistic.thy ===== *)
theory Statistic
  imports ParamTerm
begin

text \<open>
  The counters of the program (\<open>debug/statistic.c\<close>), which are kept over a restart in one text file of \<open>Xin\<close> for each of three
  groups, and the saving that a restart calls (\<open>sys/storage/cycsave.c\<close>). The table of the counters and the one of the functions that
  save are collected by the linker: they are arguments.
\<close>

record debug_statistic_t =
  st_count :: int
  st_group :: nat
  st_name :: string

definition STATISGROUP_MAX :: nat where "STATISGROUP_MAX = 3"
definition STATISTIC_SAVEPATH :: string where "STATISTIC_SAVEPATH = ''/data/imet''"

definition NameSave :: "string list" where
  "NameSave = [''stat_sys.xin'', ''stat_uplink.xin'', ''stat_dwnlink.xin'']"

definition stat_file :: "nat \<Rightarrow> string" where
  "stat_file grp = STATISTIC_SAVEPATH @ NameSave ! (grp - 1)"

text \<open>The answers of the writes are not looked at.\<close>

fun save_counts :: "nat \<Rightarrow> debug_statistic_t list \<Rightarrow> xinref_t \<Rightarrow> xin_stop + xinref_t" where
  "save_counts grp [] x = Inr x"
| "save_counts grp (s # sts) x =
     (if st_group s = grp then
        (case XinWriteInt x (st_name s) (st_count s) False of Inl e \<Rightarrow> Inl e | Inr (_, x) \<Rightarrow> save_counts grp sts x)
      else save_counts grp sts x)"

fun save_groups :: "nat list \<Rightarrow> debug_statistic_t list \<Rightarrow> xinref_t \<Rightarrow> xin_stop + xinref_t" where
  "save_groups [] sts x = Inr x"
| "save_groups (grp # gs) sts x =
     (case XinOpen (stat_file grp) CHR ''w'' x of
        Inl e \<Rightarrow> Inl e
      | Inr (False, x) \<Rightarrow> save_groups gs sts x
      | Inr (True, x) \<Rightarrow>
          (case save_counts grp sts x of Inl e \<Rightarrow> Inl e | Inr x \<Rightarrow> save_groups gs sts (XinClose x)))"

definition SaveStatistics :: "debug_statistic_t list \<Rightarrow> xinref_t \<Rightarrow> xin_stop + xinref_t" where
  "SaveStatistics sts x = save_groups [1..<Suc STATISGROUP_MAX] sts x"

fun load_counts :: "nat \<Rightarrow> debug_statistic_t list \<Rightarrow> xinref_t \<Rightarrow> xin_stop + (debug_statistic_t list \<times> xinref_t)" where
  "load_counts grp [] x = Inr ([], x)"
| "load_counts grp (s # sts) x =
     (if st_group s = grp then
        (case XinReadInt x (st_name s) (st_count s) of
           Inl e \<Rightarrow> Inl e
         | Inr (n, x) \<Rightarrow> map_sum id (apfst ((#) (s\<lparr>st_count := n\<rparr>))) (load_counts grp sts x))
      else map_sum id (apfst ((#) s)) (load_counts grp sts x))"

fun load_groups :: "nat list \<Rightarrow> debug_statistic_t list \<Rightarrow> xinref_t \<Rightarrow> xin_stop + (debug_statistic_t list \<times> xinref_t)" where
  "load_groups [] sts x = Inr (sts, x)"
| "load_groups (grp # gs) sts x =
     (case XinOpen (stat_file grp) CHR ''r'' x of
        Inl e \<Rightarrow> Inl e
      | Inr (False, x) \<Rightarrow> load_groups gs sts x
      | Inr (True, x) \<Rightarrow>
          (case load_counts grp sts x of Inl e \<Rightarrow> Inl e | Inr (sts, x) \<Rightarrow> load_groups gs sts (XinClose x)))"

definition LoadDebugStatistics :: "debug_statistic_t list \<Rightarrow> xinref_t \<Rightarrow> xin_stop + (debug_statistic_t list \<times> xinref_t)" where
  "LoadDebugStatistics sts x = load_groups [1..<Suc STATISGROUP_MAX] sts x"

text \<open>The functions that save, each with its flag.\<close>

definition CYCSAVE_FLAG_RESET :: u32 where "CYCSAVE_FLAG_RESET = 1"

definition SysCycleSave :: "bool \<Rightarrow> (('s \<Rightarrow> 's) \<times> u32) list \<Rightarrow> 's \<Rightarrow> 's" where
  "SysCycleSave flag funcs s =
     fold (\<lambda>(pfunc, fl) s. if fl AND CYCSAVE_FLAG_RESET \<noteq> 0 then (if flag then pfunc s else s) else pfunc s) funcs s"

subsection \<open>One group\<close>

definition group_lines :: "nat \<Rightarrow> debug_statistic_t list \<Rightarrow> (string \<times> xin_value) list" where
  "group_lines grp sts = map (\<lambda>s. (st_name s, XInt (st_count s) False)) (filter (\<lambda>s. st_group s = grp) sts)"

lemma group_lines_simps [simp]:
  "group_lines grp [] = []"
  "group_lines grp (s # sts) = (if st_group s = grp then (st_name s, XInt (st_count s) False) # group_lines grp sts else group_lines grp sts)"
  by (simp_all add: group_lines_def)

definition lines_text :: "(string \<times> xin_value) list \<Rightarrow> string" where
  "lines_text ls = xin_text (map text_line ls)"

lemma XinWriteInt_fits:
  assumes "wrote ls x" "no_nul n" "length (xin_text (ls @ [(n, dec_int i)])) \<le> XIN_MAXSIZE"
  shows "\<exists>x'. XinWriteInt x n i False = Inr (0, x') \<and> wrote (ls @ [(n, dec_int i)]) x' \<and> xr_fs x' = xr_fs x \<and> xr_filename x' = xr_filename x"
proof -
  have l: "length (xin_text ls) = xr_len x" using wrote_length [OF assms(1)] .
  have f: "xr_openflag x = CHR ''w''" "xr_pscan x = xr_len x" "length (xr_buffer x) = XIN_MAXSIZE + 128" using assms(1) by (simp_all add: wrote_def)
  have "xr_len x + (length n + 1 + length (dec_int i)) + 1 \<le> XIN_MAXSIZE" using assms(3) l by (simp add: xin_text_snoc)
  then have "\<exists>x'. xin_append x (n @ CHR ''='' # dec_int i) = Inr (0, x')"
    using f by (simp add: xin_append_def put_at_def Let_def)
  then obtain x' where x': "xin_append x (n @ CHR ''='' # dec_int i) = Inr (0, x')" ..
  then have "XinWriteInt x n i False = Inr (0, x')" using f assms(2) by (simp add: XinWriteInt_def)
  then show ?thesis using xin_append_wrote [OF assms(1) x'] by blast
qed

lemma save_counts_wrote:
  assumes "list_all (\<lambda>s. no_nul (st_name s)) sts" "length (xin_text (ls @ map text_line (group_lines grp sts))) \<le> XIN_MAXSIZE" "wrote ls x"
  shows "\<exists>x'. save_counts grp sts x = Inr x' \<and> wrote (ls @ map text_line (group_lines grp sts)) x' \<and> xr_fs x' = xr_fs x \<and> xr_filename x' = xr_filename x"
  using assms
proof (induction sts arbitrary: ls x)
  case (Cons s sts)
  show ?case
  proof (cases "st_group s = grp")
    case True
    have t: "text_line (st_name s, XInt (st_count s) False) = (st_name s, dec_int (st_count s))" by (simp add: text_line_def value_text_def)
    have "length (xin_text (ls @ [(st_name s, dec_int (st_count s))])) \<le> XIN_MAXSIZE"
      using Cons.prems(2) True by (simp add: t xin_text_append [of _ "_ # _"] xin_text_append xin_text_def)
    then obtain y where y: "XinWriteInt x (st_name s) (st_count s) False = Inr (0, y)" "wrote (ls @ [(st_name s, dec_int (st_count s))]) y"
      "xr_fs y = xr_fs x" "xr_filename y = xr_filename x" using XinWriteInt_fits [OF Cons.prems(3)] Cons.prems(1) by auto
    then show ?thesis using Cons.IH [OF _ _ y(2)] Cons.prems True by (simp add: t)
  next
    case False
    then show ?thesis using Cons by simp
  qed
qed simp

lemma XinWriteOpen:
  assumes "xin_ready x" "length f < XIN_MAXFILENAME"
  shows "\<exists>y. XinOpen f CHR ''w'' x = Inr (True, y) \<and> wrote [] y \<and> xr_fs y = xr_fs x \<and> xr_filename y = f"
  using assms by (simp add: XinOpen_def xin_ready_def wrote_def xin_text_def)

lemma XinClose_empty: "wrote [] y \<Longrightarrow> xin_ready (XinClose y) \<and> xr_fs (XinClose y) = xr_fs y"
  using wrote_length [of "[]" y] by (auto simp: wrote_def XinClose_def xin_ready_def xin_text_def)

lemma save_group_ok:
  assumes x: "xin_ready x" "can_write (xr_fs x) f" "length f < XIN_MAXFILENAME"
    and s: "list_all (\<lambda>s. no_nul (st_name s)) sts" "length (lines_text (group_lines g sts)) \<le> XIN_MAXSIZE"
  shows "\<exists>y1 y2. XinOpen f CHR ''w'' x = Inr (True, y1) \<and> save_counts g sts y1 = Inr y2 \<and> xin_ready (XinClose y2) \<and>
    xr_fs (XinClose y2) = (if group_lines g sts = [] then xr_fs x
      else fs_write f (xin_head (lines_text (group_lines g sts)) @ bytes_of (lines_text (group_lines g sts))) (xr_fs x))"
proof -
  obtain y1 where y1: "XinOpen f CHR ''w'' x = Inr (True, y1)" "wrote [] y1" "xr_fs y1 = xr_fs x" "xr_filename y1 = f"
    using XinWriteOpen [OF x(1,3)] by blast
  obtain y2 where y2: "save_counts g sts y1 = Inr y2" "wrote (map text_line (group_lines g sts)) y2" "xr_fs y2 = xr_fs x" "xr_filename y2 = f"
    using save_counts_wrote [OF s(1), of "[]" g y1] s(2) y1 by (auto simp: lines_text_def)
  show ?thesis
  proof (cases "group_lines g sts = []")
    case True
    then show ?thesis using y1(1) y2 XinClose_empty [of y2] by auto
  next
    case False
    have l: "length (xr_buffer y2) = XIN_MAXSIZE + 128" using y2(2) by (simp add: wrote_def)
    have n: "map text_line (group_lines g sts) \<noteq> []" using False by simp
    have c: "can_write (xr_fs y2) (xr_filename y2)" using x(2) y2 by simp
    note cl = XinClose_file [OF y2(2) n c]
    then show ?thesis using False y1(1) y2 l by (auto simp: xin_ready_def lines_text_def)
  qed
qed

subsection \<open>The three files\<close>

definition stat_content :: "nat \<Rightarrow> debug_statistic_t list \<Rightarrow> bytes" where
  "stat_content g sts = xin_head (lines_text (group_lines g sts)) @ bytes_of (lines_text (group_lines g sts))"

text \<open>The names of a group are told apart and fit in the file, and the counts are numbers of the type \<open>int\<close>.\<close>

definition counters_ok :: "debug_statistic_t list \<Rightarrow> bool" where
  "counters_ok sts \<longleftrightarrow> list_all (\<lambda>s. name_ok (st_name s) \<and> int_ok (st_count s)) sts \<and>
     list_all (\<lambda>g. distinct_names (group_lines g sts) \<and> length (lines_text (group_lines g sts)) \<le> XIN_MAXSIZE) [1, 2, 3]"

definition same_table :: "debug_statistic_t list \<Rightarrow> debug_statistic_t list \<Rightarrow> bool" where
  "same_table ts sts \<longleftrightarrow> map (\<lambda>s. (st_group s, st_name s)) ts = map (\<lambda>s. (st_group s, st_name s)) sts"

lemma stat_files: "g \<in> {1, 2, 3} \<Longrightarrow> h \<in> {1, 2, 3} \<Longrightarrow> stat_file g = stat_file h \<longleftrightarrow> g = h" "g \<in> {1, 2, 3} \<Longrightarrow> length (stat_file g) < XIN_MAXFILENAME"
  by (auto simp: stat_file_def NameSave_def STATISTIC_SAVEPATH_def XIN_MAXFILENAME_def)

lemma save_groups_ok:
  assumes "counters_ok sts"
  shows "distinct gs \<Longrightarrow> set gs \<subseteq> {1, 2, 3} \<Longrightarrow> xin_ready x \<Longrightarrow> \<forall>g \<in> {1, 2, 3}. can_write (xr_fs x) (stat_file g) \<Longrightarrow>
    \<exists>y. save_groups gs sts x = Inr y \<and> xin_ready y \<and>
      (\<forall>g \<in> {1, 2, 3}. files (xr_fs y) (stat_file g) =
        (if g \<in> set gs \<and> group_lines g sts \<noteq> [] then Some (stat_content g sts) else files (xr_fs x) (stat_file g)))"
proof (induction gs arbitrary: x)
  case (Cons g gs)
  have g: "g \<in> {1, 2, 3}" "g \<notin> set gs" using Cons.prems by auto
  have s: "list_all (\<lambda>s. no_nul (st_name s)) sts" "length (lines_text (group_lines g sts)) \<le> XIN_MAXSIZE"
    using assms g(1) by (auto simp: counters_ok_def list_all_iff name_ok_def)
  have c: "can_write (xr_fs x) (stat_file g)" using Cons.prems(4) g(1) by blast
  obtain y1 y2 where y: "XinOpen (stat_file g) CHR ''w'' x = Inr (True, y1)" "save_counts g sts y1 = Inr y2" "xin_ready (XinClose y2)"
    "xr_fs (XinClose y2) = (if group_lines g sts = [] then xr_fs x else fs_write (stat_file g) (stat_content g sts) (xr_fs x))"
    using save_group_ok [OF Cons.prems(3) c stat_files(2) [OF g(1)] s] by (auto simp: stat_content_def)
  have "\<forall>g \<in> {1, 2, 3}. can_write (xr_fs (XinClose y2)) (stat_file g)" using Cons.prems(4) y(4) by (simp add: fs_write_def)
  then obtain z where z: "save_groups gs sts (XinClose y2) = Inr z" "xin_ready z"
    "\<forall>g \<in> {1, 2, 3}. files (xr_fs z) (stat_file g) =
        (if g \<in> set gs \<and> group_lines g sts \<noteq> [] then Some (stat_content g sts) else files (xr_fs (XinClose y2)) (stat_file g))"
    using Cons.IH [OF _ _ y(3)] Cons.prems by auto
  have "files (xr_fs z) (stat_file h) = (if h \<in> set (g # gs) \<and> group_lines h sts \<noteq> [] then Some (stat_content h sts) else files (xr_fs x) (stat_file h))"
    if h: "h \<in> {1, 2, 3}" for h
    using z(3) [rule_format, OF h] stat_files(1) [OF h g(1)] y(4) g(2) by (auto simp: fs_write_def)
  then show ?case using z(1,2) y(1,2) by (intro exI [of _ z]) auto
qed simp

text \<open>Reading a group: every counter of it gets the count that was saved under its name.\<close>

definition saved_count :: "debug_statistic_t list \<Rightarrow> debug_statistic_t \<Rightarrow> int" where
  "saved_count sts t = (case find (\<lambda>s. st_group s = st_group t \<and> st_name s = st_name t) sts of None \<Rightarrow> st_count t | Some s \<Rightarrow> st_count s)"

definition restored_in :: "nat set \<Rightarrow> debug_statistic_t list \<Rightarrow> debug_statistic_t list \<Rightarrow> debug_statistic_t list" where
  "restored_in G sts ts = map (\<lambda>t. if st_group t \<in> G then t\<lparr>st_count := saved_count sts t\<rparr> else t) ts"

lemma restored_in_simps:
  "restored_in G sts [] = []"
  "restored_in G sts (t # ts) = (if st_group t \<in> G then t\<lparr>st_count := saved_count sts t\<rparr> else t) # restored_in G sts ts"
  by (simp_all add: restored_in_def)

lemma same_table_restored: "same_table ts sts \<Longrightarrow> same_table (restored_in G sts ts) sts"
proof -
  have "map (\<lambda>s. (st_group s, st_name s)) (restored_in G sts ts) = map (\<lambda>s. (st_group s, st_name s)) ts"
    by (induction ts) (auto simp: restored_in_simps)
  then show "same_table ts sts \<Longrightarrow> same_table (restored_in G sts ts) sts" by (simp only: same_table_def)
qed

lemma restored_in_twice: "restored_in G sts (restored_in H sts ts) = restored_in (G \<union> H) sts ts"
  by (induction ts) (auto simp: restored_in_simps saved_count_def split: option.splits)

lemma same_table_member:
  assumes "same_table ts sts" "t \<in> set ts"
  shows "\<exists>s \<in> set sts. st_group s = st_group t \<and> st_name s = st_name t \<and> saved_count sts t = st_count s"
proof -
  have "(st_group t, st_name t) \<in> set (map (\<lambda>s. (st_group s, st_name s)) ts)" using assms(2) by auto
  then have "(st_group t, st_name t) \<in> set (map (\<lambda>s. (st_group s, st_name s)) sts)" using assms(1) by (simp only: same_table_def)
  then have "find (\<lambda>s. st_group s = st_group t \<and> st_name s = st_name t) sts \<noteq> None" by (auto simp: find_None_iff)
  then obtain s where f: "find (\<lambda>s. st_group s = st_group t \<and> st_name s = st_name t) sts = Some s" by blast
  then have "s \<in> set sts" "st_group s = st_group t" "st_name s = st_name t" by (auto simp: find_Some_iff)
  then show ?thesis using f by (auto simp: saved_count_def)
qed

lemma XinReadInt_counter:
  assumes t: "counters_ok sts" and g: "g \<in> {1, 2, 3}" and o: "opened (group_lines g sts) x"
    and s: "s \<in> set sts" "st_group s = g"
  shows "\<exists>y. XinReadInt x (st_name s) d = Inr (st_count s, y) \<and> opened (group_lines g sts) y \<and> xr_fs y = xr_fs x \<and> xr_buffer y = xr_buffer x"
proof -
  have ok: "\<forall>l \<in> set (group_lines g sts). name_ok (fst l) \<and> value_ok (snd l)"
    using t by (auto simp: group_lines_def counters_ok_def list_all_iff value_ok_def int_ok_def)
  have d: "distinct_names (group_lines g sts)" using t g by (auto simp: counters_ok_def)
  have l: "(st_name s, XInt (st_count s) False) \<in> set (group_lines g sts)" using s by (auto simp: group_lines_def)
  obtain y where y: "FindVariable x (st_name s) = Inr (Some (value_text (XInt (st_count s) False)), y)" "opened (group_lines g sts) y"
    using FindVariable_line [OF o ok d l] by auto
  have "xr_fs y = xr_fs x" "xr_buffer y = xr_buffer x" using y(1) by (auto simp: FindVariable_def split: sum.splits)
  moreover have "value_ok (XInt (st_count s) False)" using ok l by auto
  ultimately show ?thesis using y o XinStrToInt_text by (auto simp: XinReadInt_def opened_def)
qed

lemma load_counts_ok:
  assumes t: "counters_ok sts" and g: "g \<in> {1, 2, 3}"
  shows "opened (group_lines g sts) x \<Longrightarrow> \<forall>t \<in> set ts. \<exists>s \<in> set sts. st_group s = st_group t \<and> st_name s = st_name t \<and> saved_count sts t = st_count s \<Longrightarrow>
    \<exists>y. load_counts g ts x = Inr (restored_in {g} sts ts, y) \<and> opened (group_lines g sts) y \<and> xr_fs y = xr_fs x \<and> xr_buffer y = xr_buffer x"
proof (induction ts arbitrary: x)
  case (Cons u ts)
  obtain s where s: "s \<in> set sts" "st_group s = st_group u" "st_name s = st_name u" "saved_count sts u = st_count s" using Cons.prems(2) by auto
  show ?case
  proof (cases "st_group u = g")
    case True
    obtain y where y: "XinReadInt x (st_name u) (st_count u) = Inr (st_count s, y)" "opened (group_lines g sts) y" "xr_fs y = xr_fs x" "xr_buffer y = xr_buffer x"
      using XinReadInt_counter [OF t g Cons.prems(1) s(1), of "st_count u"] s True by auto
    obtain z where "load_counts g ts y = Inr (restored_in {g} sts ts, z)" "opened (group_lines g sts) z" "xr_fs z = xr_fs y" "xr_buffer z = xr_buffer y"
      using Cons.IH [OF y(2)] Cons.prems(2) by auto
    then show ?thesis using y True s(4) by (simp add: restored_in_simps)
  next
    case False
    obtain z where "load_counts g ts x = Inr (restored_in {g} sts ts, z)" "opened (group_lines g sts) z" "xr_fs z = xr_fs x" "xr_buffer z = xr_buffer x"
      using Cons.IH [OF Cons.prems(1)] Cons.prems(2) by auto
    then show ?thesis using False by (simp add: restored_in_simps)
  qed
qed (simp add: restored_in_simps)

text \<open>A file of a group without counters can hold anything.\<close>

lemma XinOpen_read_total:
  assumes "length buffer = XIN_MAXSIZE + 128"
  shows "\<exists>b buf n. XinOpen_read content buffer = Some (b, buf, n) \<and> length buf = XIN_MAXSIZE + 128"
proof (cases "fread1 8 content")
  case (Some p)
  obtain hb rest where p: "p = (hb, rest)" by (cases p)
  define len where "len = unat (u16_of (hb ! 4) (hb ! 5))"
  have "length (string_of (take len rest)) \<le> len" by (simp add: string_of_def)
  then show ?thesis using Some p assms unfolding XinOpen_read_def
    by (auto simp: len_def [symmetric] put_at_def Let_def)
qed (use assms in \<open>auto simp: XinOpen_read_def intro: exI [of _ False]\<close>)

lemma XinOpen_read_ready:
  assumes "xin_ready x" "length f < XIN_MAXFILENAME"
  shows "\<exists>b y. XinOpen f CHR ''r'' x = Inr (b, y) \<and> xr_fs y = xr_fs x \<and> (if b then xin_ready (XinClose y) \<and> xr_fs (XinClose y) = xr_fs x else xin_ready y)"
proof (cases "files (xr_fs x) f")
  case (Some content)
  obtain b buf n where "XinOpen_read content (xr_buffer x) = Some (b, buf, n)" "length buf = XIN_MAXSIZE + 128"
    using XinOpen_read_total [of "xr_buffer x" content] assms(1) by (auto simp: xin_ready_def)
  then show ?thesis using Some assms by (cases b) (auto simp: XinOpen_def xin_ready_def XinClose_def Let_def)
qed (use assms in \<open>auto simp: XinOpen_def xin_ready_def intro: exI [of _ False]\<close>)

lemma load_counts_none: "\<forall>t \<in> set ts. st_group t \<noteq> g \<Longrightarrow> load_counts g ts x = Inr (ts, x) \<and> restored_in {g} sts ts = ts"
  by (induction ts) (auto simp: restored_in_simps)

lemma opened_ready:
  assumes "xin_ready x" "opened ls y" "xr_buffer z = xr_buffer y" "opened ls z" "length (xr_buffer y) = XIN_MAXSIZE + 128"
  shows "xin_ready (XinClose z) \<and> xr_fs (XinClose z) = xr_fs z"
  using assms by (auto simp: opened_def XinClose_def xin_ready_def)

lemma load_group_ok:
  assumes t: "counters_ok sts" "same_table ts sts" and g: "g \<in> {1, 2, 3}" and z: "xin_ready z"
    and f: "group_lines g sts \<noteq> [] \<longrightarrow> files (xr_fs z) (stat_file g) = Some (stat_content g sts)"
  shows "\<exists>y. xin_ready y \<and> xr_fs y = xr_fs z \<and> load_groups (g # gs) ts z = load_groups gs (restored_in {g} sts ts) y"
proof -
  have n: "length (stat_file g) < XIN_MAXFILENAME" using stat_files(2) [OF g] .
  have m: "\<forall>t \<in> set ts. \<exists>s \<in> set sts. st_group s = st_group t \<and> st_name s = st_name t \<and> saved_count sts t = st_count s"
    using same_table_member [OF t(2)] by blast
  obtain b y where y: "XinOpen (stat_file g) CHR ''r'' z = Inr (b, y)" "xr_fs y = xr_fs z"
    "if b then xin_ready (XinClose y) \<and> xr_fs (XinClose y) = xr_fs z else xin_ready y"
    using XinOpen_read_ready [OF z n] by blast
  show ?thesis
  proof (cases "group_lines g sts = []")
    case True
    then have "\<forall>t \<in> set ts. st_group t \<noteq> g" using m by (fastforce simp: group_lines_def filter_empty_conv)
    then show ?thesis using y load_counts_none [of ts g _ sts] by (cases b) auto
  next
    case False
    let ?ls = "group_lines g sts"
    have l: "lines_text ?ls \<noteq> []" "length (lines_text ?ls) \<le> XIN_MAXSIZE"
      using False t(1) g xin_text_nonempty [of "map text_line ?ls"] by (auto simp: lines_text_def counters_ok_def)
    have c: "files (xr_fs z) (stat_file g) = Some (xin_head (lines_text ?ls) @ bytes_of (lines_text ?ls))" using f False by (simp add: stat_content_def)
    obtain y' rest where y': "XinOpen (stat_file g) CHR ''r'' z = Inr (True, y')" "xr_openflag y' = CHR ''r''" "xr_pscan y' = 0"
        "xr_buffer y' = lines_text ?ls @ CHR 0x00 # rest"
      using XinOpen_file [OF c _ n l] z by (auto simp: xin_ready_def)
    then have b: "b" "y' = y" using y(1) by auto
    have o: "opened ?ls y" using y' by (auto simp: b(2) opened_def lines_text_def intro: exI [of _ 0])
    obtain w where w: "load_counts g ts y = Inr (restored_in {g} sts ts, w)" "opened ?ls w" "xr_fs w = xr_fs y" "xr_buffer w = xr_buffer y"
      using load_counts_ok [OF t(1) g o m] by blast
    have "length (xr_buffer y) = XIN_MAXSIZE + 128" using y(3) b o by (simp add: xin_ready_def XinClose_def opened_def)
    then have "xin_ready (XinClose w)" "xr_fs (XinClose w) = xr_fs z" using opened_ready [OF z o w(4,2)] w(3) y(2) by simp_all
    then show ?thesis using y(1) b(1) w(1) by auto
  qed
qed

lemma load_groups_ok:
  assumes "counters_ok sts"
  shows "same_table ts sts \<Longrightarrow> set gs \<subseteq> {1, 2, 3} \<Longrightarrow> xin_ready z \<Longrightarrow>
    \<forall>g \<in> {1, 2, 3}. group_lines g sts \<noteq> [] \<longrightarrow> files (xr_fs z) (stat_file g) = Some (stat_content g sts) \<Longrightarrow>
    \<exists>w. load_groups gs ts z = Inr (restored_in (set gs) sts ts, w) \<and> xin_ready w"
proof (induction gs arbitrary: ts z)
  case Nil
  then show ?case by (auto simp: restored_in_def)
next
  case (Cons g gs)
  have g: "g \<in> {1, 2, 3}" using Cons.prems(2) by auto
  obtain y where y: "xin_ready y" "xr_fs y = xr_fs z" "load_groups (g # gs) ts z = load_groups gs (restored_in {g} sts ts) y"
    using load_group_ok [OF assms Cons.prems(1) g Cons.prems(3)] Cons.prems(4) g by blast
  have "\<exists>w. load_groups gs (restored_in {g} sts ts) y = Inr (restored_in (set gs) sts (restored_in {g} sts ts), w) \<and> xin_ready w"
    by (rule Cons.IH [OF same_table_restored [OF Cons.prems(1)] _ y(1)]) (use Cons.prems y(2) in auto)
  then show ?case using y(3) by (simp add: restored_in_twice)
qed

subsection \<open>Properties\<close>

text \<open>C24: the counters of the three groups that were saved are loaded again after a restart, whatever the counters hold then, and the
  counters of no group stay as they are.\<close>

theorem statistics_restored:
  assumes "counters_ok sts" "same_table ts sts" "xin_ready x" "list_all (\<lambda>g. can_write (xr_fs x) (stat_file g)) [1, 2, 3]"
  shows "\<exists>y. SaveStatistics sts x = Inr y \<and> xin_ready y \<and>
    (\<forall>z. xin_ready z \<and> xr_fs z = xr_fs y \<longrightarrow>
      (\<exists>w. LoadDebugStatistics ts z = Inr (map (\<lambda>t. if st_group t \<in> {1, 2, 3} then t\<lparr>st_count := saved_count sts t\<rparr> else t) ts, w)))"
proof -
  have r: "[1..<Suc STATISGROUP_MAX] = [1, 2, 3]" by (simp add: STATISGROUP_MAX_def upt_rec)
  obtain y where y: "save_groups [1, 2, 3] sts x = Inr y" "xin_ready y"
    "\<forall>g \<in> {1, 2, 3}. group_lines g sts \<noteq> [] \<longrightarrow> files (xr_fs y) (stat_file g) = Some (stat_content g sts)"
    using save_groups_ok [OF assms(1), of "[1, 2, 3]" x] assms(3,4) by auto
  have "\<exists>w. load_groups [1, 2, 3] ts z = Inr (restored_in {1, 2, 3} sts ts, w)" if "xin_ready z" "xr_fs z = xr_fs y" for z
    using load_groups_ok [OF assms(1,2), of "[1, 2, 3]" z] that y(3) by auto
  then show ?thesis using y(1,2) unfolding SaveStatistics_def LoadDebugStatistics_def r restored_in_def by blast
qed

text \<open>The counters that the files of the program declare.\<close>

definition counters :: "int \<Rightarrow> int \<Rightarrow> debug_statistic_t list" where
  "counters sent received =
     [\<lparr>st_count = 7, st_group = 0, st_name = ''dummy''\<rparr>, \<lparr>st_count = 0, st_group = 3, st_name = ''dummy_dwnlink''\<rparr>,
      \<lparr>st_count = sent, st_group = 1, st_name = ''rs4850_sendbytes''\<rparr>, \<lparr>st_count = received, st_group = 1, st_name = ''rs4850_recvbytes''\<rparr>]"

theorem statistics_restored_witness:
  "\<exists>y w. SaveStatistics (counters 12 305) xin_idle = Inr y \<and> LoadDebugStatistics (counters 0 0) y = Inr (counters 12 305, w)"
proof -
  have t: "counters_ok (counters 12 305)"
    by (auto simp: counters_ok_def counters_def name_ok_def no_nul_def int_ok_def distinct_names_def same_name_def group_lines_def lines_text_def xin_text_def xin_line_def
        text_line_def value_text_def dec_int_def dec_nat.simps XIN_MAXSIZE_def)
  have s: "same_table (counters 0 0) (counters 12 305)" by (simp add: same_table_def counters_def)
  have x: "xin_ready xin_idle" "list_all (\<lambda>g. can_write (xr_fs xin_idle) (stat_file g)) [1, 2, 3]" by (simp_all add: xin_ready_def xin_idle_def)
  have "map (\<lambda>t. if st_group t \<in> {1, 2, 3} then t\<lparr>st_count := saved_count (counters 12 305) t\<rparr> else t) (counters 0 0) = counters 12 305"
    by (simp add: counters_def saved_count_def)
  then show ?thesis using statistics_restored [OF t s x] by auto
qed

end
