(* ===== verification/Device.thy ===== *)
theory Device
  imports ParamTerm
begin

text \<open>
  The code of the device and its registration (\<open>param/term.c\<close>): the start reads the serial number from the configuration of the
  system into \<open>device_code\<close> after it has cleared all parameters, and \<open>main\<close> ends when that fails. What the command of the
  configuration answers is an argument; a write behind an array is \<open>None\<close>.
\<close>

definition zero_camera :: camera where
  "zero_camera = \<lparr>cam_index = 0, cam_nchanel = 0, cam_fac_type = 0, cam_net_port = 0, cam_net_addr = replicate 32 CHR 0x00,
     cam_username = replicate 16 CHR 0x00, cam_password = replicate 16 CHR 0x00, cam_videoname = replicate 16 CHR 0x00\<rparr>"

definition zero_portcfg :: portcfg_t where
  "zero_portcfg = \<lparr>pc_valid = 0, pc_baud = 0, pc_parity = 0, pc_databits = 0, pc_stopbits = 0, pc_func = 0\<rparr>"

definition zero_term :: para_term_tG where
  "zero_term = \<lparr>pt_svraddr = replicate 10 0, pt_svraddr_1 = replicate 10 0, pt_svraddr_2 = replicate 10 0, pt_sms_addr = replicate 16 0,
     pt_gate_addr = replicate 10 0, pt_apn = replicate 16 CHR 0x00, pt_MusicState = 0, pt_deviceid = replicate 8 0,
     pt_ledscreenPort = 0, pt_strledscreenaddr = replicate 16 CHR 0x00, pt_strmusicpwd = replicate 16 CHR 0x00, pt_music_volume = 0,
     pt_first_start = 0, pt_Musicmonth = 0, pt_login_update_system = 0, pt_login_down_musice = 0,
     pt_cdma_usr = replicate 32 CHR 0x00, pt_cdma_pwd = replicate 32 CHR 0x00, pt_nor_pwd = replicate 3 0, pt_com_pwd = replicate 4 0,
     pt_adm_pwd = replicate 3 0, pt_search_device = 0, pt_task_starthour = 0, pt_task_startdev = 0, pt_plc_route_type = 0,
     pt_gate_linewaste = replicate 2 0, pt_hour_upimpdata = 0, pt_hour_updaydata = 0, pt_alarm_flag = 0, pt_cascade_addr = replicate 16 0,
     pt_cascade_flag = 0, pt_day_read_mondata = 0, pt_hour_read_mondata = 0, pt_day_up_mondata = 0, pt_hour_up_mondata = 0,
     pt_peibian_addr = replicate 4 0, pt_device_code = replicate 16 CHR 0x00, pt_ct = replicate 2 0, pt_autoflag = 0,
     pt_register_code = replicate 13 CHR 0x00, pt_camerainfo = replicate MAX_CAMERA_NUM zero_camera, pt_port = replicate PORTCFG_NUM zero_portcfg\<rparr>"

text \<open>The answer of the command to a question for the serial number, a line.\<close>

definition MakeDeviceCode :: "string option \<Rightarrow> (int \<times> para_term_tG) option" where
  "MakeDeviceCode popen =
     (let p = zero_term in
      case popen of
        None \<Rightarrow> Some (- 1, p)
      | Some answer \<Rightarrow>
          let str_tmp = cstr (take 99 answer) in
          if take 4 str_tmp = ''uci:'' \<or> length str_tmp < 3 then Some (0, p)
          else map_option (\<lambda>code. (0, p\<lparr>pt_device_code := code\<rparr>)) (put_at (pt_device_code p) 0 (butlast str_tmp @ [CHR 0x00])))"

text \<open>Setting a value runs a command with it, and takes what the command answers for the new value.\<close>

definition setuciConfigvar :: "(string \<Rightarrow> string option) \<Rightarrow> string \<Rightarrow> string \<Rightarrow> (bool \<times> string) option" where
  "setuciConfigvar popen varname buffer =
     (let cmd = ''uci -c/opt/ft set ftconfig.@ftconfig[0].'' @ varname @ ''='' @ cstr buffer in
      if 256 \<le> length cmd then None
      else case popen cmd of
        None \<Rightarrow> Some (False, buffer)
      | Some answer \<Rightarrow>
          let str_tmp = cstr (take 99 answer) in
          if take 4 str_tmp = ''uci:'' \<or> length str_tmp < 2 then Some (False, buffer)
          else Some (True, put_str (butlast str_tmp) buffer))"

definition MakeRegisteCode :: string where
  "MakeRegisteCode = concat (map hex2 (replicate 6 0)) @ [CHR 0x00]"

definition SetGatewRegiste :: "string \<Rightarrow> para_term_tG \<Rightarrow> int \<times> para_term_tG" where
  "SetGatewRegiste regcode p =
     (let rightCode = MakeRegisteCode in
      if cstr rightCode = cstr regcode
      then (0, p\<lparr>pt_autoflag := 1, pt_register_code := take 13 regcode @ drop 13 (pt_register_code p)\<rparr>)
      else (- 1, p\<lparr>pt_autoflag := 1, pt_register_code := replicate 13 CHR 0x00 @ drop 13 (pt_register_code p)\<rparr>))"

definition GetDeviceCode :: "para_term_tG \<Rightarrow> u8" where "GetDeviceCode p = pt_autoflag p"

text \<open>The start of \<open>main\<close>: whether the tasks are started.\<close>

definition main_checks :: "string option \<Rightarrow> (bool \<times> para_term_tG) option" where
  "main_checks popen = map_option (apfst (\<lambda>r. r = 0)) (MakeDeviceCode popen)"

lemma put_code:
  "length code < 16 \<Longrightarrow> put_at (replicate 16 CHR 0x00) 0 (code @ [CHR 0x00]) = Some (code @ replicate (16 - length code) CHR 0x00)"
  "16 \<le> length code \<Longrightarrow> put_at (replicate 16 CHR 0x00) 0 (code @ [CHR 0x00]) = None"
proof -
  assume l: "length code < 16"
  then have e: "replicate (16 - length code) (CHR 0x00) = CHR 0x00 # replicate (15 - length code) (CHR 0x00)"
    by (cases "16 - length code") (auto simp: diff_Suc split: nat.splits)
  have d: "drop (Suc (length code)) (replicate 16 CHR 0x00) = replicate (15 - length code) CHR 0x00" by (simp only: drop_replicate) simp
  show "put_at (replicate 16 CHR 0x00) 0 (code @ [CHR 0x00]) = Some (code @ replicate (16 - length code) CHR 0x00)"
    using l unfolding e by (simp add: put_at_def d del: drop_replicate)
qed (simp add: put_at_def)

lemma cstr_code: "CHR 0x00 \<notin> set code \<Longrightarrow> cstr (code @ CHR 0x00 # rest) = code"
  by (induction code) (auto simp: cstr_def)

lemma cstr_line: "CHR 0x00 \<notin> set code \<Longrightarrow> cstr (code @ [CHR 0x0A]) = code @ [CHR 0x0A]"
  by (induction code) (auto simp: cstr_def)

lemma registration:
  "fst (SetGatewRegiste regcode p) = (if cstr regcode = ''000000000000'' then 0 else - 1)" "GetDeviceCode (snd (SetGatewRegiste regcode p)) = 1"
proof -
  have "cstr MakeRegisteCode = ''000000000000''" by code_simp
  then show "fst (SetGatewRegiste regcode p) = (if cstr regcode = ''000000000000'' then 0 else - 1)" by (auto simp: SetGatewRegiste_def)
  show "GetDeviceCode (snd (SetGatewRegiste regcode p)) = 1" by (simp add: SetGatewRegiste_def GetDeviceCode_def Let_def)
qed

text \<open>C25: the serial number the system answers is stored when it has 2 to 15 characters; a longer one is written behind its array, and
  a shorter one, or an error of the configuration, leaves no code, but the program starts all the same. It only ends when the
  command cannot be run.\<close>

theorem device_code_stored:
  assumes "CHR 0x00 \<notin> set code" "length code < 98"
  shows "main_checks None = Some (False, zero_term) \<and>
    (2 \<le> length code \<and> length code < 16 \<and> take 4 code \<noteq> ''uci:'' \<longrightarrow>
      (\<exists>p. main_checks (Some (code @ [CHR 0x0A])) = Some (True, p) \<and> cstr (pt_device_code p) = code)) \<and>
    (16 \<le> length code \<and> take 4 code \<noteq> ''uci:'' \<longrightarrow> main_checks (Some (code @ [CHR 0x0A])) = None) \<and>
    (length code < 2 \<or> take 4 code = ''uci:'' \<longrightarrow> main_checks (Some (code @ [CHR 0x0A])) = Some (True, zero_term))"
proof -
  have t: "cstr (take 99 (code @ [CHR 0x0A])) = code @ [CHR 0x0A]" using assms by (simp add: cstr_line)
  have four: "take 4 (code @ [CHR 0x0A]) = ''uci:'' \<longleftrightarrow> take 4 code = ''uci:''" by (cases "4 \<le> length code") auto
  have z: "pt_device_code zero_term = replicate 16 CHR 0x00" by (simp add: zero_term_def)
  have none: "main_checks None = Some (False, zero_term)" by (simp add: main_checks_def MakeDeviceCode_def)
  have m: "main_checks (Some (code @ [CHR 0x0A])) =
      (if take 4 code = ''uci:'' \<or> length code < 2 then Some (True, zero_term)
       else map_option (\<lambda>c. (True, zero_term\<lparr>pt_device_code := c\<rparr>)) (put_at (replicate 16 CHR 0x00) 0 (code @ [CHR 0x00])))"
    unfolding main_checks_def MakeDeviceCode_def Let_def option.case t four z by (auto simp: option.map_comp comp_def)
  have c: "cstr (code @ replicate (16 - length code) CHR 0x00) = code" if "length code < 16"
  proof -
    obtain n where "16 - length code = Suc n" using \<open>length code < 16\<close> by (metis Suc_diff_Suc)
    then show ?thesis using cstr_code [OF assms(1), of "replicate n CHR 0x00"] by simp
  qed
  show ?thesis using none put_code [of code] c unfolding m by auto
qed

theorem device_code_stored_witness:
  "\<exists>p. main_checks (Some (''00010023'' @ [CHR 0x0A])) = Some (True, p) \<and> cstr (pt_device_code p) = ''00010023''"
  using device_code_stored [of "''00010023''"] by simp

end
