(* ===== verification/Spec2Isabelle.thy ===== *)
theory Spec2Isabelle
  imports Prelude Crc Bcd Clock Timer Storage Uplink Alarm Xin ParamTerm Itemop Base64 Monitor Unique Sceneuse Restart Dbclear Downlink Qrcode Svrcomm Ethsvr Datachg Rmfiles Shell Gpio Statistic Device
begin

text \<open>
  \<^bold>\<open>SmartHomeXiugai\<close> is the C program of a gateway for homes: it plays music, reads meters and codes at
  doors over a serial bus, keeps a connection to a server, stores its parameters in text files and its data in
  checked files, and runs one thread per task. This development models the program's own logic and proves what
  makes it correct, or shows on a concrete input where it is not.

  \<^bold>\<open>Parts and theories.\<close> Every theory opens with a note on what it holds; file names are relative to
  \<open>src/\<close>, and definitions keep the names of the functions they translate.

  \<^item> \<open>Prelude\<close>: bytes and words of \<open>include/basetype.h\<close>, little- and big-endian packing, arrays with bounds, and
    the lemmas all theories share.
  \<^item> \<open>Crc\<close> (\<open>lib/crc.c\<close>, \<open>GetCRC16\<close> of \<open>lib/datachg.c\<close>): both table-driven checksums equal division by the
    polynomial, bit by bit; the checksum of a buffer does not depend on the pieces it is computed in, a change of one
    byte is detected, and the tables of \<open>GetCRC16\<close> do not tell two bytes apart.
  \<^item> \<open>Bcd\<close> (\<open>lib/bcd.c\<close>, \<open>lib/datachg.c\<close>, \<open>lib/datatype_gb.c\<close>): the codecs, which inputs they refuse and the round
    trips between numbers and their packed digits.
  \<^item> \<open>Clock\<close> (\<open>sys/syscall/time.c\<close>, \<open>lib/dbtime.c\<close>): calendar, comparison and arithmetic of times; seconds since
    1970 and the calendar are inverse, and the order of the fields is the order of the seconds.
  \<^item> \<open>Timer\<close> (\<open>sys/syscall/timer.c\<close>): cyclic timers and clock timers as arrays of nodes linked by index, with the
    three lists of each; the lists stay disjoint, complete and acyclic from the start through every operation,
    and a timer fires exactly at its periods.
  \<^item> \<open>Storage\<close> (\<open>sys/storage/bin.c\<close>, \<open>grpbin.c\<close>, \<open>flat.c\<close>): files whose head and contents carry checksums; what was
    saved is loaded and a changed file is refused.
  \<^item> \<open>Uplink\<close> (\<open>uplink/uplink_dl.c\<close>, \<open>uplink/uplink_buffer.c\<close>, \<open>svrcomm/faal_dl.c\<close> and the byte sources of
    \<open>uplink/ether.c\<close>, \<open>tcpsvr.c\<close>, \<open>localsvr.c\<close>): the frames, the receiver as a state machine over bytes and over
    calls, sending and waiting for the echo. An accepted frame was sent as one; the length that is not checked
    writes out of the packet.
  \<^item> \<open>Alarm\<close> (\<open>monitor/alarm.c\<close>, \<open>monitor/runstate.c\<close>): the ring of events refines a queue that becomes empty when
    one event too many comes, so that 1023 events are lost.
  \<^item> \<open>Xin\<close> (\<open>sys/storage/xin.c\<close>): text files of names and values with a line for their checksum.
  \<^item> \<open>ParamTerm\<close>, \<open>Unique\<close>, \<open>Sceneuse\<close> (\<open>param/term.c\<close>, \<open>param/unique.c\<close>, \<open>param/sceneuse.c\<close>): the parameters with
    their defaults, and that loading a saved file gives them back.
  \<^item> \<open>Itemop\<close> (\<open>save/itemop.c\<close>, \<open>save/para_term.c\<close>, \<open>save/para_uni.c\<close>): the data items the server reads and writes,
    with the tables and every handler.
  \<^item> \<open>Restart\<close> (\<open>param/param_init.c\<close>, \<open>param/operation.c\<close>): saving what was written, stopping and starting again.
  \<^item> \<open>Base64\<close> and \<open>Monitor\<close> (\<open>monitor/base64.c\<close>, \<open>monitor/monitor_task.c\<close>): the address of the music, the keys, the
    player, the lamps and the loops that are started for them.
  \<^item> \<open>Dbclear\<close> (\<open>downlink/dbclear.c\<close>, \<open>sys/syscall/diskspace.c\<close>): which files are removed when the disk is full.
  \<^item> \<open>Downlink\<close> (\<open>sys/driver/uart.c\<close>, \<open>rs485.c\<close>, \<open>downlink/downlink_dl.c\<close>, \<open>downlink645.c\<close>, \<open>downlink_buffer.c\<close>,
    \<open>plmdb.c\<close>, \<open>plcomm.c\<close>, \<open>pltask.c\<close>, \<open>module/rfmet.c\<close>): ports, requests, the receiver of the answers and the data.
  \<^item> \<open>Qrcode\<close> (\<open>downlink/qrcode.c\<close>): decrypting and checking a code, and opening the doors.
  \<^item> \<open>Svrcomm\<close> (\<open>uplink/keepalive.c\<close>, \<open>svrcomm.c\<close>, \<open>svrmsg.c\<close>, the task of \<open>ether.c\<close>, \<open>sys/syscall/event.c\<close>): one round
    of the task that connects, logs on, sends the notes and answers the commands.
  \<^item> \<open>Ethsvr\<close> (\<open>uplink/ethsvr.c\<close>): the server for datagrams, whose frames are served without a logon, to the sender of each.
  \<^item> \<open>Datachg\<close> (\<open>lib/datachg.c\<close>, \<open>debug/log.c\<close>): the order of bytes, numbers and addresses in decimal, and dumps.
  \<^item> \<open>Rmfiles\<close> (\<open>sys/syscall/file.c\<close>): removing the files of a directory that match a pattern.
  \<^item> \<open>Shell\<close> (\<open>debug/shell.c\<close>, \<open>ethshell.c\<close>, \<open>pipeshell.c\<close>, \<open>ttyshell.c\<close>, \<open>log.c\<close>, \<open>shellcmd.c\<close>, \<open>startarg.c\<close>, \<open>main.c\<close>): the
    index of the commands is a map of their names while it has room, the words of a line fit in their arrays, and the
    sessions that a logon opens and a timer of \<open>Timer\<close> closes implement a count of seconds.
  \<^item> \<open>Gpio\<close> (\<open>sys/driver/gpio.c\<close>): the files of the pins; the door has the pin of a lamp that is lit at the start.
  \<^item> \<open>Statistic\<close> (\<open>debug/statistic.c\<close>, \<open>sys/storage/cycsave.c\<close>): the counters that are saved at a restart are loaded again.
  \<^item> \<open>Device\<close> (\<open>param/term.c\<close>, \<open>main.c\<close>): the code of the device, which the start reads, and its registration.

  \<^bold>\<open>How they interact.\<close> A device's answer comes from a port (\<open>Downlink\<close>), is stored and noted; \<open>Svrcomm\<close> wakes on
  the note, takes events out of the ring of \<open>Alarm\<close> and sends them as frames of \<open>Uplink\<close>. A command of the server
  reaches the items of \<open>Itemop\<close>, whose handlers set flags; \<open>Restart\<close> saves the parameters with a flag through
  \<open>ParamTerm\<close>, \<open>Unique\<close> (text files of \<open>Xin\<close>) and \<open>Sceneuse\<close> (checked files of \<open>Storage\<close>) and loads them at the start.
  \<open>Qrcode\<close> works on the state of the requests of \<open>Downlink\<close>: it reads a port, pauses the music and sends what opens the
  doors of the lockers. \<open>Ethsvr\<close> gives its frames to the same commands of \<open>Svrcomm\<close> as the connection does, and \<open>Gpio\<close> carries
  out what the tasks of \<open>Monitor\<close> ask of the pins.

  \<^bold>\<open>State, errors and arrays.\<close> Structures are records, enumerations are constants of the source and machine integers
  are words, so that arithmetic wraps where the code's does; values of the C type \<open>int\<close> are integers, cut to 32 bits by
  \<open>s32\<close> where the code can leave the range. A static variable is a field of the state of its file, and each operation takes the state and returns it.
  Pointers into an array are indices. Where the code would write or read out of an array, or use a null pointer, the
  operation returns \<open>Inl\<close> with the place, or \<open>None\<close>: a theorem that it returns \<open>Inr\<close> or \<open>Some\<close> says that this cannot happen. Error codes of the
  source are values. A mutex makes one step of the operation it surrounds.

  \<^bold>\<open>Interfaces.\<close> The locales state what a client relies on, and each is interpreted on the models of the code:
  \<open>record_store\<close> (what was saved is loaded, another magic is refused, other files stay) by the checked files, and \<open>backed_record\<close>, which
  extends it by a backup, by the files of scenes and of tasks; \<open>step_checksum\<close> (a checksum that goes byte by byte) by
  the CRC; \<open>event_queue\<close> by the ring of events; \<open>byte_source\<close> and its extension \<open>uplink_itf\<close> (a source of bytes that
  also sends) by the two kinds of sockets of connections and by the one of datagrams; \<open>link_invariant\<close> (what receiving and sending keep) by a line that is off; \<open>shell_session\<close> (a shell whose sessions last a number of seconds) by the shells of the network and the pipe;
  \<open>list_walk\<close> (a walk over a linked list that may move the node it stands on) by the three walks of the timers; and
  \<open>item_writes\<close> (what every handler keeps, every write keeps) by the flags, the shapes of the arrays and the files.

  \<^bold>\<open>Loops and fuel.\<close> Loops that end by structure or by a measure are total functions. Fuel is used where the end depends on
  the state, and is proved to be enough: the walks of the timers take one unit for each of the 63 nodes (a walk that
  ran out would be \<open>None\<close>, and the reachability theorems say it is not), and the search of the next start of a clock
  timer \<open>loop_fuel\<close>, 64; the checksum of a file takes one
  unit for each byte; the search in a text file takes twice the buffer and two, more than the two passes it makes;
  receiving takes more than the bytes that wait; emptying the ring of events takes 1024, the size of the ring; and a handler
  of an item writes other items at most one level down (\<open>write_levels_enough\<close>). The loop that removes old files is a
  function on the length of the text that is left, and the loops over a bus are functions on the bytes that wait.
  The tasks run for ever: they are modelled one round at a time, and the loops of \<open>Monitor\<close> as a step relation.

  \<^bold>\<open>Inputs of the model.\<close> What the code gets from outside is an argument or a list in the state that is consumed: the clock,
  the answers of sockets and of the bus, the listing and the use of the disk, the external clock and the times \<open>localtime\<close>
  gives. No property of them is assumed beyond the hypotheses a theorem states, and each such theorem is followed by an
  application at a concrete input where they hold.

  \<^bold>\<open>Not modelled.\<close> The mail client with MD5 (\<open>mail\<close>) and the LZARI coder (\<open>utils/xzip.c\<close>) are third-party programs; the
  commands of the shells that only print are left out; the wrappers of threads, mutexes and memory in
  \<open>sys/syscall\<close> are single calls of the system; \<open>startup\<close> of \<open>main.c\<close> calls the start functions in turn; \<open>cal_pwrf\<close> and
  \<open>cal_amppola\<close> of \<open>lib/datachg.c\<close> compute in floating point;
  \<open>uplink/smspost.c\<close>, \<open>sms_tcpclient.c\<close>, \<open>monitor/client.c\<close> and \<open>netcheck.c\<close> are calls of sockets and of
  the shell; \<open>param/sqlitedb.c\<close> calls the SQLite library; \<open>param/musictask.h\<close> is included nowhere; the web pages and
  scripts under \<open>jiaobens\<close> and \<open>xinjiaobens\<close> are not C. Of the modelled files, functions that only print or that nothing
  calls are left out, as are the speed and parity of a port, opening and accepting of the sockets of connections.
\<close>

end
